(* ===== verification/Prelude.thy ===== *)
theory Prelude
  imports Main "HOL-Library.Sublist" "HOL-Library.Word" "HOL-Library.Monad_Syntax"
begin

text \<open>
  Shared vocabulary of the development: Rust byte strings and the parts of
  the Rust standard library the modelled code calls, panics as values, and
  the generic lemmas the component theories rest on.

  A Rust \<open>str\<close> or \<open>[u8]\<close> is a \<^typ>\<open>string\<close> whose characters are its bytes,
  so \<open>len()\<close> is \<^const>\<open>length\<close> and slicing counts bytes. The operations that
  look at Unicode (\<open>trim\<close>, \<open>split_whitespace\<close>, \<open>from_utf8_lossy\<close>, char
  boundaries) work on the UTF-8 encoding. Where the code slices a \<open>str\<close> at
  a position that may not be a char boundary, the model returns
  \<open>Inl CharBoundary\<close>: the Rust program panics there.
\<close>

section \<open>Automation\<close>

named_theorems rust_str \<open>lemmas on the Rust string operations\<close>
named_theorems mail_inv \<open>preservation lemmas of the component invariants\<close>

type_synonym bytes = string

section \<open>Panics as values\<close>

datatype panic = CharBoundary | ExpectFailed | IndexOutOfRange

type_synonym 'a rust = "panic + 'a"

definition bind_rust :: "'a rust \<Rightarrow> ('a \<Rightarrow> 'b rust) \<Rightarrow> 'b rust" where
  "bind_rust m f = (case m of Inl e \<Rightarrow> Inl e | Inr x \<Rightarrow> f x)"

section \<open>Bytes and ASCII\<close>

abbreviation byte :: "char \<Rightarrow> nat" where
  "byte c \<equiv> of_char c"

abbreviation CR :: char where "CR \<equiv> CHR 0x0D"
abbreviation LF :: char where "LF \<equiv> CHR 0x0A"
abbreviation NUL :: char where "NUL \<equiv> CHR 0x00"
abbreviation DQ :: char where "DQ \<equiv> CHR 0x22"
abbreviation crlf :: string where "crlf \<equiv> [CHR 0x0D, CHR 0x0A]"

definition is_ascii_digit :: "char \<Rightarrow> bool" where
  "is_ascii_digit c \<longleftrightarrow> 48 \<le> byte c \<and> byte c \<le> 57"

definition is_ascii_upper :: "char \<Rightarrow> bool" where
  "is_ascii_upper c \<longleftrightarrow> 65 \<le> byte c \<and> byte c \<le> 90"

definition is_ascii_lower :: "char \<Rightarrow> bool" where
  "is_ascii_lower c \<longleftrightarrow> 97 \<le> byte c \<and> byte c \<le> 122"

definition is_ascii_alnum :: "char \<Rightarrow> bool" where
  "is_ascii_alnum c \<longleftrightarrow> is_ascii_digit c \<or> is_ascii_upper c \<or> is_ascii_lower c"

text \<open>\<open>u8::is_ascii_whitespace\<close>: space, tab, LF, form feed, CR (not VT).\<close>

definition is_ascii_ws :: "char \<Rightarrow> bool" where
  "is_ascii_ws c \<longleftrightarrow> byte c \<in> {9, 10, 12, 13, 32}"

definition lower_c :: "char \<Rightarrow> char" where
  "lower_c c = (if is_ascii_upper c then char_of (byte c + 32) else c)"

definition upper_c :: "char \<Rightarrow> char" where
  "upper_c c = (if is_ascii_lower c then char_of (byte c - 32) else c)"

definition to_ascii_lowercase :: "string \<Rightarrow> string" where
  "to_ascii_lowercase s = map lower_c s"

definition to_ascii_uppercase :: "string \<Rightarrow> string" where
  "to_ascii_uppercase s = map upper_c s"

definition eq_ignore_ascii_case :: "string \<Rightarrow> string \<Rightarrow> bool" where
  "eq_ignore_ascii_case s t \<longleftrightarrow> to_ascii_lowercase s = to_ascii_lowercase t"

section \<open>Searching, splitting, slicing\<close>

definition strip_prefix :: "string \<Rightarrow> string \<Rightarrow> string option" where
  "strip_prefix p s = (if prefix p s then Some (drop (length p) s) else None)"

definition strip_suffix :: "string \<Rightarrow> string \<Rightarrow> string option" where
  "strip_suffix p s = (if suffix p s then Some (take (length s - length p) s) else None)"

text \<open>\<open>s.strip_suffix(p).unwrap_or(s)\<close>.\<close>

definition chomp :: "string \<Rightarrow> string \<Rightarrow> string" where
  "chomp p s = (case strip_suffix p s of Some r \<Rightarrow> r | None \<Rightarrow> s)"

text \<open>A line with its ending, without the ending.\<close>

definition line_content :: "string \<Rightarrow> string" where
  "line_content l = chomp [CR] (chomp [LF] l)"

fun find_char :: "char \<Rightarrow> string \<Rightarrow> nat option" where
  "find_char c [] = None"
| "find_char c (x # xs) = (if x = c then Some 0 else map_option Suc (find_char c xs))"

fun rfind_char :: "char \<Rightarrow> string \<Rightarrow> nat option" where
  "rfind_char c [] = None"
| "rfind_char c (x # xs) =
     (case rfind_char c xs of Some i \<Rightarrow> Some (Suc i) | None \<Rightarrow> if x = c then Some 0 else None)"

fun find_sub :: "string \<Rightarrow> string \<Rightarrow> nat option" where
  "find_sub p [] = (if p = [] then Some 0 else None)"
| "find_sub p (x # xs) = (if prefix p (x # xs) then Some 0 else map_option Suc (find_sub p xs))"

definition contains_sub :: "string \<Rightarrow> string \<Rightarrow> bool" where
  "contains_sub p s \<longleftrightarrow> find_sub p s \<noteq> None"

fun split_on :: "char \<Rightarrow> string \<Rightarrow> string list" where
  "split_on c [] = [[]]"
| "split_on c (x # xs) =
     (if x = c then [] # split_on c xs
      else (case split_on c xs of [] \<Rightarrow> [[x]] | w # ws \<Rightarrow> (x # w) # ws))"

definition split_once :: "char \<Rightarrow> string \<Rightarrow> (string \<times> string) option" where
  "split_once c s = map_option (\<lambda>i. (take i s, drop (Suc i) s)) (find_char c s)"

definition rsplit_once :: "char \<Rightarrow> string \<Rightarrow> (string \<times> string) option" where
  "rsplit_once c s = map_option (\<lambda>i. (take i s, drop (Suc i) s)) (rfind_char c s)"

text \<open>\<open>split_inclusive\<close>: every piece keeps its terminator; no empty last piece.\<close>

fun split_inclusive :: "char \<Rightarrow> string \<Rightarrow> string list" where
  "split_inclusive c [] = []"
| "split_inclusive c (x # xs) =
     (if x = c then [x] # split_inclusive c xs
      else (case split_inclusive c xs of [] \<Rightarrow> [[x]] | w # ws \<Rightarrow> (x # w) # ws))"

text \<open>
  \<open>str::is_char_boundary\<close>: a position is a boundary when it is either end
  of the string or the byte there is no UTF-8 continuation byte.
\<close>

definition is_cont_byte :: "char \<Rightarrow> bool" where
  "is_cont_byte c \<longleftrightarrow> 128 \<le> byte c \<and> byte c \<le> 191"

definition is_char_boundary :: "string \<Rightarrow> nat \<Rightarrow> bool" where
  "is_char_boundary s i \<longleftrightarrow>
     i = 0 \<or> i = length s \<or> (i < length s \<and> \<not> is_cont_byte (s ! i))"

text \<open>\<open>&s[..n]\<close> of a \<open>str\<close>: panics out of range or inside a character.\<close>

definition slice_to :: "string \<Rightarrow> nat \<Rightarrow> string rust" where
  "slice_to s n = (if is_char_boundary s n then Inr (take n s) else Inl CharBoundary)"

section \<open>Unicode white space\<close>

text \<open>The UTF-8 encodings of the characters with the White_Space property.\<close>

definition ws_encodings :: "string list" where
  "ws_encodings =
     [[CHR 0x09], [CHR 0x0A], [CHR 0x0B], [CHR 0x0C], [CHR 0x0D], [CHR 0x20],
      [CHR 0xC2, CHR 0x85], [CHR 0xC2, CHR 0xA0], [CHR 0xE1, CHR 0x9A, CHR 0x80]]
     @ [[CHR 0xE2, CHR 0x80, CHR 0x80], [CHR 0xE2, CHR 0x80, CHR 0x81], [CHR 0xE2, CHR 0x80, CHR 0x82],
        [CHR 0xE2, CHR 0x80, CHR 0x83], [CHR 0xE2, CHR 0x80, CHR 0x84], [CHR 0xE2, CHR 0x80, CHR 0x85],
        [CHR 0xE2, CHR 0x80, CHR 0x86], [CHR 0xE2, CHR 0x80, CHR 0x87], [CHR 0xE2, CHR 0x80, CHR 0x88],
        [CHR 0xE2, CHR 0x80, CHR 0x89], [CHR 0xE2, CHR 0x80, CHR 0x8A], [CHR 0xE2, CHR 0x80, CHR 0xA8],
        [CHR 0xE2, CHR 0x80, CHR 0xA9], [CHR 0xE2, CHR 0x80, CHR 0xAF]]
     @ [[CHR 0xE2, CHR 0x81, CHR 0x9F], [CHR 0xE3, CHR 0x80, CHR 0x80]]"

definition first_ws :: "string list \<Rightarrow> string \<Rightarrow> string option" where
  "first_ws es s = List.find (\<lambda>e. prefix e s) es"

fun trim_front :: "string list \<Rightarrow> string \<Rightarrow> string" where
  "trim_front es [] = []"
| "trim_front es (x # xs) =
     (case first_ws es (x # xs) of
        None \<Rightarrow> x # xs
      | Some e \<Rightarrow> trim_front es (drop (length e - 1) xs))"

definition trim_start :: "string \<Rightarrow> string" where
  "trim_start s = trim_front ws_encodings s"

definition trim_end :: "string \<Rightarrow> string" where
  "trim_end s = rev (trim_front (map rev ws_encodings) (rev s))"

definition trim :: "string \<Rightarrow> string" where
  "trim s = trim_end (trim_start s)"

definition starts_with_ws :: "string \<Rightarrow> bool" where
  "starts_with_ws s \<longleftrightarrow> first_ws ws_encodings s \<noteq> None"

fun split_ws :: "string \<Rightarrow> string \<Rightarrow> string list" where
  "split_ws cur [] = (if cur = [] then [] else [rev cur])"
| "split_ws cur (x # xs) =
     (case first_ws ws_encodings (x # xs) of
        None \<Rightarrow> split_ws (x # cur) xs
      | Some e \<Rightarrow> (if cur = [] then [] else [rev cur]) @ split_ws [] (drop (length e - 1) xs))"

definition split_whitespace :: "string \<Rightarrow> string list" where
  "split_whitespace s = split_ws [] s"

text \<open>The ASCII trim on byte slices and \<open>trim_end_matches\<close>/\<open>trim_start_matches\<close> of a char set.\<close>

definition trim_end_matches :: "(char \<Rightarrow> bool) \<Rightarrow> string \<Rightarrow> string" where
  "trim_end_matches p s = rev (dropWhile p (rev s))"

section \<open>UTF-8 decoding\<close>

definition between :: "nat \<Rightarrow> nat \<Rightarrow> char \<Rightarrow> bool" where
  "between lo hi c \<longleftrightarrow> lo \<le> byte c \<and> byte c \<le> hi"

definition utf8_second_ok :: "char \<Rightarrow> char \<Rightarrow> bool" where
  "utf8_second_ok a b \<longleftrightarrow>
     (if byte a = 0xE0 then between 0xA0 0xBF b
      else if byte a = 0xED then between 0x80 0x9F b
      else if byte a = 0xF0 then between 0x90 0xBF b
      else if byte a = 0xF4 then between 0x80 0x8F b
      else between 0x80 0xBF b)"

definition utf8_width :: "char \<Rightarrow> nat" where
  "utf8_width c =
     (if byte c < 0x80 then 1 else if between 0xC2 0xDF c then 2
      else if between 0xE0 0xEF c then 3 else if between 0xF0 0xF4 c then 4 else 0)"

text \<open>
  The first UTF-8 sequence of a string: how many bytes it takes and whether
  it is well formed. An ill-formed sequence is cut before the first byte
  that cannot continue it, as \<open>core::str::lossy\<close> does.
\<close>

definition utf8_chunk :: "string \<Rightarrow> bool \<times> nat" where
  "utf8_chunk s =
     (case s of
        [] \<Rightarrow> (False, 0)
      | a # r \<Rightarrow>
          (let w = utf8_width a in
           if w = 0 then (False, 1) else if w = 1 then (True, 1)
           else (case r of
              [] \<Rightarrow> (False, 1)
            | b # r2 \<Rightarrow>
                if \<not> utf8_second_ok a b then (False, 1) else if w = 2 then (True, 2)
                else (case r2 of
                   [] \<Rightarrow> (False, 2)
                 | c # r3 \<Rightarrow>
                     if \<not> is_cont_byte c then (False, 2) else if w = 3 then (True, 3)
                     else (case r3 of
                        [] \<Rightarrow> (False, 3)
                      | d # _ \<Rightarrow> if is_cont_byte d then (True, 4) else (False, 3))))))"

definition replacement_char :: string where
  "replacement_char = [CHR 0xEF, CHR 0xBF, CHR 0xBD]"

function utf8_lossy :: "string \<Rightarrow> string" where
  "utf8_lossy [] = []"
| "utf8_lossy (x # xs) =
     (case utf8_chunk (x # xs) of
        (ok, n) \<Rightarrow> (if ok then take n (x # xs) else replacement_char)
                   @ utf8_lossy (drop (n - 1) xs))"
  by pat_completeness auto
termination
  by (relation "measure length") auto

function utf8_valid :: "string \<Rightarrow> bool" where
  "utf8_valid [] = True"
| "utf8_valid (x # xs) =
     (case utf8_chunk (x # xs) of (ok, n) \<Rightarrow> ok \<and> utf8_valid (drop (n - 1) xs))"
  by pat_completeness auto
termination
  by (relation "measure length") auto

section \<open>Decimal rendering\<close>

definition digit_char :: "nat \<Rightarrow> char" where
  "digit_char d = char_of (48 + d)"

fun show_nat :: "nat \<Rightarrow> string" where
  "show_nat n = (if n < 10 then [digit_char n] else show_nat (n div 10) @ [digit_char (n mod 10)])"

definition show_int :: "int \<Rightarrow> string" where
  "show_int i = (if i < 0 then CHR ''-'' # show_nat (nat (- i)) else show_nat (nat i))"

declare show_nat.simps [simp del]

text \<open>The value of a string of decimal digits, as \<open>str::parse\<close> of an unsigned integer reads it.\<close>

definition digits_value :: "string \<Rightarrow> nat" where
  "digits_value s = foldl (\<lambda>n c. 10 * n + (byte c - 48)) 0 s"

lemma show_nat_digits: "list_all is_ascii_digit (show_nat n) \<and> show_nat n \<noteq> []"
proof (induction n rule: show_nat.induct)
  case (1 n)
  have "is_ascii_digit (digit_char d)" if "d < 10" for d
    using that by (simp add: digit_char_def is_ascii_digit_def)
  with 1 show ?case by (auto simp: show_nat.simps [of n])
qed

lemma digits_value_snoc: "digits_value (s @ [d]) = 10 * digits_value s + (byte d - 48)"
  by (simp add: digits_value_def)

lemma digits_value_show: "digits_value (show_nat n) = n"
proof (induction n rule: show_nat.induct)
  case (1 n)
  show ?case
  proof (cases "n < 10")
    case True
    then show ?thesis by (simp add: show_nat.simps [of n] digits_value_def digit_char_def)
  next
    case False
    with 1 show ?thesis by (simp add: show_nat.simps [of n] digits_value_snoc digit_char_def)
  qed
qed

text \<open>\<open>i64\<close> arithmetic of a release build: the two's complement wrap-around.\<close>

definition wrap_i64 :: "int \<Rightarrow> int" where
  "wrap_i64 x = (x + 2 ^ 63) mod 2 ^ 64 - 2 ^ 63"

definition in_i64 :: "int \<Rightarrow> bool" where
  "in_i64 x \<longleftrightarrow> - (2 ^ 63) \<le> x \<and> x < 2 ^ 63"

definition hex_digit :: "nat \<Rightarrow> char" where
  "hex_digit d = (if d < 10 then char_of (48 + d) else char_of (87 + d))"

text \<open>\<open>format!("{b:02x}")\<close> over bytes.\<close>

definition to_hex :: "string \<Rightarrow> string" where
  "to_hex bs = concat (map (\<lambda>b. [hex_digit (byte b div 16), hex_digit (byte b mod 16)]) bs)"

text \<open>
  \<open>u8::from_str_radix(_, 16)\<close> on a slice of two bytes: two hexadecimal digits, or a
  plus sign and one.
\<close>

definition hex_value :: "char \<Rightarrow> nat option" where
  "hex_value c =
     (if is_ascii_digit c then Some (byte c - 48)
      else if 65 \<le> byte c \<and> byte c \<le> 70 then Some (byte c - 55)
      else if 97 \<le> byte c \<and> byte c \<le> 102 then Some (byte c - 87)
      else None)"

definition parse_hex2 :: "char \<Rightarrow> char \<Rightarrow> nat option" where
  "parse_hex2 a b =
     (case hex_value b of
        None \<Rightarrow> None
      | Some lo \<Rightarrow> if a = CHR ''+'' then Some lo else map_option (\<lambda>hi. 16 * hi + lo) (hex_value a))"

lemma hex_value_digit: "d < 16 \<Longrightarrow> hex_value (hex_digit d) = Some d"
  by (auto simp: hex_value_def hex_digit_def is_ascii_digit_def)

lemma hex_digit_plus: "d < 16 \<Longrightarrow> hex_digit d \<noteq> CHR ''+''"
  using hex_value_digit [of d] by (auto simp: hex_value_def [of "CHR ''+''"] is_ascii_digit_def)

text \<open>The digits of \<open>{:02X}\<close>.\<close>

definition upper_hex_digit :: "nat \<Rightarrow> char" where
  "upper_hex_digit d = (if d < 10 then char_of (48 + d) else char_of (55 + d))"

lemma upper_hex_value: "d < 16 \<Longrightarrow> hex_value (upper_hex_digit d) = Some d"
  by (auto simp: hex_value_def upper_hex_digit_def is_ascii_digit_def)

lemma upper_hex_distinct:
  assumes "d < 16"
  shows "upper_hex_digit d \<notin> {LF, CR, CHR ''+''}"
proof -
  have "hex_value LF = None" "hex_value CR = None" "hex_value (CHR ''+'') = None"
    by (simp_all add: hex_value_def is_ascii_digit_def)
  with upper_hex_value [OF assms] show ?thesis by auto
qed

lemma parse_upper_hex:
  "n < 256 \<Longrightarrow> parse_hex2 (upper_hex_digit (n div 16)) (upper_hex_digit (n mod 16)) = Some n"
  using upper_hex_distinct [of "n div 16"] by (simp add: parse_hex2_def upper_hex_value)

section \<open>Association lists as hash maps\<close>

text \<open>
  A \<open>HashMap\<close> is an association list: \<^const>\<open>map_of\<close> looks a key up, the list's
  order is the iteration order \<open>values()\<close> happens to use. An insert replaces
  the entry in place or appends one.
\<close>

fun al_insert :: "'k \<Rightarrow> 'v \<Rightarrow> ('k \<times> 'v) list \<Rightarrow> ('k \<times> 'v) list" where
  "al_insert k v [] = [(k, v)]"
| "al_insert k v (p # ps) = (if fst p = k then (k, v) # ps else p # al_insert k v ps)"

definition al_remove :: "'k \<Rightarrow> ('k \<times> 'v) list \<Rightarrow> ('k \<times> 'v) list" where
  "al_remove k ps = filter (\<lambda>p. fst p \<noteq> k) ps"

definition al_values :: "('k \<times> 'v) list \<Rightarrow> 'v list" where
  "al_values ps = map snd ps"


section \<open>Lemmas: panics\<close>

lemma bind_rust_simps [simp]:
  "bind_rust (Inr x) f = f x" "bind_rust (Inl e) f = Inl e"
  by (simp_all add: bind_rust_def)

lemma bind_rust_Inr_iff:
  "bind_rust m f = Inr y \<longleftrightarrow> (\<exists>x. m = Inr x \<and> f x = Inr y)"
  by (cases m) auto

lemma bind_rust_split:
  "P (bind_rust m f) \<longleftrightarrow> (\<forall>e. m = Inl e \<longrightarrow> P (Inl e)) \<and> (\<forall>x. m = Inr x \<longrightarrow> P (f x))"
  by (cases m) auto

text \<open>A computation that does not panic.\<close>

definition returns :: "'a rust \<Rightarrow> bool" where
  "returns m = (case m of Inl e \<Rightarrow> False | Inr x \<Rightarrow> True)"

lemma returns_simps [simp]: "returns (Inr x)" "\<not> returns (Inl e)"
  by (simp_all add: returns_def)

lemma returns_bind [simp]:
  "returns (bind_rust m f) \<longleftrightarrow> returns m \<and> (\<forall>x. m = Inr x \<longrightarrow> returns (f x))"
  by (cases m) auto

lemma returns_iff: "returns m \<longleftrightarrow> (\<exists>x. m = Inr x)"
  by (cases m) auto

section \<open>Lemmas: ASCII\<close>

lemma byte_less_256 [simp]: "byte c < 256"
  by (rule of_char_mod_256 [THEN mod_eq_self_iff_div_eq_0 [THEN iffD1], THEN div_eq_0_iff [THEN iffD1], THEN disjE]) simp_all

lemma byte_nibble [simp]: "byte c div 16 < 16"
  using byte_less_256 [of c] by (simp add: less_mult_imp_div_less)

lemma parse_hex2_byte: "parse_hex2 (hex_digit (byte c div 16)) (hex_digit (byte c mod 16)) = Some (byte c)"
  by (simp add: parse_hex2_def hex_value_digit hex_digit_plus)

lemma byte_char_of: "n < 256 \<Longrightarrow> byte (char_of n) = n"
  by simp

lemma lower_c_idem [simp]: "lower_c (lower_c c) = lower_c c"
  by (auto simp: lower_c_def is_ascii_upper_def)

lemma lower_upper_c [simp]: "lower_c (upper_c c) = lower_c c"
  by (auto simp: lower_c_def upper_c_def is_ascii_upper_def is_ascii_lower_def)

lemma length_ascii_case [simp]:
  "length (to_ascii_lowercase s) = length s" "length (to_ascii_uppercase s) = length s"
  by (simp_all add: to_ascii_lowercase_def to_ascii_uppercase_def)

lemma to_ascii_lowercase_idem [simp]:
  "to_ascii_lowercase (to_ascii_lowercase s) = to_ascii_lowercase s"
  by (simp add: to_ascii_lowercase_def)

lemma to_ascii_lowercase_append [rust_str]:
  "to_ascii_lowercase (s @ t) = to_ascii_lowercase s @ to_ascii_lowercase t"
  by (simp add: to_ascii_lowercase_def)

lemma eq_ignore_ascii_case_refl [simp]: "eq_ignore_ascii_case s s"
  by (simp add: eq_ignore_ascii_case_def)

lemma eq_ignore_ascii_case_sym: "eq_ignore_ascii_case s t \<Longrightarrow> eq_ignore_ascii_case t s"
  by (simp add: eq_ignore_ascii_case_def)

lemma eq_ignore_ascii_case_trans:
  "eq_ignore_ascii_case s t \<Longrightarrow> eq_ignore_ascii_case t u \<Longrightarrow> eq_ignore_ascii_case s u"
  by (simp add: eq_ignore_ascii_case_def)

lemma eq_ignore_ascii_case_length:
  "eq_ignore_ascii_case s t \<Longrightarrow> length s = length t"
  by (metis eq_ignore_ascii_case_def length_ascii_case(1))

section \<open>Lemmas: searching and splitting\<close>

lemma find_char_None_iff [rust_str]: "find_char c s = None \<longleftrightarrow> c \<notin> set s"
  by (induction s) auto

lemma find_char_SomeD:
  "find_char c s = Some i \<Longrightarrow> i < length s \<and> s ! i = c \<and> c \<notin> set (take i s)"
  by (induction s arbitrary: i) (auto split: if_splits)

lemma find_char_append_notin:
  "c \<notin> set xs \<Longrightarrow> find_char c (xs @ ys) = map_option (\<lambda>i. length xs + i) (find_char c ys)"
  by (induction xs) (auto split: option.splits simp: map_option_case)

lemma find_char_first: "c \<notin> set xs \<Longrightarrow> find_char c (xs @ c # ys) = Some (length xs)"
  by (simp add: find_char_append_notin)

lemma split_once_first: "c \<notin> set xs \<Longrightarrow> split_once c (xs @ c # ys) = Some (xs, ys)"
  by (simp add: split_once_def find_char_first)

lemma split_once_SomeD:
  assumes "split_once c s = Some (a, b)"
  shows "s = a @ c # b" "c \<notin> set a"
proof -
  from assms obtain i where i: "find_char c s = Some i" "a = take i s" "b = drop (Suc i) s"
    by (auto simp: split_once_def)
  from find_char_SomeD [OF i(1)] have "i < length s" "s ! i = c" "c \<notin> set (take i s)" by auto
  with i(2,3) show "s = a @ c # b" "c \<notin> set a" by (auto simp: id_take_nth_drop [symmetric])
qed

lemma split_once_None_iff [rust_str]: "split_once c s = None \<longleftrightarrow> c \<notin> set s"
  by (simp add: split_once_def find_char_None_iff)

lemma split_on_nonempty [simp]: "split_on c s \<noteq> []"
  by (cases s) (auto split: list.splits)

lemma split_on_notin: "c \<notin> set s \<Longrightarrow> split_on c s = [s]"
  by (induction s) auto

lemma split_on_append: "c \<notin> set w \<Longrightarrow> split_on c (w @ c # s) = w # split_on c s"
  by (induction w) auto

lemma split_on_pieces: "w \<in> set (split_on c s) \<Longrightarrow> c \<notin> set w"
  by (induction s arbitrary: w) (auto split: if_splits list.splits)

lemma concat_split_inclusive [simp]: "concat (split_inclusive c s) = s"
  by (induction s) (auto split: list.splits)

lemma split_inclusive_line:
  "c \<notin> set w \<Longrightarrow> split_inclusive c (w @ c # s) = (w @ [c]) # split_inclusive c s"
  by (induction w) auto

lemma chomp_simps [simp]: "chomp [c] (s @ [c]) = s" "chomp p [] = []"
  by (simp_all add: chomp_def strip_suffix_def)

lemma chomp_other: "s = [] \<or> last s \<noteq> c \<Longrightarrow> chomp [c] s = s"
  by (auto simp: chomp_def strip_suffix_def suffix_def)

lemma strip_prefix_append [simp]: "strip_prefix p (p @ s) = Some s"
  by (simp add: strip_prefix_def)

lemma strip_prefix_Some_iff: "strip_prefix p s = Some r \<longleftrightarrow> s = p @ r"
  by (auto simp: strip_prefix_def prefix_def)

lemma find_sub_SomeD:
  "find_sub p s = Some i \<Longrightarrow> i \<le> length s \<and> prefix p (drop i s)"
  by (induction s arbitrary: i) (auto split: if_splits)

lemma find_sub_Some_append:
  assumes "find_sub p s = Some i"
  shows "s = take i s @ p @ drop (i + length p) s"
proof -
  from find_sub_SomeD [OF assms] obtain r where "drop i s = p @ r" by (auto simp: prefix_def)
  then have "drop (i + length p) s = r" by (metis add.commute append_eq_conv_conj drop_drop)
  with \<open>drop i s = p @ r\<close> show ?thesis by (metis append_take_drop_id)
qed

lemma find_sub_None_notprefix:
  "find_sub p s = None \<Longrightarrow> i \<le> length s \<Longrightarrow> \<not> prefix p (drop i s)"
proof (induction s arbitrary: i)
  case Nil
  then show ?case by (auto split: if_splits)
next
  case (Cons x xs)
  then show ?case by (cases i) (auto split: if_splits)
qed

lemma slice_to_ascii:
  "n \<le> length s \<Longrightarrow> (n < length s \<Longrightarrow> byte (s ! n) < 128) \<Longrightarrow> slice_to s n = Inr (take n s)"
  by (auto simp: slice_to_def is_char_boundary_def is_cont_byte_def)

section \<open>Lemmas: trimming\<close>

lemma first_ws_SomeD: "first_ws es s = Some e \<Longrightarrow> e \<in> set es \<and> prefix e s"
  by (auto simp: first_ws_def find_Some_iff)

lemma trim_front_suffix: "suffix (trim_front es s) s"
proof (induction es s rule: trim_front.induct)
  case (2 es x xs)
  show ?case
  proof (cases "first_ws es (x # xs)")
    case (Some e)
    have "suffix (drop (length e - 1) xs) (x # xs)"
      by (meson suffix_ConsI suffix_drop)
    with Some "2.IH" [OF Some] show ?thesis
      by (auto intro: suffix_order.trans)
  qed simp
qed simp

lemma trim_front_fixed: "trim_front es s = [] \<or> first_ws es (trim_front es s) = None"
  by (induction es s rule: trim_front.induct) (auto split: option.splits)

lemma trim_front_idem [simp]: "trim_front es (trim_front es s) = trim_front es s"
  using trim_front_fixed [of es s]
  by (cases "trim_front es s") auto

lemma trim_front_None: "first_ws es s = None \<Longrightarrow> trim_front es s = s"
  by (cases s) auto

lemma trim_start_suffix: "suffix (trim_start s) s"
  by (simp add: trim_start_def trim_front_suffix)

lemma trim_end_prefix: "prefix (trim_end s) s"
  using trim_front_suffix [of "map rev ws_encodings" "rev s"]
  by (simp add: trim_end_def suffix_to_prefix)

lemma trim_start_idem [simp]: "trim_start (trim_start s) = trim_start s"
  by (simp add: trim_start_def)

lemma trim_end_idem [simp]: "trim_end (trim_end s) = trim_end s"
  by (simp add: trim_end_def)

lemma trim_subset: "set (trim s) \<subseteq> set s"
  using trim_start_suffix [of s] trim_end_prefix [of "trim_start s"]
  by (auto simp: trim_def dest: set_mono_prefix set_mono_suffix)

lemma length_trim_le: "length (trim s) \<le> length s"
  using trim_start_suffix [of s] trim_end_prefix [of "trim_start s"]
  by (auto simp: trim_def dest!: prefix_length_le suffix_length_le)

section \<open>Lemmas: UTF-8\<close>

lemma utf8_chunk_ascii: "byte x < 128 \<Longrightarrow> utf8_chunk (x # xs) = (True, 1)"
  by (simp add: utf8_chunk_def utf8_width_def)

lemma utf8_lossy_valid: "utf8_valid s \<Longrightarrow> utf8_lossy s = s"
proof (induction s rule: utf8_valid.induct)
  case (2 x xs)
  obtain ok n where c: "utf8_chunk (x # xs) = (ok, n)" by force
  then have "0 < n"
    by (auto simp: utf8_chunk_def Let_def split: list.splits if_splits)
  moreover from 2 c have "ok" "utf8_lossy (drop (n - 1) xs) = drop (n - 1) xs" by auto
  ultimately show ?case using c by (cases n) (auto simp: take_Cons')
qed simp

lemma utf8_valid_ascii: "\<forall>c \<in> set s. byte c < 128 \<Longrightarrow> utf8_valid s"
  by (induction s) (auto simp: utf8_chunk_ascii)

lemma utf8_lossy_ascii: "\<forall>c \<in> set s. byte c < 128 \<Longrightarrow> utf8_lossy s = s"
  by (simp add: utf8_lossy_valid utf8_valid_ascii)

lemma utf8_valid_not_cont: "utf8_valid (x # xs) \<Longrightarrow> \<not> is_cont_byte x"
  by (auto simp: utf8_chunk_def utf8_width_def is_cont_byte_def between_def Let_def split: list.splits)

lemma utf8_valid_drop_ascii:
  "utf8_valid (p @ s) \<Longrightarrow> list_all (\<lambda>c. byte c < 128) p \<Longrightarrow> utf8_valid s"
  by (induction p) (auto simp: utf8_chunk_ascii)

text \<open>After an ASCII prefix of a valid string, every prefix of it can be sliced.\<close>

lemma slice_to_after_ascii:
  assumes "utf8_valid s" "n \<le> length l" "prefix l s" "list_all (\<lambda>c. byte c < 128) (take n s)"
  shows "slice_to l n = Inr (take n l)"
proof (cases "n < length l")
  case True
  with assms(3) have "n < length s" "l ! n = s ! n"
    by (auto simp: prefix_def nth_append)
  moreover have "utf8_valid (drop n s)"
    using utf8_valid_drop_ascii [of "take n s" "drop n s"] assms(1,4) by simp
  ultimately have "\<not> is_cont_byte (l ! n)"
    using utf8_valid_not_cont by (metis Cons_nth_drop_Suc)
  with True show ?thesis by (simp add: slice_to_def is_char_boundary_def)
qed (use assms(2) in \<open>simp add: slice_to_def is_char_boundary_def\<close>)

text \<open>A valid string can be cut where a character starts.\<close>

lemma utf8_second_cont: "utf8_second_ok a b \<Longrightarrow> is_cont_byte b"
  by (auto simp: utf8_second_ok_def is_cont_byte_def between_def split: if_splits)

lemma utf8_chunk_cases:
  assumes "utf8_chunk s = (True, n)"
  obtains a r where "s = a # r" "n = 1"
  | a b r where "s = a # b # r" "n = 2" "is_cont_byte b"
  | a b c r where "s = a # b # c # r" "n = 3" "is_cont_byte b" "is_cont_byte c"
  | a b c d r where "s = a # b # c # d # r" "n = 4" "is_cont_byte b" "is_cont_byte c" "is_cont_byte d"
  using assms
  by (simp add: utf8_chunk_def Let_def split: list.splits if_splits) (use utf8_second_cont in blast)+

lemma utf8_chunk_cont:
  assumes "utf8_chunk s = (True, n)" "0 < i" "i < n"
  shows "i < length s \<and> is_cont_byte (s ! i)"
  using assms by (cases rule: utf8_chunk_cases) (auto simp: nth_Cons')

lemma utf8_valid_drop:
  "utf8_valid s \<Longrightarrow> (k < length s \<Longrightarrow> \<not> is_cont_byte (s ! k)) \<Longrightarrow> utf8_valid (drop k s)"
proof (induction s arbitrary: k rule: utf8_valid.induct)
  case (2 x xs)
  obtain n where n: "utf8_chunk (x # xs) = (True, n)" and v: "utf8_valid (drop (n - 1) xs)"
    using "2.prems"(1) by auto
  have pos: "0 < n" using n by (auto simp: utf8_chunk_def Let_def split: list.splits if_splits)
  consider "k = 0" | "0 < k" "k < n" | "n \<le> k" by linarith
  then show ?case
  proof cases
    case 2
    with utf8_chunk_cont [OF n 2] \<open>k < length (x # xs) \<Longrightarrow> _\<close> show ?thesis by simp
  next
    case 3
    have "\<not> is_cont_byte (drop (n - 1) xs ! (k - n))" if "k - n < length (drop (n - 1) xs)"
      using 3 pos that "2.prems"(2) by (cases k) auto
    then have "utf8_valid (drop (k - n) (drop (n - 1) xs))"
      using "2.IH" [OF n [symmetric]] v by blast
    with 3 pos show ?thesis by (cases k) auto
  qed (use "2.prems"(1) in simp)
qed simp

lemma upper_c_ascii [simp]: "byte (upper_c c) < 128 \<longleftrightarrow> byte c < 128"
  by (auto simp: upper_c_def is_ascii_lower_def)

lemma trim_start_no_ws: "\<not> starts_with_ws s \<Longrightarrow> trim_start s = s"
  by (simp add: starts_with_ws_def trim_start_def trim_front_None)

lemma starts_with_ws_prefix: "prefix s t \<Longrightarrow> starts_with_ws s \<Longrightarrow> starts_with_ws t"
  unfolding starts_with_ws_def first_ws_def find_None_iff by (metis prefix_order.trans)

section \<open>Lemmas: machine integers\<close>

lemma wrap_i64_id [simp]: "in_i64 x \<Longrightarrow> wrap_i64 x = x"
  by (simp add: wrap_i64_def in_i64_def)

lemma wrap_i64_range: "in_i64 (wrap_i64 x)"
proof -
  have "0 \<le> (x + 2 ^ 63) mod 2 ^ 64" "(x + 2 ^ 63) mod 2 ^ 64 < 2 ^ 64"
    by (rule pos_mod_sign, simp) (rule pos_mod_bound, simp)
  then show ?thesis by (simp add: wrap_i64_def in_i64_def)
qed

section \<open>Lemmas: association lists\<close>

lemma map_of_al_insert [simp]: "map_of (al_insert k v ps) = (map_of ps)(k \<mapsto> v)"
  by (induction ps) auto

lemma map_of_al_remove [simp]: "map_of (al_remove k ps) = (map_of ps)(k := None)"
  by (induction ps) (auto simp: al_remove_def)

lemma fst_al_insert: "fst ` set (al_insert k v ps) = insert k (fst ` set ps)"
  by (induction ps) auto

lemma distinct_al_insert: "distinct (map fst ps) \<Longrightarrow> distinct (map fst (al_insert k v ps))"
proof (induction ps)
  case (Cons p ps)
  have "fst p \<noteq> k \<Longrightarrow> fst p \<notin> set (map fst ps) \<Longrightarrow> fst p \<notin> set (map fst (al_insert k v ps))"
    by (simp add: fst_al_insert)
  with Cons show ?case by auto
qed simp

lemma distinct_al_remove: "distinct (map fst ps) \<Longrightarrow> distinct (map fst (al_remove k ps))"
  by (simp add: al_remove_def distinct_map_filter)

lemma set_al_insert:
  "distinct (map fst ps) \<Longrightarrow>
   set (al_insert k v ps) = insert (k, v) {p \<in> set ps. fst p \<noteq> k}"
  by (induction ps) (auto simp: image_iff)

lemma set_al_remove [simp]: "set (al_remove k ps) = {p \<in> set ps. fst p \<noteq> k}"
  by (auto simp: al_remove_def)

lemma find_SomeD: "List.find P xs = Some x \<Longrightarrow> x \<in> set xs \<and> P x"
  by (induction xs) (auto split: if_splits)

lemma find_NoneD: "List.find P xs = None \<Longrightarrow> x \<in> set xs \<Longrightarrow> \<not> P x"
  by (simp add: find_None_iff)

lemma find_append: "List.find P (xs @ ys) = (case List.find P xs of None \<Rightarrow> List.find P ys | Some x \<Rightarrow> Some x)"
  by (induction xs) auto

section \<open>Evaluation of closed terms\<close>

text \<open>Equations with which the simplifier evaluates the string functions on literals.\<close>

lemmas ascii_eval =
  to_ascii_lowercase_def to_ascii_uppercase_def lower_c_def upper_c_def is_ascii_upper_def
  is_ascii_lower_def is_ascii_digit_def is_ascii_alnum_def is_ascii_ws_def
  eq_ignore_ascii_case_def char_of_def bit_Suc_0_iff

lemmas trim_eval =
  trim_def trim_start_def trim_end_def first_ws_def ws_encodings_def starts_with_ws_def
  split_whitespace_def

lemmas search_eval =
  split_once_def rsplit_once_def strip_prefix_def strip_suffix_def chomp_def contains_sub_def
  suffix_to_prefix slice_to_def is_char_boundary_def is_cont_byte_def utf8_chunk_ascii

text \<open>Printable ASCII text has nothing to trim.\<close>

lemma ws_encodings_ends:
  "list_all (\<lambda>e. e \<noteq> [] \<and> \<not> (0x21 \<le> byte (hd e) \<and> byte (hd e) \<le> 0x7E)
     \<and> \<not> (0x21 \<le> byte (last e) \<and> byte (last e) \<le> 0x7E)) ws_encodings"
  by (simp add: ws_encodings_def)

lemma first_ws_graphic:
  assumes "s = [] \<or> (0x21 \<le> byte (hd s) \<and> byte (hd s) \<le> 0x7E)"
  shows "first_ws ws_encodings s = None" "first_ws (map rev ws_encodings) s = None"
proof -
  have "\<not> prefix e s" if "e \<noteq> []" "\<not> (0x21 \<le> byte (hd e) \<and> byte (hd e) \<le> 0x7E)" for e
    using that assms by (cases e; cases s) auto
  moreover have "e \<noteq> [] \<Longrightarrow> hd (rev e) = last e" for e :: string by (simp add: hd_rev)
  ultimately show "first_ws ws_encodings s = None" "first_ws (map rev ws_encodings) s = None"
    using ws_encodings_ends by (auto simp: first_ws_def find_None_iff list_all_iff)
qed

lemma trim_graphic:
  assumes "list_all (\<lambda>c. 0x21 \<le> byte c \<and> byte c \<le> 0x7E) s"
  shows "trim s = s"
proof -
  have "trim_start s = s"
    using first_ws_graphic(1) [of s] assms by (cases s) (auto simp: trim_start_def trim_front_None)
  moreover have "trim_front (map rev ws_encodings) (rev s) = rev s"
    using first_ws_graphic(2) [of "rev s"] assms
    by (cases s rule: rev_cases) (auto simp: trim_front_None)
  ultimately show ?thesis by (simp add: trim_def trim_end_def)
qed

text \<open>The \<open>join\<close> of a sequence of strings.\<close>

fun intercalate :: "string \<Rightarrow> string list \<Rightarrow> string" where
  "intercalate sep [] = []"
| "intercalate sep [l] = l"
| "intercalate sep (l # m # ls) = l @ sep @ intercalate sep (m # ls)"

end
