(* ===== verification/Mail_Model.thy ===== *)
theory Mail_Model
  imports Prelude
begin

text \<open>
  The domain model of \<open>camelmailer-core/src/model.rs\<close>: plain records with the
  source's fields (prefixed by their owner, since Isabelle record fields share
  one name space). Identifiers are \<^typ>\<open>nat\<close> (\<open>u64\<close> in the source, only compared),
  instants are integers (nanoseconds since the epoch), an \<open>f64\<close> that is stored
  but never computed with is its bit pattern.
\<close>

type_synonym Id = nat
type_synonym instant = int
type_synonym f64_bits = "64 word"

record organization =
  org_id :: Id
  org_uuid :: string
  org_name :: string
  org_permalink :: string
  org_require_two_factor :: bool

datatype server_mode = Live | Development

record server =
  srv_id :: Id
  srv_uuid :: string
  srv_organization_id :: Id
  srv_name :: string
  srv_permalink :: string
  srv_token :: string
  srv_mode :: server_mode
  srv_suspended :: bool
  srv_suspension_reason :: "string option"
  srv_privacy_mode :: bool
  srv_log_smtp_data :: bool
  srv_allow_sender :: bool
  srv_ip_pool_id :: "Id option"
  srv_track_opens :: bool
  srv_track_clicks :: bool
  srv_send_limit :: "int option"
  srv_spam_threshold :: "f64_bits option"
  srv_outbound_spam_threshold :: "f64_bits option"
  srv_bounce_hook_url :: "string option"
  srv_delivery_hook_url :: "string option"
  srv_inbound_domain :: "string option"
  srv_broadcast_physical_address :: "string option"
  srv_color :: "string option"
  srv_default_stream_id :: "Id option"

definition full_permalink :: "server \<Rightarrow> organization \<Rightarrow> string" where
  "full_permalink s o' = org_permalink o' @ ''/'' @ srv_permalink s"

datatype domain_owner = OwnerOrganization Id | OwnerServer Id

record domain =
  dom_id :: Id
  dom_uuid :: string
  dom_owner :: domain_owner
  dom_name :: string
  dom_verified :: bool
  dom_verification_token :: string
  dom_check_dmarc :: bool
  dom_check_spf :: bool
  dom_dkim_private_key :: "string option"

datatype route_mode = ModeEndpoint | ModeAccept | ModeHold | ModeBounce | ModeReject

record route =
  rt_id :: Id
  rt_uuid :: string
  rt_server_id :: Id
  rt_domain_id :: "Id option"
  rt_name :: string
  rt_token :: string
  rt_mode :: route_mode
  rt_endpoint_url :: "string option"

datatype credential_type = Smtp | Api | SmtpIp

record credential =
  cred_id :: Id
  cred_uuid :: string
  cred_server_id :: Id
  cred_type :: credential_type
  cred_name :: string
  cred_key :: string
  cred_hold :: bool
  cred_last_used_at :: "instant option"

record resolved_route =
  rr_route :: route
  rr_server :: server
  rr_domain_name :: string

record admin_api_key =
  aak_id :: Id
  aak_uuid :: string
  aak_name :: string
  aak_key_prefix :: string
  aak_organization_id :: "Id option"
  aak_server_id :: "Id option"

definition is_global :: "admin_api_key \<Rightarrow> bool" where
  "is_global k \<longleftrightarrow> aak_organization_id k = None \<and> aak_server_id k = None"

definition WEBHOOK_EVENTS :: "string list" where
  "WEBHOOK_EVENTS =
     [''MessageSent'', ''MessageDelayed'', ''MessageDeliveryFailed'', ''MessageHeld'',
      ''MessageBounced'', ''MessageLoaded'', ''MessageLinkClicked'', ''MessageComplained'']"

record webhook =
  wh_id :: Id
  wh_uuid :: string
  wh_server_id :: Id
  wh_name :: string
  wh_url :: string
  wh_all_events :: bool
  wh_enabled :: bool
  wh_sign :: bool
  wh_events :: "string list"
  wh_headers :: "(string \<times> string) list"

definition subscribes_to :: "webhook \<Rightarrow> string \<Rightarrow> bool" where
  "subscribes_to w event \<longleftrightarrow>
     wh_enabled w \<and> (wh_events w = [] \<or> list_ex (\<lambda>e. e = event) (wh_events w))"

record sender_address =
  sa_id :: Id
  sa_uuid :: string
  sa_server_id :: Id
  sa_email_address :: string
  sa_verified :: bool
  sa_verification_token_hash :: "string option"

section \<open>JSON values\<close>

text \<open>
  \<open>serde_json::Value\<close>. A number is kept as the text \<open>Number::to_string\<close> prints
  for it, the only thing the modelled code asks of one; an object is its
  entries in iteration order.
\<close>

datatype json =
  JNull | JBool bool | JNumber string | JString string
  | JArray "json list" | JObject "(string \<times> json) list"

section \<open>IP addresses\<close>

text \<open>
  \<open>std::net::IpAddr\<close>: an IPv4 address is 32 bits, an IPv6 address 128 bits,
  both in network order.
\<close>

datatype ip_addr = V4 "32 word" | V6 "128 word"

text \<open>\<open>Ipv6Addr::to_ipv4_mapped\<close>: the last 32 bits of \<open>::ffff:a.b.c.d\<close>.\<close>

definition to_ipv4_mapped :: "128 word \<Rightarrow> (32 word) option" where
  "to_ipv4_mapped w =
     (if unat w div 2 ^ 32 = 0xffff then Some (of_nat (unat w mod 2 ^ 32)) else None)"

lemma subscribes_to_empty: "wh_events w = [] \<Longrightarrow> subscribes_to w e \<longleftrightarrow> wh_enabled w"
  by (simp add: subscribes_to_def)

end
