(* ===== verification/Send_Limit.thy ===== *)
theory Send_Limit
  imports Mail_Model
begin

text \<open>
  Send limits and organization quota: \<open>camelmailer-core/src/send_limit.rs\<close> and
  \<open>quota.rs\<close>. Limits and counters are \<open>i64\<close> values, kept as \<^typ>\<open>int\<close> with the
  wrap-around of the one subtraction written out (\<^const>\<open>wrap_i64\<close>).
\<close>

section \<open>Allowances (send_limit.rs)\<close>

datatype limit_scope = ScopeServer | ScopeOrganization

record send_allowance =
  al_limit :: "int option"
  al_used :: int
  al_scope :: limit_scope

definition unlimited :: send_allowance where
  "unlimited = \<lparr>al_limit = None, al_used = 0, al_scope = ScopeServer\<rparr>"

definition allowance_server :: "int option \<Rightarrow> int \<Rightarrow> send_allowance" where
  "allowance_server limit used = \<lparr>al_limit = limit, al_used = used, al_scope = ScopeServer\<rparr>"

definition allowance_organization :: "int option \<Rightarrow> int \<Rightarrow> send_allowance" where
  "allowance_organization limit used =
     \<lparr>al_limit = limit, al_used = used, al_scope = ScopeOrganization\<rparr>"

definition remaining :: "send_allowance \<Rightarrow> int option" where
  "remaining a = map_option (\<lambda>limit. max (wrap_i64 (limit - al_used a)) 0) (al_limit a)"

definition stricter :: "send_allowance \<Rightarrow> send_allowance \<Rightarrow> send_allowance" where
  "stricter self other =
     (case (remaining self, remaining other) of
        (None, _) \<Rightarrow> other
      | (Some a, None) \<Rightarrow> self
      | (Some a, Some b) \<Rightarrow>
          if a < b then self
          else if b < a then other
          else if al_scope self = ScopeOrganization then self else other)"

definition error_code :: "send_allowance \<Rightarrow> string" where
  "error_code a =
     (case al_scope a of ScopeServer \<Rightarrow> ''SendLimitExceeded''
      | ScopeOrganization \<Rightarrow> ''OrganizationQuotaExceeded'')"

definition allows :: "send_allowance \<Rightarrow> int \<Rightarrow> bool" where
  "allows a count =
     (case remaining a of None \<Rightarrow> True | Some r \<Rightarrow> count \<le> 0 \<or> count \<le> r)"

definition rejection_message :: "send_allowance \<Rightarrow> string" where
  "rejection_message a =
     (case (al_scope a, al_limit a) of
        (ScopeServer, None) \<Rightarrow> ''This mail server has no send limit''
      | (ScopeServer, Some limit) \<Rightarrow>
          ''This mail server has reached its send limit of '' @ show_int limit
          @ '' messages per 30 days ('' @ show_int (al_used a) @ '' used)''
      | (ScopeOrganization, None) \<Rightarrow> ''This organization has no monthly send limit''
      | (ScopeOrganization, Some limit) \<Rightarrow>
          ''This organization has reached its monthly send limit of '' @ show_int limit
          @ '' messages ('' @ show_int (al_used a)
          @ '' used this month); it resets on the first day of the next month (UTC)'')"

section \<open>Organization policy and usage months (quota.rs)\<close>

record retention_overrides =
  ro_message_content_days :: "nat option"
  ro_message_metadata_days :: "nat option"
  ro_webhook_log_days :: "nat option"
  ro_dmarc_report_days :: "nat option"

record organization_policy =
  pol_monthly_send_limit :: "int option"
  pol_suspended :: bool
  pol_suspension_reason :: "string option"
  pol_retention :: retention_overrides

definition default_overrides :: retention_overrides where
  "default_overrides =
     \<lparr>ro_message_content_days = None, ro_message_metadata_days = None,
      ro_webhook_log_days = None, ro_dmarc_report_days = None\<rparr>"

definition default_policy :: organization_policy where
  "default_policy =
     \<lparr>pol_monthly_send_limit = None, pol_suspended = False, pol_suspension_reason = None,
      pol_retention = default_overrides\<rparr>"

definition USAGE_THRESHOLDS :: "nat list" where
  "USAGE_THRESHOLDS = [80, 100]"

text \<open>The products are \<open>i128\<close> in the source, wide enough for every \<open>i64\<close> factor.\<close>

definition reached_thresholds :: "int \<Rightarrow> int option \<Rightarrow> nat list" where
  "reached_thresholds sent limit =
     (case limit of
        Some l \<Rightarrow> if l > 0 then filter (\<lambda>t. sent * 100 \<ge> l * int t) USAGE_THRESHOLDS else []
      | None \<Rightarrow> [])"

record usage_month =
  um_year :: int
  um_month :: nat

text \<open>
  \<open>NaiveDate::from_ymd_opt(year, month, 1)\<close> belongs to chrono; \<open>ymd_opt\<close> stands
  for it and returns the day, when the calendar has one.
\<close>

definition next_month :: "usage_month \<Rightarrow> usage_month" where
  "next_month m =
     (if um_month m = 12 then \<lparr>um_year = um_year m + 1, um_month = 1\<rparr>
      else \<lparr>um_year = um_year m, um_month = um_month m + 1\<rparr>)"

definition first_day :: "(int \<Rightarrow> nat \<Rightarrow> nat \<Rightarrow> 'day option) \<Rightarrow> usage_month \<Rightarrow> 'day rust" where
  "first_day ymd_opt m =
     (case ymd_opt (um_year m) (um_month m) 1 of Some d \<Rightarrow> Inr d | None \<Rightarrow> Inl ExpectFailed)"

definition next_first_day :: "(int \<Rightarrow> nat \<Rightarrow> nat \<Rightarrow> 'day option) \<Rightarrow> usage_month \<Rightarrow> 'day rust" where
  "next_first_day ymd_opt m = first_day ymd_opt (next_month m)"

section \<open>Lemmas\<close>

text \<open>
  Usage counters never go below zero and limits are \<open>i64\<close> values, so the
  subtraction of \<open>remaining\<close> does not wrap.
\<close>

definition wf_allowance :: "send_allowance \<Rightarrow> bool" where
  "wf_allowance a \<longleftrightarrow>
     0 \<le> al_used a \<and> in_i64 (al_used a) \<and> (\<forall>l. al_limit a = Some l \<longrightarrow> 0 \<le> l \<and> in_i64 l)"

lemma remaining_wf:
  assumes "wf_allowance a" "al_limit a = Some l"
  shows "remaining a = Some (max (l - al_used a) 0)"
proof -
  from assms have "in_i64 (l - al_used a)"
    by (auto simp: wf_allowance_def in_i64_def)
  with assms(2) show ?thesis by (simp add: remaining_def)
qed

lemma remaining_nonneg: "remaining a = Some r \<Longrightarrow> 0 \<le> r"
  by (auto simp: remaining_def)

lemma remaining_None_iff: "remaining a = None \<longleftrightarrow> al_limit a = None"
  by (simp add: remaining_def)

lemma allows_mono: "allows a n \<Longrightarrow> m \<le> n \<Longrightarrow> allows a m"
  by (auto simp: allows_def split: option.splits)

lemma stricter_cases: "stricter a b = a \<or> stricter a b = b"
  by (cases "remaining a"; cases "remaining b") (simp_all add: stricter_def)

lemma allows_stricter: "allows (stricter a b) n \<longleftrightarrow> allows a n \<and> allows b n"
proof (cases "remaining a")
  case (Some x)
  show ?thesis
  proof (cases "remaining b")
    case (Some y)
    with \<open>remaining a = Some x\<close> show ?thesis
      by (auto simp: allows_def stricter_def)
  qed (auto simp: allows_def stricter_def \<open>remaining a = Some x\<close>)
qed (simp add: allows_def stricter_def)

lemma unlimited_allows [simp]: "allows unlimited n"
  by (simp add: allows_def unlimited_def remaining_def)

lemma reached_thresholds_mono:
  "s \<le> t \<Longrightarrow> set (reached_thresholds s l) \<subseteq> set (reached_thresholds t l)"
  by (cases l) (auto simp: reached_thresholds_def)

text \<open>
  The two send gates enforce both limits at once: the stricter of the
  server allowance and the organization allowance admits a batch exactly when
  each of them admits it, whichever way round they are combined, and when the
  limits and counters are non-negative \<open>i64\<close> values an admitted batch stays
  within each limit that was not already exceeded.
\<close>

theorem stricter_enforces_both:
  assumes "wf_allowance s" "wf_allowance p"
  shows "(allows (stricter s p) n \<longleftrightarrow> allows s n \<and> allows p n)
    \<and> (allows (stricter p s) n \<longleftrightarrow> allows s n \<and> allows p n)
    \<and> (\<forall>a \<in> {s, p}. \<forall>l. al_limit a = Some l \<and> 0 < n \<and> allows (stricter s p) n
          \<longrightarrow> al_used a + n \<le> l)"
proof (intro conjI ballI allI impI)
  show "allows (stricter s p) n \<longleftrightarrow> allows s n \<and> allows p n"
    and "allows (stricter p s) n \<longleftrightarrow> allows s n \<and> allows p n"
    by (auto simp: allows_stricter)
next
  fix a l assume a: "a \<in> {s, p}" and h: "al_limit a = Some l \<and> 0 < n \<and> allows (stricter s p) n"
  then have "allows a n" by (auto simp: allows_stricter)
  moreover have "remaining a = Some (max (l - al_used a) 0)"
    using a h assms by (auto intro: remaining_wf)
  ultimately show "al_used a + n \<le> l" using h by (auto simp: allows_def)
qed

theorem stricter_enforces_both_witness:
  "allows (stricter (allowance_server (Some 10) 7) (allowance_organization (Some 50) 48)) 2
   \<and> \<not> allows (stricter (allowance_server (Some 10) 7) (allowance_organization (Some 50) 48)) 3"
proof -
  let ?s = "allowance_server (Some 10) 7" and ?p = "allowance_organization (Some 50) 48"
  have "wf_allowance ?s" "wf_allowance ?p"
    by (simp_all add: wf_allowance_def allowance_server_def allowance_organization_def in_i64_def)
  note both = stricter_enforces_both [OF this]
  have "allows ?s 2 \<and> allows ?p 2 \<and> \<not> allows ?p 3"
    by (simp add: allows_def remaining_def allowance_server_def allowance_organization_def in_i64_def)
  then show ?thesis using both [of 2] both [of 3] by blast
qed

end
