(* ===== verification/Retention.thy ===== *)
theory Retention
  imports Send_Limit
begin

text \<open>
  Data retention periods: \<open>camelmailer-core/src/retention.rs\<close>. A period is a
  number of days (\<open>u32\<close>, as \<^typ>\<open>nat\<close>), \<open>None\<close> keeps forever. The overrides record
  is declared in \<open>Send_Limit\<close>, where the organization policy carries it.
\<close>

record retention_periods =
  rp_message_content_days :: "nat option"
  rp_message_metadata_days :: "nat option"
  rp_webhook_log_days :: "nat option"
  rp_dmarc_report_days :: "nat option"

definition overrides_is_empty :: "retention_overrides \<Rightarrow> bool" where
  "overrides_is_empty o' \<longleftrightarrow> o' = default_overrides"

definition days :: "nat \<Rightarrow> nat option" where
  "days v = (if v > 0 then Some v else None)"

definition normalized :: "retention_periods \<Rightarrow> retention_periods" where
  "normalized p =
     (case rp_message_metadata_days p of
        None \<Rightarrow> p
      | Some metadata \<Rightarrow>
          p\<lparr>rp_message_content_days :=
              Some (case rp_message_content_days p of
                      None \<Rightarrow> metadata | Some content \<Rightarrow> min content metadata)\<rparr>)"

definition from_days :: "nat \<Rightarrow> nat \<Rightarrow> nat \<Rightarrow> nat \<Rightarrow> retention_periods" where
  "from_days content metadata webhook_log dmarc =
     normalized
       \<lparr>rp_message_content_days = days content, rp_message_metadata_days = days metadata,
        rp_webhook_log_days = days webhook_log, rp_dmarc_report_days = days dmarc\<rparr>"

definition pick :: "nat option \<Rightarrow> nat option \<Rightarrow> nat option" where
  "pick dflt override = (case override of None \<Rightarrow> dflt | Some v \<Rightarrow> days v)"

definition with_overrides :: "retention_periods \<Rightarrow> retention_overrides \<Rightarrow> retention_periods" where
  "with_overrides p o' =
     normalized
       \<lparr>rp_message_content_days = pick (rp_message_content_days p) (ro_message_content_days o'),
        rp_message_metadata_days = pick (rp_message_metadata_days p) (ro_message_metadata_days o'),
        rp_webhook_log_days = pick (rp_webhook_log_days p) (ro_webhook_log_days o'),
        rp_dmarc_report_days = pick (rp_dmarc_report_days p) (ro_dmarc_report_days o')\<rparr>"

text \<open>\<open>minus_days\<close> stands for chrono's subtraction of a duration of whole days.\<close>

definition cutoff :: "(instant \<Rightarrow> nat \<Rightarrow> instant) \<Rightarrow> instant \<Rightarrow> nat option \<Rightarrow> instant option" where
  "cutoff minus_days now ds = map_option (minus_days now) ds"

section \<open>Lemmas\<close>

text \<open>Content never outlives the row it belongs to.\<close>

definition content_within_metadata :: "retention_periods \<Rightarrow> bool" where
  "content_within_metadata p \<longleftrightarrow>
     (\<forall>m. rp_message_metadata_days p = Some m \<longrightarrow>
        (\<exists>c. rp_message_content_days p = Some c \<and> c \<le> m))"

lemma normalized_content: "content_within_metadata (normalized p)"
  by (auto simp: content_within_metadata_def normalized_def split: option.splits)

lemma normalized_id: "content_within_metadata p \<Longrightarrow> normalized p = p"
  by (auto simp: content_within_metadata_def normalized_def split: option.splits)

lemma normalized_idem [simp]: "normalized (normalized p) = normalized p"
  by (simp add: normalized_id normalized_content)

lemma normalized_frame [simp]:
  "rp_message_metadata_days (normalized p) = rp_message_metadata_days p"
  "rp_webhook_log_days (normalized p) = rp_webhook_log_days p"
  "rp_dmarc_report_days (normalized p) = rp_dmarc_report_days p"
  by (simp_all add: normalized_def split: option.splits)

lemma pick_None [simp]: "pick d None = d"
  by (simp add: pick_def)

lemma with_overrides_default: "normalized p = p \<Longrightarrow> with_overrides p default_overrides = p"
  by (cases p) (simp add: with_overrides_def default_overrides_def)

text \<open>
  Effective retention after an organization's overrides: an override wins
  over the installation default in every class (zero keeps forever), a missing
  override inherits, no overrides at all change nothing, and in every case the
  content period is capped by the metadata period, so content never outlives
  its message row.
\<close>

theorem with_overrides_effective:
  "content_within_metadata (with_overrides p o')
   \<and> rp_message_metadata_days (with_overrides p o')
       = pick (rp_message_metadata_days p) (ro_message_metadata_days o')
   \<and> rp_webhook_log_days (with_overrides p o')
       = pick (rp_webhook_log_days p) (ro_webhook_log_days o')
   \<and> rp_dmarc_report_days (with_overrides p o')
       = pick (rp_dmarc_report_days p) (ro_dmarc_report_days o')
   \<and> with_overrides (from_days c m w d) default_overrides = from_days c m w d"
proof (intro conjI)
  show "content_within_metadata (with_overrides p o')"
    by (simp add: with_overrides_def normalized_content)
  show "with_overrides (from_days c m w d) default_overrides = from_days c m w d"
    by (rule with_overrides_default) (simp add: from_days_def)
qed (simp_all add: with_overrides_def)

end
