(* ===== verification/Message_Sink.thy ===== *)
theory Message_Sink
  imports Send_Limit
begin

text \<open>
  Message intake: \<open>camelmailer-core/src/message.rs\<close> and the idempotency request
  of \<open>server_store.rs\<close>. The sink interface is the record \<open>sink_ops\<close> (the trait
  \<open>MessageSink\<close>), its contract the locale \<open>message_sink\<close>, with \<open>reliable_sink\<close> for a storage
  that does not fail, of which \<open>MemorySink\<close> is an interpretation. The wall clock the source reads is
  the argument \<open>now\<close>; \<open>lc\<close> is \<open>str::to_lowercase\<close>.
\<close>

section \<open>Header parsing\<close>

fun parse_header_lines :: "(string \<Rightarrow> string) \<Rightarrow> (string \<times> string) list \<Rightarrow> bytes list
    \<Rightarrow> (string \<times> string) list" where
  "parse_header_lines lc hs [] = hs"
| "parse_header_lines lc hs (l # ls) =
     (let line = chomp [CR] l in
      if line = [] then hs
      else
        (let text = utf8_lossy line in
         if text \<noteq> [] \<and> (hd text = CHR '' '' \<or> hd text = CHR 0x09) then
           parse_header_lines lc
             (if hs = [] then hs
              else butlast hs @ [(fst (last hs), snd (last hs) @ '' '' @ trim text)]) ls
         else
           (case split_once (CHR '':'') text of
              Some (key, value) \<Rightarrow> parse_header_lines lc (hs @ [(lc (trim key), trim value)]) ls
            | None \<Rightarrow> parse_header_lines lc hs ls)))"

definition parse_headers :: "(string \<Rightarrow> string) \<Rightarrow> bytes \<Rightarrow> (string \<times> string) list" where
  "parse_headers lc raw = parse_header_lines lc [] (split_on LF raw)"

definition header_value :: "(string \<Rightarrow> string) \<Rightarrow> bytes \<Rightarrow> string \<Rightarrow> string option" where
  "header_value lc raw name =
     map_option snd (List.find (\<lambda>kv. fst kv = lc name) (parse_headers lc raw))"

section \<open>Queued messages\<close>

datatype message_scope = Incoming | Outgoing

definition scope_as_str :: "message_scope \<Rightarrow> string" where
  "scope_as_str s = (case s of Incoming \<Rightarrow> ''incoming'' | Outgoing \<Rightarrow> ''outgoing'')"

record queued_message =
  qm_server_id :: Id
  qm_rcpt_to :: string
  qm_mail_from :: string
  qm_raw_message :: bytes
  qm_received_with_ssl :: bool
  qm_scope :: message_scope
  qm_bounce :: bool
  qm_domain_id :: "Id option"
  qm_credential_id :: "Id option"
  qm_route_id :: "Id option"
  qm_tag :: "string option"
  qm_metadata :: "json option"
  qm_stream_id :: "Id option"

record idempotency_request =
  ir_key_hash :: string
  ir_request_hash :: string
  ir_operation :: string
  ir_expires_at :: instant

datatype queue_outcome =
  Stored | Replayed | Conflict | LimitExceeded string | Failed string

definition outgoing_count :: "queued_message list \<Rightarrow> int" where
  "outgoing_count ms = int (length (filter (\<lambda>m. qm_scope m = Outgoing) ms))"

definition batch_server :: "queued_message list \<Rightarrow> Id" where
  "batch_server ms = (case ms of [] \<Rightarrow> 0 | m # _ \<Rightarrow> qm_server_id m)"

record 'sk sink_ops =
  sk_queue_message :: "'sk \<Rightarrow> queued_message \<Rightarrow> 'sk"
  sk_queue_messages :: "instant \<Rightarrow> 'sk \<Rightarrow> queued_message list \<Rightarrow> idempotency_request option
    \<Rightarrow> send_allowance \<Rightarrow> 'sk \<times> queue_outcome"

section \<open>The in-memory sink\<close>

type_synonym idem_claim = "string \<times> string \<times> instant"

record memory_sink =
  ms_messages :: "queued_message list"
  ms_idempotency_requests :: "((Id \<times> string) \<times> idem_claim) list"

definition memory_sink_new :: memory_sink where
  "memory_sink_new = \<lparr>ms_messages = [], ms_idempotency_requests = []\<rparr>"

definition mem_queue_message :: "memory_sink \<Rightarrow> queued_message \<Rightarrow> memory_sink" where
  "mem_queue_message s m = s\<lparr>ms_messages := ms_messages s @ [m]\<rparr>"

definition mem_queue_messages :: "instant \<Rightarrow> memory_sink \<Rightarrow> queued_message list
    \<Rightarrow> idempotency_request option \<Rightarrow> send_allowance \<Rightarrow> memory_sink \<times> queue_outcome" where
  "mem_queue_messages now s messages idempotency allowance =
     (let early =
        (case idempotency of
           None \<Rightarrow> None
         | Some request \<Rightarrow>
             (case map_of (ms_idempotency_requests s) (batch_server messages, ir_key_hash request) of
                None \<Rightarrow> None
              | Some (request_hash, operation, expires_at) \<Rightarrow>
                  if expires_at > now then
                    (if request_hash = ir_request_hash request \<and> operation = ir_operation request
                     then Some Replayed else Some Conflict)
                  else None))
      in case early of
           Some outcome \<Rightarrow> (s, outcome)
         | None \<Rightarrow>
             if \<not> allows allowance (outgoing_count messages) then
               (s, LimitExceeded (rejection_message allowance))
             else
               (let s1 = (case idempotency of
                            None \<Rightarrow> s
                          | Some request \<Rightarrow>
                              let k = (batch_server messages, ir_key_hash request) in
                              s\<lparr>ms_idempotency_requests :=
                                  al_insert k
                                    (ir_request_hash request, ir_operation request,
                                     ir_expires_at request)
                                    (al_remove k (ms_idempotency_requests s))\<rparr>)
                in (s1\<lparr>ms_messages := ms_messages s1 @ messages\<rparr>, Stored)))"

definition memory_sink_ops :: "memory_sink sink_ops" where
  "memory_sink_ops =
     \<lparr>sk_queue_message = mem_queue_message, sk_queue_messages = mem_queue_messages\<rparr>"

section \<open>Runs of sink calls\<close>

text \<open>One call on the sink, and a sequence of calls from any number of connections.\<close>

datatype sink_call =
  One queued_message
  | Batch instant "queued_message list" "idempotency_request option" send_allowance

fun sink_step :: "'sk sink_ops \<Rightarrow> 'sk \<Rightarrow> sink_call \<Rightarrow> 'sk" where
  "sink_step ops s (One m) = sk_queue_message ops s m"
| "sink_step ops s (Batch now ms r al) = fst (sk_queue_messages ops now s ms r al)"

fun sink_run :: "'sk sink_ops \<Rightarrow> 'sk \<Rightarrow> sink_call list \<Rightarrow> 'sk" where
  "sink_run ops s [] = s"
| "sink_run ops s (c # cs) = sink_run ops (sink_step ops s c) cs"

fun call_before :: "instant \<Rightarrow> sink_call \<Rightarrow> bool" where
  "call_before t (One m) = True"
| "call_before t (Batch now ms r al) = (now < t)"

section \<open>The contract of a sink\<close>

text \<open>
  \<open>stored\<close> is what the sink holds. A single message is stored or, when the
  storage fails, dropped: \<open>queue_message\<close> has no result. A batch is stored whole or not
  at all; only when its transaction failed the caller does not know which.
\<close>

locale message_sink =
  fixes ops :: "'sk sink_ops"
    and stored :: "'sk \<Rightarrow> queued_message list"
  assumes one_message: "stored (sk_queue_message ops s m) = stored s @ [m] \<or> stored (sk_queue_message ops s m) = stored s"
    and batch_stored: "sk_queue_messages ops now s ms r al = (s', Stored) \<Longrightarrow>
          stored s' = stored s @ ms \<and> (ms = [] \<or> allows al (outgoing_count ms))"
    and batch_failed: "sk_queue_messages ops now s ms r al = (s', Failed e) \<Longrightarrow>
          stored s' = stored s \<or> stored s' = stored s @ ms \<and> allows al (outgoing_count ms)"
    and batch_refused: "sk_queue_messages ops now s ms r al = (s', out) \<Longrightarrow> out \<in> {Replayed, Conflict, LimitExceeded e} \<Longrightarrow>
          stored s' = stored s"
begin

text \<open>Messages handed over one by one arrive in order, some of them perhaps not.\<close>

lemma queue_each: "\<exists>ms'. stored (foldl (sk_queue_message ops) s ms) = stored s @ ms' \<and> subseq ms' ms"
proof (induction ms arbitrary: s)
  case (Cons m ms)
  obtain ms' where ms': "stored (foldl (sk_queue_message ops) s (m # ms)) = stored (sk_queue_message ops s m) @ ms'"
    "subseq ms' ms" using Cons [of "sk_queue_message ops s m"] by auto
  from one_message [of s m] show ?case
  proof
    assume "stored (sk_queue_message ops s m) = stored s @ [m]"
    with ms' show ?thesis by (intro exI [of _ "m # ms'"]) simp
  next
    assume "stored (sk_queue_message ops s m) = stored s"
    with ms' show ?thesis by (intro exI [of _ "ms'"]) auto
  qed
qed auto

end

text \<open>
  A sink whose storage does not fail. \<open>claim\<close> is the idempotency reservation of a
  (server, key hash) pair. A live claim decides the outcome of a batch on its own; only a
  batch that is stored changes anything.
\<close>

locale reliable_sink = message_sink +
  fixes claim :: "'sk \<Rightarrow> Id \<times> string \<Rightarrow> idem_claim option"
  assumes one_stored: "stored (sk_queue_message ops s m) = stored s @ [m]"
    and one_claim: "claim (sk_queue_message ops s m) = claim s"
    and live_claim: "claim s (batch_server ms, ir_key_hash q) = Some (h, op, exp) \<Longrightarrow> now < exp \<Longrightarrow>
          sk_queue_messages ops now s ms (Some q) al
            = (s, if h = ir_request_hash q \<and> op = ir_operation q then Replayed else Conflict)"
    and not_stored: "sk_queue_messages ops now s ms r al = (s', out) \<Longrightarrow> out \<noteq> Stored \<Longrightarrow> s' = s"
    and batch_claim: "sk_queue_messages ops now s ms r al = (s', Stored) \<Longrightarrow>
          claim s' = (case r of None \<Rightarrow> claim s
            | Some p \<Rightarrow> (claim s)((batch_server ms, ir_key_hash p)
                          \<mapsto> (ir_request_hash p, ir_operation p, ir_expires_at p)))"
begin

lemma queue_all_stored: "stored (foldl (sk_queue_message ops) s ms) = stored s @ ms"
  by (induction ms arbitrary: s) (simp_all add: one_stored)

lemma step_keeps_live_claim:
  assumes "claim s k = Some (h, op, exp)" "call_before exp c"
  shows "claim (sink_step ops s c) k = Some (h, op, exp)"
proof (cases c)
  case (One m)
  with assms show ?thesis by (simp add: one_claim)
next
  case (Batch now ms r al)
  obtain s' out where run: "sk_queue_messages ops now s ms r al = (s', out)" by force
  show ?thesis
  proof (cases "out = Stored")
    case False
    with not_stored [OF run] have "s' = s" .
    with run assms(1) Batch show ?thesis by simp
  next
    case True
    have "k \<noteq> (batch_server ms, ir_key_hash q)" if "r = Some q" for q
    proof
      assume "k = (batch_server ms, ir_key_hash q)"
      with assms that Batch run have "out \<in> {Replayed, Conflict}"
        by (auto simp: live_claim split: if_splits)
      with True show False by simp
    qed
    with batch_claim [of now s ms r al s'] run True assms(1) Batch show ?thesis
      by (auto split: option.splits)
  qed
qed

lemma run_keeps_live_claim:
  "claim s k = Some (h, op, exp) \<Longrightarrow> list_all (call_before exp) cs \<Longrightarrow>
   claim (sink_run ops s cs) k = Some (h, op, exp)"
  by (induction cs arbitrary: s) (auto simp: step_keeps_live_claim)

lemma retry_decided:
  assumes "sk_queue_messages ops now s ms (Some r) al = (s1, Stored)"
    and "list_all (call_before (ir_expires_at r)) cs" and "now' < ir_expires_at r"
    and "batch_server ms' = batch_server ms" and "ir_key_hash r' = ir_key_hash r"
  shows "sk_queue_messages ops now' (sink_run ops s1 cs) ms' (Some r') al'
      = (sink_run ops s1 cs,
         if ir_request_hash r = ir_request_hash r' \<and> ir_operation r = ir_operation r'
         then Replayed else Conflict)"
proof -
  have "claim s1 (batch_server ms, ir_key_hash r)
      = Some (ir_request_hash r, ir_operation r, ir_expires_at r)"
    by (simp add: batch_claim [OF assms(1)])
  from run_keeps_live_claim [OF this assms(2)] show ?thesis
    using assms(3-5) by (simp add: live_claim)
qed

lemma run_stored_prefix: "\<exists>ms. stored (sink_run ops s cs) = stored s @ ms"
proof (induction cs arbitrary: s)
  case (Cons c cs)
  have "\<exists>ms. stored (sink_step ops s c) = stored s @ ms"
  proof (cases c)
    case (Batch now ms r al)
    obtain s' out where "sk_queue_messages ops now s ms r al = (s', out)" by force
    with Batch batch_stored not_stored show ?thesis
      by (cases "out = Stored") fastforce+
  qed (simp add: one_stored)
  with Cons [of "sink_step ops s c"] show ?case by auto
qed simp

end

lemma mem_batch_Stored:
  "mem_queue_messages now s ms r al = (s', Stored) \<Longrightarrow> ms_messages s' = ms_messages s @ ms \<and> allows al (outgoing_count ms)
     \<and> map_of (ms_idempotency_requests s') = (case r of None \<Rightarrow> map_of (ms_idempotency_requests s)
         | Some p \<Rightarrow> (map_of (ms_idempotency_requests s))((batch_server ms, ir_key_hash p)
                       \<mapsto> (ir_request_hash p, ir_operation p, ir_expires_at p)))"
  by (auto simp: mem_queue_messages_def Let_def split: option.splits if_splits prod.splits)

lemma mem_batch_unchanged: "mem_queue_messages now s ms r al = (s', out) \<Longrightarrow> out \<noteq> Stored \<Longrightarrow> s' = s"
  by (auto simp: mem_queue_messages_def Let_def split: option.splits if_splits prod.splits)

interpretation mem: reliable_sink memory_sink_ops ms_messages "\<lambda>s. map_of (ms_idempotency_requests s)"
proof (unfold_locales, goal_cases)
  case (7 s ms r h op exp now al)
  then show ?case by (simp add: memory_sink_ops_def mem_queue_messages_def)
qed (auto simp: memory_sink_ops_def mem_queue_message_def dest: mem_batch_Stored mem_batch_unchanged)


lemma memory_sink_ops_sel [simp]:
  "sk_queue_message memory_sink_ops = mem_queue_message"
  "sk_queue_messages memory_sink_ops = mem_queue_messages"
  by (simp_all add: memory_sink_ops_def)

section \<open>Properties of the sink\<close>

text \<open>
  C7. An accepted idempotent batch is stored exactly once: after it was stored,
  and whatever other calls reach the sink before the claim expires, a retry
  under the same key on the same server changes nothing; it is answered
  \<open>Replayed\<close> when it carries the same request and \<open>Conflict\<close> otherwise, even
  with no allowance left, and the batch is still in the sink, once.
\<close>

theorem idempotent_batch_stored_once:
  assumes "mem_queue_messages now s ms (Some r) al = (s1, Stored)"
    and "list_all (call_before (ir_expires_at r)) cs" and "now' < ir_expires_at r"
    and "batch_server ms' = batch_server ms" and "ir_key_hash r' = ir_key_hash r"
  shows "mem_queue_messages now' (sink_run memory_sink_ops s1 cs) ms' (Some r') al'
      = (sink_run memory_sink_ops s1 cs,
         if ir_request_hash r = ir_request_hash r' \<and> ir_operation r = ir_operation r'
         then Replayed else Conflict)
    \<and> (\<exists>more. ms_messages (sink_run memory_sink_ops s1 cs) = ms_messages s @ ms @ more)"
proof
  show "mem_queue_messages now' (sink_run memory_sink_ops s1 cs) ms' (Some r') al'
      = (sink_run memory_sink_ops s1 cs,
         if ir_request_hash r = ir_request_hash r' \<and> ir_operation r = ir_operation r'
         then Replayed else Conflict)"
    using mem.retry_decided [of now s ms r al s1 cs now' ms' r' al'] assms by simp
  have "ms_messages s1 = ms_messages s @ ms"
    using mem.batch_stored [of now s ms "Some r" al s1] assms(1) by simp
  with mem.run_stored_prefix [of s1 cs]
  show "\<exists>more. ms_messages (sink_run memory_sink_ops s1 cs) = ms_messages s @ ms @ more"
    by auto
qed

definition sample_message :: queued_message where
  "sample_message =
     \<lparr>qm_server_id = 7, qm_rcpt_to = ''a@b.c'', qm_mail_from = ''d@e.f'', qm_raw_message = ''x'',
      qm_received_with_ssl = True, qm_scope = Outgoing, qm_bounce = False, qm_domain_id = None,
      qm_credential_id = None, qm_route_id = None, qm_tag = None, qm_metadata = None,
      qm_stream_id = None\<rparr>"

definition sample_request :: "string \<Rightarrow> idempotency_request" where
  "sample_request h =
     \<lparr>ir_key_hash = ''k'', ir_request_hash = h, ir_operation = ''smtp.send'', ir_expires_at = 100\<rparr>"

theorem idempotent_batch_stored_once_witness:
  "snd (mem_queue_messages 50
      (sink_run memory_sink_ops
        (fst (mem_queue_messages 1 memory_sink_new [sample_message] (Some (sample_request ''h''))
           (allowance_server (Some 1) 0)))
        [One sample_message])
      [sample_message] (Some (sample_request ''h'')) (allowance_server (Some 1) 1)) = Replayed"
proof -
  let ?s1 = "memory_sink_new\<lparr>ms_messages := [sample_message],
    ms_idempotency_requests := [((7, ''k''), (''h'', ''smtp.send'', 100))]\<rparr>"
  have first: "mem_queue_messages 1 memory_sink_new [sample_message] (Some (sample_request ''h''))
      (allowance_server (Some 1) 0) = (?s1, Stored)"
    by (simp add: mem_queue_messages_def memory_sink_new_def sample_message_def sample_request_def
        batch_server_def outgoing_count_def allowance_server_def allows_def remaining_def
        al_remove_def in_i64_def)
  show ?thesis
    using idempotent_batch_stored_once [OF first, of "[One sample_message]" 50 "[sample_message]"
        "sample_request ''h''" "allowance_server (Some 1) 1"] first
    by (simp add: sample_request_def)
qed

text \<open>
  A batch rejected by the send limit reserves nothing and stores nothing:
  the sink is unchanged, and the same submission goes through as soon as the
  allowance admits it, with the same key.
\<close>

theorem quota_rejection_reserves_nothing:
  assumes "mem_queue_messages now s ms r al = (s', LimitExceeded m)"
  shows "s' = s \<and> \<not> allows al (outgoing_count ms) \<and> m = rejection_message al
    \<and> (allows al' (outgoing_count ms) \<longrightarrow>
         snd (mem_queue_messages now s' ms r al') = Stored
         \<and> ms_messages (fst (mem_queue_messages now s' ms r al')) = ms_messages s @ ms)"
  using assms
  by (auto simp: mem_queue_messages_def Let_def split: option.splits if_splits prod.splits)

theorem quota_rejection_reserves_nothing_witness:
  "snd (mem_queue_messages 1
      (fst (mem_queue_messages 1 memory_sink_new [sample_message] (Some (sample_request ''h''))
         (allowance_server (Some 1) 1)))
      [sample_message] (Some (sample_request ''h'')) (allowance_server (Some 2) 1)) = Stored"
proof -
  have rejected: "mem_queue_messages 1 memory_sink_new [sample_message]
      (Some (sample_request ''h'')) (allowance_server (Some 1) 1)
      = (memory_sink_new, LimitExceeded (rejection_message (allowance_server (Some 1) 1)))"
    by (simp add: mem_queue_messages_def memory_sink_new_def sample_message_def sample_request_def
        batch_server_def outgoing_count_def allowance_server_def allows_def remaining_def in_i64_def)
  have "allows (allowance_server (Some 2) 1) (outgoing_count [sample_message])"
    by (simp add: outgoing_count_def allowance_server_def allows_def remaining_def in_i64_def)
  then show ?thesis
    using quota_rejection_reserves_nothing [OF rejected, of "allowance_server (Some 2) 1"] rejected
    by simp
qed

section \<open>Properties of header parsing\<close>

definition header_line :: "string \<times> string \<Rightarrow> string" where
  "header_line kv = fst kv @ '': '' @ snd kv"

definition wf_header :: "string \<times> string \<Rightarrow> bool" where
  "wf_header kv \<longleftrightarrow>
     (case kv of (k, v) \<Rightarrow>
        k \<noteq> [] \<and> hd k \<noteq> CHR '' '' \<and> hd k \<noteq> CHR 0x09 \<and> CHR '':'' \<notin> set k
        \<and> LF \<notin> set (header_line kv) \<and> trim k = k \<and> trim v = v \<and> utf8_valid (header_line kv))"

lemma trim_start_space [simp]: "trim_start (CHR '' '' # s) = trim_start s"
  by (simp add: trim_start_def first_ws_def ws_encodings_def)

lemma trim_space [simp]: "trim (CHR '' '' # s) = trim s"
  by (simp add: trim_def)

lemma parse_header_lines_render:
  assumes "list_all wf_header hs"
  shows "parse_header_lines lc acc (map (\<lambda>kv. header_line kv @ [CR]) hs @ [CR] # rest)
    = acc @ map (\<lambda>kv. (lc (fst kv), snd kv)) hs"
  using assms
proof (induction hs arbitrary: acc)
  case Nil
  then show ?case using chomp_simps(1) [of CR "[]"] by simp
next
  case (Cons kv hs)
  obtain k v where kv: "kv = (k, v)" by force
  with Cons.prems have wf: "k \<noteq> []" "hd k \<noteq> CHR '' ''" "hd k \<noteq> CHR 0x09" "CHR '':'' \<notin> set k"
    "trim k = k" "trim v = v" "utf8_valid (header_line kv)"
    by (auto simp: wf_header_def)
  have "split_once (CHR '':'') (header_line kv) = Some (k, CHR '' '' # v)"
    using wf(4) split_once_first [of "CHR '':''" k "CHR '' '' # v"] kv by (simp add: header_line_def)
  moreover have "hd (header_line kv) = hd k" "header_line kv \<noteq> []"
    using wf(1) kv by (simp_all add: header_line_def)
  ultimately show ?case
    using Cons wf kv by (simp add: utf8_lossy_valid)
qed

lemma split_on_lines:
  assumes "\<forall>l \<in> set ls. LF \<notin> set l"
  shows "split_on LF (concat (map (\<lambda>l. l @ [LF]) ls) @ s) = ls @ split_on LF s"
  using assms by (induction ls) (auto simp: split_on_append)

text \<open>
  Header parsing inverts header rendering: well-formed headers printed as
  \<open>key: value\<close> lines and closed by an empty line are read back in order, with
  lower-cased keys and the exact values, whatever the body that follows holds.
\<close>

theorem parse_headers_render:
  assumes "list_all wf_header hs"
  shows "parse_headers lc (concat (map (\<lambda>kv. header_line kv @ crlf) hs) @ crlf @ body)
    = map (\<lambda>kv. (lc (fst kv), snd kv)) hs"
proof -
  let ?ls = "map (\<lambda>kv. header_line kv @ [CR]) hs @ [[CR]]"
  have "\<forall>l \<in> set ?ls. LF \<notin> set l"
    using assms by (auto simp: list_all_iff wf_header_def)
  from split_on_lines [OF this, of body]
  have "split_on LF (concat (map (\<lambda>kv. header_line kv @ crlf) hs) @ crlf @ body)
      = ?ls @ split_on LF body"
    by (simp add: comp_def)
  then show ?thesis
    using parse_header_lines_render [OF assms, of lc "[]" "split_on LF body"]
    by (simp add: parse_headers_def)
qed

theorem parse_headers_render_witness:
  "parse_headers to_ascii_lowercase
     (''Subject: Hello'' @ crlf @ ''From: a@b.c'' @ crlf @ crlf @ ''To: body'')
   = [(''subject'', ''Hello''), (''from'', ''a@b.c'')]"
proof -
  let ?hs = "[(''Subject'', ''Hello''), (''From'', ''a@b.c'')]"
  have "list_all wf_header ?hs"
    by (simp add: wf_header_def header_line_def trim_eval utf8_chunk_ascii)
  moreover have "to_ascii_lowercase ''Subject'' = ''subject''" "to_ascii_lowercase ''From'' = ''from''"
    by (simp_all add: ascii_eval)
  ultimately show ?thesis
    using parse_headers_render [of ?hs to_ascii_lowercase "''To: body''"]
    by (simp add: header_line_def)
qed

end
