(* ===== verification/Store_Interface.thy ===== *)
theory Store_Interface
  imports Message_Sink
begin

text \<open>
  The storage interface the SMTP session talks to: the trait \<open>Store\<close> of
  \<open>camelmailer-core/src/store.rs\<close> as a record of functions over an abstract
  store state, the contract a store promises as the locale \<open>smtp_store\<close>, and
  the two free functions of that file both stores share
  (\<open>strip_name_from_address\<close>, \<open>match_ip_credential\<close>). Address and network parsing
  are the record \<open>ip_ops\<close>: \<open>ip_parse\<close> is \<open>str::parse::<IpAddr>\<close>, the rest is the
  ipnet crate.
\<close>

record 'st store_ops =
  so_organization :: "'st \<Rightarrow> Id \<Rightarrow> organization option"
  so_server :: "'st \<Rightarrow> Id \<Rightarrow> server option"
  so_find_smtp_credential_by_key :: "'st \<Rightarrow> string \<Rightarrow> credential option"
  so_find_server_by_token :: "'st \<Rightarrow> string \<Rightarrow> server option"
  so_find_route_by_token :: "'st \<Rightarrow> string \<Rightarrow> resolved_route option"
  so_find_route_by_name_and_domain :: "'st \<Rightarrow> string \<Rightarrow> string \<Rightarrow> resolved_route option"
  so_find_ip_credential :: "'st \<Rightarrow> ip_addr \<Rightarrow> credential option"
  so_smtp_credentials_for_server :: "'st \<Rightarrow> Id \<Rightarrow> credential list"
  so_find_server_by_permalinks :: "'st \<Rightarrow> string \<Rightarrow> string \<Rightarrow> server option"
  so_find_authenticated_domain :: "'st \<Rightarrow> Id \<Rightarrow> string list \<Rightarrow> Id option"
  so_send_usage :: "'st \<Rightarrow> Id \<Rightarrow> int"
  so_send_policy_for_organization :: "'st \<Rightarrow> Id \<Rightarrow> organization_policy"
  so_organization_month_usage :: "'st \<Rightarrow> Id \<Rightarrow> int"
  so_return_path_route_for_server :: "'st \<Rightarrow> Id \<Rightarrow> resolved_route option"
  so_record_credential_use :: "'st \<Rightarrow> Id \<Rightarrow> 'st"
  so_find_confirmed_sender_address :: "'st \<Rightarrow> Id \<Rightarrow> string list \<Rightarrow> bool"

definition strip_name_from_address :: "string \<Rightarrow> string" where
  "strip_name_from_address value =
     (case (find_char (CHR ''<'') value, rfind_char (CHR ''>'') value) of
        (Some start, Some end_pos) \<Rightarrow>
          if start < end_pos then trim (take (end_pos - (start + 1)) (drop (start + 1) value))
          else trim value
      | _ \<Rightarrow> trim value)"

record 'net ip_ops =
  ip_parse :: "string \<Rightarrow> ip_addr option"
  net_parse :: "string \<Rightarrow> 'net option"
  net_of_ip :: "ip_addr \<Rightarrow> 'net"
  net_prefix_len :: "'net \<Rightarrow> nat"
  net_contains :: "'net \<Rightarrow> ip_addr \<Rightarrow> bool"
  net_is_v4 :: "'net \<Rightarrow> bool"

definition credential_net :: "'net ip_ops \<Rightarrow> credential \<Rightarrow> 'net option" where
  "credential_net ip c =
     (case net_parse ip (cred_key c) of
        Some net \<Rightarrow> Some net
      | None \<Rightarrow> map_option (net_of_ip ip) (ip_parse ip (cred_key c)))"

definition net_matches :: "'net ip_ops \<Rightarrow> ip_addr \<Rightarrow> 'net \<Rightarrow> bool" where
  "net_matches ip addr net \<longleftrightarrow>
     net_contains ip net addr
     \<or> (net_is_v4 ip net \<and>
        (case addr of
           V6 ip6 \<Rightarrow> (case to_ipv4_mapped ip6 of Some m \<Rightarrow> net_contains ip net (V4 m) | None \<Rightarrow> False)
         | V4 _ \<Rightarrow> False))"

definition match_ip_credential :: "'net ip_ops \<Rightarrow> credential list \<Rightarrow> ip_addr \<Rightarrow> credential option" where
  "match_ip_credential ip credentials addr =
     (let candidates =
        List.map_filter (\<lambda>c. map_option (\<lambda>net. (net, c)) (credential_net ip c))
          (filter (\<lambda>c. cred_type c = SmtpIp) credentials);
        sorted = sort_key (\<lambda>nc. - int (net_prefix_len ip (fst nc))) candidates
      in map_option snd (List.find (\<lambda>nc. net_matches ip addr (fst nc)) sorted))"

section \<open>The contract of a store\<close>

locale smtp_store =
  fixes ops :: "'st store_ops"
    and invar :: "'st \<Rightarrow> bool"
  assumes server_by_id: "invar st \<Longrightarrow> so_server ops st i = Some s \<Longrightarrow> srv_id s = i"
    and smtp_by_key: "invar st \<Longrightarrow> so_find_smtp_credential_by_key ops st k = Some c \<Longrightarrow>
          cred_type c = Smtp \<and> cred_key c = k"
    and ip_cred: "invar st \<Longrightarrow> so_find_ip_credential ops st ip = Some c \<Longrightarrow> cred_type c = SmtpIp"
    and smtp_for_server: "invar st \<Longrightarrow> c \<in> set (so_smtp_credentials_for_server ops st i) \<Longrightarrow>
          cred_type c = Smtp \<and> cred_server_id c = i"
    and auth_domain_nonempty: "invar st \<Longrightarrow>
          so_find_authenticated_domain ops st i vals = Some d \<Longrightarrow> vals \<noteq> []"
    and confirmed_nonempty: "invar st \<Longrightarrow>
          so_find_confirmed_sender_address ops st i vals \<Longrightarrow> vals \<noteq> []"
    and record_use_invar: "invar st \<Longrightarrow> invar (so_record_credential_use ops st i)"
    and record_use_server: "invar st \<Longrightarrow>
          so_server ops (so_record_credential_use ops st i) = so_server ops st"
    and record_use_policy: "invar st \<Longrightarrow>
          so_send_policy_for_organization ops (so_record_credential_use ops st i)
            = so_send_policy_for_organization ops st"

section \<open>Lemmas\<close>

lemma map_filter_SomeD: "y \<in> set (List.map_filter f xs) \<Longrightarrow> \<exists>x \<in> set xs. f x = Some y"
  by (auto simp: List.map_filter_def)

lemma match_ip_credential_SomeD:
  assumes "match_ip_credential ip cs addr = Some c"
  obtains net where "c \<in> set cs" "cred_type c = SmtpIp" "credential_net ip c = Some net"
    "net_matches ip addr net"
proof -
  from assms obtain net where
    "(net, c) \<in> set (List.map_filter (\<lambda>c. map_option (\<lambda>net. (net, c)) (credential_net ip c))
        (filter (\<lambda>c. cred_type c = SmtpIp) cs))" "net_matches ip addr net"
    by (auto simp: match_ip_credential_def Let_def dest!: find_SomeD)
  then show thesis by (auto intro: that dest!: map_filter_SomeD)
qed

lemma find_sorted_first:
  assumes "List.find P (sort_key f xs) = Some x" "y \<in> set xs" "P y"
  shows "f x \<le> f y"
proof -
  from assms(1) obtain i where i: "i < length (sort_key f xs)" "sort_key f xs ! i = x"
      "\<forall>j<i. \<not> P (sort_key f xs ! j)"
    by (auto simp: find_Some_iff)
  from assms(2) obtain j where j: "j < length (sort_key f xs)" "sort_key f xs ! j = y"
    by (metis in_set_conv_nth set_sort)
  with i(3) assms(3) have "i \<le> j" by (metis not_le)
  moreover have "sorted (map f (sort_key f xs))" by simp
  ultimately show ?thesis
    using sorted_nth_mono [of "map f (sort_key f xs)" i j] i j by simp
qed

text \<open>
  SMTP-IP authentication is by longest prefix: the credential that is found
  is one of the given SMTP-IP credentials, its network covers the client (for
  an IPv4 network also through the IPv4-mapped form of an IPv6 client), and no
  SMTP-IP credential whose network covers the client has a longer prefix; when
  some credential covers the client, one is found.
\<close>

theorem match_ip_credential_longest_prefix:
  "(\<forall>c. match_ip_credential ip cs addr = Some c \<longrightarrow>
      c \<in> set cs \<and> cred_type c = SmtpIp
      \<and> (\<exists>net. credential_net ip c = Some net \<and> net_matches ip addr net
            \<and> (\<forall>d \<in> set cs. \<forall>net'. cred_type d = SmtpIp \<and> credential_net ip d = Some net'
                  \<and> net_matches ip addr net' \<longrightarrow> net_prefix_len ip net' \<le> net_prefix_len ip net)))
   \<and> (match_ip_credential ip cs addr = None \<longleftrightarrow>
        (\<forall>d \<in> set cs. \<forall>net. cred_type d = SmtpIp \<and> credential_net ip d = Some net
            \<longrightarrow> \<not> net_matches ip addr net))"
proof -
  let ?cand = "List.map_filter (\<lambda>c. map_option (\<lambda>net. (net, c)) (credential_net ip c))
      (filter (\<lambda>c. cred_type c = SmtpIp) cs)"
  let ?key = "\<lambda>nc :: 'a \<times> credential. - int (net_prefix_len ip (fst nc))"
  let ?find = "List.find (\<lambda>nc. net_matches ip addr (fst nc)) (sort_key ?key ?cand)"
  have cand: "(net, d) \<in> set ?cand \<longleftrightarrow>
      d \<in> set cs \<and> cred_type d = SmtpIp \<and> credential_net ip d = Some net" for net d
    by (auto simp: List.map_filter_def image_iff)
  have res: "match_ip_credential ip cs addr = map_option snd ?find"
    by (simp add: match_ip_credential_def Let_def)
  have "c \<in> set cs \<and> cred_type c = SmtpIp \<and> credential_net ip c = Some net
      \<and> net_matches ip addr net
      \<and> (\<forall>d \<in> set cs. \<forall>net'. cred_type d = SmtpIp \<and> credential_net ip d = Some net'
            \<and> net_matches ip addr net' \<longrightarrow> net_prefix_len ip net' \<le> net_prefix_len ip net)"
    if "?find = Some (net, c)" for net c
  proof -
    from find_SomeD [OF that] have "(net, c) \<in> set ?cand" "net_matches ip addr net" by auto
    moreover have "net_prefix_len ip net' \<le> net_prefix_len ip net"
      if "(net', d) \<in> set ?cand" "net_matches ip addr net'" for net' d
      using find_sorted_first [OF \<open>?find = Some (net, c)\<close> that(1)] that(2) by simp
    ultimately show ?thesis using cand by blast
  qed
  moreover have "?find = None \<longleftrightarrow>
      (\<forall>d \<in> set cs. \<forall>net. cred_type d = SmtpIp \<and> credential_net ip d = Some net
          \<longrightarrow> \<not> net_matches ip addr net)"
    using cand by (auto simp: find_None_iff)
  ultimately show ?thesis unfolding res by (cases ?find) force+
qed


text \<open>A concrete network type for witnesses: IPv4 networks as prefix length and base address.\<close>

definition demo_ip_ops :: "(nat \<times> nat) ip_ops" where
  "demo_ip_ops =
     \<lparr>ip_parse = (\<lambda>s. if s = ''1.2.3.4'' then Some (V4 0x01020304) else None),
      net_parse = (\<lambda>s. if s = ''1.0.0.0/8'' then Some (8, 0x01000000)
                       else if s = ''1.2.0.0/16'' then Some (16, 0x01020000) else None),
      net_of_ip = (\<lambda>a. case a of V4 w \<Rightarrow> (32, unat w) | V6 _ \<Rightarrow> (128, 0)),
      net_prefix_len = fst,
      net_contains = (\<lambda>net a. case a of
          V4 w \<Rightarrow> fst net \<le> 32 \<and> unat w div 2 ^ (32 - fst net) = snd net div 2 ^ (32 - fst net)
        | V6 _ \<Rightarrow> False),
      net_is_v4 = (\<lambda>net. fst net \<le> 32)\<rparr>"

definition demo_credential :: "Id \<Rightarrow> credential_type \<Rightarrow> string \<Rightarrow> credential" where
  "demo_credential i t k =
     \<lparr>cred_id = i, cred_uuid = ''u'', cred_server_id = 1, cred_type = t, cred_name = ''n'',
      cred_key = k, cred_hold = False, cred_last_used_at = None\<rparr>"

theorem match_ip_credential_longest_prefix_witness:
  "match_ip_credential demo_ip_ops
     [demo_credential 1 SmtpIp ''1.0.0.0/8'', demo_credential 2 SmtpIp ''1.2.0.0/16''] (V4 0x01020304)
   = Some (demo_credential 2 SmtpIp ''1.2.0.0/16'')"
proof -
  let ?cs = "[demo_credential 1 SmtpIp ''1.0.0.0/8'', demo_credential 2 SmtpIp ''1.2.0.0/16'']"
  have nets: "credential_net demo_ip_ops (demo_credential 1 SmtpIp ''1.0.0.0/8'') = Some (8, 0x01000000)"
    "credential_net demo_ip_ops (demo_credential 2 SmtpIp ''1.2.0.0/16'') = Some (16, 0x01020000)"
    by (simp_all add: credential_net_def demo_ip_ops_def demo_credential_def)
  have covers: "net_matches demo_ip_ops (V4 0x01020304) (16, 0x01020000)"
    by (simp add: net_matches_def demo_ip_ops_def)
  have lens: "net_prefix_len demo_ip_ops (16, 0x01020000) = 16"
      "net_prefix_len demo_ip_ops (8, 0x01000000) = 8"
    by (simp_all add: demo_ip_ops_def)
  note main = match_ip_credential_longest_prefix [of demo_ip_ops ?cs "V4 0x01020304"]
  from main covers nets(2) obtain c where c: "match_ip_credential demo_ip_ops ?cs (V4 0x01020304) = Some c"
    by (cases "match_ip_credential demo_ip_ops ?cs (V4 0x01020304)")
       (auto simp: demo_credential_def)
  with main have best: "c \<in> set ?cs" "\<exists>net. credential_net demo_ip_ops c = Some net \<and>
      (\<forall>d \<in> set ?cs. \<forall>net'. cred_type d = SmtpIp \<and> credential_net demo_ip_ops d = Some net'
          \<and> net_matches demo_ip_ops (V4 0x01020304) net' \<longrightarrow>
          net_prefix_len demo_ip_ops net' \<le> net_prefix_len demo_ip_ops net)"
    by blast+
  have "c \<noteq> demo_credential 1 SmtpIp ''1.0.0.0/8''"
    using best(2) nets covers lens by (force simp: demo_credential_def)
  with best(1) c show ?thesis by auto
qed

end
