(* ===== verification/Dns_Name.thy ===== *)
theory Dns_Name
  imports Prelude
begin

text \<open>
  Domain names of the configuration crate: \<open>normalize_dns_domain_name\<close> and
  \<open>Dns::normalized_return_path_domain\<close> of \<open>camelmailer-config/src/lib.rs\<close>.
  \<open>to_ascii\<close> stands for \<open>idna::domain_to_ascii\<close>.
\<close>

definition bad_label :: "string \<Rightarrow> bool" where
  "bad_label label \<longleftrightarrow>
     label = [] \<or> length label > 63
     \<or> \<not> list_all (\<lambda>b. is_ascii_alnum b \<or> b = CHR ''-'') label
     \<or> \<not> is_ascii_alnum (hd label) \<or> \<not> is_ascii_alnum (last label)"

definition normalize_dns_domain_name :: "(string \<Rightarrow> string option) \<Rightarrow> string \<Rightarrow> string option" where
  "normalize_dns_domain_name to_ascii value =
     (case to_ascii (trim_end_matches (\<lambda>c. c = CHR ''.'') (trim value)) of
        None \<Rightarrow> None
      | Some a \<Rightarrow>
          (let name = to_ascii_lowercase a; labels = split_on (CHR ''.'') name in
           if length labels < 2 \<or> length name > 253 \<or> list_ex bad_label labels then None
           else Some name))"

definition reserved_suffixes :: "string list" where
  "reserved_suffixes =
     [''example'', ''example.com'', ''example.net'', ''example.org'', ''invalid'', ''localhost'', ''test'']"

definition under_suffix :: "string \<Rightarrow> string \<Rightarrow> bool" where
  "under_suffix name sfx \<longleftrightarrow>
     name = sfx
     \<or> (case strip_suffix sfx name of Some p \<Rightarrow> suffix ''.'' p | None \<Rightarrow> False)"

definition normalized_return_path_domain :: "(string \<Rightarrow> string option) \<Rightarrow> string \<Rightarrow> string option" where
  "normalized_return_path_domain to_ascii return_path_domain =
     (case normalize_dns_domain_name to_ascii return_path_domain of
        None \<Rightarrow> None
      | Some name \<Rightarrow> if list_ex (under_suffix name) reserved_suffixes then None else Some name)"

section \<open>Lemmas\<close>

lemma not_bad_label:
  assumes "\<not> bad_label l"
  shows "l \<noteq> []" "length l \<le> 63" "is_ascii_alnum (hd l)" "is_ascii_alnum (last l)"
    "\<And>c. c \<in> set l \<Longrightarrow> is_ascii_alnum c \<or> c = CHR ''-''"
  using assms by (auto simp: bad_label_def list_all_iff)

lemma set_split_on: "x \<in> set s \<Longrightarrow> x = c \<or> (\<exists>w \<in> set (split_on c s). x \<in> set w)"
proof (induction s)
  case (Cons a s)
  then show ?case
    by (cases "split_on c s") (auto split: list.splits)
qed simp

lemma lower_c_not_upper: "\<not> is_ascii_upper (lower_c c)"
  by (simp add: lower_c_def is_ascii_upper_def)

text \<open>
  A normalized domain name is canonical: it has at least two labels and at
  most 253 bytes, every label is 1 to 63 letters, digits or hyphens and neither
  starts nor ends with a hyphen, no byte is an upper-case letter, so comparing
  normalized names byte by byte is comparing them case-insensitively, and a
  return path domain that survives the reserved-name filter is not an
  unedited sample name.
\<close>

theorem normalize_dns_canonical:
  "(\<forall>n. normalize_dns_domain_name to_ascii v = Some n \<longrightarrow>
      2 \<le> length (split_on (CHR ''.'') n) \<and> length n \<le> 253
      \<and> (\<forall>l \<in> set (split_on (CHR ''.'') n).
            1 \<le> length l \<and> length l \<le> 63 \<and> hd l \<noteq> CHR ''-'' \<and> last l \<noteq> CHR ''-'')
      \<and> (\<forall>c \<in> set n. c = CHR ''.'' \<or> c = CHR ''-'' \<or> is_ascii_digit c \<or> is_ascii_lower c)
      \<and> to_ascii_lowercase n = n)
   \<and> (\<forall>n. normalized_return_path_domain to_ascii v = Some n \<longrightarrow>
      normalize_dns_domain_name to_ascii v = Some n
      \<and> (\<forall>s \<in> set reserved_suffixes. \<not> under_suffix n s))"
proof (intro conjI allI impI)
  fix n assume "normalize_dns_domain_name to_ascii v = Some n"
  then obtain a where n: "n = to_ascii_lowercase a" and len: "2 \<le> length (split_on (CHR ''.'') n)"
      "length n \<le> 253" and ok: "\<forall>l \<in> set (split_on (CHR ''.'') n). \<not> bad_label l"
    by (auto simp: normalize_dns_domain_name_def Let_def list_ex_iff split: option.splits if_splits)
  have hyphen: "\<not> is_ascii_alnum (CHR ''-'')"
    by (simp add: is_ascii_alnum_def is_ascii_digit_def is_ascii_upper_def is_ascii_lower_def)
  show "2 \<le> length (split_on (CHR ''.'') n)" "length n \<le> 253" by (fact len)+
  show "\<forall>l \<in> set (split_on (CHR ''.'') n).
      1 \<le> length l \<and> length l \<le> 63 \<and> hd l \<noteq> CHR ''-'' \<and> last l \<noteq> CHR ''-''"
  proof
    fix l assume "l \<in> set (split_on (CHR ''.'') n)"
    with ok have "\<not> bad_label l" by simp
    from not_bad_label [OF this] hyphen
    show "1 \<le> length l \<and> length l \<le> 63 \<and> hd l \<noteq> CHR ''-'' \<and> last l \<noteq> CHR ''-''"
      by (cases l) auto
  qed
  show "\<forall>c \<in> set n. c = CHR ''.'' \<or> c = CHR ''-'' \<or> is_ascii_digit c \<or> is_ascii_lower c"
  proof
    fix c assume c: "c \<in> set n"
    then have "\<not> is_ascii_upper c"
      using lower_c_not_upper by (auto simp: n to_ascii_lowercase_def)
    moreover from set_split_on [OF c, of "CHR ''.''"] ok not_bad_label(5)
    have "c = CHR ''.'' \<or> is_ascii_alnum c \<or> c = CHR ''-''" by blast
    ultimately show "c = CHR ''.'' \<or> c = CHR ''-'' \<or> is_ascii_digit c \<or> is_ascii_lower c"
      by (auto simp: is_ascii_alnum_def)
  qed
  show "to_ascii_lowercase n = n" by (simp add: n)
next
  fix n assume h: "normalized_return_path_domain to_ascii v = Some n"
  then show "normalize_dns_domain_name to_ascii v = Some n"
    by (auto simp: normalized_return_path_domain_def split: option.splits if_splits)
  show "\<forall>s \<in> set reserved_suffixes. \<not> under_suffix n s"
    using h by (auto simp: normalized_return_path_domain_def list_ex_iff split: option.splits if_splits)
qed

theorem normalize_dns_canonical_witness:
  "normalize_dns_domain_name Some '' RP.Camel.IO. '' = Some ''rp.camel.io''
   \<and> to_ascii_lowercase ''rp.camel.io'' = ''rp.camel.io''"
proof -
  have "normalize_dns_domain_name Some '' RP.Camel.IO. '' = Some ''rp.camel.io''"
    by (simp add: normalize_dns_domain_name_def trim_end_matches_def trim_eval ascii_eval bad_label_def)
  then show ?thesis
    using normalize_dns_canonical [of Some "'' RP.Camel.IO. ''"] by blast
qed

end
