(* ===== verification/Smtp_Session.thy ===== *)
theory Smtp_Session
  imports Store_Interface Dns_Name
begin

text \<open>
  The SMTP session state machine: \<open>camelmailer-smtp/src/session.rs\<close> with the
  \<open>Received:\<close> header of \<open>camelmailer-core/src/received_header.rs\<close>. A session
  is a record, each method a function on it; the store and the sink are the
  operation records of \<open>Store_Interface\<close> and \<open>Message_Sink\<close> with their states passed
  explicitly. A Rust panic is the left value of \<^typ>\<open>'a rust\<close>.

  \<open>smtp_env\<close> is what one call of \<open>handle\<close> takes from outside the sources: the
  base64, HMAC-MD5, SHA-256 and IDNA crates, \<open>str::to_lowercase\<close>, address
  parsing, the clock and its formatting, and the random hex of a CRAM-MD5
  challenge. Each call has its own environment, so time and randomness are
  unconstrained between calls.
\<close>

record smtp_env =
  en_b64_decode :: "string \<Rightarrow> bytes option"
  en_b64_encode :: "bytes \<Rightarrow> string"
  en_hmac_md5 :: "bytes \<Rightarrow> bytes \<Rightarrow> bytes"
  en_sha256 :: "bytes \<Rightarrow> bytes"
  en_domain_to_ascii :: "string \<Rightarrow> string option"
  en_lc :: "string \<Rightarrow> string"
  en_ip_parse :: "string \<Rightarrow> ip_addr option"
  en_now :: instant
  en_clock :: instant
  en_rfc2822 :: "instant \<Rightarrow> string"
  en_challenge :: string

section \<open>Received header (received\_header.rs)\<close>

datatype receive_method = MethodSmtp | MethodHttp

definition method_as_str :: "receive_method \<Rightarrow> string" where
  "method_as_str m = (case m of MethodSmtp \<Rightarrow> ''SMTP'' | MethodHttp \<Rightarrow> ''HTTP'')"

definition received_header :: "(instant \<Rightarrow> string) \<Rightarrow> bool \<Rightarrow> string \<Rightarrow> string \<Rightarrow> string \<Rightarrow> receive_method
    \<Rightarrow> string \<Rightarrow> instant \<Rightarrow> string" where
  "received_header rfc2822 privacy_mode helo resolved_hostname ip_address method our_hostname now =
     (let header = ''by '' @ our_hostname @ '' with '' @ method_as_str method @ ''; '' @ rfc2822 now in
      if privacy_mode then header
      else ''from '' @ helo @ '' ('' @ resolved_hostname @ '' ['' @ ip_address @ '']) '' @ header)"

section \<open>Data\<close>

record session_config =
  cf_smtp_hostname :: string
  cf_tls_enabled :: bool
  cf_auth_requires_tls :: bool
  cf_max_message_size :: nat
  cf_return_path_domain :: string
  cf_custom_return_path_prefix :: string
  cf_route_domain :: string

datatype state = Preauth | Welcome | Welcomed | MailFromReceived | RcptToReceived

datatype reply = NoReply | Line string | Lines "string list"

datatype recipient_kind = KBounce | KRoute | KCredential

record recipient =
  rc_kind :: recipient_kind
  rc_rcpt_to :: string
  rc_server :: server
  rc_route :: "resolved_route option"

datatype input_mode =
  Command | AuthPlain | AuthLoginUsername | AuthLoginPassword | AuthCramMd5 string | DataMode

type_synonym header_map = "(string \<times> string list) list"

record session =
  s_config :: session_config
  s_state :: state
  s_input_mode :: input_mode
  s_trace_id :: string
  s_ip_address :: "string option"
  s_resolved_hostname :: "string option"
  s_received_spf :: "string option"
  s_helo_name :: "string option"
  s_tls :: bool
  s_start_tls :: bool
  s_finished :: bool
  s_credential :: "credential option"
  s_recipients :: "recipient list"
  s_mail_from :: "string option"
  s_data :: "bytes option"
  s_client_data_offset :: nat
  s_headers :: "header_map option"
  s_receiving_headers :: bool
  s_header_key :: "string option"
  s_cr_present :: bool
  s_previous_cr_present :: "bool option"

definition IDEMPOTENCY_HEADER :: string where
  "IDEMPOTENCY_HEADER = ''camelmailer-idempotency-key''"

definition IDEMPOTENCY_KEY_MAX_CHARS :: nat where
  "IDEMPOTENCY_KEY_MAX_CHARS = 256"

definition session_new :: "(string \<Rightarrow> string option) \<Rightarrow> session_config \<Rightarrow> string \<Rightarrow> string option \<Rightarrow> session" where
  "session_new to_ascii config trace_id ip =
     \<lparr>s_config = config\<lparr>
        cf_return_path_domain :=
          (case normalize_dns_domain_name to_ascii (cf_return_path_domain config) of
             Some d \<Rightarrow> d | None \<Rightarrow> []),
        cf_custom_return_path_prefix := to_ascii_lowercase (cf_custom_return_path_prefix config)\<rparr>,
      s_state = (if ip \<noteq> None then Welcome else Preauth), s_input_mode = Command,
      s_trace_id = trace_id, s_ip_address = ip, s_resolved_hostname = None, s_received_spf = None,
      s_helo_name = None, s_tls = False, s_start_tls = False, s_finished = False,
      s_credential = None, s_recipients = [], s_mail_from = None, s_data = None,
      s_client_data_offset = 0, s_headers = None, s_receiving_headers = False,
      s_header_key = None, s_cr_present = False, s_previous_cr_present = None\<rparr>"

definition banner :: "session \<Rightarrow> string" where
  "banner s = ''220 '' @ cf_smtp_hostname (s_config s) @ '' ESMTP Camelmailer/'' @ s_trace_id s"

definition take_start_tls :: "session \<Rightarrow> session \<times> bool" where
  "take_start_tls s = (s\<lparr>s_start_tls := False\<rparr>, s_start_tls s)"

definition set_tls :: "session \<Rightarrow> bool \<Rightarrow> session" where
  "set_tls s t = s\<lparr>s_tls := t\<rparr>"

definition set_received_spf :: "session \<Rightarrow> string \<Rightarrow> session" where
  "set_received_spf s v = s\<lparr>s_received_spf := Some v\<rparr>"

definition transaction_reset :: "session \<Rightarrow> session" where
  "transaction_reset s =
     s\<lparr>s_recipients := [], s_mail_from := None, s_data := None, s_client_data_offset := 0,
       s_headers := None\<rparr>"

section \<open>Helpers\<close>

definition decode64_lenient :: "smtp_env \<Rightarrow> string \<Rightarrow> bytes" where
  "decode64_lenient env input =
     (let filtered = filter (\<lambda>c. is_ascii_alnum c \<or> c \<in> {CHR ''+'', CHR ''/'', CHR ''=''}) input in
      case en_b64_decode env filtered of Some bs \<Rightarrow> bs | None \<Rightarrow> [])"

text \<open>\<open>data[..prefix.len()]\<close> panics when that position is inside a character.\<close>

definition strip_prefix_ci :: "string \<Rightarrow> string \<Rightarrow> string rust" where
  "strip_prefix_ci data pre =
     (if length data \<ge> length pre then
        bind_rust (slice_to data (length pre))
          (\<lambda>h. Inr (if eq_ignore_ascii_case h pre then drop (length pre) data else data))
      else Inr data)"

definition extract_address :: "string \<Rightarrow> string \<Rightarrow> string rust" where
  "extract_address data command =
     bind_rust (strip_prefix_ci data command)
       (\<lambda>rest0.
          let trimmed = trim_start rest0;
              trimmed = (case strip_prefix '':'' trimmed of Some r \<Rightarrow> r | None \<Rightarrow> trimmed);
              rest = trim_start trimmed;
              rest = (case rfind_char (CHR ''<'') rest of Some p \<Rightarrow> drop (p + 1) rest | None \<Rightarrow> rest);
              rest = (case find_char (CHR ''>'') rest of Some p \<Rightarrow> take p rest | None \<Rightarrow> rest)
          in Inr (trim rest))"

definition split_header :: "string \<Rightarrow> (string \<times> string) option" where
  "split_header line =
     map_option (\<lambda>p. (take p line, trim_start (drop (p + 1) line))) (find_char (CHR '':'') line)"

fun strip_header_lines :: "string \<Rightarrow> bool \<Rightarrow> bool \<Rightarrow> bytes list \<Rightarrow> bytes" where
  "strip_header_lines name in_headers skipping [] = []"
| "strip_header_lines name in_headers skipping (line # lines) =
     (if \<not> in_headers then line @ strip_header_lines name in_headers skipping lines
      else
        (let content = chomp [CR] (chomp [LF] line) in
         if content = [] then line @ strip_header_lines name False False lines
         else if hd content = CHR '' '' \<or> hd content = CHR 0x09 then
           (if skipping then [] else line) @ strip_header_lines name True skipping lines
         else
           (let skip = eq_ignore_ascii_case (hd (split_on (CHR '':'') content)) name
            in (if skip then [] else line) @ strip_header_lines name True skip lines)))"

definition strip_message_header :: "bytes \<Rightarrow> string \<Rightarrow> bytes" where
  "strip_message_header raw name = strip_header_lines name True False (split_inclusive LF raw)"

text \<open>\<open>(n as u64).to_be_bytes()\<close>.\<close>

definition be64 :: "nat \<Rightarrow> bytes" where
  "be64 n = map (\<lambda>i. char_of (n div 256 ^ (7 - i) mod 256)) [0..<8]"

definition add_field :: "bytes \<Rightarrow> bytes" where
  "add_field bs = be64 (length bs) @ bs"

definition request_encoding :: "string \<Rightarrow> recipient list \<Rightarrow> bytes \<Rightarrow> bytes" where
  "request_encoding mail_from recipients client_data =
     add_field mail_from @ be64 (length recipients)
     @ concat (map (\<lambda>r. add_field (rc_rcpt_to r)) recipients) @ add_field client_data"

definition smtp_request_hash :: "smtp_env \<Rightarrow> string \<Rightarrow> recipient list \<Rightarrow> bytes \<Rightarrow> string" where
  "smtp_request_hash env mail_from recipients client_data =
     to_hex (en_sha256 env (request_encoding mail_from recipients client_data))"

definition sha256_hex :: "smtp_env \<Rightarrow> bytes \<Rightarrow> string" where
  "sha256_hex env bs = to_hex (en_sha256 env bs)"

section \<open>Commands that only touch the session\<close>

definition auth_permitted :: "session \<Rightarrow> bool" where
  "auth_permitted s \<longleftrightarrow>
     s_tls s \<or> \<not> cf_tls_enabled (s_config s) \<or> \<not> cf_auth_requires_tls (s_config s)"

definition proxy :: "session \<Rightarrow> string \<Rightarrow> session \<times> reply" where
  "proxy s data =
     (let parts = split_on (CHR '' '') data in
      if length parts = 6 \<and> parts ! 0 = ''PROXY'' \<and> list_all (\<lambda>p. p \<noteq> []) parts then
        (let s' = s\<lparr>s_ip_address := Some (parts ! 2), s_state := Welcome\<rparr> in (s', Line (banner s')))
      else (s\<lparr>s_finished := True\<rparr>, Line ''502 Proxy Error''))"

definition quit :: "session \<Rightarrow> session \<times> reply" where
  "quit s = (s\<lparr>s_finished := True\<rparr>, Line ''221 Closing Connection'')"

definition starttls :: "session \<Rightarrow> session \<times> reply" where
  "starttls s =
     (if cf_tls_enabled (s_config s)
      then (s\<lparr>s_start_tls := True, s_tls := True\<rparr>, Line ''220 Ready to start TLS'')
      else (s, Line ''502 TLS not available''))"

definition set_helo :: "session \<Rightarrow> string \<Rightarrow> session" where
  "set_helo s data = s\<lparr>s_helo_name := map_option snd (split_once (CHR '' '') (trim data))\<rparr>"

definition frame_multiline :: "string list \<Rightarrow> string list" where
  "frame_multiline ls =
     map (\<lambda>(i, l). ''250'' @ (if i = length ls - 1 then '' '' else ''-'') @ l) (enumerate 0 ls)"

definition capabilities :: "session \<Rightarrow> string list" where
  "capabilities s =
     (if cf_tls_enabled (s_config s) \<and> \<not> s_tls s then [''STARTTLS''] else [])
     @ (if auth_permitted s then [''AUTH PLAIN LOGIN''] else [])"

definition ehlo :: "session \<Rightarrow> string \<Rightarrow> session \<times> reply" where
  "ehlo s data =
     (let s' = (transaction_reset (set_helo s data))\<lparr>s_state := Welcomed\<rparr>
      in (s', Lines (frame_multiline (''My capabilities are'' # capabilities s'))))"

definition helo :: "session \<Rightarrow> string \<Rightarrow> session \<times> reply" where
  "helo s data =
     (let s' = (transaction_reset (set_helo s data))\<lparr>s_state := Welcomed\<rparr>
      in (s', Line (''250 '' @ cf_smtp_hostname (s_config s'))))"

definition rset :: "session \<Rightarrow> session \<times> reply" where
  "rset s = ((transaction_reset s)\<lparr>s_state := Welcomed\<rparr>, Line ''250 OK'')"

definition noop :: "session \<Rightarrow> session \<times> reply" where
  "noop s = (s, Line ''250 OK'')"

definition mail_from_command :: "session \<Rightarrow> string \<Rightarrow> (session \<times> reply) rust" where
  "mail_from_command s data =
     (if s_state s \<notin> {Welcomed, MailFromReceived} then Inr (s, Line ''503 EHLO/HELO first please'')
      else
        (let s1 = transaction_reset (s\<lparr>s_state := MailFromReceived\<rparr>);
             line = (case find_sub ''AUTH='' data of
                       Some p \<Rightarrow> trim_end (take p data) | None \<Rightarrow> data)
         in bind_rust (extract_address line ''MAIL FROM'')
              (\<lambda>a. Inr (s1\<lparr>s_mail_from := Some a\<rparr>, Line ''250 OK''))))"

section \<open>Authentication\<close>

definition grant_message :: "'st store_ops \<Rightarrow> 'st \<Rightarrow> credential \<Rightarrow> string" where
  "grant_message so st c =
     (let srv = so_server so st (cred_server_id c);
          org = Option.bind srv (\<lambda>v. so_organization so st (srv_organization_id v))
      in ''235 Granted for '' @ (case org of Some v \<Rightarrow> org_permalink v | None \<Rightarrow> [])
         @ ''/'' @ (case srv of Some v \<Rightarrow> srv_permalink v | None \<Rightarrow> []))"

definition grant :: "'st store_ops \<Rightarrow> session \<Rightarrow> 'st \<Rightarrow> credential \<Rightarrow> session \<times> 'st \<times> reply" where
  "grant so s st c =
     (let st' = so_record_credential_use so st (cred_id c)
      in (s\<lparr>s_credential := Some c\<rparr>, st', Line (grant_message so st' c)))"

definition authenticate :: "'st store_ops \<Rightarrow> session \<Rightarrow> 'st \<Rightarrow> string \<Rightarrow> session \<times> 'st \<times> reply" where
  "authenticate so s st password =
     (case so_find_smtp_credential_by_key so st password of
        Some c \<Rightarrow> grant so s st c
      | None \<Rightarrow> (s, st, Line ''535 Invalid credential''))"

definition auth_plain_continue :: "smtp_env \<Rightarrow> 'st store_ops \<Rightarrow> session \<Rightarrow> 'st \<Rightarrow> string
    \<Rightarrow> session \<times> 'st \<times> reply" where
  "auth_plain_continue env so s st data =
     (let s1 = s\<lparr>s_input_mode := Command\<rparr>;
          parts = split_on NUL (utf8_lossy (decode64_lenient env data)) in
      if length parts < 2 then (s1, st, Line ''535 Authenticated failed - protocol error'')
      else authenticate so s1 st (last parts))"

definition auth_plain :: "smtp_env \<Rightarrow> 'st store_ops \<Rightarrow> session \<Rightarrow> 'st \<Rightarrow> string
    \<Rightarrow> (session \<times> 'st \<times> reply) rust" where
  "auth_plain env so s st data =
     bind_rust (strip_prefix_ci data ''AUTH PLAIN'')
       (\<lambda>rest0. let rest = (case strip_prefix '' '' rest0 of Some r \<Rightarrow> r | None \<Rightarrow> rest0) in
          Inr (if trim rest = [] then (s\<lparr>s_input_mode := AuthPlain\<rparr>, st, Line ''334'')
               else auth_plain_continue env so s st rest))"

definition auth_login_username :: "session \<Rightarrow> session \<times> reply" where
  "auth_login_username s = (s\<lparr>s_input_mode := AuthLoginPassword\<rparr>, Line ''334 UGFzc3dvcmQ6'')"

definition auth_login :: "session \<Rightarrow> string \<Rightarrow> (session \<times> reply) rust" where
  "auth_login s data =
     bind_rust (strip_prefix_ci data ''AUTH LOGIN'')
       (\<lambda>rest0. let rest = (case strip_prefix '' '' rest0 of Some r \<Rightarrow> r | None \<Rightarrow> rest0) in
          Inr (if trim rest = [] then (s\<lparr>s_input_mode := AuthLoginUsername\<rparr>, Line ''334 VXNlcm5hbWU6'')
               else auth_login_username s))"

definition auth_login_password :: "smtp_env \<Rightarrow> 'st store_ops \<Rightarrow> session \<Rightarrow> 'st \<Rightarrow> string
    \<Rightarrow> session \<times> 'st \<times> reply" where
  "auth_login_password env so s st data =
     authenticate so (s\<lparr>s_input_mode := Command\<rparr>) st (utf8_lossy (decode64_lenient env data))"

definition auth_cram_md5 :: "smtp_env \<Rightarrow> session \<Rightarrow> session \<times> reply" where
  "auth_cram_md5 env s =
     (let challenge = ''<'' @ en_challenge env @ ''@'' @ cf_smtp_hostname (s_config s) @ ''>''
      in (s\<lparr>s_input_mode := AuthCramMd5 challenge\<rparr>, Line (''334 '' @ en_b64_encode env challenge)))"

text \<open>\<open>splitn(2, p)\<close> with the second piece defaulting to the empty string.\<close>

definition splitn2 :: "(char \<Rightarrow> bool) \<Rightarrow> string \<Rightarrow> string \<times> string" where
  "splitn2 p s = (takeWhile (\<lambda>c. \<not> p c) s, drop 1 (dropWhile (\<lambda>c. \<not> p c) s))"

definition is_crlf_char :: "char \<Rightarrow> bool" where
  "is_crlf_char c \<longleftrightarrow> c = CR \<or> c = LF"

definition auth_cram_md5_continue :: "smtp_env \<Rightarrow> 'st store_ops \<Rightarrow> session \<Rightarrow> 'st \<Rightarrow> string \<Rightarrow> string
    \<Rightarrow> session \<times> 'st \<times> reply" where
  "auth_cram_md5_continue env so s st data challenge =
     (let s1 = s\<lparr>s_input_mode := Command\<rparr>;
          decoded = utf8_lossy (decode64_lenient env data);
          pieces = splitn2 (\<lambda>c. c = CHR '' '') decoded;
          username = trim_end_matches is_crlf_char (fst pieces);
          password = trim_end_matches is_crlf_char (snd pieces);
          permalinks = splitn2 (\<lambda>c. c = CHR ''/'' \<or> c = CHR ''_'') username
      in case so_find_server_by_permalinks so st (fst permalinks) (snd permalinks) of
           None \<Rightarrow> (s1, st, Line ''535 Denied'')
         | Some srv \<Rightarrow>
             (case List.find (\<lambda>c. password = to_hex (en_hmac_md5 env (cred_key c) challenge))
                     (so_smtp_credentials_for_server so st (srv_id srv)) of
                Some c \<Rightarrow> grant so s1 st c
              | None \<Rightarrow> (s1, st, Line ''535 Denied'')))"

section \<open>RCPT TO\<close>

definition push_recipient :: "session \<Rightarrow> recipient \<Rightarrow> session" where
  "push_recipient s r = s\<lparr>s_recipients := s_recipients s @ [r]\<rparr>"

definition is_return_path :: "smtp_env \<Rightarrow> session \<Rightarrow> string \<Rightarrow> bool" where
  "is_return_path env s dname \<longleftrightarrow>
     (case normalize_dns_domain_name (en_domain_to_ascii env) dname of
        None \<Rightarrow> False
      | Some d \<Rightarrow>
          (cf_return_path_domain (s_config s) \<noteq> [] \<and> d = cf_return_path_domain (s_config s))
          \<or> prefix (cf_custom_return_path_prefix (s_config s) @ ''.'') d)"

text \<open>The user part before a \<open>+\<close>, the tag after it, and the domain of an address.\<close>

definition rcpt_parts :: "string \<Rightarrow> (string \<times> string option \<times> string) option" where
  "rcpt_parts rcpt =
     (case split_once (CHR ''@'') rcpt of
        None \<Rightarrow> None
      | Some (local, dname) \<Rightarrow>
          if dname = [] then None
          else (case split_once (CHR ''+'') local of
                  Some (u, t) \<Rightarrow> Some (u, Some t, dname)
                | None \<Rightarrow> Some (local, None, dname)))"

definition rcpt_return_path :: "'st store_ops \<Rightarrow> session \<Rightarrow> 'st \<Rightarrow> string \<Rightarrow> string \<Rightarrow> session \<times> reply" where
  "rcpt_return_path so s st rcpt uname =
     (case so_find_server_by_token so st uname of
        Some srv \<Rightarrow>
          if srv_suspended srv then (s, Line ''535 Mail server has been suspended'')
          else (push_recipient s \<lparr>rc_kind = KBounce, rc_rcpt_to = rcpt, rc_server = srv, rc_route = None\<rparr>,
                Line ''250 OK'')
      | None \<Rightarrow> (s, Line ''550 Invalid server token''))"

definition rcpt_route_token :: "'st store_ops \<Rightarrow> session \<Rightarrow> 'st \<Rightarrow> string \<Rightarrow> string option
    \<Rightarrow> session \<times> reply" where
  "rcpt_route_token so s st uname tag =
     (case so_find_route_by_token so st uname of
        Some rr \<Rightarrow>
          if srv_suspended (rr_server rr) then (s, Line ''535 Mail server has been suspended'')
          else if rt_mode (rr_route rr) = ModeReject
            then (s, Line ''550 Route does not accept incoming messages'')
          else
            (let actual = rt_name (rr_route rr)
                   @ (case tag of Some t \<Rightarrow> ''+'' @ t | None \<Rightarrow> []) @ ''@'' @ rr_domain_name rr
             in (push_recipient s
                   \<lparr>rc_kind = KRoute, rc_rcpt_to = actual, rc_server = rr_server rr, rc_route = Some rr\<rparr>,
                 Line ''250 OK''))
      | None \<Rightarrow> (s, Line ''550 Invalid route token''))"

definition rcpt_outgoing :: "'st store_ops \<Rightarrow> session \<Rightarrow> 'st \<Rightarrow> string \<Rightarrow> credential \<Rightarrow> session \<times> reply" where
  "rcpt_outgoing so s st rcpt c =
     (case so_server so st (cred_server_id c) of
        Some srv \<Rightarrow>
          if srv_suspended srv then (s, Line ''535 Mail server has been suspended'')
          else if pol_suspended (so_send_policy_for_organization so st (srv_organization_id srv))
            then (s, Line ''535 Organization has been suspended'')
          else (push_recipient s \<lparr>rc_kind = KCredential, rc_rcpt_to = rcpt, rc_server = srv, rc_route = None\<rparr>,
                Line ''250 OK'')
      | None \<Rightarrow> (s, Line ''535 Mail server has been suspended''))"

definition rcpt_incoming :: "session \<Rightarrow> string \<Rightarrow> resolved_route \<Rightarrow> session \<times> reply" where
  "rcpt_incoming s rcpt rr =
     (if srv_suspended (rr_server rr) then (s, Line ''535 Mail server has been suspended'')
      else if rt_mode (rr_route rr) = ModeReject
        then (s, Line ''550 Route does not accept incoming messages'')
      else (push_recipient s
              \<lparr>rc_kind = KRoute, rc_rcpt_to = rcpt, rc_server = rr_server rr, rc_route = Some rr\<rparr>,
            Line ''250 OK''))"

lemma bind_rust_cong [fundef_cong]:
  "m = m' \<Longrightarrow> (\<And>x. m' = Inr x \<Longrightarrow> f x = f' x) \<Longrightarrow> bind_rust m f = bind_rust m' f'"
  by (cases m') auto

text \<open>
  The method calls itself after authenticating the client by its address; the
  measure is that a session has a credential from then on.
\<close>

function rcpt_to :: "smtp_env \<Rightarrow> 'st store_ops \<Rightarrow> session \<Rightarrow> 'st \<Rightarrow> string \<Rightarrow> (session \<times> 'st \<times> reply) rust" where
  "rcpt_to env so s st data =
     (if s_state s \<notin> {MailFromReceived, RcptToReceived} then
        Inr (s, st, Line ''503 EHLO/HELO and MAIL FROM first please'')
      else
        bind_rust (extract_address data ''RCPT TO'') (\<lambda>rcpt.
          if rcpt = [] then Inr (s, st, Line ''501 RCPT TO should not be empty'')
          else (case rcpt_parts rcpt of
             None \<Rightarrow> Inr (s, st, Line ''501 Invalid RCPT TO'')
           | Some (uname, tag, dname) \<Rightarrow>
                 (let s1 = s\<lparr>s_state := RcptToReceived\<rparr>
                  in if is_return_path env s dname then
                       Inr (case rcpt_return_path so s1 st rcpt uname of (s', r) \<Rightarrow> (s', st, r))
                     else if dname = cf_route_domain (s_config s) then
                       Inr (case rcpt_route_token so s1 st uname tag of (s', r) \<Rightarrow> (s', st, r))
                     else (case s_credential s of
                        Some c \<Rightarrow> Inr (case rcpt_outgoing so s1 st rcpt c of (s', r) \<Rightarrow> (s', st, r))
                      | None \<Rightarrow>
                          (case so_find_route_by_name_and_domain so st uname dname of
                             Some rr \<Rightarrow> Inr (case rcpt_incoming s1 rcpt rr of (s', r) \<Rightarrow> (s', st, r))
                           | None \<Rightarrow>
                               (case Option.bind (Option.bind (s_ip_address s) (en_ip_parse env))
                                       (so_find_ip_credential so st) of
                                  Some c \<Rightarrow>
                                    rcpt_to env so (s\<lparr>s_credential := Some c\<rparr>)
                                      (so_record_credential_use so st (cred_id c)) data
                                | None \<Rightarrow> Inr (s, st, Line ''530 Authentication required''))))))))"
  by pat_completeness auto
termination
  by (relation "measure (\<lambda>(env, so, s, st, data). if s_credential s = None then 1 else 0)") auto

declare rcpt_to.simps [simp del]

section \<open>DATA\<close>

definition credential_server :: "'st store_ops \<Rightarrow> session \<Rightarrow> 'st \<Rightarrow> server option" where
  "credential_server so s st = Option.bind (s_credential s) (\<lambda>c. so_server so st (cred_server_id c))"

definition trace_received :: "smtp_env \<Rightarrow> 'st store_ops \<Rightarrow> session \<Rightarrow> 'st \<Rightarrow> string" where
  "trace_received env so s st =
     (let privacy_mode = (case credential_server so s st of
            Some srv \<Rightarrow> srv_privacy_mode srv | None \<Rightarrow> False);
          ip = (case s_ip_address s of Some a \<Rightarrow> a | None \<Rightarrow> []);
          resolved_hostname = (case s_resolved_hostname s of Some h \<Rightarrow> h | None \<Rightarrow> ip);
          helo_name = (case s_helo_name s of Some h \<Rightarrow> h | None \<Rightarrow> [])
      in received_header (en_rfc2822 env) privacy_mode helo_name resolved_hostname ip MethodSmtp
           (cf_smtp_hostname (s_config s)) (en_clock env))"

definition envelope_header :: "session \<Rightarrow> string" where
  "envelope_header s = ''<'' @ (case s_mail_from s of Some m \<Rightarrow> m | None \<Rightarrow> []) @ ''>''"

definition trace_data :: "smtp_env \<Rightarrow> 'st store_ops \<Rightarrow> session \<Rightarrow> 'st \<Rightarrow> bytes" where
  "trace_data env so s st =
     (case s_received_spf s of Some v \<Rightarrow> ''Received-SPF: '' @ v @ crlf | None \<Rightarrow> [])
     @ ''X-Envelope-From: '' @ envelope_header s @ crlf
     @ ''Received: '' @ trace_received env so s st @ crlf"

definition trace_headers :: "smtp_env \<Rightarrow> 'st store_ops \<Rightarrow> session \<Rightarrow> 'st \<Rightarrow> header_map" where
  "trace_headers env so s st =
     (case s_received_spf s of Some v \<Rightarrow> [(''received-spf'', [v])] | None \<Rightarrow> [])
     @ [(''x-envelope-from'', [envelope_header s]), (''received'', [trace_received env so s st])]"

definition data_command :: "smtp_env \<Rightarrow> 'st store_ops \<Rightarrow> session \<Rightarrow> 'st \<Rightarrow> session \<times> reply" where
  "data_command env so s st =
     (if s_state s \<noteq> RcptToReceived then
        (s, Line ''503 HELO/EHLO, MAIL FROM and RCPT TO before sending data'')
      else
        (s\<lparr>s_receiving_headers := True, s_header_key := None,
           s_client_data_offset := length (trace_data env so s st),
           s_data := Some (trace_data env so s st), s_headers := Some (trace_headers env so s st),
           s_input_mode := DataMode\<rparr>,
         Line ''354 Go ahead''))"

text \<open>The values of a header, none when it is absent.\<close>

definition header_values :: "header_map \<Rightarrow> string \<Rightarrow> string list" where
  "header_values hs name = (case map_of hs name of Some vs \<Rightarrow> vs | None \<Rightarrow> [])"

definition continue_header :: "smtp_env \<Rightarrow> string \<Rightarrow> string option \<Rightarrow> header_map \<Rightarrow> header_map" where
  "continue_header env line key hs =
     (case key of
        None \<Rightarrow> hs
      | Some k \<Rightarrow>
          (case map_of hs (en_lc env k) of
             None \<Rightarrow> hs
           | Some vs \<Rightarrow>
               if vs = [] then hs
               else al_insert (en_lc env k) (butlast vs @ [last vs @ line]) hs))"

definition push_header :: "smtp_env \<Rightarrow> string \<times> string \<Rightarrow> header_map \<Rightarrow> header_map" where
  "push_header env kv hs =
     al_insert (en_lc env (fst kv)) (header_values hs (en_lc env (fst kv)) @ [snd kv]) hs"

definition unstuff :: "string \<Rightarrow> string" where
  "unstuff line = (case strip_prefix ''..'' line of Some r \<Rightarrow> ''.'' @ r | None \<Rightarrow> line)"

definition receive_header_line :: "smtp_env \<Rightarrow> session \<Rightarrow> string \<Rightarrow> session rust" where
  "receive_header_line env s line =
     (if \<not> s_receiving_headers s then Inr s
      else if line = [] then Inr (s\<lparr>s_receiving_headers := False\<rparr>)
      else if starts_with_ws line then
        Inr (s\<lparr>s_headers := map_option (continue_header env line (s_header_key s)) (s_headers s)\<rparr>)
      else
        (let kv = (case split_header line of Some kv \<Rightarrow> kv | None \<Rightarrow> (line, [])) in
         case s_headers s of
           None \<Rightarrow> Inl ExpectFailed
         | Some hs \<Rightarrow> Inr (s\<lparr>s_header_key := Some (fst kv), s_headers := Some (push_header env kv hs)\<rparr>)))"

definition receive_line :: "smtp_env \<Rightarrow> session \<Rightarrow> string \<Rightarrow> session rust" where
  "receive_line env s line =
     bind_rust (receive_header_line env s (unstuff line))
       (\<lambda>s'. Inr (s'\<lparr>s_data := map_option (\<lambda>d. d @ unstuff line @ crlf) (s_data s')\<rparr>))"

section \<open>The end of DATA\<close>

definition welcomed :: "session \<Rightarrow> session" where
  "welcomed s = (transaction_reset s)\<lparr>s_state := Welcomed\<rparr>"

definition too_large :: "session \<Rightarrow> bytes \<Rightarrow> bool" where
  "too_large s data \<longleftrightarrow> length data > (cf_max_message_size (s_config s) * 1024 * 1024) mod 2 ^ 64"

definition received_by_us :: "session \<Rightarrow> header_map \<Rightarrow> nat" where
  "received_by_us s headers =
     length (filter (contains_sub (''by '' @ cf_smtp_hostname (s_config s)))
       (header_values headers ''received''))"

definition confirmed_sender_address_in_from :: "'st store_ops \<Rightarrow> 'st \<Rightarrow> Id \<Rightarrow> header_map \<Rightarrow> bool" where
  "confirmed_sender_address_in_from so st server_id headers =
     so_find_confirmed_sender_address so st server_id (header_values headers ''from'')"

definition authenticated_domain :: "'st store_ops \<Rightarrow> 'st \<Rightarrow> Id \<Rightarrow> header_map \<Rightarrow> server option \<Rightarrow> Id option" where
  "authenticated_domain so st server_id headers srv =
     (case so_find_authenticated_domain so st server_id (header_values headers ''from'') of
        Some d \<Rightarrow> Some d
      | None \<Rightarrow>
          if (case srv of Some v \<Rightarrow> srv_allow_sender v | None \<Rightarrow> False)
          then so_find_authenticated_domain so st server_id (header_values headers ''sender'')
          else None)"

text \<open>The outer option is the refusal, the inner one the domain the send is attributed to.\<close>

definition authorize_from :: "'st store_ops \<Rightarrow> session \<Rightarrow> 'st \<Rightarrow> header_map \<Rightarrow> Id option option" where
  "authorize_from so s st headers =
     (case s_credential s of
        None \<Rightarrow> Some None
      | Some c \<Rightarrow>
          (let d = authenticated_domain so st (cred_server_id c) headers
                     (so_server so st (cred_server_id c)) in
           if d = None \<and> \<not> confirmed_sender_address_in_from so st (cred_server_id c) headers
           then None else Some d))"

definition idempotency_key :: "session \<Rightarrow> header_map \<Rightarrow> string + string option" where
  "idempotency_key s headers =
     (case map_of headers IDEMPOTENCY_HEADER of
        None \<Rightarrow> Inr None
      | Some vs \<Rightarrow>
          if length vs \<noteq> 1 then Inl ''554 Invalid CamelMailer-Idempotency-Key''
          else if list_ex (\<lambda>r. rc_kind r \<noteq> KCredential) (s_recipients s) then
            Inl ''554 CamelMailer-Idempotency-Key is only valid for authenticated sends''
          else
            (let key = trim (hd vs) in
             if key = [] \<or> length key > IDEMPOTENCY_KEY_MAX_CHARS
                \<or> \<not> list_all (\<lambda>b. 0x20 \<le> byte b \<and> byte b \<le> 0x7e) key
             then Inl ''554 Invalid CamelMailer-Idempotency-Key''
             else Inr (Some key)))"

definition hour_nanos :: int where
  "hour_nanos = 3600 * 10 ^ 9"

definition idempotency_for :: "smtp_env \<Rightarrow> session \<Rightarrow> string \<Rightarrow> bytes \<Rightarrow> string \<Rightarrow> idempotency_request" where
  "idempotency_for env s mail_from data key =
     \<lparr>ir_key_hash = sha256_hex env key,
      ir_request_hash = smtp_request_hash env mail_from (s_recipients s)
        (drop (min (s_client_data_offset s) (length data)) data),
      ir_operation = ''smtp.send'',
      ir_expires_at = en_now env + 24 * hour_nanos\<rparr>"

definition queued_base :: "session \<Rightarrow> string \<Rightarrow> bytes \<Rightarrow> recipient \<Rightarrow> queued_message" where
  "queued_base s mail_from data r =
     \<lparr>qm_server_id = srv_id (rc_server r), qm_rcpt_to = rc_rcpt_to r, qm_mail_from = mail_from,
      qm_raw_message = data, qm_received_with_ssl = s_tls s, qm_scope = Incoming, qm_bounce = False,
      qm_domain_id = None, qm_credential_id = None, qm_route_id = None, qm_tag = None,
      qm_metadata = None, qm_stream_id = None\<rparr>"

definition queued_for :: "'st store_ops \<Rightarrow> session \<Rightarrow> 'st \<Rightarrow> string \<Rightarrow> bytes \<Rightarrow> Id option \<Rightarrow> recipient
    \<Rightarrow> queued_message rust" where
  "queued_for so s st mail_from data authenticated_domain_id r =
     (let m = queued_base s mail_from data r in
      case rc_kind r of
        KCredential \<Rightarrow>
          Inr (m\<lparr>qm_scope := Outgoing, qm_domain_id := authenticated_domain_id,
                 qm_credential_id := map_option cred_id (s_credential s)\<rparr>)
      | KBounce \<Rightarrow>
          (case so_return_path_route_for_server so st (srv_id (rc_server r)) of
             Some rp \<Rightarrow>
               Inr (m\<lparr>qm_bounce := True, qm_domain_id := rt_domain_id (rr_route rp),
                      qm_route_id := Some (rt_id (rr_route rp))\<rparr>)
           | None \<Rightarrow> Inr (m\<lparr>qm_bounce := True\<rparr>))
      | KRoute \<Rightarrow>
          (case rc_route r of
             None \<Rightarrow> Inl ExpectFailed
           | Some rr \<Rightarrow>
               Inr (m\<lparr>qm_domain_id := rt_domain_id (rr_route rr),
                      qm_route_id := Some (rt_id (rr_route rr))\<rparr>)))"

fun queue_all :: "'st store_ops \<Rightarrow> session \<Rightarrow> 'st \<Rightarrow> string \<Rightarrow> bytes \<Rightarrow> Id option \<Rightarrow> recipient list
    \<Rightarrow> queued_message list rust" where
  "queue_all so s st mail_from data d [] = Inr []"
| "queue_all so s st mail_from data d (r # rs) =
     bind_rust (queued_for so s st mail_from data d r)
       (\<lambda>m. bind_rust (queue_all so s st mail_from data d rs) (\<lambda>ms. Inr (m # ms)))"

definition data_allowance :: "'st store_ops \<Rightarrow> session \<Rightarrow> 'st \<Rightarrow> send_allowance" where
  "data_allowance so s st =
     (case credential_server so s st of
        None \<Rightarrow> unlimited
      | Some srv \<Rightarrow>
          (let server_allowance =
             (case srv_send_limit srv of
                Some limit \<Rightarrow> allowance_server (Some limit) (so_send_usage so st (srv_id srv))
              | None \<Rightarrow> unlimited);
             policy = so_send_policy_for_organization so st (srv_organization_id srv);
             org_allowance =
               (case pol_monthly_send_limit policy of
                  Some limit \<Rightarrow>
                    allowance_organization (Some limit)
                      (so_organization_month_usage so st (srv_organization_id srv))
                | None \<Rightarrow> unlimited)
           in stricter server_allowance org_allowance))"

definition queue_outcome_of :: "smtp_env \<Rightarrow> 'sk sink_ops \<Rightarrow> 'sk \<Rightarrow> queued_message list
    \<Rightarrow> idempotency_request option \<Rightarrow> send_allowance \<Rightarrow> 'sk \<times> queue_outcome" where
  "queue_outcome_of env sk snk queued idempotency allowance =
     (if idempotency \<noteq> None then sk_queue_messages sk (en_now env) snk queued idempotency allowance
      else if \<not> allows allowance (outgoing_count queued)
        then (snk, LimitExceeded (rejection_message allowance))
      else (foldl (sk_queue_message sk) snk queued, Stored))"

definition data_reply :: "queue_outcome \<Rightarrow> reply" where
  "data_reply outcome =
     (case outcome of
        Stored \<Rightarrow> Line ''250 OK''
      | Replayed \<Rightarrow> Line ''250 OK''
      | Conflict \<Rightarrow> Line ''554 Idempotency key reused with a different request''
      | LimitExceeded message \<Rightarrow> Line (''550 5.7.1 '' @ message)
      | Failed error \<Rightarrow> Line ''451 Temporary storage failure'')"

definition store_data :: "smtp_env \<Rightarrow> 'st store_ops \<Rightarrow> 'sk sink_ops \<Rightarrow> session \<Rightarrow> 'st \<Rightarrow> 'sk \<Rightarrow> bytes
    \<Rightarrow> Id option \<Rightarrow> string option \<Rightarrow> (session \<times> 'sk \<times> reply) rust" where
  "store_data env so sk s st snk data0 d key =
     (let data = (if key \<noteq> None then strip_message_header data0 IDEMPOTENCY_HEADER else data0);
          mail_from = (case s_mail_from s of Some m \<Rightarrow> m | None \<Rightarrow> []);
          idempotency = map_option (idempotency_for env s mail_from data) key
      in bind_rust (queue_all so s st mail_from data d (s_recipients s)) (\<lambda>queued.
           case queue_outcome_of env sk snk queued idempotency (data_allowance so s st) of
             (snk', outcome) \<Rightarrow> Inr (welcomed s, snk', data_reply outcome)))"

definition finish_data :: "smtp_env \<Rightarrow> 'st store_ops \<Rightarrow> 'sk sink_ops \<Rightarrow> session \<Rightarrow> 'st \<Rightarrow> 'sk
    \<Rightarrow> (session \<times> 'sk \<times> reply) rust" where
  "finish_data env so sk s st snk =
     (let data = (case s_data s of Some d \<Rightarrow> d | None \<Rightarrow> []);
          headers = (case s_headers s of Some h \<Rightarrow> h | None \<Rightarrow> []) in
      if too_large s data then
        Inr (welcomed s, snk,
             Line (''552 Message too large (maximum size ''
                   @ show_nat (cf_max_message_size (s_config s)) @ ''MB)''))
      else if received_by_us s headers > 4 then Inr (welcomed s, snk, Line ''550 Loop detected'')
      else (case authorize_from so s st headers of
         None \<Rightarrow> Inr (welcomed s, snk, Line ''530 From/Sender name is not valid'')
       | Some d \<Rightarrow>
           (case idempotency_key s headers of
              Inl message \<Rightarrow> Inr (welcomed s, snk, Line message)
            | Inr key \<Rightarrow> store_data env so sk s st snk data d key)))"

definition data_line :: "smtp_env \<Rightarrow> 'st store_ops \<Rightarrow> 'sk sink_ops \<Rightarrow> session \<Rightarrow> 'st \<Rightarrow> 'sk \<Rightarrow> string
    \<Rightarrow> (session \<times> 'sk \<times> reply) rust" where
  "data_line env so sk s st snk line =
     (if line = ''.'' \<and> s_cr_present s \<and> s_previous_cr_present s = Some True then
        finish_data env so sk (s\<lparr>s_input_mode := Command\<rparr>) st snk
      else bind_rust (receive_line env s line) (\<lambda>s'. Inr (s', snk, NoReply)))"

section \<open>Dispatch\<close>

definition auth_command :: "smtp_env \<Rightarrow> 'st store_ops \<Rightarrow> session \<Rightarrow> 'st \<Rightarrow> string \<Rightarrow> string
    \<Rightarrow> (session \<times> 'st \<times> reply) rust" where
  "auth_command env so s st upper data =
     (if \<not> auth_permitted s then
        Inr (s, st, Line ''538 5.7.11 Encryption required for requested authentication mechanism'')
      else if prefix ''AUTH PLAIN'' upper then auth_plain env so s st data
      else if prefix ''AUTH LOGIN'' upper then
        bind_rust (auth_login s data) (\<lambda>(s', r). Inr (s', st, r))
      else if prefix ''AUTH CRAM-MD5'' upper then
        Inr (case auth_cram_md5 env s of (s', r) \<Rightarrow> (s', st, r))
      else Inr (s, st, Line ''504 5.5.4 Unrecognized authentication type''))"

definition with_store :: "'st \<Rightarrow> session \<times> reply \<Rightarrow> (session \<times> 'st \<times> reply) rust" where
  "with_store st sr = Inr (fst sr, st, snd sr)"

definition handle_command :: "smtp_env \<Rightarrow> 'st store_ops \<Rightarrow> session \<Rightarrow> 'st \<Rightarrow> string
    \<Rightarrow> (session \<times> 'st \<times> reply) rust" where
  "handle_command env so s st data =
     (let upper = to_ascii_uppercase (trim_start data) in
      if prefix ''QUIT'' upper then with_store st (quit s)
      else if prefix ''STARTTLS'' upper then with_store st (starttls s)
      else if prefix ''EHLO'' upper then with_store st (ehlo s data)
      else if prefix ''HELO'' upper then with_store st (helo s data)
      else if prefix ''RSET'' upper then with_store st (rset s)
      else if prefix ''NOOP'' upper then with_store st (noop s)
      else if prefix ''AUTH '' upper \<or> trim_end upper = ''AUTH'' then
        auth_command env so s st upper data
      else if prefix ''MAIL FROM'' upper then bind_rust (mail_from_command s data) (with_store st)
      else if prefix ''RCPT TO'' upper then rcpt_to env so s st data
      else if prefix ''DATA'' upper then with_store st (data_command env so s st)
      else with_store st (s, Line ''502 Invalid/unsupported command''))"

definition keep_sink :: "'sk \<Rightarrow> (session \<times> 'st \<times> reply) rust \<Rightarrow> (session \<times> 'st \<times> 'sk \<times> reply) rust" where
  "keep_sink snk m = bind_rust m (\<lambda>(s, st, r). Inr (s, st, snk, r))"

definition dispatch :: "smtp_env \<Rightarrow> 'st store_ops \<Rightarrow> 'sk sink_ops \<Rightarrow> session \<Rightarrow> 'st \<Rightarrow> 'sk \<Rightarrow> string
    \<Rightarrow> (session \<times> 'st \<times> 'sk \<times> reply) rust" where
  "dispatch env so sk s st snk data =
     (if s_state s = Preauth then keep_sink snk (with_store st (proxy s data))
      else (case s_input_mode s of
         Command \<Rightarrow> keep_sink snk (handle_command env so s st data)
       | AuthPlain \<Rightarrow> keep_sink snk (Inr (auth_plain_continue env so s st data))
       | AuthLoginUsername \<Rightarrow> keep_sink snk (with_store st (auth_login_username s))
       | AuthLoginPassword \<Rightarrow> keep_sink snk (Inr (auth_login_password env so s st data))
       | AuthCramMd5 challenge \<Rightarrow>
           keep_sink snk (Inr (auth_cram_md5_continue env so s st data challenge))
       | DataMode \<Rightarrow>
           bind_rust (data_line env so sk s st snk data) (\<lambda>(s', snk', r). Inr (s', st, snk', r))))"

definition handle :: "smtp_env \<Rightarrow> 'st store_ops \<Rightarrow> 'sk sink_ops \<Rightarrow> session \<Rightarrow> 'st \<Rightarrow> 'sk \<Rightarrow> string
    \<Rightarrow> (session \<times> 'st \<times> 'sk \<times> reply) rust" where
  "handle env so sk s st snk line =
     (let cr = suffix [CR] line;
          data = (if cr then butlast line else line)
      in bind_rust (dispatch env so sk (s\<lparr>s_cr_present := cr\<rparr>) st snk data)
           (\<lambda>(s', st', snk', r). Inr (s'\<lparr>s_previous_cr_present := Some (s_cr_present s')\<rparr>, st', snk', r)))"

end
