(* ===== verification/Mem_Store.thy ===== *)
theory Mem_Store
  imports Store_Interface
begin

text \<open>
  The in-memory store: \<open>MemoryStore\<close> of \<open>camelmailer-core/src/store.rs\<close>, with the
  tables the SMTP intake, the send path, quota counting, idempotency, retention
  and re-queuing touch, the lifecycle event it queues (\<open>lifecycle.rs\<close>) and the
  send-plan types of \<open>server_store.rs\<close>. Hash maps are association lists.

  \<open>store_env\<close> holds what the code takes from outside: the wall clock, chrono's
  calendar (\<open>se_day\<close> is \<open>date_naive\<close> as a day number, \<open>se_month\<close> is
  \<open>UsageMonth::of\<close> on a day), the random token of the record with a given id,
  the UUID of the n-th lifecycle event, and \<open>str::to_lowercase\<close>.
\<close>

record store_env =
  se_now :: instant
  se_day :: "instant \<Rightarrow> int"
  se_month :: "int \<Rightarrow> usage_month"
  se_token :: "Id \<Rightarrow> string"
  se_uuid :: "nat \<Rightarrow> string"
  se_lc :: "string \<Rightarrow> string"

section \<open>Lifecycle events (lifecycle.rs)\<close>

record lifecycle_event =
  le_id :: string
  le_event :: string
  le_created_at :: instant
  le_data :: json

definition organization_data :: "organization \<Rightarrow> json" where
  "organization_data o' =
     JObject [(''id'', JNumber (show_nat (org_id o'))), (''name'', JString (org_name o')),
              (''permalink'', JString (org_permalink o')), (''uuid'', JString (org_uuid o'))]"

text \<open>\<open>format!("{:04}-{:02}")\<close> of a month; the sign of a negative year counts as a digit.\<close>

definition pad_left :: "nat \<Rightarrow> string \<Rightarrow> string" where
  "pad_left n s = replicate (n - length s) (CHR ''0'') @ s"

definition month_label :: "usage_month \<Rightarrow> string" where
  "month_label m =
     (if um_year m < 0 then CHR ''-'' # pad_left 3 (show_nat (nat (- um_year m)))
      else pad_left 4 (show_nat (nat (um_year m))))
     @ ''-'' @ pad_left 2 (show_nat (um_month m))"

definition usage_threshold_event :: "string \<Rightarrow> instant \<Rightarrow> organization \<Rightarrow> usage_month \<Rightarrow> nat \<Rightarrow> int \<Rightarrow> int
    \<Rightarrow> lifecycle_event" where
  "usage_threshold_event uuid now o' month threshold sent limit =
     \<lparr>le_id = uuid, le_event = ''organization.usage_threshold'', le_created_at = now,
      le_data = JObject [(''limit'', JNumber (show_int limit)), (''month'', JString (month_label month)),
                         (''organization'', organization_data o'), (''sent'', JNumber (show_int sent)),
                         (''threshold'', JNumber (show_nat threshold))]\<rparr>"

section \<open>Records of the store\<close>

record message_record =
  mr_id :: int
  mr_token :: string
  mr_server_id :: Id
  mr_scope :: string
  mr_rcpt_to :: string
  mr_mail_from :: string
  mr_subject :: "string option"
  mr_message_id_header :: "string option"
  mr_tag :: "string option"
  mr_status :: string
  mr_bounce :: bool
  mr_bounce_for_id :: "int option"
  mr_bounce_correlated_at :: "instant option"
  mr_bounce_category :: "string option"
  mr_spam_status :: string
  mr_spam_score :: f64_bits
  mr_held :: bool
  mr_threat :: bool
  mr_size :: int
  mr_metadata :: "json option"
  mr_stream_id :: "Id option"
  mr_campaign_id :: "Id option"
  mr_bypassed :: bool
  mr_created_at :: instant
  mr_raw_message :: bytes

record sent_message =
  sm_id :: int
  sm_token :: string
  sm_rcpt_to :: string

record delivery_record =
  dr_id :: int
  dr_status :: string
  dr_details :: "string option"
  dr_output :: "string option"
  dr_sent_with_ssl :: bool
  dr_created_at :: instant

record activity_event =
  ae_ip_address :: "string option"
  ae_user_agent :: "string option"
  ae_url :: "string option"
  ae_created_at :: instant

record pending_unsubscribe_token =
  put_token :: string
  put_stream_id :: "Id option"
  put_address :: string

record send_plan_message =
  spm_message :: queued_message
  spm_unsubscribe_token :: "pending_unsubscribe_token option"

datatype send_plan_item = PlanMessages "send_plan_message list" | PlanError string string

record stored_send_result =
  ssr_message_id :: "int option"
  ssr_recipients :: "sent_message list"

datatype send_operation_item = ItemSuccess stored_send_result | ItemError string string

record send_operation_result =
  sor_items :: "send_operation_item list"

datatype idempotency_lookup = LookupNew | LookupReplay send_operation_result | LookupConflict

datatype store_send_outcome =
  SendStored send_operation_result | SendReplayed send_operation_result | SendConflict

datatype outbound_retry =
  Requeued message_record | NotFound | NotRetryable string | ContentPurged

record memory_idempotency_record =
  mir_request_hash :: string
  mir_operation :: string
  mir_response :: send_operation_result
  mir_expires_at :: instant

record memory_store =
  st_next_id :: nat
  st_send_counters :: "((Id \<times> int) \<times> int) list"
  st_organization_send_counters :: "((Id \<times> usage_month) \<times> int) list"
  st_usage_alerts :: "(Id \<times> usage_month \<times> nat) list"
  st_organization_policies :: "(Id \<times> organization_policy) list"
  st_lifecycle_events :: "lifecycle_event list"
  st_organizations :: "(Id \<times> organization) list"
  st_billing_customer_ids :: "(Id \<times> string) list"
  st_servers :: "(Id \<times> server) list"
  st_domains :: "(Id \<times> domain) list"
  st_routes :: "(Id \<times> route) list"
  st_credentials :: "(Id \<times> credential) list"
  st_credential_uses :: "(Id \<times> nat) list"
  st_sender_addresses :: "(Id \<times> sender_address) list"
  st_unsubscribe_tokens :: "(string \<times> Id \<times> Id option \<times> string) list"
  st_message_campaigns :: "(int \<times> Id) list"
  st_messages :: "message_record list"
  st_message_deliveries :: "(int \<times> delivery_record) list"
  st_message_opens :: "(int \<times> activity_event) list"
  st_message_clicks :: "(int \<times> activity_event) list"
  st_idempotency_requests :: "((Id \<times> string) \<times> memory_idempotency_record) list"

definition memory_store_new :: memory_store where
  "memory_store_new =
     \<lparr>st_next_id = 1, st_send_counters = [], st_organization_send_counters = [], st_usage_alerts = [],
      st_organization_policies = [], st_lifecycle_events = [], st_organizations = [],
      st_billing_customer_ids = [], st_servers = [], st_domains = [], st_routes = [],
      st_credentials = [], st_credential_uses = [], st_sender_addresses = [],
      st_unsubscribe_tokens = [], st_message_campaigns = [], st_messages = [],
      st_message_deliveries = [], st_message_opens = [], st_message_clicks = [],
      st_idempotency_requests = []\<rparr>"

section \<open>Configuration records\<close>

definition next_id :: "memory_store \<Rightarrow> memory_store \<times> Id" where
  "next_id st = (st\<lparr>st_next_id := (st_next_id st + 1) mod 2 ^ 64\<rparr>, st_next_id st)"

definition insert_organization :: "memory_store \<Rightarrow> organization \<Rightarrow> memory_store" where
  "insert_organization st o' = st\<lparr>st_organizations := al_insert (org_id o') o' (st_organizations st)\<rparr>"

definition insert_server :: "memory_store \<Rightarrow> server \<Rightarrow> memory_store" where
  "insert_server st s = st\<lparr>st_servers := al_insert (srv_id s) s (st_servers st)\<rparr>"

definition insert_domain :: "memory_store \<Rightarrow> domain \<Rightarrow> memory_store" where
  "insert_domain st d = st\<lparr>st_domains := al_insert (dom_id d) d (st_domains st)\<rparr>"

definition insert_route :: "memory_store \<Rightarrow> route \<Rightarrow> memory_store" where
  "insert_route st r = st\<lparr>st_routes := al_insert (rt_id r) r (st_routes st)\<rparr>"

definition insert_credential :: "memory_store \<Rightarrow> credential \<Rightarrow> memory_store" where
  "insert_credential st c = st\<lparr>st_credentials := al_insert (cred_id c) c (st_credentials st)\<rparr>"

definition insert_sender_address :: "memory_store \<Rightarrow> sender_address \<Rightarrow> memory_store" where
  "insert_sender_address st a = st\<lparr>st_sender_addresses := al_insert (sa_id a) a (st_sender_addresses st)\<rparr>"

definition delete_organization :: "memory_store \<Rightarrow> Id \<Rightarrow> memory_store \<times> bool" where
  "delete_organization st i =
     (st\<lparr>st_billing_customer_ids := al_remove i (st_billing_customer_ids st),
         st_organization_policies := al_remove i (st_organization_policies st),
         st_organization_send_counters :=
           filter (\<lambda>e. fst (fst e) \<noteq> i) (st_organization_send_counters st),
         st_usage_alerts := filter (\<lambda>e. fst e \<noteq> i) (st_usage_alerts st),
         st_organizations := al_remove i (st_organizations st)\<rparr>,
      map_of (st_organizations st) i \<noteq> None)"

definition delete_server :: "memory_store \<Rightarrow> Id \<Rightarrow> memory_store \<times> bool" where
  "delete_server st i =
     (st\<lparr>st_servers := al_remove i (st_servers st)\<rparr>, map_of (st_servers st) i \<noteq> None)"

definition clear_route_domain :: "Id \<Rightarrow> route \<Rightarrow> route" where
  "clear_route_domain i r = (if rt_domain_id r = Some i then r\<lparr>rt_domain_id := None\<rparr> else r)"

definition delete_domain :: "memory_store \<Rightarrow> Id \<Rightarrow> memory_store \<times> bool" where
  "delete_domain st i =
     (st\<lparr>st_domains := al_remove i (st_domains st),
         st_routes := map (\<lambda>e. (fst e, clear_route_domain i (snd e))) (st_routes st)\<rparr>,
      map_of (st_domains st) i \<noteq> None)"

section \<open>Counting outgoing messages\<close>

definition bump_counter :: "'k \<Rightarrow> ('k \<times> int) list \<Rightarrow> ('k \<times> int) list" where
  "bump_counter k cs =
     al_insert k (wrap_i64 ((case map_of cs k of Some n \<Rightarrow> n | None \<Rightarrow> 0) + 1)) cs"

fun announce_thresholds :: "store_env \<Rightarrow> organization \<Rightarrow> usage_month \<Rightarrow> int \<Rightarrow> int option
    \<Rightarrow> nat list \<Rightarrow> memory_store \<Rightarrow> memory_store" where
  "announce_thresholds env o' month sent limit [] st = st"
| "announce_thresholds env o' month sent limit (t # ts) st =
     announce_thresholds env o' month sent limit ts
       (if (org_id o', month, t) \<in> set (st_usage_alerts st) then st
        else st\<lparr>st_usage_alerts := (org_id o', month, t) # st_usage_alerts st,
                st_lifecycle_events := st_lifecycle_events st @
                  [usage_threshold_event (se_uuid env (length (st_lifecycle_events st))) (se_now env)
                     o' month t sent (case limit of Some l \<Rightarrow> l | None \<Rightarrow> 0)]\<rparr>)"

definition organization_of_server :: "memory_store \<Rightarrow> Id \<Rightarrow> organization option" where
  "organization_of_server st server_id =
     Option.bind (map_of (st_servers st) server_id)
       (\<lambda>s. map_of (st_organizations st) (srv_organization_id s))"

definition count_outgoing :: "store_env \<Rightarrow> memory_store \<Rightarrow> Id \<Rightarrow> instant \<Rightarrow> memory_store" where
  "count_outgoing env st server_id at =
     (let st1 = st\<lparr>st_send_counters := bump_counter (server_id, se_day env at) (st_send_counters st)\<rparr> in
      case organization_of_server st1 server_id of
        None \<Rightarrow> st1
      | Some o' \<Rightarrow>
          (let month = se_month env (se_day env at);
               counters = bump_counter (org_id o', month) (st_organization_send_counters st1);
               sent = the (map_of counters (org_id o', month));
               limit = Option.bind (map_of (st_organization_policies st1) (org_id o'))
                         pol_monthly_send_limit
           in announce_thresholds env o' month sent limit (reached_thresholds sent limit)
                (st1\<lparr>st_organization_send_counters := counters\<rparr>)))"

section \<open>Messages\<close>

definition build_message_record :: "store_env \<Rightarrow> memory_store \<Rightarrow> queued_message
    \<Rightarrow> memory_store \<times> message_record \<times> sent_message" where
  "build_message_record env st m =
     (case next_id st of
        (st1, nid) \<Rightarrow>
          (let i = wrap_i64 (int nid); token = se_token env nid in
           (st1,
            \<lparr>mr_id = i, mr_token = token, mr_server_id = qm_server_id m,
             mr_scope = (case qm_scope m of Incoming \<Rightarrow> ''incoming'' | Outgoing \<Rightarrow> ''outgoing''),
             mr_rcpt_to = qm_rcpt_to m, mr_mail_from = qm_mail_from m,
             mr_subject = header_value (se_lc env) (qm_raw_message m) ''subject'',
             mr_message_id_header = header_value (se_lc env) (qm_raw_message m) ''message-id'',
             mr_tag = qm_tag m, mr_status = ''Pending'', mr_bounce = qm_bounce m,
             mr_bounce_for_id = None, mr_bounce_correlated_at = None, mr_bounce_category = None,
             mr_spam_status = ''NotChecked'', mr_spam_score = 0, mr_held = False, mr_threat = False,
             mr_size = int (length (qm_raw_message m)), mr_metadata = qm_metadata m,
             mr_stream_id = qm_stream_id m, mr_campaign_id = None, mr_bypassed = False,
             mr_created_at = se_now env, mr_raw_message = qm_raw_message m\<rparr>,
            \<lparr>sm_id = i, sm_token = token, sm_rcpt_to = qm_rcpt_to m\<rparr>)))"

definition insert_message_record :: "store_env \<Rightarrow> memory_store \<Rightarrow> queued_message
    \<Rightarrow> memory_store \<times> sent_message" where
  "insert_message_record env st m =
     (case build_message_record env st m of
        (st1, record, sent) \<Rightarrow>
          (let st2 = (if mr_scope record = ''outgoing''
                      then count_outgoing env st1 (mr_server_id record) (mr_created_at record) else st1)
           in (st2\<lparr>st_messages := st_messages st2 @ [record]\<rparr>, sent)))"

definition idempotency_result :: "store_env \<Rightarrow> memory_store \<Rightarrow> Id \<Rightarrow> idempotency_request
    \<Rightarrow> idempotency_lookup" where
  "idempotency_result env st server_id request =
     (case map_of (st_idempotency_requests st) (server_id, ir_key_hash request) of
        None \<Rightarrow> LookupNew
      | Some rec \<Rightarrow>
          if mir_expires_at rec \<le> se_now env then LookupNew
          else if mir_request_hash rec \<noteq> ir_request_hash request
               \<or> mir_operation rec \<noteq> ir_operation request then LookupConflict
          else LookupReplay (mir_response rec))"

fun store_planned :: "store_env \<Rightarrow> Id \<Rightarrow> memory_store \<Rightarrow> send_plan_message list
    \<Rightarrow> memory_store \<times> sent_message list" where
  "store_planned env server_id st [] = (st, [])"
| "store_planned env server_id st (p # ps) =
     (let st1 = (case spm_unsubscribe_token p of
                   None \<Rightarrow> st
                 | Some t \<Rightarrow> st\<lparr>st_unsubscribe_tokens := st_unsubscribe_tokens st @
                               [(put_token t, server_id, put_stream_id t, put_address t)]\<rparr>)
      in case insert_message_record env st1 (spm_message p) of
           (st2, sent) \<Rightarrow>
             (case store_planned env server_id st2 ps of (st3, rest) \<Rightarrow> (st3, sent # rest)))"

fun store_plan :: "store_env \<Rightarrow> Id \<Rightarrow> memory_store \<Rightarrow> send_plan_item list
    \<Rightarrow> memory_store \<times> send_operation_item list" where
  "store_plan env server_id st [] = (st, [])"
| "store_plan env server_id st (PlanError c m # items) =
     (case store_plan env server_id st items of (st', rest) \<Rightarrow> (st', ItemError c m # rest))"
| "store_plan env server_id st (PlanMessages ps # items) =
     (case store_planned env server_id st ps of
        (st1, recipients) \<Rightarrow>
          (case store_plan env server_id st1 items of
             (st2, rest) \<Rightarrow>
               (st2, ItemSuccess
                  \<lparr>ssr_message_id = (case recipients of [] \<Rightarrow> None | r # _ \<Rightarrow> Some (sm_id r)),
                   ssr_recipients = recipients\<rparr> # rest)))"

definition insert_send_operation :: "store_env \<Rightarrow> memory_store \<Rightarrow> Id \<Rightarrow> send_plan_item list
    \<Rightarrow> idempotency_request option \<Rightarrow> memory_store \<times> store_send_outcome" where
  "insert_send_operation env st server_id plan idempotency =
     (let early =
        (case idempotency of
           None \<Rightarrow> None
         | Some request \<Rightarrow>
             (case map_of (st_idempotency_requests st) (server_id, ir_key_hash request) of
                None \<Rightarrow> None
              | Some rec \<Rightarrow>
                  if mir_expires_at rec > se_now env then
                    (if mir_request_hash rec = ir_request_hash request
                        \<and> mir_operation rec = ir_operation request
                     then Some (SendReplayed (mir_response rec)) else Some SendConflict)
                  else None))
      in case early of
           Some outcome \<Rightarrow> (st, outcome)
         | None \<Rightarrow>
             (let st1 = (case idempotency of
                  None \<Rightarrow> st
                | Some request \<Rightarrow>
                    st\<lparr>st_idempotency_requests :=
                        al_remove (server_id, ir_key_hash request) (st_idempotency_requests st)\<rparr>)
              in case store_plan env server_id st1 plan of
                   (st2, items) \<Rightarrow>
                     (let response = \<lparr>sor_items = items\<rparr>;
                          st3 = (case idempotency of
                             None \<Rightarrow> st2
                           | Some request \<Rightarrow>
                               st2\<lparr>st_idempotency_requests :=
                                   al_insert (server_id, ir_key_hash request)
                                     \<lparr>mir_request_hash = ir_request_hash request,
                                      mir_operation = ir_operation request, mir_response = response,
                                      mir_expires_at = ir_expires_at request\<rparr>
                                     (st_idempotency_requests st2)\<rparr>)
                      in (st3, SendStored response))))"

definition prune_idempotency_requests_at :: "memory_store \<Rightarrow> instant \<Rightarrow> memory_store \<times> nat" where
  "prune_idempotency_requests_at st now =
     (let kept = filter (\<lambda>e. mir_expires_at (snd e) > now) (st_idempotency_requests st)
      in (st\<lparr>st_idempotency_requests := kept\<rparr>,
          length (st_idempotency_requests st) - length kept))"

section \<open>Retention and re-queuing\<close>

definition prune_messages_before :: "memory_store \<Rightarrow> instant \<Rightarrow> memory_store \<times> nat" where
  "prune_messages_before st older_than =
     (let expired = remdups (map mr_id (filter (\<lambda>m. mr_created_at m < older_than) (st_messages st))) in
      if expired = [] then (st, 0)
      else
        (let keep = (\<lambda>i. i \<notin> set expired);
             cleared = map (\<lambda>m. case mr_bounce_for_id m of
                              Some original \<Rightarrow> if original \<in> set expired
                                then m\<lparr>mr_bounce_for_id := None\<rparr> else m
                            | None \<Rightarrow> m) (st_messages st)
         in (st\<lparr>st_messages := filter (\<lambda>m. keep (mr_id m)) cleared,
                st_message_deliveries := filter (\<lambda>e. keep (fst e)) (st_message_deliveries st),
                st_message_opens := filter (\<lambda>e. keep (fst e)) (st_message_opens st),
                st_message_clicks := filter (\<lambda>e. keep (fst e)) (st_message_clicks st),
                st_message_campaigns := filter (\<lambda>e. keep (fst e)) (st_message_campaigns st)\<rparr>,
             length expired)))"

text \<open>\<open>iter_mut().find(p)\<close> followed by an update of the element found.\<close>

fun update_first :: "('a \<Rightarrow> bool) \<Rightarrow> ('a \<Rightarrow> 'a) \<Rightarrow> 'a list \<Rightarrow> 'a list" where
  "update_first p f [] = []"
| "update_first p f (x # xs) = (if p x then f x # xs else x # update_first p f xs)"

definition own_message :: "Id \<Rightarrow> int \<Rightarrow> string \<Rightarrow> message_record \<Rightarrow> bool" where
  "own_message server_id message_id scope m \<longleftrightarrow>
     mr_id m = message_id \<and> mr_server_id m = server_id \<and> mr_scope m = scope"

definition requeue_inbound :: "memory_store \<Rightarrow> Id \<Rightarrow> int \<Rightarrow> bool
    \<Rightarrow> memory_store \<times> message_record option" where
  "requeue_inbound st server_id message_id bypass =
     (let p = own_message server_id message_id ''incoming'';
          f = (\<lambda>m. if bypass then m\<lparr>mr_status := ''Pending'', mr_bypassed := True\<rparr>
                   else m\<lparr>mr_status := ''Pending''\<rparr>)
      in case List.find p (st_messages st) of
           None \<Rightarrow> (st, None)
         | Some m \<Rightarrow> (st\<lparr>st_messages := update_first p f (st_messages st)\<rparr>, Some (f m)))"

definition RETRYABLE_OUTBOUND_STATUSES :: "string list" where
  "RETRYABLE_OUTBOUND_STATUSES = [''Pending'', ''SoftFail'', ''HardFail'']"

definition requeue_outbound :: "memory_store \<Rightarrow> Id \<Rightarrow> int \<Rightarrow> memory_store \<times> outbound_retry" where
  "requeue_outbound st server_id message_id =
     (let p = own_message server_id message_id ''outgoing'';
          f = (\<lambda>m. m\<lparr>mr_status := ''Pending'', mr_held := False\<rparr>)
      in case List.find p (st_messages st) of
           None \<Rightarrow> (st, NotFound)
         | Some m \<Rightarrow>
             if mr_status m \<notin> set RETRYABLE_OUTBOUND_STATUSES then (st, NotRetryable (mr_status m))
             else if mr_raw_message m = [] then (st, ContentPurged)
             else (st\<lparr>st_messages := update_first p f (st_messages st)\<rparr>, Requeued (f m)))"

section \<open>The Store implementation\<close>

definition resolve_route :: "memory_store \<Rightarrow> route \<Rightarrow> resolved_route option" where
  "resolve_route st r =
     map_option
       (\<lambda>s. \<lparr>rr_route = r, rr_server = s,
             rr_domain_name =
               (case Option.bind (rt_domain_id r) (map_of (st_domains st)) of
                  Some d \<Rightarrow> dom_name d | None \<Rightarrow> [])\<rparr>)
       (map_of (st_servers st) (rt_server_id r))"

definition mem_find_smtp_credential_by_key :: "memory_store \<Rightarrow> string \<Rightarrow> credential option" where
  "mem_find_smtp_credential_by_key st key =
     List.find (\<lambda>c. cred_type c = Smtp \<and> cred_key c = key) (al_values (st_credentials st))"

definition mem_find_server_by_token :: "memory_store \<Rightarrow> string \<Rightarrow> server option" where
  "mem_find_server_by_token st token = List.find (\<lambda>s. srv_token s = token) (al_values (st_servers st))"

definition mem_find_route_by_token :: "memory_store \<Rightarrow> string \<Rightarrow> resolved_route option" where
  "mem_find_route_by_token st token =
     Option.bind (List.find (\<lambda>r. rt_token r = token) (al_values (st_routes st))) (resolve_route st)"

definition mem_find_route_by_name_and_domain :: "memory_store \<Rightarrow> string \<Rightarrow> string
    \<Rightarrow> resolved_route option" where
  "mem_find_route_by_name_and_domain st name dname =
     Option.bind
       (List.find
          (\<lambda>r. rt_name r = name
               \<and> (case Option.bind (rt_domain_id r) (map_of (st_domains st)) of
                    Some d \<Rightarrow> dom_name d = dname | None \<Rightarrow> False))
          (al_values (st_routes st)))
       (resolve_route st)"

definition mem_find_ip_credential :: "'net ip_ops \<Rightarrow> memory_store \<Rightarrow> ip_addr \<Rightarrow> credential option" where
  "mem_find_ip_credential ip st addr = match_ip_credential ip (al_values (st_credentials st)) addr"

definition mem_smtp_credentials_for_server :: "memory_store \<Rightarrow> Id \<Rightarrow> credential list" where
  "mem_smtp_credentials_for_server st server_id =
     sort_key cred_id
       (filter (\<lambda>c. cred_server_id c = server_id \<and> cred_type c = Smtp) (al_values (st_credentials st)))"

definition mem_find_server_by_permalinks :: "memory_store \<Rightarrow> string \<Rightarrow> string \<Rightarrow> server option" where
  "mem_find_server_by_permalinks st org_pl server_pl =
     Option.bind (List.find (\<lambda>o'. org_permalink o' = org_pl) (al_values (st_organizations st)))
       (\<lambda>o'. List.find (\<lambda>s. srv_organization_id s = org_id o' \<and> srv_permalink s = server_pl)
               (al_values (st_servers st)))"

definition owned_by :: "server \<Rightarrow> domain \<Rightarrow> bool" where
  "owned_by s d \<longleftrightarrow>
     (case dom_owner d of OwnerServer i \<Rightarrow> i = srv_id s | OwnerOrganization i \<Rightarrow> i = srv_organization_id s)"

definition domain_for_address :: "memory_store \<Rightarrow> server \<Rightarrow> string \<Rightarrow> Id option" where
  "domain_for_address st s address =
     (case split_once (CHR ''@'') (strip_name_from_address address) of
        None \<Rightarrow> None
      | Some (uname, name) \<Rightarrow>
          if uname = [] then None
          else map_option dom_id
                 (List.find (owned_by s)
                    (filter (\<lambda>d. dom_verified d \<and> dom_name d = name) (al_values (st_domains st)))))"

definition mem_find_authenticated_domain :: "memory_store \<Rightarrow> Id \<Rightarrow> string list \<Rightarrow> Id option" where
  "mem_find_authenticated_domain st server_id values =
     (case map_of (st_servers st) server_id of
        None \<Rightarrow> None
      | Some s \<Rightarrow>
          (let domains = map (domain_for_address st s) values in
           if domains \<noteq> [] \<and> list_all (\<lambda>d. d \<noteq> None) domains then hd domains else None))"

definition mem_send_policy_for_organization :: "memory_store \<Rightarrow> Id \<Rightarrow> organization_policy" where
  "mem_send_policy_for_organization st i =
     (case map_of (st_organization_policies st) i of Some p \<Rightarrow> p | None \<Rightarrow> default_policy)"

definition mem_organization_month_usage :: "store_env \<Rightarrow> memory_store \<Rightarrow> Id \<Rightarrow> int" where
  "mem_organization_month_usage env st i =
     (case map_of (st_organization_send_counters st) (i, se_month env (se_day env (se_now env))) of
        Some n \<Rightarrow> n | None \<Rightarrow> 0)"

definition mem_send_usage :: "store_env \<Rightarrow> memory_store \<Rightarrow> Id \<Rightarrow> int" where
  "mem_send_usage env st server_id =
     (let today = se_day env (se_now env); window_start = today - 29 in
      wrap_i64 (sum_list (map snd
        (filter (\<lambda>e. fst (fst e) = server_id \<and> window_start \<le> snd (fst e) \<and> snd (fst e) \<le> today)
           (st_send_counters st)))))"

definition mem_return_path_route_for_server :: "memory_store \<Rightarrow> Id \<Rightarrow> resolved_route option" where
  "mem_return_path_route_for_server st server_id =
     Option.bind
       (List.find (\<lambda>r. rt_server_id r = server_id \<and> rt_name r = ''__returnpath__'')
          (al_values (st_routes st)))
       (resolve_route st)"

definition mem_record_credential_use :: "store_env \<Rightarrow> memory_store \<Rightarrow> Id \<Rightarrow> memory_store" where
  "mem_record_credential_use env st i =
     (let uses = (case map_of (st_credential_uses st) i of Some n \<Rightarrow> n | None \<Rightarrow> 0);
          st1 = st\<lparr>st_credential_uses := al_insert i ((uses + 1) mod 2 ^ 64) (st_credential_uses st)\<rparr>
      in st1\<lparr>st_credentials :=
               map (\<lambda>e. if fst e = i then (fst e, (snd e)\<lparr>cred_last_used_at := Some (se_now env)\<rparr>) else e)
                 (st_credentials st1)\<rparr>)"

definition mem_find_confirmed_sender_address :: "memory_store \<Rightarrow> Id \<Rightarrow> string list \<Rightarrow> bool" where
  "mem_find_confirmed_sender_address st server_id values \<longleftrightarrow>
     values \<noteq> [] \<and>
     list_all
       (\<lambda>v. list_ex (\<lambda>a. sa_server_id a = server_id \<and> sa_verified a
                          \<and> eq_ignore_ascii_case (sa_email_address a) (strip_name_from_address v))
              (al_values (st_sender_addresses st)))
       values"

definition memory_store_ops :: "'net ip_ops \<Rightarrow> store_env \<Rightarrow> memory_store store_ops" where
  "memory_store_ops ip env =
     \<lparr>so_organization = (\<lambda>st i. map_of (st_organizations st) i),
      so_server = (\<lambda>st i. map_of (st_servers st) i),
      so_find_smtp_credential_by_key = mem_find_smtp_credential_by_key,
      so_find_server_by_token = mem_find_server_by_token,
      so_find_route_by_token = mem_find_route_by_token,
      so_find_route_by_name_and_domain = mem_find_route_by_name_and_domain,
      so_find_ip_credential = mem_find_ip_credential ip,
      so_smtp_credentials_for_server = mem_smtp_credentials_for_server,
      so_find_server_by_permalinks = mem_find_server_by_permalinks,
      so_find_authenticated_domain = mem_find_authenticated_domain,
      so_send_usage = mem_send_usage env,
      so_send_policy_for_organization = mem_send_policy_for_organization,
      so_organization_month_usage = mem_organization_month_usage env,
      so_return_path_route_for_server = mem_return_path_route_for_server,
      so_record_credential_use = mem_record_credential_use env,
      so_find_confirmed_sender_address = mem_find_confirmed_sender_address\<rparr>"


section \<open>The store invariant\<close>

text \<open>A table is keyed by the identifiers of its rows.\<close>

definition wf_table :: "('v \<Rightarrow> Id) \<Rightarrow> (Id \<times> 'v) list \<Rightarrow> bool" where
  "wf_table key t \<longleftrightarrow> distinct (map fst t) \<and> (\<forall>e \<in> set t. fst e = key (snd e))"

definition wf_store :: "memory_store \<Rightarrow> bool" where
  "wf_store st \<longleftrightarrow>
     wf_table org_id (st_organizations st) \<and> wf_table srv_id (st_servers st)
     \<and> wf_table dom_id (st_domains st) \<and> wf_table rt_id (st_routes st)
     \<and> wf_table cred_id (st_credentials st) \<and> wf_table sa_id (st_sender_addresses st)"

lemma wf_table_Nil [simp]: "wf_table key []"
  by (simp add: wf_table_def)

lemma wf_table_insert [mail_inv]: "wf_table key t \<Longrightarrow> wf_table key (al_insert (key v) v t)"
  by (auto simp: wf_table_def distinct_al_insert set_al_insert)

lemma wf_table_remove [mail_inv]: "wf_table key t \<Longrightarrow> wf_table key (al_remove k t)"
  by (auto simp: wf_table_def distinct_al_remove)

lemma wf_table_map [mail_inv]:
  assumes "wf_table key t" "\<And>e. fst (f e) = fst e" "\<And>e. key (snd (f e)) = key (snd e)"
  shows "wf_table key (map f t)"
  using assms by (auto simp: wf_table_def comp_def)

lemma wf_table_lookup: "wf_table key t \<Longrightarrow> map_of t k = Some v \<Longrightarrow> key v = k"
  by (auto simp: wf_table_def dest!: map_of_SomeD)

lemma al_values_iff: "v \<in> set (al_values t) \<longleftrightarrow> (\<exists>k. (k, v) \<in> set t)"
  by (force simp: al_values_def)

lemma wf_table_values: "wf_table key t \<Longrightarrow> v \<in> set (al_values t) \<longleftrightarrow> map_of t (key v) = Some v"
  by (auto simp: al_values_iff wf_table_def dest: map_of_SomeD)

lemma wf_store_config_ops [mail_inv]:
  assumes "wf_store st"
  shows "wf_store (insert_organization st o')" "wf_store (insert_server st s)"
    "wf_store (insert_domain st d)" "wf_store (insert_route st r)" "wf_store (insert_credential st c)"
    "wf_store (insert_sender_address st a)" "wf_store (fst (delete_organization st i))"
    "wf_store (fst (delete_server st i))"
  using assms
  by (auto simp: wf_store_def insert_organization_def insert_server_def insert_domain_def
      insert_route_def insert_credential_def insert_sender_address_def delete_organization_def
      delete_server_def intro: mail_inv)

lemma wf_store_delete_domain [mail_inv]: "wf_store st \<Longrightarrow> wf_store (fst (delete_domain st i))"
  by (auto simp: wf_store_def delete_domain_def clear_route_domain_def intro!: mail_inv)

lemma wf_store_record_use [mail_inv]: "wf_store st \<Longrightarrow> wf_store (mem_record_credential_use env st i)"
  by (auto simp: wf_store_def mem_record_credential_use_def Let_def intro!: mail_inv)

text \<open>The tables that counting, storing, pruning and re-queuing leave alone.\<close>

definition same_config :: "memory_store \<Rightarrow> memory_store \<Rightarrow> bool" where
  "same_config st st' \<longleftrightarrow>
     st_organizations st' = st_organizations st \<and> st_servers st' = st_servers st
     \<and> st_domains st' = st_domains st \<and> st_routes st' = st_routes st
     \<and> st_credentials st' = st_credentials st \<and> st_sender_addresses st' = st_sender_addresses st
     \<and> st_organization_policies st' = st_organization_policies st"

lemma same_config_refl [simp]: "same_config st st"
  by (simp add: same_config_def)

lemma same_config_trans: "same_config a b \<Longrightarrow> same_config b c \<Longrightarrow> same_config a c"
  by (simp add: same_config_def)

lemma same_config_wf: "same_config st st' \<Longrightarrow> wf_store st \<Longrightarrow> wf_store st'"
  by (simp add: same_config_def wf_store_def)

interpretation memst: smtp_store "memory_store_ops ip env" wf_store
  for ip :: "'net ip_ops" and env :: store_env
proof (unfold_locales, goal_cases)
  case (1 st i s)
  then show ?case
    by (auto simp: memory_store_ops_def wf_store_def intro: wf_table_lookup)
next
  case (2 st k c)
  then show ?case
    by (auto simp: memory_store_ops_def mem_find_smtp_credential_by_key_def dest!: find_SomeD)
next
  case (3 st ipa c)
  then show ?case
    by (auto simp: memory_store_ops_def mem_find_ip_credential_def elim: match_ip_credential_SomeD)
next
  case (4 st c i)
  then show ?case by (auto simp: memory_store_ops_def mem_smtp_credentials_for_server_def)
next
  case (5 st i vals d)
  then show ?case
    by (auto simp: memory_store_ops_def mem_find_authenticated_domain_def Let_def split: option.splits)
next
  case (6 st i vals)
  then show ?case by (auto simp: memory_store_ops_def mem_find_confirmed_sender_address_def)
next
  case (7 st i)
  then show ?case by (simp add: memory_store_ops_def wf_store_record_use)
qed (auto simp: memory_store_ops_def mem_record_credential_use_def Let_def
    mem_send_policy_for_organization_def)

section \<open>From authorization\<close>

lemma domain_for_address_SomeD:
  assumes "domain_for_address st s v = Some i"
  shows "\<exists>d uname. d \<in> set (al_values (st_domains st)) \<and> dom_id d = i \<and> dom_verified d
      \<and> owned_by s d \<and> uname \<noteq> [] \<and> strip_name_from_address v = uname @ ''@'' @ dom_name d"
proof -
  from assms obtain uname d where "strip_name_from_address v = uname @ CHR ''@'' # dom_name d"
      "uname \<noteq> []" "i = dom_id d" "owned_by s d" "d \<in> set (al_values (st_domains st))" "dom_verified d"
    by (auto simp: domain_for_address_def split: option.splits if_splits
        dest!: find_SomeD split_once_SomeD(1))
  then show ?thesis by (intro exI [of _ d] exI [of _ uname]) simp
qed

text \<open>
  From authorization by domain is sound: when the store authenticates the
  header values of a server, every one of them is an address of a verified
  domain that belongs to that server or to its organization, the value is
  \<open>local@domain\<close> with a non-empty local part once the display name is
  stripped, and the domain returned is that of the first value.
\<close>

theorem authenticated_domain_sound:
  assumes "mem_find_authenticated_domain st sid vals = Some i"
  shows "\<exists>s. map_of (st_servers st) sid = Some s \<and> vals \<noteq> []
    \<and> domain_for_address st s (hd vals) = Some i
    \<and> (\<forall>v \<in> set vals. \<exists>d uname. d \<in> set (al_values (st_domains st)) \<and> dom_verified d
         \<and> owned_by s d \<and> uname \<noteq> [] \<and> strip_name_from_address v = uname @ ''@'' @ dom_name d)"
proof -
  from assms obtain s where s: "map_of (st_servers st) sid = Some s"
      "vals \<noteq> []" "list_all (\<lambda>d. d \<noteq> None) (map (domain_for_address st s) vals)"
      "hd (map (domain_for_address st s) vals) = Some i"
    by (auto simp: mem_find_authenticated_domain_def Let_def split: option.splits if_splits)
  from s(3) have "\<forall>v \<in> set vals. \<exists>j. domain_for_address st s v = Some j"
    by (auto simp: list_all_iff)
  with domain_for_address_SomeD s show ?thesis by (force simp: hd_map)
qed

definition demo_server :: "Id \<Rightarrow> Id \<Rightarrow> server" where
  "demo_server i oid =
     \<lparr>srv_id = i, srv_uuid = ''u'', srv_organization_id = oid, srv_name = ''n'', srv_permalink = ''p'',
      srv_token = ''t'', srv_mode = Live, srv_suspended = False, srv_suspension_reason = None,
      srv_privacy_mode = False, srv_log_smtp_data = False, srv_allow_sender = False,
      srv_ip_pool_id = None, srv_track_opens = False, srv_track_clicks = False,
      srv_send_limit = None, srv_spam_threshold = None, srv_outbound_spam_threshold = None,
      srv_bounce_hook_url = None, srv_delivery_hook_url = None, srv_inbound_domain = None,
      srv_broadcast_physical_address = None, srv_color = None, srv_default_stream_id = None\<rparr>"

definition demo_domain :: domain where
  "demo_domain =
     \<lparr>dom_id = 5, dom_uuid = ''u'', dom_owner = OwnerServer 1, dom_name = ''x.io'', dom_verified = True,
      dom_verification_token = ''v'', dom_check_dmarc = True, dom_check_spf = True,
      dom_dkim_private_key = None\<rparr>"

theorem authenticated_domain_sound_witness:
  "mem_find_authenticated_domain
     (insert_domain (insert_server memory_store_new (demo_server 1 9)) demo_domain) 1 [''N <a@x.io>'']
     = Some 5
   \<and> (\<exists>uname. uname \<noteq> [] \<and> strip_name_from_address ''N <a@x.io>'' = uname @ ''@'' @ ''x.io'')"
proof -
  let ?st = "insert_domain (insert_server memory_store_new (demo_server 1 9)) demo_domain"
  have found: "mem_find_authenticated_domain ?st 1 [''N <a@x.io>''] = Some 5"
    by (simp add: mem_find_authenticated_domain_def insert_domain_def insert_server_def
        memory_store_new_def demo_server_def demo_domain_def domain_for_address_def owned_by_def
        strip_name_from_address_def al_values_def trim_eval search_eval)
  have "d \<in> set (al_values (st_domains ?st)) \<Longrightarrow> dom_name d = ''x.io''" for d
    by (simp add: insert_domain_def insert_server_def memory_store_new_def demo_domain_def al_values_def)
  with authenticated_domain_sound [OF found] found show ?thesis by fastforce
qed


section \<open>Counting\<close>

lemma map_of_bump_counter:
  "map_of (bump_counter k cs) = (map_of cs)(k \<mapsto> wrap_i64 ((case map_of cs k of Some n \<Rightarrow> n | None \<Rightarrow> 0) + 1))"
  by (simp add: bump_counter_def)

lemma announce_frame [simp]:
  "st_send_counters (announce_thresholds env o' mo sent limit ts st) = st_send_counters st"
  "st_organization_send_counters (announce_thresholds env o' mo sent limit ts st)
     = st_organization_send_counters st"
  "st_messages (announce_thresholds env o' mo sent limit ts st) = st_messages st"
  "st_idempotency_requests (announce_thresholds env o' mo sent limit ts st) = st_idempotency_requests st"
  "st_next_id (announce_thresholds env o' mo sent limit ts st) = st_next_id st"
  by (induction ts arbitrary: st) (auto simp: Let_def)

lemma announce_same_config: "same_config st (announce_thresholds env o' mo sent limit ts st)"
  by (induction ts arbitrary: st) (fastforce simp: same_config_def)+

lemma announce_thresholds_once:
  "distinct (st_usage_alerts st) \<Longrightarrow>
   distinct (st_usage_alerts (announce_thresholds env o' mo sent limit ts st))
   \<and> set (st_usage_alerts (announce_thresholds env o' mo sent limit ts st))
       = set (st_usage_alerts st) \<union> (\<lambda>t. (org_id o', mo, t)) ` set ts
   \<and> length (st_lifecycle_events (announce_thresholds env o' mo sent limit ts st))
       + length (st_usage_alerts st)
     = length (st_lifecycle_events st)
       + length (st_usage_alerts (announce_thresholds env o' mo sent limit ts st))"
proof (induction ts arbitrary: st)
  case (Cons t ts)
  let ?st1 = "if (org_id o', mo, t) \<in> set (st_usage_alerts st) then st
        else st\<lparr>st_usage_alerts := (org_id o', mo, t) # st_usage_alerts st,
                st_lifecycle_events := st_lifecycle_events st @
                  [usage_threshold_event (se_uuid env (length (st_lifecycle_events st))) (se_now env)
                     o' mo t sent (case limit of Some l \<Rightarrow> l | None \<Rightarrow> 0)]\<rparr>"
  have "distinct (st_usage_alerts ?st1)" using Cons.prems by auto
  from Cons.IH [OF this] Cons.prems show ?case by (auto split: if_splits)
qed simp

lemma count_outgoing_same_config: "same_config st (count_outgoing env st sid at)"
proof -
  have "same_config st (announce_thresholds env o' mo sent limit ts
      (st\<lparr>st_send_counters := a, st_organization_send_counters := b\<rparr>))" for o' mo sent limit ts a b
    by (rule same_config_trans [OF _ announce_same_config]) (simp add: same_config_def)
  moreover have "same_config st (st\<lparr>st_send_counters := a\<rparr>)" for a
    by (simp add: same_config_def)
  ultimately show ?thesis
    by (auto simp: count_outgoing_def Let_def split: option.splits)
qed

lemma count_outgoing_frame [simp]:
  "st_send_counters (count_outgoing env st sid at) = bump_counter (sid, se_day env at) (st_send_counters st)"
  "st_messages (count_outgoing env st sid at) = st_messages st"
  "st_idempotency_requests (count_outgoing env st sid at) = st_idempotency_requests st"
  "st_next_id (count_outgoing env st sid at) = st_next_id st"
  by (simp_all add: count_outgoing_def Let_def split: option.splits)

lemma count_outgoing_org:
  assumes "organization_of_server st sid = Some o'"
  shows "st_organization_send_counters (count_outgoing env st sid at)
    = bump_counter (org_id o', se_month env (se_day env at)) (st_organization_send_counters st)"
  using assms by (simp add: count_outgoing_def Let_def organization_of_server_def)

text \<open>
  Usage thresholds are announced exactly once: counting one outgoing
  message raises the organization's counter of that month by one, announces
  every threshold the new count has reached that was not announced before
  (one lifecycle event each) and none twice.
\<close>

theorem usage_thresholds_announced_once:
  assumes "organization_of_server st sid = Some o'" and "distinct (st_usage_alerts st)"
    and "mo = se_month env (se_day env at)"
    and "sent = wrap_i64 ((case map_of (st_organization_send_counters st) (org_id o', mo) of
                             Some n \<Rightarrow> n | None \<Rightarrow> 0) + 1)"
    and "limit = Option.bind (map_of (st_organization_policies st) (org_id o')) pol_monthly_send_limit"
    and "st' = count_outgoing env st sid at"
  shows "map_of (st_organization_send_counters st') (org_id o', mo) = Some sent
    \<and> distinct (st_usage_alerts st')
    \<and> set (st_usage_alerts st')
        = set (st_usage_alerts st) \<union> (\<lambda>t. (org_id o', mo, t)) ` set (reached_thresholds sent limit)
    \<and> length (st_lifecycle_events st') + length (st_usage_alerts st)
        = length (st_lifecycle_events st) + length (st_usage_alerts st')"
proof -
  let ?st1 = "st\<lparr>st_send_counters := bump_counter (sid, se_day env at) (st_send_counters st),
      st_organization_send_counters := bump_counter (org_id o', mo) (st_organization_send_counters st)\<rparr>"
  have org1: "organization_of_server (st\<lparr>st_send_counters := c\<rparr>) sid = Some o'" for c
    using assms(1) by (simp add: organization_of_server_def)
  have counted: "the (map_of (bump_counter (org_id o', mo) (st_organization_send_counters st))
      (org_id o', mo)) = sent"
    by (simp add: map_of_bump_counter assms(4))
  have st': "st' = announce_thresholds env o' mo sent limit (reached_thresholds sent limit) ?st1"
    unfolding assms(6) count_outgoing_def Let_def
    by (simp add: org1 counted assms(3) [symmetric] assms(5) [symmetric])
  have "distinct (st_usage_alerts ?st1)" using assms(2) by simp
  from announce_thresholds_once [OF this, of env o' mo sent limit "reached_thresholds sent limit"]
  show ?thesis unfolding st' by (simp add: map_of_bump_counter assms(4))
qed

definition demo_org :: organization where
  "demo_org = \<lparr>org_id = 9, org_uuid = ''u'', org_name = ''O'', org_permalink = ''o'',
     org_require_two_factor = False\<rparr>"

definition demo_env :: store_env where
  "demo_env = \<lparr>se_now = 1000, se_day = (\<lambda>t. t div 100), se_month = (\<lambda>d. \<lparr>um_year = d, um_month = 1\<rparr>),
     se_token = (\<lambda>i. ''tok''), se_uuid = (\<lambda>n. ''id''), se_lc = to_ascii_lowercase\<rparr>"

definition demo_store :: memory_store where
  "demo_store = (insert_server (insert_organization memory_store_new demo_org) (demo_server 1 9))
     \<lparr>st_organization_policies := [(9, default_policy\<lparr>pol_monthly_send_limit := Some 5\<rparr>)],
      st_organization_send_counters := [((9, \<lparr>um_year = 10, um_month = 1\<rparr>), 3)]\<rparr>"

theorem usage_thresholds_announced_once_witness:
  "set (st_usage_alerts (count_outgoing demo_env demo_store 1 1000))
     = {(9, \<lparr>um_year = 10, um_month = 1\<rparr>, 80)}
   \<and> length (st_lifecycle_events (count_outgoing demo_env demo_store 1 1000)) = 1"
proof -
  have o: "organization_of_server demo_store 1 = Some demo_org"
    by (simp add: organization_of_server_def demo_store_def insert_server_def insert_organization_def
        memory_store_new_def demo_server_def demo_org_def)
  have d: "distinct (st_usage_alerts demo_store)" "st_usage_alerts demo_store = []"
    by (simp_all add: demo_store_def insert_server_def insert_organization_def memory_store_new_def)
  have fields: "st_organization_send_counters demo_store = [((9, \<lparr>um_year = 10, um_month = 1\<rparr>), 3)]"
      "st_organization_policies demo_store = [(9, default_policy\<lparr>pol_monthly_send_limit := Some 5\<rparr>)]"
      "st_lifecycle_events demo_store = []"
      "se_month demo_env (se_day demo_env 1000) = \<lparr>um_year = 10, um_month = 1\<rparr>" "org_id demo_org = 9"
    by (simp_all add: demo_store_def insert_server_def insert_organization_def memory_store_new_def
        demo_env_def demo_org_def)
  have alerts: "reached_thresholds (wrap_i64 4) (Some 5) = [80]"
    by (simp add: reached_thresholds_def USAGE_THRESHOLDS_def in_i64_def)
  note main = usage_thresholds_announced_once [OF o d(1) refl refl refl refl,
      of demo_env 1000, unfolded fields d(2)]
  from main have "distinct (st_usage_alerts (count_outgoing demo_env demo_store 1 1000))" by simp
  note card = distinct_card [OF this]
  from main alerts have set: "set (st_usage_alerts (count_outgoing demo_env demo_store 1 1000))
      = {(9, \<lparr>um_year = 10, um_month = 1\<rparr>, 80)}"
    by simp
  with card have "length (st_usage_alerts (count_outgoing demo_env demo_store 1 1000)) = 1" by simp
  with main set show ?thesis by simp
qed

section \<open>Pruning\<close>

lemma pruned_id_iff:
  assumes "distinct (map mr_id ms)" "m \<in> set ms"
  shows "mr_id m \<in> set (map mr_id (filter (\<lambda>m. mr_created_at m < t) ms)) \<longleftrightarrow> mr_created_at m < t"
proof -
  from assms(1) have "inj_on mr_id (set ms)" by (simp add: distinct_map)
  with assms(2) show ?thesis by (auto dest: inj_onD)
qed

definition clear_bounce_ref :: "int list \<Rightarrow> message_record \<Rightarrow> message_record" where
  "clear_bounce_ref expired m =
     (case mr_bounce_for_id m of
        Some original \<Rightarrow> if original \<in> set expired then m\<lparr>mr_bounce_for_id := None\<rparr> else m
      | None \<Rightarrow> m)"

lemma clear_bounce_ref_simps [simp]:
  "mr_id (clear_bounce_ref e m) = mr_id m" "mr_created_at (clear_bounce_ref e m) = mr_created_at m"
  by (simp_all add: clear_bounce_ref_def split: option.splits)

lemma clear_bounce_ref_notin: "i \<in> set e \<Longrightarrow> mr_bounce_for_id (clear_bounce_ref e m) \<noteq> Some i"
  by (auto simp: clear_bounce_ref_def split: option.splits)

lemma prune_messages_before_alt:
  assumes "expired = remdups (map mr_id (filter (\<lambda>m. mr_created_at m < t) (st_messages st)))"
    and "expired \<noteq> []" and "prune_messages_before st t = (st', n)"
  shows "st_messages st' = filter (\<lambda>m. mr_id m \<notin> set expired) (map (clear_bounce_ref expired) (st_messages st))"
    "st_message_deliveries st' = filter (\<lambda>e. fst e \<notin> set expired) (st_message_deliveries st)"
    "st_message_opens st' = filter (\<lambda>e. fst e \<notin> set expired) (st_message_opens st)"
    "st_message_clicks st' = filter (\<lambda>e. fst e \<notin> set expired) (st_message_clicks st)"
    "st_message_campaigns st' = filter (\<lambda>e. fst e \<notin> set expired) (st_message_campaigns st)"
    "st_send_counters st' = st_send_counters st"
    "st_organization_send_counters st' = st_organization_send_counters st"
    "n = length expired"
proof -
  have fn: "(\<lambda>m. case mr_bounce_for_id m of
        Some original \<Rightarrow> if original \<in> set expired then m\<lparr>mr_bounce_for_id := None\<rparr> else m
      | None \<Rightarrow> m) = clear_bounce_ref expired"
    by (rule ext) (simp add: clear_bounce_ref_def)
  note eq = assms(3) [unfolded prune_messages_before_def Let_def, folded assms(1), unfolded fn]
  with assms(2)
  show "st_messages st' = filter (\<lambda>m. mr_id m \<notin> set expired) (map (clear_bounce_ref expired) (st_messages st))"
    "st_message_deliveries st' = filter (\<lambda>e. fst e \<notin> set expired) (st_message_deliveries st)"
    "st_message_opens st' = filter (\<lambda>e. fst e \<notin> set expired) (st_message_opens st)"
    "st_message_clicks st' = filter (\<lambda>e. fst e \<notin> set expired) (st_message_clicks st)"
    "st_message_campaigns st' = filter (\<lambda>e. fst e \<notin> set expired) (st_message_campaigns st)"
    "st_send_counters st' = st_send_counters st"
    "st_organization_send_counters st' = st_organization_send_counters st"
    "n = length expired"
    by auto
qed

lemma length_filter_split: "length (filter P xs) = length xs - length (filter (\<lambda>x. \<not> P x) xs)"
  using sum_length_filter_compl [of P xs] by simp

text \<open>
  Retention pruning removes exactly the expired messages and everything
  that hangs off them, and never hands quota back: with distinct message ids
  the surviving messages are those created at or after the cutoff (only a
  reference to a pruned original is cleared), no delivery, open, click or
  campaign row and no bounce reference points at a pruned message, the number
  reported is the number removed, and the send counters that the limits read
  are untouched.
\<close>

theorem prune_messages_exact:
  assumes "distinct (map mr_id (st_messages st))" and "prune_messages_before st t = (st', n)"
  shows "map mr_id (st_messages st')
      = map mr_id (filter (\<lambda>m. t \<le> mr_created_at m) (st_messages st))
    \<and> n = length (st_messages st) - length (st_messages st')
    \<and> (\<forall>m \<in> set (st_messages st). mr_created_at m < t \<longrightarrow>
          mr_id m \<notin> fst ` set (st_message_deliveries st') \<union> fst ` set (st_message_opens st')
            \<union> fst ` set (st_message_clicks st') \<union> fst ` set (st_message_campaigns st')
          \<and> Some (mr_id m) \<notin> mr_bounce_for_id ` set (st_messages st'))
    \<and> (\<forall>env sid. mem_send_usage env st' sid = mem_send_usage env st sid
          \<and> mem_organization_month_usage env st' sid = mem_organization_month_usage env st sid)"
proof -
  let ?old = "\<lambda>m. mr_created_at m < t"
  define expired where "expired = remdups (map mr_id (filter ?old (st_messages st)))"
  have iff: "mr_id m \<in> set expired \<longleftrightarrow> ?old m" if "m \<in> set (st_messages st)" for m
    using pruned_id_iff [OF assms(1) that, of t] by (simp add: expired_def)
  have len: "length expired = length (filter ?old (st_messages st))"
    using assms(1) distinct_map_filter [of mr_id "st_messages st" ?old]
    by (simp add: expired_def distinct_remdups_id)
  show ?thesis
  proof (cases "expired = []")
    case True
    then have "st' = st" "n = 0" using assms(2) by (auto simp: prune_messages_before_def expired_def)
    moreover have "\<forall>m \<in> set (st_messages st). \<not> ?old m"
      using True iff by auto
    ultimately show ?thesis by (auto simp: filter_id_conv not_less)
  next
    case False
    note alt = prune_messages_before_alt [OF expired_def False assms(2)]
    have keep: "filter (\<lambda>m. mr_id m \<notin> set expired) (st_messages st)
        = filter (\<lambda>m. t \<le> mr_created_at m) (st_messages st)"
      using iff by (intro filter_cong) auto
    have ids: "map mr_id (st_messages st') = map mr_id (filter (\<lambda>m. t \<le> mr_created_at m) (st_messages st))"
      by (simp add: alt(1) filter_map comp_def keep [symmetric])
    moreover have "n = length (st_messages st) - length (st_messages st')"
      using arg_cong [OF ids, of length] len alt(8)
        length_filter_split [of ?old "st_messages st"] by (simp add: not_less)
    moreover have "Some (mr_id m) \<notin> mr_bounce_for_id ` set (st_messages st')"
      if "m \<in> set (st_messages st)" "?old m" for m
    proof -
      from that iff have "mr_id m \<in> set expired" by simp
      from clear_bounce_ref_notin [OF this] show ?thesis by (force simp: alt(1))
    qed
    moreover have "mem_send_usage env st' sid = mem_send_usage env st sid"
        "mem_organization_month_usage env st' sid = mem_organization_month_usage env st sid" for env sid
      by (simp_all add: mem_send_usage_def mem_organization_month_usage_def alt)
    ultimately show ?thesis using iff by (auto simp: alt(2-5))
  qed
qed


definition demo_record :: "int \<Rightarrow> instant \<Rightarrow> int option \<Rightarrow> message_record" where
  "demo_record i created ref =
     \<lparr>mr_id = i, mr_token = ''t'', mr_server_id = 1, mr_scope = ''outgoing'', mr_rcpt_to = ''a@b.c'',
      mr_mail_from = ''d@e.f'', mr_subject = None, mr_message_id_header = None, mr_tag = None,
      mr_status = ''SoftFail'', mr_bounce = False, mr_bounce_for_id = ref,
      mr_bounce_correlated_at = None, mr_bounce_category = None, mr_spam_status = ''NotChecked'',
      mr_spam_score = 0, mr_held = False, mr_threat = False, mr_size = 1, mr_metadata = None,
      mr_stream_id = None, mr_campaign_id = None, mr_bypassed = False, mr_created_at = created,
      mr_raw_message = ''x''\<rparr>"

theorem prune_messages_exact_witness:
  "map mr_id (st_messages (fst (prune_messages_before
      (memory_store_new\<lparr>st_messages := [demo_record 1 10 None, demo_record 2 90 (Some 1)]\<rparr>) 50))) = [2]"
proof -
  let ?st = "memory_store_new\<lparr>st_messages := [demo_record 1 10 None, demo_record 2 90 (Some 1)]\<rparr>"
  have "distinct (map mr_id (st_messages ?st))" by (simp add: demo_record_def)
  moreover obtain st' n where run: "prune_messages_before ?st 50 = (st', n)" by force
  ultimately show ?thesis
    using prune_messages_exact [of ?st 50 st' n] by (simp add: demo_record_def)
qed

section \<open>Storing a send operation\<close>

lemma build_message_record_fields:
  assumes "build_message_record env st m = (st1, record, sent)"
  shows "same_config st st1" "st_messages st1 = st_messages st"
    "st_idempotency_requests st1 = st_idempotency_requests st"
    "mr_server_id record = qm_server_id m" "mr_rcpt_to record = qm_rcpt_to m"
    "mr_raw_message record = qm_raw_message m" "mr_status record = ''Pending''"
    "mr_scope record = scope_as_str (qm_scope m)"
    "sm_id sent = mr_id record" "sm_token sent = mr_token record" "sm_rcpt_to sent = mr_rcpt_to record"
  using assms
  by (auto simp: build_message_record_def next_id_def Let_def same_config_def scope_as_str_def
      split: message_scope.splits)

text \<open>The identity a caller gets back and the record it names.\<close>

definition record_for :: "message_record \<Rightarrow> queued_message \<times> sent_message \<Rightarrow> bool" where
  "record_for r ms \<longleftrightarrow>
     mr_server_id r = qm_server_id (fst ms) \<and> mr_rcpt_to r = qm_rcpt_to (fst ms)
     \<and> mr_raw_message r = qm_raw_message (fst ms) \<and> mr_status r = ''Pending''
     \<and> mr_scope r = scope_as_str (qm_scope (fst ms))
     \<and> mr_id r = sm_id (snd ms) \<and> mr_token r = sm_token (snd ms) \<and> mr_rcpt_to r = sm_rcpt_to (snd ms)"

lemma insert_message_record_spec:
  assumes "insert_message_record env st m = (st', sent)"
  shows "same_config st st'" "st_idempotency_requests st' = st_idempotency_requests st"
    "\<exists>r. st_messages st' = st_messages st @ [r] \<and> record_for r (m, sent)"
proof -
  obtain st1 r sent' where b: "build_message_record env st m = (st1, r, sent')"
    by (metis prod_cases3)
  note f = build_message_record_fields [OF b]
  have same: "same_config st1 (count_outgoing env st1 i at)" for i at
    by (rule count_outgoing_same_config)
  have upd: "same_config a b \<Longrightarrow> same_config a (b\<lparr>st_messages := x\<rparr>)" for a b x
    by (simp add: same_config_def)
  from assms b have eq: "sent' = sent" and st': "st' = (let st2 = (if mr_scope r = ''outgoing''
      then count_outgoing env st1 (mr_server_id r) (mr_created_at r) else st1)
      in st2\<lparr>st_messages := st_messages st2 @ [r]\<rparr>)"
    by (auto simp: insert_message_record_def Let_def)
  show "same_config st st'"
    unfolding st' Let_def using f(1) same same_config_trans by (intro upd) auto
  show "st_idempotency_requests st' = st_idempotency_requests st"
    by (simp add: st' Let_def f(3))
  show "\<exists>r. st_messages st' = st_messages st @ [r] \<and> record_for r (m, sent)"
    using f eq by (intro exI [of _ r]) (simp add: st' Let_def record_for_def)
qed

lemma store_planned_spec:
  assumes "store_planned env sid st ps = (st', sents)"
  shows "same_config st st' \<and> st_idempotency_requests st' = st_idempotency_requests st
    \<and> length sents = length ps
    \<and> (\<exists>rs. st_messages st' = st_messages st @ rs
         \<and> list_all2 record_for rs (zip (map spm_message ps) sents))"
  using assms
proof (induction ps arbitrary: st st' sents)
  case (Cons p ps)
  let ?st1 = "case spm_unsubscribe_token p of None \<Rightarrow> st
      | Some t \<Rightarrow> st\<lparr>st_unsubscribe_tokens := st_unsubscribe_tokens st @
                     [(put_token t, sid, put_stream_id t, put_address t)]\<rparr>"
  obtain st2 sent where i: "insert_message_record env ?st1 (spm_message p) = (st2, sent)" by force
  obtain st3 rest where r: "store_planned env sid st2 ps = (st3, rest)" by force
  from Cons.prems i r have res: "st' = st3" "sents = sent # rest" by (simp_all add: Let_def)
  note one = insert_message_record_spec [OF i]
  from one(3) obtain x where x: "st_messages st2 = st_messages ?st1 @ [x]" "record_for x (spm_message p, sent)"
    by blast
  from Cons.IH [OF r] obtain rs where rs: "same_config st2 st3"
      "st_idempotency_requests st3 = st_idempotency_requests st2" "length rest = length ps"
      "st_messages st3 = st_messages st2 @ rs" "list_all2 record_for rs (zip (map spm_message ps) rest)"
    by blast
  have same: "same_config st ?st1" "st_messages ?st1 = st_messages st"
      "st_idempotency_requests ?st1 = st_idempotency_requests st"
    by (simp_all add: same_config_def split: option.splits)
  have "same_config st st3" using same(1) one(1) rs(1) same_config_trans by blast
  moreover have "list_all2 record_for (x # rs) (zip (map spm_message (p # ps)) sents)"
    using x rs res by simp
  ultimately show ?case
    using res rs x same one(2) by (intro conjI exI [of _ "x # rs"]) simp_all
qed simp

lemma store_plan_spec:
  assumes "store_plan env sid st plan = (st', items)"
  shows "same_config st st' \<and> st_idempotency_requests st' = st_idempotency_requests st
    \<and> length items = length plan \<and> (\<exists>rs. st_messages st' = st_messages st @ rs)"
  using assms
proof (induction env sid st plan arbitrary: st' items rule: store_plan.induct)
  case (2 env sid st c m plan)
  then show ?case by (auto split: prod.splits)
next
  case (3 env sid st ps plan)
  obtain st1 recipients where p: "store_planned env sid st ps = (st1, recipients)" by force
  obtain st2 rest where q: "store_plan env sid st1 plan = (st2, rest)" by force
  from "3.IH" [OF p [symmetric] q] store_planned_spec [OF p] "3.prems" p q show ?case
    by (auto intro: same_config_trans)
qed simp

text \<open>
  A send operation is stored once per idempotency key: when an operation
  was stored under a key, repeating the identical request before the key
  expires returns the very same response and leaves the store as it is, a
  different request under the key is a conflict and also changes nothing, and
  the read-only lookup agrees with both.
\<close>

theorem send_operation_stored_once:
  assumes "insert_send_operation env st sid plan (Some r) = (st1, SendStored res)"
    and "se_now env' < ir_expires_at r" and "ir_key_hash r' = ir_key_hash r"
  shows "insert_send_operation env' st1 sid plan' (Some r')
      = (st1, if ir_request_hash r' = ir_request_hash r \<and> ir_operation r' = ir_operation r
              then SendReplayed res else SendConflict)
    \<and> idempotency_result env' st1 sid r'
      = (if ir_request_hash r' = ir_request_hash r \<and> ir_operation r' = ir_operation r
         then LookupReplay res else LookupConflict)"
proof -
  let ?k = "(sid, ir_key_hash r)"
  let ?rec = "\<lparr>mir_request_hash = ir_request_hash r, mir_operation = ir_operation r,
      mir_response = res, mir_expires_at = ir_expires_at r\<rparr>"
  have "map_of (st_idempotency_requests st1) ?k = Some ?rec"
    using assms(1)
    by (auto simp: insert_send_operation_def Let_def split: option.splits if_splits prod.splits)
  then show ?thesis
    using assms(2,3) by (auto simp: insert_send_operation_def idempotency_result_def Let_def)
qed

theorem send_operation_stored_once_witness:
  "\<exists>st1 res. insert_send_operation demo_env memory_store_new 7
       [PlanMessages [\<lparr>spm_message = sample_message, spm_unsubscribe_token = None\<rparr>]]
       (Some ((sample_request ''h'')\<lparr>ir_expires_at := 5000\<rparr>)) = (st1, SendStored res)
     \<and> insert_send_operation demo_env st1 7 [] (Some ((sample_request ''h'')\<lparr>ir_expires_at := 5000\<rparr>))
         = (st1, SendReplayed res)
     \<and> insert_send_operation demo_env st1 7 [] (Some (sample_request ''other'')) = (st1, SendConflict)"
proof -
  let ?r = "(sample_request ''h'')\<lparr>ir_expires_at := 5000\<rparr>"
  let ?plan = "[PlanMessages [\<lparr>spm_message = sample_message, spm_unsubscribe_token = None\<rparr>]]"
  obtain st1 out where run: "insert_send_operation demo_env memory_store_new 7 ?plan (Some ?r) = (st1, out)"
    by force
  then obtain res where "out = SendStored res"
    by (auto simp: insert_send_operation_def Let_def memory_store_new_def split: prod.splits)
  with run have run': "insert_send_operation demo_env memory_store_new 7 ?plan (Some ?r) = (st1, SendStored res)"
    by simp
  have "se_now demo_env < ir_expires_at ?r" by (simp add: demo_env_def)
  note main = send_operation_stored_once [OF run' this]
  have "ir_request_hash (sample_request ''other'') \<noteq> ir_request_hash ?r"
    by (simp add: sample_request_def)
  with run' main [of ?r "[]"] main [of "sample_request ''other''" "[]"] show ?thesis
    by (intro exI [of _ st1] exI [of _ res]) (simp add: sample_request_def)
qed

lemma idempotency_update_same [simp]:
  "(st :: memory_store)\<lparr>st_idempotency_requests := st_idempotency_requests st\<rparr> = st"
  by (cases st) simp

lemma insert_send_operation_SendStored:
  assumes "insert_send_operation env st sid plan req = (st', SendStored res)"
  obtains x y st2 where
    "store_plan env sid (st\<lparr>st_idempotency_requests := x\<rparr>) plan = (st2, sor_items res)"
    "st' = st2\<lparr>st_idempotency_requests := y\<rparr>"
proof (cases req)
  case None
  with assms that [of "st_idempotency_requests st" st' "st_idempotency_requests st'"] show thesis
    by (auto simp: insert_send_operation_def split: prod.splits)
next
  case (Some r)
  from assms obtain st2 items where
    "store_plan env sid (st\<lparr>st_idempotency_requests :=
        al_remove (sid, ir_key_hash r) (st_idempotency_requests st)\<rparr>) plan = (st2, items)"
    "res = \<lparr>sor_items = items\<rparr>" "\<exists>y. st' = st2\<lparr>st_idempotency_requests := y\<rparr>"
    unfolding Some
    by (auto simp: insert_send_operation_def Let_def split: option.splits if_splits prod.splits)
  with that show thesis by auto
qed

text \<open>
  Storing a send operation keeps the store well formed and only appends
  messages: every configuration table is untouched, no stored message is lost
  or changed, the response has one item per plan entry, and the store
  invariant survives.
\<close>

theorem send_operation_preserves_store:
  assumes "wf_store st" and "insert_send_operation env st sid plan req = (st', out)"
  shows "wf_store st' \<and> same_config st st' \<and> (\<exists>rs. st_messages st' = st_messages st @ rs)
    \<and> (\<forall>res. out = SendStored res \<longrightarrow> length (sor_items res) = length plan)
    \<and> ((\<forall>res. out \<noteq> SendStored res) \<longrightarrow> st' = st)"
proof -
  have idem: "same_config a b \<Longrightarrow> same_config a (b\<lparr>st_idempotency_requests := x\<rparr>)" for a b x
    by (simp add: same_config_def)
  have idem0: "same_config (a\<lparr>st_idempotency_requests := x\<rparr>) b \<Longrightarrow> same_config a b" for a b x
    by (simp add: same_config_def)
  have main: "same_config st st' \<and> (\<exists>rs. st_messages st' = st_messages st @ rs)
      \<and> (\<forall>res. out = SendStored res \<longrightarrow> length (sor_items res) = length plan)
      \<and> ((\<forall>res. out \<noteq> SendStored res) \<longrightarrow> st' = st)"
  proof (cases "\<exists>res. out = SendStored res")
    case False
    with assms(2) have "st' = st"
      by (auto simp: insert_send_operation_def Let_def split: option.splits if_splits prod.splits)
    with False show ?thesis by auto
  next
    case True
    then obtain res where out: "out = SendStored res" by blast
    with assms(2) obtain x y st2 where
      p: "store_plan env sid (st\<lparr>st_idempotency_requests := x\<rparr>) plan = (st2, sor_items res)"
        "st' = st2\<lparr>st_idempotency_requests := y\<rparr>"
      by (auto elim: insert_send_operation_SendStored)
    with store_plan_spec [OF p(1)] out show ?thesis by (auto intro: idem idem0)
  qed
  then show ?thesis using assms(1) same_config_wf by blast
qed


lemma wf_store_new [simp]: "wf_store memory_store_new"
  by (simp add: wf_store_def memory_store_new_def)

theorem send_operation_preserves_store_witness:
  "wf_store (fst (insert_send_operation demo_env memory_store_new 7
       [PlanMessages [\<lparr>spm_message = sample_message, spm_unsubscribe_token = None\<rparr>],
        PlanError ''Code'' ''text''] None))"
proof -
  let ?plan = "[PlanMessages [\<lparr>spm_message = sample_message, spm_unsubscribe_token = None\<rparr>],
      PlanError ''Code'' ''text'']"
  obtain st' out where run: "insert_send_operation demo_env memory_store_new 7 ?plan None = (st', out)"
    by force
  from send_operation_preserves_store [OF wf_store_new run] run show ?thesis by simp
qed

section \<open>Re-queuing\<close>

lemma update_first_spec:
  assumes "List.find p xs = Some x"
  shows "\<exists>us vs. xs = us @ x # vs \<and> update_first p f xs = us @ f x # vs \<and> (\<forall>u \<in> set us. \<not> p u)"
  using assms
proof (induction xs)
  case (Cons a xs)
  show ?case
  proof (cases "p a")
    case True
    with Cons.prems show ?thesis by (intro exI [of _ "[]"] exI [of _ xs]) auto
  next
    case False
    with Cons obtain us vs where "xs = us @ x # vs" "update_first p f xs = us @ f x # vs" "\<forall>u \<in> set us. \<not> p u"
      by auto
    with False show ?thesis by (intro exI [of _ "a # us"] exI [of _ vs]) simp
  qed
qed simp

text \<open>
  Sending an outgoing message again is confined to one message of one
  tenant: a successful re-queue puts exactly one record back to \<open>Pending\<close>, an
  outgoing record of the asking server with that id whose status may be retried
  and whose content is still there, keeps every other record, and every other
  answer leaves the store unchanged.
\<close>

theorem requeue_outbound_tenant_safe:
  "(case requeue_outbound st sid mid of
      (st', Requeued m') \<Rightarrow>
        \<exists>us m vs. st_messages st = us @ m # vs \<and> own_message sid mid ''outgoing'' m
          \<and> mr_status m \<in> set RETRYABLE_OUTBOUND_STATUSES \<and> mr_raw_message m \<noteq> []
          \<and> m' = m\<lparr>mr_status := ''Pending'', mr_held := False\<rparr>
          \<and> st' = st\<lparr>st_messages := us @ m' # vs\<rparr>
    | (st', NotFound) \<Rightarrow> st' = st \<and> filter (own_message sid mid ''outgoing'') (st_messages st) = []
    | (st', NotRetryable status) \<Rightarrow> st' = st \<and> status \<notin> set RETRYABLE_OUTBOUND_STATUSES
    | (st', ContentPurged) \<Rightarrow> st' = st)"
proof (cases "List.find (own_message sid mid ''outgoing'') (st_messages st)")
  case None
  then have "filter (own_message sid mid ''outgoing'') (st_messages st) = []"
    by (simp add: find_None_iff filter_empty_conv)
  then show ?thesis by (simp add: requeue_outbound_def Let_def None)
next
  case (Some m)
  let ?f = "\<lambda>m. m\<lparr>mr_status := ''Pending'', mr_held := False\<rparr>"
  from update_first_spec [OF Some, of ?f] obtain us vs where
    sp: "st_messages st = us @ m # vs"
      "update_first (own_message sid mid ''outgoing'') ?f (st_messages st) = us @ ?f m # vs"
    by blast
  from find_SomeD [OF Some] have own: "own_message sid mid ''outgoing'' m" by simp
  show ?thesis
  proof (cases "mr_status m \<in> set RETRYABLE_OUTBOUND_STATUSES \<and> mr_raw_message m \<noteq> []")
    case True
    then have "requeue_outbound st sid mid
        = (st\<lparr>st_messages := us @ ?f m # vs\<rparr>, Requeued (?f m))"
      by (simp add: requeue_outbound_def Let_def Some sp(2))
    with True own sp(1) show ?thesis by auto
  qed (auto simp: requeue_outbound_def Let_def Some)
qed

section \<open>Deleting a domain\<close>

text \<open>Every route's domain exists.\<close>

definition routes_resolve :: "memory_store \<Rightarrow> bool" where
  "routes_resolve st \<longleftrightarrow>
     (\<forall>r \<in> set (al_values (st_routes st)). \<forall>i. rt_domain_id r = Some i \<longrightarrow> map_of (st_domains st) i \<noteq> None)"

text \<open>
  Deleting a domain keeps referential integrity the way the database's
  \<open>ON DELETE SET NULL\<close> does: the domain is gone, no route dangles, every
  route survives with only its reference to that domain cleared, and a mail
  to \<open>name@domain\<close> no longer finds a route through it.
\<close>

theorem delete_domain_clears_routes:
  assumes "wf_store st" "routes_resolve st" "delete_domain st i = (st', removed)"
  shows "wf_store st' \<and> routes_resolve st' \<and> map_of (st_domains st') i = None
    \<and> removed = (map_of (st_domains st) i \<noteq> None)
    \<and> map rt_id (al_values (st_routes st')) = map rt_id (al_values (st_routes st))
    \<and> (\<forall>r \<in> set (al_values (st_routes st)). rt_domain_id r \<noteq> Some i \<longrightarrow> r \<in> set (al_values (st_routes st')))
    \<and> (\<forall>name d. map_of (st_domains st) i = Some d
          \<and> (\<forall>j e. map_of (st_domains st) j = Some e \<and> dom_name e = dom_name d \<longrightarrow> j = i)
          \<longrightarrow> mem_find_route_by_name_and_domain st' name (dom_name d) = None)"
proof -
  from assms(3) have st': "st_domains st' = al_remove i (st_domains st)"
      "st_routes st' = map (\<lambda>e. (fst e, clear_route_domain i (snd e))) (st_routes st)"
      "removed = (map_of (st_domains st) i \<noteq> None)"
    by (auto simp: delete_domain_def)
  have vals: "al_values (st_routes st') = map (clear_route_domain i) (al_values (st_routes st))"
    by (simp add: st' al_values_def)
  have "wf_store st'"
    using wf_store_delete_domain [OF assms(1), of i] assms(3) by simp
  moreover have "routes_resolve st'"
    using assms(2) by (auto simp: routes_resolve_def vals st'(1) clear_route_domain_def split: if_splits)
  moreover have "map rt_id (al_values (st_routes st')) = map rt_id (al_values (st_routes st))"
    by (simp add: vals clear_route_domain_def)
  moreover have "r \<in> set (al_values (st_routes st'))"
    if "r \<in> set (al_values (st_routes st))" "rt_domain_id r \<noteq> Some i" for r
    using that by (force simp: vals clear_route_domain_def image_iff)
  moreover have "mem_find_route_by_name_and_domain st' name (dom_name d) = None"
    if "map_of (st_domains st) i = Some d"
      "\<forall>j e. map_of (st_domains st) j = Some e \<and> dom_name e = dom_name d \<longrightarrow> j = i" for name d
  proof -
    have "List.find (\<lambda>r. rt_name r = name
        \<and> (case Option.bind (rt_domain_id r) (map_of (st_domains st')) of
             Some e \<Rightarrow> dom_name e = dom_name d | None \<Rightarrow> False)) (al_values (st_routes st')) = None"
      using that(2) by (auto simp: find_None_iff st'(1) bind_eq_Some_conv split: option.splits if_splits)
    then show ?thesis by (simp add: mem_find_route_by_name_and_domain_def)
  qed
  ultimately show ?thesis using st' by simp
qed

definition demo_route :: route where
  "demo_route = \<lparr>rt_id = 3, rt_uuid = ''u'', rt_server_id = 1, rt_domain_id = Some 5, rt_name = ''in'',
     rt_token = ''tok'', rt_mode = ModeAccept, rt_endpoint_url = None\<rparr>"

theorem delete_domain_clears_routes_witness:
  "map_of (st_domains (fst (delete_domain
      (insert_route (insert_domain memory_store_new demo_domain) demo_route) 5))) 5 = None"
proof -
  let ?st = "insert_route (insert_domain memory_store_new demo_domain) demo_route"
  have "wf_store ?st" by (simp add: wf_store_config_ops)
  moreover have "routes_resolve ?st"
    by (simp add: routes_resolve_def insert_route_def insert_domain_def memory_store_new_def
        demo_route_def demo_domain_def al_values_def)
  moreover obtain st' b where run: "delete_domain ?st 5 = (st', b)" by force
  ultimately show ?thesis using delete_domain_clears_routes [of ?st 5 st' b] by simp
qed

end
