(* ===== verification/Smtp_Invariant.thy ===== *)
theory Smtp_Invariant
  imports Smtp_Session Mem_Store
begin

text \<open>
  The invariant of an SMTP session over every command, and the sessions a
  connection can reach. Each operation of \<open>Smtp_Session\<close> has its preservation
  lemma (collected in \<open>mail_inv\<close>); they are proved against the contract
  \<open>smtp_store\<close> and instantiated for the in-memory store.
\<close>

section \<open>The invariant\<close>

definition wf_recipient :: "credential option \<Rightarrow> recipient \<Rightarrow> bool" where
  "wf_recipient c r \<longleftrightarrow>
     \<not> srv_suspended (rc_server r)
     \<and> (rc_kind r = KRoute \<longrightarrow>
          (\<exists>rr. rc_route r = Some rr \<and> rr_server rr = rc_server r \<and> rt_mode (rr_route rr) \<noteq> ModeReject))
     \<and> (rc_kind r = KCredential \<longrightarrow> c \<noteq> None)"

fun auth_mode :: "input_mode \<Rightarrow> bool" where
  "auth_mode Command = False"
| "auth_mode DataMode = False"
| "auth_mode _ = True"

definition credential_ok :: "session \<Rightarrow> bool" where
  "credential_ok s \<longleftrightarrow>
     (\<forall>c. s_credential s = Some c \<longrightarrow>
        cred_type c = SmtpIp \<or> (cred_type c = Smtp \<and> auth_permitted s))"

definition session_ok :: "session \<Rightarrow> bool" where
  "session_ok s \<longleftrightarrow>
     list_all (wf_recipient (s_credential s)) (s_recipients s)
     \<and> (s_recipients s \<noteq> [] \<longrightarrow> s_state s = RcptToReceived)
     \<and> (s_state s \<in> {MailFromReceived, RcptToReceived} \<longrightarrow> s_mail_from s \<noteq> None)
     \<and> (s_input_mode s = DataMode \<longrightarrow>
          s_state s = RcptToReceived \<and> s_data s \<noteq> None \<and> s_headers s \<noteq> None)
     \<and> (auth_mode (s_input_mode s) \<longrightarrow> auth_permitted s)
     \<and> credential_ok s"

text \<open>The fields the invariant reads; an update of any other field keeps it.\<close>

lemmas session_ok_defs = session_ok_def credential_ok_def auth_permitted_def

lemma session_ok_frame [simp]:
  "session_ok (s\<lparr>s_cr_present := b\<rparr>) = session_ok s"
  "session_ok (s\<lparr>s_previous_cr_present := p\<rparr>) = session_ok s"
  "session_ok (s\<lparr>s_finished := b\<rparr>) = session_ok s"
  "session_ok (s\<lparr>s_start_tls := b\<rparr>) = session_ok s"
  "session_ok (s\<lparr>s_helo_name := h\<rparr>) = session_ok s"
  "session_ok (s\<lparr>s_received_spf := v\<rparr>) = session_ok s"
  "session_ok (s\<lparr>s_resolved_hostname := v\<rparr>) = session_ok s"
  "session_ok (s\<lparr>s_ip_address := v\<rparr>) = session_ok s"
  "session_ok (s\<lparr>s_header_key := k\<rparr>) = session_ok s"
  "session_ok (s\<lparr>s_receiving_headers := b\<rparr>) = session_ok s"
  by (simp_all add: session_ok_defs)

lemma session_ok_new: "session_ok (session_new to_ascii config trace ip)"
  by (simp add: session_ok_defs session_new_def)

lemma welcomed_ok [mail_inv]:
  "session_ok s \<Longrightarrow> s_input_mode s \<noteq> DataMode \<Longrightarrow> session_ok (welcomed s)"
  by (auto simp: session_ok_defs welcomed_def transaction_reset_def)

lemma tls_ok [mail_inv]: "session_ok s \<Longrightarrow> session_ok (s\<lparr>s_tls := True\<rparr>)"
  by (auto simp: session_ok_defs)

lemma command_mode_ok [mail_inv]: "session_ok s \<Longrightarrow> session_ok (s\<lparr>s_input_mode := Command\<rparr>)"
  by (auto simp: session_ok_defs)

lemma auth_mode_ok [mail_inv]:
  "session_ok s \<Longrightarrow> auth_permitted s \<Longrightarrow> auth_mode m \<Longrightarrow> session_ok (s\<lparr>s_input_mode := m\<rparr>)"
  by (auto simp: session_ok_defs)

lemma credential_set_ok [mail_inv]:
  "session_ok s \<Longrightarrow> cred_type c = SmtpIp \<or> (cred_type c = Smtp \<and> auth_permitted s) \<Longrightarrow>
   session_ok (s\<lparr>s_credential := Some c\<rparr>)"
  by (auto simp: session_ok_defs wf_recipient_def list_all_iff)

lemma rcpt_state_ok [mail_inv]:
  "session_ok s \<Longrightarrow> s_state s \<in> {MailFromReceived, RcptToReceived} \<Longrightarrow>
   session_ok (s\<lparr>s_state := RcptToReceived\<rparr>)"
  by (auto simp: session_ok_defs)

lemma push_recipient_ok [mail_inv]:
  "session_ok s \<Longrightarrow> s_state s = RcptToReceived \<Longrightarrow> wf_recipient (s_credential s) r \<Longrightarrow>
   session_ok (push_recipient s r)"
  by (auto simp: session_ok_defs push_recipient_def list_all_iff)

section \<open>Commands\<close>

lemma proxy_ok [mail_inv]:
  "session_ok s \<Longrightarrow> s_state s = Preauth \<Longrightarrow> session_ok (fst (proxy s data))"
  by (auto simp: proxy_def Let_def session_ok_defs)

lemma simple_commands_ok [mail_inv]:
  assumes "session_ok s" "s_input_mode s \<noteq> DataMode"
  shows "session_ok (fst (quit s))" "session_ok (fst (starttls s))" "session_ok (fst (ehlo s data))"
    "session_ok (fst (helo s data))" "session_ok (fst (rset s))" "session_ok (fst (noop s))"
  using assms welcomed_ok [of s] welcomed_ok [of "set_helo s data"]
  by (simp_all add: quit_def starttls_def tls_ok ehlo_def helo_def rset_def noop_def Let_def
      welcomed_def set_helo_def)

lemma mail_from_ok [mail_inv]:
  assumes "session_ok s" "s_input_mode s \<noteq> DataMode" "mail_from_command s data = Inr (s', r)"
  shows "session_ok s'"
proof (cases "s_state s \<in> {Welcomed, MailFromReceived}")
  case True
  with assms(3) obtain a
    where "s' = (transaction_reset (s\<lparr>s_state := MailFromReceived\<rparr>))\<lparr>s_mail_from := Some a\<rparr>"
    by (auto simp: mail_from_command_def Let_def bind_rust_Inr_iff)
  with assms(1,2) show ?thesis by (auto simp: session_ok_defs transaction_reset_def)
next
  case False
  with assms show ?thesis by (simp add: mail_from_command_def)
qed

lemma data_command_ok [mail_inv]:
  "session_ok s \<Longrightarrow> session_ok (fst (data_command env so s st))"
  by (auto simp: data_command_def session_ok_defs)

lemma auth_login_ok [mail_inv]:
  "session_ok s \<Longrightarrow> auth_permitted s \<Longrightarrow> auth_login s data = Inr (s', r) \<Longrightarrow> session_ok s'"
  by (auto simp: auth_login_def auth_login_username_def bind_rust_Inr_iff Let_def auth_mode_ok
      split: if_splits)

lemma rcpt_return_path_ok [mail_inv]:
  "session_ok s \<Longrightarrow> s_state s = RcptToReceived \<Longrightarrow>
   session_ok (fst (rcpt_return_path so s st rcpt uname))"
  by (auto simp: rcpt_return_path_def wf_recipient_def push_recipient_ok split: option.splits)

lemma rcpt_route_token_ok [mail_inv]:
  "session_ok s \<Longrightarrow> s_state s = RcptToReceived \<Longrightarrow>
   session_ok (fst (rcpt_route_token so s st uname tag))"
  by (auto simp: rcpt_route_token_def Let_def wf_recipient_def
      intro!: push_recipient_ok split: option.splits)

lemma rcpt_outgoing_ok [mail_inv]:
  "session_ok s \<Longrightarrow> s_state s = RcptToReceived \<Longrightarrow> s_credential s \<noteq> None \<Longrightarrow>
   session_ok (fst (rcpt_outgoing so s st rcpt c))"
  by (auto simp: rcpt_outgoing_def wf_recipient_def push_recipient_ok split: option.splits)

lemma rcpt_incoming_ok [mail_inv]:
  "session_ok s \<Longrightarrow> s_state s = RcptToReceived \<Longrightarrow> session_ok (fst (rcpt_incoming s rcpt rr))"
  by (auto simp: rcpt_incoming_def wf_recipient_def push_recipient_ok)

section \<open>DATA\<close>

lemma headers_set_ok [mail_inv]:
  "session_ok s \<Longrightarrow> hs = None \<longleftrightarrow> s_headers s = None \<Longrightarrow> session_ok (s\<lparr>s_headers := hs\<rparr>)"
  "session_ok s \<Longrightarrow> d = None \<longleftrightarrow> s_data s = None \<Longrightarrow> session_ok (s\<lparr>s_data := d\<rparr>)"
  by (auto simp: session_ok_defs)

lemma receive_header_line_ok [mail_inv]:
  "session_ok s \<Longrightarrow> receive_header_line env s line = Inr s' \<Longrightarrow> session_ok s'"
  unfolding receive_header_line_def Let_def
  by (auto simp: headers_set_ok split: if_splits option.split_asm)

lemma receive_line_ok [mail_inv]:
  assumes "session_ok s" "receive_line env s line = Inr s'"
  shows "session_ok s'"
proof -
  from assms(2) obtain s1 where s1: "receive_header_line env s (unstuff line) = Inr s1"
    "s' = s1\<lparr>s_data := map_option (\<lambda>d. d @ unstuff line @ crlf) (s_data s1)\<rparr>"
    by (auto simp: receive_line_def bind_rust_Inr_iff)
  with receive_header_line_ok [OF assms(1)] have "session_ok s1" by blast
  with s1(2) show ?thesis by (simp add: headers_set_ok)
qed

lemma receive_line_total:
  "s_headers s \<noteq> None \<Longrightarrow> \<exists>s'. receive_line env s line = Inr s'"
  by (auto simp: receive_line_def receive_header_line_def Let_def bind_rust_Inr_iff split: option.splits)

lemma queue_all_total:
  "list_all (wf_recipient c) rs \<Longrightarrow> \<exists>ms. queue_all so t st mf data d rs = Inr ms"
proof (induction rs)
  case (Cons r rs)
  then obtain ms where "queue_all so t st mf data d rs = Inr ms" by auto
  moreover have "\<exists>m. queued_for so t st mf data d r = Inr m"
    using Cons.prems
    by (auto simp: queued_for_def wf_recipient_def Let_def split: recipient_kind.splits option.splits)
  ultimately show ?case by auto
qed simp

lemma store_data_total:
  assumes "list_all (wf_recipient (s_credential s)) (s_recipients s)"
  shows "\<exists>snk' r. store_data env so sk s st snk data d key = Inr (welcomed s, snk', r)"
proof -
  let ?data = "if key \<noteq> None then strip_message_header data IDEMPOTENCY_HEADER else data"
  let ?mf = "case s_mail_from s of Some m \<Rightarrow> m | None \<Rightarrow> []"
  obtain ms where "queue_all so s st ?mf ?data d (s_recipients s) = Inr ms"
    using queue_all_total [OF assms, of so s st ?mf ?data d] by blast
  then show ?thesis by (simp add: store_data_def Let_def case_prod_beta)
qed

lemma store_data_session: "store_data env so sk s st snk data d key = Inr (s', snk', r) \<Longrightarrow> s' = welcomed s"
  by (auto simp: store_data_def Let_def bind_rust_Inr_iff case_prod_beta)

lemma finish_data_session: "finish_data env so sk s st snk = Inr (s', snk', r) \<Longrightarrow> s' = welcomed s"
  unfolding finish_data_def Let_def
  by (auto dest: store_data_session split: if_splits option.splits sum.splits)

lemma finish_data_total:
  "list_all (wf_recipient (s_credential s)) (s_recipients s) \<Longrightarrow>
   \<exists>snk' r. finish_data env so sk s st snk = Inr (welcomed s, snk', r)"
  unfolding finish_data_def Let_def
  using store_data_total [of s env so sk st snk] by (simp split: option.split sum.split)

lemma data_line_ok [mail_inv]:
  assumes "session_ok s" "data_line env so sk s st snk line = Inr (s', snk', r)"
  shows "session_ok s'"
  using assms
  by (auto simp: data_line_def bind_rust_Inr_iff welcomed_ok command_mode_ok
      dest!: finish_data_session intro: receive_line_ok split: if_splits)

lemma data_line_total:
  assumes "session_ok s" "s_input_mode s = DataMode"
  shows "returns (data_line env so sk s st snk line)"
proof -
  from assms have "s_headers s \<noteq> None" "list_all (wf_recipient (s_credential s)) (s_recipients s)"
    by (auto simp: session_ok_def)
  then show ?thesis
    using finish_data_total [of "s\<lparr>s_input_mode := Command\<rparr>" env so sk st snk]
      receive_line_total [of s env line]
    by (auto simp: data_line_def)
qed

section \<open>Case analysis of the longer commands\<close>

lemma auth_cram_md5_continue_cases:
  obtains (denied) "auth_cram_md5_continue env so s st data ch
      = (s\<lparr>s_input_mode := Command\<rparr>, st, Line ''535 Denied'')"
  | (granted) c i where "c \<in> set (so_smtp_credentials_for_server so st i)"
      "auth_cram_md5_continue env so s st data ch = grant so (s\<lparr>s_input_mode := Command\<rparr>) st c"
proof -
  let ?u = "utf8_lossy (decode64_lenient env data)"
  let ?pl = "splitn2 (\<lambda>c. c = CHR ''/'' \<or> c = CHR ''_'')
      (trim_end_matches is_crlf_char (fst (splitn2 (\<lambda>c. c = CHR '' '') ?u)))"
  let ?pw = "trim_end_matches is_crlf_char (snd (splitn2 (\<lambda>c. c = CHR '' '') ?u))"
  let ?find = "\<lambda>srv. List.find (\<lambda>c. ?pw = to_hex (en_hmac_md5 env (cred_key c) ch))
      (so_smtp_credentials_for_server so st (srv_id srv))"
  show thesis
  proof (cases "so_find_server_by_permalinks so st (fst ?pl) (snd ?pl)")
    case None
    then show thesis by (intro denied) (simp add: auth_cram_md5_continue_def Let_def)
  next
    case srv: (Some srv)
    show thesis
    proof (cases "?find srv")
      case None
      with srv show thesis by (intro denied) (simp add: auth_cram_md5_continue_def Let_def)
    next
      case (Some c)
      with srv find_SomeD [OF Some] show thesis
        by (intro granted [of c "srv_id srv"]) (simp_all add: auth_cram_md5_continue_def Let_def)
    qed
  qed
qed

lemma keep_sink_Inr_iff [simp]:
  "keep_sink snk m = Inr (s, st, snk', r) \<longleftrightarrow> m = Inr (s, st, r) \<and> snk' = snk"
  by (cases m) (auto simp: keep_sink_def)

lemma with_store_Inr_iff [simp]:
  "with_store st p = Inr (s, st', r) \<longleftrightarrow> p = (s, r) \<and> st' = st"
  by (cases p) (auto simp: with_store_def)

lemma handle_cases:
  assumes "handle env so sk s st snk line = Inr (s', st', snk', r)"
  obtains s1 where
    "dispatch env so sk (s\<lparr>s_cr_present := suffix [CR] line\<rparr>) st snk
       (if suffix [CR] line then butlast line else line) = Inr (s1, st', snk', r)"
    "s' = s1\<lparr>s_previous_cr_present := Some (s_cr_present s1)\<rparr>"
  using assms unfolding handle_def Let_def bind_rust_Inr_iff by auto

lemma rcpt_to_cases:
  assumes "rcpt_to env so s st data = Inr (s', st', r)"
  obtains (refused) "s' = s" "st' = st"
  | (return_path) rcpt u where "s_state s \<in> {MailFromReceived, RcptToReceived}" "st' = st"
      "(s', r) = rcpt_return_path so (s\<lparr>s_state := RcptToReceived\<rparr>) st rcpt u"
  | (route_token) u t where "s_state s \<in> {MailFromReceived, RcptToReceived}" "st' = st"
      "(s', r) = rcpt_route_token so (s\<lparr>s_state := RcptToReceived\<rparr>) st u t"
  | (outgoing) rcpt c where "s_state s \<in> {MailFromReceived, RcptToReceived}" "st' = st"
      "s_credential s = Some c"
      "(s', r) = rcpt_outgoing so (s\<lparr>s_state := RcptToReceived\<rparr>) st rcpt c"
  | (incoming) rcpt rr u d where "s_state s \<in> {MailFromReceived, RcptToReceived}" "st' = st"
      "so_find_route_by_name_and_domain so st u d = Some rr"
      "(s', r) = rcpt_incoming (s\<lparr>s_state := RcptToReceived\<rparr>) rcpt rr"
  | (by_ip) a c where "s_state s \<in> {MailFromReceived, RcptToReceived}" "s_credential s = None"
      "so_find_ip_credential so st a = Some c"
      "rcpt_to env so (s\<lparr>s_credential := Some c\<rparr>) (so_record_credential_use so st (cred_id c)) data
         = Inr (s', st', r)"
proof (cases "s_state s \<in> {MailFromReceived, RcptToReceived}")
  case False
  then have "rcpt_to env so s st data = Inr (s, st, Line ''503 EHLO/HELO and MAIL FROM first please'')"
    by (simp add: rcpt_to.simps [of env so s])
  with assms show thesis by (intro refused) simp_all
next
  case st_ok: True
  then have guard: "(s_state s \<notin> {MailFromReceived, RcptToReceived}) = False" by simp
  show thesis
  proof (cases "extract_address data ''RCPT TO''")
    case (Inl e)
    with assms [unfolded rcpt_to.simps [of env so s] guard if_False] show thesis by simp
  next
    case rcpt: (Inr rcpt)
    note eq = assms [unfolded rcpt_to.simps [of env so s] guard if_False rcpt bind_rust_simps]
    show thesis
    proof (cases "rcpt = [] \<or> rcpt_parts rcpt = None")
      case True
      with eq st_ok show thesis by (intro refused) (auto split: if_splits)
    next
      case False
      then obtain u t d where ld: "rcpt \<noteq> []" "rcpt_parts rcpt = Some (u, t, d)" by auto
      let ?ip = "Option.bind (Option.bind (s_ip_address s) (en_ip_parse env)) (so_find_ip_credential so st)"
      consider (rp) "is_return_path env s d"
        | (rt) "\<not> is_return_path env s d" "d = cf_route_domain (s_config s)"
        | (out) c where "\<not> is_return_path env s d" "d \<noteq> cf_route_domain (s_config s)"
            "s_credential s = Some c"
        | (inc) rr where "\<not> is_return_path env s d" "d \<noteq> cf_route_domain (s_config s)"
            "s_credential s = None" "so_find_route_by_name_and_domain so st u d = Some rr"
        | (ip) c where "\<not> is_return_path env s d" "d \<noteq> cf_route_domain (s_config s)"
            "s_credential s = None" "so_find_route_by_name_and_domain so st u d = None" "?ip = Some c"
        | (no) "\<not> is_return_path env s d" "d \<noteq> cf_route_domain (s_config s)"
            "s_credential s = None" "so_find_route_by_name_and_domain so st u d = None" "?ip = None"
        by (cases "s_credential s"; cases "so_find_route_by_name_and_domain so st u d"; cases ?ip) blast+
      then show thesis
      proof cases
        case rp
        with eq st_ok ld show thesis
          by (intro return_path [of rcpt u]) (auto simp: Let_def case_prod_beta prod_eq_iff)
      next
        case rt
        with eq st_ok ld show thesis
          by (intro route_token [of u t]) (auto simp: Let_def case_prod_beta prod_eq_iff)
      next
        case (out c)
        with eq st_ok ld show thesis
          by (intro outgoing [of c rcpt]) (auto simp: Let_def case_prod_beta prod_eq_iff)
      next
        case (inc rr)
        with eq st_ok ld show thesis
          by (intro incoming [of u d rr rcpt]) (auto simp: Let_def case_prod_beta prod_eq_iff)
      next
        case (ip c)
        then obtain a where "so_find_ip_credential so st a = Some c" by (auto simp: bind_eq_Some_conv)
        with ip eq st_ok ld show thesis
          by (intro by_ip [of a c]) (simp_all add: Let_def)
      next
        case no
        with eq st_ok ld show thesis by (intro refused) (simp_all add: Let_def)
      qed
    qed
  qed
qed

section \<open>Commands that use the store\<close>

context smtp_store
begin

lemma grant_ok:
  "session_ok s \<Longrightarrow> invar st \<Longrightarrow> cred_type c = Smtp \<Longrightarrow> auth_permitted s \<Longrightarrow>
   grant ops s st c = (s', st', r) \<Longrightarrow> session_ok s' \<and> invar st'"
  by (auto simp: grant_def Let_def credential_set_ok record_use_invar)

lemma authenticate_ok:
  "session_ok s \<Longrightarrow> invar st \<Longrightarrow> auth_permitted s \<Longrightarrow>
   authenticate ops s st key = (s', st', r) \<Longrightarrow> session_ok s' \<and> invar st'"
  by (cases "so_find_smtp_credential_by_key ops st key")
     (auto simp: authenticate_def dest: smtp_by_key grant_ok [rotated 4])

lemma auth_continue_ok:
  assumes "session_ok s" "invar st" "auth_permitted s"
  shows "auth_plain_continue env ops s st data = (s', st', r) \<Longrightarrow> session_ok s' \<and> invar st'"
    and "auth_login_password env ops s st data = (s', st', r) \<Longrightarrow> session_ok s' \<and> invar st'"
    and "auth_cram_md5_continue env ops s st data ch = (s', st', r) \<Longrightarrow> session_ok s' \<and> invar st'"
proof -
  let ?s = "s\<lparr>s_input_mode := Command\<rparr>"
  have ok: "session_ok ?s" "auth_permitted ?s"
    using assms by (simp_all add: command_mode_ok auth_permitted_def)
  note auth = authenticate_ok [OF ok(1) assms(2) ok(2)]
  show "session_ok s' \<and> invar st'" if "auth_plain_continue env ops s st data = (s', st', r)"
    using that auth ok(1) assms(2) by (auto simp: auth_plain_continue_def Let_def split: if_splits)
  show "session_ok s' \<and> invar st'" if "auth_login_password env ops s st data = (s', st', r)"
    using that auth by (auto simp: auth_login_password_def)
  show "session_ok s' \<and> invar st'" if "auth_cram_md5_continue env ops s st data ch = (s', st', r)"
  proof (cases rule: auth_cram_md5_continue_cases [of env ops s st data ch])
    case denied
    with that ok(1) assms(2) show ?thesis by auto
  next
    case (granted c i)
    with smtp_for_server [OF assms(2)] have "cred_type c = Smtp" by blast
    from grant_ok [OF ok(1) assms(2) this ok(2), of s' st' r] granted(2) that show ?thesis by simp
  qed
qed

lemma auth_plain_ok:
  assumes "session_ok s" "invar st" "auth_permitted s" "auth_plain env ops s st data = Inr (s', st', r)"
  shows "session_ok s' \<and> invar st'"
proof -
  from assms(4) have "s' = s\<lparr>s_input_mode := AuthPlain\<rparr> \<and> st' = st
      \<or> (\<exists>rest. auth_plain_continue env ops s st rest = (s', st', r))"
    by (auto simp: auth_plain_def bind_rust_Inr_iff Let_def split: if_splits)
  then show ?thesis
    using assms(1-3) auth_continue_ok(1) [OF assms(1-3)] by (auto simp: auth_mode_ok)
qed

lemma auth_command_ok:
  assumes "session_ok s" "invar st" "auth_command env ops s st upper data = Inr (s', st', r)"
  shows "session_ok s' \<and> invar st'"
proof (cases "auth_permitted s")
  case True
  show ?thesis
    using assms(3) unfolding auth_command_def
    using auth_plain_ok [OF assms(1,2) True] assms(1,2) True
    by (auto simp: auth_cram_md5_def Let_def bind_rust_Inr_iff auth_mode_ok dest: auth_login_ok
        split: if_splits)
next
  case False
  with assms show ?thesis by (simp add: auth_command_def)
qed

lemma rcpt_to_ok:
  "session_ok s \<Longrightarrow> invar st \<Longrightarrow> rcpt_to env ops s st data = Inr (s', st', r) \<Longrightarrow>
   session_ok s' \<and> invar st'"
proof (induction "if s_credential s = None then 1 else 0 :: nat" arbitrary: s st rule: less_induct)
  case less
  let ?s = "s\<lparr>s_state := RcptToReceived\<rparr>"
  from less.prems(3) show ?case
  proof (cases rule: rcpt_to_cases)
    case refused
    with less.prems show ?thesis by simp
  next
    case (return_path rcpt u)
    then have "s' = fst (rcpt_return_path ops ?s st rcpt u)" by (metis fst_conv)
    with return_path less.prems show ?thesis by (simp add: rcpt_return_path_ok rcpt_state_ok)
  next
    case (route_token u t)
    then have "s' = fst (rcpt_route_token ops ?s st u t)" by (metis fst_conv)
    with route_token less.prems show ?thesis by (simp add: rcpt_route_token_ok rcpt_state_ok)
  next
    case (outgoing rcpt c)
    then have "s' = fst (rcpt_outgoing ops ?s st rcpt c)" by (metis fst_conv)
    with outgoing less.prems show ?thesis by (simp add: rcpt_outgoing_ok rcpt_state_ok)
  next
    case (incoming rcpt rr u d)
    then have "s' = fst (rcpt_incoming ?s rcpt rr)" by (metis fst_conv)
    with incoming less.prems show ?thesis by (simp add: rcpt_incoming_ok rcpt_state_ok)
  next
    case (by_ip a c)
    then show ?thesis
      using less.prems ip_cred record_use_invar
      by (intro less.hyps [OF _ _ _ by_ip(4)]) (auto simp: credential_set_ok)
  qed
qed

lemma handle_command_ok:
  assumes "session_ok s" "invar st" "s_input_mode s \<noteq> DataMode"
    and "handle_command env ops s st data = Inr (s', st', r)"
  shows "session_ok s' \<and> invar st'"
proof -
  note simple = simple_commands_ok [OF assms(1,3)] data_command_ok [OF assms(1), of env ops st]
  show ?thesis
    using assms(4) simple assms(1,2)
    unfolding handle_command_def Let_def with_store_def
    by (auto split: if_split_asm simp: bind_rust_Inr_iff
        intro: mail_from_ok [OF assms(1,3)]
        dest: auth_command_ok [OF assms(1,2)] rcpt_to_ok [OF assms(1,2)])
qed

lemma dispatch_ok:
  assumes "session_ok s" "invar st" "dispatch env ops sk s st snk data = Inr (s', st', snk', r)"
  shows "session_ok s' \<and> invar st'"
proof (cases "s_state s = Preauth")
  case True
  with assms proxy_ok [of s data] show ?thesis by (auto simp: dispatch_def)
next
  case False
  note d = assms(3) [unfolded dispatch_def]
  show ?thesis
  proof (cases "s_input_mode s")
    case Command
    with d False handle_command_ok [OF assms(1,2), of env data s' st' r] show ?thesis by simp
  next
    case AuthPlain
    with assms(1) have "auth_permitted s" by (simp add: session_ok_def)
    from AuthPlain d False auth_continue_ok(1) [OF assms(1,2) this, of env data s' st' r]
    show ?thesis by simp
  next
    case AuthLoginUsername
    with assms(1) have "auth_permitted s" by (simp add: session_ok_def)
    with AuthLoginUsername assms(1,2) d False show ?thesis
      by (auto simp: auth_login_username_def auth_mode_ok)
  next
    case AuthLoginPassword
    with assms(1) have "auth_permitted s" by (simp add: session_ok_def)
    from AuthLoginPassword d False auth_continue_ok(2) [OF assms(1,2) this, of env data s' st' r]
    show ?thesis by simp
  next
    case (AuthCramMd5 ch)
    with assms(1) have "auth_permitted s" by (simp add: session_ok_def)
    from AuthCramMd5 d False auth_continue_ok(3) [OF assms(1,2) this, of env data ch s' st' r]
    show ?thesis by simp
  next
    case DataMode
    with d False have "data_line env ops sk s st snk data = Inr (s', snk', r)" "st' = st"
      by (auto simp: bind_rust_Inr_iff)
    with data_line_ok [OF assms(1)] assms(2) show ?thesis by simp
  qed
qed

lemma handle_ok:
  assumes "session_ok s" "invar st" "handle env ops sk s st snk line = Inr (s', st', snk', r)"
  shows "session_ok s' \<and> invar st'"
  using assms(3)
proof (cases rule: handle_cases)
  case (1 s1)
  from dispatch_ok [OF _ assms(2) 1(1)] assms(1) 1(2) show ?thesis by simp
qed

end

section \<open>Reachable sessions\<close>

text \<open>
  One connection: it starts with a new session and sees a sequence of lines.
  Between two lines the store and the sink may be changed by other connections
  and by the API (any store that satisfies its invariant, any sink), and the
  server may record the TLS handshake, the client's host name or an SPF verdict.
  \<open>S\<close> holds the stores the calls may see: the in-memory store reads the clock,
  so it is one operation record per instant.
\<close>

inductive session_reach :: "'st store_ops set \<Rightarrow> ('st \<Rightarrow> bool) \<Rightarrow> 'sk sink_ops \<Rightarrow> session \<Rightarrow> bool"
  for S :: "'st store_ops set" and I :: "'st \<Rightarrow> bool" and sk :: "'sk sink_ops" where
  connect: "session_reach S I sk (session_new to_ascii config trace ip)"
| line: "session_reach S I sk s \<Longrightarrow> so \<in> S \<Longrightarrow> I st \<Longrightarrow>
     handle env so sk s st snk l = Inr (s', st', snk', r) \<Longrightarrow> session_reach S I sk s'"
| upgraded: "session_reach S I sk s \<Longrightarrow> session_reach S I sk (set_tls (fst (take_start_tls s)) True)"
| resolved: "session_reach S I sk s \<Longrightarrow> session_reach S I sk (s\<lparr>s_resolved_hostname := Some h\<rparr>)"
| spf: "session_reach S I sk s \<Longrightarrow> session_reach S I sk (set_received_spf s v)"

definition stores :: "'st store_ops set \<Rightarrow> ('st \<Rightarrow> bool) \<Rightarrow> bool" where
  "stores S I \<longleftrightarrow> (\<forall>so \<in> S. smtp_store so I)"

lemma stores_memory: "stores (range (memory_store_ops ip)) wf_store"
  unfolding stores_def using memst.smtp_store_axioms by blast

lemma reach_ok: "session_reach S I sk s \<Longrightarrow> stores S I \<Longrightarrow> session_ok s"
proof (induction rule: session_reach.induct)
  case (line s so st env snk l s' st' snk' r)
  then have "smtp_store so I" by (simp add: stores_def)
  from smtp_store.handle_ok [OF this] line show ?case by (metis (full_types))
qed (auto simp: session_ok_new take_start_tls_def set_tls_def set_received_spf_def tls_ok)

section \<open>Panics\<close>

lemma strip_prefix_ci_total:
  assumes "utf8_valid line" "prefix pre (to_ascii_uppercase line)" "prefix l line"
    and "list_all (\<lambda>c. byte c < 128) pre"
  shows "returns (strip_prefix_ci l pre)"
proof (cases "length pre \<le> length l")
  case True
  have "take (length pre) (to_ascii_uppercase line) = pre"
    using assms(2) by (auto simp: prefix_def)
  with assms(4) have "list_all (\<lambda>c. byte c < 128) (map upper_c (take (length pre) line))"
    by (simp add: to_ascii_uppercase_def take_map)
  then have "list_all (\<lambda>c. byte c < 128) (take (length pre) line)"
    by (simp add: list_all_iff)
  from slice_to_after_ascii [OF assms(1) True assms(3) this] show ?thesis
    by (auto simp: strip_prefix_ci_def)
qed (simp add: strip_prefix_ci_def)

lemma rcpt_to_total:
  assumes "returns (extract_address data ''RCPT TO'')"
  shows "returns (rcpt_to env so s st data)"
proof (induction "if s_credential s = None then 1 else 0 :: nat" arbitrary: s st rule: less_induct)
  case less
  show ?case
    unfolding rcpt_to.simps [of env so s]
    using assms by (simp add: Let_def less split: option.split)
qed

lemma handle_command_total:
  assumes "utf8_valid line" "prefix data line" "\<not> starts_with_ws line"
  shows "returns (handle_command env so s st data)"
proof -
  let ?upper = "to_ascii_uppercase (trim_start data)"
  have "trim_start data = data"
    using starts_with_ws_prefix [OF assms(2)] assms(3) trim_start_no_ws by blast
  moreover have "prefix (to_ascii_uppercase data) (to_ascii_uppercase line)"
    using assms(2) by (auto simp: prefix_def to_ascii_uppercase_def)
  ultimately have strip: "returns (strip_prefix_ci l pre)"
    if "prefix pre ?upper" "list_all (\<lambda>c. byte c < 128) pre" "prefix l data" for pre l
    using strip_prefix_ci_total [OF assms(1)] that assms(2) by (metis prefix_order.trans)
  have "returns (mail_from_command s data)" if "prefix ''MAIL FROM'' ?upper"
  proof -
    have "prefix (case find_sub ''AUTH='' data of Some p \<Rightarrow> trim_end (take p data) | None \<Rightarrow> data) data"
      by (auto split: option.split intro: prefix_order.trans [OF trim_end_prefix] take_is_prefix)
    from strip [OF that _ this] show ?thesis
      by (simp add: mail_from_command_def extract_address_def Let_def)
  qed
  moreover have "returns (rcpt_to env so s st data)" if "prefix ''RCPT TO'' ?upper"
    using strip [OF that, of data] by (simp add: rcpt_to_total extract_address_def Let_def)
  moreover have "returns (auth_command env so s st ?upper data)"
    using strip [of "''AUTH PLAIN''" data] strip [of "''AUTH LOGIN''" data]
    by (simp add: auth_command_def auth_plain_def auth_login_def Let_def case_prod_beta)
  ultimately show ?thesis
    by (simp add: handle_command_def Let_def with_store_def)
qed

lemma dispatch_total:
  assumes "session_ok s" "utf8_valid line" "prefix data line" "\<not> starts_with_ws line"
  shows "returns (dispatch env so sk s st snk data)"
  using handle_command_total [OF assms(2-4), of env so s st]
    data_line_total [OF assms(1), of env so sk st snk data]
  by (simp add: dispatch_def keep_sink_def with_store_def case_prod_beta split: input_mode.split)

lemma handle_total:
  assumes "session_ok s" "utf8_valid line" "\<not> starts_with_ws line"
  shows "returns (handle env so sk s st snk line)"
  using assms dispatch_total [of "s\<lparr>s_cr_present := suffix [CR] line\<rparr>" line "butlast line" env so sk st snk]
    dispatch_total [of "s\<lparr>s_cr_present := suffix [CR] line\<rparr>" line line env so sk st snk]
  by (cases "suffix [CR] line") (simp_all add: handle_def Let_def case_prod_beta prefixeq_butlast)

end
