(* ===== verification/Smtp_Demo.thy ===== *)
theory Smtp_Demo
  imports Smtp_Invariant
begin

text \<open>
  A run of the SMTP session on the in-memory store and sink, evaluated line by
  line: an authenticated submission of one message. It instantiates the
  theorems of \<open>Smtp_Delivery\<close>.
\<close>

definition demo_config :: session_config where
  "demo_config =
     \<lparr>cf_smtp_hostname = ''mx'', cf_tls_enabled = False, cf_auth_requires_tls = True,
      cf_max_message_size = 14, cf_return_path_domain = ''rp.io'', cf_custom_return_path_prefix = ''psrp'',
      cf_route_domain = ''rt.io''\<rparr>"

definition demo_smtp_env :: smtp_env where
  "demo_smtp_env =
     \<lparr>en_b64_decode = (\<lambda>s. if s = ''AHUAaw=='' then Some [NUL, CHR ''u'', NUL, CHR ''k''] else None),
      en_b64_encode = (\<lambda>s. s), en_hmac_md5 = (\<lambda>k m. k), en_sha256 = (\<lambda>m. m), en_domain_to_ascii = Some,
      en_lc = to_ascii_lowercase, en_ip_parse = (\<lambda>s. None), en_now = 1000, en_clock = 1000,
      en_rfc2822 = (\<lambda>t. ''now''), en_challenge = ''c''\<rparr>"

definition demo_srv :: server where
  "demo_srv = demo_server 1 9"

definition demo_cred :: credential where
  "demo_cred = demo_credential 7 Smtp ''k''"

definition demo_mem :: memory_store where
  "demo_mem = insert_credential (insert_domain (insert_server
     (insert_organization memory_store_new demo_org) demo_srv) demo_domain) demo_cred"

definition demo_mem2 :: memory_store where
  "demo_mem2 = mem_record_credential_use demo_env demo_mem 7"

abbreviation demo_so :: "memory_store store_ops" where
  "demo_so \<equiv> memory_store_ops demo_ip_ops demo_env"

definition demo_rcpt :: recipient where
  "demo_rcpt = \<lparr>rc_kind = KCredential, rc_rcpt_to = ''b@y.io'', rc_server = demo_srv, rc_route = None\<rparr>"

definition demo_session :: "credential option \<Rightarrow> state \<Rightarrow> string option \<Rightarrow> recipient list \<Rightarrow> session" where
  "demo_session c q mf rs =
     (session_new Some demo_config ''t'' (Some ''1.1.1.1''))
       \<lparr>s_helo_name := Some ''h'', s_credential := c, s_state := q, s_mail_from := mf, s_recipients := rs,
        s_cr_present := True, s_previous_cr_present := Some True\<rparr>"

definition demo_trace :: string where
  "demo_trace = ''X-Envelope-From: <a@x.io>'' @ crlf
     @ ''Received: from h (1.1.1.1 [1.1.1.1]) by mx with SMTP; now'' @ crlf"

definition demo_trace_headers :: header_map where
  "demo_trace_headers =
     [(''x-envelope-from'', [''<a@x.io>'']),
      (''received'', [''from h (1.1.1.1 [1.1.1.1]) by mx with SMTP; now''])]"

definition demo_receiving :: "string option \<Rightarrow> bytes \<Rightarrow> header_map \<Rightarrow> session" where
  "demo_receiving key data hs =
     (demo_session (Some demo_cred) RcptToReceived (Some ''a@x.io'') [demo_rcpt])
       \<lparr>s_receiving_headers := True, s_header_key := key, s_client_data_offset := length demo_trace,
        s_data := Some data, s_headers := Some hs, s_input_mode := DataMode\<rparr>"

definition demo_data :: session where
  "demo_data = demo_receiving (Some ''From'') (demo_trace @ ''From: a@x.io'' @ crlf)
     (demo_trace_headers @ [(''from'', [''a@x.io''])])"

lemmas handle_eval =
  handle_def Let_def dispatch_def handle_command_def keep_sink_def with_store_def trim_eval ascii_eval
  search_eval

lemma demo_normal:
  "normalize_dns_domain_name Some ''rp.io'' = Some ''rp.io''"
  "normalize_dns_domain_name Some ''y.io'' = Some ''y.io''"
  by (simp_all add: normalize_dns_domain_name_def bad_label_def trim_eval ascii_eval search_eval
      trim_end_matches_def)

lemmas demo_mem_eval =
  demo_mem2_def mem_record_credential_use_def demo_mem_def insert_credential_def insert_domain_def
  insert_server_def insert_organization_def al_values_def memory_store_new_def demo_srv_def
  demo_server_def demo_org_def demo_domain_def demo_cred_def demo_credential_def

lemma demo_found: "mem_find_smtp_credential_by_key demo_mem ''k'' = Some demo_cred"
  by (simp add: mem_find_smtp_credential_by_key_def demo_mem_eval)

lemma demo_tables:
  "map_of (st_servers demo_mem2) (Suc 0) = Some demo_srv"
  "map_of (st_organizations demo_mem2) 9 = Some demo_org"
  "st_organization_policies demo_mem2 = []" "al_values (st_domains demo_mem2) = [demo_domain]"
  by (simp_all add: demo_mem_eval)

lemma demo_ids:
  "cred_id demo_cred = 7" "cred_server_id demo_cred = Suc 0" "cred_type demo_cred = Smtp"
  "srv_organization_id demo_srv = 9" "srv_permalink demo_srv = ''p''" "org_permalink demo_org = ''o''"
  "srv_id demo_srv = Suc 0" "srv_suspended demo_srv = False" "srv_send_limit demo_srv = None"
  "srv_privacy_mode demo_srv = False" "srv_allow_sender demo_srv = False"
  "dom_verified demo_domain = True" "dom_name demo_domain = ''x.io''" "dom_id demo_domain = 5"
  "dom_owner demo_domain = OwnerServer (Suc 0)"
  by (simp_all add: demo_mem_eval)

lemmas demo_eval =
  demo_session_def session_new_def demo_config_def demo_normal demo_tables demo_ids

abbreviation demo_handle :: "session \<Rightarrow> memory_store \<Rightarrow> string
    \<Rightarrow> (session \<times> memory_store \<times> memory_sink \<times> reply) rust" where
  "demo_handle s st line \<equiv>
     handle demo_smtp_env demo_so memory_sink_ops s st memory_sink_new (line @ [CR])"

lemma demo_helo:
  "demo_handle (session_new Some demo_config ''t'' (Some ''1.1.1.1'')) demo_mem ''HELO h''
   = Inr (demo_session None Welcomed None [], demo_mem, memory_sink_new, Line ''250 mx'')"
  by (simp add: handle_eval demo_eval helo_def set_helo_def transaction_reset_def)

lemma demo_auth:
  "demo_handle (demo_session None Welcomed None []) demo_mem ''AUTH PLAIN AHUAaw==''
   = Inr (demo_session (Some demo_cred) Welcomed None [], demo_mem2, memory_sink_new,
          Line ''235 Granted for o/p'')"
  by (simp add: handle_eval demo_eval auth_command_def auth_permitted_def auth_plain_def
      strip_prefix_ci_def auth_plain_continue_def decode64_lenient_def demo_smtp_env_def authenticate_def
      memory_store_ops_def demo_found grant_def grant_message_def demo_mem2_def [symmetric])

lemma demo_mail:
  "demo_handle (demo_session (Some demo_cred) Welcomed None []) demo_mem2 ''MAIL FROM:<a@x.io>''
   = Inr (demo_session (Some demo_cred) MailFromReceived (Some ''a@x.io'') [], demo_mem2,
          memory_sink_new, Line ''250 OK'')"
  by (simp add: handle_eval demo_eval mail_from_command_def extract_address_def strip_prefix_ci_def
      transaction_reset_def)

lemma demo_rcpt_to:
  "demo_handle (demo_session (Some demo_cred) MailFromReceived (Some ''a@x.io'') []) demo_mem2
     ''RCPT TO:<b@y.io>''
   = Inr (demo_session (Some demo_cred) RcptToReceived (Some ''a@x.io'') [demo_rcpt], demo_mem2,
          memory_sink_new, Line ''250 OK'')"
  by (simp add: handle_eval demo_eval rcpt_to.simps extract_address_def strip_prefix_ci_def
      rcpt_parts_def is_return_path_def demo_smtp_env_def rcpt_outgoing_def memory_store_ops_def
      mem_send_policy_for_organization_def default_policy_def push_recipient_def demo_rcpt_def)

lemma demo_data_command:
  "demo_handle (demo_session (Some demo_cred) RcptToReceived (Some ''a@x.io'') [demo_rcpt]) demo_mem2 ''DATA''
   = Inr (demo_receiving None demo_trace demo_trace_headers, demo_mem2, memory_sink_new,
          Line ''354 Go ahead'')"
  by (simp add: handle_eval demo_eval data_command_def trace_data_def trace_headers_def envelope_header_def
      trace_received_def credential_server_def received_header_def method_as_str_def demo_smtp_env_def
      memory_store_ops_def demo_receiving_def demo_trace_def demo_trace_headers_def)

lemma demo_from:
  "demo_handle (demo_receiving None demo_trace demo_trace_headers) demo_mem2 ''From: a@x.io''
   = Inr (demo_data, demo_mem2, memory_sink_new, NoReply)"
  by (simp add: handle_eval demo_eval demo_data_def demo_receiving_def data_line_def receive_line_def
      unstuff_def receive_header_line_def split_header_def push_header_def header_values_def
      demo_trace_headers_def demo_smtp_env_def)

definition demo_message :: queued_message where
  "demo_message =
     \<lparr>qm_server_id = 1, qm_rcpt_to = ''b@y.io'', qm_mail_from = ''a@x.io'',
      qm_raw_message = demo_trace @ ''From: a@x.io'' @ crlf, qm_received_with_ssl = False,
      qm_scope = Outgoing, qm_bounce = False, qm_domain_id = Some 5, qm_credential_id = Some 7,
      qm_route_id = None, qm_tag = None, qm_metadata = None, qm_stream_id = None\<rparr>"

lemma demo_authenticated: "mem_find_authenticated_domain demo_mem2 (Suc 0) [''a@x.io''] = Some 5"
  by (simp add: mem_find_authenticated_domain_def demo_tables domain_for_address_def demo_ids owned_by_def
      strip_name_from_address_def trim_eval search_eval)

lemma demo_end:
  "demo_handle demo_data demo_mem2 ''.''
   = Inr (demo_session (Some demo_cred) Welcomed None []
            \<lparr>s_receiving_headers := True, s_header_key := Some ''From''\<rparr>,
          demo_mem2, mem_queue_message memory_sink_new demo_message, Line ''250 OK'')"
  by (simp add: handle_eval demo_eval demo_data_def demo_receiving_def data_line_def finish_data_def
      too_large_def received_by_us_def demo_trace_def demo_trace_headers_def header_values_def
      authorize_from_def authenticated_domain_def memory_store_ops_def demo_authenticated
      idempotency_key_def IDEMPOTENCY_HEADER_def store_data_def demo_rcpt_def queued_for_def queued_base_def
      data_allowance_def credential_server_def mem_send_policy_for_organization_def default_policy_def
      stricter_def remaining_def unlimited_def queue_outcome_of_def allows_def data_reply_def
      welcomed_def transaction_reset_def demo_message_def)

section \<open>The run is reachable\<close>

definition demo_stores :: "memory_store store_ops set" where
  "demo_stores = range (memory_store_ops demo_ip_ops)"

lemma demo_stores_ok: "stores demo_stores wf_store"
  unfolding demo_stores_def by (rule stores_memory)

lemma demo_so_in: "demo_so \<in> demo_stores"
  by (simp add: demo_stores_def)

lemma demo_wf: "wf_store demo_mem" "wf_store demo_mem2"
proof -
  show "wf_store demo_mem" by (simp add: demo_mem_def wf_store_config_ops)
  from memst.record_use_invar [OF this, of demo_ip_ops demo_env 7] show "wf_store demo_mem2"
    by (simp add: demo_mem2_def memory_store_ops_def)
qed

lemma demo_reach:
  "session_reach demo_stores wf_store memory_sink_ops
     (demo_session (Some demo_cred) RcptToReceived (Some ''a@x.io'') [demo_rcpt])"
  "session_reach demo_stores wf_store memory_sink_ops demo_data"
proof -
  note step = session_reach.line [OF _ demo_so_in]
  note start = session_reach.connect [of demo_stores wf_store memory_sink_ops Some demo_config "''t''"
      "Some ''1.1.1.1''"]
  note helo = step [OF start demo_wf(1) demo_helo]
  note auth = step [OF helo demo_wf(1) demo_auth]
  note mail = step [OF auth demo_wf(2) demo_mail]
  note rcpt = step [OF mail demo_wf(2) demo_rcpt_to]
  note data = step [OF rcpt demo_wf(2) demo_data_command]
  show "session_reach demo_stores wf_store memory_sink_ops
     (demo_session (Some demo_cred) RcptToReceived (Some ''a@x.io'') [demo_rcpt])" by (rule rcpt)
  show "session_reach demo_stores wf_store memory_sink_ops demo_data"
    by (rule step [OF data demo_wf(2) demo_from])
qed

end
