(* ===== verification/Pg_Sink.thy ===== *)
theory Pg_Sink
  imports Message_Sink
begin

text \<open>
  The intake of the PostgreSQL storage: \<open>PgMessageSink\<close> as a \<open>MessageSink\<close>
  (\<open>db/pg_store.rs\<close>), which the SMTP server runs on. Each call of the database may fail, and
  a failed commit may or may not have taken effect. A single message whose insert fails is
  logged and dropped.
\<close>

record pg_sink =
  pgk_messages :: "queued_message list"
  pgk_idempotency_requests :: "((Id \<times> string) \<times> idem_claim) list"
  pgk_calls :: nat

text \<open>The error of a call, with whether the transaction was committed all the same.\<close>

type_synonym pg_errors = "nat \<Rightarrow> (bool \<times> string) option"

definition pg_insert :: "queued_message list \<Rightarrow> pg_sink \<Rightarrow> pg_sink" where
  "pg_insert ms s = s\<lparr>pgk_messages := pgk_messages s @ ms\<rparr>"

definition pg_queue_message :: "pg_errors \<Rightarrow> pg_sink \<Rightarrow> queued_message \<Rightarrow> pg_sink" where
  "pg_queue_message err s m =
     (let s1 = s\<lparr>pgk_calls := pgk_calls s + 1\<rparr> in
      case err (pgk_calls s) of
        None \<Rightarrow> pg_insert [m] s1
      | Some (applied, _) \<Rightarrow> if applied then pg_insert [m] s1 else s1)"

definition claim_outcome :: "idempotency_request \<Rightarrow> idem_claim \<Rightarrow> queue_outcome" where
  "claim_outcome request c =
     (case c of (request_hash, operation, _) \<Rightarrow>
        if request_hash \<noteq> ir_request_hash request \<or> operation \<noteq> ir_operation request then Conflict else Replayed)"

definition live_request :: "instant \<Rightarrow> Id \<Rightarrow> idempotency_request \<Rightarrow> pg_sink \<Rightarrow> idem_claim option" where
  "live_request now server_id request s =
     (case map_of (pgk_idempotency_requests s) (server_id, ir_key_hash request) of
        None \<Rightarrow> None
      | Some (h, op, expires_at) \<Rightarrow> if expires_at > now then Some (h, op, expires_at) else None)"

text \<open>\<open>idempotency_lookup\<close>; \<open>None\<close> is \<open>New\<close>.\<close>

definition pg_idempotency_lookup :: "pg_errors \<Rightarrow> instant \<Rightarrow> Id \<Rightarrow> idempotency_request \<Rightarrow> pg_sink
    \<Rightarrow> pg_sink \<times> (string + queue_outcome option)" where
  "pg_idempotency_lookup err now server_id request s =
     (s\<lparr>pgk_calls := pgk_calls s + 1\<rparr>,
      case err (pgk_calls s) of
        Some (_, e) \<Rightarrow> Inl e
      | None \<Rightarrow> Inr (map_option (claim_outcome request) (live_request now server_id request s)))"

text \<open>
  \<open>store_send_operation\<close> with a plan of messages: one transaction. That another transaction
  inserts the same key in between is not modelled; the transactions run one after the other.
  An error ends the transaction at any of its statements; only at the commit may it have
  taken effect.
\<close>

definition store_send_operation :: "pg_errors \<Rightarrow> instant \<Rightarrow> Id \<Rightarrow> queued_message list \<Rightarrow> idempotency_request option
    \<Rightarrow> pg_sink \<Rightarrow> pg_sink \<times> (string + queue_outcome)" where
  "store_send_operation err now server_id ms idempotency s =
     (let s1 = s\<lparr>pgk_calls := pgk_calls s + 1\<rparr>;
          stored = pg_insert ms
            (case idempotency of
               None \<Rightarrow> s1
             | Some request \<Rightarrow>
                 (let k = (server_id, ir_key_hash request) in
                  s1\<lparr>pgk_idempotency_requests :=
                       al_insert k (ir_request_hash request, ir_operation request, ir_expires_at request)
                         (al_remove k (pgk_idempotency_requests s1))\<rparr>));
          known = Option.bind idempotency (\<lambda>request. map_option (claim_outcome request) (live_request now server_id request s));
          crossed = list_ex (\<lambda>m. qm_server_id m \<noteq> server_id) ms
      in case err (pgk_calls s) of
           Some (applied, e) \<Rightarrow> (if applied \<and> known = None \<and> \<not> crossed then stored else s1, Inl e)
         | None \<Rightarrow>
             (case known of
                Some outcome \<Rightarrow> (s1, Inr outcome)
              | None \<Rightarrow> if crossed then (s1, Inl ''send operation crossed server boundary'') else (stored, Inr Stored)))"

definition pg_queue_messages :: "pg_errors \<Rightarrow> instant \<Rightarrow> pg_sink \<Rightarrow> queued_message list \<Rightarrow> idempotency_request option
    \<Rightarrow> send_allowance \<Rightarrow> pg_sink \<times> queue_outcome" where
  "pg_queue_messages err now s messages idempotency allowance =
     (case messages of
        [] \<Rightarrow> (s, Stored)
      | m # _ \<Rightarrow>
          if \<not> allows allowance (outgoing_count messages) then
            (case idempotency of
               None \<Rightarrow> (s, LimitExceeded (rejection_message allowance))
             | Some request \<Rightarrow>
                 (case pg_idempotency_lookup err now (qm_server_id m) request s of
                    (s', Inr (Some outcome)) \<Rightarrow> (s', outcome)
                  | (s', Inr None) \<Rightarrow> (s', LimitExceeded (rejection_message allowance))
                  | (s', Inl e) \<Rightarrow> (s', Failed e)))
          else
            (case store_send_operation err now (qm_server_id m) messages idempotency s of
               (s', Inr outcome) \<Rightarrow> (s', outcome)
             | (s', Inl e) \<Rightarrow> (s', Failed e)))"

definition pg_sink_ops :: "pg_errors \<Rightarrow> pg_sink sink_ops" where
  "pg_sink_ops err = \<lparr>sk_queue_message = pg_queue_message err, sk_queue_messages = pg_queue_messages err\<rparr>"

lemma claim_outcome_refuses: "claim_outcome r c \<noteq> Stored" "claim_outcome r c \<noteq> Failed e" "claim_outcome r c \<noteq> LimitExceeded e"
  by (auto simp: claim_outcome_def split: prod.splits)

lemma pgk_messages_insert [simp]: "pgk_messages (pg_insert ms s) = pgk_messages s @ ms"
  by (simp add: pg_insert_def)

lemma lookup_keeps: "pg_idempotency_lookup err now server_id request s = (s', r) \<Longrightarrow> pgk_messages s' = pgk_messages s \<and> r \<noteq> Inr (Some Stored)"
  by (auto simp: pg_idempotency_lookup_def claim_outcome_refuses split: option.splits)

lemma store_send_operation_cases:
  assumes "store_send_operation err now server_id ms idempotency s = (s', r)"
  shows "pgk_messages s' = pgk_messages s @ ms \<and> (r = Inr Stored \<or> (\<exists>e. r = Inl e))
    \<or> pgk_messages s' = pgk_messages s \<and> r \<noteq> Inr Stored"
proof -
  have s1: "pgk_messages (case idempotency of None \<Rightarrow> s\<lparr>pgk_calls := n\<rparr> | Some request \<Rightarrow> s\<lparr>pgk_calls := n, pgk_idempotency_requests := f request\<rparr>)
      = pgk_messages s" for n f by (simp split: option.split)
  moreover have "Option.bind idempotency (\<lambda>request. map_option (claim_outcome request) (live_request now server_id request s)) \<noteq> Some Stored"
    using claim_outcome_refuses(1) by (auto simp: bind_eq_Some_conv dest: sym)
  ultimately show ?thesis
    using assms by (auto simp: store_send_operation_def Let_def claim_outcome_refuses split: option.splits prod.splits if_splits)
qed

lemma pg_batch_cases:
  assumes "pg_queue_messages err now s ms r al = (s', out)"
  shows "pgk_messages s' = pgk_messages s @ ms \<and> (ms = [] \<or> allows al (outgoing_count ms)) \<and> (out = Stored \<or> (\<exists>e. out = Failed e))
    \<or> pgk_messages s' = pgk_messages s \<and> out \<noteq> Stored"
proof (cases ms)
  case Nil
  with assms show ?thesis by (simp add: pg_queue_messages_def)
next
  case (Cons m ms')
  show ?thesis
  proof (cases "allows al (outgoing_count ms)")
    case True
    obtain s1 res where r: "store_send_operation err now (qm_server_id m) ms r s = (s1, res)" by fastforce
    with True Cons assms have "s' = s1" "out = (case res of Inr o' \<Rightarrow> o' | Inl e \<Rightarrow> Failed e)"
      by (auto simp: pg_queue_messages_def split: sum.splits)
    with store_send_operation_cases [OF r] True show ?thesis by (auto split: sum.splits)
  next
    case False
    with Cons assms lookup_keeps show ?thesis
      by (auto simp: pg_queue_messages_def split: option.splits prod.splits sum.splits) blast+
  qed
qed

interpretation pg: message_sink "pg_sink_ops err" pgk_messages for err
proof (unfold_locales, goal_cases)
  case (1 s m)
  show ?case by (auto simp: pg_sink_ops_def pg_queue_message_def Let_def split: option.splits)
qed (auto simp: pg_sink_ops_def dest!: pg_batch_cases)

end
