(* ===== verification/Smtp_Delivery.thy ===== *)
theory Smtp_Delivery
  imports Smtp_Demo Pg_Sink
begin

text \<open>
  What an SMTP session stores: the effect of a line on the message sink, over
  any store that keeps the contract \<open>smtp_store\<close> and any sink that keeps
  \<open>message_sink\<close>. A run of an authenticated submission on the in-memory store and
  sink (\<open>Smtp_Demo\<close>) instantiates the theorems.
\<close>

section \<open>The only line that stores\<close>

lemma data_line_sink:
  assumes "data_line env so sk s st snk data = Inr (s', snk', r)" "snk' \<noteq> snk"
  shows "data = ''.''" "s_cr_present s" "s_previous_cr_present s = Some True"
    "finish_data env so sk (s\<lparr>s_input_mode := Command\<rparr>) st snk = Inr (s', snk', r)"
  using assms by (auto simp: data_line_def bind_rust_Inr_iff split: if_splits)

lemma dispatch_sink:
  assumes "dispatch env so sk s st snk data = Inr (s', st', snk', r)" "snk' \<noteq> snk"
  shows "s_input_mode s = DataMode" "s_state s \<noteq> Preauth" "st' = st"
    "data_line env so sk s st snk data = Inr (s', snk', r)"
  using assms
  by (auto simp: dispatch_def bind_rust_Inr_iff split: if_splits input_mode.split_asm)

lemma handle_sink:
  assumes "handle env so sk s st snk line = Inr (s', st', snk', r)" "snk' \<noteq> snk"
  shows "s_input_mode s = DataMode" "line = ''.'' @ [CR]" "s_previous_cr_present s = Some True" "st' = st"
    "finish_data env so sk (s\<lparr>s_cr_present := True, s_input_mode := Command\<rparr>) st snk
       = Inr (welcomed (s\<lparr>s_cr_present := True, s_input_mode := Command\<rparr>), snk', r)"
proof -
  let ?cr = "suffix [CR] line" and ?data = "if suffix [CR] line then butlast line else line"
  from assms(1) obtain s1 where d: "dispatch env so sk (s\<lparr>s_cr_present := ?cr\<rparr>) st snk ?data
      = Inr (s1, st', snk', r)" by (rule handle_cases)
  note disp = dispatch_sink [OF d assms(2)]
  note dl = data_line_sink [OF disp(4) assms(2)]
  from disp dl show "s_input_mode s = DataMode" "s_previous_cr_present s = Some True" "st' = st"
    by simp_all
  from dl(1,2) have cr: "?cr" "butlast line = ''.''" by (simp_all split: if_splits)
  then show "line = ''.'' @ [CR]" by (auto simp: suffix_def)
  from dl(4) cr finish_data_session [OF dl(4)]
  show "finish_data env so sk (s\<lparr>s_cr_present := True, s_input_mode := Command\<rparr>) st snk
       = Inr (welcomed (s\<lparr>s_cr_present := True, s_input_mode := Command\<rparr>), snk', r)"
    by simp
qed

section \<open>What the end of DATA stores\<close>

definition body_of :: "session \<Rightarrow> bytes" where
  "body_of s = (case s_data s of Some d \<Rightarrow> d | None \<Rightarrow> [])"

definition headers_of :: "session \<Rightarrow> header_map" where
  "headers_of s = (case s_headers s of Some h \<Rightarrow> h | None \<Rightarrow> [])"

definition stored_body :: "session \<Rightarrow> string option \<Rightarrow> bytes" where
  "stored_body s key =
     (if key \<noteq> None then strip_message_header (body_of s) IDEMPOTENCY_HEADER else body_of s)"

definition sender_of :: "session \<Rightarrow> string" where
  "sender_of s = (case s_mail_from s of Some m \<Rightarrow> m | None \<Rightarrow> [])"

text \<open>
  The checks the end of DATA makes, all passed: the size, the loop count, the
  From authorization (with the domain the send is attributed to) and the
  idempotency key.
\<close>

definition data_accepted :: "'st store_ops \<Rightarrow> session \<Rightarrow> 'st \<Rightarrow> Id option \<Rightarrow> string option \<Rightarrow> bool" where
  "data_accepted so s st d key \<longleftrightarrow>
     \<not> too_large s (body_of s) \<and> received_by_us s (headers_of s) \<le> 4
     \<and> authorize_from so s st (headers_of s) = Some d
     \<and> idempotency_key s (headers_of s) = Inr key"

lemma store_data_cases:
  assumes "store_data env so sk s st snk (body_of s) d key = Inr (s', snk', r)"
  obtains ms out where
    "queue_all so s st (sender_of s) (stored_body s key) d (s_recipients s) = Inr ms"
    "queue_outcome_of env sk snk ms
       (map_option (idempotency_for env s (sender_of s) (stored_body s key)) key)
       (data_allowance so s st) = (snk', out)" "r = data_reply out"
proof -
  let ?idem = "map_option (idempotency_for env s (sender_of s) (stored_body s key)) key"
  note st = assms [unfolded store_data_def Let_def, folded sender_of_def stored_body_def]
  from st obtain ms where ms: "queue_all so s st (sender_of s) (stored_body s key) d (s_recipients s) = Inr ms"
    by (auto simp: bind_rust_Inr_iff)
  obtain snk1 out where "queue_outcome_of env sk snk ms ?idem (data_allowance so s st) = (snk1, out)"
    by force
  with st ms show thesis by (intro that [OF ms]) auto
qed

lemma finish_data_cases:
  assumes "finish_data env so sk s st snk = Inr (s', snk', r)"
  obtains (rejected) msg where "snk' = snk" "r = Line msg" "take 3 msg \<in> {''552'', ''550'', ''530'', ''554''}"
  | (queued) d key ms out where "data_accepted so s st d key"
    "queue_all so s st (sender_of s) (stored_body s key) d (s_recipients s) = Inr ms"
    "queue_outcome_of env sk snk ms
       (map_option (idempotency_for env s (sender_of s) (stored_body s key)) key)
       (data_allowance so s st) = (snk', out)" "r = data_reply out"
proof -
  note f = assms [unfolded finish_data_def Let_def, folded body_of_def headers_of_def]
  show thesis
  proof (cases "too_large s (body_of s) \<or> received_by_us s (headers_of s) > 4
      \<or> authorize_from so s st (headers_of s) = None")
    case True
    with f have "\<exists>msg. snk' = snk \<and> r = Line msg \<and> take 3 msg \<in> {''552'', ''550'', ''530''}"
      by (auto split: if_splits)
    then show thesis by (auto intro: rejected)
  next
    case False
    then obtain d where d: "authorize_from so s st (headers_of s) = Some d" by auto
    show thesis
    proof (cases "idempotency_key s (headers_of s)")
      case (Inl msg)
      then have "take 3 msg = ''554''"
        by (auto simp: idempotency_key_def Let_def split: option.split_asm if_splits)
      with Inl f False d show thesis by (intro rejected) auto
    next
      case (Inr key)
      with f False d have "store_data env so sk s st snk (body_of s) d key = Inr (s', snk', r)" by simp
      then show thesis
        by (rule store_data_cases) (use False d Inr in \<open>auto intro!: queued simp: data_accepted_def\<close>)
    qed
  qed
qed

text \<open>The message queued for one recipient.\<close>

definition queued_as :: "'st store_ops \<Rightarrow> session \<Rightarrow> 'st \<Rightarrow> bytes \<Rightarrow> Id option \<Rightarrow> recipient
    \<Rightarrow> queued_message \<Rightarrow> bool" where
  "queued_as so s st body d r m \<longleftrightarrow>
     queued_for so s st (sender_of s) body d r = Inr m"

lemma queue_all_iff:
  "queue_all so s st mf body d rs = Inr ms
   \<longleftrightarrow> list_all2 (\<lambda>r m. queued_for so s st mf body d r = Inr m) rs ms"
proof (induction rs arbitrary: ms)
  case (Cons r rs)
  then show ?case by (cases ms) (auto simp: bind_rust_Inr_iff)
qed auto

lemma outgoing_count_subseq: "subseq ms' ms \<Longrightarrow> outgoing_count ms' \<le> outgoing_count ms"
  using list_emb_length [OF subseq_filter [of ms' ms "\<lambda>m. qm_scope m = Outgoing"]] by (simp add: outgoing_count_def)

lemma allows_less: "allows al n \<Longrightarrow> n' \<le> n \<Longrightarrow> allows al n'"
  by (auto simp: allows_def split: option.splits)

lemma queue_outcome_stored:
  assumes "message_sink sk stored" "queue_outcome_of env sk snk ms idem al = (snk', out)" "stored snk' \<noteq> stored snk"
  obtains ms' where "stored snk' = stored snk @ ms'" "subseq ms' ms" "allows al (outgoing_count ms)"
    "idem \<noteq> None \<Longrightarrow> ms' = ms" "\<And>claim. reliable_sink sk stored claim \<Longrightarrow> ms' = ms"
    "out = Stored \<or> idem \<noteq> None \<and> (\<exists>e. out = Failed e)"
proof (cases idem)
  case None
  with assms(2,3) have al: "allows al (outgoing_count ms)" "snk' = foldl (sk_queue_message sk) snk ms" "out = Stored"
    by (auto simp: queue_outcome_of_def split: if_splits)
  obtain ms' where ms': "stored snk' = stored snk @ ms'" "subseq ms' ms"
    using message_sink.queue_each [OF assms(1), of snk ms] al(2) by blast
  show thesis
  proof (rule that [OF ms' al(1)])
    show "ms' = ms" if "reliable_sink sk stored claim" for claim
      using reliable_sink.queue_all_stored [OF that, of snk ms] ms'(1) al(2) by simp
  qed (use None al in simp_all)
next
  case (Some q)
  with assms(2) have run: "sk_queue_messages sk (en_now env) snk ms idem al = (snk', out)"
    by (simp add: queue_outcome_of_def)
  have "stored snk' = stored snk @ ms" "allows al (outgoing_count ms)" "out = Stored \<or> (\<exists>e. out = Failed e)"
    using message_sink.batch_stored [OF assms(1)] message_sink.batch_failed [OF assms(1)]
      message_sink.batch_refused [OF assms(1) run] run assms(3) by (cases out; fastforce)+
  with Some show thesis by (intro that) auto
qed

lemma data_frame:
  fixes s :: session and b m
  defines "s1 \<equiv> s\<lparr>s_cr_present := b, s_input_mode := m\<rparr>"
  shows "body_of s1 = body_of s" "headers_of s1 = headers_of s" "sender_of s1 = sender_of s"
    "stored_body s1 key = stored_body s key" "s_recipients s1 = s_recipients s"
    "data_allowance so s1 st = data_allowance so s st"
    "data_accepted so s1 st d key = data_accepted so s st d key"
    "queued_for so s1 st mf body d r = queued_for so s st mf body d r"
proof -
  show body: "body_of s1 = body_of s" "headers_of s1 = headers_of s" "sender_of s1 = sender_of s"
    "s_recipients s1 = s_recipients s"
    by (simp_all add: s1_def body_of_def headers_of_def sender_of_def)
  then show "stored_body s1 key = stored_body s key" by (simp add: stored_body_def)
  show "data_allowance so s1 st = data_allowance so s st"
    by (simp add: s1_def data_allowance_def credential_server_def)
  show "queued_for so s1 st mf body d r = queued_for so s st mf body d r"
    by (cases "rc_kind r") (simp_all add: s1_def queued_for_def queued_base_def Let_def)
  have "too_large s1 = too_large s" "received_by_us s1 = received_by_us s"
    "authorize_from so s1 st = authorize_from so s st"
    by (intro ext, simp add: s1_def too_large_def received_by_us_def authorize_from_def)+
  moreover have "idempotency_key s1 = idempotency_key s"
    unfolding idempotency_key_def [abs_def] body ..
  ultimately show "data_accepted so s1 st d key = data_accepted so s st d key"
    by (simp add: data_accepted_def body)
qed

text \<open>
  The one lemma behind the properties: what the sink gains by a line are messages of one
  transaction; all of them when the client gave an idempotency key or the storage does not fail.
\<close>

definition stored_of :: "'sk sink_ops \<Rightarrow> ('sk \<Rightarrow> queued_message list) \<Rightarrow> string option \<Rightarrow> queued_message list
    \<Rightarrow> queued_message list \<Rightarrow> reply \<Rightarrow> bool" where
  "stored_of sk stored key ms ms' r \<longleftrightarrow>
     subseq ms' ms \<and> (key \<noteq> None \<or> (\<exists>claim. reliable_sink sk stored claim) \<longrightarrow> ms' = ms)
     \<and> (r = Line ''250 OK'' \<or> key \<noteq> None \<and> r = Line ''451 Temporary storage failure'')"

lemma handle_stores:
  assumes "message_sink sk stored" and "handle env so sk s st snk line = Inr (s', st', snk', r)"
    and "stored snk' \<noteq> stored snk"
  obtains d key ms ms' where
    "s_input_mode s = DataMode" "line = ''.'' @ [CR]" "s_previous_cr_present s = Some True"
    "data_accepted so s st d key" "list_all2 (queued_as so s st (stored_body s key) d) (s_recipients s) ms"
    "stored snk' = stored snk @ ms'" "stored_of sk stored key ms ms' r"
    "allows (data_allowance so s st) (outgoing_count ms)"
proof -
  let ?s = "s\<lparr>s_cr_present := True, s_input_mode := Command\<rparr>"
  from assms(3) have changed: "snk' \<noteq> snk" by auto
  note h = handle_sink [OF assms(2) changed]
  from h(5) show thesis
  proof (cases rule: finish_data_cases)
    case rejected
    with changed show thesis by simp
  next
    case (queued d key ms out)
    from queue_outcome_stored [OF assms(1) queued(3) assms(3)] obtain ms' where q:
      "stored snk' = stored snk @ ms'" "subseq ms' ms" "allows (data_allowance so ?s st) (outgoing_count ms)"
      "key \<noteq> None \<Longrightarrow> ms' = ms" "\<And>claim. reliable_sink sk stored claim \<Longrightarrow> ms' = ms"
      "out = Stored \<or> key \<noteq> None \<and> (\<exists>e. out = Failed e)"
      by auto
    have "stored_of sk stored key ms ms' r"
      using q(2,4-6) queued(4) by (auto simp: stored_of_def data_reply_def)
    with queued(1,2) h(1-3) q(1,3) show thesis
      by (intro that) (simp_all add: data_frame queue_all_iff queued_as_def [abs_def])
  qed
qed

section \<open>Properties\<close>

lemma queued_as_sound:
  assumes "queued_as so s st body d r m"
  shows "qm_rcpt_to m = rc_rcpt_to r" "qm_server_id m = srv_id (rc_server r)" "qm_raw_message m = body"
    "qm_mail_from m = sender_of s" "qm_scope m = Outgoing \<longleftrightarrow> rc_kind r = KCredential"
    "qm_credential_id m = (if rc_kind r = KCredential then map_option cred_id (s_credential s) else None)"
    "rc_kind r = KCredential \<Longrightarrow> qm_domain_id m = d"
  using assms(1) unfolding queued_as_def queued_for_def Let_def
  by (cases "rc_kind r"; auto simp: queued_base_def split: option.split_asm)+

lemma handle_stored_messages:
  assumes "stores S I" "message_sink sk stored" "session_reach S I sk s"
    and "handle env so sk s st snk line = Inr (s', st', snk', r)" "stored snk' \<noteq> stored snk"
  obtains d key ms ms' where "data_accepted so s st d key" "stored snk' = stored snk @ ms'" "stored_of sk stored key ms ms' r"
    "list_all2 (\<lambda>r m. queued_as so s st (stored_body s key) d r m \<and> wf_recipient (s_credential s) r)
       (s_recipients s) ms"
    "allows (data_allowance so s st) (outgoing_count ms)"
proof -
  from reach_ok [OF assms(3,1)] have "list_all (wf_recipient (s_credential s)) (s_recipients s)"
    by (simp add: session_ok_def)
  moreover from assms(2,4,5) obtain d key ms ms' where "data_accepted so s st d key"
    "list_all2 (queued_as so s st (stored_body s key) d) (s_recipients s) ms"
    "stored snk' = stored snk @ ms'" "stored_of sk stored key ms ms' r" "allows (data_allowance so s st) (outgoing_count ms)"
    by (rule handle_stores)
  ultimately show thesis
    by (intro that) (auto simp: list_all2_conv_all_nth list_all_length)
qed

text \<open>
  How the author of a message was authorized for a server: the addresses of its From headers
  are in a domain the store authenticates for the server; or, where the server allows it, those of
  its Sender headers are; or each From address is a confirmed sender address.
\<close>

definition author_authorized :: "'st store_ops \<Rightarrow> 'st \<Rightarrow> Id \<Rightarrow> header_map \<Rightarrow> Id option \<Rightarrow> bool" where
  "author_authorized so st server_id headers domain_id \<longleftrightarrow>
     (\<exists>d. domain_id = Some d \<and> so_find_authenticated_domain so st server_id (header_values headers ''from'') = Some d)
     \<or> (\<exists>d srv. domain_id = Some d \<and> so_server so st server_id = Some srv \<and> srv_allow_sender srv
          \<and> so_find_authenticated_domain so st server_id (header_values headers ''sender'') = Some d)
     \<or> domain_id = None \<and> so_find_confirmed_sender_address so st server_id (header_values headers ''from'')"

lemma authorize_from_author:
  assumes "authorize_from so s st headers = Some d" "s_credential s = Some c"
  shows "author_authorized so st (cred_server_id c) headers d"
  using assms
  by (auto simp: authorize_from_def author_authorized_def authenticated_domain_def confirmed_sender_address_in_from_def Let_def
      split: option.splits if_splits)

text \<open>
  C1. No open relay: whatever a connection sends, each message its lines put
  into the sink for delivery to the outside carries the credential the session
  was authenticated with (by SMTP AUTH or by its address, never an API key), and
  its author was authorized for that credential's server: by its From header or, where
  the server allows it, by its Sender header, in a domain the store authenticates and to
  which the message is attributed, or by From addresses that are confirmed. An
  unauthenticated session stores incoming messages only.
\<close>

theorem smtp_no_open_relay:
  assumes "stores S I" "message_sink sk stored" "session_reach S I sk s"
    and "handle env so sk s st snk line = Inr (s', st', snk', r)"
  shows "\<exists>ms. stored snk' = stored snk @ ms \<and>
    (\<forall>m \<in> set ms. qm_scope m = Outgoing \<longrightarrow>
       (\<exists>c. s_credential s = Some c \<and> cred_type c \<in> {Smtp, SmtpIp} \<and> qm_credential_id m = Some (cred_id c)
          \<and> author_authorized so st (cred_server_id c) (headers_of s) (qm_domain_id m)))"
proof (cases "stored snk' = stored snk")
  case False
  obtain d key ms ms' where q: "data_accepted so s st d key" "stored snk' = stored snk @ ms'" "stored_of sk stored key ms ms' r"
    "list_all2 (\<lambda>r m. queued_as so s st (stored_body s key) d r m \<and> wf_recipient (s_credential s) r)
       (s_recipients s) ms"
    by (rule handle_stored_messages [OF assms False])
  have "\<exists>c. s_credential s = Some c \<and> cred_type c \<in> {Smtp, SmtpIp} \<and> qm_credential_id m = Some (cred_id c)
      \<and> author_authorized so st (cred_server_id c) (headers_of s) (qm_domain_id m)"
    if "m \<in> set ms'" "qm_scope m = Outgoing" for m
  proof -
    have "m \<in> set ms" using q(3) that(1) by (auto simp: stored_of_def dest: list_emb_set)
    with q(4) obtain r where r: "queued_as so s st (stored_body s key) d r m" "wf_recipient (s_credential s) r"
      by (auto simp: list_all2_conv_all_nth in_set_conv_nth)
    note snd = queued_as_sound [OF r(1)]
    with that(2) have k: "rc_kind r = KCredential" by simp
    with r(2) obtain c where c: "s_credential s = Some c" by (auto simp: wf_recipient_def)
    with reach_ok [OF assms(3,1)] have "cred_type c \<in> {Smtp, SmtpIp}"
      by (auto simp: session_ok_def credential_ok_def)
    moreover from q(1) c have "author_authorized so st (cred_server_id c) (headers_of s) d"
      by (auto simp: data_accepted_def intro: authorize_from_author)
    ultimately show ?thesis
      using c k snd(6) snd(7) [OF k] by (intro exI [of _ c]) simp
  qed
  with q(2) show ?thesis by blast
qed auto

theorem smtp_no_open_relay_witness:
  "qm_scope demo_message = Outgoing \<and>
   (\<exists>c. s_credential demo_data = Some c \<and> cred_type c \<in> {Smtp, SmtpIp}
      \<and> qm_credential_id demo_message = Some (cred_id c)
      \<and> author_authorized demo_so demo_mem2 (cred_server_id c) (headers_of demo_data) (qm_domain_id demo_message))"
proof -
  have "\<exists>ms. ms_messages (mem_queue_message memory_sink_new demo_message) = ms_messages memory_sink_new @ ms
      \<and> (\<forall>m \<in> set ms. qm_scope m = Outgoing \<longrightarrow>
           (\<exists>c. s_credential demo_data = Some c \<and> cred_type c \<in> {Smtp, SmtpIp}
              \<and> qm_credential_id m = Some (cred_id c)
              \<and> author_authorized demo_so demo_mem2 (cred_server_id c) (headers_of demo_data) (qm_domain_id m)))"
    by (rule smtp_no_open_relay [OF demo_stores_ok mem.message_sink_axioms demo_reach(2) demo_end])
  moreover have "ms_messages (mem_queue_message memory_sink_new demo_message) = [demo_message]"
    "ms_messages memory_sink_new = []" "qm_scope demo_message = Outgoing"
    by (simp_all add: mem_queue_message_def memory_sink_new_def demo_message_def)
  ultimately show ?thesis by auto
qed



text \<open>
  Without an idempotency key the PostgreSQL storage can lose a message that is acknowledged: a
  failed insert is logged, and the reply is \<open>250 OK\<close> all the same.
\<close>

lemma smtp_lost_message_acknowledged:
  "\<exists>s' snk'. handle demo_smtp_env demo_so (pg_sink_ops (\<lambda>_. Some (False, ''connection lost''))) demo_data demo_mem2
       \<lparr>pgk_messages = [], pgk_idempotency_requests = [], pgk_calls = 0\<rparr> (''.'' @ [CR])
     = Inr (s', demo_mem2, snk', Line ''250 OK'') \<and> pgk_messages snk' = []"
  by (simp add: handle_eval demo_eval demo_data_def demo_receiving_def data_line_def finish_data_def
      too_large_def received_by_us_def demo_trace_def demo_trace_headers_def header_values_def
      authorize_from_def authenticated_domain_def memory_store_ops_def demo_authenticated
      idempotency_key_def IDEMPOTENCY_HEADER_def store_data_def demo_rcpt_def queued_for_def queued_base_def
      data_allowance_def credential_server_def mem_send_policy_for_organization_def default_policy_def
      stricter_def remaining_def unlimited_def queue_outcome_of_def allows_def data_reply_def
      pg_sink_ops_def pg_queue_message_def)

text \<open>
  C23. No command stops a session: a line that is valid UTF-8 and does not start
  with white space is always handled, in every state a connection can reach,
  whatever the store answers; none of the \<open>expect\<close> calls of the session can
  fail and no slice is taken inside a character.
\<close>

theorem smtp_session_never_panics:
  assumes "stores S I" "session_reach S I sk s" "utf8_valid line" "\<not> starts_with_ws line"
  shows "\<exists>s' st' snk' r. handle env so sk s st snk line = Inr (s', st', snk', r)"
  using handle_total [OF reach_ok [OF assms(2,1)] assms(3,4), of env so sk st snk]
  by (auto simp: returns_iff)

theorem smtp_session_never_panics_witness:
  "\<exists>s' st' snk' r. handle demo_smtp_env demo_so memory_sink_ops demo_data demo_mem2 memory_sink_new
     (''To: b@y.io'' @ [CR]) = Inr (s', st', snk', r)"
  by (rule smtp_session_never_panics [OF demo_stores_ok demo_reach(2)])
     (simp_all add: utf8_chunk_ascii trim_eval)

text \<open>
  The hypothesis on white space is needed: \<open>strip_prefix_ci\<close> slices the line
  at the length of the command although the command was recognised after
  trimming, so a line with no-break spaces before \<open>MAIL FROM\<close> makes the session
  panic on a slice inside a character.
\<close>

theorem smtp_leading_space_panics:
  "handle env so sk (s\<lparr>s_state := Welcomed, s_input_mode := Command\<rparr>) st snk
     (concat (replicate 5 [CHR 0xC2, CHR 0xA0]) @ ''MAIL FROM:<a@x.io>'' @ [CR]) = Inl CharBoundary"
proof -
  have s: "concat (replicate 5 [CHR 0xC2, CHR 0xA0]) = [CHR 0xC2, CHR 0xA0, CHR 0xC2, CHR 0xA0, CHR 0xC2,
      CHR 0xA0, CHR 0xC2, CHR 0xA0, CHR 0xC2, CHR 0xA0]"
    by (simp add: numeral_eq_Suc)
  show ?thesis unfolding s
    by (simp add: handle_eval mail_from_command_def extract_address_def strip_prefix_ci_def)
qed

section \<open>Authentication and TLS\<close>

lemma auth_line_dispatch:
  assumes "s_state s \<noteq> Preauth" "s_input_mode s = Command" "\<not> auth_permitted s"
    and "prefix ''AUTH '' (to_ascii_uppercase (trim_start data))"
  shows "dispatch env so sk s st snk data
    = Inr (s, st, snk, Line ''538 5.7.11 Encryption required for requested authentication mechanism'')"
proof -
  from assms(4) obtain rest where "to_ascii_uppercase (trim_start data) = ''AUTH '' @ rest"
    by (auto simp: prefix_def)
  with assms show ?thesis
    by (simp add: dispatch_def handle_command_def auth_command_def keep_sink_def)
qed

text \<open>
  C24. Where TLS is offered and required for authentication, a session that is
  not protected holds no SMTP credential: it is unauthenticated or authenticated
  by its address, and an \<open>AUTH\<close> command is answered 538 before the store is
  asked, with the session left as it was.
\<close>

theorem smtp_auth_needs_tls:
  assumes "stores S I" "session_reach S I sk s"
    and "cf_tls_enabled (s_config s)" "cf_auth_requires_tls (s_config s)" "\<not> s_tls s"
    and "s_state s \<noteq> Preauth" "s_input_mode s = Command"
    and "prefix ''AUTH '' (to_ascii_uppercase (trim_start line))"
  shows "(\<forall>c. s_credential s = Some c \<longrightarrow> cred_type c = SmtpIp)
    \<and> handle env so sk s st snk (line @ [CR])
      = Inr (s\<lparr>s_cr_present := True, s_previous_cr_present := Some True\<rparr>, st, snk,
             Line ''538 5.7.11 Encryption required for requested authentication mechanism'')"
proof
  show "\<forall>c. s_credential s = Some c \<longrightarrow> cred_type c = SmtpIp"
    using reach_ok [OF assms(2,1)] assms(3-5)
    by (auto simp: session_ok_def credential_ok_def auth_permitted_def)
  show "handle env so sk s st snk (line @ [CR])
      = Inr (s\<lparr>s_cr_present := True, s_previous_cr_present := Some True\<rparr>, st, snk,
             Line ''538 5.7.11 Encryption required for requested authentication mechanism'')"
    using auth_line_dispatch [of "s\<lparr>s_cr_present := True\<rparr>" line env so sk st snk] assms(3-8)
    by (simp add: handle_def auth_permitted_def)
qed

definition demo_tls_session :: session where
  "demo_tls_session = session_new Some (demo_config\<lparr>cf_tls_enabled := True\<rparr>) ''t'' (Some ''1.1.1.1'')"

theorem smtp_auth_needs_tls_witness:
  "handle demo_smtp_env demo_so memory_sink_ops demo_tls_session demo_mem memory_sink_new
     (''AUTH PLAIN AHUAaw=='' @ [CR])
   = Inr (demo_tls_session\<lparr>s_cr_present := True, s_previous_cr_present := Some True\<rparr>, demo_mem,
          memory_sink_new,
          Line ''538 5.7.11 Encryption required for requested authentication mechanism'')"
proof -
  have "session_reach demo_stores wf_store memory_sink_ops demo_tls_session"
    unfolding demo_tls_session_def by (rule session_reach.connect)
  note auth = smtp_auth_needs_tls [OF demo_stores_ok this,
      of "''AUTH PLAIN AHUAaw==''" demo_smtp_env demo_so demo_mem memory_sink_new]
  show ?thesis
    by (rule auth [THEN conjunct2])
       (simp_all add: demo_tls_session_def session_new_def demo_config_def trim_eval ascii_eval)
qed

section \<open>The end of DATA\<close>

lemma receive_header_line_frame:
  assumes "s_headers s \<noteq> None"
  shows "\<exists>s1. receive_header_line env s line = Inr s1 \<and> s_data s1 = s_data s
    \<and> s_input_mode s1 = s_input_mode s \<and> s_recipients s1 = s_recipients s \<and> s_headers s1 \<noteq> None
    \<and> s_cr_present s1 = s_cr_present s \<and> s_state s1 = s_state s"
  unfolding receive_header_line_def Let_def using assms by (auto split: option.split)

text \<open>
  A lone dot that is not framed by CR LF on both sides does not end the
  message (SMTP smuggling): a dot ended by a bare LF, or a dot after a line ended
  by a bare LF, is kept as a line of the message, the session goes on receiving,
  nothing is stored and nothing is answered.
\<close>

theorem smtp_bare_lf_dot_is_content:
  assumes "stores S I" "session_reach S I sk s" "s_input_mode s = DataMode"
    and "line = ''.'' \<or> (line = ''.'' @ [CR] \<and> s_previous_cr_present s \<noteq> Some True)"
  shows "\<exists>s'. handle env so sk s st snk line = Inr (s', st, snk, NoReply)
    \<and> s_input_mode s' = DataMode \<and> s_recipients s' = s_recipients s
    \<and> body_of s' = body_of s @ ''.'' @ crlf"
proof -
  let ?s = "s\<lparr>s_cr_present := suffix [CR] line\<rparr>"
  from reach_ok [OF assms(2,1)] assms(3) obtain d hs where
    ok: "s_state s \<noteq> Preauth" "s_data s = Some d" "s_headers s = Some hs"
    by (auto simp: session_ok_def)
  have unstuffed: "unstuff ''.'' = ''.''" by (simp add: unstuff_def strip_prefix_def)
  obtain s1 where s1: "receive_header_line env ?s ''.'' = Inr s1"
    "s_data s1 = Some d" "s_input_mode s1 = DataMode" "s_recipients s1 = s_recipients s"
    using receive_header_line_frame [of ?s env "''.''"] ok assms(3) by auto
  then have "data_line env so sk ?s st snk ''.''
      = Inr (s1\<lparr>s_data := Some (d @ ''.'' @ crlf)\<rparr>, snk, NoReply)"
    using assms(4) unstuffed by (auto simp: data_line_def receive_line_def suffix_to_prefix)
  moreover have "(if suffix [CR] line then butlast line else line) = ''.''"
    using assms(4) by (auto simp: suffix_to_prefix)
  ultimately have "handle env so sk s st snk line
      = Inr (s1\<lparr>s_data := Some (d @ ''.'' @ crlf), s_previous_cr_present := Some (s_cr_present s1)\<rparr>,
          st, snk, NoReply)"
    using ok assms(3) by (simp add: handle_def Let_def dispatch_def)
  with s1 ok show ?thesis by (simp add: body_of_def)
qed

theorem smtp_bare_lf_dot_is_content_witness:
  "\<exists>s'. handle demo_smtp_env demo_so memory_sink_ops demo_data demo_mem2 memory_sink_new ''.''
      = Inr (s', demo_mem2, memory_sink_new, NoReply) \<and> s_input_mode s' = DataMode"
proof -
  have "s_input_mode demo_data = DataMode" by (simp add: demo_data_def demo_receiving_def)
  from smtp_bare_lf_dot_is_content [OF demo_stores_ok demo_reach(2) this, of "''.''" demo_smtp_env demo_so
      demo_mem2 memory_sink_new]
  show ?thesis by auto
qed

text \<open>What follows the checks: the idempotency key, and the outcome of the sink.\<close>

definition queued_or_refused :: "smtp_env \<Rightarrow> 'st store_ops \<Rightarrow> 'sk sink_ops \<Rightarrow> session \<Rightarrow> 'st \<Rightarrow> 'sk \<Rightarrow> 'sk \<Rightarrow> reply \<Rightarrow> bool" where
  "queued_or_refused env so sk s st snk snk' r =
     (case idempotency_key s (headers_of s) of
        Inl msg \<Rightarrow> snk' = snk \<and> r = Line msg
      | Inr key \<Rightarrow>
          (\<exists>d ms out. authorize_from so s st (headers_of s) = Some d
             \<and> list_all2 (queued_as so s st (stored_body s key) d) (s_recipients s) ms
             \<and> queue_outcome_of env sk snk ms (map_option (idempotency_for env s (sender_of s) (stored_body s key)) key)
                 (data_allowance so s st) = (snk', out)
             \<and> r = data_reply out))"

lemma queued_or_refused_frame:
  "queued_or_refused env so sk (s\<lparr>s_cr_present := b, s_input_mode := m\<rparr>) st snk snk' r = queued_or_refused env so sk s st snk snk' r"
proof -
  let ?s = "s\<lparr>s_cr_present := b, s_input_mode := m\<rparr>"
  have "idempotency_key ?s hs = idempotency_key s hs" for hs
    unfolding idempotency_key_def data_frame by simp
  moreover have "authorize_from so ?s st hs = authorize_from so s st hs" for hs by (simp add: authorize_from_def)
  moreover have "queued_as so ?s st body d = queued_as so s st body d" for body d
    by (intro ext) (simp add: queued_as_def data_frame)
  moreover have "idempotency_for env ?s = idempotency_for env s" by (intro ext) (simp add: idempotency_for_def)
  ultimately show ?thesis unfolding queued_or_refused_def data_frame by (simp split: sum.split)
qed

lemma finish_data_checks:
  assumes "finish_data env so sk s st snk = Inr (s', snk', r)"
  shows "if too_large s (body_of s)
       then snk' = snk \<and> r = Line (''552 Message too large (maximum size ''
              @ show_nat (cf_max_message_size (s_config s)) @ ''MB)'')
       else if received_by_us s (headers_of s) > 4 then snk' = snk \<and> r = Line ''550 Loop detected''
       else if authorize_from so s st (headers_of s) = None
         then snk' = snk \<and> r = Line ''530 From/Sender name is not valid''
       else queued_or_refused env so sk s st snk snk' r"
proof -
  note f = assms [unfolded finish_data_def Let_def, folded body_of_def headers_of_def]
  have "queued_or_refused env so sk s st snk snk' r"
    if ok: "\<not> too_large s (body_of s)" "\<not> received_by_us s (headers_of s) > 4" "authorize_from so s st (headers_of s) = Some d" for d
  proof (cases "idempotency_key s (headers_of s)")
    case (Inl msg)
    with f ok show ?thesis by (simp add: queued_or_refused_def)
  next
    case (Inr key)
    with f ok have "store_data env so sk s st snk (body_of s) d key = Inr (s', snk', r)" by simp
    then show ?thesis
      by (rule store_data_cases) (use Inr ok in \<open>auto simp: queued_or_refused_def queue_all_iff queued_as_def [abs_def]\<close>)
  qed
  with f show ?thesis by (auto split: if_splits)
qed

text \<open>
  C33. The end of DATA is always answered by one line and always closes the transaction: the
  session is back at the command level with no recipients, and the first check
  that fails decides the answer, with nothing stored: the size limit (552), more
  than four \<open>Received\<close> headers naming this host (550), an author the
  credential may not use (530), a malformed idempotency key (its 554). A message that passes
  is handed to the sink, and the answer is that of the outcome: 250 when stored or replayed, 554, 550
  or 451 otherwise.
\<close>

theorem smtp_data_rejections:
  assumes "stores S I" "session_reach S I sk s" "s_input_mode s = DataMode"
    and "s_previous_cr_present s = Some True"
  shows "\<exists>s' snk' r. handle env so sk s st snk (''.'' @ [CR]) = Inr (s', st, snk', r)
    \<and> s_state s' = Welcomed \<and> s_input_mode s' = Command \<and> s_recipients s' = [] \<and> s_mail_from s' = None
    \<and> (\<exists>answer. r = Line answer)
    \<and> (if too_large s (body_of s)
       then snk' = snk \<and> r = Line (''552 Message too large (maximum size ''
              @ show_nat (cf_max_message_size (s_config s)) @ ''MB)'')
       else if received_by_us s (headers_of s) > 4 then snk' = snk \<and> r = Line ''550 Loop detected''
       else if authorize_from so s st (headers_of s) = None
         then snk' = snk \<and> r = Line ''530 From/Sender name is not valid''
       else queued_or_refused env so sk s st snk snk' r)"
proof -
  let ?s = "s\<lparr>s_cr_present := True, s_input_mode := Command\<rparr>"
  note ok = reach_ok [OF assms(2,1)]
  then have rs: "list_all (wf_recipient (s_credential ?s)) (s_recipients ?s)" "s_state s \<noteq> Preauth"
    using assms(3) by (auto simp: session_ok_def)
  obtain snk' r where f: "finish_data env so sk ?s st snk = Inr (welcomed ?s, snk', r)"
    using finish_data_total [OF rs(1), of env so sk st snk] by blast
  have "handle env so sk s st snk (''.'' @ [CR])
      = Inr ((welcomed ?s)\<lparr>s_previous_cr_present := Some True\<rparr>, st, snk', r)"
    using f assms(3,4) rs(2)
    by (simp add: handle_def Let_def dispatch_def data_line_def welcomed_def transaction_reset_def
        suffix_to_prefix)
  moreover have "if too_large ?s (body_of ?s)
       then snk' = snk \<and> r = Line (''552 Message too large (maximum size ''
              @ show_nat (cf_max_message_size (s_config ?s)) @ ''MB)'')
       else if received_by_us ?s (headers_of ?s) > 4 then snk' = snk \<and> r = Line ''550 Loop detected''
       else if authorize_from so ?s st (headers_of ?s) = None
         then snk' = snk \<and> r = Line ''530 From/Sender name is not valid''
       else queued_or_refused env so sk ?s st snk snk' r"
    by (rule finish_data_checks [OF f])
  moreover have "too_large ?s = too_large s" "received_by_us ?s = received_by_us s"
    "authorize_from so ?s st = authorize_from so s st"
    by (intro ext, simp add: too_large_def received_by_us_def authorize_from_def)+
  moreover have "\<exists>answer. r = Line answer" using f by (rule finish_data_cases) (auto simp: data_reply_def split: queue_outcome.split)
  ultimately show ?thesis
    by (intro exI [of _ "(welcomed ?s)\<lparr>s_previous_cr_present := Some True\<rparr>"] exI [of _ snk'] exI [of _ r])
       (simp add: data_frame queued_or_refused_frame welcomed_def transaction_reset_def split: if_splits)
qed

theorem smtp_data_rejections_witness:
  "\<exists>s' snk' r. handle demo_smtp_env demo_so memory_sink_ops demo_data memory_store_new memory_sink_new
     (''.'' @ [CR]) = Inr (s', memory_store_new, snk', r) \<and> r = Line ''530 From/Sender name is not valid''"
proof -
  have m: "s_input_mode demo_data = DataMode" "s_previous_cr_present demo_data = Some True"
    by (simp_all add: demo_data_def demo_receiving_def demo_session_def)
  have "\<not> too_large demo_data (body_of demo_data)" "\<not> received_by_us demo_data (headers_of demo_data) > 4"
    "authorize_from demo_so demo_data memory_store_new (headers_of demo_data) = None"
    by (simp_all add: demo_data_def demo_receiving_def demo_session_def session_new_def demo_config_def
        too_large_def body_of_def headers_of_def received_by_us_def header_values_def demo_trace_def
        demo_trace_headers_def search_eval authorize_from_def authenticated_domain_def memory_store_ops_def
        mem_find_authenticated_domain_def memory_store_new_def confirmed_sender_address_in_from_def
        mem_find_confirmed_sender_address_def al_values_def)
  with smtp_data_rejections [OF demo_stores_ok demo_reach(2) m, of demo_smtp_env demo_so memory_store_new
      memory_sink_new]
  show ?thesis by auto
qed

section \<open>Send limits\<close>

lemma allows_within:
  "wf_allowance a \<Longrightarrow> al_limit a = Some l \<Longrightarrow> allows a n \<Longrightarrow> 0 < n \<Longrightarrow> al_used a + n \<le> l"
  by (auto simp: allows_def remaining_wf)

text \<open>
  C34. Send limits hold for SMTP submissions: when the credential's server exists
  and the counters and limits are non-negative \<open>i64\<close> values, the outgoing messages
  a transaction stores fit both into what is left of the server's 30-day limit
  and into what is left of the organization's monthly limit, by the usage the store reports at the
  end of the transaction.
\<close>

theorem smtp_send_limits:
  assumes "message_sink sk stored" "handle env so sk s st snk line = Inr (s', st', snk', r)"
    and "stored snk' \<noteq> stored snk" "credential_server so s st = Some srv"
    and "\<And>l. srv_send_limit srv = Some l \<Longrightarrow>
      wf_allowance (allowance_server (Some l) (so_send_usage so st (srv_id srv)))"
    and "\<And>l. pol_monthly_send_limit (so_send_policy_for_organization so st (srv_organization_id srv)) = Some l
      \<Longrightarrow> wf_allowance (allowance_organization (Some l) (so_organization_month_usage so st (srv_organization_id srv)))"
  shows "\<exists>ms. stored snk' = stored snk @ ms
    \<and> (\<forall>l. srv_send_limit srv = Some l \<and> 0 < outgoing_count ms \<longrightarrow>
          so_send_usage so st (srv_id srv) + outgoing_count ms \<le> l)
    \<and> (\<forall>l. pol_monthly_send_limit (so_send_policy_for_organization so st (srv_organization_id srv)) = Some l
            \<and> 0 < outgoing_count ms \<longrightarrow>
          so_organization_month_usage so st (srv_organization_id srv) + outgoing_count ms \<le> l)"
proof -
  obtain key ms ms' where ms: "stored snk' = stored snk @ ms'" "stored_of sk stored key ms ms' r"
    "allows (data_allowance so s st) (outgoing_count ms)"
    by (rule handle_stores [OF assms(1-3)])
  have "allows (data_allowance so s st) (outgoing_count ms')"
    using ms(2,3) by (auto simp: stored_of_def intro: allows_less outgoing_count_subseq)
  with assms(4) have
    "\<And>l. srv_send_limit srv = Some l \<Longrightarrow>
        allows (allowance_server (Some l) (so_send_usage so st (srv_id srv))) (outgoing_count ms')"
    "\<And>l. pol_monthly_send_limit (so_send_policy_for_organization so st (srv_organization_id srv)) = Some l \<Longrightarrow>
        allows (allowance_organization (Some l) (so_organization_month_usage so st (srv_organization_id srv)))
          (outgoing_count ms')"
    by (simp_all add: data_allowance_def allows_stricter)
  with ms(1) assms(5,6) show ?thesis
    by (fastforce dest: allows_within simp: allowance_server_def allowance_organization_def)
qed

text \<open>The run with limits: the server may send 3 messages, the organization 2, and nothing was sent yet.\<close>

definition demo_limited :: memory_store where
  "demo_limited = demo_mem2\<lparr>st_servers := [(1, demo_srv\<lparr>srv_send_limit := Some 3\<rparr>)],
     st_organization_policies := [(9, default_policy\<lparr>pol_monthly_send_limit := Some 2\<rparr>)]\<rparr>"

lemma demo_limited_tables:
  "map_of (st_servers demo_limited) (Suc 0) = Some (demo_srv\<lparr>srv_send_limit := Some 3\<rparr>)"
  "map_of (st_organization_policies demo_limited) 9 = Some (default_policy\<lparr>pol_monthly_send_limit := Some 2\<rparr>)"
  "mem_send_usage demo_env demo_limited (Suc 0) = 0" "mem_organization_month_usage demo_env demo_limited 9 = 0"
  by (simp_all add: demo_limited_def demo_mem_eval mem_send_usage_def mem_organization_month_usage_def wrap_i64_def in_i64_def)

lemma demo_limited_authenticated: "mem_find_authenticated_domain demo_limited (Suc 0) [''a@x.io''] = Some 5"
  using demo_authenticated
  by (simp add: mem_find_authenticated_domain_def demo_limited_def demo_tables domain_for_address_def demo_ids owned_by_def
      strip_name_from_address_def trim_eval search_eval)

lemma demo_limited_end:
  "\<exists>s'. demo_handle demo_data demo_limited ''.'' = Inr (s', demo_limited, mem_queue_message memory_sink_new demo_message, Line ''250 OK'')"
  by (simp add: handle_eval demo_session_def session_new_def demo_config_def demo_normal demo_ids demo_data_def demo_receiving_def
      data_line_def finish_data_def too_large_def received_by_us_def demo_trace_def demo_trace_headers_def header_values_def
      authorize_from_def authenticated_domain_def memory_store_ops_def demo_limited_authenticated demo_limited_tables
      idempotency_key_def IDEMPOTENCY_HEADER_def store_data_def demo_rcpt_def queued_for_def queued_base_def
      data_allowance_def credential_server_def mem_send_policy_for_organization_def default_policy_def allowance_server_def
      allowance_organization_def outgoing_count_def
      stricter_def remaining_def unlimited_def queue_outcome_of_def allows_def data_reply_def
      welcomed_def transaction_reset_def demo_message_def in_i64_def)

theorem smtp_send_limits_witness:
  "\<exists>ms. ms_messages (mem_queue_message memory_sink_new demo_message) = ms_messages memory_sink_new @ ms
     \<and> 0 < outgoing_count ms \<and> mem_send_usage demo_env demo_limited 1 + outgoing_count ms \<le> 3
     \<and> mem_organization_month_usage demo_env demo_limited 9 + outgoing_count ms \<le> 2"
proof -
  obtain s' where run: "demo_handle demo_data demo_limited ''.''
      = Inr (s', demo_limited, mem_queue_message memory_sink_new demo_message, Line ''250 OK'')"
    using demo_limited_end by blast
  have changed: "ms_messages (mem_queue_message memory_sink_new demo_message) \<noteq> ms_messages memory_sink_new"
    and one: "ms_messages (mem_queue_message memory_sink_new demo_message) = ms_messages memory_sink_new @ ms \<Longrightarrow> 0 < outgoing_count ms" for ms
    by (auto simp: mem_queue_message_def memory_sink_new_def outgoing_count_def demo_message_def)
  have srv: "credential_server demo_so demo_data demo_limited = Some (demo_srv\<lparr>srv_send_limit := Some 3\<rparr>)"
    by (simp add: credential_server_def demo_data_def demo_receiving_def demo_session_def
        memory_store_ops_def demo_limited_tables demo_ids)
  show ?thesis
    using smtp_send_limits [OF mem.message_sink_axioms run changed srv] one unfolding demo_message_def [symmetric]
    by (auto simp: demo_ids memory_store_ops_def mem_send_policy_for_organization_def demo_limited_tables
        allowance_server_def allowance_organization_def wf_allowance_def in_i64_def)
qed

section \<open>Two defects\<close>

text \<open>
  A rejected recipient moves the session to the state that admits \<open>DATA\<close>. The
  message that follows is acknowledged with \<open>250 OK\<close> and stored nowhere.
\<close>

lemma smtp_rejected_recipient_loses_message:
  fixes s0 s1 s2 :: session
  defines "s0 \<equiv> demo_session None MailFromReceived (Some ''a@x.io'') []"
    and "s1 \<equiv> demo_session None RcptToReceived (Some ''a@x.io'') []"
    and "s2 \<equiv> (demo_session None RcptToReceived (Some ''a@x.io'') [])
       \<lparr>s_receiving_headers := True, s_header_key := None, s_client_data_offset := length demo_trace,
        s_data := Some demo_trace, s_headers := Some demo_trace_headers, s_input_mode := DataMode\<rparr>"
  shows "demo_handle s0 demo_mem ''RCPT TO:<zz@rt.io>''
      = Inr (s1, demo_mem, memory_sink_new, Line ''550 Invalid route token'')"
    and "demo_handle s1 demo_mem ''DATA'' = Inr (s2, demo_mem, memory_sink_new, Line ''354 Go ahead'')"
    and "\<exists>s3. demo_handle s2 demo_mem ''.'' = Inr (s3, demo_mem, memory_sink_new, Line ''250 OK'')"
proof -
  have n: "normalize_dns_domain_name Some ''rt.io'' = Some ''rt.io''"
    by (simp add: normalize_dns_domain_name_def bad_label_def trim_eval ascii_eval search_eval
      trim_end_matches_def)
  have no_route: "mem_find_route_by_token demo_mem ''zz'' = None"
    by (simp add: mem_find_route_by_token_def demo_mem_eval)
  show "demo_handle s0 demo_mem ''RCPT TO:<zz@rt.io>''
      = Inr (s1, demo_mem, memory_sink_new, Line ''550 Invalid route token'')"
    by (simp add: s0_def s1_def handle_eval demo_eval rcpt_to.simps extract_address_def strip_prefix_ci_def
        rcpt_parts_def is_return_path_def demo_smtp_env_def n rcpt_route_token_def memory_store_ops_def
        no_route)
  show "demo_handle s1 demo_mem ''DATA'' = Inr (s2, demo_mem, memory_sink_new, Line ''354 Go ahead'')"
    by (simp add: s1_def s2_def handle_eval demo_eval data_command_def trace_data_def trace_headers_def
        envelope_header_def trace_received_def credential_server_def received_header_def method_as_str_def
        demo_smtp_env_def memory_store_ops_def demo_trace_def demo_trace_headers_def)
  show "\<exists>s3. demo_handle s2 demo_mem ''.'' = Inr (s3, demo_mem, memory_sink_new, Line ''250 OK'')"
    by (simp add: s2_def handle_eval demo_eval data_line_def finish_data_def too_large_def received_by_us_def
        demo_trace_def demo_trace_headers_def header_values_def authorize_from_def idempotency_key_def
        IDEMPOTENCY_HEADER_def store_data_def data_allowance_def credential_server_def
        queue_outcome_of_def data_reply_def)
qed

text \<open>
  Authenticating again keeps the recipients accepted under the first credential:
  they are queued on the first credential's server under the second credential,
  whose server's limits and From authorization apply.
\<close>

lemma smtp_reauth_keeps_recipients:
  assumes "so_find_smtp_credential_by_key so st key = Some c"
    and "authenticate so s st key = (s', st', r)" "rcp \<in> set (s_recipients s)" "rc_kind rcp = KCredential"
  shows "rcp \<in> set (s_recipients s')"
    and "\<exists>m. queued_for so s' st mf data d rcp = Inr m \<and> qm_server_id m = srv_id (rc_server rcp)
      \<and> qm_credential_id m = Some (cred_id c)"
  using assms by (auto simp: authenticate_def grant_def Let_def queued_for_def queued_base_def)

end
