(* ===== verification/Smtp_Encoding.thy ===== *)
theory Smtp_Encoding
  imports Smtp_Session
begin

text \<open>
  The byte-level routines of \<open>session.rs\<close>: the request encoding that is hashed
  for idempotent submissions, the removal of one header from a message, and the
  framing of multi-line replies.
\<close>

section \<open>The identity of a request\<close>

lemma base256_digits:
  assumes "\<And>k. k < K \<Longrightarrow> n div 256 ^ k mod 256 = m div 256 ^ k mod (256 :: nat)"
  shows "n mod 256 ^ K = m mod 256 ^ K"
  using assms
proof (induction K)
  case (Suc K)
  then have "n div 256 ^ K mod 256 = m div 256 ^ K mod 256" "n mod 256 ^ K = m mod 256 ^ K" by auto
  moreover have "x mod 256 ^ Suc K = 256 ^ K * (x div 256 ^ K mod 256) + x mod 256 ^ K" for x :: nat
    by (metis mod_mult2_eq power_Suc2)
  ultimately show ?case by simp
qed simp

lemma length_be64 [simp]: "length (be64 n) = 8"
  by (simp add: be64_def)

lemma be64_inj:
  assumes "be64 n = be64 m" "n < 2 ^ 64" "m < 2 ^ 64"
  shows "n = m"
proof -
  have "n div 256 ^ k mod 256 = m div 256 ^ k mod 256" if "k < 8" for k
  proof -
    have "be64 n ! (7 - k) = be64 m ! (7 - k)" using assms(1) by simp
    moreover have "[0..<8] ! (7 - k) = 7 - k" using that nth_upt [of 0 "7 - k" 8] by simp
    ultimately show ?thesis using that by (simp add: be64_def del: upt_Suc)
  qed
  from base256_digits [of 8, OF this] assms(2,3) show ?thesis by simp
qed

lemma add_field_append:
  assumes "add_field a @ r = add_field b @ t" "length a < 2 ^ 64" "length b < 2 ^ 64"
  shows "a = b \<and> r = t"
proof -
  from assms(1) have h: "be64 (length a) = be64 (length b)" "a @ r = b @ t"
    by (simp_all add: add_field_def)
  from be64_inj [OF h(1) assms(2,3)] h(2) show ?thesis by simp
qed

lemma add_fields_append:
  assumes "concat (map add_field xs) @ r = concat (map add_field ys) @ t" "length xs = length ys"
    and "list_all (\<lambda>x. length x < 2 ^ 64) xs" "list_all (\<lambda>y. length y < 2 ^ 64) ys"
  shows "xs = ys \<and> r = t"
  using assms
proof (induction xs ys rule: list_induct2')
  case (4 x xs y ys)
  from 4 have "x = y \<and> concat (map add_field xs) @ r = concat (map add_field ys) @ t"
    by (intro add_field_append) simp_all
  with 4 show ?case by simp
qed auto

text \<open>
  Two submissions with the same envelope sender, the same recipients in the
  same order and the same content have the same encoding, and no others: the
  bytes that are hashed into the request hash determine all three, so a replay is
  told from a different request as well as SHA-256 tells byte strings apart.
\<close>

theorem smtp_request_identity:
  assumes "length f < 2 ^ 64" "length f' < 2 ^ 64" "length rs < 2 ^ 64" "length rs' < 2 ^ 64"
    and "length d < 2 ^ 64" "length d' < 2 ^ 64"
    and "list_all (\<lambda>r. length (rc_rcpt_to r) < 2 ^ 64) rs" "list_all (\<lambda>r. length (rc_rcpt_to r) < 2 ^ 64) rs'"
  shows "request_encoding f rs d = request_encoding f' rs' d' \<longleftrightarrow>
    f = f' \<and> map rc_rcpt_to rs = map rc_rcpt_to rs' \<and> d = d'"
proof
  let ?fs = "\<lambda>rs. concat (map (\<lambda>r. add_field (rc_rcpt_to r)) rs)"
  assume "request_encoding f rs d = request_encoding f' rs' d'"
  then have eq: "add_field f @ be64 (length rs) @ ?fs rs @ add_field d
      = add_field f' @ be64 (length rs') @ ?fs rs' @ add_field d'"
    by (simp add: request_encoding_def)
  from add_field_append [OF eq assms(1,2)] have f: "f = f'"
    and "be64 (length rs) = be64 (length rs') \<and> ?fs rs @ add_field d = ?fs rs' @ add_field d'"
    by simp_all
  then have rest: "length rs = length rs'" "?fs rs @ add_field d = ?fs rs' @ add_field d'"
    using be64_inj assms(3,4) by auto
  have "map rc_rcpt_to rs = map rc_rcpt_to rs' \<and> add_field d = add_field d'"
    using rest assms(7,8)
    by (intro add_fields_append) (simp_all add: comp_def list_all_iff)
  with f add_field_append [of d "[]" d' "[]"] assms(5,6)
  show "f = f' \<and> map rc_rcpt_to rs = map rc_rcpt_to rs' \<and> d = d'" by simp
next
  assume "f = f' \<and> map rc_rcpt_to rs = map rc_rcpt_to rs' \<and> d = d'"
  moreover from this have "length rs = length rs'" by (metis length_map)
  moreover have fields: "map (\<lambda>r. add_field (rc_rcpt_to r)) rs = map add_field (map rc_rcpt_to rs)" for rs
    by simp
  ultimately show "request_encoding f rs d = request_encoding f' rs' d'"
    unfolding request_encoding_def fields by simp
qed

theorem smtp_request_identity_witness:
  "request_encoding ''a'' [] ''bc'' \<noteq> request_encoding ''ab'' [] ''c''"
  using smtp_request_identity [of "''a''" "''ab''" "[]" "[]" "''bc''" "''c''"] by simp

section \<open>Removing a header\<close>

text \<open>
  A header block is the line that names the header and the folded lines that
  continue it; every line ends with LF.
\<close>

definition is_line :: "string \<Rightarrow> bool" where
  "is_line l \<longleftrightarrow> (\<exists>w. l = w @ [LF] \<and> LF \<notin> set w)"

definition folded :: "string \<Rightarrow> bool" where
  "folded l \<longleftrightarrow> (line_content l \<noteq> [] \<and> (hd (line_content l) = CHR '' '' \<or> hd (line_content l) = CHR 0x09))"

definition header_block :: "string list \<Rightarrow> bool" where
  "header_block b \<longleftrightarrow> b \<noteq> [] \<and> list_all is_line b \<and> line_content (hd b) \<noteq> [] \<and> \<not> folded (hd b)
     \<and> list_all folded (tl b)"

definition names_header :: "string \<Rightarrow> string list \<Rightarrow> bool" where
  "names_header name b \<longleftrightarrow> eq_ignore_ascii_case (hd (split_on (CHR '':'') (line_content (hd b)))) name"

lemma split_inclusive_lines:
  assumes "list_all is_line ls"
  shows "split_inclusive LF (concat ls @ s) = ls @ split_inclusive LF s"
  using assms
proof (induction ls)
  case (Cons l ls)
  then obtain w where "l = w @ [LF]" "LF \<notin> set w" by (auto simp: is_line_def)
  with Cons show ?case by (simp add: split_inclusive_line)
qed simp

lemma strip_folded:
  assumes "list_all folded ls"
  shows "strip_header_lines name True skip (ls @ rest)
    = (if skip then [] else concat ls) @ strip_header_lines name True skip rest"
  using assms by (induction ls) (auto simp: folded_def line_content_def Let_def)

lemma strip_block:
  assumes "header_block b"
  shows "strip_header_lines name True skip (b @ rest)
    = (if names_header name b then [] else concat b)
      @ strip_header_lines name True (names_header name b) rest"
proof -
  from assms obtain l ls where b: "b = l # ls" "line_content l \<noteq> []" "\<not> folded l" "list_all folded ls"
    by (cases b) (auto simp: header_block_def)
  then show ?thesis
    by (simp add: strip_folded line_content_def folded_def names_header_def Let_def)
qed

lemma strip_blocks:
  assumes "list_all header_block bs"
  shows "\<exists>skip'. strip_header_lines name True skip (concat bs @ rest)
    = concat (concat (filter (\<lambda>b. \<not> names_header name b) bs)) @ strip_header_lines name True skip' rest"
  using assms
proof (induction bs arbitrary: skip)
  case (Cons b bs)
  then obtain skip' where "strip_header_lines name True (names_header name b) (concat bs @ rest)
      = concat (concat (filter (\<lambda>b. \<not> names_header name b) bs)) @ strip_header_lines name True skip' rest"
    by auto
  with Cons.prems strip_block [of b name skip "concat bs @ rest"] show ?case
    by (intro exI [of _ skip']) simp
qed auto

lemma strip_body: "strip_header_lines name False skip ls = concat ls"
  by (induction ls) auto

text \<open>
  Removing a header removes that header only: on a message made of header
  blocks, an empty line and a body, every block whose first line carries the name
  (in any case) disappears with its folded lines, and all other bytes, the body
  included, are kept in order.
\<close>

theorem strip_message_header_exact:
  assumes "list_all header_block bs"
  shows "strip_message_header (concat (concat bs) @ crlf @ body) name
    = concat (concat (filter (\<lambda>b. \<not> names_header name b) bs)) @ crlf @ body"
proof -
  have "list_all is_line (concat bs)"
    using assms by (induction bs) (auto simp: header_block_def)
  from split_inclusive_lines [OF this, of "crlf @ body"]
  have "split_inclusive LF (concat (concat bs) @ crlf @ body)
      = concat bs @ crlf # split_inclusive LF body"
    by simp
  moreover obtain skip' where "strip_header_lines name True False (concat bs @ crlf # split_inclusive LF body)
      = concat (concat (filter (\<lambda>b. \<not> names_header name b) bs))
        @ strip_header_lines name True skip' (crlf # split_inclusive LF body)"
    using strip_blocks [OF assms] by blast
  moreover have "strip_header_lines name True skip' (crlf # split_inclusive LF body) = crlf @ body"
    using chomp_simps(1) [of LF "[CR]"] chomp_simps(1) [of CR "[]"] by (simp add: strip_body)
  ultimately show ?thesis by (simp add: strip_message_header_def)
qed

theorem strip_message_header_exact_witness:
  "strip_message_header (''A: 1'' @ crlf @ ''Key: k'' @ crlf @ '' more'' @ crlf @ crlf @ ''Key: body'') ''key''
   = ''A: 1'' @ crlf @ crlf @ ''Key: body''"
proof -
  let ?bs = "[[''A: 1'' @ crlf], [''Key: k'' @ crlf, '' more'' @ crlf]]"
  have line: "is_line (w @ crlf)" if "LF \<notin> set w" for w
    using that by (auto simp: is_line_def intro!: exI [of _ "w @ [CR]"])
  have content: "line_content (w @ crlf) = w" for w
    using chomp_simps(1) [of LF "w @ [CR]"] chomp_simps(1) [of CR w] by (simp add: line_content_def)
  have "list_all header_block ?bs"
    using line [of "''A: 1''"] line [of "''Key: k''"] line [of "'' more''"] content [of "''A: 1''"]
      content [of "''Key: k''"] content [of "'' more''"]
    by (simp add: header_block_def folded_def)
  moreover have "\<not> names_header ''key'' (hd ?bs)" "names_header ''key'' (hd (tl ?bs))"
    using content [of "''A: 1''"] content [of "''Key: k''"]
    by (simp_all add: names_header_def ascii_eval)
  ultimately show ?thesis
    using strip_message_header_exact [of ?bs "''Key: body''" "''key''"] by simp
qed

section \<open>Multi-line replies\<close>

text \<open>
  The EHLO reply is framed as RFC 5321 asks, whatever the session: every line
  starts with the code 250, a hyphen follows it on all lines but the last and a
  space on the last; AUTH is advertised exactly when the session would accept an
  \<open>AUTH\<close> command, and STARTTLS only on a connection that is not yet protected.
\<close>

theorem ehlo_reply_framed:
  "\<exists>ls. snd (ehlo s data) = Lines (map (\<lambda>l. ''250-'' @ l) (butlast ls) @ [''250 '' @ last ls])
     \<and> hd ls = ''My capabilities are''
     \<and> (''AUTH PLAIN LOGIN'' \<in> set ls \<longleftrightarrow> auth_permitted s)
     \<and> (''STARTTLS'' \<in> set ls \<longleftrightarrow> cf_tls_enabled (s_config s) \<and> \<not> s_tls s)"
proof -
  let ?s = "(transaction_reset (set_helo s data))\<lparr>s_state := Welcomed\<rparr>"
  let ?ls = "''My capabilities are'' # capabilities ?s"
  have "frame_multiline ls = map (\<lambda>l. ''250-'' @ l) (butlast ls) @ [''250 '' @ last ls]" if "ls \<noteq> []" for ls
    using that
    by (intro nth_equalityI) (auto simp: frame_multiline_def nth_append nth_enumerate_eq nth_butlast last_conv_nth)
  moreover have "auth_permitted ?s = auth_permitted s"
    by (simp add: auth_permitted_def transaction_reset_def set_helo_def)
  ultimately show ?thesis
    by (intro exI [of _ ?ls])
       (auto simp: ehlo_def Let_def capabilities_def transaction_reset_def set_helo_def)
qed

end
