(* ===== verification/Spf.thy ===== *)
theory Spf
  imports Store_Interface
begin

text \<open>
  Inbound SPF evaluation: \<open>camelmailer-core/src/spf.rs\<close>. The resolver is the
  record \<open>spf_resolver\<close> (the trait \<open>SpfResolver\<close>; \<open>None\<close> is a failed lookup) and
  \<open>StaticSpfResolver\<close> one implementation of it. The evaluator's state is the
  lookup budget, the first term it could not resolve and the log of the queries
  it has made (the calls on the resolver, in order).

  \<open>check_host\<close> calls itself through \<open>include\<close> and \<open>redirect\<close>; the first argument
  bounds the depth of these calls, and \<open>None\<close> is the result when it is used up.
  Each of them spends a lookup first, so a depth above the budget is always
  enough (\<open>check_host_enough\<close>): \<open>evaluate\<close> passes 11 for a budget of 10.
\<close>

section \<open>Results and terms\<close>

datatype spf_result =
  SpfPass | SpfFail | SpfSoftFail | SpfNeutral | SpfNone | SpfTempError | SpfPermError

definition spf_as_str :: "spf_result \<Rightarrow> string" where
  "spf_as_str r =
     (case r of SpfPass \<Rightarrow> ''pass'' | SpfFail \<Rightarrow> ''fail'' | SpfSoftFail \<Rightarrow> ''softfail''
      | SpfNeutral \<Rightarrow> ''neutral'' | SpfNone \<Rightarrow> ''none'' | SpfTempError \<Rightarrow> ''temperror''
      | SpfPermError \<Rightarrow> ''permerror'')"

definition from_qualifier :: "char \<Rightarrow> spf_result" where
  "from_qualifier q =
     (if q = CHR ''-'' then SpfFail else if q = CHR ''~'' then SpfSoftFail
      else if q = CHR ''?'' then SpfNeutral else SpfPass)"

datatype unsupported_kind = KindMacro | KindExists | KindPtr

definition unsupported_kind_as_str :: "unsupported_kind \<Rightarrow> string" where
  "unsupported_kind_as_str k =
     (case k of KindMacro \<Rightarrow> ''macro'' | KindExists \<Rightarrow> ''exists'' | KindPtr \<Rightarrow> ''ptr'')"

record unsupported_term =
  ut_term :: string
  ut_domain :: string
  ut_kind :: unsupported_kind

datatype spf_verdict = Determined spf_result | Unverifiable unsupported_term

definition term_uses_macro :: "string \<Rightarrow> bool" where
  "term_uses_macro t = contains_sub ''%{'' t"

definition unsupported_kind_of :: "string \<Rightarrow> unsupported_kind option" where
  "unsupported_kind_of t =
     (if term_uses_macro t then Some KindMacro
      else (let lower = to_ascii_lowercase t in
            if prefix ''exists:'' lower then Some KindExists
            else if lower = ''ptr'' \<or> prefix ''ptr:'' lower then Some KindPtr
            else None))"

definition MAX_DNS_LOOKUPS :: nat where
  "MAX_DNS_LOOKUPS = 10"

definition MAX_MX_ADDRESS_LOOKUPS :: nat where
  "MAX_MX_ADDRESS_LOOKUPS = 10"

section \<open>Resolver and evaluator state\<close>

record spf_resolver =
  rs_txt :: "string \<Rightarrow> string list option"
  rs_ip_addresses :: "string \<Rightarrow> ip_addr list option"
  rs_mx_hosts :: "string \<Rightarrow> string list option"

text \<open>The resolver with the address functions of the ipnet crate and std.\<close>

record 'net spf_env =
  sp_resolver :: spf_resolver
  sp_ip :: "'net ip_ops"
  sp_net_new :: "ip_addr \<Rightarrow> nat \<Rightarrow> 'net option"

datatype dns_query = QTxt string | QIp string | QMx string

datatype macro_mode = Lenient | Report

record evaluator =
  ev_budget :: nat
  ev_blocked :: "unsupported_term option"
  ev_queries :: "dns_query list"

definition evaluator_new :: evaluator where
  "evaluator_new = \<lparr>ev_budget = MAX_DNS_LOOKUPS, ev_blocked = None, ev_queries = []\<rparr>"

definition log_query :: "dns_query \<Rightarrow> evaluator \<Rightarrow> evaluator" where
  "log_query q ev = ev\<lparr>ev_queries := ev_queries ev @ [q]\<rparr>"

definition spend_lookup :: "evaluator \<Rightarrow> evaluator option" where
  "spend_lookup ev = (if ev_budget ev = 0 then None else Some (ev\<lparr>ev_budget := ev_budget ev - 1\<rparr>))"

definition note_unsupported :: "string \<Rightarrow> string \<Rightarrow> unsupported_kind \<Rightarrow> evaluator \<Rightarrow> evaluator" where
  "note_unsupported t d k ev =
     (if ev_blocked ev = None then ev\<lparr>ev_blocked := Some \<lparr>ut_term = t, ut_domain = d, ut_kind = k\<rparr>\<rparr> else ev)"

section \<open>Parsing\<close>

definition split_qualifier :: "string \<Rightarrow> char \<times> string" where
  "split_qualifier t =
     (case t of
        [] \<Rightarrow> (CHR ''+'', t)
      | c # cs \<Rightarrow> if c \<in> {CHR ''+'', CHR ''-'', CHR ''~'', CHR ''?''} then (c, cs) else (CHR ''+'', t))"

text \<open>\<open>str::parse::<u8>\<close>: digits with an optional plus sign, at most 255.\<close>

definition parse_u8 :: "string \<Rightarrow> nat option" where
  "parse_u8 s =
     (let ds = (case strip_prefix ''+'' s of Some r \<Rightarrow> r | None \<Rightarrow> s) in
      if ds \<noteq> [] \<and> list_all is_ascii_digit ds \<and> digits_value ds \<le> 255 then Some (digits_value ds) else None)"

definition parse_domain_spec :: "string \<Rightarrow> string \<Rightarrow> string \<Rightarrow> string \<times> nat option" where
  "parse_domain_spec mechanism keyword current_domain =
     (let rest = drop (min (length keyword) (length mechanism)) mechanism;
          parts = (case split_once (CHR ''/'') rest of
             Some (d, cidr) \<Rightarrow> (d, parse_u8 cidr) | None \<Rightarrow> (rest, None));
          d = (case strip_prefix '':'' (fst parts) of
                 Some explicit \<Rightarrow> if explicit \<noteq> [] then explicit else current_domain
               | None \<Rightarrow> current_domain)
      in (d, snd parts))"

definition ip_in_cidr :: "'net spf_env \<Rightarrow> string \<Rightarrow> ip_addr \<Rightarrow> bool option" where
  "ip_in_cidr env spec ip =
     (case net_parse (sp_ip env) spec of
        Some net \<Rightarrow> Some (net_contains (sp_ip env) net ip)
      | None \<Rightarrow> map_option (\<lambda>a. a = ip) (ip_parse (sp_ip env) spec))"

definition ip_matches :: "'net spf_env \<Rightarrow> ip_addr \<Rightarrow> ip_addr \<Rightarrow> nat option \<Rightarrow> bool" where
  "ip_matches env rec ip cidr =
     (case cidr of
        None \<Rightarrow> rec = ip
      | Some len \<Rightarrow>
          (case sp_net_new env rec len of
             Some net \<Rightarrow> net_contains (sp_ip env) net ip
           | None \<Rightarrow> rec = ip))"

section \<open>The evaluator\<close>

datatype mechanism_outcome = Matched | NoMatch | MechError spf_result

definition is_spf_record :: "string \<Rightarrow> bool" where
  "is_spf_record r \<longleftrightarrow> trim_start r = ''v=spf1'' \<or> prefix ''v=spf1 '' (trim_start r)"

definition fetch_spf_record :: "'net spf_env \<Rightarrow> string \<Rightarrow> spf_result + string option" where
  "fetch_spf_record env d =
     (case rs_txt (sp_resolver env) d of
        None \<Rightarrow> Inl SpfTempError
      | Some records \<Rightarrow>
          (case filter is_spf_record records of
             [] \<Rightarrow> Inr None
           | [r] \<Rightarrow> Inr (Some r)
           | _ \<Rightarrow> Inl SpfPermError))"

definition match_a :: "'net spf_env \<Rightarrow> ip_addr \<Rightarrow> string \<Rightarrow> string \<Rightarrow> evaluator
    \<Rightarrow> mechanism_outcome \<times> evaluator" where
  "match_a env ip mechanism current_domain ev =
     (case parse_domain_spec mechanism ''a'' current_domain of
        (target, cidr) \<Rightarrow>
          (case spend_lookup ev of
             None \<Rightarrow> (MechError SpfPermError, ev)
           | Some ev1 \<Rightarrow>
               (case rs_ip_addresses (sp_resolver env) target of
                  None \<Rightarrow> (MechError SpfTempError, log_query (QIp target) ev1)
                | Some addrs \<Rightarrow>
                    (if list_ex (\<lambda>a. ip_matches env a ip cidr) addrs then Matched else NoMatch,
                     log_query (QIp target) ev1))))"

fun match_mx_hosts :: "'net spf_env \<Rightarrow> ip_addr \<Rightarrow> nat option \<Rightarrow> string list \<Rightarrow> evaluator
    \<Rightarrow> mechanism_outcome \<times> evaluator" where
  "match_mx_hosts env ip cidr [] ev = (NoMatch, ev)"
| "match_mx_hosts env ip cidr (h # hs) ev =
     (case rs_ip_addresses (sp_resolver env) h of
        None \<Rightarrow> (MechError SpfTempError, log_query (QIp h) ev)
      | Some addrs \<Rightarrow>
          if list_ex (\<lambda>a. ip_matches env a ip cidr) addrs then (Matched, log_query (QIp h) ev)
          else match_mx_hosts env ip cidr hs (log_query (QIp h) ev))"

definition match_mx :: "'net spf_env \<Rightarrow> ip_addr \<Rightarrow> string \<Rightarrow> string \<Rightarrow> evaluator
    \<Rightarrow> mechanism_outcome \<times> evaluator" where
  "match_mx env ip mechanism current_domain ev =
     (case parse_domain_spec mechanism ''mx'' current_domain of
        (target, cidr) \<Rightarrow>
          (case spend_lookup ev of
             None \<Rightarrow> (MechError SpfPermError, ev)
           | Some ev1 \<Rightarrow>
               (case rs_mx_hosts (sp_resolver env) target of
                  None \<Rightarrow> (MechError SpfTempError, log_query (QMx target) ev1)
                | Some hosts \<Rightarrow>
                    if length hosts > MAX_MX_ADDRESS_LOOKUPS
                    then (MechError SpfPermError, log_query (QMx target) ev1)
                    else match_mx_hosts env ip cidr hosts (log_query (QMx target) ev1))))"

text \<open>\<open>rec\<close> is the recursive \<open>check_host\<close>.\<close>

type_synonym host_check = "string \<Rightarrow> evaluator \<Rightarrow> (spf_result \<times> evaluator) option"

definition include_outcome :: "spf_result \<Rightarrow> mechanism_outcome" where
  "include_outcome r =
     (case r of
        SpfPass \<Rightarrow> Matched
      | SpfFail \<Rightarrow> NoMatch | SpfSoftFail \<Rightarrow> NoMatch | SpfNeutral \<Rightarrow> NoMatch
      | SpfNone \<Rightarrow> MechError SpfPermError
      | SpfTempError \<Rightarrow> MechError SpfTempError
      | SpfPermError \<Rightarrow> MechError SpfPermError)"

definition match_include :: "host_check \<Rightarrow> string \<Rightarrow> evaluator \<Rightarrow> (mechanism_outcome \<times> evaluator) option" where
  "match_include rec target ev =
     (case spend_lookup ev of
        None \<Rightarrow> Some (MechError SpfPermError, ev)
      | Some ev1 \<Rightarrow> map_option (\<lambda>(r, ev2). (include_outcome r, ev2)) (rec target ev1))"

text \<open>Which mechanism the lower-cased text is, in the order of the tests.\<close>

datatype mechanism = MechAll | MechIp string | MechA | MechMx | MechInclude string | MechOther

definition classify_mechanism :: "string \<Rightarrow> mechanism" where
  "classify_mechanism lower =
     (if lower = ''all'' then MechAll
      else (case (case strip_prefix ''ip4:'' lower of
                    Some rest \<Rightarrow> Some rest | None \<Rightarrow> strip_prefix ''ip6:'' lower) of
         Some rest \<Rightarrow> MechIp rest
       | None \<Rightarrow>
           if lower = ''a'' \<or> prefix ''a:'' lower \<or> prefix ''a/'' lower then MechA
           else if lower = ''mx'' \<or> prefix ''mx:'' lower \<or> prefix ''mx/'' lower then MechMx
           else (case strip_prefix ''include:'' lower of
              Some target \<Rightarrow> MechInclude target
            | None \<Rightarrow> MechOther)))"

definition ip_outcome :: "bool option \<Rightarrow> mechanism_outcome" where
  "ip_outcome r = (case r of Some b \<Rightarrow> if b then Matched else NoMatch | None \<Rightarrow> MechError SpfPermError)"

definition match_mechanism :: "'net spf_env \<Rightarrow> macro_mode \<Rightarrow> host_check \<Rightarrow> ip_addr \<Rightarrow> string \<Rightarrow> string
    \<Rightarrow> evaluator \<Rightarrow> (mechanism_outcome \<times> evaluator) option" where
  "match_mechanism env mode rec ip mechanism current_domain ev =
     (case (if mode = Report then unsupported_kind_of mechanism else None) of
        Some kind \<Rightarrow> Some (NoMatch, note_unsupported mechanism current_domain kind ev)
      | None \<Rightarrow>
          (case classify_mechanism (to_ascii_lowercase mechanism) of
             MechAll \<Rightarrow> Some (Matched, ev)
           | MechIp rest \<Rightarrow> Some (ip_outcome (ip_in_cidr env rest ip), ev)
           | MechA \<Rightarrow> Some (match_a env ip mechanism current_domain ev)
           | MechMx \<Rightarrow> Some (match_mx env ip mechanism current_domain ev)
           | MechInclude target \<Rightarrow> match_include rec target ev
           | MechOther \<Rightarrow> Some (NoMatch, ev)))"

text \<open>The loop over the terms of a record, and what follows it.\<close>

fun check_terms :: "'net spf_env \<Rightarrow> macro_mode \<Rightarrow> host_check \<Rightarrow> ip_addr \<Rightarrow> string \<Rightarrow> string option
    \<Rightarrow> string list \<Rightarrow> evaluator \<Rightarrow> (spf_result \<times> evaluator) option" where
  "check_terms env mode rec ip d redirect [] ev =
     (case redirect of
        None \<Rightarrow> Some (SpfNeutral, ev)
      | Some target \<Rightarrow>
          (case spend_lookup ev of
             None \<Rightarrow> Some (SpfPermError, ev)
           | Some ev1 \<Rightarrow> rec target ev1))"
| "check_terms env mode rec ip d redirect (t # ts) ev =
     (case strip_prefix ''redirect='' t of
        Some target \<Rightarrow>
          if mode = Report \<and> term_uses_macro target
          then check_terms env mode rec ip d redirect ts (note_unsupported t d KindMacro ev)
          else check_terms env mode rec ip d (Some target) ts ev
      | None \<Rightarrow>
          if CHR ''='' \<in> set t then check_terms env mode rec ip d redirect ts ev
          else (case split_qualifier t of
             (q, mechanism) \<Rightarrow>
               (case match_mechanism env mode rec ip mechanism d ev of
                  None \<Rightarrow> None
                | Some (Matched, ev') \<Rightarrow> Some (from_qualifier q, ev')
                | Some (NoMatch, ev') \<Rightarrow> check_terms env mode rec ip d redirect ts ev'
                | Some (MechError r, ev') \<Rightarrow> Some (r, ev'))))"

fun check_host :: "nat \<Rightarrow> 'net spf_env \<Rightarrow> macro_mode \<Rightarrow> ip_addr \<Rightarrow> host_check" where
  "check_host 0 env mode ip d ev = None"
| "check_host (Suc n) env mode ip d ev =
     (let ev1 = log_query (QTxt d) ev in
      case fetch_spf_record env d of
        Inl r \<Rightarrow> Some (r, ev1)
      | Inr None \<Rightarrow> Some (SpfNone, ev1)
      | Inr (Some record) \<Rightarrow>
          check_terms env mode (check_host n env mode ip) ip d None (drop 1 (split_whitespace record)) ev1)"

definition run_check :: "'net spf_env \<Rightarrow> macro_mode \<Rightarrow> string \<Rightarrow> ip_addr \<Rightarrow> spf_result \<times> evaluator" where
  "run_check env mode d ip =
     (case check_host (MAX_DNS_LOOKUPS + 1) env mode ip d evaluator_new of
        Some res \<Rightarrow> res | None \<Rightarrow> (SpfPermError, evaluator_new))"

definition evaluate :: "'net spf_env \<Rightarrow> string \<Rightarrow> ip_addr \<Rightarrow> spf_result" where
  "evaluate env d ip = (if trim d = [] then SpfNone else fst (run_check env Lenient d ip))"

definition evaluate_verifiable :: "'net spf_env \<Rightarrow> string \<Rightarrow> ip_addr \<Rightarrow> spf_verdict" where
  "evaluate_verifiable env d ip =
     (if trim d = [] then Determined SpfNone
      else (case run_check env Report d ip of
         (r, ev) \<Rightarrow>
           if r = SpfPass then Determined SpfPass
           else (case ev_blocked ev of Some t \<Rightarrow> Unverifiable t | None \<Rightarrow> Determined r)))"

definition received_spf_header :: "(ip_addr \<Rightarrow> string) \<Rightarrow> spf_result \<Rightarrow> string \<Rightarrow> string \<Rightarrow> ip_addr \<Rightarrow> string
    \<Rightarrow> string" where
  "received_spf_header show_ip r receiver envelope_from client_ip helo_name =
     (let ip = show_ip client_ip;
          comment = (case r of
             SpfPass \<Rightarrow> receiver @ '': domain of '' @ envelope_from @ '' designates '' @ ip @ '' as permitted sender''
           | SpfFail \<Rightarrow> receiver @ '': domain of '' @ envelope_from @ '' does not designate '' @ ip
                @ '' as permitted sender''
           | SpfSoftFail \<Rightarrow> receiver @ '': domain of transitioning '' @ envelope_from @ '' does not designate ''
                @ ip @ '' as permitted sender''
           | SpfNeutral \<Rightarrow> receiver @ '': '' @ ip @ '' is neither permitted nor denied by domain of '' @ envelope_from
           | SpfNone \<Rightarrow> receiver @ '': '' @ envelope_from @ '' does not publish an SPF policy''
           | SpfTempError \<Rightarrow> receiver @ '': transient error resolving SPF for '' @ envelope_from
           | SpfPermError \<Rightarrow> receiver @ '': permanent error evaluating SPF for '' @ envelope_from)
      in spf_as_str r @ '' ('' @ comment @ '') client-ip='' @ ip @ ''; envelope-from=<'' @ envelope_from @ ''>;''
         @ (if helo_name = [] then [] else '' helo='' @ helo_name @ '';''))"

section \<open>The static resolver\<close>

record static_resolver =
  sr_txt :: "(string \<times> string list) list"
  sr_addresses :: "(string \<times> ip_addr list) list"
  sr_mx :: "(string \<times> string list) list"
  sr_fail :: bool

definition static_new :: static_resolver where
  "static_new = \<lparr>sr_txt = [], sr_addresses = [], sr_mx = [], sr_fail = False\<rparr>"

definition push_entry :: "string \<Rightarrow> 'v \<Rightarrow> (string \<times> 'v list) list \<Rightarrow> (string \<times> 'v list) list" where
  "push_entry k v m = al_insert k ((case map_of m k of Some vs \<Rightarrow> vs | None \<Rightarrow> []) @ [v]) m"

definition add_txt :: "static_resolver \<Rightarrow> string \<Rightarrow> string \<Rightarrow> static_resolver" where
  "add_txt r name value = r\<lparr>sr_txt := push_entry name value (sr_txt r)\<rparr>"

definition add_address :: "static_resolver \<Rightarrow> string \<Rightarrow> ip_addr \<Rightarrow> static_resolver" where
  "add_address r name ip = r\<lparr>sr_addresses := push_entry name ip (sr_addresses r)\<rparr>"

definition add_mx :: "static_resolver \<Rightarrow> string \<Rightarrow> string \<Rightarrow> static_resolver" where
  "add_mx r name host = r\<lparr>sr_mx := push_entry name host (sr_mx r)\<rparr>"

definition fail_all :: "static_resolver \<Rightarrow> static_resolver" where
  "fail_all r = r\<lparr>sr_fail := True\<rparr>"

definition static_lookup :: "bool \<Rightarrow> (string \<times> 'v list) list \<Rightarrow> string \<Rightarrow> 'v list option" where
  "static_lookup failing m name =
     (if failing then None else Some (case map_of m name of Some vs \<Rightarrow> vs | None \<Rightarrow> []))"

definition static_spf_resolver :: "static_resolver \<Rightarrow> spf_resolver" where
  "static_spf_resolver r =
     \<lparr>rs_txt = static_lookup (sr_fail r) (sr_txt r),
      rs_ip_addresses = static_lookup (sr_fail r) (sr_addresses r),
      rs_mx_hosts = static_lookup (sr_fail r) (sr_mx r)\<rparr>"

section \<open>Work bounds\<close>

text \<open>
  What a run may do to the evaluator: the budget does not grow, the log grows by
  at most eleven queries for each lookup spent and \<open>k\<close> more, and a recorded
  term stays.
\<close>

definition work_ok :: "nat \<Rightarrow> evaluator \<Rightarrow> evaluator \<Rightarrow> bool" where
  "work_ok k ev ev' \<longleftrightarrow>
     ev_budget ev' \<le> ev_budget ev
     \<and> length (ev_queries ev') \<le> length (ev_queries ev) + 11 * (ev_budget ev - ev_budget ev') + k
     \<and> (ev_blocked ev \<noteq> None \<longrightarrow> ev_blocked ev' = ev_blocked ev)"

lemma work_ok_refl [simp]: "work_ok k ev ev"
  by (simp add: work_ok_def)

lemma work_ok_trans: "work_ok j a b \<Longrightarrow> work_ok k b c \<Longrightarrow> work_ok (j + k) a c"
  by (auto simp: work_ok_def)

lemma work_ok_trans0: "work_ok 0 a b \<Longrightarrow> work_ok 0 b c \<Longrightarrow> work_ok 0 a c"
  using work_ok_trans [of 0 a b 0 c] by simp

lemma work_ok_note [simp]: "work_ok 0 ev (note_unsupported t d k ev)"
  by (auto simp: work_ok_def note_unsupported_def)

lemma spend_lookup_SomeD: "spend_lookup ev = Some ev1 \<Longrightarrow>
   ev1 = ev\<lparr>ev_budget := ev_budget ev - 1\<rparr> \<and> 0 < ev_budget ev"
  by (auto simp: spend_lookup_def split: if_splits)

text \<open>A lookup pays for the queries that follow it.\<close>

lemma work_ok_spend:
  assumes "spend_lookup ev = Some ev1" "work_ok k ev1 ev2" "k \<le> 11"
  shows "work_ok 0 ev ev2"
  using assms spend_lookup_SomeD [OF assms(1)] by (auto simp: work_ok_def)

lemma work_ok_log [simp]: "work_ok (Suc 0) ev (log_query q ev)"
  by (simp add: work_ok_def log_query_def)

lemma match_a_work: "match_a env ip m d ev = (out, ev') \<Longrightarrow> work_ok 0 ev ev'"
  by (auto simp: match_a_def split: prod.splits option.splits intro: work_ok_spend [of _ _ "Suc 0"])

lemma match_mx_hosts_work:
  "match_mx_hosts env ip cidr hs ev = (out, ev') \<Longrightarrow> work_ok (length hs) ev ev'"
proof (induction hs arbitrary: ev)
  case (Cons h hs)
  show ?case
  proof (cases "\<exists>addrs. rs_ip_addresses (sp_resolver env) h = Some addrs
      \<and> \<not> list_ex (\<lambda>a. ip_matches env a ip cidr) addrs")
    case True
    with Cons.prems have "match_mx_hosts env ip cidr hs (log_query (QIp h) ev) = (out, ev')" by auto
    from work_ok_trans [OF work_ok_log Cons.IH [OF this]] show ?thesis by simp
  next
    case False
    with Cons.prems have "ev' = log_query (QIp h) ev" by (auto split: option.split_asm)
    then show ?thesis by (simp add: work_ok_def log_query_def)
  qed
qed simp

lemma match_mx_work:
  assumes "match_mx env ip m d ev = (out, ev')"
  shows "work_ok 0 ev ev'"
proof -
  obtain target cidr where p: "parse_domain_spec m ''mx'' d = (target, cidr)" by force
  show ?thesis
  proof (cases "spend_lookup ev")
    case None
    with assms p show ?thesis by (simp add: match_mx_def)
  next
    case (Some ev1)
    let ?ev2 = "log_query (QMx target) ev1"
    have "ev' = ?ev2 \<or> (\<exists>hs. length hs \<le> 10 \<and> match_mx_hosts env ip cidr hs ?ev2 = (out, ev'))"
      using assms p Some
      by (auto simp: match_mx_def MAX_MX_ADDRESS_LOOKUPS_def split: option.split_asm if_splits)
    then obtain k where "k \<le> 10" "work_ok k ?ev2 ev'"
      using match_mx_hosts_work work_ok_refl by blast
    with work_ok_trans [OF work_ok_log this(2)] Some show ?thesis
      by (auto intro: work_ok_spend [OF Some, of "Suc k"])
  qed
qed

text \<open>A computation that returns, within its budget and \<open>k\<close> more queries.\<close>

definition works :: "nat \<Rightarrow> evaluator \<Rightarrow> ('a \<times> evaluator) option \<Rightarrow> bool" where
  "works k ev m \<longleftrightarrow> (\<exists>out ev'. m = Some (out, ev') \<and> work_ok k ev ev')"

lemma works_Some [simp]: "works k ev (Some p) \<longleftrightarrow> work_ok k ev (snd p)"
  by (cases p) (simp add: works_def)

lemma works_chain: "work_ok j ev ev1 \<Longrightarrow> works k ev1 m \<Longrightarrow> works (j + k) ev m"
  by (auto simp: works_def intro: work_ok_trans)

lemma works_spend: "spend_lookup ev = Some ev1 \<Longrightarrow> works 1 ev1 m \<Longrightarrow> works 0 ev m"
  unfolding works_def using work_ok_spend [of ev ev1 1] by auto

lemma works_map: "works k ev m \<Longrightarrow> works k ev (map_option (\<lambda>(r, ev2). (f r, ev2)) m)"
  by (auto simp: works_def)

definition rec_ok :: "nat \<Rightarrow> host_check \<Rightarrow> bool" where
  "rec_ok n rec \<longleftrightarrow> (\<forall>d ev. ev_budget ev < n \<longrightarrow> works 1 ev (rec d ev))"

lemma rec_ok_spend:
  assumes "rec_ok n rec" "ev_budget ev \<le> n" "spend_lookup ev = Some ev1"
  shows "works 0 ev (rec target ev1)"
proof -
  from spend_lookup_SomeD [OF assms(3)] assms(2) have "ev_budget ev1 < n" by auto
  with assms(1) have "works 1 ev1 (rec target ev1)" by (simp add: rec_ok_def)
  from works_spend [OF assms(3) this] show ?thesis .
qed

lemma match_include_work:
  assumes "rec_ok n rec" "ev_budget ev \<le> n"
  shows "works 0 ev (match_include rec target ev)"
  using rec_ok_spend [OF assms]
  by (cases "spend_lookup ev") (simp_all add: match_include_def works_map)

lemma match_mechanism_work:
  assumes "rec_ok n rec" "ev_budget ev \<le> n"
  shows "works 0 ev (match_mechanism env mode rec ip m d ev)"
proof -
  have "work_ok 0 ev (snd (match_a env ip m d ev))" "work_ok 0 ev (snd (match_mx env ip m d ev))"
    using match_a_work match_mx_work by (metis prod.collapse)+
  then show ?thesis
    unfolding match_mechanism_def Let_def
    using match_include_work [OF assms] by (simp split: option.split mechanism.split)
qed

lemma check_terms_work:
  assumes "rec_ok n rec" "ev_budget ev \<le> n"
  shows "works 0 ev (check_terms env mode rec ip d redirect ts ev)"
  using assms(2)
proof (induction ts arbitrary: redirect ev)
  case Nil
  then show ?case
    using rec_ok_spend [OF assms(1)] by (simp split: option.split)
next
  case (Cons t ts)
  have step: "works 0 ev (check_terms env mode rec ip d redirect' ts ev1)"
    if "work_ok 0 ev ev1" for redirect' ev1
  proof -
    from that Cons.prems have "ev_budget ev1 \<le> n" by (auto simp: work_ok_def)
    from works_chain [OF that Cons.IH [OF this]] show ?thesis by simp
  qed
  obtain q m where q: "split_qualifier t = (q, m)" by force
  obtain out ev1 where out: "match_mechanism env mode rec ip m d ev = Some (out, ev1)" "work_ok 0 ev ev1"
    using match_mechanism_work [OF assms(1) Cons.prems, of env mode ip m d] by (auto simp: works_def)
  show ?case
  proof (cases "strip_prefix ''redirect='' t")
    case None
    with q out step [of ev redirect] step [OF out(2), of redirect] show ?thesis
      by (cases out) auto
  next
    case (Some target)
    with step [of ev "Some target"] step [OF work_ok_note, of redirect t d KindMacro] show ?thesis
      by auto
  qed
qed

lemma check_host_enough: "rec_ok n (check_host n env mode ip)"
proof (induction n)
  case (Suc n)
  have "works 1 ev (check_host (Suc n) env mode ip d ev)" if "ev_budget ev < Suc n" for d ev
  proof -
    let ?ev1 = "log_query (QTxt d) ev"
    have "ev_budget ?ev1 \<le> n" using that by (simp add: log_query_def)
    from check_terms_work [OF Suc this] works_chain [OF work_ok_log]
    have "works 1 ev (check_terms env mode (check_host n env mode ip) ip d None ts ?ev1)" for ts
      by fastforce
    then show ?thesis by (simp add: Let_def split: sum.split option.split)
  qed
  then show ?case by (simp add: rec_ok_def)
qed (simp add: rec_ok_def)

lemma spf_evaluation_result:
  "check_host (MAX_DNS_LOOKUPS + 1) env mode ip d evaluator_new = Some (run_check env mode d ip)
   \<and> work_ok 1 evaluator_new (snd (run_check env mode d ip))"
proof -
  have "works 1 evaluator_new (check_host (MAX_DNS_LOOKUPS + 1) env mode ip d evaluator_new)"
    using check_host_enough [of "MAX_DNS_LOOKUPS + 1" env mode ip]
    by (simp add: rec_ok_def evaluator_new_def)
  then show ?thesis by (auto simp: works_def run_check_def)
qed

text \<open>
  C18. SPF evaluation always ends and does little work: for every DNS content,
  loops of \<open>include\<close> and \<open>redirect\<close> included, the walk returns a result within
  the depth the model allows, after at most 111 DNS queries: the record itself,
  and for each of the ten lookups its own query and at most ten exchange
  addresses.
\<close>

theorem spf_evaluation_bounded:
  "check_host (MAX_DNS_LOOKUPS + 1) env mode ip d evaluator_new = Some (run_check env mode d ip)
   \<and> length (ev_queries (snd (run_check env mode d ip))) \<le> 111"
  using spf_evaluation_result [of env mode ip d]
  by (auto simp: work_ok_def evaluator_new_def MAX_DNS_LOOKUPS_def)

section \<open>Soundness of a pass\<close>

text \<open>What it means that a mechanism, other than \<open>include\<close>, names an address.\<close>

definition designates :: "'net spf_env \<Rightarrow> ip_addr \<Rightarrow> string \<Rightarrow> string \<Rightarrow> bool" where
  "designates env ip d m \<longleftrightarrow>
     (case classify_mechanism (to_ascii_lowercase m) of
        MechAll \<Rightarrow> True
      | MechIp rest \<Rightarrow> ip_in_cidr env rest ip = Some True
      | MechA \<Rightarrow> (\<exists>addrs. rs_ip_addresses (sp_resolver env) (fst (parse_domain_spec m ''a'' d)) = Some addrs
          \<and> (\<exists>a \<in> set addrs. ip_matches env a ip (snd (parse_domain_spec m ''a'' d))))
      | MechMx \<Rightarrow> (\<exists>hosts. rs_mx_hosts (sp_resolver env) (fst (parse_domain_spec m ''mx'' d)) = Some hosts
          \<and> (\<exists>h \<in> set hosts. \<exists>addrs. rs_ip_addresses (sp_resolver env) h = Some addrs
              \<and> (\<exists>a \<in> set addrs. ip_matches env a ip (snd (parse_domain_spec m ''mx'' d)))))
      | _ \<Rightarrow> False)"

definition record_terms :: "'net spf_env \<Rightarrow> string \<Rightarrow> string list" where
  "record_terms env d =
     (case fetch_spf_record env d of
        Inr (Some r) \<Rightarrow> drop 1 (split_whitespace r) | _ \<Rightarrow> [])"

text \<open>The addresses a domain's policy permits, as a relation over the published records.\<close>

inductive spf_permits :: "'net spf_env \<Rightarrow> ip_addr \<Rightarrow> string \<Rightarrow> bool" for env ip where
  direct: "t \<in> set (record_terms env d) \<Longrightarrow> split_qualifier t = (q, m) \<Longrightarrow> from_qualifier q = SpfPass \<Longrightarrow>
     designates env ip d m \<Longrightarrow> spf_permits env ip d"
| included: "t \<in> set (record_terms env d) \<Longrightarrow> split_qualifier t = (q, m) \<Longrightarrow> from_qualifier q = SpfPass \<Longrightarrow>
     classify_mechanism (to_ascii_lowercase m) = MechInclude target \<Longrightarrow> spf_permits env ip target \<Longrightarrow>
     spf_permits env ip d"
| redirected: "''redirect='' @ target \<in> set (record_terms env d) \<Longrightarrow> spf_permits env ip target \<Longrightarrow>
     spf_permits env ip d"

lemma match_mx_hosts_Matched:
  "match_mx_hosts env ip cidr hs ev = (Matched, ev') \<Longrightarrow>
   \<exists>h \<in> set hs. \<exists>addrs. rs_ip_addresses (sp_resolver env) h = Some addrs
      \<and> (\<exists>a \<in> set addrs. ip_matches env a ip cidr)"
  by (induction hs arbitrary: ev) (auto simp: list_ex_iff split: option.split_asm if_splits)

lemma include_outcome_Matched [simp]: "include_outcome r = Matched \<longleftrightarrow> r = SpfPass"
  by (cases r) (simp_all add: include_outcome_def)

lemma match_mechanism_Matched:
  assumes "match_mechanism env mode rec ip m d ev = Some (Matched, ev')"
  shows "designates env ip d m
    \<or> (\<exists>target ev1. classify_mechanism (to_ascii_lowercase m) = MechInclude target
         \<and> rec target ev1 = Some (SpfPass, ev'))"
proof (cases "if mode = Report then unsupported_kind_of m else None")
  case (Some k)
  with assms show ?thesis by (simp add: match_mechanism_def)
next
  case None
  note mm = assms [unfolded match_mechanism_def None option.case]
  show ?thesis
  proof (cases "classify_mechanism (to_ascii_lowercase m)")
    case (MechIp rest)
    with mm show ?thesis by (auto simp: designates_def ip_outcome_def split: option.split_asm if_splits)
  next
    case MechA
    with mm show ?thesis
      by (auto simp: designates_def match_a_def list_ex_iff case_prod_beta
          split: option.split_asm if_splits)
  next
    case MechMx
    with mm show ?thesis
      by (auto simp: designates_def match_mx_def case_prod_beta dest!: match_mx_hosts_Matched
          split: option.split_asm if_splits)
  next
    case (MechInclude target)
    with mm show ?thesis
      by (auto simp: match_include_def include_outcome_Matched split: option.split_asm)
  qed (use mm in \<open>simp_all add: designates_def\<close>)
qed

lemma match_mx_hosts_error: "match_mx_hosts env ip cidr hs ev = (MechError r, ev') \<Longrightarrow> r \<noteq> SpfPass"
  by (induction hs arbitrary: ev) (auto split: option.split_asm if_splits)

lemma match_mechanism_error:
  assumes "match_mechanism env mode rec ip m d ev = Some (MechError r, ev')"
  shows "r \<noteq> SpfPass"
proof (cases "if mode = Report then unsupported_kind_of m else None")
  case (Some k)
  with assms show ?thesis by (simp add: match_mechanism_def)
next
  case None
  with assms show ?thesis
    by (auto simp: match_mechanism_def ip_outcome_def match_a_def match_mx_def match_include_def
        include_outcome_def case_prod_beta dest: match_mx_hosts_error
        split: mechanism.split_asm option.split_asm if_splits spf_result.split_asm)
qed

lemma check_terms_pass:
  assumes rec: "\<And>target ev ev'. rec target ev = Some (SpfPass, ev') \<Longrightarrow> spf_permits env ip target"
    and "check_terms env mode rec ip d redirect ts ev = Some (SpfPass, ev')"
    and "set ts \<subseteq> set (record_terms env d)"
    and "\<And>target. redirect = Some target \<Longrightarrow> ''redirect='' @ target \<in> set (record_terms env d)"
  shows "spf_permits env ip d"
  using assms(2-)
proof (induction ts arbitrary: redirect ev)
  case Nil
  then show ?case by (auto split: option.split_asm intro: rec spf_permits.redirected)
next
  case (Cons t ts)
  show ?case
  proof (cases "strip_prefix ''redirect='' t")
    case (Some target)
    with Cons.prems(2) have "''redirect='' @ target \<in> set (record_terms env d)"
      by (simp add: strip_prefix_Some_iff)
    with Some Cons show ?thesis by (auto split: if_splits)
  next
    case None
    show ?thesis
    proof (cases "CHR ''='' \<in> set t")
      case True
      with None Cons show ?thesis by auto
    next
      case False
      obtain q m where q: "split_qualifier t = (q, m)" by force
      obtain out ev1 where out: "match_mechanism env mode rec ip m d ev = Some (out, ev1)"
        using None False q Cons.prems(1) by (auto split: option.split_asm)
      show ?thesis
      proof (cases out)
        case Matched
        with None False q out Cons.prems(1) have "from_qualifier q = SpfPass" by simp
        with match_mechanism_Matched [of env mode rec ip m d ev ev1] q out Matched Cons.prems(2) rec
        show ?thesis by (auto intro: spf_permits.direct spf_permits.included)
      next
        case NoMatch
        with None False q out Cons show ?thesis by simp
      next
        case (MechError r)
        with None False q out Cons.prems(1) match_mechanism_error [of env mode rec ip m d ev r ev1]
        show ?thesis by simp
      qed
    qed
  qed
qed

lemma fetch_spf_record_result: "fetch_spf_record env d \<noteq> Inl SpfPass"
  by (auto simp: fetch_spf_record_def split: option.split list.split)

lemma check_host_pass: "check_host n env mode ip d ev = Some (SpfPass, ev') \<Longrightarrow> spf_permits env ip d"
proof (induction n arbitrary: d ev ev')
  case (Suc n)
  from fetch_spf_record_result [of env d] Suc.prems obtain r where
    r: "fetch_spf_record env d = Inr (Some r)"
    by (auto simp: Let_def split: sum.split_asm option.split_asm)
  with Suc.prems have "check_terms env mode (check_host n env mode ip) ip d None
      (record_terms env d) (log_query (QTxt d) ev) = Some (SpfPass, ev')"
    by (simp add: record_terms_def)
  from check_terms_pass [OF Suc.IH this] show ?case by simp
qed simp

text \<open>
  C39. A pass is justified by the published records: when evaluation answers
  \<open>pass\<close>, the domain's only SPF record contains a term with a passing qualifier
  that names the client's address (\<open>all\<close>, an address range, an address of \<open>a\<close> or
  of an \<open>mx\<close> exchange), an \<open>include\<close> of a domain whose policy permits it, or a
  \<open>redirect\<close> to such a domain.
\<close>

theorem spf_pass_sound:
  assumes "evaluate env d ip = SpfPass"
  shows "spf_permits env ip d"
proof -
  obtain r ev' where run: "run_check env Lenient d ip = (r, ev')" by force
  with assms have "r = SpfPass" by (simp add: evaluate_def split: if_splits)
  with spf_evaluation_result [of env Lenient ip d] run
  have "check_host (MAX_DNS_LOOKUPS + 1) env Lenient ip d evaluator_new = Some (SpfPass, ev')" by metis
  then show ?thesis by (rule check_host_pass)
qed

lemma check_host_numeral [simp]:
  "check_host (numeral k) env mode ip d ev =
     (let ev1 = log_query (QTxt d) ev in
      case fetch_spf_record env d of
        Inl r \<Rightarrow> Some (r, ev1)
      | Inr None \<Rightarrow> Some (SpfNone, ev1)
      | Inr (Some rec) \<Rightarrow>
          check_terms env mode (check_host (pred_numeral k) env mode ip) ip d None
            (drop 1 (split_whitespace rec)) ev1)"
  by (simp add: numeral_eq_Suc)

definition demo_spf_env :: "static_resolver \<Rightarrow> (nat \<times> nat) spf_env" where
  "demo_spf_env r = \<lparr>sp_resolver = static_spf_resolver r, sp_ip = demo_ip_ops, sp_net_new = (\<lambda>a n. None)\<rparr>"

lemmas spf_eval =
  evaluate_def run_check_def evaluator_new_def log_query_def fetch_spf_record_def
  static_spf_resolver_def static_lookup_def add_txt_def static_new_def push_entry_def is_spf_record_def
  classify_mechanism_def match_mechanism_def split_qualifier_def from_qualifier_def demo_spf_env_def
  ip_outcome_def ip_in_cidr_def include_outcome_def match_include_def spend_lookup_def MAX_DNS_LOOKUPS_def
  evaluate_verifiable_def unsupported_kind_of_def term_uses_macro_def note_unsupported_def

theorem spf_pass_sound_witness:
  "spf_permits (demo_spf_env (add_txt static_new ''x.io'' ''v=spf1 ip4:1.0.0.0/8 -all'')) (V4 0x01020304) ''x.io''"
  by (rule spf_pass_sound)
     (simp add: spf_eval trim_eval search_eval ascii_eval demo_ip_ops_def)

section \<open>The two evaluators\<close>

text \<open>
  The reporting walk agrees with the lenient one as long as it has met no term
  it cannot resolve.
\<close>

definition agrees :: "(('a \<times> evaluator) option) \<Rightarrow> ('a \<times> evaluator) option \<Rightarrow> bool" where
  "agrees m m' \<longleftrightarrow> (\<forall>r ev. m = Some (r, ev) \<and> ev_blocked ev = None \<longrightarrow> m' = m)"

lemma match_mechanism_agrees:
  assumes "\<And>target ev. ev_budget ev < n \<Longrightarrow> agrees (recR target ev) (recL target ev)" "ev_budget ev \<le> n"
  shows "agrees (match_mechanism env Report recR ip m d ev) (match_mechanism env Lenient recL ip m d ev)"
proof (cases "unsupported_kind_of m")
  case (Some k)
  then show ?thesis by (auto simp: agrees_def match_mechanism_def note_unsupported_def)
next
  case None
  have "agrees (match_include recR target ev) (match_include recL target ev)" for target
  proof (cases "spend_lookup ev")
    case (Some ev1)
    with spend_lookup_SomeD [OF Some] assms(2) have "ev_budget ev1 < n" by auto
    with assms(1) [OF this, of target] Some show ?thesis
      by (auto simp: agrees_def match_include_def)
  qed (simp add: agrees_def match_include_def)
  with None show ?thesis by (simp add: agrees_def match_mechanism_def split: mechanism.split)
qed

lemma check_terms_blocked:
  assumes "rec_ok n rec" "ev_budget ev \<le> n" "check_terms env mode rec ip d redirect ts ev = Some (r, ev')"
    and "ev_blocked ev \<noteq> None"
  shows "ev_blocked ev' \<noteq> None"
  using check_terms_work [OF assms(1,2), of env mode ip d redirect ts] assms(3,4)
  by (simp add: work_ok_def)

lemma check_terms_agrees:
  assumes "rec_ok n recR" and rec: "\<And>target ev. ev_budget ev < n \<Longrightarrow> agrees (recR target ev) (recL target ev)"
    and "ev_budget ev \<le> n"
  shows "agrees (check_terms env Report recR ip d redirect ts ev) (check_terms env Lenient recL ip d redirect ts ev)"
  using assms(3)
proof (induction ts arbitrary: redirect ev)
  case Nil
  show ?case
  proof (cases "spend_lookup ev")
    case (Some ev1)
    with spend_lookup_SomeD [OF Some] Nil have "ev_budget ev1 < n" by auto
    with rec Some show ?thesis by (simp add: agrees_def split: option.split)
  qed (simp add: agrees_def split: option.split)
next
  case (Cons t ts)
  show ?case
  proof (cases "strip_prefix ''redirect='' t")
    case (Some target)
    show ?thesis
    proof (cases "term_uses_macro target")
      case True
      have "ev_budget (note_unsupported t d KindMacro ev) \<le> n"
        "ev_blocked (note_unsupported t d KindMacro ev) \<noteq> None"
        using Cons.prems by (auto simp: note_unsupported_def)
      note blocked = check_terms_blocked [OF assms(1) this(1) _ this(2)]
      show ?thesis using blocked [of env Report ip d redirect ts] Some True
        by (auto simp: agrees_def simp del: not_None_eq)
    next
      case False
      with Some Cons show ?thesis by simp
    qed
  next
    case None
    obtain q m where q: "split_qualifier t = (q, m)" by force
    obtain out ev1 where out: "match_mechanism env Report recR ip m d ev = Some (out, ev1)" "work_ok 0 ev ev1"
      using match_mechanism_work [OF assms(1) Cons.prems, of env Report ip m d] by (auto simp: works_def)
    have agree: "agrees (match_mechanism env Report recR ip m d ev) (match_mechanism env Lenient recL ip m d ev)"
      by (rule match_mechanism_agrees [OF rec Cons.prems])
    have budget: "ev_budget ev1 \<le> n" using out(2) Cons.prems by (simp add: work_ok_def)
    show ?thesis
    proof (cases "CHR ''='' \<in> set t")
      case True
      with None Cons show ?thesis by simp
    next
      case False
      show ?thesis
      proof (cases "ev_blocked ev1")
        case blocked: None
        with agree out(1) have "match_mechanism env Lenient recL ip m d ev = Some (out, ev1)"
          by (simp add: agrees_def)
        with None False q out(1) Cons.IH [OF budget] show ?thesis
          by (cases out) (simp_all add: agrees_def)
      next
        case (Some u)
        with None False q out(1) check_terms_blocked [OF assms(1) budget, of env Report ip d redirect ts]
        show ?thesis by (cases out) (auto simp: agrees_def simp del: not_None_eq)
      qed
    qed
  qed
qed

lemma check_host_agrees:
  "ev_budget ev < n \<Longrightarrow> agrees (check_host n env Report ip d ev) (check_host n env Lenient ip d ev)"
proof (induction n arbitrary: d ev)
  case (Suc n)
  have "ev_budget (log_query (QTxt d) ev) \<le> n" using Suc.prems by (simp add: log_query_def)
  from check_terms_agrees [OF check_host_enough Suc.IH this]
  have "agrees (check_terms env Report (check_host n env Report ip) ip d None ts (log_query (QTxt d) ev))
      (check_terms env Lenient (check_host n env Lenient ip) ip d None ts (log_query (QTxt d) ev))" for ts .
  then show ?case
    by (cases "fetch_spf_record env d") (auto simp: agrees_def Let_def split: option.split)
qed simp

text \<open>
  A determined verdict other than a pass is the verdict of the receive path:
  when the reporting evaluation answers \<open>Determined\<close> with a result that is not
  \<open>pass\<close>, it consulted no term it cannot resolve and the lenient evaluation gives
  the same result.
\<close>

theorem spf_verifiable_agrees:
  assumes "evaluate_verifiable env d ip = Determined r" "r \<noteq> SpfPass"
  shows "evaluate env d ip = r"
proof (cases "trim d = []")
  case True
  with assms show ?thesis by (simp add: evaluate_verifiable_def evaluate_def)
next
  case False
  obtain r' ev where run: "run_check env Report d ip = (r', ev)" by force
  with assms False have res: "r' = r" "ev_blocked ev = None"
    by (auto simp: evaluate_verifiable_def split: if_splits option.split_asm)
  have "agrees (check_host (MAX_DNS_LOOKUPS + 1) env Report ip d evaluator_new)
      (check_host (MAX_DNS_LOOKUPS + 1) env Lenient ip d evaluator_new)"
    by (rule check_host_agrees) (simp add: evaluator_new_def)
  with spf_evaluation_result [of env Report ip d] spf_evaluation_result [of env Lenient ip d] run res
  have "run_check env Lenient d ip = (r, ev)" unfolding agrees_def by (metis option.inject)
  with False show ?thesis by (simp add: evaluate_def)
qed

theorem spf_verifiable_agrees_witness:
  "evaluate (demo_spf_env (add_txt static_new ''x.io'' ''v=spf1 ip4:1.0.0.0/8 -all'')) ''x.io'' (V4 0x09020304)
   = SpfFail"
  by (rule spf_verifiable_agrees)
     (simp_all add: spf_eval trim_eval search_eval ascii_eval demo_ip_ops_def)

text \<open>
  For \<open>pass\<close> this fails: a macro term that precedes the matching one is skipped,
  so the reporting evaluation answers a determined pass where the receive path
  answers a permanent error (and a receiver that expands the macro may match it).
\<close>

lemma spf_determined_pass_differs:
  fixes r :: static_resolver
  defines "r \<equiv> add_txt static_new ''x.io'' ''v=spf1 include:%{i} +all''"
  shows "evaluate_verifiable (demo_spf_env r) ''x.io'' ip = Determined SpfPass"
    and "evaluate (demo_spf_env r) ''x.io'' ip = SpfPermError"
  by (simp_all add: r_def spf_eval trim_eval search_eval ascii_eval)

end
