(* ===== verification/Template.thy ===== *)
theory Template
  imports Mail_Model
begin

text \<open>
  The template renderer: \<open>camelmailer-core/src/template.rs\<close>. The parser's loop is
  \<open>parse_loop\<close> (its measure is the rest of the template), the frames are a list
  with the innermost first, and so is the context stack of the renderer. A model
  is a \<^typ>\<open>json\<close> value.
\<close>

definition MAX_DEPTH :: nat where
  "MAX_DEPTH = 32"

definition MAX_OUTPUT :: nat where
  "MAX_OUTPUT = 512 * 1024"

datatype render_error =
  UnclosedTag | UnclosedSection | UnexpectedClose string | MismatchedClose string string | TooDeep
  | OutputTooLarge

datatype node = TextNode string | VarNode string bool | SectionNode string bool "node list"

record frame =
  fr_path :: string
  fr_inverted :: bool
  fr_children :: "node list"

section \<open>Parsing\<close>

text \<open>\<open>sink(root, stack).push(node)\<close>.\<close>

definition push_node :: "node list \<Rightarrow> frame list \<Rightarrow> node \<Rightarrow> node list \<times> frame list" where
  "push_node root stack n =
     (case stack of
        [] \<Rightarrow> (root @ [n], [])
      | f # fs \<Rightarrow> (root, f\<lparr>fr_children := fr_children f @ [n]\<rparr> # fs))"

definition open_frame :: "string \<Rightarrow> frame" where
  "open_frame tag =
     \<lparr>fr_path = trim (drop 1 tag), fr_inverted = prefix ''^'' tag, fr_children = []\<rparr>"

text \<open>What one \<open>{{tag}}\<close> does to the root and the frames.\<close>

definition apply_tag :: "string \<Rightarrow> node list \<Rightarrow> frame list \<Rightarrow> render_error + (node list \<times> frame list)" where
  "apply_tag tag root stack =
     (case tag of
        [] \<Rightarrow> Inr (root, stack)
      | c # cs \<Rightarrow>
          if c = CHR ''!'' then Inr (root, stack)
          else if c = CHR ''#'' \<or> c = CHR ''^'' then
            (if length stack \<ge> MAX_DEPTH then Inl TooDeep else Inr (root, open_frame tag # stack))
          else if c = CHR ''/'' then
            (let path = trim (drop 1 tag) in
             case stack of
               [] \<Rightarrow> Inl (UnexpectedClose path)
             | f # fs \<Rightarrow>
                 if fr_path f \<noteq> path then Inl (MismatchedClose (fr_path f) path)
                 else Inr (push_node root fs (SectionNode (fr_path f) (fr_inverted f) (fr_children f))))
          else if c = CHR ''&'' then Inr (push_node root stack (VarNode (trim (drop 1 tag)) False))
          else Inr (push_node root stack (VarNode tag True)))"

definition finish_parse :: "node list \<Rightarrow> frame list \<Rightarrow> render_error + node list" where
  "finish_parse root stack = (if stack \<noteq> [] then Inl UnclosedSection else Inr root)"

lemma find_sub_bound:
  assumes "find_sub p s = Some i"
  shows "i + length p \<le> length s"
proof -
  from find_sub_SomeD [OF assms] obtain r where "drop i s = p @ r" "i \<le> length s" by (auto simp: prefix_def)
  from arg_cong [OF this(1), of length] this(2) show ?thesis by simp
qed

text \<open>
  One turn of the loop: it ends (on the left) with the parsed nodes or an error,
  or goes on (on the right) with the rest of the template.
\<close>

definition push_text :: "node list \<Rightarrow> frame list \<Rightarrow> string \<Rightarrow> node list \<times> frame list" where
  "push_text root stack txt = (if txt \<noteq> [] then push_node root stack (TextNode txt) else (root, stack))"

definition parse_tag :: "node list \<Rightarrow> frame list \<Rightarrow> string
    \<Rightarrow> (render_error + node list) + (node list \<times> frame list) \<times> string" where
  "parse_tag root stack after =
     (case strip_prefix ''{'' after of
        Some triple \<Rightarrow>
          (case find_sub ''}}}'' triple of
             None \<Rightarrow> Inl (Inl UnclosedTag)
           | Some e \<Rightarrow> Inr (push_node root stack (VarNode (trim (take e triple)) False), drop (e + 3) triple))
      | None \<Rightarrow>
          (case find_sub ''}}'' after of
             None \<Rightarrow> Inl (Inl UnclosedTag)
           | Some e \<Rightarrow>
               (case apply_tag (trim (take e after)) root stack of
                  Inl err \<Rightarrow> Inl (Inl err)
                | Inr rs \<Rightarrow> Inr (rs, drop (e + 2) after))))"

definition parse_step :: "node list \<Rightarrow> frame list \<Rightarrow> string
    \<Rightarrow> (render_error + node list) + (node list \<times> frame list) \<times> string" where
  "parse_step root stack rest =
     (case find_sub ''{{'' rest of
        None \<Rightarrow> (case push_text root stack rest of (root', stack') \<Rightarrow> Inl (finish_parse root' stack'))
      | Some pos \<Rightarrow>
          (case push_text root stack (take pos rest) of
             (root', stack') \<Rightarrow> parse_tag root' stack' (drop (pos + 2) rest)))"

lemma parse_tag_shorter: "parse_tag root stack after = Inr (rs, rest') \<Longrightarrow> length rest' \<le> length after"
  by (auto simp: parse_tag_def strip_prefix_def split: option.split_asm sum.split_asm if_splits)

lemma parse_step_shorter:
  assumes "parse_step root stack rest = Inr (rs, rest')"
  shows "length rest' < length rest"
proof -
  from assms obtain pos r s where "find_sub ''{{'' rest = Some pos"
    "parse_tag r s (drop (pos + 2) rest) = Inr (rs, rest')"
    by (auto simp: parse_step_def split: option.split_asm prod.split_asm)
  from find_sub_bound [OF this(1)] parse_tag_shorter [OF this(2)] show ?thesis by simp
qed

function parse_loop :: "node list \<Rightarrow> frame list \<Rightarrow> string \<Rightarrow> render_error + node list" where
  "parse_loop root stack rest =
     (case parse_step root stack rest of
        Inl result \<Rightarrow> result
      | Inr ((root', stack'), rest') \<Rightarrow> parse_loop root' stack' rest')"
  by pat_completeness auto
termination
  by (relation "measure (\<lambda>(root, stack, rest). length rest)") (auto dest: parse_step_shorter)

declare parse_loop.simps [simp del]

definition parse :: "string \<Rightarrow> render_error + node list" where
  "parse template = parse_loop [] [] template"

section \<open>Rendering\<close>

definition is_truthy :: "json \<Rightarrow> bool" where
  "is_truthy v =
     (case v of
        JNull \<Rightarrow> False | JBool b \<Rightarrow> b | JString s \<Rightarrow> s \<noteq> [] | JArray a \<Rightarrow> a \<noteq> []
      | JNumber _ \<Rightarrow> True | JObject _ \<Rightarrow> True)"

definition scalar :: "json \<Rightarrow> string" where
  "scalar v =
     (case v of
        JString s \<Rightarrow> s | JNumber n \<Rightarrow> n | JBool b \<Rightarrow> if b then ''true'' else ''false'' | _ \<Rightarrow> [])"

text \<open>
  The five characters are ASCII, so escaping works byte by byte on UTF-8 too.
\<close>

definition escape_char :: "char \<Rightarrow> string" where
  "escape_char c =
     (if c = CHR ''&'' then ''&amp;'' else if c = CHR ''<'' then ''&lt;''
      else if c = CHR ''>'' then ''&gt;'' else if c = DQ then ''&quot;''
      else if c = CHR 0x27 then ''&#39;'' else [c])"

definition html_escape :: "string \<Rightarrow> string" where
  "html_escape s = concat (map escape_char s)"

fun lookup_scopes :: "json list \<Rightarrow> string \<Rightarrow> json option" where
  "lookup_scopes [] name = None"
| "lookup_scopes (JObject m # scopes) name =
     (case map_of m name of Some v \<Rightarrow> Some v | None \<Rightarrow> lookup_scopes scopes name)"
| "lookup_scopes (_ # scopes) name = lookup_scopes scopes name"

fun lookup_segments :: "json \<Rightarrow> string list \<Rightarrow> json option" where
  "lookup_segments v [] = Some v"
| "lookup_segments (JObject m) (seg # segs) =
     (case map_of m seg of Some v \<Rightarrow> lookup_segments v segs | None \<Rightarrow> None)"
| "lookup_segments _ (seg # segs) = None"

definition lookup :: "json list \<Rightarrow> string \<Rightarrow> json option" where
  "lookup stack path =
     (if path = ''.'' then (case stack of [] \<Rightarrow> None | v # _ \<Rightarrow> Some v)
      else (case split_on (CHR ''.'') path of
         [] \<Rightarrow> None
       | first # segs \<Rightarrow> Option.bind (lookup_scopes stack first) (\<lambda>v. lookup_segments v segs)))"

definition push_capped :: "string \<Rightarrow> string \<Rightarrow> render_error + string" where
  "push_capped out txt =
     (if length out + length txt > MAX_OUTPUT then Inl OutputTooLarge else Inr (out @ txt))"

function (sequential) render_nodes :: "node list \<Rightarrow> json list \<Rightarrow> string \<Rightarrow> render_error + string"
  and render_items :: "node list \<Rightarrow> json list \<Rightarrow> json list \<Rightarrow> string \<Rightarrow> render_error + string"
  and render_node :: "node \<Rightarrow> json list \<Rightarrow> string \<Rightarrow> render_error + string" where
  "render_nodes [] stack out = Inr out"
| "render_nodes (n # ns) stack out =
     (case render_node n stack out of Inl e \<Rightarrow> Inl e | Inr out' \<Rightarrow> render_nodes ns stack out')"
| "render_items children [] stack out = Inr out"
| "render_items children (item # items) stack out =
     (case render_nodes children (item # stack) out of
        Inl e \<Rightarrow> Inl e
      | Inr out' \<Rightarrow> render_items children items stack out')"
| "render_node (TextNode txt) stack out = push_capped out txt"
| "render_node (VarNode path escaped) stack out =
     (case lookup stack path of
        None \<Rightarrow> Inr out
      | Some v \<Rightarrow> push_capped out (if escaped then html_escape (scalar v) else scalar v))"
| "render_node (SectionNode path inverted children) stack out =
     (let value = lookup stack path;
          truthy = (case value of None \<Rightarrow> False | Some v \<Rightarrow> is_truthy v) in
      if inverted then (if \<not> truthy then render_nodes children stack out else Inr out)
      else (case value of
         None \<Rightarrow> Inr out
       | Some (JArray items) \<Rightarrow> render_items children items stack out
       | Some v \<Rightarrow> if is_truthy v then render_nodes children (v # stack) out else Inr out))"
  by pat_completeness auto
termination
  by (relation "measures [\<lambda>x. case x of Inl (ns, _, _) \<Rightarrow> 2 * size_list size ns
         | Inr (Inl (ns, _, _, _)) \<Rightarrow> 2 * size_list size ns + 1 | Inr (Inr (n, _, _)) \<Rightarrow> 2 * size n,
       \<lambda>x. case x of Inr (Inl (_, items, _, _)) \<Rightarrow> length items | _ \<Rightarrow> 0]") auto

definition render :: "string \<Rightarrow> json \<Rightarrow> render_error + string" where
  "render template model =
     (case parse template of
        Inl e \<Rightarrow> Inl e
      | Inr nodes \<Rightarrow> render_nodes nodes [model] [])"

definition wrapper_has_raw_content :: "string \<Rightarrow> bool" where
  "wrapper_has_raw_content wrapper =
     (case parse wrapper of
        Inl _ \<Rightarrow> False
      | Inr nodes \<Rightarrow> list_ex (\<lambda>n. n = VarNode ''content'' False) nodes)"

definition render_in_layout :: "string \<Rightarrow> json \<Rightarrow> string \<Rightarrow> render_error + string" where
  "render_in_layout wrapper model content =
     (let scoped = (case model of JObject m \<Rightarrow> m | _ \<Rightarrow> [])
      in render wrapper (JObject (al_insert ''content'' (JString content) scoped)))"

section \<open>Bounds\<close>

lemma push_capped_Inr: "push_capped out txt = Inr out' \<longleftrightarrow> out' = out @ txt \<and> length out' \<le> MAX_OUTPUT"
  by (auto simp: push_capped_def)

lemma render_bounded:
  "render_nodes ns stack out = Inr out' \<Longrightarrow> length out \<le> MAX_OUTPUT \<Longrightarrow> length out' \<le> MAX_OUTPUT"
  "render_items ns items stack out = Inr out' \<Longrightarrow> length out \<le> MAX_OUTPUT \<Longrightarrow> length out' \<le> MAX_OUTPUT"
  "render_node n stack out = Inr out' \<Longrightarrow> length out \<le> MAX_OUTPUT \<Longrightarrow> length out' \<le> MAX_OUTPUT"
proof (induction ns stack out and ns items stack out and n stack out arbitrary: out' and out' and out'
    rule: render_nodes_render_items_render_node.induct)
  case (7 path inverted children stack out)
  then show ?case
    by (auto simp: Let_def split: if_splits option.split_asm json.split_asm)
qed (auto simp: push_capped_Inr split: sum.split_asm option.split_asm)

fun node_depth :: "node \<Rightarrow> nat" and nodes_depth :: "node list \<Rightarrow> nat" where
  "node_depth (SectionNode p i ch) = Suc (nodes_depth ch)"
| "node_depth _ = 0"
| "nodes_depth [] = 0"
| "nodes_depth (n # ns) = max (node_depth n) (nodes_depth ns)"

lemma nodes_depth_append [simp]: "nodes_depth (xs @ ys) = max (nodes_depth xs) (nodes_depth ys)"
  by (induction xs) auto

fun frames_ok :: "frame list \<Rightarrow> bool" where
  "frames_ok [] = True"
| "frames_ok (f # fs) \<longleftrightarrow> nodes_depth (fr_children f) + length (f # fs) \<le> MAX_DEPTH \<and> frames_ok fs"

definition parse_ok :: "node list \<times> frame list \<Rightarrow> bool" where
  "parse_ok rs \<longleftrightarrow> nodes_depth (fst rs) \<le> MAX_DEPTH \<and> frames_ok (snd rs)"

lemma push_node_ok:
  "parse_ok (root, stack) \<Longrightarrow> node_depth n + length stack \<le> MAX_DEPTH \<Longrightarrow> parse_ok (push_node root stack n)"
  by (cases stack) (auto simp: parse_ok_def push_node_def)

lemma frames_ok_length: "frames_ok stack \<Longrightarrow> length stack \<le> MAX_DEPTH"
  by (cases stack) auto

lemma push_leaf_ok:
  "parse_ok (root, stack) \<Longrightarrow> node_depth n = 0 \<Longrightarrow> parse_ok (push_node root stack n)"
  by (rule push_node_ok) (auto simp: parse_ok_def dest: frames_ok_length)

lemma apply_tag_ok:
  assumes "parse_ok (root, stack)" "apply_tag tag root stack = Inr rs"
  shows "parse_ok rs"
proof (cases tag)
  case (Cons c cs)
  show ?thesis
  proof (cases "c = CHR ''/''")
    case True
    with assms Cons obtain f fs where f: "stack = f # fs"
      "rs = push_node root fs (SectionNode (fr_path f) (fr_inverted f) (fr_children f))"
      by (auto simp: apply_tag_def Let_def split: list.split_asm if_splits)
    with assms(1) have "parse_ok (root, fs)" "Suc (nodes_depth (fr_children f) + length fs) \<le> MAX_DEPTH"
      by (auto simp: parse_ok_def)
    with f(2) show ?thesis by (simp add: push_node_ok)
  next
    case False
    with assms Cons show ?thesis
      by (auto simp: apply_tag_def open_frame_def push_leaf_ok split: if_splits)
         (simp_all add: parse_ok_def)
  qed
qed (use assms in \<open>simp add: apply_tag_def\<close>)

lemma push_text_ok: "parse_ok (root, stack) \<Longrightarrow> parse_ok (push_text root stack txt)"
  by (simp add: push_text_def push_leaf_ok)

lemma parse_tag_ok:
  "parse_ok (root, stack) \<Longrightarrow> parse_tag root stack after = Inr (rs, rest') \<Longrightarrow> parse_ok rs"
  "parse_tag root stack after \<noteq> Inl (Inr nodes)"
  by (auto simp: parse_tag_def push_leaf_ok dest: apply_tag_ok split: option.split_asm sum.split_asm)

lemma parse_step_ok:
  assumes "parse_ok (root, stack)"
  shows "parse_step root stack rest = Inr (rs, rest') \<Longrightarrow> parse_ok rs"
    and "parse_step root stack rest = Inl (Inr nodes) \<Longrightarrow> nodes_depth nodes \<le> MAX_DEPTH"
proof -
  have ok: "parse_ok (r, s)" if "push_text root stack t = (r, s)" for r s t
    using push_text_ok [OF assms, of t] that by simp
  show "parse_ok rs" if "parse_step root stack rest = Inr (rs, rest')"
    using that ok by (auto simp: parse_step_def intro: parse_tag_ok(1) split: option.split_asm prod.split_asm)
  show "nodes_depth nodes \<le> MAX_DEPTH" if "parse_step root stack rest = Inl (Inr nodes)"
    using that ok parse_tag_ok(2)
    by (auto simp: parse_step_def finish_parse_def parse_ok_def split: option.split_asm prod.split_asm if_splits)
qed

lemma parse_loop_depth:
  "parse_loop root stack rest = Inr nodes \<Longrightarrow> parse_ok (root, stack) \<Longrightarrow> nodes_depth nodes \<le> MAX_DEPTH"
proof (induction root stack rest rule: parse_loop.induct)
  case (1 root stack rest)
  show ?case
  proof (cases "parse_step root stack rest")
    case (Inl result)
    with 1 show ?thesis by (simp add: parse_loop.simps [of root] parse_step_ok(2))
  next
    case (Inr p)
    obtain r s rest' where p: "p = ((r, s), rest')" by (metis surj_pair)
    with Inr parse_step_ok(1) [OF "1.prems"(2)] have "parse_ok (r, s)" by blast
    with 1 Inr p show ?thesis by (simp add: parse_loop.simps [of root])
  qed
qed

text \<open>
  C15. Rendering is bounded: whatever the template and the model are, a rendered
  output is at most 524288 bytes, and a template that parses nests its sections
  at most 32 deep.
\<close>

theorem template_bounds:
  "(\<forall>out. render template model = Inr out \<longrightarrow> length out \<le> 524288)
   \<and> (\<forall>nodes. parse template = Inr nodes \<longrightarrow> nodes_depth nodes \<le> 32)"
  using render_bounded(1) [of _ "[model]" "[]"] parse_loop_depth [of "[]" "[]" template]
  by (auto simp: render_def parse_def parse_ok_def MAX_OUTPUT_def MAX_DEPTH_def split: sum.split_asm)

section \<open>Escaping\<close>

definition markup :: "char set" where
  "markup = {CHR ''<'', CHR ''>'', DQ, CHR 0x27}"

fun clean_node :: "node \<Rightarrow> bool" and clean_nodes :: "node list \<Rightarrow> bool" where
  "clean_node (TextNode t) \<longleftrightarrow> set t \<inter> markup = {}"
| "clean_node (VarNode p escaped) \<longleftrightarrow> escaped"
| "clean_node (SectionNode p i ch) \<longleftrightarrow> clean_nodes ch"
| "clean_nodes [] \<longleftrightarrow> True"
| "clean_nodes (n # ns) \<longleftrightarrow> clean_node n \<and> clean_nodes ns"

lemma html_escape_clean: "set (html_escape s) \<inter> markup = {}"
  by (auto simp: html_escape_def escape_char_def markup_def split: if_splits)

lemma render_clean:
  "render_nodes ns stack out = Inr out' \<Longrightarrow> clean_nodes ns \<Longrightarrow> set out \<inter> markup = {} \<Longrightarrow>
     set out' \<inter> markup = {}"
  "render_items ns items stack out = Inr out' \<Longrightarrow> clean_nodes ns \<Longrightarrow> set out \<inter> markup = {} \<Longrightarrow>
     set out' \<inter> markup = {}"
  "render_node n stack out = Inr out' \<Longrightarrow> clean_node n \<Longrightarrow> set out \<inter> markup = {} \<Longrightarrow>
     set out' \<inter> markup = {}"
proof (induction ns stack out and ns items stack out and n stack out arbitrary: out' and out' and out'
    rule: render_nodes_render_items_render_node.induct)
  case (6 path escaped stack out)
  then show ?case
    using html_escape_clean by (auto simp: push_capped_Inr split: option.split_asm)
next
  case (7 path inverted children stack out)
  then show ?case
    by (auto simp: Let_def split: if_splits option.split_asm json.split_asm)
qed (auto simp: push_capped_Inr split: sum.split_asm)

text \<open>
  C40. Model data cannot inject markup: when a template interpolates with
  \<open>{{name}}\<close> only and its own text has no markup characters, the output has
  none either (no angle bracket, no quote), whatever the model holds.
\<close>

theorem template_escaping_safe:
  assumes "parse template = Inr nodes" "clean_nodes nodes" "render template model = Inr out"
  shows "set out \<inter> {CHR ''<'', CHR ''>'', DQ, CHR 0x27} = {}"
proof -
  from assms(1,3) have "render_nodes nodes [model] [] = Inr out" by (simp add: render_def)
  from render_clean(1) [OF this assms(2)] show ?thesis by (simp add: markup_def)
qed

section \<open>Printing and parsing\<close>

fun show_node :: "node \<Rightarrow> string" and show_nodes :: "node list \<Rightarrow> string" where
  "show_node (TextNode t) = t"
| "show_node (VarNode p escaped) =
     (if escaped then ''{{'' @ p @ ''}}'' else ''{{{'' @ p @ ''}}}'')"
| "show_node (SectionNode p inverted ch) =
     ''{{'' @ ((if inverted then CHR ''^'' else CHR ''#'') # p) @ ''}}'' @ show_nodes ch
     @ ''{{'' @ (CHR ''/'' # p) @ ''}}''"
| "show_nodes [] = []"
| "show_nodes (n # ns) = show_node n @ show_nodes ns"

definition is_name :: "string \<Rightarrow> bool" where
  "is_name p \<longleftrightarrow> p \<noteq> [] \<and> list_all (\<lambda>c. is_ascii_alnum c \<or> c \<in> {CHR ''_'', CHR ''.'', CHR ''-''}) p"

fun is_text :: "node \<Rightarrow> bool" where
  "is_text (TextNode t) = True"
| "is_text _ = False"

fun printable :: "node \<Rightarrow> bool" and printables :: "node list \<Rightarrow> bool" where
  "printable (TextNode t) \<longleftrightarrow> t \<noteq> [] \<and> CHR ''{'' \<notin> set t"
| "printable (VarNode p escaped) \<longleftrightarrow> is_name p"
| "printable (SectionNode p inverted ch) \<longleftrightarrow> is_name p \<and> printables ch"
| "printables [] \<longleftrightarrow> True"
| "printables (n # ns) \<longleftrightarrow>
     printable n \<and> printables ns \<and> (is_text n \<longrightarrow> ns = [] \<or> \<not> is_text (hd ns))"

definition push_nodes :: "node list \<Rightarrow> frame list \<Rightarrow> node list \<Rightarrow> node list \<times> frame list" where
  "push_nodes root stack ns =
     (case stack of [] \<Rightarrow> (root @ ns, []) | f # fs \<Rightarrow> (root, f\<lparr>fr_children := fr_children f @ ns\<rparr> # fs))"

lemma push_nodes_simps [simp]:
  "push_nodes root stack [] = (root, stack)"
  "push_node root stack n = (r, s) \<Longrightarrow> push_nodes root stack (n # ns) = push_nodes r s ns"
  by (auto simp: push_nodes_def push_node_def split: list.splits)

lemma find_sub_first: "c \<notin> set w \<Longrightarrow> find_sub (c # p) (w @ (c # p) @ r) = Some (length w)"
proof (induction w)
  case Nil
  then show ?case by (cases "c # p @ r") auto
qed auto

lemma is_name_chars:
  assumes "is_name p"
  shows "list_all (\<lambda>c. 0x21 \<le> byte c \<and> byte c \<le> 0x7E) p" "CHR ''}'' \<notin> set p"
    "hd p \<notin> {CHR ''!'', CHR ''#'', CHR ''^'', CHR ''/'', CHR ''&'', CHR ''{''}" "p \<noteq> []"
proof -
  have chars: "0x21 \<le> byte c \<and> byte c \<le> 0x7E \<and> c \<noteq> CHR ''}''
      \<and> c \<notin> {CHR ''!'', CHR ''#'', CHR ''^'', CHR ''/'', CHR ''&'', CHR ''{''}" if "c \<in> set p" for c
  proof -
    from assms that have "is_ascii_alnum c \<or> c \<in> {CHR ''_'', CHR ''.'', CHR ''-''}"
      by (simp add: is_name_def list_all_iff)
    then show ?thesis
      by (auto simp: is_ascii_alnum_def is_ascii_digit_def is_ascii_upper_def is_ascii_lower_def)
  qed
  then show "list_all (\<lambda>c. 0x21 \<le> byte c \<and> byte c \<le> 0x7E) p" "CHR ''}'' \<notin> set p"
    by (auto simp: list_all_iff)
  show "p \<noteq> []" using assms by (simp add: is_name_def)
  then show "hd p \<notin> {CHR ''!'', CHR ''#'', CHR ''^'', CHR ''/'', CHR ''&'', CHR ''{''}"
    using chars by simp
qed

section \<open>Parsing what was printed\<close>

lemma parse_tag_step:
  assumes "tag \<noteq> []" "hd tag \<noteq> CHR ''{''" "CHR ''}'' \<notin> set tag"
    and "list_all (\<lambda>c. 0x21 \<le> byte c \<and> byte c \<le> 0x7E) tag"
  shows "parse_loop root stack (''{{'' @ tag @ ''}}'' @ rest) =
    (case apply_tag tag root stack of Inl e \<Rightarrow> Inl e | Inr (r, s) \<Rightarrow> parse_loop r s rest)"
proof -
  have "find_sub ''}}'' (tag @ ''}}'' @ rest) = Some (length tag)"
    using find_sub_first [OF assms(3), of "''}''" rest] by simp
  moreover have "strip_prefix ''{'' (tag @ ''}}'' @ rest) = None"
    using assms(1,2) by (cases tag) (auto simp: strip_prefix_def)
  ultimately have "parse_step root stack (''{{'' @ tag @ ''}}'' @ rest)
      = (case apply_tag tag root stack of Inl e \<Rightarrow> Inl (Inl e) | Inr rs \<Rightarrow> Inr (rs, rest))"
    by (simp add: parse_step_def push_text_def parse_tag_def trim_graphic [OF assms(4)] split: sum.split)
  then show ?thesis by (subst parse_loop.simps) (simp split: sum.split)
qed

lemma parse_raw_step:
  assumes "is_name p"
  shows "parse_loop root stack (''{{{'' @ p @ ''}}}'' @ rest) =
    (case push_node root stack (VarNode p False) of (r, s) \<Rightarrow> parse_loop r s rest)"
proof -
  have "find_sub ''}}}'' (p @ ''}}}'' @ rest) = Some (length p)"
    using find_sub_first [OF is_name_chars(2) [OF assms], of "''}}''" rest] by simp
  then have "parse_step root stack (''{{{'' @ p @ ''}}}'' @ rest)
      = Inr (push_node root stack (VarNode p False), rest)"
    by (simp add: parse_step_def push_text_def parse_tag_def strip_prefix_def
        trim_graphic [OF is_name_chars(1) [OF assms]])
  then show ?thesis by (subst parse_loop.simps) (simp add: case_prod_beta)
qed

lemma find_sub_absent: "c \<notin> set s \<Longrightarrow> find_sub (c # p) s = None"
  by (induction s) (auto split: list.splits)

lemma find_sub_skip: "c \<notin> set w \<Longrightarrow> find_sub (c # p) (w @ r) = map_option (\<lambda>i. length w + i) (find_sub (c # p) r)"
  by (induction w) (auto simp: map_option_case split: option.splits)

text \<open>A text is read as a node of its own when the template ends after it or a tag follows.\<close>

lemma parse_text_step:
  assumes "t \<noteq> []" "CHR ''{'' \<notin> set t" "rest = [] \<or> prefix ''{{'' rest"
  shows "parse_loop root stack (t @ rest) =
    (case push_node root stack (TextNode t) of (r, s) \<Rightarrow> parse_loop r s rest)"
proof -
  obtain r s where rs: "push_node root stack (TextNode t) = (r, s)" by force
  have "parse_step root stack (t @ rest) = parse_step r s rest"
  proof (cases "rest = []")
    case True
    then show ?thesis
      using assms(1) rs by (simp add: parse_step_def push_text_def find_sub_absent [OF assms(2)])
  next
    case False
    with assms(3) obtain u where "rest = ''{{'' @ u" by (auto simp: prefix_def)
    then show ?thesis
      using assms(1) rs by (simp add: parse_step_def push_text_def find_sub_skip [OF assms(2)])
  qed
  then show ?thesis by (simp add: parse_loop.simps [of root] parse_loop.simps [of r] rs)
qed

lemma show_node_brace: "printable n \<Longrightarrow> \<not> is_text n \<Longrightarrow> prefix ''{{'' (show_node n)"
  by (cases n) auto

lemma parse_show:
  "printable n \<Longrightarrow> \<not> is_text n \<Longrightarrow> node_depth n + length stack \<le> MAX_DEPTH \<Longrightarrow>
     parse_loop root stack (show_node n @ rest)
     = (case push_node root stack n of (r, s) \<Rightarrow> parse_loop r s rest)"
  "printables ns \<Longrightarrow> nodes_depth ns + length stack \<le> MAX_DEPTH \<Longrightarrow> rest = [] \<or> prefix ''{{'' rest \<Longrightarrow>
     parse_loop root stack (show_nodes ns @ rest)
     = (case push_nodes root stack ns of (r, s) \<Rightarrow> parse_loop r s rest)"
proof (induction n and ns arbitrary: root stack rest and root stack rest rule: show_node_show_nodes.induct)
  case (1 t)
  then show ?case by simp
next
  case (2 p escaped)
  note name = is_name_chars [of p]
  show ?case
  proof (cases escaped)
    case True
    have "apply_tag p root stack = Inr (push_node root stack (VarNode p True))"
      using 2 name by (cases p) (auto simp: apply_tag_def)
    with parse_tag_step [of p root stack rest] name 2 True show ?thesis
      by (simp add: case_prod_beta)
  next
    case False
    with parse_raw_step [of p root stack rest] 2 show ?thesis by simp
  qed
next
  case (3 p inverted ch)
  let ?open = "(if inverted then CHR ''^'' else CHR ''#'') # p"
  let ?f = "\<lparr>fr_path = p, fr_inverted = inverted, fr_children = []\<rparr>"
  let ?close = "''{{'' @ (CHR ''/'' # p) @ ''}}'' @ rest"
  from 3 have name: "is_name p" and depth: "length stack < MAX_DEPTH" by simp_all
  note nc = is_name_chars [OF name]
  have "apply_tag ?open root stack = Inr (root, ?f # stack)"
    using depth by (simp add: apply_tag_def open_frame_def trim_graphic [OF nc(1)])
  with parse_tag_step [of ?open root stack "show_nodes ch @ ?close"] nc
  have "parse_loop root stack (show_node (SectionNode p inverted ch) @ rest)
      = parse_loop root (?f # stack) (show_nodes ch @ ?close)"
    by simp
  also have "\<dots> = parse_loop root (?f\<lparr>fr_children := ch\<rparr> # stack) ?close"
    using 3 by (simp add: push_nodes_def)
  also have "\<dots> = (case push_node root stack (SectionNode p inverted ch) of (r, s) \<Rightarrow> parse_loop r s rest)"
  proof -
    have "apply_tag (CHR ''/'' # p) root (?f\<lparr>fr_children := ch\<rparr> # stack)
        = Inr (push_node root stack (SectionNode p inverted ch))"
      by (simp add: apply_tag_def trim_graphic [OF nc(1)])
    with parse_tag_step [of "CHR ''/'' # p" root "?f\<lparr>fr_children := ch\<rparr> # stack" rest] nc
    show ?thesis by (simp add: case_prod_beta)
  qed
  finally show ?case .
next
  case 4
  then show ?case by simp
next
  case (5 n ns)
  obtain r s where rs: "push_node root stack n = (r, s)" by force
  then have len: "length s = length stack" by (auto simp: push_node_def split: list.split_asm)
  have rest': "show_nodes ns @ rest = [] \<or> prefix ''{{'' (show_nodes ns @ rest)" if "is_text n"
  proof (cases ns)
    case (Cons m ms)
    with 5 that show_node_brace [of m] show ?thesis by auto
  qed (use 5 in simp)
  have "parse_loop root stack (show_node n @ show_nodes ns @ rest) = parse_loop r s (show_nodes ns @ rest)"
  proof (cases "is_text n")
    case True
    then obtain t where "n = TextNode t" by (cases n) auto
    with parse_text_step [of t "show_nodes ns @ rest" root stack] 5 rs rest' [OF True] show ?thesis by simp
  next
    case False
    with 5 rs show ?thesis by simp
  qed
  with 5 rs len show ?case by simp
qed

text \<open>
  Parsing inverts printing: a list of nodes with identifier paths and brace-free
  texts, no two texts side by side and sections at most 32 deep, printed in the
  template syntax, is parsed back to exactly these nodes.
\<close>

theorem template_parse_print:
  assumes "printables ns" "nodes_depth ns \<le> MAX_DEPTH"
  shows "parse (show_nodes ns) = Inr ns"
proof -
  have "parse_loop [] [] (show_nodes ns) = parse_loop ns [] []"
    using parse_show(2) [OF assms(1), of "[]" "[]" "[]"] assms(2) by (simp add: push_nodes_def)
  also have "\<dots> = Inr ns"
    by (subst parse_loop.simps) (simp add: parse_step_def push_text_def finish_parse_def)
  finally show ?thesis by (simp add: parse_def)
qed

definition demo_template :: "node list" where
  "demo_template = [TextNode ''Hi '', SectionNode ''items'' False [VarNode ''name'' True, TextNode '', '']]"

lemma demo_template_printed: "show_nodes demo_template = ''Hi {{#items}}{{name}}, {{/items}}''"
  by (simp add: demo_template_def)

theorem template_parse_print_witness:
  "parse ''Hi {{#items}}{{name}}, {{/items}}'' = Inr demo_template"
proof -
  have "printables demo_template" "nodes_depth demo_template \<le> MAX_DEPTH"
    by (simp_all add: demo_template_def is_name_def ascii_eval MAX_DEPTH_def)
  from template_parse_print [OF this] show ?thesis by (simp add: demo_template_printed)
qed

definition demo_model :: json where
  "demo_model = JObject [(''items'', JArray [JObject [(''name'', JString ''<b>'')]])]"

lemma demo_template_parsed: "parse ''Hi {{#items}}{{name}}, {{/items}}'' = Inr demo_template"
  using parse_show(2) [of demo_template "[]" "[]" "[]"]
  by (simp add: parse_def demo_template_printed push_nodes_def)
     (simp add: demo_template_def is_name_def ascii_eval MAX_DEPTH_def parse_loop.simps parse_step_def
      push_text_def finish_parse_def)

lemma demo_template_rendered: "render ''Hi {{#items}}{{name}}, {{/items}}'' demo_model = Inr ''Hi &lt;b&gt;, ''"
  unfolding render_def demo_template_parsed
  by (simp add: demo_template_def demo_model_def push_capped_def MAX_OUTPUT_def lookup_def scalar_def
      html_escape_def escape_char_def)

theorem template_escaping_safe_witness:
  "set ''Hi &lt;b&gt;, '' \<inter> {CHR ''<'', CHR ''>'', DQ, CHR 0x27} = {}"
  by (rule template_escaping_safe [OF demo_template_parsed _ demo_template_rendered])
     (simp add: demo_template_def markup_def)

theorem template_bounds_witness:
  "length ''Hi &lt;b&gt;, '' \<le> 524288 \<and> nodes_depth demo_template \<le> 32"
  using template_bounds [of "''Hi {{#items}}{{name}}, {{/items}}''" demo_model] demo_template_parsed
    demo_template_rendered by blast

section \<open>Work\<close>

text \<open>
  The caps bound the output and the depth, not the work. \<open>nodes_visits\<close> counts
  the nodes a rendering visits when the output cap is not reached; sections
  nested \<open>k\<close> deep over one array of \<open>n\<close> items visit \<open>n ^ k\<close> nodes and write
  nothing.
\<close>

function (sequential) nodes_visits :: "node list \<Rightarrow> json list \<Rightarrow> nat"
  and items_visits :: "node list \<Rightarrow> json list \<Rightarrow> json list \<Rightarrow> nat"
  and node_visits :: "node \<Rightarrow> json list \<Rightarrow> nat" where
  "nodes_visits [] stack = 0"
| "nodes_visits (n # ns) stack = node_visits n stack + nodes_visits ns stack"
| "items_visits children [] stack = 0"
| "items_visits children (item # items) stack =
     nodes_visits children (item # stack) + items_visits children items stack"
| "node_visits (SectionNode path inverted children) stack =
     1 + (let value = lookup stack path;
              truthy = (case value of None \<Rightarrow> False | Some v \<Rightarrow> is_truthy v) in
          if inverted then (if \<not> truthy then nodes_visits children stack else 0)
          else (case value of
             None \<Rightarrow> 0
           | Some (JArray items) \<Rightarrow> items_visits children items stack
           | Some v \<Rightarrow> if is_truthy v then nodes_visits children (v # stack) else 0))"
| "node_visits _ stack = 1"
  by pat_completeness auto
termination
  by (relation "measures [\<lambda>x. case x of Inl (ns, _) \<Rightarrow> 2 * size_list size ns
         | Inr (Inl (ns, _, _)) \<Rightarrow> 2 * size_list size ns + 1 | Inr (Inr (n, _)) \<Rightarrow> 2 * size n,
       \<lambda>x. case x of Inr (Inl (_, items, _)) \<Rightarrow> length items | _ \<Rightarrow> 0]") auto

fun nest :: "nat \<Rightarrow> node list" where
  "nest 0 = [SectionNode ''b'' False []]"
| "nest (Suc k) = [SectionNode ''a'' False (nest k)]"

definition nest_model :: "nat \<Rightarrow> json" where
  "nest_model n = JObject [(''a'', JArray (replicate n JNull))]"

lemma nest_lookup:
  "lookup (replicate j JNull @ [nest_model n]) ''a'' = Some (JArray (replicate n JNull))"
  "lookup (replicate j JNull @ [nest_model n]) ''b'' = None"
  by (induction j) (simp_all add: lookup_def nest_model_def)

lemma nest_render: "render_nodes (nest k) (replicate j JNull @ [nest_model n]) out = Inr out"
proof (induction k arbitrary: j)
  case (Suc k)
  have "render_items (nest k) (replicate i JNull) (replicate j JNull @ [nest_model n]) out = Inr out" for i
    using Suc [of "Suc j"] by (induction i) simp_all
  then show ?case by (simp add: nest_lookup)
qed (simp add: nest_lookup)

lemma template_work_unbounded:
  "n ^ k \<le> nodes_visits (nest k) (replicate j JNull @ [nest_model n])"
proof (induction k arbitrary: j)
  case (Suc k)
  have "i * n ^ k \<le> items_visits (nest k) (replicate i JNull) (replicate j JNull @ [nest_model n])" for i
    using Suc [of "Suc j"] by (induction i) simp_all
  from this [of n] show ?case by (simp add: nest_lookup Let_def le_SucI)
qed (simp add: nest_lookup Let_def)

end
