(* ===== verification/Bounce.thy ===== *)
theory Bounce
  imports Message_Sink
begin

text \<open>
  Bounce handling (\<open>core/bounce.rs\<close>): the category of an SMTP failure response
  and of a delivery status notification, the recognition of notifications, and
  the message token header that ties a returned notification to the message
  that produced it.

  The theorems: the correlation header of an outgoing message cannot be forged
  by the submitter, tokens read back from a notification are well formed and
  distinct, a response is classified by its leading code, and a notification
  counts as failed only when its status fields say so and nothing else.
\<close>

section \<open>Categories\<close>

definition MESSAGE_TOKEN_HEADER :: string where
  "MESSAGE_TOKEN_HEADER = ''X-CamelMailer-MsgID''"

definition POSTAL_MESSAGE_TOKEN_HEADER :: string where
  "POSTAL_MESSAGE_TOKEN_HEADER = ''X-Postal-MsgID''"

datatype bounce_category = Hard | Soft | Undetermined

definition category_as_str :: "bounce_category \<Rightarrow> string" where
  "category_as_str c =
     (case c of Hard \<Rightarrow> ''hard'' | Soft \<Rightarrow> ''soft'' | Undetermined \<Rightarrow> ''undetermined'')"

definition class_digit :: "char \<Rightarrow> bounce_category option" where
  "class_digit c = (if c = CHR ''5'' then Some Hard else if c = CHR ''4'' then Some Soft else None)"

definition reply_code_class :: "string \<Rightarrow> bounce_category option" where
  "reply_code_class token =
     (let digits = hd (split_on (CHR ''-'') token) in
      if length digits = 3 \<and> list_all is_ascii_digit digits then class_digit (hd digits) else None)"

definition short_numeric :: "string \<Rightarrow> bool" where
  "short_numeric s \<longleftrightarrow> s \<noteq> [] \<and> length s \<le> 3 \<and> list_all is_ascii_digit s"

definition is_code_end :: "char \<Rightarrow> bool" where
  "is_code_end c \<longleftrightarrow> c \<in> {CHR ''.'', CHR '','', CHR '';'', CHR '')''}"

definition enhanced_code_class :: "string \<Rightarrow> bounce_category option" where
  "enhanced_code_class token =
     (case split_on (CHR ''.'') (trim_end_matches is_code_end token) of
        [cls, subject, detail] \<Rightarrow>
          if \<not> short_numeric subject \<or> \<not> short_numeric detail then None
          else if cls = ''5'' then Some Hard else if cls = ''4'' then Some Soft else None
      | _ \<Rightarrow> None)"

fun classify_tokens :: "string list \<Rightarrow> bounce_category" where
  "classify_tokens [] = Undetermined"
| "classify_tokens (t # ts) =
     (case reply_code_class t of
        Some c \<Rightarrow> c
      | None \<Rightarrow> (case enhanced_code_class t of Some c \<Rightarrow> c | None \<Rightarrow> classify_tokens ts))"

definition classify_response :: "string \<Rightarrow> bounce_category" where
  "classify_response response = classify_tokens (split_whitespace response)"

section \<open>Delivery status notifications\<close>

text \<open>\<open>str::lines\<close>: a line ends at LF, and a CR directly before that LF is dropped too.\<close>

definition str_line :: "string \<Rightarrow> string" where
  "str_line l = (case strip_suffix [LF] l of None \<Rightarrow> l | Some r \<Rightarrow> chomp [CR] r)"

definition str_lines :: "string \<Rightarrow> string list" where
  "str_lines s = map str_line (split_inclusive LF s)"

text \<open>
  One prefix of \<open>find_map\<close>: the guard slices the line at the length of the prefix,
  which is a panic when that position is inside a character.
\<close>

definition dsn_field :: "string \<Rightarrow> string \<Rightarrow> string option rust" where
  "dsn_field trimmed p =
     (if length p \<le> length trimmed then
        bind_rust (slice_to trimmed (length p)) (\<lambda>start.
          Inr (if eq_ignore_ascii_case start p then Some (drop (length p) trimmed) else None))
      else Inr None)"

definition dsn_value :: "string \<Rightarrow> string option rust" where
  "dsn_value trimmed =
     bind_rust (dsn_field trimmed ''Status:'') (\<lambda>v.
       case v of Some x \<Rightarrow> Inr (Some x) | None \<Rightarrow> dsn_field trimmed ''Diagnostic-Code:'')"

fun classify_dsn_lines :: "string list \<Rightarrow> bounce_category rust" where
  "classify_dsn_lines [] = Inr Undetermined"
| "classify_dsn_lines (l # ls) =
     bind_rust (dsn_value (trim l)) (\<lambda>value.
       case value of
         None \<Rightarrow> classify_dsn_lines ls
       | Some v \<Rightarrow>
           let category = classify_response v in
           if category \<noteq> Undetermined then Inr category else classify_dsn_lines ls)"

definition classify_dsn :: "bytes \<Rightarrow> bounce_category rust" where
  "classify_dsn raw = classify_dsn_lines (str_lines (utf8_lossy raw))"

definition trim_ascii :: "bytes \<Rightarrow> bytes" where
  "trim_ascii v = rev (dropWhile is_ascii_ws (rev (dropWhile is_ascii_ws v)))"

definition content_type_is :: "string \<Rightarrow> string \<Rightarrow> bool" where
  "content_type_is v expected \<longleftrightarrow>
     eq_ignore_ascii_case (trim (hd (split_on (CHR '';'') v))) expected"

text \<open>A line of a raw message as the scans read it, and its name and value when it has a colon.\<close>

definition raw_line :: "bytes \<Rightarrow> bytes" where
  "raw_line l = trim_ascii (chomp [CR] l)"

definition line_field :: "bytes \<Rightarrow> (bytes \<times> bytes) option" where
  "line_field l = map_option (\<lambda>(n, v). (trim_ascii n, trim_ascii v)) (split_once (CHR '':'') (raw_line l))"

definition content_type_part :: "string \<Rightarrow> bytes \<Rightarrow> bool" where
  "content_type_part expected l =
     (case line_field l of
        None \<Rightarrow> False
      | Some (n, v) \<Rightarrow> eq_ignore_ascii_case n ''Content-Type'' \<and> content_type_is (utf8_lossy v) expected)"

definition has_content_type_part :: "bytes \<Rightarrow> string \<Rightarrow> bool" where
  "has_content_type_part raw expected = list_ex (content_type_part expected) (split_on LF raw)"

record dsn_flags =
  has_recipient :: bool
  has_bounce_action :: bool
  has_bounce_status :: bool
  has_reporting_mta :: bool

definition is_bounce_status :: "bytes \<Rightarrow> bool" where
  "is_bounce_status v =
     (case split_whitespace (utf8_lossy v) of [] \<Rightarrow> False | t # _ \<Rightarrow> enhanced_code_class t \<noteq> None)"

definition dsn_flag_line :: "bytes \<Rightarrow> dsn_flags \<Rightarrow> dsn_flags" where
  "dsn_flag_line l f =
     (case line_field l of
        None \<Rightarrow> f
      | Some (n, v) \<Rightarrow>
          if eq_ignore_ascii_case n ''Final-Recipient'' \<or> eq_ignore_ascii_case n ''Original-Recipient''
          then f\<lparr>has_recipient := has_recipient f \<or> v \<noteq> []\<rparr>
          else if eq_ignore_ascii_case n ''Action''
          then f\<lparr>has_bounce_action := has_bounce_action f \<or> eq_ignore_ascii_case v ''failed''
                                     \<or> eq_ignore_ascii_case v ''delayed''\<rparr>
          else if eq_ignore_ascii_case n ''Status''
          then f\<lparr>has_bounce_status := has_bounce_status f \<or> is_bounce_status v\<rparr>
          else if eq_ignore_ascii_case n ''Reporting-MTA''
          then f\<lparr>has_reporting_mta := has_reporting_mta f \<or> v \<noteq> []\<rparr>
          else f)"

definition no_flags :: dsn_flags where
  "no_flags = \<lparr>has_recipient = False, has_bounce_action = False, has_bounce_status = False,
               has_reporting_mta = False\<rparr>"

definition legacy_dsn :: "bytes \<Rightarrow> bool" where
  "legacy_dsn raw =
     (let f = fold dsn_flag_line (split_on LF raw) no_flags in
      has_recipient f \<and> has_bounce_action f \<and> has_bounce_status f \<and> has_reporting_mta f)"

text \<open>\<open>trim_matches\<close> of one character.\<close>

definition trim_matches_char :: "char \<Rightarrow> string \<Rightarrow> string" where
  "trim_matches_char c s = trim_end_matches (\<lambda>x. x = c) (dropWhile (\<lambda>x. x = c) s)"

definition declares_delivery_status :: "string \<Rightarrow> bool" where
  "declares_delivery_status content_type =
     list_ex (\<lambda>p. case strip_prefix ''report-type='' (trim p) of
                    None \<Rightarrow> False
                  | Some v \<Rightarrow> eq_ignore_ascii_case (trim_matches_char DQ v) ''delivery-status'')
       (tl (split_on (CHR '';'') content_type))"

definition raw_content_type :: "(string \<Rightarrow> string) \<Rightarrow> bytes \<Rightarrow> string" where
  "raw_content_type lc raw =
     to_ascii_lowercase (case header_value lc raw ''content-type'' of Some v \<Rightarrow> v | None \<Rightarrow> [])"

definition is_delivery_status_notification :: "(string \<Rightarrow> string) \<Rightarrow> bytes \<Rightarrow> bool" where
  "is_delivery_status_notification lc raw =
     (let content_type = raw_content_type lc raw in
      if content_type_is content_type ''message/delivery-status'' then True
      else if content_type_is content_type ''multipart/report''
              \<and> (declares_delivery_status content_type
                 \<or> has_content_type_part raw ''message/delivery-status'') then True
      else legacy_dsn raw)"

fun only_failed :: "bool \<Rightarrow> bytes list \<Rightarrow> bool" where
  "only_failed saw [] = saw"
| "only_failed saw (l # ls) =
     (case line_field l of
        None \<Rightarrow> only_failed saw ls
      | Some (n, v) \<Rightarrow>
          if eq_ignore_ascii_case n ''Action'' then
            (if \<not> eq_ignore_ascii_case v ''failed'' then False else only_failed True ls)
          else only_failed saw ls)"

definition has_only_failed_actions :: "bytes \<Rightarrow> bool" where
  "has_only_failed_actions raw = only_failed False (split_on LF raw)"

fun report_failed :: "bool \<Rightarrow> bool \<Rightarrow> bytes list \<Rightarrow> bool" where
  "report_failed in_part saw [] = saw"
| "report_failed in_part saw (l # ls) =
     (if prefix ''--'' (raw_line l) then report_failed False saw ls
      else case line_field l of
        None \<Rightarrow> report_failed in_part saw ls
      | Some (n, v) \<Rightarrow>
          if eq_ignore_ascii_case n ''Content-Type'' then
            report_failed (content_type_is (utf8_lossy v) ''message/delivery-status'') saw ls
          else if in_part \<and> eq_ignore_ascii_case n ''Action'' then
            (if \<not> eq_ignore_ascii_case v ''failed'' then False else report_failed in_part True ls)
          else report_failed in_part saw ls)"

definition is_failed_delivery_status_notification :: "(string \<Rightarrow> string) \<Rightarrow> bytes \<Rightarrow> bool" where
  "is_failed_delivery_status_notification lc raw =
     (if \<not> is_delivery_status_notification lc raw then False
      else
        (let content_type = raw_content_type lc raw in
         if content_type_is content_type ''message/delivery-status'' then has_only_failed_actions raw
         else if content_type_is content_type ''multipart/report'' then
           report_failed False False (split_on LF raw)
         else has_only_failed_actions raw))"

section \<open>The message token header\<close>

definition is_message_token_header :: "bytes \<Rightarrow> bool" where
  "is_message_token_header name \<longleftrightarrow>
     eq_ignore_ascii_case name MESSAGE_TOKEN_HEADER \<or> eq_ignore_ascii_case name POSTAL_MESSAGE_TOKEN_HEADER"

fun drop_token_headers :: "bool \<Rightarrow> bytes list \<Rightarrow> bytes" where
  "drop_token_headers skipping [] = []"
| "drop_token_headers skipping (l # ls) =
     (let line = line_content l in
      if line = [] then concat (l # ls)
      else
        (let continuation = (hd line = CHR '' '' \<or> hd line = CHR 0x09);
             skip = (if continuation then skipping
                     else is_message_token_header (hd (split_on (CHR '':'') line)))
         in (if skip then [] else l) @ drop_token_headers skip ls))"

definition add_message_token_header :: "bytes \<Rightarrow> string \<Rightarrow> bytes" where
  "add_message_token_header raw token =
     MESSAGE_TOKEN_HEADER @ '': '' @ token @ crlf @ drop_token_headers False (split_inclusive LF raw)"

definition line_token :: "bytes \<Rightarrow> string option" where
  "line_token l =
     (case split_once (CHR '':'') (chomp [CR] l) of
        None \<Rightarrow> None
      | Some (n, v) \<Rightarrow>
          if \<not> is_message_token_header n then None
          else
            (let token = takeWhile is_ascii_alnum (trim_ascii v) in
             if token = [] \<or> length token > 64 then None else Some token))"

fun collect_tokens :: "string list \<Rightarrow> bytes list \<Rightarrow> string list" where
  "collect_tokens tokens [] = tokens"
| "collect_tokens tokens (l # ls) =
     (case line_token l of
        None \<Rightarrow> collect_tokens tokens ls
      | Some t \<Rightarrow> collect_tokens (if t \<in> set tokens then tokens else tokens @ [t]) ls)"

definition original_message_tokens :: "bytes \<Rightarrow> string list" where
  "original_message_tokens raw = collect_tokens [] (split_on LF raw)"

section \<open>Lines of a message\<close>

text \<open>
  The shape of \<^const>\<open>split_inclusive\<close>: every line but the last ends with its only
  LF. Such lists are closed under dropping lines, and are what splitting their
  concatenation gives back.
\<close>

fun lines_ok :: "bytes list \<Rightarrow> bool" where
  "lines_ok [] = True"
| "lines_ok (l # ls) = (l \<noteq> [] \<and> LF \<notin> set (butlast l) \<and> (last l = LF \<or> ls = []) \<and> lines_ok ls)"

lemma lines_ok_split [simp]: "lines_ok (split_inclusive LF s)"
proof (induction s)
  case (Cons x xs)
  then show ?case by (cases "split_inclusive LF xs") auto
qed simp

lemma lines_ok_cases [consumes 1, case_names ended last_line]:
  assumes "lines_ok (l # ls)"
  obtains w where "l = w @ [LF]" "LF \<notin> set w" "lines_ok ls"
  | "l \<noteq> []" "LF \<notin> set l" "ls = []"
  using assms by (cases l rule: rev_cases) auto

lemma split_inclusive_notin: "c \<notin> set w \<Longrightarrow> split_inclusive c w = (if w = [] then [] else [w])"
  by (induction w) auto

lemma split_lines_ok: "lines_ok ls \<Longrightarrow> split_inclusive LF (concat ls) = ls"
proof (induction ls)
  case (Cons l ls)
  from Cons.prems show ?case
    by (cases rule: lines_ok_cases) (use Cons.IH in \<open>auto simp: split_inclusive_line split_inclusive_notin\<close>)
qed simp

lemma lines_ok_subseq: "subseq ks ls \<Longrightarrow> lines_ok ls \<Longrightarrow> lines_ok ks"
  by (induction rule: list_emb.induct) auto

lemma collect_tokens_lines:
  "lines_ok ls \<Longrightarrow> collect_tokens acc (split_on LF (concat ls)) = collect_tokens acc (map (chomp [LF]) ls)"
proof (induction ls arbitrary: acc)
  case Nil
  then show ?case by (simp add: line_token_def split_once_def)
next
  case (Cons l ls)
  from Cons.prems show ?case
  proof (cases rule: lines_ok_cases)
    case (ended w)
    with Cons.IH show ?thesis by (simp add: split_on_append split: option.split)
  next
    case last_line
    then have "last l \<noteq> LF" using last_in_set by metis
    with last_line show ?thesis by (simp add: split_on_notin chomp_other)
  qed
qed

section \<open>The correlation header\<close>

definition header_lines :: "bytes \<Rightarrow> bytes list" where
  "header_lines raw = takeWhile (\<lambda>l. line_content l \<noteq> []) (split_inclusive LF raw)"

definition body_part :: "bytes \<Rightarrow> bytes" where
  "body_part raw = concat (dropWhile (\<lambda>l. line_content l \<noteq> []) (split_inclusive LF raw))"

definition good_token :: "string \<Rightarrow> bool" where
  "good_token t \<longleftrightarrow> t \<noteq> [] \<and> length t \<le> 64 \<and> list_all is_ascii_alnum t"

lemma token_header_first: "is_message_token_header n \<Longrightarrow> n \<noteq> [] \<and> lower_c (hd n) = CHR ''x''"
  by (cases n) (auto simp: is_message_token_header_def MESSAGE_TOKEN_HEADER_def
      POSTAL_MESSAGE_TOKEN_HEADER_def ascii_eval)

lemma split_on_hd: "hd (split_on c s) = takeWhile (\<lambda>x. x \<noteq> c) s"
  by (induction s) (auto split: list.splits)

lemma takeWhile_until: "c \<notin> set a \<Longrightarrow> takeWhile (\<lambda>x. x \<noteq> c) (a @ c # b) = a"
  by (induction a) auto

lemma split_once_fst: "split_once c s = Some (a, b) \<Longrightarrow> a = takeWhile (\<lambda>x. x \<noteq> c) s"
  using split_once_SomeD [of c s a b] takeWhile_until [of c a b] by simp

text \<open>A line that was kept carries no token.\<close>

lemma kept_line_token:
  assumes "line_content l \<noteq> []"
    and "hd (line_content l) = CHR '' '' \<or> hd (line_content l) = CHR 0x09
         \<or> \<not> is_message_token_header (hd (split_on (CHR '':'') (line_content l)))"
  shows "line_token (chomp [LF] l) = None"
proof (cases "split_once (CHR '':'') (line_content l)")
  case (Some p)
  obtain n v where p: "p = (n, v)" by force
  with Some have n: "n = takeWhile (\<lambda>x. x \<noteq> CHR '':'') (line_content l)"
    using split_once_fst by simp
  have "\<not> is_message_token_header n"
  proof
    assume tok: "is_message_token_header n"
    from token_header_first [OF tok] n have "lower_c (hd (line_content l)) = CHR ''x''"
      by (cases "line_content l") (auto split: if_splits)
    then have "hd (line_content l) \<noteq> CHR '' ''" "hd (line_content l) \<noteq> CHR 0x09"
      by (auto simp: lower_c_def is_ascii_upper_def)
    with assms(2) n tok show False by (simp add: split_on_hd)
  qed
  with Some p show ?thesis by (simp add: line_token_def line_content_def)
qed (simp add: line_token_def line_content_def)

lemma drop_token_headers_lines:
  "\<exists>ks. drop_token_headers sk ls = concat ks @ concat (dropWhile (\<lambda>l. line_content l \<noteq> []) ls)
     \<and> subseq ks (takeWhile (\<lambda>l. line_content l \<noteq> []) ls)
     \<and> list_all (\<lambda>l. line_token (chomp [LF] l) = None) ks"
proof (induction ls arbitrary: sk)
  case (Cons l ls)
  show ?case
  proof (cases "line_content l = []")
    case False
    let ?skip = "if hd (line_content l) = CHR '' '' \<or> hd (line_content l) = CHR 0x09 then sk
      else is_message_token_header (hd (split_on (CHR '':'') (line_content l)))"
    from Cons [of ?skip] obtain ks where ks:
      "drop_token_headers ?skip ls = concat ks @ concat (dropWhile (\<lambda>l. line_content l \<noteq> []) ls)"
      "subseq ks (takeWhile (\<lambda>l. line_content l \<noteq> []) ls)"
      "list_all (\<lambda>l. line_token (chomp [LF] l) = None) ks" by blast
    show ?thesis
    proof (cases ?skip)
      case True
      with False ks show ?thesis by (intro exI [of _ ks]) (auto simp: Let_def)
    next
      case keep: False
      then have "line_token (chomp [LF] l) = None"
        by (intro kept_line_token False) (auto split: if_splits)
      with False keep ks show ?thesis by (intro exI [of _ "l # ks"]) (auto simp: Let_def)
    qed
  qed (auto intro: exI [of _ "[]"])
qed (auto intro: exI [of _ "[]"])

lemma collect_tokens_none: "list_all (\<lambda>l. line_token l = None) ls \<Longrightarrow> collect_tokens acc ls = acc"
  by (induction ls) auto

lemma collect_tokens_prefix: "prefix acc (collect_tokens acc ls)"
  by (induction acc ls rule: collect_tokens.induct) (auto split: option.splits if_splits
      intro: prefix_order.trans [OF prefixI [OF refl]])

lemma alnum_not_ws: "is_ascii_alnum c \<Longrightarrow> \<not> is_ascii_ws c"
  by (auto simp: ascii_eval)

lemma dropWhile_none: "list_all (\<lambda>c. \<not> P c) s \<Longrightarrow> dropWhile P s = s"
  by (cases s) auto

lemma trim_ascii_alnum: "list_all is_ascii_alnum t \<Longrightarrow> trim_ascii t = t"
  using dropWhile_none [of is_ascii_ws t] dropWhile_none [of is_ascii_ws "rev t"]
  by (simp add: trim_ascii_def list_all_iff alnum_not_ws)

lemma token_line:
  assumes "good_token tok"
  shows "line_token (MESSAGE_TOKEN_HEADER @ '': '' @ tok @ [CR]) = Some tok"
proof -
  have "trim_ascii ('' '' @ tok) = trim_ascii tok" by (simp add: trim_ascii_def is_ascii_ws_def)
  with assms have "trim_ascii ('' '' @ tok) = tok" by (simp add: good_token_def trim_ascii_alnum)
  moreover from assms have "takeWhile is_ascii_alnum tok = tok" "tok \<noteq> []" "length tok \<le> 64"
    by (simp_all add: good_token_def list_all_iff)
  moreover have "split_once (CHR '':'') (MESSAGE_TOKEN_HEADER @ CHR '':'' # '' '' @ tok)
    = Some (MESSAGE_TOKEN_HEADER, '' '' @ tok)"
    by (rule split_once_first) (simp add: MESSAGE_TOKEN_HEADER_def)
  moreover have "chomp [CR] (MESSAGE_TOKEN_HEADER @ '': '' @ tok @ [CR]) = MESSAGE_TOKEN_HEADER @ '': '' @ tok"
    using chomp_simps(1) [of CR "MESSAGE_TOKEN_HEADER @ '': '' @ tok"] by simp
  ultimately show ?thesis
    by (simp add: line_token_def is_message_token_header_def Let_def del: takeWhile_eq_all_conv)
qed

lemma takeWhile_dropWhile [simp]: "takeWhile P (dropWhile P xs) = []"
  by (induction xs) auto

lemma add_message_token_header_lines:
  assumes "good_token tok"
  obtains ks where
    "split_inclusive LF (add_message_token_header raw tok)
     = (MESSAGE_TOKEN_HEADER @ '': '' @ tok @ crlf) # ks @ dropWhile (\<lambda>l. line_content l \<noteq> []) (split_inclusive LF raw)"
    "subseq ks (header_lines raw)" "list_all (\<lambda>l. line_token (chomp [LF] l) = None) ks"
proof -
  let ?ls = "split_inclusive LF raw" and ?d = "\<lambda>l. line_content l \<noteq> []"
  from drop_token_headers_lines [of False ?ls] obtain ks where ks:
    "drop_token_headers False ?ls = concat ks @ concat (dropWhile ?d ?ls)"
    "subseq ks (header_lines raw)" "list_all (\<lambda>l. line_token (chomp [LF] l) = None) ks"
    unfolding header_lines_def by blast
  from ks(2) have "subseq (ks @ dropWhile ?d ?ls) ?ls"
    unfolding header_lines_def by (metis list_emb_append_mono subseq_order.order_refl takeWhile_dropWhile_id)
  then have ok: "lines_ok (ks @ dropWhile ?d ?ls)" by (rule lines_ok_subseq) simp
  from assms have "LF \<notin> set (MESSAGE_TOKEN_HEADER @ '': '' @ tok @ [CR])"
    by (auto simp: good_token_def MESSAGE_TOKEN_HEADER_def list_all_iff ascii_eval)
  from split_inclusive_line [OF this, of "concat (ks @ dropWhile ?d ?ls)"] split_lines_ok [OF ok] ks
  show ?thesis by (intro that [of ks]) (simp_all add: add_message_token_header_def)
qed

lemma add_message_token_header_correct:
  assumes "good_token tok"
  shows "original_message_tokens (concat (header_lines (add_message_token_header raw tok))) = [tok]
    \<and> subseq (tl (header_lines (add_message_token_header raw tok))) (header_lines raw)
    \<and> body_part (add_message_token_header raw tok) = body_part raw
    \<and> tok \<in> set (original_message_tokens (add_message_token_header raw tok))"
proof -
  let ?out = "add_message_token_header raw tok" and ?d = "\<lambda>l. line_content l \<noteq> []"
  let ?tl = "MESSAGE_TOKEN_HEADER @ '': '' @ tok @ crlf"
  obtain ks where ks: "split_inclusive LF ?out = ?tl # ks @ dropWhile ?d (split_inclusive LF raw)"
    "subseq ks (header_lines raw)" "list_all (\<lambda>l. line_token (chomp [LF] l) = None) ks"
    using add_message_token_header_lines [OF assms] by blast
  have tl: "chomp [LF] ?tl = MESSAGE_TOKEN_HEADER @ '': '' @ tok @ [CR]"
    using chomp_simps(1) [of LF "MESSAGE_TOKEN_HEADER @ '': '' @ tok @ [CR]"] by simp
  have "?d ?tl" 
    using tl chomp_simps(1) [of CR "MESSAGE_TOKEN_HEADER @ '': '' @ tok"] by (simp add: line_content_def)
  moreover have "list_all ?d ks"
    using list_emb_set [OF ks(2)] by (auto simp: header_lines_def list_all_iff dest: set_takeWhileD)
  ultimately have split: "header_lines ?out = ?tl # ks" "body_part ?out = body_part raw"
    by (simp_all add: header_lines_def body_part_def ks(1) list_all_iff takeWhile_append dropWhile_append)
  have ok: "lines_ok (split_inclusive LF ?out)" by simp
  then have "lines_ok (?tl # ks)" unfolding ks(1)
    by (rule lines_ok_subseq [rotated]) (simp add: prefix_imp_subseq)
  then have "original_message_tokens (concat (header_lines ?out)) = [tok]"
    using collect_tokens_none [of "map (chomp [LF]) ks"] ks(3) token_line [OF assms] tl
    by (simp only: original_message_tokens_def collect_tokens_lines split) (simp add: list_all_iff)
  moreover have "original_message_tokens ?out = collect_tokens [] (map (chomp [LF]) (split_inclusive LF ?out))"
    using collect_tokens_lines [OF ok, of "[]"] by (simp add: original_message_tokens_def)
  then have "prefix [tok] (original_message_tokens ?out)"
    using token_line [OF assms] tl collect_tokens_prefix [of "[tok]"] by (simp add: ks(1))
  then have "tok \<in> set (original_message_tokens ?out)" by (auto dest: set_mono_prefix)
  ultimately show ?thesis using split ks(2) by simp
qed

lemma set_collect_tokens:
  "set (collect_tokens acc ls) = set acc \<union> {t. \<exists>l \<in> set ls. line_token l = Some t}"
  by (induction acc ls rule: collect_tokens.induct) (auto split: option.splits if_splits)

lemma distinct_collect_tokens: "distinct acc \<Longrightarrow> distinct (collect_tokens acc ls)"
  by (induction acc ls rule: collect_tokens.induct) (auto split: option.splits)

lemma line_token_good: "line_token l = Some t \<Longrightarrow> good_token t"
  by (auto simp: line_token_def good_token_def Let_def list_all_iff dest: set_takeWhileD
      split: option.splits prod.splits if_splits)

lemma original_message_tokens_good:
  "distinct (original_message_tokens raw) \<and> list_all good_token (original_message_tokens raw)"
  by (auto simp: original_message_tokens_def distinct_collect_tokens set_collect_tokens list_all_iff
      dest: line_token_good)

lemma split_on_cat: "split_on c (a @ c # b) = split_on c a @ split_on c b"
  by (induction a) (auto split: list.splits)

text \<open>
  C25. The correlation header cannot be forged: in an outgoing message the token
  the worker adds is the only message token of the header block, whatever headers
  the submitter supplied; the other header lines and the body are kept. A
  notification that returns the message from the beginning of a line yields that
  token again, and whatever a notification holds, the tokens read from it are
  distinct, alphanumeric and at most 64 bytes long.
\<close>

theorem message_token_unforgeable:
  assumes "good_token tok"
  shows "original_message_tokens (concat (header_lines (add_message_token_header raw tok))) = [tok]
    \<and> subseq (tl (header_lines (add_message_token_header raw tok))) (header_lines raw)
    \<and> body_part (add_message_token_header raw tok) = body_part raw
    \<and> tok \<in> set (original_message_tokens (pre @ [LF] @ add_message_token_header raw tok))
    \<and> distinct (original_message_tokens dsn) \<and> list_all good_token (original_message_tokens dsn)"
proof -
  from add_message_token_header_correct [OF assms, of raw]
  have "tok \<in> set (original_message_tokens (add_message_token_header raw tok))" by simp
  then have "tok \<in> set (original_message_tokens (pre @ [LF] @ add_message_token_header raw tok))"
    by (auto simp: original_message_tokens_def set_collect_tokens split_on_cat)
  then show ?thesis
    using add_message_token_header_correct [OF assms, of raw] original_message_tokens_good by blast
qed

theorem message_token_unforgeable_witness:
  "original_message_tokens (concat (header_lines (add_message_token_header
     (''X-Postal-MsgID: forged'' @ crlf @ ''Subject: x'' @ crlf @ crlf @ ''body'') ''t0k3n''))) = [''t0k3n'']"
  using message_token_unforgeable [of "''t0k3n''" "''X-Postal-MsgID: forged'' @ crlf @ ''Subject: x'' @ crlf @ crlf @ ''body''"]
  by (simp add: good_token_def ascii_eval)

section \<open>Classification of notifications\<close>

lemma dsn_field_ascii:
  "list_all (\<lambda>c. byte c < 128) l \<Longrightarrow>
   dsn_field l p = Inr (if length p \<le> length l \<and> eq_ignore_ascii_case (take (length p) l) p
                        then Some (drop (length p) l) else None)"
  by (auto simp: dsn_field_def slice_to_ascii list_all_length)

lemma dsn_value_ascii: "list_all (\<lambda>c. byte c < 128) l \<Longrightarrow> returns (dsn_value l)"
  by (auto simp: dsn_value_def dsn_field_ascii split: option.split)

lemma classify_dsn_lines_ascii:
  "list_all (list_all (\<lambda>c. byte c < 128)) ls \<Longrightarrow> returns (classify_dsn_lines ls)"
proof (induction ls)
  case (Cons l ls)
  then have "list_all (\<lambda>c. byte c < 128) (trim l)"
    using trim_subset [of l] by (auto simp: list_all_iff)
  with Cons show ?case by (auto simp: dsn_value_ascii Let_def split: option.split)
qed simp

definition is_status_field :: "string \<Rightarrow> string \<Rightarrow> bool" where
  "is_status_field l v \<longleftrightarrow>
     (\<exists>p. trim l = p @ v \<and> (eq_ignore_ascii_case p ''Status:'' \<or> eq_ignore_ascii_case p ''Diagnostic-Code:''))"

lemma dsn_field_SomeD: "dsn_field l p = Inr (Some v) \<Longrightarrow> \<exists>q. l = q @ v \<and> eq_ignore_ascii_case q p"
  by (auto simp: dsn_field_def slice_to_def bind_rust_Inr_iff split: if_splits)
     (metis append_take_drop_id)

lemma dsn_value_SomeD: "dsn_value (trim l) = Inr (Some v) \<Longrightarrow> is_status_field l v"
  by (auto simp: dsn_value_def is_status_field_def bind_rust_Inr_iff split: option.splits
      dest!: dsn_field_SomeD)

lemma classify_dsn_lines_sound:
  "classify_dsn_lines ls = Inr c \<Longrightarrow> c \<noteq> Undetermined \<Longrightarrow>
   \<exists>l \<in> set ls. \<exists>v. is_status_field l v \<and> classify_response v = c"
proof (induction ls)
  case (Cons l ls)
  from Cons.prems(1) obtain w where v: "dsn_value (trim l) = Inr w"
    by (auto simp: bind_rust_Inr_iff)
  with Cons show ?case
    by (cases w) (auto simp: Let_def split: if_splits dest: dsn_value_SomeD)
qed simp

lemma str_lines_subset: "l \<in> set (str_lines s) \<Longrightarrow> set l \<subseteq> set s"
proof -
  assume "l \<in> set (str_lines s)"
  then obtain k where k: "k \<in> set (split_inclusive LF s)" "l = str_line k" by (auto simp: str_lines_def)
  have "set k \<subseteq> set (concat (split_inclusive LF s))" using k(1) by (auto simp del: concat_split_inclusive)
  moreover have "set (chomp p x) \<subseteq> set x" for p x
    by (auto simp: chomp_def strip_suffix_def dest: in_set_takeD split: option.splits)
  then have "set l \<subseteq> set k"
    by (fastforce simp: k(2) str_line_def strip_suffix_def dest: in_set_takeD split: option.splits if_splits)
  ultimately show ?thesis by simp
qed

text \<open>
  A notification is classified by its status fields and by nothing else: a
  category other than \<open>undetermined\<close> comes from a line that starts, in any case,
  with \<open>Status:\<close> or \<open>Diagnostic-Code:\<close> and whose value classifies so; and on an
  ASCII message the classification always returns.
\<close>

theorem dsn_category_from_status_fields:
  "(\<forall>c. classify_dsn raw = Inr c \<and> c \<noteq> Undetermined \<longrightarrow>
      (\<exists>l v. l \<in> set (str_lines (utf8_lossy raw)) \<and> is_status_field l v \<and> classify_response v = c))
   \<and> (list_all (\<lambda>c. byte c < 128) raw \<longrightarrow> (\<exists>c. classify_dsn raw = Inr c))"
proof -
  have "returns (classify_dsn raw)" if "list_all (\<lambda>c. byte c < 128) raw"
    unfolding classify_dsn_def
    by (rule classify_dsn_lines_ascii)
       (use that str_lines_subset [of _ raw] in \<open>fastforce simp: list_all_iff utf8_lossy_ascii\<close>)
  then show ?thesis
    using classify_dsn_lines_sound [of "str_lines (utf8_lossy raw)"]
    unfolding classify_dsn_def returns_iff by blast
qed

theorem dsn_category_from_status_fields_witness:
  "\<exists>l v. l \<in> set (str_lines (utf8_lossy (''Action: failed'' @ crlf @ ''status: 5.1.1''))) \<and> is_status_field l v
     \<and> classify_response v = Hard"
proof -
  have "classify_dsn (''Action: failed'' @ crlf @ ''status: 5.1.1'') = Inr Hard" by code_simp
  with dsn_category_from_status_fields [of "''Action: failed'' @ crlf @ ''status: 5.1.1''"] show ?thesis by blast
qed

text \<open>
  Outside ASCII it can panic: a line whose eighth byte is inside a character,
  as in a German text that starts \<open>Diese\<close> followed by a space and an umlaut, stops the classification of a
  notification that was recognised as failed.
\<close>

definition demo_dsn :: bytes where
  "demo_dsn = ''Content-Type: multipart/report; report-type=delivery-status'' @ crlf @ crlf
     @ ''Diese '' @ [CHR 0xC3, CHR 0x9C] @ ''bermittlung schlug fehl.'' @ crlf
     @ ''Content-Type: message/delivery-status'' @ crlf @ ''Action: failed'' @ crlf @ ''Status: 5.1.1'' @ crlf"

theorem dsn_classification_panics:
  "is_failed_delivery_status_notification to_ascii_lowercase demo_dsn
   \<and> utf8_valid demo_dsn \<and> classify_dsn demo_dsn = Inl CharBoundary"
  by code_simp

section \<open>Failed notifications\<close>

definition action_line :: "bytes \<Rightarrow> bytes option" where
  "action_line l =
     (case line_field l of Some (n, v) \<Rightarrow> if eq_ignore_ascii_case n ''Action'' then Some v else None | None \<Rightarrow> None)"

lemma only_failed_iff:
  "only_failed saw ls \<longleftrightarrow>
     (\<forall>l v. l \<in> set ls \<longrightarrow> action_line l = Some v \<longrightarrow> eq_ignore_ascii_case v ''failed'')
     \<and> (saw \<or> (\<exists>l v. l \<in> set ls \<and> action_line l = Some v))"
proof (induction saw ls rule: only_failed.induct)
  case (2 saw l ls)
  show ?case
  proof (cases "action_line l")
    case None
    then have "only_failed saw (l # ls) = only_failed saw ls"
      by (auto simp: action_line_def split: option.splits prod.splits if_splits)
    with None 2 show ?thesis
      by (cases "line_field l") (auto simp: action_line_def split: prod.splits if_splits)
  next
    case (Some v)
    then obtain n where "line_field l = Some (n, v)" "eq_ignore_ascii_case n ''Action''"
      by (auto simp: action_line_def split: option.splits prod.splits if_splits)
    with Some 2 show ?thesis by auto
  qed
qed simp

lemma report_failed_action:
  "report_failed in_part saw ls \<Longrightarrow>
     saw \<or> (\<exists>l v. l \<in> set ls \<and> action_line l = Some v \<and> eq_ignore_ascii_case v ''failed'')"
proof (induction ls arbitrary: in_part saw)
  case (Cons l ls)
  show ?case
  proof (cases "prefix ''--'' (raw_line l) \<or> line_field l = None")
    case True
    with Cons.prems show ?thesis by (auto split: if_splits dest!: Cons.IH)
  next
    case False
    then obtain n v where f: "line_field l = Some (n, v)" "\<not> prefix ''--'' (raw_line l)" by auto
    then have "action_line l = (if eq_ignore_ascii_case n ''Action'' then Some v else None)"
      by (simp add: action_line_def)
    with f Cons.prems show ?thesis
      by (auto split: if_splits dest!: Cons.IH)
  qed
qed simp

text \<open>
  A message counts as a failed notification only when it has the shape of a
  delivery status notification and states a failed action; outside
  \<open>multipart/report\<close> no recipient's action may say anything else, so a delayed or
  relayed notification never marks a message as bounced.
\<close>

theorem failed_notification_sound:
  assumes "is_failed_delivery_status_notification lc raw"
  shows "is_delivery_status_notification lc raw
    \<and> (\<exists>l v. l \<in> set (split_on LF raw) \<and> action_line l = Some v \<and> eq_ignore_ascii_case v ''failed'')
    \<and> (content_type_is (raw_content_type lc raw) ''multipart/report''
       \<or> (\<forall>l v. l \<in> set (split_on LF raw) \<and> action_line l = Some v \<longrightarrow> eq_ignore_ascii_case v ''failed''))"
proof -
  have ct: "\<not> (content_type_is c ''message/delivery-status'' \<and> content_type_is c ''multipart/report'')" for c
    by (auto simp: content_type_is_def dest!: eq_ignore_ascii_case_length)
  from assms have "is_delivery_status_notification lc raw"
    and "if content_type_is (raw_content_type lc raw) ''multipart/report''
         then report_failed False False (split_on LF raw) else only_failed False (split_on LF raw)"
    using ct [of "raw_content_type lc raw"]
    by (auto simp: is_failed_delivery_status_notification_def has_only_failed_actions_def Let_def split: if_splits)
  then show ?thesis
    using report_failed_action [of False False "split_on LF raw"] only_failed_iff [of False "split_on LF raw"]
    by (auto split: if_splits)
qed

theorem failed_notification_sound_witness:
  "is_delivery_status_notification to_ascii_lowercase demo_dsn
   \<and> (\<exists>l v. l \<in> set (split_on LF demo_dsn) \<and> action_line l = Some v \<and> eq_ignore_ascii_case v ''failed'')"
proof -
  have "is_failed_delivery_status_notification to_ascii_lowercase demo_dsn" by code_simp
  from failed_notification_sound [OF this] show ?thesis by blast
qed

end
