(* ===== verification/Smtp_Client.thy ===== *)
theory Smtp_Client
  imports Smtp_Session Bounce
begin

text \<open>
  The SMTP client of the worker (\<open>worker/smtp_client.rs\<close>): address selection, the
  conversation with the remote server, its security levels, and the encoding of
  the message body.

  The network is an adversary: what a connection does is a list of events, each
  consumed by the operation that meets it, and the theorems hold for every list.
  A connection records, for the theorems, what was written to it, whether the
  stream was a TLS stream at that time, and the dialog so far: every command with
  the code of its reply, the greeting under the empty command. Name resolution, connecting and the TLS handshake are
  outcomes the environment supplies.
\<close>

section \<open>Outcomes and parameters\<close>

datatype send_outcome =
    Sent (so_response: string) (so_tls: bool)
  | SoftFail (so_response: string)
  | HardFail (so_response: string)

datatype tls_mode = TlsVerify | TlsAcceptAny | TlsDisabled

definition from_verify_mode :: "string \<Rightarrow> bool \<Rightarrow> tls_mode" where
  "from_verify_mode verify_mode enable =
     (if \<not> enable then TlsDisabled
      else if eq_ignore_ascii_case verify_mode ''none'' then TlsAcceptAny
      else TlsVerify)"

datatype connection_security = Opportunistic | RequireStartTls | ImplicitTls

record smtp_auth =
  sa_username :: string
  sa_password :: string

text \<open>Durations are whole seconds: the code only prints them.\<close>

record send_params =
  sp_host :: string
  sp_port :: nat
  sp_helo_hostname :: string
  sp_mail_from :: string
  sp_rcpt_to :: string
  sp_timeout :: nat
  sp_read_timeout :: nat
  sp_data_timeout :: nat
  sp_tls_mode :: tls_mode
  sp_security :: connection_security
  sp_auth :: "smtp_auth option"
  sp_source_ip :: "ip_addr option"

definition classify :: "nat \<Rightarrow> string \<Rightarrow> bool \<Rightarrow> send_outcome" where
  "classify code response tls =
     (if 200 \<le> code \<and> code \<le> 399 then Sent response tls
      else if 400 \<le> code \<and> code \<le> 499 then SoftFail response
      else HardFail response)"

definition effective_tls_mode :: "send_params \<Rightarrow> tls_mode" where
  "effective_tls_mode p =
     (case (sp_tls_mode p, sp_security p) of
        (TlsDisabled, RequireStartTls) \<Rightarrow> TlsVerify
      | (TlsDisabled, ImplicitTls) \<Rightarrow> TlsVerify
      | (mode, _) \<Rightarrow> mode)"

section \<open>Connections\<close>

type_synonym io_error = string

text \<open>
  What happens next on a connection: bytes to read (none of them: the end of the
  stream), a read or a body write that gets no answer in time, or an I/O error.
  When the list is used up the peer has closed the connection.
\<close>

datatype net_event = Incoming bytes | ReadStall | WriteStall | Broken io_error

datatype wire = WireLine string | WireBody bytes

definition wire_bytes :: "wire \<Rightarrow> bytes" where
  "wire_bytes w = (case w of WireLine l \<Rightarrow> l @ crlf | WireBody b \<Rightarrow> b)"

record connection =
  cn_events :: "net_event list"
  cn_buffer :: bytes
  cn_timeout :: nat
  cn_secure :: bool
  cn_written :: "(bool \<times> wire) list"
  cn_dialog :: "(string \<times> nat) list"

type_synonym 'a io = "connection \<Rightarrow> (io_error + 'a) \<times> connection"

definition bind_io :: "'a io \<Rightarrow> ('a \<Rightarrow> 'b io) \<Rightarrow> 'b io" where
  "bind_io m f c = (case m c of (Inl e, c') \<Rightarrow> (Inl e, c') | (Inr x, c') \<Rightarrow> f x c')"

definition return_io :: "'a \<Rightarrow> 'a io" where
  "return_io x c = (Inr x, c)"

definition buffered_line :: "bytes \<Rightarrow> (string \<times> bytes) option" where
  "buffered_line buffer =
     map_option (\<lambda>i. (trim_end_matches is_crlf_char (utf8_lossy (take (Suc i) buffer)), drop (Suc i) buffer))
       (find_char LF buffer)"

fun read_line_from :: "nat \<Rightarrow> bytes \<Rightarrow> net_event list \<Rightarrow> (io_error + string) \<times> bytes \<times> net_event list" where
  "read_line_from t buffer [] =
     (case buffered_line buffer of
        Some (line, rest) \<Rightarrow> (Inr line, rest, [])
      | None \<Rightarrow> (Inl ''connection closed'', buffer, []))"
| "read_line_from t buffer (e # es) =
     (case buffered_line buffer of
        Some (line, rest) \<Rightarrow> (Inr line, rest, e # es)
      | None \<Rightarrow>
          (case e of
             Incoming chunk \<Rightarrow>
               if chunk = [] then (Inl ''connection closed'', buffer, es)
               else read_line_from t (buffer @ chunk) es
           | ReadStall \<Rightarrow> (Inl (''read timeout after '' @ show_nat t @ ''s''), buffer, es)
           | WriteStall \<Rightarrow> read_line_from t buffer es
           | Broken err \<Rightarrow> (Inl err, buffer, es)))"

definition read_line :: "string io" where
  "read_line c =
     (case read_line_from (cn_timeout c) (cn_buffer c) (cn_events c) of
        (r, buffer, events) \<Rightarrow> (r, c\<lparr>cn_buffer := buffer, cn_events := events\<rparr>))"

text \<open>\<open>str::parse::<u16>\<close>: an optional plus sign and digits, within the range.\<close>

definition parse_u16 :: "string \<Rightarrow> nat option" where
  "parse_u16 s =
     (let ds = (if prefix ''+'' s then tl s else s) in
      if ds \<noteq> [] \<and> list_all is_ascii_digit ds \<and> digits_value ds < 65536 then Some (digits_value ds) else None)"

definition reply_code :: "string \<Rightarrow> nat" where
  "reply_code line =
     (if 3 \<le> length line \<and> is_char_boundary line 3 then
        (case parse_u16 (take 3 line) of Some n \<Rightarrow> n | None \<Rightarrow> 0)
      else 0)"

definition is_last_line :: "string \<Rightarrow> bool" where
  "is_last_line line \<longleftrightarrow> length line < 4 \<or> line ! 3 \<noteq> CHR ''-''"

text \<open>The bytes a connection can still deliver: what every line read takes from.\<close>

definition event_bytes :: "net_event \<Rightarrow> nat" where
  "event_bytes e = (case e of Incoming d \<Rightarrow> length d | _ \<Rightarrow> 0)"

definition pending :: "connection \<Rightarrow> nat" where
  "pending c = length (cn_buffer c) + sum_list (map event_bytes (cn_events c))"

lemma buffered_line_length: "buffered_line b = Some (line, rest) \<Longrightarrow> length rest < length b"
  by (auto simp: buffered_line_def dest!: find_char_SomeD)

lemma read_line_from_pending:
  "read_line_from t b es = (Inr line, b', es') \<Longrightarrow>
   length b' + sum_list (map event_bytes es') < length b + sum_list (map event_bytes es)"
proof (induction t b es rule: read_line_from.induct)
  case (1 t b)
  then show ?case by (auto split: option.splits dest: buffered_line_length)
next
  case (2 t b e es)
  show ?case
  proof (cases "buffered_line b")
    case None
    show ?thesis
    proof (cases e)
      case (Incoming d)
      with None 2 have "d \<noteq> []" "read_line_from t (b @ d) es = (Inr line, b', es')"
        by (auto split: if_splits)
      with "2.IH"(1) [OF None Incoming] Incoming show ?thesis by (simp add: event_bytes_def)
    next
      case WriteStall
      with None 2 show ?thesis by (simp add: event_bytes_def)
    qed (use None 2 in simp_all)
  qed (use 2 in \<open>auto dest: buffered_line_length\<close>)
qed

lemma read_line_pending: "read_line c = (Inr line, c') \<Longrightarrow> pending c' < pending c"
  by (auto simp: read_line_def pending_def split: prod.splits dest: read_line_from_pending)

function read_reply_from :: "string \<Rightarrow> (nat \<times> string) io" where
  "read_reply_from full c =
     (case read_line c of
        (Inl e, c') \<Rightarrow> (Inl e, c')
      | (Inr line, c') \<Rightarrow>
          (let full' = full @ line @ [LF] in
           if is_last_line line then (Inr (reply_code line, trim full'), c')
           else read_reply_from full' c'))"
  by pat_completeness auto
termination
  by (relation "measure (\<lambda>(full, c). pending c)") (auto dest: read_line_pending sym)

declare read_reply_from.simps [simp del]

definition read_reply :: "(nat \<times> string) io" where
  "read_reply = read_reply_from []"

text \<open>
  A write with its flush. What was handed to the stream is recorded even when the
  write fails half-way. A command line never waits: it fits the send buffer.
\<close>

definition write_stream :: "wire \<Rightarrow> unit io" where
  "write_stream w c =
     (let c' = c\<lparr>cn_written := cn_written c @ [(cn_secure c, w)]\<rparr> in
      case cn_events c of
        Broken e # es \<Rightarrow> (Inl e, c'\<lparr>cn_events := es\<rparr>)
      | _ \<Rightarrow> (Inr (), c'))"

definition send_line :: "string \<Rightarrow> unit io" where
  "send_line line = write_stream (WireLine line)"

definition reply_to :: "string \<Rightarrow> (nat \<times> string) io" where
  "reply_to line c =
     (case read_reply c of
        (Inl e, c') \<Rightarrow> (Inl e, c')
      | (Inr reply, c') \<Rightarrow> (Inr reply, c'\<lparr>cn_dialog := cn_dialog c' @ [(line, fst reply)]\<rparr>))"

definition command :: "string \<Rightarrow> (nat \<times> string) io" where
  "command line = bind_io (send_line line) (\<lambda>_. reply_to line)"

definition stuff_line :: "bytes \<Rightarrow> bytes" where
  "stuff_line l =
     (let line = chomp [CR] l in (if prefix ''.'' line then ''.'' else []) @ line @ crlf)"

definition message_lines :: "bytes \<Rightarrow> bytes list" where
  "message_lines raw =
     (let lines = split_on LF raw in if last lines = [] then butlast lines else lines)"

definition data_body :: "bytes \<Rightarrow> bytes" where
  "data_body raw = concat (map stuff_line (message_lines raw))"

definition write_body :: "bytes \<Rightarrow> unit io" where
  "write_body bs c =
     (case cn_events c of
        WriteStall # es \<Rightarrow>
          (Inl ''data timeout'',
           c\<lparr>cn_written := cn_written c @ [(cn_secure c, WireBody bs)], cn_events := es\<rparr>)
      | _ \<Rightarrow> write_stream (WireBody bs) c)"

definition set_timeout :: "nat \<Rightarrow> unit io" where
  "set_timeout t c = (Inr (), c\<lparr>cn_timeout := t\<rparr>)"

definition send_data :: "bytes \<Rightarrow> nat \<Rightarrow> nat \<Rightarrow> (nat \<times> string) io" where
  "send_data raw data_timeout read_timeout =
     bind_io (write_body (data_body raw)) (\<lambda>_.
     bind_io (set_timeout data_timeout) (\<lambda>_ c.
       case command ''.'' c of (reply, c') \<Rightarrow> (reply, c'\<lparr>cn_timeout := read_timeout\<rparr>)))"

section \<open>Connecting\<close>

record socket_addr =
  sock_ip :: ip_addr
  sock_port :: nat

definition is_ipv4 :: "ip_addr \<Rightarrow> bool" where
  "is_ipv4 a = (case a of V4 _ \<Rightarrow> True | V6 _ \<Rightarrow> False)"

definition remote_addresses :: "socket_addr list \<Rightarrow> ip_addr option \<Rightarrow> string \<Rightarrow> io_error + socket_addr list" where
  "remote_addresses addresses source_ip host =
     (if addresses = [] then Inl (''no address for '' @ host)
      else
        (let candidates =
           (case source_ip of
              Some src \<Rightarrow> filter (\<lambda>a. is_ipv4 (sock_ip a) = is_ipv4 src) addresses
            | None \<Rightarrow> filter (\<lambda>a. is_ipv4 (sock_ip a)) addresses @ filter (\<lambda>a. \<not> is_ipv4 (sock_ip a)) addresses)
         in if candidates = [] then
              Inl (''no '' @ (case source_ip of Some ip \<Rightarrow> if is_ipv4 ip then ''IPv4'' else ''IPv6'' | None \<Rightarrow> ''IPv6'')
                   @ '' address for '' @ host @ '' (required by the bound source address)'')
            else Inr candidates))"

text \<open>
  What an attempt meets outside the program: the result of name resolution, of
  connecting to an address (the events of the connection), whether the host is a
  TLS server name, and the result of the handshake under a verification mode.
\<close>

record attempt_env =
  ae_lookup :: "io_error + socket_addr list"
  ae_connect :: "socket_addr \<Rightarrow> io_error + net_event list"
  ae_server_name_ok :: bool
  ae_handshake :: "tls_mode \<Rightarrow> io_error + net_event list"
  ae_to_uppercase :: "string \<Rightarrow> string"
  ae_base64 :: "bytes \<Rightarrow> string"

fun connect_any :: "(socket_addr \<Rightarrow> io_error + net_event list) \<Rightarrow> io_error \<Rightarrow> socket_addr list
    \<Rightarrow> io_error + net_event list" where
  "connect_any cn last_error [] = Inl last_error"
| "connect_any cn last_error (a # as) =
     (case cn a of Inr es \<Rightarrow> Inr es | Inl e \<Rightarrow> connect_any cn e as)"

definition connect :: "attempt_env \<Rightarrow> send_params \<Rightarrow> io_error + net_event list" where
  "connect ae p =
     (case ae_lookup ae of
        Inl e \<Rightarrow> Inl e
      | Inr addresses \<Rightarrow>
          (case remote_addresses addresses (sp_source_ip p) (sp_host p) of
             Inl e \<Rightarrow> Inl e
           | Inr candidates \<Rightarrow> connect_any (ae_connect ae) (''no address for '' @ sp_host p) candidates))"

definition tls_events :: "attempt_env \<Rightarrow> send_params \<Rightarrow> io_error + net_event list" where
  "tls_events ae p =
     (if \<not> ae_server_name_ok ae then Inl ''invalid server name for TLS''
      else ae_handshake ae (effective_tls_mode p))"

definition upgrade :: "attempt_env \<Rightarrow> send_params \<Rightarrow> connection \<Rightarrow> io_error + connection" where
  "upgrade ae p c =
     (case tls_events ae p of
        Inl e \<Rightarrow> Inl e
      | Inr es \<Rightarrow> Inr (c\<lparr>cn_events := es, cn_buffer := [], cn_secure := True\<rparr>))"

section \<open>An attempt\<close>

datatype attempt = Complete send_outcome | OpportunisticStartTlsHandshakeFailed

definition ok_code :: "nat \<Rightarrow> bool" where
  "ok_code code \<longleftrightarrow> 200 \<le> code \<and> code \<le> 299"

text \<open>Go on when the reply is the expected one, otherwise classify it and stop.\<close>

definition expect_code :: "(nat \<Rightarrow> bool) \<Rightarrow> bool \<Rightarrow> (nat \<times> string) io \<Rightarrow> attempt io \<Rightarrow> attempt io" where
  "expect_code ok tls m k =
     bind_io m (\<lambda>(code, response).
       if ok code then k else return_io (Complete (classify code response tls)))"

definition quit_line :: "send_outcome \<Rightarrow> attempt io" where
  "quit_line out c = (case send_line ''QUIT'' c of (_, c') \<Rightarrow> (Inr (Complete out), c'))"

definition deliver :: "send_params \<Rightarrow> bytes \<Rightarrow> bool \<Rightarrow> attempt io" where
  "deliver p raw tls =
     expect_code ok_code tls (command (''MAIL FROM:<'' @ sp_mail_from p @ ''>''))
     (expect_code ok_code tls (command (''RCPT TO:<'' @ sp_rcpt_to p @ ''>''))
     (expect_code (\<lambda>code. code = 354) tls (command ''DATA'')
     (bind_io (send_data raw (sp_data_timeout p) (sp_read_timeout p)) (\<lambda>(code, response).
        quit_line (classify code response tls)))))"

definition authenticate_and_deliver :: "attempt_env \<Rightarrow> send_params \<Rightarrow> bytes \<Rightarrow> bool \<Rightarrow> attempt io" where
  "authenticate_and_deliver ae p raw tls =
     (if sp_security p = RequireStartTls \<and> \<not> tls then
        return_io (Complete (SoftFail
          (''relay '' @ sp_host p @ '':'' @ show_nat (sp_port p)
           @ '' does not offer STARTTLS, which is required for smtp:// relays on the submission port'')))
      else
        (case sp_auth p of
           None \<Rightarrow> deliver p raw tls
         | Some a \<Rightarrow>
             expect_code (\<lambda>code. code = 235) tls
               (command (''AUTH PLAIN '' @ ae_base64 ae ([NUL] @ sa_username a @ [NUL] @ sa_password a)))
               (deliver p raw tls)))"

definition starttls_step :: "attempt_env \<Rightarrow> send_params \<Rightarrow> bytes \<Rightarrow> bool \<Rightarrow> attempt io" where
  "starttls_step ae p raw tls =
     bind_io (command ''STARTTLS'') (\<lambda>(code, response) c.
       if ok_code code then
         (case upgrade ae p c of
            Inl e \<Rightarrow>
              if sp_security p = Opportunistic then (Inr OpportunisticStartTlsHandshakeFailed, c) else (Inl e, c)
          | Inr c' \<Rightarrow>
              expect_code ok_code True (command (''EHLO '' @ sp_helo_hostname p))
                (authenticate_and_deliver ae p raw True) c')
       else if sp_security p = RequireStartTls then
         (Inr (Complete (SoftFail
            (''relay '' @ sp_host p @ '':'' @ show_nat (sp_port p) @ '' refused mandatory STARTTLS: '' @ response))), c)
       else authenticate_and_deliver ae p raw tls c)"

definition ehlo_step :: "attempt_env \<Rightarrow> send_params \<Rightarrow> bytes \<Rightarrow> bool \<Rightarrow> bool \<Rightarrow> attempt io" where
  "ehlo_step ae p raw allow_starttls tls =
     bind_io (command (''EHLO '' @ sp_helo_hostname p)) (\<lambda>(code, ehlo_response).
       if \<not> ok_code code then
         expect_code ok_code tls (command (''HELO '' @ sp_helo_hostname p))
           (authenticate_and_deliver ae p raw tls)
       else if \<not> tls \<and> allow_starttls
               \<and> (sp_tls_mode p \<noteq> TlsDisabled \<or> sp_security p = RequireStartTls)
               \<and> contains_sub ''STARTTLS'' (ae_to_uppercase ae ehlo_response) then
         starttls_step ae p raw tls
       else authenticate_and_deliver ae p raw tls)"

definition converse :: "attempt_env \<Rightarrow> send_params \<Rightarrow> bytes \<Rightarrow> bool \<Rightarrow> bool \<Rightarrow> attempt io" where
  "converse ae p raw allow_starttls tls =
     expect_code (\<lambda>code. code = 220) tls (reply_to []) (ehlo_step ae p raw allow_starttls tls)"

definition new_connection :: "send_params \<Rightarrow> bool \<Rightarrow> net_event list \<Rightarrow> connection" where
  "new_connection p secure events =
     \<lparr>cn_events = events, cn_buffer = [], cn_timeout = sp_read_timeout p, cn_secure = secure,
      cn_written = [], cn_dialog = []\<rparr>"

text \<open>An attempt and the connection it used, if it got one.\<close>

definition try_send :: "attempt_env \<Rightarrow> send_params \<Rightarrow> bytes \<Rightarrow> bool
    \<Rightarrow> (io_error + attempt) \<times> connection list" where
  "try_send ae p raw allow_starttls =
     (case connect ae p of
        Inl e \<Rightarrow> (Inl e, [])
      | Inr events \<Rightarrow>
          if sp_security p = ImplicitTls then
            (case tls_events ae p of
               Inl e \<Rightarrow> (Inl e, [])
             | Inr es \<Rightarrow>
                 (case converse ae p raw allow_starttls True (new_connection p True es) of
                    (r, c) \<Rightarrow> (r, [c])))
          else
            (case converse ae p raw allow_starttls False (new_connection p False events) of
               (r, c) \<Rightarrow> (r, [c])))"

definition connection_error :: "send_params \<Rightarrow> io_error \<Rightarrow> send_outcome" where
  "connection_error p e =
     SoftFail (''connection error to '' @ sp_host p @ '':'' @ show_nat (sp_port p) @ '': '' @ e)"

text \<open>
  The second attempt meets an environment of its own. \<open>unreachable!()\<close> is a panic.
  The result has the connections of both attempts.
\<close>

definition send_message :: "attempt_env \<Rightarrow> attempt_env \<Rightarrow> send_params \<Rightarrow> bytes
    \<Rightarrow> (send_outcome \<times> connection list) rust" where
  "send_message ae ae2 p raw =
     (case try_send ae p raw True of
        (Inr (Complete out), cs) \<Rightarrow> Inr (out, cs)
      | (Inr OpportunisticStartTlsHandshakeFailed, cs) \<Rightarrow>
          (case try_send ae2 p raw False of
             (Inr (Complete out), cs2) \<Rightarrow> Inr (out, cs @ cs2)
           | (Inr OpportunisticStartTlsHandshakeFailed, cs2) \<Rightarrow> Inl ExpectFailed
           | (Inl e, cs2) \<Rightarrow> Inr (connection_error p e, cs @ cs2))
      | (Inl e, cs) \<Rightarrow> Inr (connection_error p e, cs))"

end
