(* ===== verification/Smtp_Client_Safety.thy ===== *)
theory Smtp_Client_Safety
  imports Smtp_Client Smtp_Demo
begin

text \<open>
  What the SMTP client guarantees (\<open>worker/smtp_client.rs\<close>), for every behaviour of the
  network: required TLS is enforced and the conversation consists of the expected
  commands, a delivery reported as sent was made, addresses are tried in order, and
  the lines of the encoded body reach the buffer of an SMTP server session. The proofs are
  in a small calculus of triples over the connection.
\<close>

section \<open>Triples\<close>

text \<open>
  \<open>triple P m Q E\<close>: from a connection that satisfies \<open>P\<close> the computation returns with
  \<open>Q\<close> of the result and the connection, or fails with \<open>E\<close> of the connection.
\<close>

definition triple :: "(connection \<Rightarrow> bool) \<Rightarrow> 'a io \<Rightarrow> ('a \<Rightarrow> connection \<Rightarrow> bool) \<Rightarrow> (connection \<Rightarrow> bool) \<Rightarrow> bool" where
  "triple P m Q E \<longleftrightarrow>
     (\<forall>c e c'. P c \<longrightarrow> m c = (Inl e, c') \<longrightarrow> E c') \<and> (\<forall>c x c'. P c \<longrightarrow> m c = (Inr x, c') \<longrightarrow> Q x c')"

lemma tripleI:
  "(\<And>c e c'. P c \<Longrightarrow> m c = (Inl e, c') \<Longrightarrow> E c') \<Longrightarrow> (\<And>c x c'. P c \<Longrightarrow> m c = (Inr x, c') \<Longrightarrow> Q x c')
   \<Longrightarrow> triple P m Q E"
  by (simp add: triple_def)

lemma tripleD:
  "triple P m Q E \<Longrightarrow> P c \<Longrightarrow> m c = (Inr x, c') \<Longrightarrow> Q x c'"
  "triple P m Q E \<Longrightarrow> P c \<Longrightarrow> m c = (Inl e, c') \<Longrightarrow> E c'"
  by (simp_all add: triple_def)

lemma bind_io_cases:
  assumes "bind_io m f c = (r, c2)"
  obtains e where "m c = (Inl e, c2)" "r = Inl e"
  | x c1 where "m c = (Inr x, c1)" "f x c1 = (r, c2)"
  using assms by (auto simp: bind_io_def split: prod.splits sum.splits)

lemma triple_bind:
  assumes "triple P m Q E" "\<And>x. triple (Q x) (f x) R E"
  shows "triple P (bind_io m f) R E"
proof (rule tripleI)
  fix c e c' assume "P c" "bind_io m f c = (Inl e, c')"
  from this(2,1) show "E c'"
    by (cases rule: bind_io_cases) (auto dest: tripleD [OF assms(1)] tripleD [OF assms(2)])
next
  fix c x c' assume "P c" "bind_io m f c = (Inr x, c')"
  from this(2,1) show "R x c'"
    by (cases rule: bind_io_cases) (auto dest: tripleD [OF assms(1)] tripleD [OF assms(2)])
qed

lemma triple_return: "(\<And>c. P c \<Longrightarrow> Q x c) \<Longrightarrow> triple P (return_io x) Q E"
  by (simp add: triple_def return_io_def)

lemma triple_conseq:
  "triple P m Q E \<Longrightarrow> (\<And>c. P' c \<Longrightarrow> P c) \<Longrightarrow> (\<And>x c. Q x c \<Longrightarrow> Q' x c) \<Longrightarrow> triple P' m Q' E"
  unfolding triple_def by blast

lemma triple_if:
  "(b \<Longrightarrow> triple P m Q E) \<Longrightarrow> (\<not> b \<Longrightarrow> triple P n Q E) \<Longrightarrow> triple P (if b then m else n) Q E"
  by simp

section \<open>What reading leaves alone\<close>

lemma read_line_frame:
  "read_line c = (r, c') \<Longrightarrow>
   cn_secure c' = cn_secure c \<and> cn_written c' = cn_written c \<and> cn_dialog c' = cn_dialog c"
  by (auto simp: read_line_def split: prod.splits)

lemma read_reply_from_frame:
  "read_reply_from full c = (r, c') \<Longrightarrow>
   cn_secure c' = cn_secure c \<and> cn_written c' = cn_written c \<and> cn_dialog c' = cn_dialog c"
proof (induction full c rule: read_reply_from.induct)
  case (1 full c)
  obtain q c1 where l: "read_line c = (q, c1)" by force
  show ?case
  proof (cases q)
    case (Inl e)
    with 1 l read_line_frame [OF l] show ?thesis by (simp add: read_reply_from.simps [of full c])
  next
    case (Inr line)
    with 1 l read_line_frame [OF l] show ?thesis
      by (cases "is_last_line line") (auto simp: read_reply_from.simps [of full c] Let_def)
  qed
qed

section \<open>The invariant of an attempt\<close>

text \<open>The commands of a conversation, and those that may go out before TLS when TLS is required.\<close>

definition plain_commands :: "send_params \<Rightarrow> string set" where
  "plain_commands p = {''EHLO '' @ sp_helo_hostname p, ''HELO '' @ sp_helo_hostname p, ''STARTTLS''}"

definition auth_line :: "attempt_env \<Rightarrow> smtp_auth \<Rightarrow> string" where
  "auth_line ae a = ''AUTH PLAIN '' @ ae_base64 ae ([NUL] @ sa_username a @ [NUL] @ sa_password a)"

definition client_commands :: "attempt_env \<Rightarrow> send_params \<Rightarrow> string set" where
  "client_commands ae p =
     plain_commands p \<union> (auth_line ae ` set_option (sp_auth p))
     \<union> {''MAIL FROM:<'' @ sp_mail_from p @ ''>'', ''RCPT TO:<'' @ sp_rcpt_to p @ ''>'', ''DATA'', ''.'', ''QUIT''}"

definition wire_ok :: "attempt_env \<Rightarrow> send_params \<Rightarrow> bytes \<Rightarrow> bool \<Rightarrow> wire \<Rightarrow> bool" where
  "wire_ok ae p raw secure w \<longleftrightarrow>
     (case w of WireLine l \<Rightarrow> l \<in> client_commands ae p | WireBody b \<Rightarrow> b = data_body raw)
     \<and> (secure \<or> sp_security p = Opportunistic \<or> w \<in> WireLine ` plain_commands p)"

definition writes_ok :: "attempt_env \<Rightarrow> send_params \<Rightarrow> bytes \<Rightarrow> connection \<Rightarrow> bool" where
  "writes_ok ae p raw c \<longleftrightarrow> (\<forall>(s, w) \<in> set (cn_written c). wire_ok ae p raw s w)"

text \<open>
  On a connection with security \<open>s\<close>, the writes end with \<open>W\<close> and the dialog ends with \<open>D\<close>:
  what was written and answered last, in order.
\<close>

definition cinv :: "attempt_env \<Rightarrow> send_params \<Rightarrow> bytes \<Rightarrow> bool \<Rightarrow> (bool \<times> wire) list \<Rightarrow> (string \<times> nat) list
    \<Rightarrow> connection \<Rightarrow> bool" where
  "cinv ae p raw s W D c \<longleftrightarrow>
     cn_secure c = s \<and> writes_ok ae p raw c \<and> suffix W (cn_written c) \<and> suffix D (cn_dialog c)"

lemma cinv_start: "cinv ae p raw s W D c \<Longrightarrow> cinv ae p raw s [] [] c"
  by (simp add: cinv_def)

text \<open>The positive code that belongs to a command.\<close>

definition expected :: "string \<Rightarrow> nat \<Rightarrow> bool" where
  "expected line code \<longleftrightarrow>
     (if line = [] then code = 220 else if line = ''DATA'' then code = 354
      else if prefix ''AUTH '' line then code = 235 else ok_code code)"

definition conforming :: "(string \<times> nat) list \<Rightarrow> bool" where
  "conforming d = list_all (\<lambda>(line, code). 200 \<le> code \<and> code \<le> 399 \<longrightarrow> expected line code) d"

text \<open>
  The delivery, at the end of a conversation: what was written last is the envelope,
  DATA, the encoded message, the dot and QUIT, and the last replies are those to the
  envelope, to DATA and to the dot.
\<close>

definition delivered :: "send_params \<Rightarrow> bytes \<Rightarrow> connection \<Rightarrow> bool" where
  "delivered p raw c \<longleftrightarrow>
     (\<exists>before talk m r e. ok_code m \<and> ok_code r \<and> ok_code e
        \<and> cn_written c = before @ map (Pair (cn_secure c))
            [WireLine (''MAIL FROM:<'' @ sp_mail_from p @ ''>''), WireLine (''RCPT TO:<'' @ sp_rcpt_to p @ ''>''),
             WireLine ''DATA'', WireBody (data_body raw), WireLine ''.'', WireLine ''QUIT'']
        \<and> cn_dialog c = talk @
            [(''MAIL FROM:<'' @ sp_mail_from p @ ''>'', m), (''RCPT TO:<'' @ sp_rcpt_to p @ ''>'', r),
             (''DATA'', 354), (''.'', e)])"

definition outcome_ok :: "attempt_env \<Rightarrow> send_params \<Rightarrow> bytes \<Rightarrow> bool \<Rightarrow> attempt \<Rightarrow> connection \<Rightarrow> bool" where
  "outcome_ok ae p raw retry x c \<longleftrightarrow>
     writes_ok ae p raw c
     \<and> (case x of
          Complete (Sent r tls) \<Rightarrow>
            tls = cn_secure c \<and> cn_dialog c \<noteq> []
            \<and> (conforming (cn_dialog c) \<longrightarrow> delivered p raw c)
        | Complete _ \<Rightarrow> True
        | OpportunisticStartTlsHandshakeFailed \<Rightarrow> retry \<and> sp_security p = Opportunistic)"

lemma reply_to_triple:
  "triple (cinv ae p raw s W D) (reply_to line)
     (\<lambda>(code, r). cinv ae p raw s W (D @ [(line, code)])) (writes_ok ae p raw)"
  by (rule tripleI)
     (auto simp: reply_to_def read_reply_def cinv_def writes_ok_def split: prod.splits sum.splits
       dest!: read_reply_from_frame)

lemma write_stream_grows: "write_stream w c = (r, c') \<Longrightarrow> cn_written c' = cn_written c @ [(cn_secure c, w)]"
  by (auto simp: write_stream_def Let_def split: list.splits net_event.splits)

lemma write_stream_triple:
  "wire_ok ae p raw s w \<Longrightarrow>
   triple (cinv ae p raw s W D) (write_stream w) (\<lambda>_. cinv ae p raw s (W @ [(s, w)]) D) (writes_ok ae p raw)"
  by (rule tripleI)
     (auto simp: write_stream_def cinv_def writes_ok_def Let_def split: list.splits net_event.splits)

lemma command_triple:
  assumes "wire_ok ae p raw s (WireLine line)"
  shows "triple (cinv ae p raw s W D) (command line)
     (\<lambda>(code, r). cinv ae p raw s (W @ [(s, WireLine line)]) (D @ [(line, code)])) (writes_ok ae p raw)"
  unfolding command_def send_line_def
  by (rule triple_bind [OF write_stream_triple [OF assms] reply_to_triple])

lemma conforming_last:
  "conforming d \<Longrightarrow> suffix (D @ [(line, code)]) d \<Longrightarrow> 200 \<le> code \<Longrightarrow> code \<le> 399 \<Longrightarrow> expected line code"
  by (auto simp: conforming_def suffix_def)

lemma classify_Sent: "classify code r tls = Sent r' t \<longleftrightarrow> 200 \<le> code \<and> code \<le> 399 \<and> r' = r \<and> t = tls"
  by (auto simp: classify_def)

text \<open>A reply out of place ends the attempt with its classification.\<close>

lemma stop_ok:
  assumes "cinv ae p raw s W (D @ [(line, code)]) c" "\<not> expected line code"
  shows "outcome_ok ae p raw retry (Complete (classify code r s)) c"
  using assms conforming_last [of "cn_dialog c" D line code]
  by (auto simp: outcome_ok_def cinv_def classify_Sent split: send_outcome.split)

lemma expect_triple:
  assumes "triple P m (\<lambda>(code, r). cinv ae p raw s W (D @ [(line, code)])) (writes_ok ae p raw)"
    and "\<And>code. ok code \<longleftrightarrow> expected line code"
    and "\<And>code. ok code \<Longrightarrow>
      triple (cinv ae p raw s W (D @ [(line, code)])) k (outcome_ok ae p raw retry) (writes_ok ae p raw)"
  shows "triple P (expect_code ok s m k) (outcome_ok ae p raw retry) (writes_ok ae p raw)"
  unfolding expect_code_def
proof (rule triple_bind [OF assms(1)])
  fix x :: "nat \<times> string"
  obtain code r where x: "x = (code, r)" by force
  show "triple (case x of (code, r) \<Rightarrow> cinv ae p raw s W (D @ [(line, code)]))
     (case x of (code, r) \<Rightarrow> if ok code then k else return_io (Complete (classify code r s)))
     (outcome_ok ae p raw retry) (writes_ok ae p raw)"
    unfolding x prod.case
    by (rule triple_if [OF assms(3)]) (auto intro!: triple_return stop_ok simp: assms(2))
qed

lemma may_write:
  "l \<in> client_commands ae p \<Longrightarrow> s \<or> sp_security p = Opportunistic \<or> l \<in> plain_commands p
   \<Longrightarrow> wire_ok ae p raw s (WireLine l)"
  by (auto simp: wire_ok_def)

lemmas step_command = expect_triple [OF command_triple]

lemma write_body_cases:
  assumes "write_body b c = (r, c')"
  obtains es where "cn_events c = WriteStall # es" "r = Inl ''data timeout''"
    "c' = c\<lparr>cn_written := cn_written c @ [(cn_secure c, WireBody b)], cn_events := es\<rparr>"
  | "write_stream (WireBody b) c = (r, c')"
proof (cases "\<exists>es. cn_events c = WriteStall # es")
  case True
  with assms that(1) show ?thesis by (auto simp: write_body_def)
next
  case False
  then have "write_body b c = write_stream (WireBody b) c"
    by (auto simp: write_body_def split: list.split net_event.split)
  with assms that(2) show ?thesis by simp
qed

lemma write_body_triple:
  assumes "wire_ok ae p raw s (WireBody b)"
  shows "triple (cinv ae p raw s W D) (write_body b)
    (\<lambda>_. cinv ae p raw s (W @ [(s, WireBody b)]) D) (writes_ok ae p raw)"
proof (rule tripleI)
  fix c e c' assume c: "cinv ae p raw s W D c" and "write_body b c = (Inl e, c')"
  from this(2) show "writes_ok ae p raw c'"
  proof (cases rule: write_body_cases)
    case 1
    with c assms show ?thesis by (auto simp: cinv_def writes_ok_def)
  qed (rule tripleD(2) [OF write_stream_triple [OF assms] c])
next
  fix c x c' assume c: "cinv ae p raw s W D c" and "write_body b c = (Inr x, c')"
  from this(2) show "cinv ae p raw s (W @ [(s, WireBody b)]) D c'"
    by (cases rule: write_body_cases) (auto dest: tripleD(1) [OF write_stream_triple [OF assms] c])
qed

text \<open>The timeout of a connection is no part of the invariant.\<close>

lemma cinv_timeout [simp]:
  "cinv ae p raw s W D (c\<lparr>cn_timeout := t\<rparr>) = cinv ae p raw s W D c"
  "writes_ok ae p raw (c\<lparr>cn_timeout := t\<rparr>) = writes_ok ae p raw c"
  by (simp_all add: cinv_def writes_ok_def)

lemma triple_then_timeout:
  assumes "triple P m (\<lambda>(code, r). cinv ae p raw s W (D code)) (writes_ok ae p raw)"
  shows "triple P (\<lambda>c. case m c of (reply, c') \<Rightarrow> (reply, c'\<lparr>cn_timeout := t\<rparr>))
    (\<lambda>(code, r). cinv ae p raw s W (D code)) (writes_ok ae p raw)"
  by (rule tripleI) (use assms in \<open>auto simp: triple_def split: prod.splits\<close>)

lemma send_data_triple:
  assumes "s \<or> sp_security p = Opportunistic"
  shows "triple (cinv ae p raw s W D) (send_data raw dt rt)
     (\<lambda>(code, r). cinv ae p raw s (W @ [(s, WireBody (data_body raw)), (s, WireLine ''.'')]) (D @ [(''.'', code)]))
     (writes_ok ae p raw)"
proof -
  let ?W = "W @ [(s, WireBody (data_body raw))]"
  have body: "wire_ok ae p raw s (WireBody (data_body raw))" and dot: "wire_ok ae p raw s (WireLine ''.'')"
    using assms by (auto simp: wire_ok_def client_commands_def)
  have t: "triple (cinv ae p raw s ?W D) (set_timeout dt) (\<lambda>_. cinv ae p raw s ?W D) (writes_ok ae p raw)"
    by (auto simp: triple_def set_timeout_def)
  show ?thesis
    unfolding send_data_def
    by (rule triple_bind [OF write_body_triple [OF body] triple_bind [OF t triple_then_timeout]])
       (use command_triple [OF dot, of ?W D] in simp)
qed

lemma quit_triple:
  assumes "s \<or> sp_security p = Opportunistic" "ok_code m" "ok_code r"
  shows "triple (cinv ae p raw s
       (map (Pair s) [WireLine (''MAIL FROM:<'' @ sp_mail_from p @ ''>''), WireLine (''RCPT TO:<'' @ sp_rcpt_to p @ ''>''),
         WireLine ''DATA'', WireBody (data_body raw), WireLine ''.''])
       [(''MAIL FROM:<'' @ sp_mail_from p @ ''>'', m), (''RCPT TO:<'' @ sp_rcpt_to p @ ''>'', r), (''DATA'', 354),
         (''.'', code)])
     (quit_line (classify code resp s)) (outcome_ok ae p raw retry) (writes_ok ae p raw)"
    (is "triple (cinv ae p raw s ?W ?D) _ _ _")
proof (rule tripleI)
  fix c x c' assume c: "cinv ae p raw s ?W ?D c" and q: "quit_line (classify code resp s) c = (Inr x, c')"
  from q obtain y where y: "write_stream (WireLine ''QUIT'') c = (y, c')" and x: "x = Complete (classify code resp s)"
    by (auto simp: quit_line_def send_line_def split: prod.splits)
  have "wire_ok ae p raw s (WireLine ''QUIT'')"
    using assms(1) by (intro may_write) (auto simp: client_commands_def)
  with y c have w: "writes_ok ae p raw c'" "cn_secure c' = s" "cn_dialog c' = cn_dialog c"
    by (auto simp: write_stream_def Let_def cinv_def writes_ok_def split: list.splits net_event.splits)
  from c obtain before talk where b: "cn_written c = before @ ?W" "cn_dialog c = talk @ ?D" "cn_secure c = s"
    by (auto simp: cinv_def suffix_def)
  have "delivered p raw c'" if "conforming (cn_dialog c)" "200 \<le> code" "code \<le> 399"
  proof -
    have "ok_code code"
      using conforming_last [OF that(1) _ that(2,3), of "butlast ?D" "''.''"] b(2) by (simp add: expected_def suffix_def)
    with assms(2,3) b w(2,3) write_stream_grows [OF y] show ?thesis
      unfolding delivered_def by (intro exI [of _ before] exI [of _ talk] exI [of _ m] exI [of _ r] exI [of _ code]) simp
  qed
  with w b(2) show "outcome_ok ae p raw retry x c'"
    by (auto simp: x outcome_ok_def classify_Sent split: send_outcome.split)
qed (auto simp: quit_line_def split: prod.splits)

lemma deliver_triple:
  assumes "s \<or> sp_security p = Opportunistic"
  shows "triple (cinv ae p raw s W D) (deliver p raw s) (outcome_ok ae p raw retry) (writes_ok ae p raw)"
proof -
  let ?m = "''MAIL FROM:<'' @ sp_mail_from p @ ''>''" and ?r = "''RCPT TO:<'' @ sp_rcpt_to p @ ''>''"
  let ?dot = "bind_io (send_data raw (sp_data_timeout p) (sp_read_timeout p)) (\<lambda>(code, response). quit_line (classify code response s))"
  let ?data = "expect_code (\<lambda>code. code = 354) s (command ''DATA'') ?dot"
  let ?W = "map (Pair s) [WireLine ?m, WireLine ?r]"
  have w: "wire_ok ae p raw s (WireLine l)" if "l \<in> {?m, ?r, ''DATA''}" for l
    using that assms by (intro may_write) (auto simp: client_commands_def)
  have dot: "triple (cinv ae p raw s (?W @ [(s, WireLine ''DATA'')]) ([(?m, m), (?r, r)] @ [(''DATA'', code)])) ?dot
      (outcome_ok ae p raw retry) (writes_ok ae p raw)" if "code = 354" "ok_code m" "ok_code r" for code m r
    using quit_triple [OF assms that(2,3)] that(1)
    by (intro triple_bind [OF send_data_triple [OF assms]]) (auto split: prod.splits)
  have data: "triple (cinv ae p raw s ?W [(?m, m), (?r, r)]) ?data (outcome_ok ae p raw retry) (writes_ok ae p raw)"
    if "ok_code m" "ok_code r" for m r
    by (rule step_command [OF w _ dot [OF _ that]]) (simp_all add: expected_def)
  have rcpt: "triple (cinv ae p raw s [(s, WireLine ?m)] [(?m, m)]) (expect_code ok_code s (command ?r) ?data)
      (outcome_ok ae p raw retry) (writes_ok ae p raw)" if "ok_code m" for m
    by (rule step_command [OF w]) (use data [OF that] in \<open>simp_all add: expected_def\<close>)
  have "triple (cinv ae p raw s [] []) (deliver p raw s) (outcome_ok ae p raw retry) (writes_ok ae p raw)"
    unfolding deliver_def by (rule step_command [OF w]) (use rcpt in \<open>simp_all add: expected_def\<close>)
  then show ?thesis by (rule triple_conseq) (auto dest: cinv_start)
qed

lemma authenticate_triple:
  assumes "s \<or> sp_security p \<noteq> ImplicitTls"
  shows "triple (cinv ae p raw s W D) (authenticate_and_deliver ae p raw s) (outcome_ok ae p raw retry) (writes_ok ae p raw)"
proof (cases "sp_security p = RequireStartTls \<and> \<not> s")
  case True
  then show ?thesis
    by (auto simp: authenticate_and_deliver_def outcome_ok_def cinv_def intro!: triple_return)
next
  case False
  with assms have s: "s \<or> sp_security p = Opportunistic"
    by (cases "sp_security p") auto
  show ?thesis
  proof (cases "sp_auth p")
    case None
    with False have "authenticate_and_deliver ae p raw s = deliver p raw s"
      by (auto simp: authenticate_and_deliver_def)
    with deliver_triple [OF s] show ?thesis by simp
  next
    case (Some a)
    then have "wire_ok ae p raw s (WireLine (auth_line ae a))"
      using s by (intro may_write) (auto simp: client_commands_def)
    then have "triple (cinv ae p raw s W D)
        (expect_code (\<lambda>code. code = 235) s (command (auth_line ae a)) (deliver p raw s))
        (outcome_ok ae p raw retry) (writes_ok ae p raw)"
      by (rule step_command) (auto simp: expected_def auth_line_def intro: deliver_triple [OF s])
    moreover from False Some have "authenticate_and_deliver ae p raw s
        = expect_code (\<lambda>code. code = 235) s (command (auth_line ae a)) (deliver p raw s)"
      by (auto simp: authenticate_and_deliver_def auth_line_def)
    ultimately show ?thesis by simp
  qed
qed

lemma plain_write: "l \<in> plain_commands p \<Longrightarrow> wire_ok ae p raw s (WireLine l)"
  by (intro may_write) (auto simp: client_commands_def)

lemma greeting_command:
  "wire_ok ae p raw s (WireLine (''EHLO '' @ sp_helo_hostname p))"
  "wire_ok ae p raw s (WireLine (''HELO '' @ sp_helo_hostname p))"
  "wire_ok ae p raw s (WireLine ''STARTTLS'')"
  by (simp_all add: plain_write plain_commands_def)

lemma starttls_triple:
  assumes "s \<or> sp_security p \<noteq> ImplicitTls"
  shows "triple (cinv ae p raw s W D) (starttls_step ae p raw s) (outcome_ok ae p raw True) (writes_ok ae p raw)"
  unfolding starttls_step_def
proof (rule triple_bind [OF command_triple [OF greeting_command(3)]])
  fix x :: "nat \<times> string"
  obtain code r where x: "x = (code, r)" by force
  let ?k = "expect_code ok_code True (command (''EHLO '' @ sp_helo_hostname p)) (authenticate_and_deliver ae p raw True)"
  have k: "triple (cinv ae p raw True [] []) ?k (outcome_ok ae p raw True) (writes_ok ae p raw)"
    by (rule step_command [OF greeting_command(1)]) (simp_all add: expected_def authenticate_triple)
  have a: "triple (cinv ae p raw s [] []) (authenticate_and_deliver ae p raw s) (outcome_ok ae p raw True) (writes_ok ae p raw)"
    by (rule authenticate_triple [OF assms])
  let ?m = "\<lambda>c. if ok_code code then
         (case upgrade ae p c of
            Inl e \<Rightarrow>
              if sp_security p = Opportunistic then (Inr OpportunisticStartTlsHandshakeFailed, c) else (Inl e, c)
          | Inr c' \<Rightarrow> ?k c')
       else if sp_security p = RequireStartTls then
         (Inr (Complete (SoftFail
            (''relay '' @ sp_host p @ '':'' @ show_nat (sp_port p) @ '' refused mandatory STARTTLS: '' @ r))), c)
       else authenticate_and_deliver ae p raw s c"
  have up: "cinv ae p raw True [] [] c'" if "upgrade ae p c = Inr c'" "cinv ae p raw s [] [] c" for c c'
    using that by (auto simp: upgrade_def cinv_def writes_ok_def split: sum.splits)
  have "triple (cinv ae p raw s [] []) ?m (outcome_ok ae p raw True) (writes_ok ae p raw)"
  proof (rule tripleI)
    fix c e c' assume c: "cinv ae p raw s [] [] c" and m: "?m c = (Inl e, c')"
    from m show "writes_ok ae p raw c'"
      using tripleD(2) [OF k up [OF _ c]] tripleD(2) [OF a c] c
      by (cases "upgrade ae p c") (auto simp: cinv_def split: if_splits)
  next
    fix c y c' assume c: "cinv ae p raw s [] [] c" and m: "?m c = (Inr y, c')"
    from m show "outcome_ok ae p raw True y c'"
      using tripleD(1) [OF k up [OF _ c]] tripleD(1) [OF a c] c
      by (cases "upgrade ae p c") (auto simp: outcome_ok_def cinv_def split: if_splits)
  qed
  then show "triple (case x of (code, r) \<Rightarrow>
      cinv ae p raw s (W @ [(s, WireLine ''STARTTLS'')]) (D @ [(''STARTTLS'', code)]))
    (case x of (code, r) \<Rightarrow> \<lambda>c. if ok_code code then
         (case upgrade ae p c of
            Inl e \<Rightarrow>
              if sp_security p = Opportunistic then (Inr OpportunisticStartTlsHandshakeFailed, c) else (Inl e, c)
          | Inr c' \<Rightarrow> ?k c')
       else if sp_security p = RequireStartTls then
         (Inr (Complete (SoftFail
            (''relay '' @ sp_host p @ '':'' @ show_nat (sp_port p) @ '' refused mandatory STARTTLS: '' @ r))), c)
       else authenticate_and_deliver ae p raw s c)
    (outcome_ok ae p raw True) (writes_ok ae p raw)"
    unfolding x prod.case by (rule triple_conseq) (auto dest: cinv_start)
qed

lemma triple_weaken: "triple P m (outcome_ok ae p raw False) E \<Longrightarrow> triple P m (outcome_ok ae p raw retry) E"
  by (erule triple_conseq) (auto simp: outcome_ok_def split: attempt.splits)

lemma ehlo_triple:
  assumes "s \<or> sp_security p \<noteq> ImplicitTls"
  shows "triple (cinv ae p raw s W D) (ehlo_step ae p raw allow s) (outcome_ok ae p raw allow) (writes_ok ae p raw)"
  unfolding ehlo_step_def
proof (rule triple_bind [OF command_triple [OF greeting_command(1)]])
  fix x :: "nat \<times> string"
  obtain code r where x: "x = (code, r)" by force
  note a = authenticate_triple [OF assms]
  have h: "triple (cinv ae p raw s W' D') (expect_code ok_code s (command (''HELO '' @ sp_helo_hostname p))
      (authenticate_and_deliver ae p raw s)) (outcome_ok ae p raw allow) (writes_ok ae p raw)" for W' D'
    by (rule step_command [OF greeting_command(2)]) (simp_all add: expected_def a)
  have t: "allow \<Longrightarrow> triple (cinv ae p raw s W' D') (starttls_step ae p raw s) (outcome_ok ae p raw allow) (writes_ok ae p raw)" for W' D'
    using starttls_triple [OF assms] by simp
  show "triple (case x of (code, r) \<Rightarrow> cinv ae p raw s (W @ [(s, WireLine (''EHLO '' @ sp_helo_hostname p))])
      (D @ [(''EHLO '' @ sp_helo_hostname p, code)]))
    (case x of (code, ehlo_response) \<Rightarrow>
       if \<not> ok_code code then
         expect_code ok_code s (command (''HELO '' @ sp_helo_hostname p)) (authenticate_and_deliver ae p raw s)
       else if \<not> s \<and> allow \<and> (sp_tls_mode p \<noteq> TlsDisabled \<or> sp_security p = RequireStartTls)
               \<and> contains_sub ''STARTTLS'' (ae_to_uppercase ae ehlo_response) then
         starttls_step ae p raw s
       else authenticate_and_deliver ae p raw s)
    (outcome_ok ae p raw allow) (writes_ok ae p raw)"
    unfolding x prod.case by (intro triple_if h a t) simp_all
qed

lemma converse_triple:
  assumes "s \<or> sp_security p \<noteq> ImplicitTls"
  shows "triple (cinv ae p raw s W D) (converse ae p raw allow s) (outcome_ok ae p raw allow) (writes_ok ae p raw)"
  unfolding converse_def
  by (rule expect_triple [OF reply_to_triple]) (simp_all add: expected_def ehlo_triple [OF assms])

lemma try_send_ok:
  assumes "try_send ae p raw allow = (r, cs)"
  shows "list_all (writes_ok ae p raw) cs \<and> (\<forall>x. r = Inr x \<longrightarrow> cs \<noteq> [] \<and> outcome_ok ae p raw allow x (last cs))"
proof -
  have start: "cinv ae p raw s [] [] (new_connection p s es)" for s es
    by (simp add: cinv_def writes_ok_def new_connection_def)
  have "writes_ok ae p raw c \<and> (\<forall>x. q = Inr x \<longrightarrow> outcome_ok ae p raw allow x c)"
    if "converse ae p raw allow s (new_connection p s es) = (q, c)" "s \<or> sp_security p \<noteq> ImplicitTls" for s es q c
  proof (cases q)
    case (Inl e)
    with tripleD(2) [OF converse_triple [OF that(2)] start] that(1) show ?thesis by simp
  next
    case (Inr x)
    with tripleD(1) [OF converse_triple [OF that(2)] start] that(1) have "outcome_ok ae p raw allow x c" by simp
    with Inr show ?thesis by (simp add: outcome_ok_def)
  qed
  with assms show ?thesis
    by (auto simp: try_send_def split: sum.splits if_splits prod.splits)
qed

lemma send_message_writes:
  "\<exists>out cs. send_message ae ae2 p raw = Inr (out, cs)
     \<and> (sp_security p \<noteq> Opportunistic \<longrightarrow> length cs \<le> 1)
     \<and> (\<forall>c s w. c \<in> set cs \<and> (s, w) \<in> set (cn_written c) \<longrightarrow>
          (s \<or> sp_security p = Opportunistic \<or> w \<in> WireLine ` plain_commands p)
          \<and> (w = WireBody (data_body raw)
             \<or> w \<in> WireLine ` (client_commands ae p \<union> client_commands ae2 p)))"
proof -
  obtain r cs where t: "try_send ae p raw True = (r, cs)" by force
  obtain r2 cs2 where t2: "try_send ae2 p raw False = (r2, cs2)" by force
  have len: "length ds \<le> 1" if "try_send e p raw a = (q, ds)" for e a q ds
    using that by (auto simp: try_send_def split: sum.splits if_splits prod.splits)
  have w: "(s \<or> sp_security p = Opportunistic \<or> w \<in> WireLine ` plain_commands p)
      \<and> (w = WireBody (data_body raw) \<or> w \<in> WireLine ` client_commands e p)"
    if "list_all (writes_ok e p raw) ds" "c \<in> set ds" "(s, w) \<in> set (cn_written c)" for e ds c s w
  proof -
    from that have "writes_ok e p raw c" by (simp add: list_all_iff)
    with that(3) have "wire_ok e p raw s w" by (auto simp: writes_ok_def)
    then show ?thesis by (cases w) (auto simp: wire_ok_def)
  qed
  have retry: "x = OpportunisticStartTlsHandshakeFailed \<Longrightarrow> sp_security p = Opportunistic" if "r = Inr x" for x
    using try_send_ok [OF t] that by (auto simp: outcome_ok_def)
  have no_retry: "r2 \<noteq> Inr OpportunisticStartTlsHandshakeFailed"
    using try_send_ok [OF t2] by (auto simp: outcome_ok_def)
  note ok = w [OF conjunct1 [OF try_send_ok [OF t]]] w [OF conjunct1 [OF try_send_ok [OF t2]]]
  show ?thesis
  proof (cases "r = Inr OpportunisticStartTlsHandshakeFailed")
    case True
    then have "\<exists>out. send_message ae ae2 p raw = Inr (out, cs @ cs2)"
      using no_retry by (cases r2; cases "projr r2") (auto simp: send_message_def t t2)
    then obtain out where "send_message ae ae2 p raw = Inr (out, cs @ cs2)" by blast
    moreover have "sp_security p = Opportunistic" using retry True by blast
    moreover have "w = WireBody (data_body raw) \<or> w \<in> WireLine ` (client_commands ae p \<union> client_commands ae2 p)"
      if "c \<in> set (cs @ cs2)" "(s, w) \<in> set (cn_written c)" for c s w
      using that ok(1) [of c s w] ok(2) [of c s w] by (auto simp: image_Un)
    ultimately show ?thesis by (intro exI [of _ out] exI [of _ "cs @ cs2"]) auto
  next
    case False
    then have "\<exists>out. send_message ae ae2 p raw = Inr (out, cs)"
      by (cases r; cases "projr r") (auto simp: send_message_def t)
    then obtain out where "send_message ae ae2 p raw = Inr (out, cs)" by blast
    then show ?thesis using ok(1) len [OF t] by (intro exI [of _ out] exI [of _ cs]) (auto simp: image_Un)
  qed
qed

lemma send_message_returns: "\<exists>out cs. send_message ae ae2 p raw = Inr (out, cs)"
  using send_message_writes [of ae ae2 p raw] by blast

text \<open>
  C16. Required TLS is enforced: for a relay with mandatory STARTTLS or implicit TLS,
  whatever the network and the relay do, nothing but the greeting and the STARTTLS
  command is ever written outside TLS: no credentials, no envelope and no content.
  Every line a client writes is one of the commands of the conversation and the
  body is the encoded message; the \<open>unreachable!()\<close> of the plaintext retry is never
  reached, and a second connection is opened only for opportunistic TLS.
\<close>

theorem client_tls_enforced:
  "\<exists>out cs. send_message ae ae2 p raw = Inr (out, cs)
     \<and> (sp_security p \<noteq> Opportunistic \<longrightarrow> length cs \<le> 1)
     \<and> (\<forall>c s w. c \<in> set cs \<and> (s, w) \<in> set (cn_written c) \<longrightarrow>
          (s \<or> sp_security p = Opportunistic \<or> w \<in> WireLine ` plain_commands p)
          \<and> (w = WireBody (data_body raw)
             \<or> w \<in> WireLine ` (client_commands ae p \<union> client_commands ae2 p)))"
  by (rule send_message_writes)

text \<open>
  C17. A delivery that is reported as sent was made, provided no reply of the server
  carries a positive code out of place (a greeting other than 220, an answer to DATA
  other than 354, to AUTH other than 235, a 3xx code elsewhere): \<open>Sent\<close> then means that
  the last things written were MAIL FROM, RCPT TO, DATA, the whole encoded message,
  the dot and QUIT, in this order, that the last replies were a 2xx code to MAIL FROM
  and to RCPT TO, 354 to DATA and a 2xx code to the dot, and that the reported TLS flag
  tells the truth about the stream all of it was written to.
\<close>

theorem client_sent_delivered:
  assumes "send_message ae ae2 p raw = Inr (Sent response tls, cs)" "conforming (cn_dialog (last cs))"
  shows "cs \<noteq> [] \<and> tls = cn_secure (last cs) \<and> delivered p raw (last cs)"
proof -
  obtain r cs1 where t: "try_send ae p raw True = (r, cs1)" by force
  obtain r2 cs2 where t2: "try_send ae2 p raw False = (r2, cs2)" by force
  have ok: "ds \<noteq> [] \<and> tls = cn_secure (last ds) \<and> (conforming (cn_dialog (last ds)) \<longrightarrow> delivered p raw (last ds))"
    if "try_send e p raw a = (Inr (Complete (Sent response tls)), ds)" for e a ds
    using try_send_ok [OF that] by (auto simp: outcome_ok_def)
  show ?thesis
  proof (cases "r = Inr OpportunisticStartTlsHandshakeFailed")
    case True
    with assms(1) have "r2 = Inr (Complete (Sent response tls))" "cs = cs1 @ cs2"
      by (auto simp: send_message_def t t2 connection_error_def split: sum.splits attempt.splits)
    with ok [of ae2 False cs2] t2 assms(2) show ?thesis by simp
  next
    case False
    with assms(1) have "r = Inr (Complete (Sent response tls))" "cs = cs1"
      by (auto simp: send_message_def t connection_error_def split: sum.splits attempt.splits)
    with ok [of ae True cs1] t assms(2) show ?thesis by simp
  qed
qed

section \<open>A conversation\<close>

definition demo_params :: send_params where
  "demo_params =
     \<lparr>sp_host = ''mx.io'', sp_port = 587, sp_helo_hostname = ''me.io'', sp_mail_from = ''a@me.io'',
      sp_rcpt_to = ''b@mx.io'', sp_timeout = 10, sp_read_timeout = 300, sp_data_timeout = 600,
      sp_tls_mode = TlsVerify, sp_security = RequireStartTls, sp_auth = None, sp_source_ip = None\<rparr>"

definition reply_event :: "string \<Rightarrow> net_event" where
  "reply_event l = Incoming (l @ crlf)"

definition demo_attempt :: "string \<Rightarrow> attempt_env" where
  "demo_attempt data_reply' =
     \<lparr>ae_lookup = Inr [\<lparr>sock_ip = V4 0x01020304, sock_port = 587\<rparr>],
      ae_connect = (\<lambda>_. Inr (map reply_event [''220 mx.io'', ''250 STARTTLS'', ''220 go''])),
      ae_server_name_ok = True,
      ae_handshake = (\<lambda>_. Inr (map reply_event [''250 mx.io'', ''250 ok'', ''250 ok'', data_reply', ''250 queued''])),
      ae_to_uppercase = to_ascii_uppercase, ae_base64 = (\<lambda>x. x)\<rparr>"

definition demo_run :: "string \<Rightarrow> (send_outcome \<times> connection list) rust" where
  "demo_run r = send_message (demo_attempt r) (demo_attempt r) demo_params ''Subject: x''"

text \<open>One line from the server is one reply.\<close>

lemma reply_to_line:
  assumes "cn_events c = reply_event l # es" "cn_buffer c = []"
    and "list_all (\<lambda>c. byte c < 128 \<and> c \<noteq> CR \<and> c \<noteq> LF) l" "is_last_line l" "l \<noteq> []"
  shows "reply_to line c = (Inr (reply_code l, trim (l @ [LF])),
    c\<lparr>cn_events := es, cn_buffer := [], cn_dialog := cn_dialog c @ [(line, reply_code l)]\<rparr>)"
proof -
  from assms(3) have "LF \<notin> set (l @ [CR])" by (auto simp: list_all_iff)
  from find_char_first [OF this, of "[]"] have f: "find_char LF (l @ crlf) = Some (length l + 1)" by simp
  from assms(3) have "utf8_lossy (l @ crlf) = l @ crlf" by (intro utf8_lossy_ascii) (auto simp: list_all_iff)
  moreover have "trim_end_matches is_crlf_char (l @ crlf) = l"
    using assms(3,5) by (cases l rule: rev_cases) (auto simp: trim_end_matches_def is_crlf_char_def)
  ultimately have b: "buffered_line (l @ crlf) = Some (l, [])" by (simp add: buffered_line_def f)
  have "read_line_from t [] (Incoming (l @ crlf) # es) = (Inr l, [], es)" for t
  proof -
    have "buffered_line [] = None" by (simp add: buffered_line_def)
    with b show ?thesis by (cases es) simp_all
  qed
  then have "read_line c = (Inr l, c\<lparr>cn_buffer := [], cn_events := es\<rparr>)"
    by (simp add: read_line_def assms(1,2) reply_event_def)
  with assms(4) show ?thesis
    by (simp add: reply_to_def read_reply_def read_reply_from.simps [of "[]" c])
qed

lemma write_line:
  "cn_events c = [] \<or> cn_events c = reply_event l # es \<Longrightarrow>
   write_stream w c = (Inr (), c\<lparr>cn_written := cn_written c @ [(cn_secure c, w)]\<rparr>)"
  "cn_events c = [] \<or> cn_events c = reply_event l # es \<Longrightarrow>
   write_body b c = (Inr (), c\<lparr>cn_written := cn_written c @ [(cn_secure c, WireBody b)]\<rparr>)"
  by (auto simp: write_stream_def write_body_def reply_event_def)

lemmas client_eval =
  reply_to_line write_line command_def bind_io_def send_line_def return_io_def expect_code_def
  is_last_line_def reply_code_def parse_u16_def digits_value_def ok_code_def quit_line_def send_data_def
  set_timeout_def deliver_def authenticate_and_deliver_def starttls_step_def ehlo_step_def
  converse_def upgrade_def tls_events_def connect_def remote_addresses_def is_ipv4_def try_send_def
  new_connection_def send_message_def classify_def reply_event_def [symmetric]

lemma demo_run_sent: "\<exists>cs. demo_run ''354 go'' = Inr (Sent ''250 queued'' True, cs) \<and> conforming (cn_dialog (last cs))"
proof -
  have "case demo_run ''354 go'' of Inl e \<Rightarrow> False
    | Inr (out, cs) \<Rightarrow> out = Sent ''250 queued'' True \<and> conforming (cn_dialog (last cs))"
    by (simp add: demo_run_def demo_attempt_def demo_params_def client_eval conforming_def expected_def
        trim_eval ascii_eval search_eval)
  then show ?thesis by (auto split: sum.splits prod.splits)
qed

theorem client_sent_delivered_witness:
  "\<exists>cs. cs \<noteq> [] \<and> cn_secure (last cs) \<and> delivered demo_params ''Subject: x'' (last cs)"
proof -
  obtain cs where "demo_run ''354 go'' = Inr (Sent ''250 queued'' True, cs)" "conforming (cn_dialog (last cs))"
    using demo_run_sent by blast
  from client_sent_delivered [OF this(1) [unfolded demo_run_def] this(2)] show ?thesis by blast
qed

theorem client_tls_enforced_witness:
  "\<exists>out cs. demo_run ''354 go'' = Inr (out, cs) \<and> length cs \<le> 1"
  using client_tls_enforced [of "demo_attempt ''354 go''" "demo_attempt ''354 go''" demo_params "''Subject: x''"]
  by (auto simp: demo_run_def demo_params_def)

text \<open>
  The condition on the codes is needed: a server that answers DATA with 250 has not
  received a byte of the message, and the delivery is reported as sent.
\<close>

lemma client_data_250_reported_sent:
  "case demo_run ''250 ok'' of
     Inl e \<Rightarrow> False
   | Inr (out, cs) \<Rightarrow>
       out = Sent ''250 ok'' True \<and> list_all (\<lambda>c. list_all (\<lambda>(s, w). w \<noteq> WireBody (data_body ''Subject: x'')) (cn_written c)) cs"
  by (simp add: demo_run_def demo_attempt_def demo_params_def client_eval trim_eval ascii_eval search_eval)

section \<open>Transparency\<close>

text \<open>
  A sequence of lines read by the server and handed to its session, with the replies:
  the line reader of \<open>smtp/server.rs\<close> decodes every line with \<open>from_utf8_lossy\<close>.
\<close>

fun feed :: "smtp_env \<Rightarrow> 'st store_ops \<Rightarrow> 'sk sink_ops \<Rightarrow> session \<Rightarrow> 'st \<Rightarrow> 'sk \<Rightarrow> string list
    \<Rightarrow> (session \<times> 'st \<times> 'sk \<times> reply list) rust" where
  "feed env so sk s st snk [] = Inr (s, st, snk, [])"
| "feed env so sk s st snk (l # ls) =
     bind_rust (handle env so sk s st snk (utf8_lossy l)) (\<lambda>(s', st', snk', r).
       bind_rust (feed env so sk s' st' snk' ls) (\<lambda>(s2, st2, snk2, rs). Inr (s2, st2, snk2, r # rs)))"

text \<open>An ASCII character ends what the decoder looks at: the text around it is decoded alone.\<close>

lemma ascii_not_cont: "byte c < 128 \<Longrightarrow> \<not> is_cont_byte c \<and> \<not> utf8_second_ok a c"
  using utf8_second_cont [of a c] by (auto simp: is_cont_byte_def)

lemma utf8_chunk_before_ascii:
  "byte c < 128 \<Longrightarrow> l \<noteq> [] \<Longrightarrow> utf8_chunk (l @ c # r) = utf8_chunk l"
  using ascii_not_cont [of c]
  by (auto simp: utf8_chunk_def Let_def neq_Nil_conv append_eq_Cons_conv split: list.split)

lemma utf8_chunk_length: "utf8_chunk (x # xs) = (ok, n) \<Longrightarrow> 0 < n \<and> n \<le> Suc (length xs)"
  by (auto simp: utf8_chunk_def Let_def split: list.splits if_splits)

lemma utf8_lossy_at_ascii: "byte c < 128 \<Longrightarrow> utf8_lossy (l @ c # r) = utf8_lossy l @ c # utf8_lossy r"
proof (induction l rule: utf8_lossy.induct)
  case (2 x xs)
  obtain ok n where n: "utf8_chunk (x # xs) = (ok, n)" by force
  from utf8_chunk_before_ascii [OF "2.prems", of "x # xs" r] n have "utf8_chunk (x # xs @ c # r) = (ok, n)" by simp
  with "2.IH" [OF n [symmetric] "2.prems"] utf8_chunk_length [OF n] n show ?case by (cases n) simp_all
qed (simp add: utf8_chunk_ascii)

lemma utf8_valid_at_ascii: "byte c < 128 \<Longrightarrow> utf8_valid (l @ c # r) \<longleftrightarrow> utf8_valid l \<and> utf8_valid r"
proof (induction l rule: utf8_valid.induct)
  case (2 x xs)
  obtain ok n where n: "utf8_chunk (x # xs) = (ok, n)" by force
  from utf8_chunk_before_ascii [OF "2.prems", of "x # xs" r] n have "utf8_chunk (x # xs @ c # r) = (ok, n)" by simp
  with "2.IH" [OF n [symmetric] "2.prems"] utf8_chunk_length [OF n] n show ?case by (cases n) auto
qed (simp add: utf8_chunk_ascii)

lemma utf8_valid_split_on: "byte c < 128 \<Longrightarrow> list_all utf8_valid (split_on c s) \<longleftrightarrow> utf8_valid s"
proof (induction "length s" arbitrary: s rule: less_induct)
  case less
  show ?case
  proof (cases "c \<in> set s")
    case True
    then obtain l r where s: "s = l @ c # r" "c \<notin> set l" by (meson split_list_first)
    with less.hyps [of r] less.prems show ?thesis by (simp add: split_on_append utf8_valid_at_ascii)
  next
    case False
    then have "split_on c s = [s]" by (induction s) auto
    then show ?thesis by simp
  qed
qed

lemma utf8_valid_chomp_CR: "utf8_valid l \<Longrightarrow> utf8_valid (chomp [CR] l)"
  using utf8_valid_at_ascii [of CR "butlast l" "[]"]
  by (cases l rule: rev_cases) (auto simp: chomp_def strip_suffix_def split: option.splits if_splits)

definition receiving :: "session \<Rightarrow> bytes \<Rightarrow> bool" where
  "receiving s d \<longleftrightarrow> s_state s \<noteq> Preauth \<and> s_input_mode s = DataMode \<and> s_data s = Some d
     \<and> s_headers s \<noteq> None \<and> s_previous_cr_present s = Some True"

definition wire_line :: "bytes \<Rightarrow> bytes" where
  "wire_line l = (if prefix ''.'' l then ''.'' @ l else l)"

lemma unstuff_wire_line [simp]: "unstuff (wire_line l) = l"
  by (cases l; cases "tl l") (auto simp: unstuff_def wire_line_def strip_prefix_def)

lemma wire_line_not_dot: "wire_line l \<noteq> ''.''"
  by (cases l) (auto simp: wire_line_def)

lemma receive_header_line_data:
  assumes "s_headers s \<noteq> None"
  obtains s' where "receive_header_line env s line = Inr s'" "s_data s' = s_data s" "s_headers s' \<noteq> None"
    "s_state s' = s_state s" "s_input_mode s' = s_input_mode s" "s_cr_present s' = s_cr_present s"
proof -
  have "\<exists>s'. receive_header_line env s line = Inr s' \<and> s_data s' = s_data s \<and> s_headers s' \<noteq> None
    \<and> s_state s' = s_state s \<and> s_input_mode s' = s_input_mode s \<and> s_cr_present s' = s_cr_present s"
    using assms by (auto simp: receive_header_line_def Let_def)
  then show ?thesis using that by blast
qed

lemma handle_wire_line:
  assumes "receiving s d"
  obtains s' where "handle env so sk s st snk (wire_line l @ [CR]) = Inr (s', st, snk, NoReply)"
    "receiving s' (d @ l @ crlf)"
proof -
  let ?s = "s\<lparr>s_cr_present := True\<rparr>"
  from assms have "s_headers ?s \<noteq> None" by (simp add: receiving_def)
  then obtain s1 where s1: "receive_header_line env ?s l = Inr s1" "s_data s1 = s_data ?s" "s_headers s1 \<noteq> None"
    "s_state s1 = s_state ?s" "s_input_mode s1 = s_input_mode ?s" "s_cr_present s1 = s_cr_present ?s"
    by (rule receive_header_line_data)
  let ?s' = "s1\<lparr>s_data := Some (d @ l @ crlf), s_previous_cr_present := Some True\<rparr>"
  have "handle env so sk s st snk (wire_line l @ [CR]) = Inr (?s', st, snk, NoReply)"
    using assms s1 by (simp add: handle_def dispatch_def data_line_def receive_line_def wire_line_not_dot receiving_def)
  moreover have "receiving ?s' (d @ l @ crlf)" using assms s1 by (simp add: receiving_def)
  ultimately show ?thesis by (rule that)
qed

lemma utf8_lossy_wire_line: "utf8_lossy (wire_line l @ [CR]) = wire_line (utf8_lossy l) @ [CR]"
proof (cases l)
  case (Cons x xs)
  have "prefix ''.'' (utf8_lossy (x # xs)) \<longleftrightarrow> x = CHR ''.''"
  proof (cases "byte x < 128")
    case True
    then show ?thesis using utf8_lossy_at_ascii [of x "[]" xs] by auto
  next
    case False
    obtain ok n where n: "utf8_chunk (x # xs) = (ok, n)" by force
    with utf8_chunk_length [OF n] False show ?thesis by (cases n) (auto simp: replacement_char_def)
  qed
  then show ?thesis
    using Cons utf8_lossy_at_ascii [of CR l "[]"] utf8_lossy_at_ascii [of "CHR ''.''" "[]" "l @ [CR]"]
    by (auto simp: wire_line_def)
qed (simp add: wire_line_def utf8_chunk_ascii)

lemma feed_wire_lines:
  assumes "receiving s d"
  shows "\<exists>s'. feed env so sk s st snk (map (\<lambda>l. wire_line l @ [CR]) ls)
      = Inr (s', st, snk, replicate (length ls) NoReply)
    \<and> receiving s' (d @ concat (map (\<lambda>l. utf8_lossy l @ crlf) ls))"
  using assms
proof (induction ls arbitrary: s d)
  case (Cons l ls)
  obtain s1 where "handle env so sk s st snk (utf8_lossy (wire_line l @ [CR])) = Inr (s1, st, snk, NoReply)"
    and r: "receiving s1 (d @ utf8_lossy l @ crlf)"
    unfolding utf8_lossy_wire_line by (rule handle_wire_line [OF Cons.prems])
  with Cons.IH [OF r] show ?case by auto
qed simp

lemma stuff_line_wire: "stuff_line l = wire_line (chomp [CR] l) @ crlf"
  by (simp add: stuff_line_def wire_line_def Let_def)

lemma split_data_body:
  assumes "list_all (\<lambda>l. LF \<notin> set l) ls"
  shows "split_on LF (concat (map stuff_line ls)) = map (\<lambda>l. wire_line (chomp [CR] l) @ [CR]) ls @ [[]]"
  using assms
proof (induction ls)
  case (Cons l ls)
  have "set (chomp [CR] l) \<subseteq> set l"
    by (auto simp: chomp_def strip_suffix_def dest: in_set_takeD split: option.splits if_splits)
  with Cons.prems have "LF \<notin> set (wire_line (chomp [CR] l) @ [CR])" by (auto simp: wire_line_def)
  from split_on_append [OF this, of "concat (map stuff_line ls)"] Cons show ?case
    by (simp add: stuff_line_wire [of l])
qed simp

lemma message_lines_no_LF: "list_all (\<lambda>l. LF \<notin> set l) (message_lines raw)"
  by (auto simp: message_lines_def Let_def list_all_iff dest: split_on_pieces in_set_butlastD)

lemma message_lines_valid:
  "utf8_valid raw \<Longrightarrow> list_all (\<lambda>l. utf8_lossy (chomp [CR] l) = chomp [CR] l) (message_lines raw)"
  using utf8_valid_split_on [of LF raw]
  by (auto simp: message_lines_def Let_def list_all_iff intro!: utf8_lossy_valid utf8_valid_chomp_CR
      dest: in_set_butlastD)

text \<open>
  C19. A message cannot end its own transfer early, and arrives line by line: when a
  server session that is receiving DATA reads the lines of the body the client sends
  (line ends made CR LF, leading dots doubled), it answers none of them, stays in
  the DATA phase and has appended to its buffer exactly the lines of the message, each
  ended by CR LF and decoded as the server decodes every line (\<open>from_utf8_lossy\<close>), which
  for a message in UTF-8 are the lines themselves; the client's final dot is then the
  line that ends the message.
\<close>

theorem client_body_transparent:
  assumes "receiving s d"
  shows "\<exists>s'. feed env so sk s st snk (butlast (split_on LF (data_body raw)))
      = Inr (s', st, snk, replicate (length (message_lines raw)) NoReply)
    \<and> receiving s' (d @ concat (map (\<lambda>l. utf8_lossy (chomp [CR] l) @ crlf) (message_lines raw)))
    \<and> (utf8_valid raw \<longrightarrow> receiving s' (d @ concat (map (\<lambda>l. chomp [CR] l @ crlf) (message_lines raw))))
    \<and> handle env so sk s' st snk (utf8_lossy (''.'' @ [CR]))
      = bind_rust (finish_data env so sk (s'\<lparr>s_cr_present := True, s_input_mode := Command\<rparr>) st snk)
          (\<lambda>(s2, snk2, r). Inr (s2\<lparr>s_previous_cr_present := Some (s_cr_present s2)\<rparr>, st, snk2, r))"
proof -
  have "butlast (split_on LF (data_body raw)) = map (\<lambda>l. wire_line l @ [CR]) (map (chomp [CR]) (message_lines raw))"
    using split_data_body [OF message_lines_no_LF, of raw] by (simp add: data_body_def)
  moreover from feed_wire_lines [OF assms, of env so sk st snk "map (chomp [CR]) (message_lines raw)"]
  obtain s' where s': "feed env so sk s st snk (map (\<lambda>l. wire_line l @ [CR]) (map (chomp [CR]) (message_lines raw)))
      = Inr (s', st, snk, replicate (length (message_lines raw)) NoReply)"
    "receiving s' (d @ concat (map (\<lambda>l. utf8_lossy (chomp [CR] l) @ crlf) (message_lines raw)))"
    by (auto simp: comp_def)
  moreover have "receiving s' (d @ concat (map (\<lambda>l. chomp [CR] l @ crlf) (message_lines raw)))" if "utf8_valid raw"
  proof -
    have "map (\<lambda>l. utf8_lossy (chomp [CR] l) @ crlf) (message_lines raw)
        = map (\<lambda>l. chomp [CR] l @ crlf) (message_lines raw)"
      using message_lines_valid [OF that] by (intro map_cong) (auto simp: list_all_iff)
    with s'(2) show ?thesis by (simp only:)
  qed
  moreover from s'(2) have "handle env so sk s' st snk (''.'' @ [CR])
      = bind_rust (finish_data env so sk (s'\<lparr>s_cr_present := True, s_input_mode := Command\<rparr>) st snk)
          (\<lambda>(s2, snk2, r). Inr (s2\<lparr>s_previous_cr_present := Some (s_cr_present s2)\<rparr>, st, snk2, r))"
    by (cases "finish_data env so sk (s'\<lparr>s_cr_present := True, s_input_mode := Command\<rparr>) st snk")
       (auto simp: handle_def dispatch_def data_line_def receiving_def suffix_to_prefix Let_def)
  moreover have "utf8_lossy (''.'' @ [CR]) = ''.'' @ [CR]" by (rule utf8_lossy_ascii) simp
  ultimately show ?thesis by (intro exI [of _ s']) simp
qed

theorem client_body_transparent_witness:
  "\<exists>s'. feed demo_smtp_env demo_so memory_sink_ops (demo_receiving None [] []) demo_mem memory_sink_new
        (butlast (split_on LF (data_body (''.'' @ [LF] @ ''x''))))
      = Inr (s', demo_mem, memory_sink_new, replicate 2 NoReply)
    \<and> receiving s' (''.'' @ crlf @ ''x'' @ crlf)"
proof -
  have "receiving (demo_receiving None [] []) []"
    by (simp add: receiving_def demo_receiving_def demo_session_def)
  moreover have "message_lines (''.'' @ [LF] @ ''x'') = [''.'', ''x'']" by (simp add: message_lines_def)
  moreover have "utf8_valid (''.'' @ [LF] @ ''x'')" by (rule utf8_valid_ascii) simp
  ultimately show ?thesis
    using client_body_transparent [of "demo_receiving None [] []" "[]" demo_smtp_env demo_so memory_sink_ops demo_mem
        memory_sink_new "''.'' @ [LF] @ ''x''"]
    by (auto simp: chomp_other numeral_2_eq_2)
qed

section \<open>Connecting\<close>

lemma connect_any_Inl: "connect_any cn e as = Inl e' \<Longrightarrow> a \<in> set as \<Longrightarrow> \<exists>x. cn a = Inl x"
  by (induction as arbitrary: e) (auto split: sum.splits)

text \<open>
  One reachable address is enough: when name resolution gives an address that
  accepts the connection and is of the family of the bound source address (any
  family without one), the attempt gets a connection, whatever the other addresses
  do; the candidates are the resolved addresses of that family in the resolver's
  order, and without a bound source address the IPv4 ones come first.
\<close>

theorem client_connects:
  assumes "ae_lookup ae = Inr as" "a \<in> set as" "ae_connect ae a = Inr es"
    and "\<forall>src. sp_source_ip p = Some src \<longrightarrow> is_ipv4 (sock_ip a) = is_ipv4 src"
  shows "(\<exists>es'. connect ae p = Inr es')
    \<and> (\<exists>cs. remote_addresses as (sp_source_ip p) (sp_host p) = Inr cs \<and> a \<in> set cs
        \<and> filter (\<lambda>x. is_ipv4 (sock_ip x)) cs @ filter (\<lambda>x. \<not> is_ipv4 (sock_ip x)) cs = cs
        \<and> filter (\<lambda>x. is_ipv4 (sock_ip x) = is_ipv4 (sock_ip a)) cs
          = filter (\<lambda>x. is_ipv4 (sock_ip x) = is_ipv4 (sock_ip a)) as)"
proof -
  have c: "\<exists>cs. remote_addresses as (sp_source_ip p) (sp_host p) = Inr cs \<and> a \<in> set cs
        \<and> filter (\<lambda>x. is_ipv4 (sock_ip x)) cs @ filter (\<lambda>x. \<not> is_ipv4 (sock_ip x)) cs = cs
        \<and> filter (\<lambda>x. is_ipv4 (sock_ip x) = is_ipv4 (sock_ip a)) cs
          = filter (\<lambda>x. is_ipv4 (sock_ip x) = is_ipv4 (sock_ip a)) as"
  proof (cases "sp_source_ip p")
    case None
    let ?cs = "filter (\<lambda>a. is_ipv4 (sock_ip a)) as @ filter (\<lambda>a. \<not> is_ipv4 (sock_ip a)) as"
    have "a \<in> set ?cs" using assms(2) by auto
    moreover from this have "?cs \<noteq> []" by force
    with assms(2) have "remote_addresses as None (sp_host p) = Inr ?cs"
      unfolding remote_addresses_def Let_def by (auto simp del: append_is_Nil_conv)
    ultimately show ?thesis using None by (intro exI [of _ ?cs]) (cases "is_ipv4 (sock_ip a)"; simp)
  next
    case (Some src)
    let ?cs = "filter (\<lambda>a. is_ipv4 (sock_ip a) = is_ipv4 src) as"
    have m: "a \<in> set ?cs" using assms(2,4) Some by simp
    then have "?cs \<noteq> []" by force
    with assms(2) have "remote_addresses as (Some src) (sp_host p) = Inr ?cs"
      unfolding remote_addresses_def Let_def by auto
    with m assms(4) Some show ?thesis by (intro exI [of _ ?cs]) (cases "is_ipv4 src"; simp)
  qed
  then obtain cs where "remote_addresses as (sp_source_ip p) (sp_host p) = Inr cs" "a \<in> set cs" by blast
  moreover from this(2) have "\<exists>es'. connect_any (ae_connect ae) e cs = Inr es'" for e
    using connect_any_Inl [of "ae_connect ae" e cs _ a] assms(3) by (cases "connect_any (ae_connect ae) e cs") auto
  ultimately show ?thesis using c assms(1) by (simp add: connect_def)
qed

theorem client_connects_witness: "\<exists>es'. connect (demo_attempt ''354 go'') demo_params = Inr es'"
  using client_connects [of "demo_attempt ''354 go''" "[\<lparr>sock_ip = V4 0x01020304, sock_port = 587\<rparr>]"
      "\<lparr>sock_ip = V4 0x01020304, sock_port = 587\<rparr>" _ demo_params]
  by (simp add: demo_attempt_def demo_params_def)

section \<open>Replies and bounce categories\<close>

lemma ws_first_bytes:
  "list_all (\<lambda>e. e \<noteq> [] \<and> (128 \<le> byte (hd e) \<or> byte (hd e) = 32 \<or> 9 \<le> byte (hd e) \<and> byte (hd e) \<le> 13)) ws_encodings"
  by (simp add: ws_encodings_def)

lemma first_ws_ascii:
  "byte c < 128 \<Longrightarrow> byte c \<noteq> 32 \<Longrightarrow> \<not> (9 \<le> byte c \<and> byte c \<le> 13) \<Longrightarrow> first_ws ws_encodings (c # s) = None"
  using ws_first_bytes unfolding first_ws_def find_None_iff list_all_iff
  by (auto simp: prefix_Cons)

lemma split_ws_head: "cur \<noteq> [] \<Longrightarrow> \<exists>w ws. split_ws cur s = (rev cur @ w) # ws"
proof (induction s arbitrary: cur)
  case (Cons x xs)
  then show ?case
    using Cons.IH [of "x # cur"] by (cases "first_ws ws_encodings (x # xs)") auto
qed simp

text \<open>
  The category of a response follows its reply code: a response that starts with
  a three-digit code and a space or a hyphen is hard for a 5xx code and soft for a
  4xx code, so a delivery the client classifies as a permanent failure by such a
  reply is recorded as a hard bounce and a temporary one never is.
\<close>

theorem response_category_of_code:
  assumes "is_ascii_digit d1" "is_ascii_digit d2" "is_ascii_digit d3" "sep = CHR '' '' \<or> sep = CHR ''-''"
    and "response = d1 # d2 # d3 # sep # rest"
  shows "(reply_code response = 100 * (byte d1 - 48) + 10 * (byte d2 - 48) + (byte d3 - 48))
    \<and> (d1 = CHR ''5'' \<longrightarrow> classify_response response = Hard \<and> classify (reply_code response) r tls = HardFail r)
    \<and> (d1 = CHR ''4'' \<longrightarrow> classify_response response = Soft \<and> classify (reply_code response) r tls = SoftFail r)"
proof -
  note dig = assms(1-3) [unfolded is_ascii_digit_def]
  have nows: "first_ws ws_encodings (d # s) = None" if "is_ascii_digit d \<or> d = CHR ''-''" for d s
    using that by (auto simp: is_ascii_digit_def intro: first_ws_ascii)
  have tok: "\<exists>w ws. split_whitespace response = ([d1, d2, d3] @ w) # ws \<and> (w = [] \<or> hd w = CHR ''-'')"
  proof (cases "sep = CHR ''-''")
    case True
    then show ?thesis
      using split_ws_head [of "[sep, d3, d2, d1]" rest] assms nows
      by (auto simp: split_whitespace_def)
  next
    case False
    with assms(4) have sp: "sep = CHR '' ''" by simp
    then have "\<exists>e. first_ws ws_encodings (sep # rest) = Some e"
      by (simp add: first_ws_def ws_encodings_def)
    then show ?thesis using assms nows by (auto simp: split_whitespace_def)
  qed
  have d: "CHR ''-'' \<notin> set [d1, d2, d3]" using dig by auto
  have "reply_code_class ([d1, d2, d3] @ w) = class_digit d1" if "w = [] \<or> hd w = CHR ''-''" for w
  proof -
    from that d have "hd (split_on (CHR ''-'') ([d1, d2, d3] @ w)) = [d1, d2, d3]"
      by (cases w) (auto simp: split_on_hd)
    with assms(1-3) show ?thesis by (simp add: reply_code_class_def)
  qed
  with tok have cat: "classify_response response = c" if "class_digit d1 = Some c" for c
    using that by (auto simp: classify_response_def)
  have bnd: "is_char_boundary response 3"
    using assms(4,5) by (auto simp: is_char_boundary_def is_cont_byte_def)
  have plus: "CHR ''+'' \<noteq> d1" using dig by auto
  have "parse_u16 [d1, d2, d3] = Some (100 * (byte d1 - 48) + 10 * (byte d2 - 48) + (byte d3 - 48))"
    using assms(1-3) plus dig by (simp add: parse_u16_def digits_value_def) arith
  with bnd assms(5) have code: "reply_code response = 100 * (byte d1 - 48) + 10 * (byte d2 - 48) + (byte d3 - 48)"
    by (simp add: reply_code_def)
  with cat dig show ?thesis by (auto simp: class_digit_def classify_def)
qed

theorem response_category_of_code_witness:
  "classify_response ''550-5.1.1 unknown'' = Hard \<and> classify (reply_code ''550-5.1.1 unknown'') [] True = HardFail []"
  using response_category_of_code [of "CHR ''5''" "CHR ''5''" "CHR ''0''" "CHR ''-''" "''550-5.1.1 unknown''" "''5.1.1 unknown''" "[]" True]
  by (simp add: is_ascii_digit_def classify_def)

end
