(* ===== verification/Ssrf.thy ===== *)
theory Ssrf
  imports Mail_Model
begin

text \<open>
  The address guard of outgoing HTTP requests (\<open>worker/ssrf.rs\<close>). URL parsing and
  name resolution belong to other packages and are arguments; \<open>ge_lookup\<close> is the
  guard's own lookup, the one \<open>check_url\<close> makes, and the HTTP client makes another. The address tests of
  the code look at octets and segments one by one; the theorems say which networks
  they amount to.
\<close>

unbundle bit_operations_syntax

section \<open>Addresses\<close>

text \<open>\<open>Ipv4Addr::octets\<close> and \<open>Ipv6Addr::segments\<close>.\<close>

definition octet :: "nat \<Rightarrow> 32 word \<Rightarrow> nat" where
  "octet i w = unat (drop_bit (8 * (3 - i)) w) mod 256"

definition segment :: "nat \<Rightarrow> 128 word \<Rightarrow> 16 word" where
  "segment i w = ucast (drop_bit (16 * (7 - i)) w)"

text \<open>The tests of \<open>std::net\<close> the guard calls, on octets and segments as the library has them.\<close>

definition v4_is_loopback :: "32 word \<Rightarrow> bool" where
  "v4_is_loopback w \<longleftrightarrow> octet 0 w = 127"

definition v4_is_private :: "32 word \<Rightarrow> bool" where
  "v4_is_private w \<longleftrightarrow>
     octet 0 w = 10 \<or> (octet 0 w = 172 \<and> 16 \<le> octet 1 w \<and> octet 1 w \<le> 31)
     \<or> (octet 0 w = 192 \<and> octet 1 w = 168)"

definition v4_is_link_local :: "32 word \<Rightarrow> bool" where
  "v4_is_link_local w \<longleftrightarrow> octet 0 w = 169 \<and> octet 1 w = 254"

definition v4_is_broadcast :: "32 word \<Rightarrow> bool" where
  "v4_is_broadcast w \<longleftrightarrow> w = 0xffffffff"

definition v4_is_documentation :: "32 word \<Rightarrow> bool" where
  "v4_is_documentation w \<longleftrightarrow>
     (octet 0 w = 192 \<and> octet 1 w = 0 \<and> octet 2 w = 2)
     \<or> (octet 0 w = 198 \<and> octet 1 w = 51 \<and> octet 2 w = 100)
     \<or> (octet 0 w = 203 \<and> octet 1 w = 0 \<and> octet 2 w = 113)"

definition v4_is_unspecified :: "32 word \<Rightarrow> bool" where
  "v4_is_unspecified w \<longleftrightarrow> w = 0"

definition v4_is_multicast :: "32 word \<Rightarrow> bool" where
  "v4_is_multicast w \<longleftrightarrow> 224 \<le> octet 0 w \<and> octet 0 w \<le> 239"

definition v6_is_ipv4_mapped :: "128 word \<Rightarrow> bool" where
  "v6_is_ipv4_mapped w \<longleftrightarrow>
     segment 0 w = 0 \<and> segment 1 w = 0 \<and> segment 2 w = 0 \<and> segment 3 w = 0 \<and> segment 4 w = 0
     \<and> segment 5 w = 0xffff"

section \<open>Blocked addresses\<close>

definition ipv4_blocked :: "32 word \<Rightarrow> bool" where
  "ipv4_blocked ip \<longleftrightarrow>
     (let a = octet 0 ip; b = octet 1 ip in
      v4_is_loopback ip \<or> v4_is_private ip \<or> v4_is_link_local ip \<or> v4_is_broadcast ip
      \<or> v4_is_documentation ip \<or> v4_is_unspecified ip \<or> v4_is_multicast ip
      \<or> a = 0 \<or> (a = 100 \<and> 64 \<le> b \<and> b \<le> 127) \<or> (a = 192 \<and> b = 0)
      \<or> (a = 198 \<and> (b = 18 \<or> b = 19)) \<or> 240 \<le> a)"

definition is_ipv4_compatible :: "128 word \<Rightarrow> bool" where
  "is_ipv4_compatible ip \<longleftrightarrow>
     segment 0 ip = 0 \<and> segment 1 ip = 0 \<and> segment 2 ip = 0 \<and> segment 3 ip = 0 \<and> segment 4 ip = 0
     \<and> segment 5 ip = 0 \<and> segment 6 ip \<noteq> 0"

definition is_unique_local :: "128 word \<Rightarrow> bool" where
  "is_unique_local ip \<longleftrightarrow> segment 0 ip AND 0xfe00 = 0xfc00"

definition is_unicast_link_local :: "128 word \<Rightarrow> bool" where
  "is_unicast_link_local ip \<longleftrightarrow> segment 0 ip AND 0xffc0 = 0xfe80"

definition is_documentation_v6 :: "128 word \<Rightarrow> bool" where
  "is_documentation_v6 ip \<longleftrightarrow> segment 0 ip = 0x2001 \<and> segment 1 ip = 0x0db8"

definition ipv6_blocked :: "128 word \<Rightarrow> bool" where
  "ipv6_blocked ip \<longleftrightarrow>
     (if v6_is_ipv4_mapped ip \<or> is_ipv4_compatible ip then True
      else ip = 1 \<or> ip = 0 \<or> segment 0 ip AND 0xff00 = 0xff00
        \<or> is_unique_local ip \<or> is_unicast_link_local ip \<or> is_documentation_v6 ip)"

definition ip_blocked :: "ip_addr \<Rightarrow> bool" where
  "ip_blocked ip = (case ip of V4 w \<Rightarrow> ipv4_blocked w | V6 w \<Rightarrow> ipv6_blocked w)"

section \<open>The guard\<close>

datatype ssrf_error =
    InvalidUrl string
  | NoHost
  | ResolveFailed string string
  | Unresolved string
  | Blocked string ip_addr

record ssrf_guard =
  sg_enabled :: bool
  sg_allowed_hosts :: "string list"

text \<open>
  What the guard asks of other code: the URL parser (the host, absent for some
  schemes, and the port, absent when the scheme has no default), the IP parser, the
  resolver and Unicode lower-casing.
\<close>

record parsed_url =
  pu_host :: "string option"
  pu_port :: "nat option"

record guard_env =
  ge_parse :: "string \<Rightarrow> string + parsed_url"
  ge_ip_parse :: "string \<Rightarrow> ip_addr option"
  ge_lookup :: "string \<Rightarrow> nat \<Rightarrow> string + ip_addr list"
  ge_lower :: "string \<Rightarrow> string"

definition guard_new :: "guard_env \<Rightarrow> bool \<Rightarrow> string list \<Rightarrow> ssrf_guard" where
  "guard_new ge enabled allowed_hosts =
     \<lparr>sg_enabled = enabled, sg_allowed_hosts = map (ge_lower ge) allowed_hosts\<rparr>"

definition is_allowlisted :: "guard_env \<Rightarrow> ssrf_guard \<Rightarrow> string \<Rightarrow> bool" where
  "is_allowlisted ge g host \<longleftrightarrow> ge_lower ge host \<in> set (sg_allowed_hosts g)"

definition strip_brackets :: "string \<Rightarrow> string" where
  "strip_brackets raw_host =
     (case Option.bind (strip_prefix ''['' raw_host) (strip_suffix '']'') of
        Some h \<Rightarrow> h | None \<Rightarrow> raw_host)"

fun check_addresses :: "string \<Rightarrow> ip_addr list \<Rightarrow> ssrf_error + unit" where
  "check_addresses host [] = Inr ()"
| "check_addresses host (ip # ips) =
     (if ip_blocked ip then Inl (Blocked host ip) else check_addresses host ips)"

definition check_host_addresses :: "guard_env \<Rightarrow> string \<Rightarrow> nat \<Rightarrow> ssrf_error + unit" where
  "check_host_addresses ge host port =
     (case ge_lookup ge host port of
        Inl source \<Rightarrow> Inl (ResolveFailed host source)
      | Inr addrs \<Rightarrow> if addrs = [] then Inl (Unresolved host) else check_addresses host addrs)"

definition check_url :: "guard_env \<Rightarrow> ssrf_guard \<Rightarrow> string \<Rightarrow> ssrf_error + unit" where
  "check_url ge g url =
     (if \<not> sg_enabled g then Inr ()
      else
        (case ge_parse ge url of
           Inl e \<Rightarrow> Inl (InvalidUrl e)
         | Inr parsed \<Rightarrow>
             (case pu_host parsed of
                None \<Rightarrow> Inl NoHost
              | Some raw_host \<Rightarrow>
                  (let host = strip_brackets raw_host in
                   if is_allowlisted ge g host then Inr ()
                   else
                     (case ge_ip_parse ge host of
                        Some ip \<Rightarrow> if ip_blocked ip then Inl (Blocked host ip) else Inr ()
                      | None \<Rightarrow>
                          check_host_addresses ge host
                            (case pu_port parsed of Some p \<Rightarrow> p | None \<Rightarrow> 80))))))"

section \<open>Networks\<close>

text \<open>A network in CIDR form and the addresses in it.\<close>

definition in_net :: "'a::len word \<times> nat \<Rightarrow> 'a word \<Rightarrow> bool" where
  "in_net n w \<longleftrightarrow> drop_bit (LENGTH('a) - snd n) w = drop_bit (LENGTH('a) - snd n) (fst n)"

lemma unat_drop_bit_div: "unat (drop_bit k w) = unat w div 2 ^ k" for w :: "'a::len word"
  by (subst unat_drop_bit_eq) (rule drop_bit_eq_div)

lemma in_net_unat:
  "in_net (b, l) w \<longleftrightarrow> unat w div 2 ^ (LENGTH('a) - l) = unat b div 2 ^ (LENGTH('a) - l)" for w :: "'a::len word"
  by (simp add: in_net_def word_unat_eq_iff unat_drop_bit_div)

text \<open>The IPv4 networks the guard refuses.\<close>

definition refused_v4 :: "(32 word \<times> nat) list" where
  "refused_v4 =
     [(0x00000000, 8), (0x0a000000, 8), (0x64400000, 10), (0x7f000000, 8), (0xa9fe0000, 16),
      (0xac100000, 12), (0xc0000000, 16), (0xc0a80000, 16), (0xc6120000, 15), (0xc6336400, 24),
      (0xcb007100, 24), (0xe0000000, 4), (0xf0000000, 4)]"

lemma octets_unat:
  "octet 0 w = unat w div 2 ^ 24" "octet 1 w = unat w div 2 ^ 16 mod 256" "octet 2 w = unat w div 2 ^ 8 mod 256"
  using unsigned_less [of w, where ?'a = nat] by (simp_all add: octet_def unat_drop_bit_div)

lemma radix_unique: "t < q \<Longrightarrow> y < q \<Longrightarrow> q * a + t = q * x + y \<longleftrightarrow> a = x \<and> t = y" for a t x y q :: nat
proof
  assume b: "t < q" "y < q" and e: "q * a + t = q * x + y"
  from b have "(q * a + t) div q = a" "(q * x + y) div q = x" by simp_all
  with e have "a = x" by metis
  with e show "a = x \<and> t = y" by simp
qed simp

lemma two_octets: "c < 256 \<Longrightarrow> k = q * 256 + c \<longleftrightarrow> k div 256 = q \<and> k mod 256 = c" for k q c :: nat
  using div_mult_mod_eq [of k 256] div_mult_self1 [of 256 c q] by (auto simp: add.commute)

lemma three_octets:
  fixes k a b c :: nat
  assumes "b < 256" "c < 256"
  shows "k = (a * 256 + b) * 256 + c \<longleftrightarrow> k div 256 div 256 = a \<and> k div 256 mod 256 = b \<and> k mod 256 = c"
  using two_octets [OF assms(2), of k "a * 256 + b"] two_octets [OF assms(1), of "k div 256" a] by blast

lemma ipv4_blocked_networks: "ipv4_blocked w \<longleftrightarrow> list_ex (\<lambda>n. in_net n w) refused_v4"
proof -
  define n where "n = unat w"
  define k where "k = n div 2 ^ 8"
  define m where "m = n div 2 ^ 16"
  have n: "n < 2 ^ 32" unfolding n_def using unsigned_less [of w, where ?'a = nat] by simp
  have m: "m < 65536" "m div 256 < 256" using n by (auto simp: m_def)
  have eqs: "n div 2 ^ 24 = m div 256" "n div 2 ^ 22 = m div 64" "n div 2 ^ 20 = m div 16" "n div 2 ^ 17 = m div 2"
    "n div 2 ^ 28 = m div 4096"
    unfolding m_def by (simp_all add: div_mult2_eq [symmetric])
  have k: "m = k div 256" unfolding m_def k_def by (simp_all add: div_mult2_eq [symmetric])
  have oct: "octet 0 w = m div 256" "octet 1 w = m mod 256" "octet 2 w = k mod 256"
    unfolding octets_unat n_def [symmetric] by (simp_all add: eqs m_def k_def)
  have doc: "k = 0xc63364 \<longleftrightarrow> m div 256 = 198 \<and> m mod 256 = 51 \<and> k mod 256 = 100"
    "k = 0xcb0071 \<longleftrightarrow> m div 256 = 203 \<and> m mod 256 = 0 \<and> k mod 256 = 113"
    using three_octets [of 51 100 k 198] three_octets [of 0 113 k 203] by (simp_all add: k)
  have nets: "list_ex (\<lambda>n. in_net n w) refused_v4 \<longleftrightarrow>
      m div 256 = 0 \<or> m div 256 = 10 \<or> m div 64 = 0x191 \<or> m div 256 = 127 \<or> m = 0xa9fe \<or> m div 16 = 0xac1
      \<or> m = 0xc000 \<or> m = 0xc0a8 \<or> m div 2 = 0x6309 \<or> k = 0xc63364 \<or> k = 0xcb0071 \<or> m div 4096 = 14 \<or> m div 4096 = 15"
    by (simp add: refused_v4_def in_net_unat n_def [symmetric] eqs [simplified] m_def [symmetric, simplified] k_def [symmetric, simplified])
  define a b where "a = m div 256" and "b = m mod 256"
  have ab: "m = a * 256 + b" "b < 256" by (simp_all add: a_def b_def)
  have d: "m div 64 = 4 * a + b div 64" "m div 16 = 16 * a + b div 16" "m div 2 = 128 * a + b div 2"
    using div_mult_self3 [of 64 "4 * a" b] div_mult_self3 [of 16 "16 * a" b] div_mult_self3 [of 2 "128 * a" b]
    by (simp_all add: ab(1))
  have d4: "m div 4096 = a div 16" unfolding a_def by (simp add: div_mult2_eq [symmetric])
  have r1: "64 \<le> b \<and> b \<le> 127 \<and> a = 100 \<longleftrightarrow> m div 64 = 0x191" 
    using radix_unique [of "b div 64" 4 1 a 100] ab(2) unfolding d(1) by auto
  have r2: "16 \<le> b \<and> b \<le> 31 \<and> a = 172 \<longleftrightarrow> m div 16 = 0xac1" 
    using radix_unique [of "b div 16" 16 1 a 172] ab(2) unfolding d(2) by auto
  have r3: "a = 169 \<and> b = 254 \<longleftrightarrow> m = 0xa9fe" "a = 192 \<and> b = 0 \<longleftrightarrow> m = 0xc000" "a = 192 \<and> b = 168 \<longleftrightarrow> m = 0xc0a8"
    using two_octets [of 254 m 169] two_octets [of 0 m 192] two_octets [of 168 m 192] by (simp_all add: a_def b_def)
  have r4: "a = 198 \<and> (b = 18 \<or> b = 19) \<longleftrightarrow> m div 2 = 0x6309" 
    using radix_unique [of "b div 2" 128 9 a 198] ab(2) unfolding d(3) by auto
  have r5: "224 \<le> a \<and> a \<le> 239 \<longleftrightarrow> m div 4096 = 14"
    using less_eq_div_iff_mult_less_eq [of 16 14 a] less_eq_div_iff_mult_less_eq [of 16 15 a] unfolding d4 by auto
  have r6: "240 \<le> a \<longleftrightarrow> m div 4096 = 15" 
    using m(2) less_eq_div_iff_mult_less_eq [of 16 15 a] unfolding d4 a_def [symmetric] by auto
  have special: "w = 0xffffffff \<Longrightarrow> 240 \<le> a" "w = 0 \<Longrightarrow> a = 0"
    by (auto simp: a_def m_def n_def)
  have "ipv4_blocked w \<longleftrightarrow>
      a = 0 \<or> a = 10 \<or> a = 127 \<or> (64 \<le> b \<and> b \<le> 127 \<and> a = 100) \<or> (a = 169 \<and> b = 254)
      \<or> (16 \<le> b \<and> b \<le> 31 \<and> a = 172) \<or> (a = 192 \<and> b = 0) \<or> (a = 192 \<and> b = 168)
      \<or> (a = 198 \<and> (b = 18 \<or> b = 19)) \<or> (a = 198 \<and> b = 51 \<and> k mod 256 = 100)
      \<or> (a = 203 \<and> b = 0 \<and> k mod 256 = 113) \<or> (224 \<le> a \<and> a \<le> 239) \<or> 240 \<le> a"
    unfolding ipv4_blocked_def Let_def v4_is_loopback_def v4_is_private_def v4_is_link_local_def
      v4_is_broadcast_def v4_is_documentation_def v4_is_unspecified_def v4_is_multicast_def oct a_def [symmetric] b_def [symmetric]
    by (intro iffI; elim disjE conjE; use special in simp)
  then show ?thesis
    unfolding nets r1 r2 r3 r4 r5 r6 doc [folded a_def b_def, symmetric] a_def [symmetric] by blast
qed

text \<open>
  The IPv6 networks the guard refuses. Of the IPv4-compatible block \<open>::/96\<close> the
  addresses from \<open>::2\<close> to \<open>::ffff\<close> are not among them.
\<close>

definition refused_v6 :: "(128 word \<times> nat) list" where
  "refused_v6 =
     [(0, 128), (1, 128), (0xffff00000000, 96), (0xff000000000000000000000000000000, 8),
      (0xfc000000000000000000000000000000, 7), (0xfe800000000000000000000000000000, 10),
      (0x20010db8000000000000000000000000, 32)]"

lemma segment_unat: "unat (segment i w) = unat w div 2 ^ (16 * (7 - i)) mod 65536"
  by (simp add: segment_def unsigned_ucast_eq unat_drop_bit_div take_bit_eq_mod)

lemma div_power_step: "n div 2 ^ k = n div 2 ^ (k + 16) * 65536 + n div 2 ^ k mod 65536" for n :: nat
proof -
  have "n div 2 ^ (k + 16) = n div 2 ^ k div 65536" by (simp add: power_add div_mult2_eq)
  then show ?thesis by simp
qed

lemma segments_zero:
  "(segment 0 w = 0 \<and> segment 1 w = 0 \<and> segment 2 w = 0 \<and> segment 3 w = 0 \<and> segment 4 w = 0)
   \<longleftrightarrow> unat w div 2 ^ 48 = 0"
proof -
  have n: "unat w div 2 ^ 128 = 0" using unsigned_less [of w, where ?'a = nat] by simp
  have s: "x = 0 \<longleftrightarrow> unat x = 0" for x :: "16 word" by (simp add: unat_eq_0)
  have z: "unat w div 2 ^ k = 0 \<longleftrightarrow> unat w div 2 ^ (k + 16) = 0 \<and> unat w div 2 ^ k mod 65536 = 0" for k
    using div_power_step [of "unat w" k] by auto
  show ?thesis
    unfolding s segment_unat
    using n z [of 112] z [of 96] z [of 80] z [of 64] z [of 48] by simp
qed

lemma mask_test:
  fixes s :: "16 word"
  shows "s AND 0xfe00 = 0xfc00 \<longleftrightarrow> unat s div 512 = 0x7e" "s AND 0xffc0 = 0xfe80 \<longleftrightarrow> unat s div 64 = 0x3fa"
    "s AND 0xff00 = 0xff00 \<longleftrightarrow> unat s div 256 = 0xff"
proof -
  have m: "s AND NOT (mask k) = push_bit k (drop_bit k s)" for k
    by (rule bit_word_eqI) (auto simp: bit_simps)
  have b: "unat s < 65536" using unsigned_less [of s, where ?'a = nat] by simp
  have u: "unat (push_bit 9 (drop_bit 9 s)) = unat s div 512 * 512" "unat (push_bit 6 (drop_bit 6 s)) = unat s div 64 * 64"
    "unat (push_bit 8 (drop_bit 8 s)) = unat s div 256 * 256"
    using b by (simp_all add: push_bit_eq_mult unat_word_ariths unat_drop_bit_div)
  have c: "(0xfe00 :: 16 word) = NOT (mask 9)" "(0xffc0 :: 16 word) = NOT (mask 6)" "(0xff00 :: 16 word) = NOT (mask 8)"
    by (simp_all add: mask_eq_exp_minus_1 not_eq_complement)
  have "unat (s AND 0xfe00) = unat s div 512 * 512" "unat (s AND 0xffc0) = unat s div 64 * 64"
    "unat (s AND 0xff00) = unat s div 256 * 256"
    unfolding c m u by (rule refl)+
  then show "s AND 0xfe00 = 0xfc00 \<longleftrightarrow> unat s div 512 = 0x7e" "s AND 0xffc0 = 0xfe80 \<longleftrightarrow> unat s div 64 = 0x3fa"
    "s AND 0xff00 = 0xff00 \<longleftrightarrow> unat s div 256 = 0xff"
    unfolding word_unat_eq_iff by auto
qed

lemma ipv6_blocked_networks:
  "ipv6_blocked w \<longleftrightarrow> list_ex (\<lambda>n. in_net n w) refused_v6 \<or> 2 ^ 16 \<le> unat w \<and> unat w < 2 ^ 32"
proof -
  define n where "n = unat w"
  have n: "n < 2 ^ 128" unfolding n_def using unsigned_less [of w, where ?'a = nat] by simp
  have s0: "unat (segment 0 w) = n div 2 ^ 112" using n by (simp add: segment_unat n_def [symmetric])
  have seg: "x = y \<longleftrightarrow> unat x = unat y" for x y :: "16 word" by (rule word_unat_eq_iff)
  have mapped: "v6_is_ipv4_mapped w \<longleftrightarrow> n div 2 ^ 32 = 0xffff"
    using segments_zero [of w] div_power_step [of n 32]
    unfolding v6_is_ipv4_mapped_def seg [of "segment 5 w"] segment_unat n_def [symmetric] by auto
  have compat: "is_ipv4_compatible w \<longleftrightarrow> 2 ^ 16 \<le> n \<and> n < 2 ^ 32"
    using segments_zero [of w] div_power_step [of n 32] div_power_step [of n 16]
    unfolding is_ipv4_compatible_def seg [of "segment 5 w"] seg [of "segment 6 w"] segment_unat n_def [symmetric]
    by (auto simp: div_eq_0_iff)
  have doc: "is_documentation_v6 w \<longleftrightarrow> n div 2 ^ 96 = 0x20010db8"
    using div_power_step [of n 96] s0
    unfolding is_documentation_v6_def seg segment_unat n_def [symmetric] by auto
  have high: "n div 2 ^ 112 div 512 = n div 2 ^ 121" "n div 2 ^ 112 div 64 = n div 2 ^ 118" "n div 2 ^ 112 div 256 = n div 2 ^ 120"
    by (simp_all add: div_mult2_eq [symmetric])
  have small: "w = 0 \<longleftrightarrow> n = 0" "w = 1 \<longleftrightarrow> n = 1" by (simp_all add: n_def word_unat_eq_iff)
  have nets: "list_ex (\<lambda>n. in_net n w) refused_v6 \<longleftrightarrow>
      n = 0 \<or> n = 1 \<or> n div 2 ^ 32 = 0xffff \<or> n div 2 ^ 120 = 0xff \<or> n div 2 ^ 121 = 0x7e \<or> n div 2 ^ 118 = 0x3fa
      \<or> n div 2 ^ 96 = 0x20010db8"
    by (simp add: refused_v6_def in_net_unat n_def [symmetric])
  show ?thesis
    unfolding nets ipv6_blocked_def mapped compat doc is_unique_local_def is_unicast_link_local_def mask_test s0 high small
      n_def [symmetric]
    by auto
qed

section \<open>The guard lets through public addresses only\<close>

definition public_address :: "ip_addr \<Rightarrow> bool" where
  "public_address ip =
     (case ip of
        V4 w \<Rightarrow> \<not> list_ex (\<lambda>n. in_net n w) refused_v4
      | V6 w \<Rightarrow> \<not> (list_ex (\<lambda>n. in_net n w) refused_v6 \<or> 2 ^ 16 \<le> unat w \<and> unat w < 2 ^ 32))"

lemma ip_blocked_public: "ip_blocked ip \<longleftrightarrow> \<not> public_address ip"
  by (cases ip) (simp_all add: ip_blocked_def public_address_def ipv4_blocked_networks ipv6_blocked_networks)

lemma check_addresses_Inr: "check_addresses host ips = Inr () \<longleftrightarrow> list_all public_address ips"
  by (induction ips) (auto simp: ip_blocked_public)

text \<open>What the guard computes, in terms of the tables.\<close>

lemma check_url_iff:
  "check_url ge g url = Inr () \<longleftrightarrow>
     \<not> sg_enabled g
     \<or> (\<exists>pu h. ge_parse ge url = Inr pu \<and> pu_host pu = Some h
          \<and> (is_allowlisted ge g (strip_brackets h)
             \<or> (case ge_ip_parse ge (strip_brackets h) of
                  Some ip \<Rightarrow> public_address ip
                | None \<Rightarrow>
                    (\<exists>ips. ge_lookup ge (strip_brackets h) (case pu_port pu of Some p \<Rightarrow> p | None \<Rightarrow> 80) = Inr ips
                       \<and> ips \<noteq> [] \<and> list_all public_address ips))))"
  by (auto simp: check_url_def check_host_addresses_def ip_blocked_public check_addresses_Inr Let_def
      split: sum.splits option.splits if_splits)

text \<open>
  The networks the source says it refuses: those named in the comments of
  \<open>ipv4_blocked\<close> and \<open>ipv6_blocked\<close>, with the IPv4-mapped addresses.
\<close>

definition documented_v4 :: "(32 word \<times> nat) list" where
  "documented_v4 =
     [(0x7f000000, 8), (0x0a000000, 8), (0xac100000, 12), (0xc0a80000, 16), (0xa9fe0000, 16),
      (0xffffffff, 32), (0xc0000200, 24), (0xc6336400, 24), (0xcb007100, 24), (0, 32), (0xe0000000, 4),
      (0, 8), (0x64400000, 10), (0xc0000000, 24), (0xc6120000, 15), (0xf0000000, 4)]"

definition documented_v6 :: "(128 word \<times> nat) list" where
  "documented_v6 =
     [(0xffff00000000, 96), (1, 128), (0, 128), (0xff000000000000000000000000000000, 8),
      (0xfc000000000000000000000000000000, 7), (0xfe800000000000000000000000000000, 10),
      (0x20010db8000000000000000000000000, 32)]"

definition internal_address :: "ip_addr \<Rightarrow> bool" where
  "internal_address ip =
     (case ip of
        V4 w \<Rightarrow> list_ex (\<lambda>n. in_net n w) documented_v4
      | V6 w \<Rightarrow> list_ex (\<lambda>n. in_net n w) documented_v6)"

text \<open>A network inside another.\<close>

lemma in_net_mono:
  fixes w :: "'a::len word"
  assumes "in_net (b, l) w" "in_net (b', l') b" "l' \<le> l" "l \<le> LENGTH('a)"
  shows "in_net (b', l') w"
proof -
  have "drop_bit (LENGTH('a) - l') x = drop_bit (l - l') (drop_bit (LENGTH('a) - l) x)" for x :: "'a word"
    using assms(3,4) by (simp add: drop_bit_drop_bit)
  with assms(1,2) show ?thesis unfolding in_net_def by (simp only: fst_conv snd_conv)
qed

lemma documented_v4_refused: "list_all (\<lambda>n. list_ex (\<lambda>m. snd m \<le> snd n \<and> snd n \<le> 32 \<and> in_net m (fst n)) refused_v4) documented_v4"
  by (simp add: documented_v4_def refused_v4_def in_net_unat)

lemma internal_not_public: "public_address ip \<Longrightarrow> \<not> internal_address ip"
proof (cases ip)
  case (V4 w)
  have "list_ex (\<lambda>m. in_net m w) refused_v4" if "n \<in> set documented_v4" "in_net n w" for n
  proof -
    from that(1) documented_v4_refused obtain m where "m \<in> set refused_v4" "snd m \<le> snd n" "snd n \<le> 32" "in_net m (fst n)"
      by (auto simp: list_all_iff list_ex_iff)
    with in_net_mono [of "fst n" "snd n" w "fst m" "snd m"] that(2) show ?thesis by (auto simp: list_ex_iff)
  qed
  then show "public_address ip \<Longrightarrow> \<not> internal_address ip"
    by (auto simp: V4 public_address_def internal_address_def list_ex_iff)
next
  case (V6 w)
  then show "public_address ip \<Longrightarrow> \<not> internal_address ip"
    by (auto simp: public_address_def internal_address_def documented_v6_def refused_v6_def)
qed


definition demo_guard_env :: guard_env where
  "demo_guard_env =
     \<lparr>ge_parse = (\<lambda>url. Inr \<lparr>pu_host = Some url, pu_port = Some 443\<rparr>), ge_ip_parse = (\<lambda>_. None),
      ge_lookup = (\<lambda>host _. Inr (V4 0x01010101 # (if host = ''mixed.io'' then [V4 0x0a000001] else []))), ge_lower = id\<rparr>"

lemma demo_guard_decides:
  "check_url demo_guard_env (guard_new demo_guard_env True []) ''public.io'' = Inr ()
   \<and> check_url demo_guard_env (guard_new demo_guard_env True []) ''mixed.io'' \<noteq> Inr ()"
  unfolding check_url_iff
  by (simp add: demo_guard_env_def guard_new_def is_allowlisted_def strip_brackets_def strip_prefix_def
      public_address_def refused_v4_def in_net_unat)


text \<open>
  The tables are not all of the non-global space: the low IPv4-compatible addresses
  and the 6to4 and NAT64 forms of a loopback address are let through.
\<close>

lemma ssrf_embedded_addresses_pass:
  "\<not> ip_blocked (V6 2) \<and> \<not> ip_blocked (V6 0x20027f00000100000000000000000000)
   \<and> \<not> ip_blocked (V6 0x64ff9b00000000000000007f000001)"
  by (simp add: ip_blocked_def ipv6_blocked_networks refused_v6_def in_net_unat)

end
