(* ===== verification/Sender.thy ===== *)
theory Sender
  imports Smtp_Client_Safety "HOL-Library.Multiset"
begin

text \<open>
  Where an outgoing message is delivered (\<open>worker/sender.rs\<close>): relay URLs, MX
  endpoints, and the walk over the endpoints. DNS, IDNA and the network are
  arguments. The theorems: relay URLs are read back as they are printed, a relay on
  the submission port or with implicit TLS never sees credentials, envelope or
  content in plain text, and the walk tries the endpoints in order of preference
  until one decides.
\<close>

section \<open>Endpoints\<close>

record endpoint =
  ep_host :: string
  ep_port :: nat
  ep_security :: connection_security
  ep_tls_mode :: tls_mode
  ep_auth :: "smtp_auth option"

definition endpoint_mx :: "string \<Rightarrow> endpoint" where
  "endpoint_mx host =
     \<lparr>ep_host = host, ep_port = 25, ep_security = Opportunistic, ep_tls_mode = TlsAcceptAny, ep_auth = None\<rparr>"

fun percent_bytes :: "string \<Rightarrow> bytes" where
  "percent_bytes (c # a # b # s) =
     (if c = CHR ''%'' then
        (case parse_hex2 a b of
           Some v \<Rightarrow> char_of v # percent_bytes s
         | None \<Rightarrow> c # percent_bytes (a # b # s))
      else c # percent_bytes (a # b # s))"
| "percent_bytes s = s"

definition percent_decode :: "string \<Rightarrow> string" where
  "percent_decode input = utf8_lossy (percent_bytes input)"

definition relay_scheme :: "string \<Rightarrow> (string \<times> bool) option" where
  "relay_scheme relay =
     (case strip_prefix ''smtps://'' relay of
        Some rest \<Rightarrow> Some (rest, True)
      | None \<Rightarrow> map_option (\<lambda>rest. (rest, False)) (strip_prefix ''smtp://'' relay))"

definition relay_auth :: "string \<Rightarrow> (smtp_auth option \<times> string) option" where
  "relay_auth rest =
     (case rsplit_once (CHR ''@'') rest of
        None \<Rightarrow> Some (None, rest)
      | Some (userinfo, host_port) \<Rightarrow>
          map_option (\<lambda>(u, p). (Some \<lparr>sa_username = percent_decode u, sa_password = percent_decode p\<rparr>, host_port))
            (split_once (CHR '':'') userinfo))"

definition relay_host_port :: "bool \<Rightarrow> string \<Rightarrow> (string \<times> nat) option" where
  "relay_host_port implicit_tls host_port =
     (case rsplit_once (CHR '':'') host_port of
        Some (host, port) \<Rightarrow> map_option (\<lambda>n. (host, n)) (parse_u16 port)
      | None \<Rightarrow> Some (host_port, if implicit_tls then 465 else 25))"

definition relay_security :: "bool \<Rightarrow> nat \<Rightarrow> connection_security" where
  "relay_security implicit_tls port =
     (if implicit_tls then ImplicitTls else if port = 587 then RequireStartTls else Opportunistic)"

definition parse_relay :: "string \<Rightarrow> tls_mode \<Rightarrow> endpoint option" where
  "parse_relay relay relay_tls_mode =
     (case relay_scheme relay of
        None \<Rightarrow> None
      | Some (rest0, implicit_tls) \<Rightarrow>
          (let rest = takeWhile (\<lambda>c. c \<noteq> CHR ''/'' \<and> c \<noteq> CHR ''?'') rest0 in
           case relay_auth rest of
             None \<Rightarrow> None
           | Some (auth, host_port) \<Rightarrow>
               (case relay_host_port implicit_tls host_port of
                  None \<Rightarrow> None
                | Some (host, port) \<Rightarrow>
                    Some \<lparr>ep_host = host, ep_port = port, ep_security = relay_security implicit_tls port,
                          ep_tls_mode = relay_tls_mode, ep_auth = auth\<rparr>)))"

section \<open>The sender\<close>

record smtp_sender =
  ss_relays :: "endpoint list"
  ss_helo_hostname :: string
  ss_timeout :: nat
  ss_read_timeout :: nat
  ss_data_timeout :: nat

text \<open>The settings \<open>SmtpSender::new\<close> reads.\<close>

record sender_config =
  sc_openssl_verify_mode :: string
  sc_enable_starttls :: bool
  sc_enable_starttls_auto :: bool
  sc_smtp_relays :: "string list"
  sc_helo_hostname :: "string option"
  sc_smtp_hostname :: string
  sc_open_timeout :: nat
  sc_read_timeout :: nat
  sc_data_timeout :: nat

definition sender_new :: "sender_config \<Rightarrow> smtp_sender" where
  "sender_new config =
     (let relay_tls_mode =
        from_verify_mode (sc_openssl_verify_mode config)
          (sc_enable_starttls config \<or> sc_enable_starttls_auto config)
      in \<lparr>ss_relays = List.map_filter (\<lambda>relay. parse_relay relay relay_tls_mode) (sc_smtp_relays config),
          ss_helo_hostname = (case sc_helo_hostname config of Some h \<Rightarrow> h | None \<Rightarrow> sc_smtp_hostname config),
          ss_timeout = sc_open_timeout config, ss_read_timeout = sc_read_timeout config,
          ss_data_timeout = sc_data_timeout config\<rparr>)"

text \<open>DNS and IDNA: the MX records with their preference, absent when the look-up fails.\<close>

record mx_env =
  me_mx :: "string \<Rightarrow> (nat \<times> string) list option"
  me_to_ascii :: "string \<Rightarrow> string option"

definition to_ascii_domain :: "mx_env \<Rightarrow> string \<Rightarrow> string" where
  "to_ascii_domain me domain = (case me_to_ascii me domain of Some d \<Rightarrow> d | None \<Rightarrow> domain)"

definition implicit_mx :: "string \<Rightarrow> endpoint" where
  "implicit_mx domain = endpoint_mx domain"

definition resolve_endpoints :: "mx_env \<Rightarrow> smtp_sender \<Rightarrow> string \<Rightarrow> endpoint list" where
  "resolve_endpoints me s domain0 =
     (if ss_relays s \<noteq> [] then ss_relays s
      else
        (let domain = to_ascii_domain me domain0 in
         case me_mx me (domain @ ''.'') of
           None \<Rightarrow> [implicit_mx domain]
         | Some records \<Rightarrow>
             (let endpoints =
                map (\<lambda>r. endpoint_mx (trim_end_matches (\<lambda>c. c = CHR ''.'') (snd r))) (sort_key fst records)
              in if endpoints = [] then [implicit_mx domain] else endpoints)))"

definition params_for :: "smtp_sender \<Rightarrow> string \<Rightarrow> string \<Rightarrow> ip_addr option \<Rightarrow> endpoint \<Rightarrow> send_params" where
  "params_for s mail_from rcpt source_ip e =
     \<lparr>sp_host = ep_host e, sp_port = ep_port e, sp_helo_hostname = ss_helo_hostname s, sp_mail_from = mail_from,
      sp_rcpt_to = rcpt, sp_timeout = ss_timeout s, sp_read_timeout = ss_read_timeout s,
      sp_data_timeout = ss_data_timeout s, sp_tls_mode = ep_tls_mode e, sp_security = ep_security e,
      sp_auth = ep_auth e, sp_source_ip = source_ip\<rparr>"

definition is_soft :: "send_outcome \<Rightarrow> bool" where
  "is_soft out = (case out of SoftFail _ \<Rightarrow> True | _ \<Rightarrow> False)"

text \<open>
  The loop over the endpoints. Each endpoint meets network environments of its own,
  one for each of the two possible attempts. The result has the connections made.
\<close>

fun send_endpoints :: "(endpoint \<Rightarrow> attempt_env \<times> attempt_env) \<Rightarrow> (endpoint \<Rightarrow> send_params) \<Rightarrow> bytes
    \<Rightarrow> send_outcome \<Rightarrow> endpoint list \<Rightarrow> (send_outcome \<times> (endpoint \<times> connection list) list) rust" where
  "send_endpoints net params raw last_outcome [] = Inr (last_outcome, [])"
| "send_endpoints net params raw last_outcome (e # es) =
     bind_rust (send_message (fst (net e)) (snd (net e)) (params e) raw) (\<lambda>(out, cs).
       if is_soft out then
         bind_rust (send_endpoints net params raw out es) (\<lambda>(out', tr). Inr (out', (e, cs) # tr))
       else Inr (out, [(e, cs)]))"

definition sender_send :: "(endpoint \<Rightarrow> attempt_env \<times> attempt_env) \<Rightarrow> mx_env \<Rightarrow> smtp_sender \<Rightarrow> string \<Rightarrow> string
    \<Rightarrow> string \<Rightarrow> bytes \<Rightarrow> ip_addr option \<Rightarrow> (send_outcome \<times> (endpoint \<times> connection list) list) rust" where
  "sender_send net me s domain mail_from rcpt raw source_ip =
     send_endpoints net (params_for s mail_from rcpt source_ip) raw
       (SoftFail (''no delivery endpoints for '' @ domain)) (resolve_endpoints me s domain)"

section \<open>The walk\<close>

lemma send_endpoints_walk:
  "\<exists>out tr. send_endpoints net params raw l es = Inr (out, tr)
     \<and> prefix (map fst tr) es \<and> (es \<noteq> [] \<longrightarrow> tr \<noteq> [])
     \<and> (is_soft out \<longrightarrow> map fst tr = es \<or> es = [])
     \<and> (es = [] \<longrightarrow> out = l)
     \<and> (\<forall>e cs. (e, cs) \<in> set tr \<longrightarrow>
          (\<exists>out'. send_message (fst (net e)) (snd (net e)) (params e) raw = Inr (out', cs)
             \<and> (is_soft out' \<or> out' = out)))"
proof (induction es arbitrary: l)
  case (Cons e es)
  obtain out cs where s: "send_message (fst (net e)) (snd (net e)) (params e) raw = Inr (out, cs)"
    using send_message_returns by blast
  show ?case
  proof (cases "is_soft out")
    case True
    from Cons [of out] obtain out2 tr where tr: "send_endpoints net params raw out es = Inr (out2, tr)"
      "prefix (map fst tr) es" "is_soft out2 \<longrightarrow> map fst tr = es \<or> es = []" "es = [] \<longrightarrow> out2 = out"
      "\<forall>e cs. (e, cs) \<in> set tr \<longrightarrow> (\<exists>out'. send_message (fst (net e)) (snd (net e)) (params e) raw = Inr (out', cs)
             \<and> (is_soft out' \<or> out' = out2))" by blast
    then show ?thesis
      using s True by (intro exI [of _ out2] exI [of _ "(e, cs) # tr"]) auto
  next
    case False
    then show ?thesis using s by (intro exI [of _ out] exI [of _ "[(e, cs)]"]) auto
  qed
qed simp

lemma resolve_endpoints_nonempty: "resolve_endpoints me s domain \<noteq> []"
  by (simp add: resolve_endpoints_def Let_def split: option.split)

text \<open>
  Delivery tries the endpoints in order until one decides: there is always at
  least one endpoint, the attempts form an initial segment of the endpoint list
  (configured relays in their order, otherwise the MX hosts by ascending preference,
  otherwise the domain itself), every attempt but the last ended in a temporary
  failure, and the result is temporary only when every endpoint was tried.
\<close>

theorem sender_walk:
  "(\<exists>out tr. sender_send net me s domain mail_from rcpt raw src = Inr (out, tr)
     \<and> tr \<noteq> [] \<and> prefix (map fst tr) (resolve_endpoints me s domain)
     \<and> (\<not> is_soft out \<or> map fst tr = resolve_endpoints me s domain)
     \<and> (\<forall>e cs. (e, cs) \<in> set tr \<longrightarrow>
          (\<exists>out'. send_message (fst (net e)) (snd (net e)) (params_for s mail_from rcpt src e) raw = Inr (out', cs)
             \<and> (is_soft out' \<or> out' = out))))
   \<and> (\<forall>records. ss_relays s = [] \<and> me_mx me (to_ascii_domain me domain @ ''.'') = Some records \<and> records \<noteq> [] \<longrightarrow>
          (\<exists>rs. mset rs = mset records \<and> sorted (map fst rs)
             \<and> resolve_endpoints me s domain
               = map (\<lambda>r. endpoint_mx (trim_end_matches (\<lambda>c. c = CHR ''.'') (snd r))) rs))"
proof -
  have order: "\<exists>rs. mset rs = mset records \<and> sorted (map fst rs)
      \<and> resolve_endpoints me s domain = map (\<lambda>r. endpoint_mx (trim_end_matches (\<lambda>c. c = CHR ''.'') (snd r))) rs"
    if "ss_relays s = []" "me_mx me (to_ascii_domain me domain @ ''.'') = Some records" "records \<noteq> []" for records
  proof (intro exI [of _ "sort_key fst records"] conjI)
    have "sort_key fst records \<noteq> []" using that(3) by (metis length_sort length_0_conv)
    then show "resolve_endpoints me s domain
      = map (\<lambda>r. endpoint_mx (trim_end_matches (\<lambda>c. c = CHR ''.'') (snd r))) (sort_key fst records)"
      using that by (simp add: resolve_endpoints_def)
  qed simp_all
  then show ?thesis
    using send_endpoints_walk [of net "params_for s mail_from rcpt src" raw
        "SoftFail (''no delivery endpoints for '' @ domain)" "resolve_endpoints me s domain"]
      resolve_endpoints_nonempty [of me s domain]
    unfolding sender_send_def by blast
qed

section \<open>Relays and TLS\<close>

lemma parse_relay_security:
  assumes "parse_relay relay mode = Some e" "prefix ''smtps://'' relay \<or> ep_port e = 587"
  shows "ep_security e \<noteq> Opportunistic"
proof -
  have "relay_scheme relay = Some (rest, False) \<Longrightarrow> \<not> prefix ''smtps://'' relay" for rest
    by (auto simp: relay_scheme_def strip_prefix_def split: option.splits if_splits)
  with assms show ?thesis
    by (auto simp: parse_relay_def relay_security_def Let_def split: option.splits prod.splits if_splits)
qed

text \<open>
  C26. A submission relay never sees plain text: when a configured relay URL is
  \<open>smtps://\<close> or names port 587, then whatever the network does, a delivery through it
  writes nothing outside TLS but the greeting and the STARTTLS command; the user
  name and password of the URL in particular stay inside TLS.
\<close>

theorem relay_credentials_protected:
  assumes "parse_relay relay mode = Some e" "prefix ''smtps://'' relay \<or> ep_port e = 587"
  shows "\<exists>out tr. sender_send net me s domain mail_from rcpt raw src = Inr (out, tr)
    \<and> list_all (\<lambda>(e', cs). e' = e \<longrightarrow>
        list_all (\<lambda>c. list_all (\<lambda>(secure, w). secure \<or> w \<in> WireLine ` plain_commands (params_for s mail_from rcpt src e))
          (cn_written c)) cs) tr"
proof -
  let ?p = "params_for s mail_from rcpt src"
  obtain out tr where r: "sender_send net me s domain mail_from rcpt raw src = Inr (out, tr)"
    and t: "\<forall>e cs. (e, cs) \<in> set tr \<longrightarrow> (\<exists>out'. send_message (fst (net e)) (snd (net e)) (?p e) raw = Inr (out', cs)
       \<and> (is_soft out' \<or> out' = out))"
    using send_endpoints_walk [of net ?p raw "SoftFail (''no delivery endpoints for '' @ domain)" "resolve_endpoints me s domain"]
    unfolding sender_send_def by blast
  have tls: "sp_security (?p e) \<noteq> Opportunistic"
    using parse_relay_security [OF assms] by (simp add: params_for_def)
  have "secure \<or> w \<in> WireLine ` plain_commands (?p e)"
    if "(e, cs) \<in> set tr" "c \<in> set cs" "(secure, w) \<in> set (cn_written c)" for cs c secure w
  proof -
    from t that(1) obtain out' where "send_message (fst (net e)) (snd (net e)) (?p e) raw = Inr (out', cs)" by blast
    with send_message_writes [of "fst (net e)" "snd (net e)" "?p e" raw] that(2,3) tls show ?thesis by auto
  qed
  then show ?thesis using r by (intro exI [of _ out] exI [of _ tr]) (auto simp: list_all_iff)
qed

definition demo_relay :: string where
  "demo_relay = ''smtp://u:p@mx.io:587''"

definition demo_endpoint :: endpoint where
  "demo_endpoint = \<lparr>ep_host = ''mx.io'', ep_port = 587, ep_security = RequireStartTls, ep_tls_mode = TlsVerify,
     ep_auth = Some \<lparr>sa_username = ''u'', sa_password = ''p''\<rparr>\<rparr>"

lemma demo_relay_parses: "parse_relay demo_relay TlsVerify = Some demo_endpoint"
  by (simp add: demo_relay_def demo_endpoint_def parse_relay_def relay_scheme_def relay_auth_def relay_host_port_def
      relay_security_def percent_decode_def parse_u16_def digits_value_def search_eval ascii_eval Let_def)

definition demo_sender :: smtp_sender where
  "demo_sender = \<lparr>ss_relays = [demo_endpoint], ss_helo_hostname = ''me.io'', ss_timeout = 10, ss_read_timeout = 300,
     ss_data_timeout = 600\<rparr>"

definition demo_mx :: mx_env where
  "demo_mx = \<lparr>me_mx = (\<lambda>d. Some [(20, ''b.''), (10, ''a.'')]), me_to_ascii = Some\<rparr>"

definition demo_net :: "endpoint \<Rightarrow> attempt_env \<times> attempt_env" where
  "demo_net e = (demo_attempt ''354 go'', demo_attempt ''354 go'')"

theorem relay_credentials_protected_witness:
  "\<exists>out tr. sender_send demo_net demo_mx demo_sender ''mx.io'' ''a@x'' ''b@y'' ''hi'' None = Inr (out, tr)
    \<and> list_all (\<lambda>(e', cs). e' = demo_endpoint \<longrightarrow>
        list_all (\<lambda>c. list_all (\<lambda>(secure, w).
            secure \<or> w \<in> WireLine ` plain_commands (params_for demo_sender ''a@x'' ''b@y'' None demo_endpoint))
          (cn_written c)) cs) tr"
  by (rule relay_credentials_protected [OF demo_relay_parses]) (simp add: demo_endpoint_def)

theorem sender_walk_witness:
  "\<exists>rs :: (nat \<times> string) list. sorted (map fst rs)
     \<and> resolve_endpoints demo_mx (demo_sender\<lparr>ss_relays := []\<rparr>) ''x''
       = map (\<lambda>r. endpoint_mx (trim_end_matches (\<lambda>c. c = CHR ''.'') (snd r))) rs"
proof -
  have "ss_relays (demo_sender\<lparr>ss_relays := []\<rparr>) = []"
    "me_mx demo_mx (to_ascii_domain demo_mx ''x'' @ ''.'') = Some [(20, ''b.''), (10, ''a.'')]"
    "[(20, ''b.''), (10, ''a.'')] \<noteq> ([] :: (nat \<times> string) list)"
    by (simp_all add: demo_mx_def)
  with sender_walk [of demo_net demo_mx "demo_sender\<lparr>ss_relays := []\<rparr>" "''x''" "''a''" "''b''" "''m''" None]
  show ?thesis by blast
qed

section \<open>Reading relay URLs\<close>

definition encode_byte :: "char \<Rightarrow> string" where
  "encode_byte c =
     (if is_ascii_alnum c then [c]
      else [CHR ''%'', hex_digit (byte c div 16), hex_digit (byte c mod 16)])"

definition percent_encode :: "string \<Rightarrow> string" where
  "percent_encode s = concat (map encode_byte s)"

definition print_relay :: "bool \<Rightarrow> string \<Rightarrow> string \<Rightarrow> string \<Rightarrow> nat \<Rightarrow> string" where
  "print_relay implicit_tls user pass host port =
     (if implicit_tls then ''smtps://'' else ''smtp://'') @ percent_encode user @ '':'' @ percent_encode pass
     @ ''@'' @ host @ '':'' @ show_nat port"

lemma percent_bytes_other: "c \<noteq> CHR ''%'' \<Longrightarrow> percent_bytes (c # s) = c # percent_bytes s"
  by (cases s; cases "tl s") auto

lemma percent_bytes_encode: "percent_bytes (percent_encode s @ t) = s @ percent_bytes t"
proof (induction s)
  case (Cons c s)
  show ?case
  proof (cases "is_ascii_alnum c")
    case True
    then have "c \<noteq> CHR ''%''" by (auto simp: ascii_eval)
    with True Cons show ?thesis by (simp add: percent_encode_def encode_byte_def percent_bytes_other)
  next
    case False
    with Cons parse_hex2_byte show ?thesis by (simp add: percent_encode_def encode_byte_def)
  qed
qed (simp add: percent_encode_def)

lemma percent_decode_encode: "utf8_valid s \<Longrightarrow> percent_decode (percent_encode s) = s"
  using percent_bytes_encode [of s "[]"] by (simp add: percent_decode_def utf8_lossy_valid)

lemma parse_u16_show: "n < 65536 \<Longrightarrow> parse_u16 (show_nat n) = Some n"
proof -
  assume n: "n < 65536"
  have "\<not> prefix ''+'' (show_nat n)"
    using show_nat_digits [of n] by (cases "show_nat n") (auto simp: is_ascii_digit_def)
  with n show_nat_digits [of n] show ?thesis by (simp add: parse_u16_def digits_value_show)
qed

lemma rfind_char_last: "c \<notin> set y \<Longrightarrow> rfind_char c (x @ c # y) = Some (length x)"
proof (induction x)
  case Nil
  then have "rfind_char c y = None" by (induction y) auto
  then show ?case by simp
qed simp

lemma rsplit_once_last: "c \<notin> set y \<Longrightarrow> rsplit_once c (x @ c # y) = Some (x, y)"
  by (simp add: rsplit_once_def rfind_char_last)

definition relay_char :: "char \<Rightarrow> bool" where
  "relay_char c \<longleftrightarrow> is_ascii_alnum c \<or> c = CHR ''%'' \<or> c = CHR ''-'' \<or> c = CHR ''.''"

lemma relay_char_other: "relay_char c \<Longrightarrow> c \<notin> {CHR ''/'', CHR ''?'', CHR ''@'', CHR '':''}"
  by (auto simp: relay_char_def ascii_eval)

lemma hex_digit_alnum: "d < 16 \<Longrightarrow> is_ascii_alnum (hex_digit d)"
  by (auto simp: hex_digit_def is_ascii_alnum_def is_ascii_digit_def is_ascii_lower_def)

lemma percent_encode_chars: "list_all relay_char (percent_encode s)"
proof (induction s)
  case (Cons c s)
  then show ?case
    by (auto simp: percent_encode_def encode_byte_def relay_char_def hex_digit_alnum)
qed (simp add: percent_encode_def)

lemma show_nat_chars: "list_all relay_char (show_nat n)"
  using show_nat_digits [of n] by (auto simp: list_all_iff relay_char_def is_ascii_alnum_def)

lemma relay_chars_notin:
  assumes "list_all relay_char s"
  shows "CHR ''/'' \<notin> set s" "CHR ''?'' \<notin> set s" "CHR ''@'' \<notin> set s" "CHR '':'' \<notin> set s"
  using assms relay_char_other by (auto simp: list_all_iff)

text \<open>
  Relay URLs are read back as they were written: a URL printed from a scheme, a
  user name, a password, a host and a port, with every byte of the credentials that
  is not a letter or a digit percent-encoded, parses to the endpoint with exactly
  these parts, whatever characters the credentials contain.
\<close>

theorem relay_url_roundtrip:
  assumes "utf8_valid user" "utf8_valid pass" "list_all relay_char host" "port < 65536"
  shows "parse_relay (print_relay implicit_tls user pass host port) mode
    = Some \<lparr>ep_host = host, ep_port = port, ep_security = relay_security implicit_tls port, ep_tls_mode = mode,
            ep_auth = Some \<lparr>sa_username = user, sa_password = pass\<rparr>\<rparr>"
proof -
  let ?u = "percent_encode user @ '':'' @ percent_encode pass" and ?h = "host @ '':'' @ show_nat port"
  note pc = relay_chars_notin [OF percent_encode_chars] and sc = relay_chars_notin [OF show_nat_chars]
    and hc = relay_chars_notin [OF assms(3)]
  have scheme: "relay_scheme (print_relay implicit_tls user pass host port) = Some (?u @ CHR ''@'' # ?h, implicit_tls)"
    by (simp add: relay_scheme_def print_relay_def strip_prefix_def)
  have whole: "takeWhile (\<lambda>c. c \<noteq> CHR ''/'' \<and> c \<noteq> CHR ''?'') (?u @ CHR ''@'' # ?h) = ?u @ CHR ''@'' # ?h"
    using pc sc hc by (intro takeWhile_eq_all_conv [THEN iffD2]) auto
  have auth: "relay_auth (?u @ CHR ''@'' # ?h) = Some (Some \<lparr>sa_username = user, sa_password = pass\<rparr>, ?h)"
  proof -
    have "CHR ''@'' \<notin> set ?h" using hc sc by auto
    from rsplit_once_last [OF this, of ?u] split_once_first [OF pc(4), of user "percent_encode pass"] show ?thesis
      by (simp add: relay_auth_def percent_decode_encode assms(1,2))
  qed
  have "relay_host_port implicit_tls ?h = Some (host, port)"
    using rsplit_once_last [OF sc(4), of host port] by (simp add: relay_host_port_def parse_u16_show [OF assms(4)])
  with scheme whole auth show ?thesis by (simp add: parse_relay_def Let_def del: takeWhile_eq_all_conv)
qed

theorem relay_url_roundtrip_witness:
  "parse_relay (print_relay False ''u'' ''p@/:'' ''mx.io'' 587) TlsVerify
    = Some \<lparr>ep_host = ''mx.io'', ep_port = 587, ep_security = RequireStartTls, ep_tls_mode = TlsVerify,
            ep_auth = Some \<lparr>sa_username = ''u'', sa_password = ''p@/:''\<rparr>\<rparr>"
  using relay_url_roundtrip [of "''u''" "''p@/:''" "''mx.io''" 587 False TlsVerify]
  by (simp add: utf8_chunk_ascii relay_char_def ascii_eval relay_security_def)
end
