(* ===== verification/Lease_Queue.thy ===== *)
theory Lease_Queue
  imports Mail_Model "HOL-Library.Product_Lexorder" "HOL-Library.Option_ord"
begin

text \<open>
  The locking scheme the delivery queue, the webhook queue and the lifecycle
  outbox share (\<open>db/queue.rs\<close>, \<open>db/webhook_queue.rs\<close>, \<open>db/lifecycle_queue.rs\<close>).
  A table is the list of its rows; each SQL statement is one function on it,
  which is atomic, as a statement is a transaction of its own. \<open>now()\<close> is the
  argument \<open>now\<close>. Timestamps are in UTC, so a day is 24 hours.

  The abstract specification is a set of leases: a task can be handed out from a
  certain time on, handing it out moves that time past the lease period, and
  nothing else is promised. The step relation of the specification, its
  mutual exclusion theorem, and the locale \<open>lease_table\<close>, in which the theorem is
  carried over to every table that simulates the specification, are here; each
  queue interprets the locale.
\<close>

section \<open>Rows\<close>

definition minute :: int where
  "minute = 60 * 10 ^ 9"

definition day :: int where
  "day = 86400 * 10 ^ 9"

text \<open>The columns the scheme is about; each table extends the record with its own.\<close>

record lease_row =
  lr_id :: nat
  lr_attempts :: int
  lr_locked_by :: "string option"
  lr_locked_at :: "instant option"
  lr_retry_after :: "instant option"

definition lock_stale :: "int \<Rightarrow> instant \<Rightarrow> 'a lease_row_scheme \<Rightarrow> bool" where
  "lock_stale days now r = (case lr_locked_at r of None \<Rightarrow> False | Some t \<Rightarrow> t < now - days * day)"

definition row_ready :: "int \<Rightarrow> instant \<Rightarrow> 'a lease_row_scheme \<Rightarrow> bool" where
  "row_ready days now r \<longleftrightarrow>
     (lr_locked_by r = None \<or> lock_stale days now r)
     \<and> (case lr_retry_after r of None \<Rightarrow> True | Some t \<Rightarrow> t \<le> now)"

definition lock_row :: "string \<Rightarrow> instant \<Rightarrow> 'a lease_row_scheme \<Rightarrow> 'a lease_row_scheme" where
  "lock_row worker now r = r\<lparr>lr_locked_by := Some worker, lr_locked_at := Some now\<rparr>"

definition update_id :: "nat \<Rightarrow> ('a lease_row_scheme \<Rightarrow> 'a lease_row_scheme) \<Rightarrow> 'a lease_row_scheme list
    \<Rightarrow> 'a lease_row_scheme list" where
  "update_id i f rows = map (\<lambda>r. if lr_id r = i then f r else r) rows"

definition delete_id :: "nat \<Rightarrow> 'a lease_row_scheme list \<Rightarrow> 'a lease_row_scheme list" where
  "delete_id i rows = filter (\<lambda>r. lr_id r \<noteq> i) rows"

text \<open>
  \<open>UPDATE ... SET locked_by, locked_at WHERE id = (SELECT id ... ORDER BY key LIMIT 1
  FOR UPDATE SKIP LOCKED) RETURNING *\<close>: the least row that qualifies is locked and
  returned as updated. Rows another transaction holds do not qualify.
\<close>

definition lock_first :: "('a lease_row_scheme \<Rightarrow> 'k::linorder) \<Rightarrow> ('a lease_row_scheme \<Rightarrow> bool) \<Rightarrow> string
    \<Rightarrow> instant \<Rightarrow> 'a lease_row_scheme list \<Rightarrow> 'a lease_row_scheme option \<times> 'a lease_row_scheme list" where
  "lock_first key p worker now rows =
     (case sort_key key (filter p rows) of
        [] \<Rightarrow> (None, rows)
      | r # _ \<Rightarrow> (Some (lock_row worker now r), update_id (lr_id r) (lock_row worker now) rows))"

definition retry_delay_minutes :: "int \<Rightarrow> int" where
  "retry_delay_minutes attempts = 2 ^ nat (max 0 (min attempts 10))"

definition reschedule :: "int \<Rightarrow> instant \<Rightarrow> 'a lease_row_scheme \<Rightarrow> 'a lease_row_scheme" where
  "reschedule attempts now r =
     r\<lparr>lr_locked_by := None, lr_locked_at := None, lr_attempts := lr_attempts r + 1,
       lr_retry_after := Some (now + retry_delay_minutes attempts * minute)\<rparr>"

section \<open>The specification\<close>

text \<open>A task: how often it was rescheduled, and from when on it can be handed out (\<open>None\<close>: at once).\<close>

record lease =
  le_attempts :: int
  le_from :: "instant option"

type_synonym leases = "nat \<rightharpoonup> lease"

definition available :: "instant \<Rightarrow> lease \<Rightarrow> bool" where
  "available now l \<longleftrightarrow> le_from l \<le> Some now"

datatype lease_event =
    Add nat
  | Lease nat instant
  | Finish nat
  | Again nat int instant
  | Other

inductive lease_step :: "int \<Rightarrow> lease_event \<Rightarrow> leases \<Rightarrow> leases \<Rightarrow> bool" for days :: int where
  add: "q i = None \<Longrightarrow> lease_step days (Add i) q (q(i \<mapsto> \<lparr>le_attempts = 0, le_from = None\<rparr>))"
| lease: "q i = Some l \<Longrightarrow> available now l \<Longrightarrow>
    lease_step days (Lease i now) q (q(i \<mapsto> l\<lparr>le_from := Some (now + days * day + 1)\<rparr>))"
| finish: "lease_step days (Finish i) q (q(i := None))"
| again: "lease_step days (Again i attempts now) q
    (q(i := map_option (\<lambda>l. \<lparr>le_attempts = le_attempts l + 1,
                               le_from = Some (now + retry_delay_minutes attempts * minute)\<rparr>) (q i)))"
| other: "lease_step days Other q q"

inductive_cases lease_stepE [elim]:
  "lease_step days (Lease i now) q q'"
  "lease_step days (Again i a now) q q'"
  "lease_step days (Finish i) q q'"
  "lease_step days (Add i) q q'"
  "lease_step days Other q q'"

text \<open>Runs of any step relation, with their events.\<close>

inductive run :: "('e \<Rightarrow> 's \<Rightarrow> 's \<Rightarrow> bool) \<Rightarrow> 'e list \<Rightarrow> 's \<Rightarrow> 's \<Rightarrow> bool" for step where
  run_Nil: "run step [] s s"
| run_Cons: "step e s s' \<Longrightarrow> run step es s' s'' \<Longrightarrow> run step (e # es) s s''"

inductive_simps run_simps [simp]: "run step [] s s''" "run step (e # es) s s''"

lemma run_append: "run step (es @ fs) s s'' \<longleftrightarrow> (\<exists>s'. run step es s s' \<and> run step fs s' s'')"
  by (induction es arbitrary: s) (simp, simp, blast)

text \<open>A task that is leased stays out of reach until the lease ends, unless it is given back.\<close>

definition reserved :: "nat \<Rightarrow> instant \<Rightarrow> leases \<Rightarrow> bool" where
  "reserved i t q \<longleftrightarrow> (\<exists>l. q i = Some l \<and> Some t \<le> le_from l)"

definition gives_back :: "nat \<Rightarrow> lease_event \<Rightarrow> bool" where
  "gives_back i e \<longleftrightarrow> e = Finish i \<or> (\<exists>a now. e = Again i a now)"

lemma reserved_step:
  assumes "lease_step days e q q'" "reserved i t q" "\<not> gives_back i e" "0 \<le> days"
  shows "reserved i t q'"
  using assms
proof (cases rule: lease_step.cases)
  case (lease j l now)
  have "0 \<le> days * day" using assms(4) by (simp add: day_def)
  moreover have "Some t \<le> le_from l \<Longrightarrow> t \<le> now"
    using lease(4) order.trans [of "Some t" "le_from l" "Some now"] by (simp add: available_def)
  ultimately show ?thesis
    using lease assms(2) by (cases "j = i") (auto simp: reserved_def)
qed (auto simp: reserved_def gives_back_def)

lemma reserved_run:
  assumes "run (lease_step days) es q q'" "reserved i t q" "\<forall>e \<in> set es. \<not> gives_back i e" "0 \<le> days"
  shows "reserved i t q'"
  using assms by (induction rule: run.induct) (auto dest: reserved_step)

text \<open>Mutual exclusion of the specification.\<close>

lemma lease_exclusive:
  assumes r: "run (lease_step days) (xs @ Lease i t # ys @ Lease i t' # zs) q q'"
    and kept: "\<forall>e \<in> set ys. \<not> gives_back i e" and days: "0 \<le> days"
  shows "t + days * day < t'"
proof -
  from r obtain q1 q2 q3 q4 where
    s: "lease_step days (Lease i t) q1 q2" "run (lease_step days) ys q2 q3" "lease_step days (Lease i t') q3 q4"
    by (auto simp: run_append)
  have "reserved i (t + days * day + 1) q2" using s(1) by (auto simp: reserved_def)
  with reserved_run [OF s(2)] kept days have "reserved i (t + days * day + 1) q3" by blast
  then obtain l where l: "q3 i = Some l" "Some (t + days * day + 1) \<le> le_from l"
    by (auto simp: reserved_def)
  with s(3) have "le_from l \<le> Some t'" by (auto simp: available_def)
  with l(2) have "Some (t + days * day + 1) \<le> Some t'" by (rule order.trans)
  then show ?thesis by simp
qed

section \<open>Tables that implement the specification\<close>

locale lease_table =
  fixes step :: "lease_event \<Rightarrow> 's \<Rightarrow> 's \<Rightarrow> bool"
    and abs :: "'s \<Rightarrow> leases"
    and inv :: "'s \<Rightarrow> bool"
    and days :: int
  assumes days_pos: "0 \<le> days"
    and sim: "inv s \<Longrightarrow> step e s s' \<Longrightarrow> inv s' \<and> lease_step days e (abs s) (abs s')"
begin

lemma run_sim: "run step es s s' \<Longrightarrow> inv s \<Longrightarrow> inv s' \<and> run (lease_step days) es (abs s) (abs s')"
proof (induction rule: run.induct)
  case (run_Cons e s s' es s'')
  from sim [OF run_Cons.prems run_Cons.hyps(1)] run_Cons.IH show ?case by auto
qed simp

lemma exclusive:
  assumes "run step (xs @ Lease i t # ys @ Lease i t' # zs) s s'" "inv s"
    "\<forall>e \<in> set ys. \<not> gives_back i e"
  shows "t + days * day < t'"
  using run_sim [OF assms(1,2)] assms(3) days_pos by (blast intro: lease_exclusive)

end

text \<open>The abstraction of a table: the later of the two times that hold a row back.\<close>

definition row_lease :: "int \<Rightarrow> 'a lease_row_scheme \<Rightarrow> lease" where
  "row_lease days r =
     \<lparr>le_attempts = lr_attempts r,
      le_from = max (lr_retry_after r)
        (if lr_locked_by r = None then None else map_option (\<lambda>t. t + days * day + 1) (lr_locked_at r))\<rparr>"

definition leases_of :: "int \<Rightarrow> 'a lease_row_scheme list \<Rightarrow> leases" where
  "leases_of days rows = map_of (map (\<lambda>r. (lr_id r, row_lease days r)) rows)"

definition wf_row :: "'a lease_row_scheme \<Rightarrow> bool" where
  "wf_row r \<longleftrightarrow> (lr_locked_by r \<noteq> None \<longrightarrow> lr_locked_at r \<noteq> None)"

definition wf_rows :: "'a lease_row_scheme list \<Rightarrow> bool" where
  "wf_rows rows \<longleftrightarrow> distinct (map lr_id rows) \<and> list_all wf_row rows"

lemma wf_row_ready: "wf_row r \<Longrightarrow> row_ready days now r \<longleftrightarrow> available now (row_lease days r)"
  by (auto simp: wf_row_def row_ready_def available_def row_lease_def lock_stale_def split: option.splits)

lemma lock_row_sel [simp]: "lr_id (lock_row w now r) = lr_id r" "wf_row (lock_row w now r)"
  by (simp_all add: lock_row_def wf_row_def)

lemma reschedule_sel [simp]: "lr_id (reschedule a now r) = lr_id r" "wf_row (reschedule a now r)"
  by (simp_all add: reschedule_def wf_row_def)

lemma row_lease_lock:
  assumes "available now (row_lease days r)" "0 \<le> days"
  shows "row_lease days (lock_row w now r) = (row_lease days r)\<lparr>le_from := Some (now + days * day + 1)\<rparr>"
proof -
  have "0 \<le> days * day" using assms(2) by (simp add: day_def)
  moreover have "lr_retry_after r \<le> Some now" using assms(1) by (simp add: available_def row_lease_def)
  ultimately have "lr_retry_after r \<le> Some (now + days * day + 1)"
    by (cases "lr_retry_after r") auto
  then show ?thesis by (simp add: row_lease_def lock_row_def max_def)
qed

lemma row_lease_reschedule [simp]:
  "row_lease days (reschedule a now r)
   = \<lparr>le_attempts = le_attempts (row_lease days r) + 1, le_from = Some (now + retry_delay_minutes a * minute)\<rparr>"
  by (simp add: row_lease_def reschedule_def max_def)

lemma leases_of_Some:
  "wf_rows rows \<Longrightarrow> r \<in> set rows \<Longrightarrow> leases_of days rows (lr_id r) = Some (row_lease days r)"
  by (auto simp: leases_of_def wf_rows_def o_def intro!: map_of_is_SomeI)

lemma leases_of_Cons [simp]:
  "leases_of days (r # rows) = (leases_of days rows)(lr_id r \<mapsto> row_lease days r)"
  by (simp add: leases_of_def)

lemma leases_of_Nil [simp]: "leases_of days [] = Map.empty"
  by (simp add: leases_of_def)

lemma leases_of_None: "i \<notin> lr_id ` set rows \<Longrightarrow> leases_of days rows i = None"
  by (induction rows) auto

lemma leases_of_update:
  assumes "wf_rows rows" "\<And>r. lr_id (f r) = lr_id r"
    and "\<And>r. r \<in> set rows \<Longrightarrow> lr_id r = i \<Longrightarrow> row_lease days (f r) = g (row_lease days r)"
  shows "leases_of days (update_id i f rows) = (leases_of days rows)(i := map_option g (leases_of days rows i))"
  using assms
proof (induction rows)
  case (Cons r rows)
  have tail: "leases_of days (update_id i f rows) = (leases_of days rows)(i := map_option g (leases_of days rows i))"
    using Cons by (auto simp: wf_rows_def)
  have "lr_id r \<notin> lr_id ` set rows" using Cons.prems(1) by (simp add: wf_rows_def)
  then have none: "leases_of days rows (lr_id r) = None" by (rule leases_of_None)
  show ?case
  proof (cases "lr_id r = i")
    case True
    with none tail Cons.prems(2,3) show ?thesis by (auto simp: update_id_def fun_eq_iff)
  next
    case False
    with tail show ?thesis by (auto simp: update_id_def fun_eq_iff)
  qed
qed (simp add: update_id_def fun_eq_iff)

lemma leases_of_delete: "leases_of days (delete_id i rows) = (leases_of days rows)(i := None)"
  by (induction rows) (auto simp: delete_id_def fun_eq_iff)

lemma wf_rows_update:
  assumes "wf_rows rows" "\<And>r. lr_id (f r) = lr_id r" "\<And>r. wf_row (f r)"
  shows "wf_rows (update_id i f rows)"
proof -
  have "map lr_id (update_id i f rows) = map lr_id rows"
    by (simp add: update_id_def assms(2))
  moreover have "list_all wf_row (update_id i f rows)"
    using assms(1,3) by (auto simp: wf_rows_def update_id_def list_all_iff)
  ultimately show ?thesis using assms(1) by (simp add: wf_rows_def)
qed

lemma wf_rows_delete: "wf_rows rows \<Longrightarrow> wf_rows (delete_id i rows)"
  by (auto simp: wf_rows_def delete_id_def list_all_iff distinct_map_filter)

text \<open>The statements simulate the steps of the specification.\<close>

lemma lock_first_SomeD:
  assumes "lock_first key p w now rows = (Some r', rows')"
  obtains r where "r \<in> set rows" "p r" "r' = lock_row w now r" "rows' = update_id (lr_id r) (lock_row w now) rows"
    "\<forall>x \<in> set rows. p x \<longrightarrow> key r \<le> key x"
proof -
  obtain r rs where s: "sort_key key (filter p rows) = r # rs"
    using assms by (cases "sort_key key (filter p rows)") (auto simp: lock_first_def)
  have mem: "set (r # rs) = {x \<in> set rows. p x}" by (simp flip: s)
  have "sorted (map key (r # rs))" by (metis s sorted_sort_key)
  with mem have "\<forall>x \<in> set rows. p x \<longrightarrow> key r \<le> key x" by fastforce
  moreover have "r \<in> set rows" "p r" using mem by auto
  ultimately show thesis using that s assms by (auto simp: lock_first_def)
qed

lemma lock_first_NoneD: "lock_first key p w now rows = (None, rows') \<Longrightarrow> rows' = rows \<and> filter p rows = []"
proof -
  assume a: "lock_first key p w now rows = (None, rows')"
  then have "sort_key key (filter p rows) = []" by (auto simp: lock_first_def split: list.splits)
  then have "set (filter p rows) = {}" by (metis set_sort list.set(1))
  with a show ?thesis by (auto simp: lock_first_def split: list.splits)
qed

lemma lock_first_sim:
  assumes l: "lock_first key p w now rows = (Some r', rows')" and wf: "wf_rows rows" and days: "0 \<le> days"
    and p: "\<And>r. p r \<Longrightarrow> row_ready days now r"
  shows "wf_rows rows' \<and> lease_step days (Lease (lr_id r') now) (leases_of days rows) (leases_of days rows')"
proof -
  from l obtain r where r: "r \<in> set rows" "p r" "r' = lock_row w now r" "rows' = update_id (lr_id r) (lock_row w now) rows"
    by (rule lock_first_SomeD)
  have at: "leases_of days rows (lr_id r) = Some (row_lease days r)" by (rule leases_of_Some [OF wf r(1)])
  have "wf_row r" using wf r(1) by (simp add: wf_rows_def list_all_iff)
  then have av: "available now (row_lease days r)" using p [OF r(2)] by (simp add: wf_row_ready)
  have upd: "leases_of days rows' = (leases_of days rows)(lr_id r :=
      map_option (\<lambda>l. l\<lparr>le_from := Some (now + days * day + 1)\<rparr>) (leases_of days rows (lr_id r)))"
    unfolding r(4)
  proof (rule leases_of_update [OF wf])
    fix x assume "x \<in> set rows" "lr_id x = lr_id r"
    with wf r(1) have "x = r" by (auto simp: wf_rows_def distinct_map inj_on_def)
    with av days show "row_lease days (lock_row w now x) = (row_lease days x)\<lparr>le_from := Some (now + days * day + 1)\<rparr>"
      by (simp add: row_lease_lock)
  qed simp
  have "lease_step days (Lease (lr_id r) now) (leases_of days rows) (leases_of days rows')"
    unfolding upd at using lease_step.lease [where q = "leases_of days rows" and i = "lr_id r", OF at av] by simp
  moreover have "wf_rows rows'" unfolding r(4) by (rule wf_rows_update [OF wf]) simp_all
  ultimately show ?thesis by (simp add: r(3))
qed

lemma reschedule_like_sim:
  assumes wf: "wf_rows rows" and f: "\<And>r. lr_id (f r) = lr_id r" "\<And>r. wf_row (f r)"
    "\<And>r. row_lease days (f r) = row_lease days (reschedule a now r)"
  shows "wf_rows (update_id i f rows) \<and> lease_step days (Again i a now) (leases_of days rows) (leases_of days (update_id i f rows))"
proof -
  have "leases_of days (update_id i f rows)
      = (leases_of days rows)(i := map_option (\<lambda>l. \<lparr>le_attempts = le_attempts l + 1,
          le_from = Some (now + retry_delay_minutes a * minute)\<rparr>) (leases_of days rows i))"
    by (rule leases_of_update [OF wf]) (simp_all add: f)
  with lease_step.again [of days i a now "leases_of days rows"] wf_rows_update [OF wf f(1,2)] show ?thesis
    by simp
qed

lemmas reschedule_sim = reschedule_like_sim [where f = "reschedule a now" and a = a and now = now for a now, simplified]

lemma delete_sim:
  "wf_rows rows \<Longrightarrow> wf_rows (delete_id i rows)
    \<and> lease_step days (Finish i) (leases_of days rows) (leases_of days (delete_id i rows))"
  using lease_step.finish [of days i "leases_of days rows"] by (simp add: wf_rows_delete leases_of_delete)

lemma insert_sim:
  assumes "wf_rows rows" "lr_id r \<notin> lr_id ` set rows" "lr_attempts r = 0" "lr_locked_by r = None" "lr_retry_after r = None"
  shows "wf_rows (rows @ [r]) \<and> lease_step days (Add (lr_id r)) (leases_of days rows) (leases_of days (rows @ [r]))"
proof -
  have none: "leases_of days rows (lr_id r) = None" using assms(2) by (rule leases_of_None)
  have "leases_of days (rows @ [r]) = (leases_of days rows)(lr_id r \<mapsto> \<lparr>le_attempts = 0, le_from = None\<rparr>)"
    using none assms(3-5)
    by (auto simp: leases_of_def row_lease_def map_add_def fun_eq_iff split: option.splits)
  with lease_step.add [where q = "leases_of days rows" and i = "lr_id r", OF none] assms show ?thesis by (auto simp: wf_rows_def wf_row_def)
qed

lemma ids_update: "(\<And>r. lr_id (f r) = lr_id r) \<Longrightarrow>
    list_all (\<lambda>r. lr_id r < n) (update_id i f rows) \<longleftrightarrow> list_all (\<lambda>r. lr_id r < n) rows"
  by (induction rows) (auto simp: update_id_def)

lemma ids_of_update: "(\<And>r. lr_id (f r) = lr_id r) \<Longrightarrow> lr_id ` set (update_id i f rows) = lr_id ` set rows"
  by (induction rows) (auto simp: update_id_def)

lemma ids_delete: "list_all (\<lambda>r. lr_id r < n) rows \<Longrightarrow> list_all (\<lambda>r. lr_id r < n) (delete_id i rows)"
  by (auto simp: list_all_iff delete_id_def)

text \<open>
  Tables whose rows are dropped after a bounded number of attempts: what the
  statements keep, given that a row is only rescheduled below the bound.
\<close>

definition attempts_ok :: "int \<Rightarrow> 'a lease_row_scheme \<Rightarrow> bool" where
  "attempts_ok m r \<longleftrightarrow> 0 \<le> lr_attempts r \<and> lr_attempts r < m"

definition table_ok :: "int \<Rightarrow> nat \<Rightarrow> 'a lease_row_scheme list \<Rightarrow> bool" where
  "table_ok m n rows \<longleftrightarrow>
     wf_rows rows \<and> list_all (\<lambda>r. lr_id r < n) rows \<and> list_all (attempts_ok m) rows"

lemma attempts_ok_update:
  assumes "list_all (attempts_ok m) rows" "\<And>r. r \<in> set rows \<Longrightarrow> lr_id r = i \<Longrightarrow> attempts_ok m (f r)"
  shows "list_all (attempts_ok m) (update_id i f rows)"
  using assms by (auto simp: update_id_def list_all_iff)

lemma wf_rows_unique: "wf_rows rows \<Longrightarrow> r \<in> set rows \<Longrightarrow> x \<in> set rows \<Longrightarrow> lr_id x = lr_id r \<Longrightarrow> x = r"
  by (auto simp: wf_rows_def distinct_map dest: inj_onD)

lemma table_ok_lock:
  fixes rows :: "'a lease_row_scheme list"
  assumes "table_ok m n rows" "lock_first key p w now rows = (res, rows')"
  shows "table_ok m n rows'"
proof (cases res)
  case None
  with assms show ?thesis by (auto dest: lock_first_NoneD)
next
  case (Some r)
  from assms(2) [unfolded Some] obtain r0 :: "'a lease_row_scheme" where r0: "rows' = update_id (lr_id r0) (lock_row w now) rows"
    by (rule lock_first_SomeD)
  have "wf_rows rows'" unfolding r0 using assms(1) by (intro wf_rows_update) (simp_all add: table_ok_def)
  moreover have "list_all (attempts_ok m) rows'"
    unfolding r0 using assms(1)
    by (intro attempts_ok_update) (auto simp: table_ok_def attempts_ok_def lock_row_def list_all_iff)
  ultimately show ?thesis using assms(1) by (simp add: table_ok_def r0 ids_update)
qed

lemma table_ok_delete: "table_ok m n rows \<Longrightarrow> table_ok m n (delete_id i rows)"
  by (auto simp: table_ok_def wf_rows_delete ids_delete) (auto simp: delete_id_def list_all_iff)

lemma table_ok_reschedule:
  assumes "table_ok m n rows" "r \<in> set rows" "lr_attempts r + 1 < m"
  shows "table_ok m n (update_id (lr_id r) (reschedule a now) rows)"
proof -
  have "0 \<le> lr_attempts r" using assms(1,2) by (auto simp: table_ok_def attempts_ok_def list_all_iff)
  then have "attempts_ok m (reschedule a now x)" if "x \<in> set rows" "lr_id x = lr_id r" for x
    using wf_rows_unique [OF _ assms(2) that] assms(1,3) by (simp add: table_ok_def attempts_ok_def reschedule_def)
  then have "list_all (attempts_ok m) (update_id (lr_id r) (reschedule a now) rows)"
    using assms(1) by (intro attempts_ok_update) (simp_all add: table_ok_def)
  then show ?thesis using assms(1) by (simp add: table_ok_def ids_update wf_rows_update)
qed

section \<open>Back-off\<close>

lemma retry_delay_bounds:
  "1 \<le> retry_delay_minutes a" "retry_delay_minutes a \<le> 1024"
  "0 \<le> a \<Longrightarrow> a < 10 \<Longrightarrow> retry_delay_minutes (a + 1) = 2 * retry_delay_minutes a"
  "10 \<le> a \<Longrightarrow> retry_delay_minutes a = 1024" "a \<le> 0 \<Longrightarrow> retry_delay_minutes a = 1"
proof -
  show "1 \<le> retry_delay_minutes a" by (simp add: retry_delay_minutes_def)
  have "(2::int) ^ nat (max 0 (min a 10)) \<le> 2 ^ 10" by (rule power_increasing) auto
  then show "retry_delay_minutes a \<le> 1024" by (simp add: retry_delay_minutes_def)
  assume "0 \<le> a" "a < 10"
  then have "nat (max 0 (min (a + 1) 10)) = Suc (nat (max 0 (min a 10)))" by auto
  then show "retry_delay_minutes (a + 1) = 2 * retry_delay_minutes a"
    unfolding retry_delay_minutes_def by (simp only: power_Suc)
qed (simp_all add: retry_delay_minutes_def max_def min_def)

end
