(* ===== verification/Delivery_Queue.thy ===== *)
theory Delivery_Queue
  imports Lease_Queue
begin

text \<open>
  The delivery queue (\<open>db/queue.rs\<close>): which rows a worker may take, the order in
  which it tries the servers, locking the next row, completing and rescheduling.

  Other workers run between any two statements of \<open>dequeue\<close>: what they do to the
  table, which rows they hold while a statement runs, the clock, and whether a
  statement fails are given by the environment, and the safety theorems hold for
  all of them. Shown: the queue implements the lease specification, no two workers
  hold a row at the same time within the lock period, a ready row is found
  whenever there is one, transactional mail goes first, and a server with ready
  mail is served after at most as many turns as there are servers.
\<close>

section \<open>Rows, filters and turns\<close>

record queued_row = lease_row +
  qr_message_id :: nat
  qr_server_id :: Id
  qr_domain :: string
  qr_bulk :: bool

record queue_db =
  qd_rows :: "queued_row list"
  qd_next_id :: nat

datatype queue_kind = AllMail | TransactionalMail | BulkMail

record queue_filter =
  qf_servers :: "Id list option"
  qf_exclude_servers :: "Id list"
  qf_kind :: queue_kind

definition default_filter :: queue_filter where
  "default_filter = \<lparr>qf_servers = None, qf_exclude_servers = [], qf_kind = AllMail\<rparr>"

definition bulk_param :: "queue_filter \<Rightarrow> bool option" where
  "bulk_param f = (case qf_kind f of AllMail \<Rightarrow> None | TransactionalMail \<Rightarrow> Some False | BulkMail \<Rightarrow> Some True)"

datatype permalink_error = NotAPermalink string | NoServer string

text \<open>\<open>find_server\<close> is the query by organization and server permalink; a database error ends the look-up.\<close>

fun resolve_server_permalinks :: "(string \<Rightarrow> string \<Rightarrow> Id option) \<Rightarrow> string list \<Rightarrow> permalink_error + Id list" where
  "resolve_server_permalinks find_server [] = Inr []"
| "resolve_server_permalinks find_server (entry # entries) =
     (case split_once (CHR ''/'') (trim entry) of
        None \<Rightarrow> Inl (NotAPermalink entry)
      | Some (organization, server) \<Rightarrow>
          (case find_server organization server of
             None \<Rightarrow> Inl (NoServer entry)
           | Some i \<Rightarrow>
               (case resolve_server_permalinks find_server entries of
                  Inl e \<Rightarrow> Inl e
                | Inr ids \<Rightarrow> Inr (i # ids))))"

definition DEFAULT_STALE_LOCK_DAYS :: int where
  "DEFAULT_STALE_LOCK_DAYS = 1"

text \<open>The counter is a \<open>u64\<close>; a hash map is an association list.\<close>

definition wrap_u64 :: "nat \<Rightarrow> nat" where
  "wrap_u64 n = n mod 2 ^ 64"

record turns =
  tn_counter :: nat
  tn_last :: "(Id \<times> nat) list"

definition last_served :: "turns \<Rightarrow> Id \<Rightarrow> nat option" where
  "last_served t server_id = map_of (tn_last t) server_id"

definition served :: "Id \<Rightarrow> turns \<Rightarrow> turns" where
  "served server_id t =
     (let turn = tn_counter t;
          kept = (if length (tn_last t) > 10000 then [] else tn_last t)
      in \<lparr>tn_counter = wrap_u64 (turn + 1), tn_last = al_insert server_id turn kept\<rparr>)"

record candidate =
  cd_server_id :: Id
  cd_in_flight :: nat
  cd_oldest :: nat

definition turn_key :: "(Id \<Rightarrow> nat option) \<Rightarrow> candidate \<Rightarrow> nat \<times> nat \<times> nat" where
  "turn_key served_at c =
     (cd_in_flight c,
      (case served_at (cd_server_id c) of None \<Rightarrow> 0 | Some turn \<Rightarrow> wrap_u64 (turn + 1)),
      cd_oldest c)"

definition turn_order :: "candidate list \<Rightarrow> (Id \<Rightarrow> nat option) \<Rightarrow> Id list" where
  "turn_order candidates served_at = map cd_server_id (sort_key (turn_key served_at) candidates)"

section \<open>The queue\<close>

record pg_queue =
  pq_stale_lock_days :: int
  pq_filter :: queue_filter

definition queue_new :: pg_queue where
  "queue_new = \<lparr>pq_stale_lock_days = DEFAULT_STALE_LOCK_DAYS, pq_filter = default_filter\<rparr>"

definition with_filter :: "pg_queue \<Rightarrow> queue_filter \<Rightarrow> pg_queue" where
  "with_filter pq f = pq\<lparr>pq_filter := f\<rparr>"

definition with_stale_lock_days :: "int \<Rightarrow> pg_queue" where
  "with_stale_lock_days d = \<lparr>pq_stale_lock_days = max d 1, pq_filter = default_filter\<rparr>"

definition enqueue_with_kind :: "nat \<Rightarrow> Id \<Rightarrow> string \<Rightarrow> bool \<Rightarrow> queue_db \<Rightarrow> nat \<times> queue_db" where
  "enqueue_with_kind message_id server_id domain bulk db =
     (let i = qd_next_id db in
      (i, \<lparr>qd_rows = qd_rows db @
             [\<lparr>lr_id = i, lr_attempts = 0, lr_locked_by = None, lr_locked_at = None, lr_retry_after = None,
               qr_message_id = message_id, qr_server_id = server_id, qr_domain = domain, qr_bulk = bulk\<rparr>],
           qd_next_id = i + 1\<rparr>))"

definition enqueue :: "nat \<Rightarrow> Id \<Rightarrow> string \<Rightarrow> queue_db \<Rightarrow> nat \<times> queue_db" where
  "enqueue message_id server_id domain db = enqueue_with_kind message_id server_id domain False db"

definition is_owner :: "(nat \<times> Id) option \<Rightarrow> queued_row \<Rightarrow> bool" where
  "is_owner owner r =
     (case owner of None \<Rightarrow> True | Some (m, s) \<Rightarrow> qr_message_id r = m \<and> qr_server_id r = s)"

definition complete_message :: "nat \<Rightarrow> (nat \<times> Id) option \<Rightarrow> queue_db \<Rightarrow> queue_db" where
  "complete_message i owner db =
     db\<lparr>qd_rows := filter (\<lambda>r. \<not> (lr_id r = i \<and> is_owner owner r)) (qd_rows db)\<rparr>"

definition retry_message :: "nat \<Rightarrow> int \<Rightarrow> (nat \<times> Id) option \<Rightarrow> instant \<Rightarrow> queue_db \<Rightarrow> queue_db" where
  "retry_message i attempts owner now db =
     db\<lparr>qd_rows := map (\<lambda>r. if lr_id r = i \<and> is_owner owner r then reschedule attempts now r else r) (qd_rows db)\<rparr>"

definition kind_matches :: "queue_filter \<Rightarrow> queued_row \<Rightarrow> bool" where
  "kind_matches f r = (case bulk_param f of None \<Rightarrow> True | Some b \<Rightarrow> qr_bulk r = b)"

definition server_matches :: "queue_filter \<Rightarrow> Id \<Rightarrow> bool" where
  "server_matches f s \<longleftrightarrow>
     (case qf_servers f of None \<Rightarrow> True | Some ss \<Rightarrow> s \<in> set ss) \<and> s \<notin> set (qf_exclude_servers f)"

definition serves :: "pg_queue \<Rightarrow> instant \<Rightarrow> queued_row \<Rightarrow> bool" where
  "serves pq now r \<longleftrightarrow>
     row_ready (pq_stale_lock_days pq) now r \<and> server_matches (pq_filter pq) (qr_server_id r)
     \<and> kind_matches (pq_filter pq) r"

definition in_flight :: "pg_queue \<Rightarrow> instant \<Rightarrow> queued_row \<Rightarrow> bool" where
  "in_flight pq now r \<longleftrightarrow>
     lr_locked_by r \<noteq> None
     \<and> (case lr_locked_at r of None \<Rightarrow> False | Some t \<Rightarrow> now - pq_stale_lock_days pq * day \<le> t)"

definition candidate_of :: "pg_queue \<Rightarrow> instant \<Rightarrow> queued_row list \<Rightarrow> Id \<Rightarrow> candidate" where
  "candidate_of pq now rows s =
     \<lparr>cd_server_id = s,
      cd_in_flight = length (filter (\<lambda>r. qr_server_id r = s \<and> in_flight pq now r) rows),
      cd_oldest = Min (set (map lr_id (filter (\<lambda>r. qr_server_id r = s \<and> serves pq now r) rows)))\<rparr>"

text \<open>The first query: one candidate per server with ready mail, the first thousand of them.\<close>

definition list_candidates :: "pg_queue \<Rightarrow> instant \<Rightarrow> queue_db \<Rightarrow> candidate list" where
  "list_candidates pq now db =
     take 1000
       (sort_key (\<lambda>c. (cd_in_flight c, cd_oldest c))
         (map (candidate_of pq now (qd_rows db))
           (remdups (map qr_server_id (filter (serves pq now) (qd_rows db))))))"

text \<open>The second query, for one server: the rows that qualify and their order.\<close>

definition lockable :: "pg_queue \<Rightarrow> (nat \<Rightarrow> bool) \<Rightarrow> Id \<Rightarrow> instant \<Rightarrow> queued_row \<Rightarrow> bool" where
  "lockable pq held server_id now r \<longleftrightarrow>
     qr_server_id r = server_id \<and> row_ready (pq_stale_lock_days pq) now r
     \<and> kind_matches (pq_filter pq) r \<and> \<not> held (lr_id r)"

definition lock_next :: "pg_queue \<Rightarrow> (nat \<Rightarrow> bool) \<Rightarrow> string \<Rightarrow> Id \<Rightarrow> instant \<Rightarrow> queue_db
    \<Rightarrow> queued_row option \<times> queue_db" where
  "lock_next pq held worker_id server_id now db =
     (case lock_first (\<lambda>r. (qr_bulk r, lr_id r)) (lockable pq held server_id now) worker_id now (qd_rows db) of
        (result, rows) \<Rightarrow> (result, db\<lparr>qd_rows := rows\<rparr>))"

text \<open>
  What \<open>dequeue\<close> meets at its \<open>k\<close>-th statement: what the other workers did to the table
  before it, the clock, the rows they hold, and the error of the statement, if any.
\<close>

record dequeue_env =
  dq_between :: "nat \<Rightarrow> queue_db \<Rightarrow> queue_db"
  dq_now :: "nat \<Rightarrow> instant"
  dq_held :: "nat \<Rightarrow> nat \<Rightarrow> bool"
  dq_error :: "nat \<Rightarrow> string option"

fun try_servers :: "dequeue_env \<Rightarrow> pg_queue \<Rightarrow> string \<Rightarrow> nat \<Rightarrow> Id list \<Rightarrow> turns \<Rightarrow> queue_db
    \<Rightarrow> (string + queued_row option) \<times> turns \<times> queue_db" where
  "try_servers env pq w k [] t db = (Inr None, t, db)"
| "try_servers env pq w k (s # ss) t db0 =
     (let db = dq_between env k db0 in
      case dq_error env k of
        Some e \<Rightarrow> (Inl e, t, db)
      | None \<Rightarrow>
          (case lock_next pq (dq_held env k) w s (dq_now env k) db of
             (Some r, db') \<Rightarrow> (Inr (Some r), served s t, db')
           | (None, db') \<Rightarrow> try_servers env pq w (Suc k) ss t db'))"

definition dequeue :: "dequeue_env \<Rightarrow> pg_queue \<Rightarrow> string \<Rightarrow> turns \<Rightarrow> queue_db
    \<Rightarrow> (string + queued_row option) \<times> turns \<times> queue_db" where
  "dequeue env pq worker_id t db0 =
     (let db = dq_between env 0 db0 in
      case dq_error env 0 of
        Some e \<Rightarrow> (Inl e, t, db)
      | None \<Rightarrow>
          try_servers env pq worker_id 1
            (turn_order (list_candidates pq (dq_now env 0) db) (last_served t)) t db)"

definition complete :: "nat \<Rightarrow> queue_db \<Rightarrow> queue_db" where
  "complete i db = complete_message i None db"

definition retry :: "nat \<Rightarrow> int \<Rightarrow> instant \<Rightarrow> queue_db \<Rightarrow> queue_db" where
  "retry i attempts now db = retry_message i attempts None now db"

definition queue_size :: "queue_db \<Rightarrow> nat" where
  "queue_size db = length (qd_rows db)"

section \<open>The queue as a lease table\<close>

definition wf_db :: "queue_db \<Rightarrow> bool" where
  "wf_db db \<longleftrightarrow> wf_rows (qd_rows db) \<and> list_all (\<lambda>r. lr_id r < qd_next_id db) (qd_rows db)"

definition queue_leases :: "pg_queue \<Rightarrow> queue_db \<Rightarrow> leases" where
  "queue_leases pq db = leases_of (pq_stale_lock_days pq) (qd_rows db)"

text \<open>
  The statements any number of workers and submitters run against the table. A
  statement whose owner condition does not hold changes nothing.
\<close>

inductive queue_step :: "pg_queue \<Rightarrow> lease_event \<Rightarrow> queue_db \<Rightarrow> queue_db \<Rightarrow> bool" for pq :: pg_queue where
  enqueues: "enqueue_with_kind m s d b db = (i, db') \<Longrightarrow> queue_step pq (Add i) db db'"
| locks: "lock_next pq held w s now db = (Some r, db') \<Longrightarrow> queue_step pq (Lease (lr_id r) now) db db'"
| finds_none: "lock_next pq held w s now db = (None, db') \<Longrightarrow> queue_step pq Other db db'"
| completes: "\<exists>r \<in> set (qd_rows db). lr_id r = i \<and> is_owner owner r \<Longrightarrow>
    queue_step pq (Finish i) db (complete_message i owner db)"
| not_completed: "\<not> (\<exists>r \<in> set (qd_rows db). lr_id r = i \<and> is_owner owner r) \<Longrightarrow>
    queue_step pq Other db (complete_message i owner db)"
| retries: "\<exists>r \<in> set (qd_rows db). lr_id r = i \<and> is_owner owner r \<Longrightarrow>
    queue_step pq (Again i a now) db (retry_message i a owner now db)"
| not_retried: "\<not> (\<exists>r \<in> set (qd_rows db). lr_id r = i \<and> is_owner owner r) \<Longrightarrow>
    queue_step pq Other db (retry_message i a owner now db)"

lemma complete_message_owned:
  assumes "wf_rows (qd_rows db)" "r \<in> set (qd_rows db)" "lr_id r = i" "is_owner owner r"
  shows "qd_rows (complete_message i owner db) = delete_id i (qd_rows db)"
proof -
  have "lr_id x = i \<and> is_owner owner x \<longleftrightarrow> lr_id x = i" if "x \<in> set (qd_rows db)" for x
    using assms that by (auto simp: wf_rows_def distinct_map dest: inj_onD)
  then show ?thesis by (simp add: complete_message_def delete_id_def cong: filter_cong)
qed

lemma retry_message_owned:
  assumes "wf_rows (qd_rows db)" "r \<in> set (qd_rows db)" "lr_id r = i" "is_owner owner r"
  shows "qd_rows (retry_message i a owner now db) = update_id i (reschedule a now) (qd_rows db)"
proof -
  have "lr_id x = i \<and> is_owner owner x \<longleftrightarrow> lr_id x = i" if "x \<in> set (qd_rows db)" for x
    using assms that by (auto simp: wf_rows_def distinct_map dest: inj_onD)
  then show ?thesis by (simp add: retry_message_def update_id_def)
qed

lemma not_owned_unchanged:
  assumes "\<not> (\<exists>r \<in> set (qd_rows db). lr_id r = i \<and> is_owner owner r)"
  shows "complete_message i owner db = db" "retry_message i a owner now db = db"
proof -
  have "filter (\<lambda>r. \<not> (lr_id r = i \<and> is_owner owner r)) (qd_rows db) = qd_rows db"
    using assms by (intro filter_True) blast
  then show "complete_message i owner db = db" by (simp add: complete_message_def)
  have "map (\<lambda>r. if lr_id r = i \<and> is_owner owner r then reschedule a now r else r) (qd_rows db) = qd_rows db"
    using assms by (intro map_idI) auto
  then show "retry_message i a owner now db = db" by (simp add: retry_message_def)
qed

lemma owned_next_id:
  "qd_next_id (complete_message i owner db) = qd_next_id db"
  "qd_next_id (retry_message i a owner now db) = qd_next_id db"
  by (simp_all add: complete_message_def retry_message_def)

lemma lock_next_cases:
  assumes "lock_next pq held w s now db = (res, db')"
  obtains rows where "db' = db\<lparr>qd_rows := rows\<rparr>"
    "lock_first (\<lambda>r. (qr_bulk r, lr_id r)) (lockable pq held s now) w now (qd_rows db) = (res, rows)"
  using assms by (auto simp: lock_next_def split: prod.splits)

lemma queue_step_sim:
  assumes wf: "wf_db db" and step: "queue_step pq e db db'" and days: "0 \<le> pq_stale_lock_days pq"
  shows "wf_db db' \<and> lease_step (pq_stale_lock_days pq) e (queue_leases pq db) (queue_leases pq db')"
  using step
proof (cases rule: queue_step.cases)
  case (enqueues m s d b i)
  define r where "r = \<lparr>lr_id = qd_next_id db, lr_attempts = 0, lr_locked_by = None, lr_locked_at = None,
    lr_retry_after = None, qr_message_id = m, qr_server_id = s, qr_domain = d, qr_bulk = b\<rparr>"
  have db': "db' = \<lparr>qd_rows = qd_rows db @ [r], qd_next_id = Suc (qd_next_id db)\<rparr>" "i = lr_id r"
    using enqueues(2) by (auto simp: enqueue_with_kind_def Let_def r_def)
  have less: "\<forall>x \<in> set (qd_rows db). lr_id x < lr_id r" and rows: "wf_rows (qd_rows db)"
    using wf by (simp_all add: wf_db_def list_all_iff r_def)
  have "lr_id r \<notin> lr_id ` set (qd_rows db)" using less by (auto dest: bspec)
  then have "wf_rows (qd_rows db @ [r]) \<and> lease_step (pq_stale_lock_days pq) (Add (lr_id r))
      (queue_leases pq db) (leases_of (pq_stale_lock_days pq) (qd_rows db @ [r]))"
    unfolding queue_leases_def by (intro insert_sim rows) (simp_all add: r_def)
  moreover have "list_all (\<lambda>x. lr_id x < Suc (qd_next_id db)) (qd_rows db @ [r])"
    using less by (auto simp: list_all_iff r_def dest!: bspec)
  ultimately show ?thesis using enqueues(1) by (simp add: wf_db_def db' queue_leases_def)
next
  case (locks held w s now r)
  from locks(2) obtain rows where rows: "db' = db\<lparr>qd_rows := rows\<rparr>"
    "lock_first (\<lambda>r. (qr_bulk r, lr_id r)) (lockable pq held s now) w now (qd_rows db) = (Some r, rows)"
    by (rule lock_next_cases)
  from rows(2) obtain r0 :: queued_row where "rows = update_id (lr_id r0) (lock_row w now) (qd_rows db)"
    by (rule lock_first_SomeD)
  with lock_first_sim [OF rows(2)] wf days rows(1) locks(1) show ?thesis
    by (auto simp: wf_db_def queue_leases_def lockable_def ids_update)
next
  case (finds_none held w s now)
  from finds_none(2) have "db' = db" by (auto elim!: lock_next_cases dest!: lock_first_NoneD)
  with finds_none wf show ?thesis by (auto intro: lease_step.other)
next
  case (completes i owner)
  then have "qd_rows db' = delete_id i (qd_rows db)" using wf complete_message_owned by (auto simp: wf_db_def)
  with completes wf delete_sim [of "qd_rows db" i "pq_stale_lock_days pq"] show ?thesis
    by (auto simp: wf_db_def queue_leases_def owned_next_id ids_delete)
next
  case (retries i owner a now)
  then have "qd_rows db' = update_id i (reschedule a now) (qd_rows db)"
    using wf retry_message_owned by (auto simp: wf_db_def)
  with retries wf reschedule_sim [of "qd_rows db" i a now "pq_stale_lock_days pq"] show ?thesis
    by (auto simp: wf_db_def queue_leases_def owned_next_id ids_update)
qed (use wf not_owned_unchanged in \<open>auto intro: lease_step.other\<close>)

interpretation dq: lease_table "queue_step (with_stale_lock_days d)" "queue_leases (with_stale_lock_days d)" wf_db "max d 1"
  by unfold_locales
    (auto simp: with_stale_lock_days_def dest: queue_step_sim [where pq = "with_stale_lock_days d", unfolded with_stale_lock_days_def])

section \<open>Dequeuing\<close>

text \<open>Other workers and submitters only run statements of the queue.\<close>

definition well_behaved :: "pg_queue \<Rightarrow> dequeue_env \<Rightarrow> bool" where
  "well_behaved pq env \<longleftrightarrow> (\<forall>k db. \<exists>es. run (queue_step pq) es db (dq_between env k db))"

lemma try_servers_steps:
  assumes "well_behaved pq env" "try_servers env pq w k ss t db = (Inr (Some r), t', db')"
  shows "\<exists>es k' s db1. run (queue_step pq) es db db1 \<and> s \<in> set ss \<and> t' = served s t
    \<and> lock_next pq (dq_held env k') w s (dq_now env k') db1 = (Some r, db')"
  using assms
proof (induction env pq w k ss t db rule: try_servers.induct)
  case (2 env pq w k s ss t db)
  let ?db = "dq_between env k db"
  obtain es where es: "run (queue_step pq) es db ?db" using "2.prems"(1) by (auto simp: well_behaved_def)
  have err: "dq_error env k = None" using "2.prems"(2) by (cases "dq_error env k") (auto simp: Let_def)
  obtain res db2 where l: "lock_next pq (dq_held env k) w s (dq_now env k) ?db = (res, db2)" by fastforce
  show ?case
  proof (cases res)
    case None
    have "run (queue_step pq) (es @ [Other]) db db2"
      using es queue_step.finds_none [OF l [unfolded None]] by (auto simp: run_append)
    moreover obtain es2 k' s' db1 where "run (queue_step pq) es2 db2 db1" "s' \<in> set ss" "t' = served s' t"
      "lock_next pq (dq_held env k') w s' (dq_now env k') db1 = (Some r, db')"
      using "2.IH" [OF refl err l [symmetric, unfolded None] refl "2.prems"(1)] "2.prems"(2) err l None
      by (auto simp: Let_def)
    ultimately show ?thesis
      by (intro exI [of _ "(es @ [Other]) @ es2"] exI [of _ k'] exI [of _ s'] exI [of _ db1])
        (auto simp: run_append simp del: append_assoc)
  next
    case (Some r')
    with "2.prems"(2) err l have "r' = r" "db2 = db'" "t' = served s t" by (auto simp: Let_def)
    with Some es l show ?thesis by (intro exI [of _ es] exI [of _ k] exI [of _ s] exI [of _ ?db]) auto
  qed
qed auto

lemma dequeue_steps:
  assumes wb: "well_behaved pq env" and d: "dequeue env pq w t db = (Inr (Some r), t', db')"
  obtains es k db1 where "run (queue_step pq) es db db1"
    "lock_next pq (dq_held env k) w (qr_server_id r) (dq_now env k) db1 = (Some r, db')"
    "server_matches (pq_filter pq) (qr_server_id r)" "kind_matches (pq_filter pq) r"
proof -
  let ?db = "dq_between env 0 db"
  let ?ss = "turn_order (list_candidates pq (dq_now env 0) ?db) (last_served t)"
  obtain es where es: "run (queue_step pq) es db ?db" using wb by (auto simp: well_behaved_def)
  have "try_servers env pq w 1 ?ss t ?db = (Inr (Some r), t', db')"
    using d by (auto simp: dequeue_def Let_def split: option.splits)
  from try_servers_steps [OF wb this] obtain es2 k s db1 where
    s: "run (queue_step pq) es2 ?db db1" "s \<in> set ?ss"
       "lock_next pq (dq_held env k) w s (dq_now env k) db1 = (Some r, db')" by blast
  from s(3) obtain rows where
    "lock_first (\<lambda>r. (qr_bulk r, lr_id r)) (lockable pq (dq_held env k) s (dq_now env k)) w (dq_now env k) (qd_rows db1)
     = (Some r, rows)" by (rule lock_next_cases)
  then obtain r0 :: queued_row where r0: "lockable pq (dq_held env k) s (dq_now env k) r0" "r = lock_row w (dq_now env k) r0"
    by (rule lock_first_SomeD)
  have k: "qr_server_id r = s" "kind_matches (pq_filter pq) r"
    using r0 by (auto simp: lockable_def lock_row_def kind_matches_def split: option.splits)
  have "server_matches (pq_filter pq) s"
    using s(2) by (auto simp: turn_order_def list_candidates_def serves_def candidate_of_def dest!: in_set_takeD)
  with k s es show thesis by (intro that [of "es @ es2" db1 k]) (auto simp: run_append)
qed

text \<open>
  C11. The delivery queue implements the lease specification: whatever other workers
  and submitters do to the table between and during the statements of \<open>dequeue\<close>, a
  row it returns is the result of a run of lease steps from the state before to the
  state after, whose last step leases that row: it was available at that moment, it
  is locked by this worker, and it belongs to a server and a kind of mail the
  worker's filter names.
\<close>

theorem dequeue_refines_leases:
  assumes "wf_db db" "0 \<le> pq_stale_lock_days pq" "well_behaved pq env"
    "dequeue env pq w t db = (Inr (Some r), t', db')"
  shows "\<exists>es now. run (lease_step (pq_stale_lock_days pq)) (es @ [Lease (lr_id r) now]) (queue_leases pq db) (queue_leases pq db')
    \<and> wf_db db' \<and> r \<in> set (qd_rows db') \<and> lr_locked_by r = Some w \<and> lr_locked_at r = Some now
    \<and> server_matches (pq_filter pq) (qr_server_id r) \<and> kind_matches (pq_filter pq) r"
proof -
  from dequeue_steps [OF assms(3,4)] obtain es k db1 where
    s: "run (queue_step pq) es db db1"
       "lock_next pq (dq_held env k) w (qr_server_id r) (dq_now env k) db1 = (Some r, db')"
       "server_matches (pq_filter pq) (qr_server_id r)" "kind_matches (pq_filter pq) r" .
  have "lease_table (queue_step pq) (queue_leases pq) wf_db (pq_stale_lock_days pq)"
    by unfold_locales (use assms(2) queue_step_sim in auto)
  note sim = lease_table.run_sim [OF this]
  have "run (queue_step pq) (es @ [Lease (lr_id r) (dq_now env k)]) db db'"
    using s(1) queue_step.locks [OF s(2)] by (auto simp: run_append)
  from sim [OF this assms(1)] have run: "wf_db db'"
    "run (lease_step (pq_stale_lock_days pq)) (es @ [Lease (lr_id r) (dq_now env k)]) (queue_leases pq db) (queue_leases pq db')"
    by simp_all
  from s(2) obtain rows where rows: "db' = db1\<lparr>qd_rows := rows\<rparr>"
    "lock_first (\<lambda>r. (qr_bulk r, lr_id r)) (lockable pq (dq_held env k) (qr_server_id r) (dq_now env k)) w (dq_now env k)
       (qd_rows db1) = (Some r, rows)" by (rule lock_next_cases)
  from rows(2) obtain r0 :: queued_row where "r0 \<in> set (qd_rows db1)" "r = lock_row w (dq_now env k) r0"
    "rows = update_id (lr_id r0) (lock_row w (dq_now env k)) (qd_rows db1)"
    by (rule lock_first_SomeD)
  then have "r \<in> set (qd_rows db')" "lr_locked_by r = Some w" "lr_locked_at r = Some (dq_now env k)"
    using rows(1) by (auto simp: update_id_def lock_row_def)
  with run s(3,4) show ?thesis by blast
qed

text \<open>
  C12. No message is handed out twice within the lock period: in every interleaving of
  the statements of any number of workers and submitters, between two successful
  dequeues of the same row without a completion or a retry of it in between, more
  than the configured number of days (at least one) pass.
\<close>

theorem queue_mutual_exclusion:
  assumes "run (queue_step (with_stale_lock_days d)) (xs @ Lease i t # ys @ Lease i t' # zs) db db'" "wf_db db"
    "\<forall>e \<in> set ys. \<not> gives_back i e"
  shows "t + max d 1 * day < t'"
  using assms by (rule dq.exclusive)

section \<open>A dequeue without interference\<close>

definition quiet_env :: "instant \<Rightarrow> dequeue_env" where
  "quiet_env now = \<lparr>dq_between = (\<lambda>_ db. db), dq_now = (\<lambda>_. now), dq_held = (\<lambda>_ _. False), dq_error = (\<lambda>_. None)\<rparr>"

lemma set_list_candidates:
  "c \<in> set (list_candidates pq now db) \<Longrightarrow>
   \<exists>r \<in> set (qd_rows db). serves pq now r \<and> c = candidate_of pq now (qd_rows db) (qr_server_id r)"
  by (auto simp: list_candidates_def dest!: in_set_takeD)

lemma cd_server_candidate_of [simp]: "cd_server_id (candidate_of pq now rows s) = s"
  by (simp add: candidate_of_def)

lemma sort_key_Nil [simp]: "sort_key f xs = [] \<longleftrightarrow> xs = []"
  by (metis length_sort length_0_conv)

lemma list_candidates_Nil: "list_candidates pq now db = [] \<longleftrightarrow> (\<forall>r \<in> set (qd_rows db). \<not> serves pq now r)"
  by (simp add: list_candidates_def filter_empty_conv)

lemma turn_order_hd:
  assumes "candidates \<noteq> []"
  obtains c rest where "turn_order candidates served_at = cd_server_id c # rest" "c \<in> set candidates"
    "\<forall>c' \<in> set candidates. turn_key served_at c \<le> turn_key served_at c'"
proof -
  obtain c cs where s: "sort_key (turn_key served_at) candidates = c # cs"
    using assms by (cases "sort_key (turn_key served_at) candidates") auto
  have mem: "set (c # cs) = set candidates" by (metis s set_sort)
  have "sorted (map (turn_key served_at) (c # cs))" by (metis s sorted_sort_key)
  then have "\<forall>c' \<in> set (c # cs). turn_key served_at c \<le> turn_key served_at c'" by auto
  with s mem show thesis by (intro that [of c "map cd_server_id cs"]) (auto simp: turn_order_def)
qed

lemma lock_next_quiet:
  assumes "r0 \<in> set (qd_rows db)" "serves pq now r0"
  obtains r db' where "lock_next pq (\<lambda>_. False) w (qr_server_id r0) now db = (Some r, db')"
    "qr_server_id r = qr_server_id r0"
    "\<forall>x \<in> set (qd_rows db). qr_server_id x = qr_server_id r0 \<and> serves pq now x \<longrightarrow> (qr_bulk r, lr_id r) \<le> (qr_bulk x, lr_id x)"
proof -
  let ?p = "lockable pq (\<lambda>_. False) (qr_server_id r0) now"
  let ?key = "\<lambda>r :: queued_row. (qr_bulk r, lr_id r)"
  obtain res rows where l: "lock_first ?key ?p w now (qd_rows db) = (res, rows)" by fastforce
  have p: "serves pq now x \<and> qr_server_id x = qr_server_id r0 \<Longrightarrow> ?p x" for x
    by (simp add: serves_def lockable_def)
  have "res \<noteq> None"
  proof
    assume "res = None"
    with l have "filter ?p (qd_rows db) = []" by (auto dest: lock_first_NoneD)
    then show False using p [of r0] assms by (simp add: filter_empty_conv)
  qed
  then obtain r where res: "res = Some r" by blast
  from l [unfolded res] obtain r1 :: queued_row where r1: "?p r1" "r = lock_row w now r1"
    "\<forall>x \<in> set (qd_rows db). ?p x \<longrightarrow> ?key r1 \<le> ?key x" by (rule lock_first_SomeD)
  have "lock_next pq (\<lambda>_. False) w (qr_server_id r0) now db = (Some r, db\<lparr>qd_rows := rows\<rparr>)"
    using l res by (simp add: lock_next_def)
  moreover have "qr_server_id r = qr_server_id r0" "?key r = ?key r1"
    using r1 by (simp_all add: lockable_def lock_row_def)
  ultimately show thesis using r1(3) p by (intro that [of r "db\<lparr>qd_rows := rows\<rparr>"]) auto
qed

lemma quiet_dequeue:
  assumes "r0 \<in> set (qd_rows db)" "serves pq now r0"
  obtains c r db' where "c \<in> set (list_candidates pq now db)"
    "\<forall>c' \<in> set (list_candidates pq now db). turn_key (last_served t) c \<le> turn_key (last_served t) c'"
    "dequeue (quiet_env now) pq w t db = (Inr (Some r), served (cd_server_id c) t, db')" "qr_server_id r = cd_server_id c"
    "\<forall>x \<in> set (qd_rows db). qr_server_id x = qr_server_id r \<and> serves pq now x \<longrightarrow> (qr_bulk r, lr_id r) \<le> (qr_bulk x, lr_id x)"
proof -
  have "list_candidates pq now db \<noteq> []" using assms by (auto simp: list_candidates_Nil)
  then obtain c rest where c: "turn_order (list_candidates pq now db) (last_served t) = cd_server_id c # rest"
    "c \<in> set (list_candidates pq now db)"
    "\<forall>c' \<in> set (list_candidates pq now db). turn_key (last_served t) c \<le> turn_key (last_served t) c'"
    by (rule turn_order_hd)
  from set_list_candidates [OF c(2)] obtain r1 where r1: "r1 \<in> set (qd_rows db)" "serves pq now r1"
    "cd_server_id c = qr_server_id r1" by auto
  from r1(1,2) obtain r db' where l: "lock_next pq (\<lambda>_. False) w (qr_server_id r1) now db = (Some r, db')"
    "qr_server_id r = qr_server_id r1"
    "\<forall>x \<in> set (qd_rows db). qr_server_id x = qr_server_id r1 \<and> serves pq now x \<longrightarrow> (qr_bulk r, lr_id r) \<le> (qr_bulk x, lr_id x)"
    by (rule lock_next_quiet)
  have "dequeue (quiet_env now) pq w t db = (Inr (Some r), served (cd_server_id c) t, db')"
    using c(1) l(1) r1(3) by (simp add: dequeue_def quiet_env_def)
  with c l r1 show thesis by (intro that [of c r db']) auto
qed

text \<open>
  Mail is found and transactional mail goes first: when no other worker
  interferes, \<open>dequeue\<close> returns a row exactly when some row is ready for this worker,
  and the row it returns has, among the ready rows of its server, the least pair of
  bulk flag and id: no bulk row is taken while a transactional one waits, and rows
  of a kind are taken in the order they were queued.
\<close>

theorem dequeue_finds_mail:
  "((\<exists>r t' db'. dequeue (quiet_env now) pq w t db = (Inr (Some r), t', db'))
      \<longleftrightarrow> (\<exists>r \<in> set (qd_rows db). serves pq now r))
   \<and> (\<forall>r t' db' x. dequeue (quiet_env now) pq w t db = (Inr (Some r), t', db')
        \<and> x \<in> set (qd_rows db) \<and> qr_server_id x = qr_server_id r \<and> serves pq now x \<longrightarrow>
        (qr_bulk r \<longrightarrow> qr_bulk x) \<and> (qr_bulk r = qr_bulk x \<longrightarrow> lr_id r \<le> lr_id x))"
    (is "(?found \<longleftrightarrow> ?ready) \<and> _")
proof (intro conjI allI impI iffI)
  assume ?ready
  then obtain r where "r \<in> set (qd_rows db)" "serves pq now r" by blast
  then show ?found by (rule quiet_dequeue [where t = t and w = w]) blast
next
  assume ?found
  then have "list_candidates pq now db \<noteq> []" by (auto simp: dequeue_def quiet_env_def turn_order_def)
  then show ?ready by (simp add: list_candidates_Nil)
next
  fix r t' db' x
  assume a: "dequeue (quiet_env now) pq w t db = (Inr (Some r), t', db')
     \<and> x \<in> set (qd_rows db) \<and> qr_server_id x = qr_server_id r \<and> serves pq now x"
  then have x: "x \<in> set (qd_rows db)" "serves pq now x" by simp_all
  have "(qr_bulk r, lr_id r) \<le> (qr_bulk x, lr_id x)"
    by (rule quiet_dequeue [OF x, where t = t and w = w]) (use a in auto)
  then show "qr_bulk r \<Longrightarrow> qr_bulk x" and "qr_bulk r = qr_bulk x \<Longrightarrow> lr_id r \<le> lr_id x" by auto
qed

section \<open>Fairness\<close>

text \<open>
  One worker that dequeues again and again. The tables and times of the rounds are
  arbitrary: between two rounds the worker completes or reschedules its message and
  others submit mail.
\<close>

primrec turns_at :: "pg_queue \<Rightarrow> string \<Rightarrow> (nat \<Rightarrow> instant) \<Rightarrow> (nat \<Rightarrow> queue_db) \<Rightarrow> turns \<Rightarrow> nat \<Rightarrow> turns" where
  "turns_at pq w now dbs t 0 = t"
| "turns_at pq w now dbs t (Suc k) =
     fst (snd (dequeue (quiet_env (now k)) pq w (turns_at pq w now dbs t k) (dbs k)))"

definition served_in :: "pg_queue \<Rightarrow> string \<Rightarrow> (nat \<Rightarrow> instant) \<Rightarrow> (nat \<Rightarrow> queue_db) \<Rightarrow> turns \<Rightarrow> nat \<Rightarrow> Id option" where
  "served_in pq w now dbs t k =
     (case fst (dequeue (quiet_env (now k)) pq w (turns_at pq w now dbs t k) (dbs k)) of
        Inr (Some r) \<Rightarrow> Some (qr_server_id r) | _ \<Rightarrow> None)"

definition waiting :: "pg_queue \<Rightarrow> instant \<Rightarrow> queue_db \<Rightarrow> Id set" where
  "waiting pq now db = qr_server_id ` {r \<in> set (qd_rows db). serves pq now r}"

definition turn_no :: "turns \<Rightarrow> Id \<Rightarrow> nat" where
  "turn_no t s = (case last_served t s of None \<Rightarrow> 0 | Some n \<Rightarrow> wrap_u64 (n + 1))"

lemma list_candidates_all:
  assumes "finite S" "waiting pq now db \<subseteq> S" "card S \<le> 1000" "s \<in> waiting pq now db"
  shows "candidate_of pq now (qd_rows db) s \<in> set (list_candidates pq now db)"
proof -
  let ?servers = "remdups (map qr_server_id (filter (serves pq now) (qd_rows db)))"
  have set: "set ?servers = waiting pq now db" by (auto simp: waiting_def)
  have "length ?servers = card (set ?servers)" by (rule distinct_card [symmetric]) simp
  also have "\<dots> \<le> 1000" unfolding set using card_mono [OF assms(1,2)] assms(3) by simp
  finally have "set (list_candidates pq now db) = candidate_of pq now (qd_rows db) ` waiting pq now db"
    by (simp add: list_candidates_def set flip: set)
  then show ?thesis using assms(4) by simp
qed

text \<open>A round serves a waiting server whose last turn is the longest ago.\<close>

lemma round_serves:
  assumes S: "finite S" "waiting pq now db \<subseteq> S" "card S \<le> 1000" and s: "s \<in> waiting pq now db"
    and calm: "\<forall>r \<in> set (qd_rows db). \<not> in_flight pq now r"
  obtains x r db' where "dequeue (quiet_env now) pq w t db = (Inr (Some r), served x t, db')" "qr_server_id r = x"
    "x \<in> waiting pq now db" "turn_no t x \<le> turn_no t s"
proof -
  from s obtain r0 where "r0 \<in> set (qd_rows db)" "serves pq now r0" by (auto simp: waiting_def)
  then obtain c r db' where c: "c \<in> set (list_candidates pq now db)"
    "\<forall>c' \<in> set (list_candidates pq now db). turn_key (last_served t) c \<le> turn_key (last_served t) c'"
    "dequeue (quiet_env now) pq w t db = (Inr (Some r), served (cd_server_id c) t, db')" "qr_server_id r = cd_server_id c"
    by (rule quiet_dequeue [where t = t and w = w])
  have calm0: "cd_in_flight (candidate_of pq now (qd_rows db) x) = 0" for x
    using calm by (simp add: candidate_of_def filter_empty_conv)
  from set_list_candidates [OF c(1)] obtain r1 where r1: "r1 \<in> set (qd_rows db)" "serves pq now r1"
    "c = candidate_of pq now (qd_rows db) (qr_server_id r1)" by blast
  have "turn_key (last_served t) c \<le> turn_key (last_served t) (candidate_of pq now (qd_rows db) s)"
    using c(2) list_candidates_all [OF S s] by blast
  then have "turn_no t (cd_server_id c) \<le> turn_no t s"
    using r1(3) calm0 by (auto simp: turn_key_def turn_no_def)
  moreover have "cd_server_id c \<in> waiting pq now db" using r1 by (auto simp: waiting_def)
  ultimately show thesis using c by (intro that [of r "cd_server_id c"]) auto
qed

text \<open>The first \<open>j\<close> rounds, as long as a waiting server is passed over.\<close>

lemma rounds_invariant:
  fixes pq w now dbs t0 s S
  defines "t \<equiv> turns_at pq w now dbs t0"
    and "srv \<equiv> \<lambda>k. the (served_in pq w now dbs t0 k)"
  assumes S: "finite S" "card S \<le> 1000" "\<forall>k < n. waiting pq (now k) (dbs k) \<subseteq> S"
    and s: "\<forall>k < n. s \<in> waiting pq (now k) (dbs k)"
    and calm: "\<forall>k < n. \<forall>r \<in> set (qd_rows (dbs k)). \<not> in_flight pq (now k) r"
    and t0: "\<forall>(x, m) \<in> set (tn_last t0). m < tn_counter t0" "tn_counter t0 + n < 2 ^ 64" "length (tn_last t0) + n \<le> 10000"
    and passed: "\<forall>k < n. served_in pq w now dbs t0 k \<noteq> Some s"
  shows "j \<le> n \<Longrightarrow> tn_counter (t j) = tn_counter t0 + j \<and> length (tn_last (t j)) \<le> length (tn_last t0) + j
    \<and> (\<forall>x. last_served (t j) x = last_served t0 x \<or> (\<exists>m. last_served (t j) x = Some m \<and> tn_counter t0 \<le> m \<and> m < tn_counter t0 + j))
    \<and> (\<forall>k < j. \<exists>m. last_served (t j) (srv k) = Some m \<and> tn_counter t0 \<le> m)
    \<and> last_served (t j) s = last_served t0 s
    \<and> srv ` {..<j} \<subseteq> S - {s} \<and> inj_on srv {..<j}"
proof (induction j)
  case 0
  then show ?case by (simp add: t_def)
next
  case (Suc j)
  then have j: "j < n" and IH: "tn_counter (t j) = tn_counter t0 + j" "length (tn_last (t j)) \<le> length (tn_last t0) + j"
    "\<forall>x. last_served (t j) x = last_served t0 x \<or> (\<exists>m. last_served (t j) x = Some m \<and> tn_counter t0 \<le> m \<and> m < tn_counter t0 + j)"
    "\<forall>k < j. \<exists>m. last_served (t j) (srv k) = Some m \<and> tn_counter t0 \<le> m"
    "last_served (t j) s = last_served t0 s" "srv ` {..<j} \<subseteq> S - {s}" "inj_on srv {..<j}" by auto
  obtain x r db' where d: "dequeue (quiet_env (now j)) pq w (t j) (dbs j) = (Inr (Some r), served x (t j), db')"
    "qr_server_id r = x" "x \<in> waiting pq (now j) (dbs j)" "turn_no (t j) x \<le> turn_no (t j) s"
    by (rule round_serves [OF S(1) _ S(2), where w = w and t = "t j" and pq = pq and now = "now j" and db = "dbs j" and s = s])
      (use S(3) s calm j in auto)
  have x: "served_in pq w now dbs t0 j = Some x" "srv j = x" "t (Suc j) = served x (t j)"
    using d(1,2) by (simp_all add: served_in_def srv_def t_def)
  with passed j have xs: "x \<noteq> s" by auto
  have old: "turn_no (t j) s \<le> tn_counter t0"
  proof (cases "last_served t0 s")
    case (Some m)
    then have "m < tn_counter t0" using t0(1) by (auto simp: last_served_def dest: map_of_SomeD)
    with Some IH(5) show ?thesis using mod_less_eq_dividend [of "m + 1" "2 ^ 64"] by (simp add: turn_no_def wrap_u64_def)
  qed (simp add: turn_no_def IH(5))
  have new: "x \<noteq> srv k" if k: "k < j" for k
  proof
    assume "x = srv k"
    with IH(4) k obtain m where m: "last_served (t j) x = Some m" "tn_counter t0 \<le> m" by auto
    then have "m < tn_counter t0 + j \<or> last_served t0 x = Some m" using IH(3) by (metis option.sel)
    then have "m < tn_counter t0 + j"
      using t0(1) by (fastforce simp: last_served_def dest!: map_of_SomeD)
    then have "turn_no (t j) x = m + 1" using m(1) t0(2) j by (simp add: turn_no_def wrap_u64_def)
    with d(4) old m(2) show False by simp
  qed
  have few: "\<not> 10000 < length (tn_last (t j))" using IH(2) t0(3) j by simp
  have len: "length (al_insert x v ps) \<le> Suc (length ps)" for v :: nat and ps
    by (induction ps) auto
  have sel: "last_served (t (Suc j)) y = (if y = x then Some (tn_counter t0 + j) else last_served (t j) y)" for y
    using few by (simp add: x(3) served_def Let_def last_served_def IH(1))
  have "tn_counter (t (Suc j)) = tn_counter t0 + Suc j"
    using t0(2) j by (simp add: x(3) served_def Let_def IH(1) wrap_u64_def)
  moreover have "length (tn_last (t (Suc j))) \<le> length (tn_last t0) + Suc j"
    using few IH(2) len [of "tn_counter (t j)" "tn_last (t j)"] by (simp add: x(3) served_def Let_def)
  moreover have "\<forall>k < Suc j. \<exists>m. last_served (t (Suc j)) (srv k) = Some m \<and> tn_counter t0 \<le> m"
    using IH(4) x(2) by (auto simp: sel less_Suc_eq)
  moreover have "\<forall>y. last_served (t (Suc j)) y = last_served t0 y
      \<or> (\<exists>m. last_served (t (Suc j)) y = Some m \<and> tn_counter t0 \<le> m \<and> m < tn_counter t0 + Suc j)"
    using IH(3) by (auto simp: sel intro: less_SucI)
  moreover have "x \<in> S" using d(3) S(3) j by blast
  then have "srv ` {..<Suc j} \<subseteq> S - {s}" using IH(6) x(2) xs by (simp add: lessThan_Suc)
  moreover have "inj_on srv {..<Suc j}" using IH(7) x(2) new by (auto simp: lessThan_Suc)
  ultimately show ?case using IH(5) xs by (simp add: sel)
qed

text \<open>
  C14. No server starves: when one worker dequeues again and again, a server that has
  ready mail in every round is served after at most as many rounds as there are
  servers, whatever the other servers' mail is. The rounds' tables are arbitrary,
  apart from this: only the servers of a set of at most a thousand have mail, and no
  row is held by another worker. The turn counter is far from overflowing and fewer
  than ten thousand servers are remembered.
\<close>

theorem dequeue_bounded_waiting:
  assumes "finite S" "card S \<le> n" "card S \<le> 1000"
    "\<forall>k < n. waiting pq (now k) (dbs k) \<subseteq> S" "\<forall>k < n. s \<in> waiting pq (now k) (dbs k)" "s \<in> S"
    "\<forall>k < n. \<forall>r \<in> set (qd_rows (dbs k)). \<not> in_flight pq (now k) r"
    "\<forall>(x, m) \<in> set (tn_last t). m < tn_counter t" "tn_counter t + n < 2 ^ 64" "length (tn_last t) + n \<le> 10000"
  shows "\<exists>k < n. served_in pq w now dbs t k = Some s"
proof (rule ccontr)
  assume "\<not> (\<exists>k < n. served_in pq w now dbs t k = Some s)"
  then have "\<forall>k < n. served_in pq w now dbs t k \<noteq> Some s" by blast
  from rounds_invariant [OF assms(1,3,4,5,7-10) this, of n]
  have i: "(\<lambda>k. the (served_in pq w now dbs t k)) ` {..<n} \<subseteq> S - {s}"
    "inj_on (\<lambda>k. the (served_in pq w now dbs t k)) {..<n}" by simp_all
  have "n = card ((\<lambda>k. the (served_in pq w now dbs t k)) ` {..<n})" by (simp add: card_image i(2))
  also have "\<dots> \<le> card (S - {s})" by (rule card_mono [OF _ i(1)]) (simp add: assms(1))
  also have "\<dots> < card S" using assms(1,6) by (intro psubset_card_mono) auto
  finally show False using assms(2) by simp
qed

section \<open>A small queue\<close>

definition demo_row :: "nat \<Rightarrow> Id \<Rightarrow> bool \<Rightarrow> queued_row" where
  "demo_row i s bulk = \<lparr>lr_id = i, lr_attempts = 0, lr_locked_by = None, lr_locked_at = None, lr_retry_after = None,
     qr_message_id = 10 + i, qr_server_id = s, qr_domain = ''mx.io'', qr_bulk = bulk\<rparr>"

definition demo_queue :: queue_db where
  "demo_queue = \<lparr>qd_rows = [demo_row 0 1 True, demo_row 1 1 False, demo_row 2 2 False], qd_next_id = 3\<rparr>"

definition demo_turns :: turns where
  "demo_turns = \<lparr>tn_counter = 1, tn_last = [(2, 0)]\<rparr>"

lemma demo_ready [simp]:
  "row_ready d now (demo_row i s b)" "lr_id (demo_row i s b) = i" "qr_server_id (demo_row i s b) = s"
  "qr_bulk (demo_row i s b) = b" "serves (with_stale_lock_days d) now (demo_row i s b)"
  "\<not> in_flight pq now (demo_row i s b)" "wf_row (demo_row i s b)"
  "lockable (with_stale_lock_days d) (\<lambda>_. False) s' now (demo_row i s b) \<longleftrightarrow> s = s'"
  by (auto simp: demo_row_def row_ready_def serves_def server_matches_def kind_matches_def with_stale_lock_days_def
      default_filter_def bulk_param_def in_flight_def wf_row_def lockable_def)

lemma demo_queue_wf: "wf_db demo_queue"
  by (simp add: demo_queue_def wf_db_def wf_rows_def)

lemma demo_dequeued:
  "dequeue (quiet_env now) (with_stale_lock_days d) w demo_turns demo_queue
   = (Inr (Some (lock_row w now (demo_row 1 1 False))), served 1 demo_turns,
      demo_queue\<lparr>qd_rows := [demo_row 0 1 True, lock_row w now (demo_row 1 1 False), demo_row 2 2 False]\<rparr>)"
  by (simp add: dequeue_def quiet_env_def list_candidates_def turn_order_def turn_key_def candidate_of_def
      demo_turns_def demo_queue_def last_served_def lock_next_def lock_first_def update_id_def wrap_u64_def)

theorem dequeue_refines_leases_witness:
  "\<exists>es now. run (lease_step 2) (es @ [Lease 1 now]) (queue_leases (with_stale_lock_days 2) demo_queue)
     (queue_leases (with_stale_lock_days 2)
        (demo_queue\<lparr>qd_rows := [demo_row 0 1 True, lock_row ''w'' 5 (demo_row 1 1 False), demo_row 2 2 False]\<rparr>))"
proof -
  have wb: "well_behaved (with_stale_lock_days 2) (quiet_env 5)"
    by (auto simp: well_behaved_def quiet_env_def intro: exI [of _ "[]"])
  have "0 \<le> pq_stale_lock_days (with_stale_lock_days 2)" by (simp add: with_stale_lock_days_def)
  from dequeue_refines_leases [OF demo_queue_wf this wb demo_dequeued [where now = 5 and d = 2 and w = "''w''"]]
  show ?thesis by (auto simp: with_stale_lock_days_def)
qed

theorem dequeue_finds_mail_witness:
  "(\<exists>r t' db'. dequeue (quiet_env 5) (with_stale_lock_days 1) ''w'' demo_turns demo_queue = (Inr (Some r), t', db'))
   \<and> \<not> qr_bulk (lock_row ''w'' 5 (demo_row 1 1 False)) "
  using dequeue_finds_mail [of 5 "with_stale_lock_days 1" "''w''" demo_turns demo_queue]
    demo_dequeued [of 5 1 "''w''"]
  by (auto simp: demo_queue_def lock_row_def)

lemma demo_relock:
  "lock_next (with_stale_lock_days 1) (\<lambda>_. False) ''v'' 2 (6 + day)
     (demo_queue\<lparr>qd_rows := [lock_row ''w'' 5 (demo_row 2 2 False)]\<rparr>)
   = (Some (lock_row ''v'' (6 + day) (demo_row 2 2 False)),
      demo_queue\<lparr>qd_rows := [lock_row ''v'' (6 + day) (demo_row 2 2 False)]\<rparr>)"
  by (simp add: lock_next_def lock_first_def update_id_def lockable_def lock_row_def demo_row_def row_ready_def
      lock_stale_def with_stale_lock_days_def default_filter_def kind_matches_def bulk_param_def)

theorem queue_mutual_exclusion_witness:
  "\<exists>db'. run (queue_step (with_stale_lock_days 1)) [Lease 2 5, Lease 2 (6 + day)]
      (demo_queue\<lparr>qd_rows := [demo_row 2 2 False]\<rparr>) db' \<and> 5 + max 1 1 * day < 6 + day"
proof -
  let ?pq = "with_stale_lock_days 1"
  let ?db = "demo_queue\<lparr>qd_rows := [demo_row 2 2 False]\<rparr>"
  have "lock_next ?pq (\<lambda>_. False) ''w'' 2 5 ?db
      = (Some (lock_row ''w'' 5 (demo_row 2 2 False)), demo_queue\<lparr>qd_rows := [lock_row ''w'' 5 (demo_row 2 2 False)]\<rparr>)"
    by (simp add: lock_next_def lock_first_def update_id_def)
  from queue_step.locks [OF this] queue_step.locks [OF demo_relock] obtain db' where
    r: "run (queue_step ?pq) ([] @ Lease 2 5 # [] @ Lease 2 (6 + day) # []) ?db db'" by auto
  have "wf_db ?db" by (simp add: demo_queue_def wf_db_def wf_rows_def)
  from queue_mutual_exclusion [OF r this] r show ?thesis by auto
qed

theorem dequeue_bounded_waiting_witness:
  "\<exists>k < 2. served_in (with_stale_lock_days 1) ''w'' (\<lambda>k. int k) (\<lambda>_. demo_queue) demo_turns k = Some 2"
proof (rule dequeue_bounded_waiting [of "{1, 2}"])
  have "{r \<in> set (qd_rows demo_queue). serves (with_stale_lock_days 1) now r} = set (qd_rows demo_queue)" for now
    by (auto simp: demo_queue_def)
  then have "waiting (with_stale_lock_days 1) now demo_queue = {1, 2}" for now
    by (simp add: waiting_def) (simp add: demo_queue_def)
  then show "\<forall>k < 2. waiting (with_stale_lock_days 1) (int k) demo_queue \<subseteq> {1, 2}"
    "\<forall>k < 2. 2 \<in> waiting (with_stale_lock_days 1) (int k) demo_queue" by simp_all
qed (simp_all add: demo_queue_def demo_turns_def)

end
