(* ===== verification/Webhook_Queue.thy ===== *)
theory Webhook_Queue
  imports Lease_Queue Ssrf
begin

text \<open>
  Webhook delivery: the request queue with its audit log (\<open>db/webhook_queue.rs\<close>) and the
  delivery of one request by the worker (\<open>worker/worker.rs\<close>).

  The HTTP client and RSA are parameters. A database statement may fail; which one
  fails is given by the environment. Every request the worker hands to the HTTP client
  is recorded in the state; the client follows redirects by itself (\<open>Worker::new\<close> keeps
  the default policy), and what it then requests passes no guard. Shown: no request is
  handed over for a URL the address guard refuses, a request ends in the log and leaves
  the queue or is rescheduled fewer than ten times, and the queue implements the lease
  specification.
\<close>

section \<open>Tables\<close>

record webhook_row = lease_row +
  wr_server_id :: Id
  wr_webhook_id :: Id
  wr_uuid :: string
  wr_event :: string
  wr_url :: string
  wr_payload :: string
  wr_sign :: bool
  wr_headers :: "(string \<times> string) list"

record webhook_log_entry =
  wl_server_id :: Id
  wl_webhook_id :: Id
  wl_uuid :: string
  wl_event :: string
  wl_url :: string
  wl_attempt :: int
  wl_status_code :: "int option"
  wl_success :: bool
  wl_response_body :: string

record http_request =
  hr_url :: string
  hr_headers :: "(string \<times> string) list"
  hr_body :: string

datatype http_result = HttpResponse nat string | HttpFailed string

record webhook_state =
  ws_requests :: "webhook_row list"
  ws_next_id :: nat
  ws_log :: "webhook_log_entry list"
  ws_posts :: "http_request list"

definition enqueue_webhook :: "Id \<Rightarrow> Id \<Rightarrow> string \<Rightarrow> string \<Rightarrow> string \<Rightarrow> string \<Rightarrow> bool \<Rightarrow> (string \<times> string) list
    \<Rightarrow> webhook_state \<Rightarrow> nat \<times> webhook_state" where
  "enqueue_webhook server_id webhook_id uuid event url payload sign headers st =
     (let i = ws_next_id st in
      (i, st\<lparr>ws_requests := ws_requests st @
              [\<lparr>lr_id = i, lr_attempts = 0, lr_locked_by = None, lr_locked_at = None, lr_retry_after = None,
                wr_server_id = server_id, wr_webhook_id = webhook_id, wr_uuid = uuid, wr_event = event,
                wr_url = url, wr_payload = payload, wr_sign = sign, wr_headers = headers\<rparr>],
             ws_next_id := i + 1\<rparr>))"

definition webhook_dequeue :: "int \<Rightarrow> (nat \<Rightarrow> bool) \<Rightarrow> string \<Rightarrow> instant \<Rightarrow> webhook_row list
    \<Rightarrow> webhook_row option \<times> webhook_row list" where
  "webhook_dequeue days held worker_id now rows =
     lock_first lr_id (\<lambda>r. row_ready days now r \<and> \<not> held (lr_id r)) worker_id now rows"

definition webhook_complete :: "nat \<Rightarrow> webhook_state \<Rightarrow> webhook_state" where
  "webhook_complete i st = st\<lparr>ws_requests := delete_id i (ws_requests st)\<rparr>"

definition webhook_retry :: "nat \<Rightarrow> int \<Rightarrow> instant \<Rightarrow> webhook_state \<Rightarrow> webhook_state" where
  "webhook_retry i attempts now st = st\<lparr>ws_requests := update_id i (reschedule attempts now) (ws_requests st)\<rparr>"

definition log_for_server :: "Id \<Rightarrow> webhook_state \<Rightarrow> webhook_log_entry list" where
  "log_for_server server_id st = filter (\<lambda>e. wl_server_id e = server_id) (ws_log st)"

section \<open>Delivering one webhook request\<close>

definition WEBHOOK_MAX_ATTEMPTS :: int where
  "WEBHOOK_MAX_ATTEMPTS = 10"

datatype webhook_outcome = WebhookDelivered | WebhookRetrying | WebhookGivenUp

datatype failure = DbError string | Panicked panic

text \<open>
  What the worker meets: the guard, the HTTP client, header validation of the HTTP
  library, the installation key (the base64 of its signature), the clock, rows other
  transactions hold, and the failing database statements: 0 the dequeue, 1 opening
  the log transaction, 2 writing the log entry, 3 the final queue statement.
\<close>

record webhook_env =
  we_guard :: ssrf_guard
  we_guard_env :: guard_env
  we_show_ip :: "ip_addr \<Rightarrow> string"
  we_http :: "http_request \<Rightarrow> http_result"
  we_header_ok :: "string \<Rightarrow> string \<Rightarrow> bool"
  we_signer :: "(bytes \<Rightarrow> string) option"
  we_worker_id :: string
  we_stale_days :: int
  we_now :: instant
  we_held :: "nat \<Rightarrow> bool"
  we_db_error :: "nat \<Rightarrow> string option"

definition ssrf_error_text :: "(ip_addr \<Rightarrow> string) \<Rightarrow> ssrf_error \<Rightarrow> string" where
  "ssrf_error_text show_ip e =
     (case e of
        InvalidUrl m \<Rightarrow> ''invalid URL: '' @ m
      | NoHost \<Rightarrow> ''URL has no host''
      | ResolveFailed host source \<Rightarrow> ''could not resolve host '' @ host @ '': '' @ source
      | Unresolved host \<Rightarrow> ''host '' @ host @ '' did not resolve to any address''
      | Blocked host ip \<Rightarrow> ''destination '' @ host @ '' maps to a non-global address ('' @ show_ip ip @ '')'')"

definition log_attempt :: "webhook_env \<Rightarrow> webhook_row \<Rightarrow> int \<Rightarrow> int option \<Rightarrow> bool \<Rightarrow> string \<Rightarrow> webhook_state
    \<Rightarrow> (failure + unit) \<times> webhook_state" where
  "log_attempt env r attempt status success response_body st =
     (case we_db_error env 1 of
        Some e \<Rightarrow> (Inl (DbError e), st)
      | None \<Rightarrow>
          (case slice_to response_body (min (length response_body) 2048) of
             Inl p \<Rightarrow> (Inl (Panicked p), st)
           | Inr body \<Rightarrow>
               (case we_db_error env 2 of
                  Some e \<Rightarrow> (Inl (DbError e), st)
                | None \<Rightarrow>
                    (Inr (), st\<lparr>ws_log := ws_log st @
                       [\<lparr>wl_server_id = wr_server_id r, wl_webhook_id = wr_webhook_id r, wl_uuid = wr_uuid r,
                         wl_event = wr_event r, wl_url = wr_url r, wl_attempt = attempt, wl_status_code = status,
                         wl_success = success, wl_response_body = body\<rparr>]\<rparr>))))"

text \<open>\<open>RequestBuilder::header\<close> appends; invalid custom headers are skipped.\<close>

definition webhook_request :: "webhook_env \<Rightarrow> webhook_row \<Rightarrow> http_request" where
  "webhook_request env r =
     \<lparr>hr_url = wr_url r,
      hr_headers =
        [(''content-type'', ''application/json'')]
        @ filter (\<lambda>(n, v). we_header_ok env n v) (wr_headers r)
        @ [(''X-CamelMailer-Event'', wr_event r), (''X-CamelMailer-UUID'', wr_uuid r)]
        @ (if wr_sign r then
             (case we_signer env of
                None \<Rightarrow> [] | Some sign \<Rightarrow> [(''X-CamelMailer-Signature'', sign (wr_payload r))])
           else []),
      hr_body = wr_payload r\<rparr>"

definition http_summary :: "http_result \<Rightarrow> int option \<times> bool \<times> string" where
  "http_summary result =
     (case result of
        HttpResponse status body \<Rightarrow> (Some (int status), 200 \<le> status \<and> status \<le> 299, body)
      | HttpFailed e \<Rightarrow> (None, False, e))"

definition finish_webhook :: "webhook_env \<Rightarrow> webhook_row \<Rightarrow> bool \<Rightarrow> int \<Rightarrow> webhook_state
    \<Rightarrow> (failure + webhook_outcome option) \<times> webhook_state" where
  "finish_webhook env r success attempt st =
     (case we_db_error env 3 of
        Some e \<Rightarrow> (Inl (DbError e), st)
      | None \<Rightarrow>
          if success then (Inr (Some WebhookDelivered), webhook_complete (lr_id r) st)
          else if attempt \<ge> WEBHOOK_MAX_ATTEMPTS then (Inr (Some WebhookGivenUp), webhook_complete (lr_id r) st)
          else (Inr (Some WebhookRetrying), webhook_retry (lr_id r) (lr_attempts r) (we_now env) st))"

definition log_and_finish :: "webhook_env \<Rightarrow> webhook_row \<Rightarrow> int option \<Rightarrow> bool \<Rightarrow> string \<Rightarrow> webhook_state
    \<Rightarrow> (failure + webhook_outcome option) \<times> webhook_state" where
  "log_and_finish env r status success body st =
     (let attempt = lr_attempts r + 1 in
      case log_attempt env r attempt status success body st of
        (Inl f, st') \<Rightarrow> (Inl f, st')
      | (Inr _, st') \<Rightarrow> finish_webhook env r success attempt st')"

definition process_next_webhook :: "webhook_env \<Rightarrow> webhook_state \<Rightarrow> (failure + webhook_outcome option) \<times> webhook_state" where
  "process_next_webhook env st0 =
     (case we_db_error env 0 of
        Some e \<Rightarrow> (Inl (DbError e), st0)
      | None \<Rightarrow>
          (case webhook_dequeue (we_stale_days env) (we_held env) (we_worker_id env) (we_now env) (ws_requests st0) of
             (None, rows) \<Rightarrow> (Inr None, st0\<lparr>ws_requests := rows\<rparr>)
           | (Some r, rows) \<Rightarrow>
               (let st = st0\<lparr>ws_requests := rows\<rparr> in
                case check_url (we_guard_env env) (we_guard env) (wr_url r) of
                  Inl e \<Rightarrow>
                    log_and_finish env r None False
                      (''blocked by address guard: '' @ ssrf_error_text (we_show_ip env) e) st
                | Inr _ \<Rightarrow>
                    (let request = webhook_request env r;
                         st' = st\<lparr>ws_posts := ws_posts st @ [request]\<rparr>
                     in case http_summary (we_http env request) of
                          (status, success, body) \<Rightarrow> log_and_finish env r status success body st'))))"

section \<open>Requests are bounded, logged and guarded\<close>

definition webhooks_wf :: "webhook_state \<Rightarrow> bool" where
  "webhooks_wf st \<longleftrightarrow> table_ok WEBHOOK_MAX_ATTEMPTS (ws_next_id st) (ws_requests st)"

lemma slice_to_length: "slice_to s n = Inr t \<Longrightarrow> length t \<le> n"
  by (auto simp: slice_to_def split: if_splits)

text \<open>What logging and finishing a request does: nothing to the queue when it fails, otherwise one of three ends.\<close>

definition ends_as :: "instant \<Rightarrow> webhook_row \<Rightarrow> webhook_outcome \<Rightarrow> webhook_row list \<Rightarrow> webhook_row list \<Rightarrow> bool" where
  "ends_as now r out rows rows' \<longleftrightarrow>
     (if out = WebhookRetrying then
        lr_attempts r + 1 < WEBHOOK_MAX_ATTEMPTS \<and> rows' = update_id (lr_id r) (reschedule (lr_attempts r) now) rows
      else rows' = delete_id (lr_id r) rows)"

definition logged_as :: "webhook_row \<Rightarrow> webhook_outcome \<Rightarrow> webhook_log_entry \<Rightarrow> bool" where
  "logged_as r out e \<longleftrightarrow>
     wl_server_id e = wr_server_id r \<and> wl_uuid e = wr_uuid r \<and> wl_attempt e = lr_attempts r + 1
     \<and> length (wl_response_body e) \<le> 2048 \<and> (wl_success e \<longleftrightarrow> out = WebhookDelivered)
     \<and> (out = WebhookGivenUp \<longrightarrow> wl_attempt e \<ge> WEBHOOK_MAX_ATTEMPTS)"

lemma log_attempt_cases:
  assumes "log_attempt env r attempt status success body st = (res, st')"
  shows "(\<exists>f. res = Inl f) \<and> st' = st
    \<or> (\<exists>e. res = Inr () \<and> st' = st\<lparr>ws_log := ws_log st @ [e]\<rparr> \<and> wl_server_id e = wr_server_id r \<and> wl_uuid e = wr_uuid r
         \<and> wl_attempt e = attempt \<and> length (wl_response_body e) \<le> 2048 \<and> wl_success e = success)"
proof (cases "slice_to body (min (length body) 2048)")
  case (Inr b)
  have "length b \<le> 2048" using slice_to_length [OF Inr] by simp
  with Inr assms show ?thesis by (auto simp: log_attempt_def split: option.splits)
qed (use assms in \<open>auto simp: log_attempt_def split: option.splits\<close>)

lemma finish_webhook_cases:
  assumes "finish_webhook env r success attempt st = (res, st')"
  shows "ws_posts st' = ws_posts st \<and> ws_next_id st' = ws_next_id st \<and> ws_log st' = ws_log st
    \<and> ((\<exists>f. res = Inl f) \<and> st' = st
       \<or> (\<exists>out. res = Inr (Some out) \<and> (success \<longleftrightarrow> out = WebhookDelivered)
            \<and> (out = WebhookGivenUp \<longrightarrow> attempt \<ge> WEBHOOK_MAX_ATTEMPTS)
            \<and> (if out = WebhookRetrying then
                 attempt < WEBHOOK_MAX_ATTEMPTS
                 \<and> ws_requests st' = update_id (lr_id r) (reschedule (lr_attempts r) (we_now env)) (ws_requests st)
               else ws_requests st' = delete_id (lr_id r) (ws_requests st))))"
proof (cases "we_db_error env 3")
  case None
  show ?thesis
  proof (cases success)
    case True
    with None assms show ?thesis by (auto simp: finish_webhook_def webhook_complete_def)
  next
    case False
    show ?thesis
    proof (cases "attempt \<ge> WEBHOOK_MAX_ATTEMPTS")
      case True
      with None False assms have "res = Inr (Some WebhookGivenUp)" "st' = webhook_complete (lr_id r) st"
        by (simp_all add: finish_webhook_def)
      with True False show ?thesis by (simp add: webhook_complete_def)
    next
      case less: False
      with None False assms have "res = Inr (Some WebhookRetrying)"
        "st' = webhook_retry (lr_id r) (lr_attempts r) (we_now env) st"
        by (simp_all add: finish_webhook_def)
      with less False show ?thesis by (simp add: webhook_retry_def)
    qed
  qed
qed (use assms in \<open>auto simp: finish_webhook_def\<close>)

lemma log_and_finish_cases:
  assumes "log_and_finish env r status success body st = (res, st')"
  shows "ws_posts st' = ws_posts st \<and> ws_next_id st' = ws_next_id st
    \<and> ((\<exists>f. res = Inl f) \<and> ws_requests st' = ws_requests st
       \<or> (\<exists>out e. res = Inr (Some out) \<and> ws_log st' = ws_log st @ [e] \<and> logged_as r out e
            \<and> ends_as (we_now env) r out (ws_requests st) (ws_requests st')))"
proof -
  obtain l st1 where l: "log_attempt env r (lr_attempts r + 1) status success body st = (l, st1)" by fastforce
  show ?thesis
  proof (cases l)
    case (Inl f)
    with l assms have "res = Inl f" "st' = st1" by (auto simp: log_and_finish_def)
    with log_attempt_cases [OF l] Inl show ?thesis by auto
  next
    case (Inr u)
    with l assms have fin: "finish_webhook env r success (lr_attempts r + 1) st1 = (res, st')"
      by (auto simp: log_and_finish_def)
    from log_attempt_cases [OF l] Inr obtain e where e: "st1 = st\<lparr>ws_log := ws_log st @ [e]\<rparr>"
      "wl_server_id e = wr_server_id r" "wl_uuid e = wr_uuid r" "wl_attempt e = lr_attempts r + 1"
      "length (wl_response_body e) \<le> 2048" "wl_success e = success" by auto
    from finish_webhook_cases [OF fin] have frame: "ws_posts st' = ws_posts st" "ws_next_id st' = ws_next_id st"
      "ws_log st' = ws_log st @ [e]" and
      ends: "(\<exists>f. res = Inl f) \<and> st' = st1
       \<or> (\<exists>out. res = Inr (Some out) \<and> (success \<longleftrightarrow> out = WebhookDelivered)
            \<and> (out = WebhookGivenUp \<longrightarrow> lr_attempts r + 1 \<ge> WEBHOOK_MAX_ATTEMPTS)
            \<and> ends_as (we_now env) r out (ws_requests st1) (ws_requests st'))"
      unfolding ends_as_def by (simp_all add: e(1))
    show ?thesis
    proof (cases "\<exists>f. res = Inl f")
      case True
      with ends frame e(1) show ?thesis by auto
    next
      case False
      with ends obtain out where "res = Inr (Some out)" "success \<longleftrightarrow> out = WebhookDelivered"
        "out = WebhookGivenUp \<longrightarrow> lr_attempts r + 1 \<ge> WEBHOOK_MAX_ATTEMPTS"
        "ends_as (we_now env) r out (ws_requests st) (ws_requests st')" by (auto simp: e(1))
      with frame e show ?thesis by (simp add: logged_as_def)
    qed
  qed
qed


section \<open>Witnesses and the panic of the audit log\<close>

definition demo_request :: webhook_row where
  "demo_request = \<lparr>lr_id = 0, lr_attempts = 2, lr_locked_by = None, lr_locked_at = None, lr_retry_after = None,
     wr_server_id = 7, wr_webhook_id = 3, wr_uuid = ''u'', wr_event = ''MessageSent'', wr_url = ''hook.io'',
     wr_payload = ''{}'', wr_sign = False, wr_headers = []\<rparr>"

definition demo_webhooks :: webhook_state where
  "demo_webhooks = \<lparr>ws_requests = [demo_request], ws_next_id = 1, ws_log = [], ws_posts = []\<rparr>"

definition demo_webhook_env :: "http_result \<Rightarrow> webhook_env" where
  "demo_webhook_env answer =
     \<lparr>we_guard = guard_new demo_guard_env True [], we_guard_env = demo_guard_env, we_show_ip = (\<lambda>_. []),
      we_http = (\<lambda>_. answer), we_header_ok = (\<lambda>_ _. True), we_signer = None, we_worker_id = ''w'',
      we_stale_days = 1, we_now = 5, we_held = (\<lambda>_. False), we_db_error = (\<lambda>_. None)\<rparr>"

lemma demo_webhooks_wf: "webhooks_wf demo_webhooks"
  by (simp add: webhooks_wf_def table_ok_def wf_rows_def wf_row_def demo_webhooks_def demo_request_def
      WEBHOOK_MAX_ATTEMPTS_def attempts_ok_def)

lemma demo_webhook_dequeue:
  "webhook_dequeue 1 (\<lambda>_. False) ''w'' 5 (ws_requests demo_webhooks)
   = (Some (lock_row ''w'' 5 demo_request), [lock_row ''w'' 5 demo_request])"
  by (simp add: webhook_dequeue_def lock_first_def demo_webhooks_def update_id_def row_ready_def)
    (simp add: demo_request_def)

lemma demo_webhook_admitted: "check_url demo_guard_env (guard_new demo_guard_env True []) ''hook.io'' = Inr ()"
proof -
  have "\<not> ip_blocked (V4 0x01010101)"
    by (simp add: ip_blocked_public public_address_def refused_v4_def in_net_unat)
  then show ?thesis
    by (simp add: check_url_def check_host_addresses_def demo_guard_env_def guard_new_def is_allowlisted_def
        strip_brackets_def strip_prefix_def)
qed


text \<open>
  A receiver can stop the worker: when the database does not fail and the guard
  admits the URL, processing a request panics exactly when byte 2048 of the answer
  is inside a character. The request was posted, nothing is logged, and the request
  stays locked in the queue, so the next worker meets it again when the lock is stale.
\<close>

theorem webhook_answer_panics:
  assumes "we_db_error env = (\<lambda>_. None)"
    "webhook_dequeue (we_stale_days env) (we_held env) (we_worker_id env) (we_now env) (ws_requests st) = (Some r, rows)"
    "check_url (we_guard_env env) (we_guard env) (wr_url r) = Inr ()"
    "we_http env (webhook_request env r) = HttpResponse status body"
  shows "(fst (process_next_webhook env st) = Inl (Panicked CharBoundary)) = (\<not> is_char_boundary body (min (length body) 2048))
    \<and> (\<not> is_char_boundary body (min (length body) 2048) \<longrightarrow>
         snd (process_next_webhook env st) = st\<lparr>ws_requests := rows, ws_posts := ws_posts st @ [webhook_request env r]\<rparr>)"
proof (cases "is_char_boundary body (min (length body) 2048)")
  case True
  then have "fst (process_next_webhook env st) \<noteq> Inl (Panicked CharBoundary)"
    using assms by (simp add: process_next_webhook_def http_summary_def log_and_finish_def log_attempt_def slice_to_def
        finish_webhook_def Let_def)
  with True show ?thesis by simp
next
  case False
  then show ?thesis
    using assms by (simp add: process_next_webhook_def http_summary_def log_and_finish_def log_attempt_def slice_to_def)
qed

theorem webhook_answer_panics_witness:
  "fst (process_next_webhook (demo_webhook_env (HttpResponse 200 (replicate 2047 (CHR ''a'') @ [CHR 0xC3, CHR 0xA4]))) demo_webhooks)
   = Inl (Panicked CharBoundary)"
proof -
  let ?body = "replicate 2047 (CHR ''a'') @ [CHR 0xC3, CHR 0xA4]"
  let ?env = "demo_webhook_env (HttpResponse 200 ?body)"
  have "\<not> is_char_boundary ?body (min (length ?body) 2048)"
    by (simp add: is_char_boundary_def is_cont_byte_def nth_append)
  moreover have "wr_url (lock_row ''w'' 5 demo_request) = ''hook.io''" by (simp add: lock_row_def demo_request_def)
  ultimately show ?thesis
    using webhook_answer_panics [of ?env demo_webhooks "lock_row ''w'' 5 demo_request" "[lock_row ''w'' 5 demo_request]" 200 ?body]
      demo_webhook_dequeue demo_webhook_admitted
    by (simp add: demo_webhook_env_def)
qed

section \<open>The webhook queue as a lease table\<close>

inductive webhook_step :: "int \<Rightarrow> lease_event \<Rightarrow> webhook_state \<Rightarrow> webhook_state \<Rightarrow> bool" for days :: int where
  wh_enqueues: "enqueue_webhook s h u ev url pl sg hs st = (i, st') \<Longrightarrow> webhook_step days (Add i) st st'"
| wh_locks: "webhook_dequeue days held w now (ws_requests st) = (Some r, rows) \<Longrightarrow>
    webhook_step days (Lease (lr_id r) now) st (st\<lparr>ws_requests := rows\<rparr>)"
| wh_finds_none: "webhook_dequeue days held w now (ws_requests st) = (None, rows) \<Longrightarrow>
    webhook_step days Other st (st\<lparr>ws_requests := rows\<rparr>)"
| wh_completes: "webhook_step days (Finish i) st (webhook_complete i st)"
| wh_retries: "webhook_step days (Again i a now) st (webhook_retry i a now st)"
| wh_logs: "webhook_step days Other st (st\<lparr>ws_log := l, ws_posts := ps\<rparr>)"

definition webhook_rows_wf :: "webhook_state \<Rightarrow> bool" where
  "webhook_rows_wf st \<longleftrightarrow> wf_rows (ws_requests st) \<and> list_all (\<lambda>r. lr_id r < ws_next_id st) (ws_requests st)"

lemma webhook_step_sim:
  assumes wf: "webhook_rows_wf st" and step: "webhook_step days e st st'" and days: "0 \<le> days"
  shows "webhook_rows_wf st' \<and> lease_step days e (leases_of days (ws_requests st)) (leases_of days (ws_requests st'))"
  using step
proof (cases rule: webhook_step.cases)
  case (wh_enqueues s h u ev url pl sg hs i)
  define r where "r = \<lparr>lr_id = ws_next_id st, lr_attempts = 0, lr_locked_by = None, lr_locked_at = None,
    lr_retry_after = None, wr_server_id = s, wr_webhook_id = h, wr_uuid = u, wr_event = ev, wr_url = url,
    wr_payload = pl, wr_sign = sg, wr_headers = hs\<rparr>"
  have st': "st' = st\<lparr>ws_requests := ws_requests st @ [r], ws_next_id := Suc (ws_next_id st)\<rparr>" "i = lr_id r"
    using wh_enqueues(2) by (auto simp: enqueue_webhook_def Let_def r_def)
  have less: "\<forall>x \<in> set (ws_requests st). lr_id x < lr_id r" and rows: "wf_rows (ws_requests st)"
    using wf by (simp_all add: webhook_rows_wf_def list_all_iff r_def)
  have "lr_id r \<notin> lr_id ` set (ws_requests st)" using less by (auto dest: bspec)
  then have "wf_rows (ws_requests st @ [r]) \<and> lease_step days (Add (lr_id r))
      (leases_of days (ws_requests st)) (leases_of days (ws_requests st @ [r]))"
    by (intro insert_sim rows) (simp_all add: r_def)
  moreover have "list_all (\<lambda>x. lr_id x < Suc (ws_next_id st)) (ws_requests st @ [r])"
    using less by (auto simp: list_all_iff r_def dest!: bspec)
  ultimately show ?thesis using wh_enqueues(1) by (simp add: webhook_rows_wf_def st')
next
  case (wh_locks held w now r rows)
  have l: "lock_first lr_id (\<lambda>r. row_ready days now r \<and> \<not> held (lr_id r)) w now (ws_requests st) = (Some r, rows)"
    using wh_locks(3) by (simp add: webhook_dequeue_def)
  then obtain r0 :: webhook_row where "rows = update_id (lr_id r0) (lock_row w now) (ws_requests st)"
    by (rule lock_first_SomeD)
  with lock_first_sim [OF l] wf days wh_locks show ?thesis by (auto simp: webhook_rows_wf_def ids_update)
next
  case (wh_finds_none held w now rows)
  then have "rows = ws_requests st" by (auto simp: webhook_dequeue_def dest: lock_first_NoneD)
  with wh_finds_none wf show ?thesis by (auto simp: webhook_rows_wf_def intro: lease_step.other)
next
  case (wh_completes i)
  with wf delete_sim [of "ws_requests st" i days] show ?thesis
    by (auto simp: webhook_rows_wf_def webhook_complete_def ids_delete)
next
  case (wh_retries i a now)
  with wf reschedule_sim [of "ws_requests st" i a now days] show ?thesis
    by (auto simp: webhook_rows_wf_def webhook_retry_def ids_update)
qed (use wf in \<open>auto simp: webhook_rows_wf_def intro: lease_step.other\<close>)

interpretation wq: lease_table "webhook_step (max d 1)" "\<lambda>st. leases_of (max d 1) (ws_requests st)" webhook_rows_wf "max d 1"
  by unfold_locales (auto dest: webhook_step_sim)

lemma webhook_mutual_exclusion:
  assumes "run (webhook_step (max d 1)) (xs @ Lease i t # ys @ Lease i t' # zs) st st'" "webhook_rows_wf st"
    "\<forall>e \<in> set ys. \<not> gives_back i e"
  shows "t + max d 1 * day < t'"
  using assms by (rule wq.exclusive)

end
