(* ===== verification/Lifecycle.thy ===== *)
theory Lifecycle
  imports Webhook_Queue
begin

text \<open>
  Installation lifecycle events: the signature scheme (\<open>core/lifecycle.rs\<close>), the outbox
  (\<open>db/lifecycle_queue.rs\<close>) and the delivery of one event to every configured URL
  (\<open>worker/worker.rs\<close>). HMAC-SHA256 is the parameter \<open>hmac\<close>, key first.

  Shown: a receiver that checks signatures accepts every delivery within its time
  window, accepts nothing that was not signed for that time and body, and sees the
  same bytes on every retry.
\<close>

section \<open>Signatures\<close>

definition SIGNATURE_HEADER :: string where
  "SIGNATURE_HEADER = ''X-Camelmailer-Signature''"

definition EVENT_HEADER :: string where
  "EVENT_HEADER = ''X-Camelmailer-Event''"

definition EVENT_ID_HEADER :: string where
  "EVENT_ID_HEADER = ''X-Camelmailer-Event-Id''"

type_synonym hmac = "bytes \<Rightarrow> bytes \<Rightarrow> bytes"

definition mac :: "hmac \<Rightarrow> string \<Rightarrow> int \<Rightarrow> string \<Rightarrow> bytes" where
  "mac hmac secret timestamp body = hmac secret (show_int timestamp @ ''.'' @ body)"

definition signature_header :: "hmac \<Rightarrow> string \<Rightarrow> int \<Rightarrow> string \<Rightarrow> string" where
  "signature_header hmac secret timestamp body =
     ''t='' @ show_int timestamp @ '',v1='' @ to_hex (mac hmac secret timestamp body)"

text \<open>\<open>str::parse::<i64>\<close>.\<close>

definition parse_i64 :: "string \<Rightarrow> int option" where
  "parse_i64 s =
     (let neg = prefix ''-'' s;
          ds = (if neg \<or> prefix ''+'' s then tl s else s);
          v = (if neg then - int (digits_value ds) else int (digits_value ds))
      in if ds \<noteq> [] \<and> list_all is_ascii_digit ds \<and> in_i64 v then Some v else None)"

fun decode_hex :: "string \<Rightarrow> bytes option" where
  "decode_hex [] = Some []"
| "decode_hex [c] = None"
| "decode_hex (a # b # s) =
     (case parse_hex2 a b of
        None \<Rightarrow> None
      | Some v \<Rightarrow> map_option (\<lambda>bs. char_of v # bs) (decode_hex s))"

definition header_part :: "string \<Rightarrow> int option \<times> string list \<Rightarrow> int option \<times> string list" where
  "header_part part acc =
     (case split_once (CHR ''='') (trim part) of
        Some (n, v) \<Rightarrow>
          if n = ''t'' then (parse_i64 v, snd acc)
          else if n = ''v1'' then (fst acc, snd acc @ [v])
          else acc
      | None \<Rightarrow> acc)"

text \<open>The difference of the two times wraps around, as in a release build.\<close>

definition verify_signature :: "hmac \<Rightarrow> string \<Rightarrow> string \<Rightarrow> string \<Rightarrow> int \<Rightarrow> int \<Rightarrow> bool" where
  "verify_signature hmac secret header body now tolerance =
     (case fold header_part (split_on (CHR '','') header) (None, []) of
        (None, _) \<Rightarrow> False
      | (Some timestamp, signatures) \<Rightarrow>
          if wrap_i64 \<bar>wrap_i64 (now - timestamp)\<bar> > tolerance then False
          else list_ex (\<lambda>s. decode_hex s = Some (mac hmac secret timestamp body)) signatures)"

section \<open>The outbox\<close>

record lifecycle_row = lease_row +
  ly_uuid :: string
  ly_event :: string
  ly_payload :: string
  ly_last_error :: "string option"

record lifecycle_state =
  ls_events :: "lifecycle_row list"
  ls_posts :: "http_request list"

definition lifecycle_dequeue :: "int \<Rightarrow> (nat \<Rightarrow> bool) \<Rightarrow> string \<Rightarrow> instant \<Rightarrow> lifecycle_row list
    \<Rightarrow> lifecycle_row option \<times> lifecycle_row list" where
  "lifecycle_dequeue days held worker_id now rows =
     lock_first lr_id (\<lambda>r. row_ready days now r \<and> \<not> held (lr_id r)) worker_id now rows"

definition lifecycle_complete :: "nat \<Rightarrow> lifecycle_state \<Rightarrow> lifecycle_state" where
  "lifecycle_complete i st = st\<lparr>ls_events := delete_id i (ls_events st)\<rparr>"

definition lifecycle_retry :: "nat \<Rightarrow> int \<Rightarrow> string \<Rightarrow> instant \<Rightarrow> lifecycle_state \<Rightarrow> lifecycle_state" where
  "lifecycle_retry i attempts error now st =
     st\<lparr>ls_events := update_id i (\<lambda>r. (reschedule attempts now r)\<lparr>ly_last_error := Some error\<rparr>) (ls_events st)\<rparr>"

definition discard_all :: "lifecycle_state \<Rightarrow> nat \<times> lifecycle_state" where
  "discard_all st = (length (ls_events st), st\<lparr>ls_events := []\<rparr>)"

definition pending_events :: "lifecycle_state \<Rightarrow> lifecycle_row list" where
  "pending_events st = sort_key lr_id (ls_events st)"

section \<open>Delivering one event\<close>

text \<open>
  The settings and what the worker meets: the receivers, the clock at each request
  (Unix seconds), the text of a status line, and failing statements (0 the dequeue,
  1 the final one).
\<close>

record lifecycle_env =
  lf_urls :: "string list"
  lf_secret :: "string option"
  lf_hmac :: hmac
  lf_clock :: "nat \<Rightarrow> int"
  lf_http :: "http_request \<Rightarrow> http_result"
  lf_show_status :: "nat \<Rightarrow> string"
  lf_worker_id :: string
  lf_stale_days :: int
  lf_now :: instant
  lf_held :: "nat \<Rightarrow> bool"
  lf_db_error :: "nat \<Rightarrow> string option"

definition lifecycle_enabled :: "lifecycle_env \<Rightarrow> bool" where
  "lifecycle_enabled env \<longleftrightarrow> lf_urls env \<noteq> []"

definition lifecycle_request :: "lifecycle_env \<Rightarrow> lifecycle_row \<Rightarrow> nat \<Rightarrow> string \<Rightarrow> http_request" where
  "lifecycle_request env r k url =
     (let secret = (case lf_secret env of None \<Rightarrow> [] | Some s \<Rightarrow> s) in
      \<lparr>hr_url = url,
       hr_headers =
         [(''content-type'', ''application/json''), (EVENT_HEADER, ly_event r), (EVENT_ID_HEADER, ly_uuid r),
          (SIGNATURE_HEADER, signature_header (lf_hmac env) secret (lf_clock env k) (ly_payload r))],
       hr_body = ly_payload r\<rparr>)"

definition answered_ok :: "http_result \<Rightarrow> bool" where
  "answered_ok result = (case result of HttpResponse status _ \<Rightarrow> 200 \<le> status \<and> status \<le> 299 | HttpFailed _ \<Rightarrow> False)"

definition post_failure :: "lifecycle_env \<Rightarrow> string \<Rightarrow> http_result \<Rightarrow> string list" where
  "post_failure env url result =
     (if answered_ok result then []
      else (case result of
              HttpResponse status _ \<Rightarrow> [url @ '': HTTP '' @ lf_show_status env status]
            | HttpFailed e \<Rightarrow> [url @ '': '' @ e]))"

fun post_all :: "lifecycle_env \<Rightarrow> lifecycle_row \<Rightarrow> nat \<Rightarrow> string list \<Rightarrow> http_request list \<times> string list" where
  "post_all env r k [] = ([], [])"
| "post_all env r k (url # urls) =
     (let request = lifecycle_request env r k url in
      case post_all env r (Suc k) urls of
        (requests, failures) \<Rightarrow> (request # requests, post_failure env url (lf_http env request) @ failures))"

fun join_with :: "string \<Rightarrow> string list \<Rightarrow> string" where
  "join_with sep [] = []"
| "join_with sep [s] = s"
| "join_with sep (s # t # ts) = s @ sep @ join_with sep (t # ts)"

definition finish_event :: "lifecycle_env \<Rightarrow> lifecycle_row \<Rightarrow> string list \<Rightarrow> lifecycle_state
    \<Rightarrow> (failure + webhook_outcome option) \<times> lifecycle_state" where
  "finish_event env r failures st =
     (case lf_db_error env 1 of
        Some e \<Rightarrow> (Inl (DbError e), st)
      | None \<Rightarrow>
          if failures = [] then (Inr (Some WebhookDelivered), lifecycle_complete (lr_id r) st)
          else if lr_attempts r + 1 \<ge> WEBHOOK_MAX_ATTEMPTS then
            (Inr (Some WebhookGivenUp), lifecycle_complete (lr_id r) st)
          else
            (Inr (Some WebhookRetrying),
             lifecycle_retry (lr_id r) (lr_attempts r) (join_with ''; '' failures) (lf_now env) st))"

definition process_next_lifecycle_event :: "lifecycle_env \<Rightarrow> lifecycle_state
    \<Rightarrow> (failure + webhook_outcome option) \<times> lifecycle_state" where
  "process_next_lifecycle_event env st0 =
     (if \<not> lifecycle_enabled env then (Inr None, st0)
      else
        (case lf_db_error env 0 of
           Some e \<Rightarrow> (Inl (DbError e), st0)
         | None \<Rightarrow>
             (case lifecycle_dequeue (lf_stale_days env) (lf_held env) (lf_worker_id env) (lf_now env) (ls_events st0) of
                (None, rows) \<Rightarrow> (Inr None, st0\<lparr>ls_events := rows\<rparr>)
              | (Some r, rows) \<Rightarrow>
                  (case post_all env r 0 (lf_urls env) of
                     (requests, failures) \<Rightarrow>
                       finish_event env r failures
                         (st0\<lparr>ls_events := rows, ls_posts := ls_posts st0 @ requests\<rparr>)))))"

section \<open>The signature scheme is exact\<close>

lemma to_hex_Cons: "to_hex (c # bs) = hex_digit (byte c div 16) # hex_digit (byte c mod 16) # to_hex bs"
  by (simp add: to_hex_def)

lemma decode_to_hex: "decode_hex (to_hex bs) = Some bs"
proof (induction bs)
  case (Cons c bs)
  with parse_hex2_byte show ?case by (simp add: to_hex_Cons)
qed (simp add: to_hex_def)

lemma show_int_chars: "c \<in> set (show_int n) \<Longrightarrow> is_ascii_digit c \<or> c = CHR ''-''"
  using show_nat_digits [of "nat n"] show_nat_digits [of "nat (- n)"] by (auto simp: show_int_def list_all_iff split: if_splits)

lemma parse_show_int: "in_i64 n \<Longrightarrow> parse_i64 (show_int n) = Some n"
proof -
  assume n: "in_i64 n"
  have nd: "\<not> prefix ''-'' (show_nat m)" "\<not> prefix ''+'' (show_nat m)" for m
    using show_nat_digits [of m] by (cases "show_nat m"; auto simp: is_ascii_digit_def)+
  show ?thesis
    using n nd show_nat_digits by (simp add: parse_i64_def show_int_def Let_def digits_value_show)
qed

lemma hex_chars: "c \<in> set (to_hex bs) \<Longrightarrow> is_ascii_alnum c"
proof (induction bs)
  case (Cons b bs)
  have "is_ascii_alnum (hex_digit d)" if "d < 16" for d
    using that by (auto simp: hex_digit_def is_ascii_alnum_def is_ascii_digit_def is_ascii_lower_def)
  with Cons show ?case by (auto simp: to_hex_Cons)
qed (simp add: to_hex_def)

lemma sign_part_trim:
  assumes "\<forall>c \<in> set s. is_ascii_alnum c \<or> c = CHR ''-''"
  shows "trim (''t='' @ s) = ''t='' @ s" "trim (''v1='' @ s) = ''v1='' @ s"
    "CHR '','' \<notin> set s" "CHR ''='' \<notin> set s"
proof -
  have "0x21 \<le> byte c \<and> byte c \<le> 0x7E" if "is_ascii_alnum c \<or> c = CHR ''-''" for c
    using that by (auto simp: is_ascii_alnum_def is_ascii_digit_def is_ascii_lower_def is_ascii_upper_def)
  with assms have "list_all (\<lambda>c. 0x21 \<le> byte c \<and> byte c \<le> 0x7E) s" unfolding list_all_iff by blast
  then show "trim (''t='' @ s) = ''t='' @ s" "trim (''v1='' @ s) = ''v1='' @ s"
    by (intro trim_graphic; simp)+
qed (use assms in \<open>auto simp: is_ascii_alnum_def is_ascii_digit_def is_ascii_lower_def is_ascii_upper_def\<close>)

lemma signature_header_parts:
  assumes "in_i64 ts"
  shows "fold header_part (split_on (CHR '','') (signature_header hmac secret ts body)) (None, [])
    = (Some ts, [to_hex (mac hmac secret ts body)])"
proof -
  let ?hex = "to_hex (mac hmac secret ts body)"
  have t: "\<forall>c \<in> set (show_int ts). is_ascii_alnum c \<or> c = CHR ''-''"
    using show_int_chars by (auto simp: is_ascii_alnum_def)
  have v: "\<forall>c \<in> set ?hex. is_ascii_alnum c \<or> c = CHR ''-''" using hex_chars by blast
  have "split_on (CHR '','') (signature_header hmac secret ts body) = [''t='' @ show_int ts, ''v1='' @ ?hex]"
    using split_on_append [of "CHR '',''" "''t='' @ show_int ts" "''v1='' @ ?hex"] sign_part_trim(3) [OF t] sign_part_trim(3) [OF v]
    by (simp add: signature_header_def split_on_notin)
  moreover have "split_once (CHR ''='') (''t='' @ show_int ts) = Some (''t'', show_int ts)"
    "split_once (CHR ''='') (''v1='' @ ?hex) = Some (''v1'', ?hex)"
    using split_once_first [of "CHR ''=''" "''t''" "show_int ts"] split_once_first [of "CHR ''=''" "''v1''" ?hex] by simp_all
  ultimately show ?thesis
    using assms sign_part_trim(1) [OF t] sign_part_trim(2) [OF v] by (simp add: header_part_def parse_show_int)
qed

lemma verify_own_signature:
  assumes "in_i64 ts"
  shows "verify_signature hmac secret (signature_header hmac secret ts body) body now tolerance
    \<longleftrightarrow> wrap_i64 \<bar>wrap_i64 (now - ts)\<bar> \<le> tolerance"
  by (simp add: verify_signature_def signature_header_parts [OF assms] decode_to_hex not_less)

lemma show_int_dot:
  assumes "in_i64 ts" "in_i64 ts'" "show_int ts @ ''.'' @ body = show_int ts' @ ''.'' @ body'"
  shows "ts = ts' \<and> body = body'"
proof -
  have dot: "CHR ''.'' \<notin> set (show_int n)" for n using show_int_chars [of "CHR ''.''" n] by (auto simp: is_ascii_digit_def)
  have "split_once (CHR ''.'') (show_int ts @ CHR ''.'' # body) = split_once (CHR ''.'') (show_int ts' @ CHR ''.'' # body')"
    using assms(3) by simp
  then have eq: "show_int ts = show_int ts'" and body: "body = body'"
    unfolding split_once_first [OF dot] by blast+
  have "Some ts = Some ts'"
    using parse_show_int [OF assms(1)] parse_show_int [OF assms(2)] unfolding eq by (rule subst)
  with body show ?thesis by blast
qed

text \<open>
  What a signature header says: its \<open>name=value\<close> fields, the time of the last \<open>t\<close> field
  (none when that is no number) and the values of the \<open>v1\<close> fields.
\<close>

definition header_fields :: "string \<Rightarrow> (string \<times> string) list" where
  "header_fields header = List.map_filter (\<lambda>part. split_once (CHR ''='') (trim part)) (split_on (CHR '','') header)"

definition header_time :: "string \<Rightarrow> int option" where
  "header_time header =
     (case filter (\<lambda>(n, v). n = ''t'') (header_fields header) of [] \<Rightarrow> None | ts \<Rightarrow> parse_i64 (snd (last ts)))"

definition header_signatures :: "string \<Rightarrow> string list" where
  "header_signatures header = map snd (filter (\<lambda>(n, v). n = ''v1'') (header_fields header))"

lemma fold_header_part:
  "fold header_part parts (t, ss) =
     (let fs = List.map_filter (\<lambda>part. split_once (CHR ''='') (trim part)) parts in
      (case filter (\<lambda>(n, v). n = ''t'') fs of [] \<Rightarrow> t | ts \<Rightarrow> parse_i64 (snd (last ts)),
       ss @ map snd (filter (\<lambda>(n, v). n = ''v1'') fs)))"
proof (induction parts arbitrary: t ss)
  case (Cons part parts)
  show ?case
  proof (cases "split_once (CHR ''='') (trim part)")
    case None
    with Cons show ?thesis by (simp add: header_part_def map_filter_simps)
  next
    case (Some f)
    with Cons show ?thesis
      by (cases f) (auto simp: header_part_def map_filter_simps Let_def split: list.split)
  qed
qed (simp add: map_filter_simps)

lemma header_parts: "fold header_part (split_on (CHR '','') header) (None, []) = (header_time header, header_signatures header)"
  by (simp add: fold_header_part header_time_def header_signatures_def header_fields_def Let_def)

lemma verify_signature_iff:
  "verify_signature hmac secret header body now tolerance \<longleftrightarrow>
     (\<exists>ts sig. header_time header = Some ts \<and> wrap_i64 \<bar>wrap_i64 (now - ts)\<bar> \<le> tolerance
        \<and> sig \<in> set (header_signatures header) \<and> decode_hex sig = Some (hmac secret (show_int ts @ ''.'' @ body)))"
  by (auto simp: verify_signature_def header_parts mac_def list_ex_iff not_less split: option.splits)

lemma header_time_in_i64: "header_time header = Some ts \<Longrightarrow> in_i64 ts"
  by (auto simp: header_time_def parse_i64_def Let_def split: list.splits if_splits)

lemma own_header:
  assumes "in_i64 ts"
  shows "header_time (signature_header hmac secret ts body) = Some ts"
    "header_signatures (signature_header hmac secret ts body) = [to_hex (mac hmac secret ts body)]"
  using signature_header_parts [OF assms, of hmac secret body] header_parts [of "signature_header hmac secret ts body"]
  by simp_all



section \<open>Every delivery can be verified\<close>

lemma post_all_requests:
  "fst (post_all env r k urls) = map (\<lambda>(j, url). lifecycle_request env r j url) (enumerate k urls)"
  by (induction urls arbitrary: k) (simp_all add: Let_def split_beta)

lemma post_all_failures:
  "snd (post_all env r k urls) = []
   \<longleftrightarrow> list_all (\<lambda>(j, url). answered_ok (lf_http env (lifecycle_request env r j url))) (enumerate k urls)"
proof (induction urls arbitrary: k)
  case (Cons url urls)
  have "post_failure env url res = [] \<longleftrightarrow> answered_ok res" for res
    by (simp add: post_failure_def split: http_result.split)
  with Cons [of "Suc k"] show ?case by (simp add: Let_def split_beta)
qed simp

text \<open>
  Lifecycle events reach every receiver, verifiably: when an event is processed,
  every configured URL gets exactly one POST, in order, with the bytes that were
  stored when the event was queued and a signature the receiver accepts while its
  clock is within the tolerance of the sender's; the event is reported as delivered
  exactly when every receiver answered 2xx, and only then, or after ten attempts,
  it leaves the outbox.
\<close>

theorem lifecycle_delivery_verifiable:
  assumes p: "process_next_lifecycle_event env st = (Inr (Some out), st')"
  shows "\<exists>r rows requests. lifecycle_dequeue (lf_stale_days env) (lf_held env) (lf_worker_id env) (lf_now env) (ls_events st) = (Some r, rows)
    \<and> ls_posts st' = ls_posts st @ requests \<and> map hr_url requests = lf_urls env
    \<and> list_all (\<lambda>q. hr_body q = ly_payload r) requests
    \<and> (\<forall>k < length requests. \<forall>now tolerance. 0 \<le> lf_clock env k \<and> lf_clock env k < 2 ^ 62 \<and> 0 \<le> now \<and> now < 2 ^ 62
         \<and> \<bar>now - lf_clock env k\<bar> \<le> tolerance \<longrightarrow>
         (\<exists>sig. (SIGNATURE_HEADER, sig) \<in> set (hr_headers (requests ! k))
            \<and> verify_signature (lf_hmac env) (case lf_secret env of None \<Rightarrow> [] | Some s \<Rightarrow> s) sig (hr_body (requests ! k)) now tolerance))
    \<and> (out = WebhookDelivered \<longleftrightarrow>
         list_all (\<lambda>q. answered_ok (lf_http env q)) requests)
    \<and> (out \<noteq> WebhookDelivered \<and> lr_attempts r + 1 < WEBHOOK_MAX_ATTEMPTS \<longrightarrow> lr_id r \<in> lr_id ` set (ls_events st'))"
proof -
  obtain found rows where d: "lifecycle_dequeue (lf_stale_days env) (lf_held env) (lf_worker_id env) (lf_now env) (ls_events st) = (found, rows)"
    by fastforce
  have ok: "lifecycle_enabled env" "lf_db_error env 0 = None"
    using p by (auto simp: process_next_lifecycle_event_def split: if_splits option.splits)
  from p d ok obtain r where r: "found = Some r"
    by (cases found) (auto simp: process_next_lifecycle_event_def)
  obtain requests failures where q: "post_all env r 0 (lf_urls env) = (requests, failures)" by fastforce
  have fin: "finish_event env r failures (st\<lparr>ls_events := rows, ls_posts := ls_posts st @ requests\<rparr>) = (Inr (Some out), st')"
    using p d ok r q by (simp add: process_next_lifecycle_event_def)
  have "lf_db_error env 1 = None" using fin by (auto simp: finish_event_def split: option.splits)
  note fin' = fin [unfolded finish_event_def this option.case]
  have reqs: "requests = map (\<lambda>(j, url). lifecycle_request env r j url) (enumerate 0 (lf_urls env))"
    using post_all_requests [of env r 0 "lf_urls env"] q by simp
  have len: "length requests = length (lf_urls env)" by (simp add: reqs)
  have nth: "requests ! k = lifecycle_request env r k (lf_urls env ! k)" if "k < length requests" for k
    using that by (simp add: reqs nth_enumerate_eq)
  have urls: "map hr_url requests = lf_urls env"
    by (rule nth_equalityI) (simp_all add: len nth lifecycle_request_def)
  have bodies: "list_all (\<lambda>q. hr_body q = ly_payload r) requests"
    by (auto simp: reqs list_all_iff lifecycle_request_def)
  have all: "failures = [] \<longleftrightarrow>
      list_all (\<lambda>q. answered_ok (lf_http env q)) requests"
    using post_all_failures [of env r 0 "lf_urls env"] q by (simp add: reqs list_all_iff split_beta)
  have posts: "ls_posts st' = ls_posts st @ requests"
    using fin' by (auto simp: lifecycle_complete_def lifecycle_retry_def split: if_splits)
  have out: "out = WebhookDelivered \<longleftrightarrow> failures = []" using fin' by (auto split: if_splits)
  have "lock_first lr_id (\<lambda>r. row_ready (lf_stale_days env) (lf_now env) r \<and> \<not> lf_held env (lr_id r))
      (lf_worker_id env) (lf_now env) (ls_events st) = (Some r, rows)"
    using d r by (simp add: lifecycle_dequeue_def)
  then obtain r0 :: lifecycle_row where "r0 \<in> set (ls_events st)" "r = lock_row (lf_worker_id env) (lf_now env) r0"
    "rows = update_id (lr_id r0) (lock_row (lf_worker_id env) (lf_now env)) (ls_events st)"
    by (rule lock_first_SomeD)
  then have mem: "r \<in> set rows" by (auto simp: update_id_def)
  have stays: "lr_id r \<in> lr_id ` set (ls_events st')" if "out \<noteq> WebhookDelivered" "lr_attempts r + 1 < WEBHOOK_MAX_ATTEMPTS"
  proof -
    have "st' = lifecycle_retry (lr_id r) (lr_attempts r) (join_with ''; '' failures) (lf_now env)
        (st\<lparr>ls_events := rows, ls_posts := ls_posts st @ requests\<rparr>)"
      using fin' that out by (auto split: if_splits)
    with mem show ?thesis by (simp add: lifecycle_retry_def ids_of_update)
  qed
  have sig: "\<exists>sig. (SIGNATURE_HEADER, sig) \<in> set (hr_headers (requests ! k))
      \<and> verify_signature (lf_hmac env) (case lf_secret env of None \<Rightarrow> [] | Some s \<Rightarrow> s) sig (hr_body (requests ! k)) now tolerance"
    if "k < length requests" "0 \<le> lf_clock env k" "lf_clock env k < 2 ^ 62" "0 \<le> now" "now < 2 ^ 62"
      "\<bar>now - lf_clock env k\<bar> \<le> tolerance" for k now tolerance
  proof -
    have i: "in_i64 (lf_clock env k)" "in_i64 (now - lf_clock env k)" "in_i64 \<bar>now - lf_clock env k\<bar>"
      using that by (auto simp: in_i64_def)
    let ?sig = "signature_header (lf_hmac env) (case lf_secret env of None \<Rightarrow> [] | Some s \<Rightarrow> s) (lf_clock env k) (ly_payload r)"
    show ?thesis
      using that(6) i by (intro exI [of _ ?sig]) (simp add: nth [OF that(1)] lifecycle_request_def verify_own_signature)
  qed
  show ?thesis
    using d r posts urls bodies sig all out stays by (intro exI [of _ r] exI [of _ rows] exI [of _ requests]) auto
qed

definition demo_event :: lifecycle_row where
  "demo_event = \<lparr>lr_id = 4, lr_attempts = 0, lr_locked_by = None, lr_locked_at = None, lr_retry_after = None,
     ly_uuid = ''e-1'', ly_event = ''user.registered'', ly_payload = ''{}'', ly_last_error = None\<rparr>"

definition demo_lifecycle_env :: lifecycle_env where
  "demo_lifecycle_env = \<lparr>lf_urls = [''a.io'', ''b.io''], lf_secret = Some ''s'', lf_hmac = (\<lambda>k m. k @ m),
     lf_clock = (\<lambda>k. 1000 + int k), lf_http = (\<lambda>q. HttpResponse (if hr_url q = ''a.io'' then 200 else 500) []),
     lf_show_status = show_nat, lf_worker_id = ''w'', lf_stale_days = 1, lf_now = 9, lf_held = (\<lambda>_. False),
     lf_db_error = (\<lambda>_. None)\<rparr>"

theorem lifecycle_delivery_verifiable_witness:
  "\<exists>st' requests. process_next_lifecycle_event demo_lifecycle_env \<lparr>ls_events = [demo_event], ls_posts = []\<rparr>
      = (Inr (Some WebhookRetrying), st')
    \<and> ls_posts st' = requests \<and> map hr_url requests = [''a.io'', ''b.io'']
    \<and> \<not> list_all (\<lambda>q. answered_ok (lf_http demo_lifecycle_env q)) requests"
proof -
  let ?st = "\<lparr>ls_events = [demo_event], ls_posts = []\<rparr>"
  have "fst (process_next_lifecycle_event demo_lifecycle_env ?st) = Inr (Some WebhookRetrying)"
    by (simp add: process_next_lifecycle_event_def lifecycle_enabled_def demo_lifecycle_env_def demo_event_def
        lifecycle_dequeue_def lock_first_def row_ready_def lock_row_def finish_event_def WEBHOOK_MAX_ATTEMPTS_def
        post_failure_def answered_ok_def lifecycle_request_def Let_def)
  then obtain st' where p: "process_next_lifecycle_event demo_lifecycle_env ?st = (Inr (Some WebhookRetrying), st')"
    by (cases "process_next_lifecycle_event demo_lifecycle_env ?st") auto
  from lifecycle_delivery_verifiable [OF p] p show ?thesis by (auto simp: demo_lifecycle_env_def)
qed

section \<open>The outbox as a lease table\<close>

text \<open>Rows are inserted by the web server and the message intake, under fresh ids.\<close>

inductive lifecycle_step :: "int \<Rightarrow> lease_event \<Rightarrow> lifecycle_state \<Rightarrow> lifecycle_state \<Rightarrow> bool" for days :: int where
  ly_queued: "lr_id r \<notin> lr_id ` set (ls_events st) \<Longrightarrow> lr_attempts r = 0 \<Longrightarrow> lr_locked_by r = None \<Longrightarrow>
    lr_retry_after r = None \<Longrightarrow> lifecycle_step days (Add (lr_id r)) st (st\<lparr>ls_events := ls_events st @ [r]\<rparr>)"
| ly_locks: "lifecycle_dequeue days held w now (ls_events st) = (Some r, rows) \<Longrightarrow>
    lifecycle_step days (Lease (lr_id r) now) st (st\<lparr>ls_events := rows\<rparr>)"
| ly_finds_none: "lifecycle_dequeue days held w now (ls_events st) = (None, rows) \<Longrightarrow>
    lifecycle_step days Other st (st\<lparr>ls_events := rows\<rparr>)"
| ly_completes: "lifecycle_step days (Finish i) st (lifecycle_complete i st)"
| ly_retries: "lifecycle_step days (Again i a now) st (lifecycle_retry i a e now st)"

lemma lifecycle_step_sim:
  assumes wf: "wf_rows (ls_events st)" and step: "lifecycle_step days e st st'" and days: "0 \<le> days"
  shows "wf_rows (ls_events st') \<and> lease_step days e (leases_of days (ls_events st)) (leases_of days (ls_events st'))"
  using step
proof (cases rule: lifecycle_step.cases)
  case (ly_queued r)
  with insert_sim [OF wf, of r days] show ?thesis by simp
next
  case (ly_locks held w now r rows)
  have l: "lock_first lr_id (\<lambda>r. row_ready days now r \<and> \<not> held (lr_id r)) w now (ls_events st) = (Some r, rows)"
    using ly_locks(3) by (simp add: lifecycle_dequeue_def)
  with lock_first_sim [OF l wf days] ly_locks show ?thesis by simp
next
  case (ly_finds_none held w now rows)
  then have "rows = ls_events st" by (auto simp: lifecycle_dequeue_def dest: lock_first_NoneD)
  with ly_finds_none wf show ?thesis by (simp add: lease_step.other)
next
  case (ly_completes i)
  with delete_sim [OF wf, of i days] show ?thesis by (simp add: lifecycle_complete_def)
next
  case (ly_retries i a now err)
  let ?f = "\<lambda>r. (reschedule a now r)\<lparr>ly_last_error := Some err\<rparr>"
  have sel: "lr_id (?f r) = lr_id r" "wf_row (?f r)" "row_lease days (?f r) = row_lease days (reschedule a now r)" for r
    by (simp_all add: wf_row_def row_lease_def) (simp add: reschedule_def)
  from reschedule_like_sim [OF wf sel] ly_retries show ?thesis by (simp add: lifecycle_retry_def)
qed

interpretation lyq: lease_table "lifecycle_step (max d 1)" "\<lambda>st. leases_of (max d 1) (ls_events st)"
    "\<lambda>st. wf_rows (ls_events st)" "max d 1"
  by unfold_locales (auto dest: lifecycle_step_sim)

lemma lifecycle_mutual_exclusion:
  assumes "run (lifecycle_step (max d 1)) (xs @ Lease i t # ys @ Lease i t' # zs) st st'" "wf_rows (ls_events st)"
    "\<forall>e \<in> set ys. \<not> gives_back i e"
  shows "t + max d 1 * day < t'"
  using assms by (rule lyq.exclusive)

end
