(* ===== verification/Tracking.thy ===== *)
theory Tracking
  imports Bounce
begin

text \<open>
  Open and click tracking (\<open>worker/tracking.rs\<close>): finding the HTML part of a message,
  its transfer encodings, rewriting links and appending the open pixel. Strings are
  byte strings; \<open>lc\<close> stands for \<open>str::to_lowercase\<close> and base64 is a parameter. A loop
  over an index is a recursion over the rest of the string; the positions it visits
  are ends of whole characters, so those slices cannot panic. The slices that are
  taken at positions found in a lower-cased copy can, and are modelled with
  \<^const>\<open>slice_to\<close>.
\<close>

section \<open>Signed messages\<close>

definition body_offset :: "bytes \<Rightarrow> nat option" where
  "body_offset raw =
     (case find_sub (crlf @ crlf) raw of
        Some p \<Rightarrow> Some (p + 4)
      | None \<Rightarrow> map_option (\<lambda>p. p + 2) (find_sub [LF, LF] raw))"

definition header_is_multipart_signed :: "string \<Rightarrow> bool" where
  "header_is_multipart_signed headers =
     list_ex (\<lambda>l. prefix ''content-type:'' l \<and> contains_sub ''multipart/signed'' l) (str_lines headers)"

definition is_signed :: "(string \<Rightarrow> string) \<Rightarrow> bytes \<Rightarrow> bool" where
  "is_signed lc raw =
     (let offset = (case body_offset raw of Some n \<Rightarrow> n | None \<Rightarrow> length raw);
          headers = lc (utf8_lossy (take offset raw))
      in if header_is_multipart_signed headers then True
         else
           (let body = utf8_lossy (drop offset raw) in
            contains_sub ''-----BEGIN PGP SIGNED MESSAGE-----'' body
            \<or> contains_sub ''-----BEGIN PGP SIGNATURE-----'' body))"

section \<open>Character references\<close>

text \<open>\<open>char::from_u32\<close> and the UTF-8 encoding of the character.\<close>

definition utf8_encode :: "nat \<Rightarrow> string" where
  "utf8_encode c =
     (if c < 0x80 then [char_of c]
      else if c < 0x800 then [char_of (0xC0 + c div 64), char_of (0x80 + c mod 64)]
      else if c < 0x10000 then
        [char_of (0xE0 + c div 4096), char_of (0x80 + c div 64 mod 64), char_of (0x80 + c mod 64)]
      else
        [char_of (0xF0 + c div 262144), char_of (0x80 + c div 4096 mod 64),
         char_of (0x80 + c div 64 mod 64), char_of (0x80 + c mod 64)])"

definition from_u32 :: "nat \<Rightarrow> string option" where
  "from_u32 c = (if c < 0xD800 \<or> 0xE000 \<le> c \<and> c < 0x110000 then Some (utf8_encode c) else None)"

definition hex_digits_value :: "string \<Rightarrow> nat" where
  "hex_digits_value s = foldl (\<lambda>n c. 16 * n + (case hex_value c of Some v \<Rightarrow> v | None \<Rightarrow> 0)) 0 s"

definition strip_plus :: "string \<Rightarrow> string" where
  "strip_plus s = (if prefix ''+'' s then tl s else s)"

definition parse_u32 :: "string \<Rightarrow> nat option" where
  "parse_u32 s =
     (let ds = strip_plus s in
      if ds \<noteq> [] \<and> list_all is_ascii_digit ds \<and> digits_value ds < 2 ^ 32 then Some (digits_value ds) else None)"

definition parse_u32_hex :: "string \<Rightarrow> nat option" where
  "parse_u32_hex s =
     (let ds = strip_plus s in
      if ds \<noteq> [] \<and> list_all (\<lambda>c. hex_value c \<noteq> None) ds \<and> hex_digits_value ds < 2 ^ 32
      then Some (hex_digits_value ds) else None)"

definition decode_one_entity :: "string \<Rightarrow> string option" where
  "decode_one_entity entity =
     (if entity = ''amp'' then Some ''&''
      else if entity = ''lt'' then Some ''<''
      else if entity = ''gt'' then Some ''>''
      else if entity = ''quot'' then Some [DQ]
      else if entity = ''apos'' then Some [CHR 0x27]
      else
        (case strip_prefix ''#'' entity of
           None \<Rightarrow> None
         | Some number \<Rightarrow>
             Option.bind
               (if prefix ''x'' number \<or> prefix ''X'' number then parse_u32_hex (tl number) else parse_u32 number)
               from_u32))"

definition char_len :: "string \<Rightarrow> nat" where
  "char_len s = snd (utf8_chunk s)"

lemma char_len_pos: "s \<noteq> [] \<Longrightarrow> 0 < char_len s"
  by (cases s) (auto simp: char_len_def utf8_chunk_def Let_def split: list.split)

function decode_from :: "string \<Rightarrow> string" where
  "decode_from s =
     (if s = [] then []
      else
        (case (if hd s = CHR ''&'' then find_char (CHR '';'') s else None) of
           Some semicolon \<Rightarrow>
             (case decode_one_entity (take (semicolon - 1) (tl s)) of
                Some decoded \<Rightarrow> decoded @ decode_from (drop (semicolon + 1) s)
              | None \<Rightarrow> take (char_len s) s @ decode_from (drop (char_len s) s))
         | None \<Rightarrow> take (char_len s) s @ decode_from (drop (char_len s) s)))"
  by pat_completeness auto
termination
  by (relation "measure length") (auto simp: char_len_pos)

declare decode_from.simps [simp del]

definition decode_html_entities :: "string \<Rightarrow> string" where
  "decode_html_entities input = (if CHR ''&'' \<notin> set input then input else decode_from input)"

section \<open>Links\<close>

text \<open>The slice behind \<open>href\<close> panics when the fourth byte is inside a character.\<close>

definition match_href :: "(string \<Rightarrow> string) \<Rightarrow> string \<Rightarrow> (nat \<times> char) option rust" where
  "match_href lc s =
     (if \<not> prefix ''href'' (lc s) then Inr None
      else bind_rust (slice_to s 4) (\<lambda>_.
        let rest = drop 4 s;
            after = trim_start rest;
            consumed_ws = length rest - length after
        in case strip_prefix ''='' after of
             None \<Rightarrow> Inr None
           | Some after2 \<Rightarrow>
               (let after_eq = trim_start after2;
                    consumed_ws2 = length after2 - length after_eq
                in case after_eq of
                     [] \<Rightarrow> Inr None
                   | quote # _ \<Rightarrow>
                       if quote \<noteq> DQ \<and> quote \<noteq> CHR 0x27 then Inr None
                       else Inr (Some (4 + consumed_ws + 1 + consumed_ws2 + 1, quote)))))"

definition is_tracked_url :: "string \<Rightarrow> bool" where
  "is_tracked_url url \<longleftrightarrow> prefix ''http://'' url \<or> prefix ''https://'' url"

text \<open>The link at the start of a string: the attribute up to its value, the value, and the rest.\<close>

definition link_at :: "(string \<Rightarrow> string) \<Rightarrow> string \<Rightarrow> (string \<times> string \<times> string) option rust" where
  "link_at lc s =
     bind_rust (match_href lc s) (\<lambda>found.
       case found of
         None \<Rightarrow> Inr None
       | Some (attr_end, quote) \<Rightarrow>
           Inr (map_option (\<lambda>close. (take attr_end s, take close (drop attr_end s), drop (attr_end + close) s))
                  (find_char quote (drop attr_end s))))"

lemma match_href_pos: "match_href lc s = Inr (Some (n, q)) \<Longrightarrow> 0 < n"
  by (auto simp: match_href_def Let_def bind_rust_Inr_iff split: if_splits option.splits list.splits)

lemma link_at_shorter: "link_at lc s = Inr (Some (a, v, rest)) \<Longrightarrow> s \<noteq> [] \<Longrightarrow> length rest < length s"
  by (auto simp: link_at_def bind_rust_Inr_iff split: option.splits dest!: match_href_pos)

text \<open>
  \<open>mk\<close> gives the tracking URL of the \<open>n\<close>-th rewritten link. The result is the new HTML
  and the decoded URLs in their order.
\<close>

function rewrite_from :: "(string \<Rightarrow> string) \<Rightarrow> (nat \<Rightarrow> string \<Rightarrow> string) \<Rightarrow> nat \<Rightarrow> string \<Rightarrow> (string \<times> string list) rust" where
  "rewrite_from lc mk n s =
     (if s = [] then Inr ([], [])
      else
        (case link_at lc s of
           Inl p \<Rightarrow> Inl p
         | Inr (Some (attr, raw_url, rest)) \<Rightarrow>
             (let decoded = decode_html_entities raw_url in
              if is_tracked_url decoded then
                bind_rust (rewrite_from lc mk (Suc n) rest) (\<lambda>(out, urls).
                  Inr (attr @ mk n decoded @ out, decoded # urls))
              else
                bind_rust (rewrite_from lc mk n rest) (\<lambda>(out, urls). Inr (attr @ raw_url @ out, urls)))
         | Inr None \<Rightarrow>
             bind_rust (rewrite_from lc mk n (drop (char_len s) s)) (\<lambda>(out, urls).
               Inr (take (char_len s) s @ out, urls))))"
  by pat_completeness auto
termination
  by (relation "measure (\<lambda>(lc, mk, n, s). length s)") (auto simp: char_len_pos dest: link_at_shorter)

declare rewrite_from.simps [simp del]

definition rewrite_links :: "(string \<Rightarrow> string) \<Rightarrow> string \<Rightarrow> (nat \<Rightarrow> string \<Rightarrow> string) \<Rightarrow> (string \<times> string list) rust" where
  "rewrite_links lc html mk = rewrite_from lc mk 0 html"

section \<open>The open pixel\<close>

fun rfind_sub :: "string \<Rightarrow> string \<Rightarrow> nat option" where
  "rfind_sub p [] = (if p = [] then Some 0 else None)"
| "rfind_sub p (x # xs) =
     (case rfind_sub p xs of Some i \<Rightarrow> Some (Suc i) | None \<Rightarrow> if prefix p (x # xs) then Some 0 else None)"

definition open_pixel :: "string \<Rightarrow> string" where
  "open_pixel url =
     ''<img src='' @ [DQ] @ url @ [DQ] @ '' alt='' @ [DQ, DQ] @ '' width='' @ [DQ] @ ''1'' @ [DQ]
     @ '' height='' @ [DQ] @ ''1'' @ [DQ] @ '' style='' @ [DQ] @ ''display:none'' @ [DQ] @ ''/>''"

definition inject_open_pixel :: "(string \<Rightarrow> string) \<Rightarrow> string \<Rightarrow> string \<Rightarrow> string rust" where
  "inject_open_pixel lc html pixel_url =
     (case rfind_sub ''</body>'' (lc html) of
        None \<Rightarrow> Inr (html @ open_pixel pixel_url)
      | Some position \<Rightarrow>
          bind_rust (slice_to html position) (\<lambda>before.
            Inr (before @ open_pixel pixel_url @ drop position html)))"

section \<open>The HTML part\<close>

datatype encoding = Identity | QuotedPrintable | Base64

record html_part =
  hp_start :: nat
  hp_end :: nat
  hp_encoding :: encoding

definition MAX_PART_DEPTH :: nat where
  "MAX_PART_DEPTH = 8"

definition part_header :: "(string \<times> string) list \<Rightarrow> string \<Rightarrow> string option" where
  "part_header headers name = map_option snd (List.find (\<lambda>kv. fst kv = name) headers)"

fun find_map :: "('a \<Rightarrow> 'b option) \<Rightarrow> 'a list \<Rightarrow> 'b option" where
  "find_map f [] = None"
| "find_map f (x # xs) = (case f x of Some y \<Rightarrow> Some y | None \<Rightarrow> find_map f xs)"

lemma find_map_cong [fundef_cong]:
  "xs = ys \<Longrightarrow> (\<And>x. x \<in> set ys \<Longrightarrow> f x = g x) \<Longrightarrow> find_map f xs = find_map g ys"
  by (induction ys arbitrary: xs) (auto split: option.split)

definition parameter :: "string \<Rightarrow> string \<Rightarrow> string option" where
  "parameter v name =
     find_map (\<lambda>part.
         case split_once (CHR ''='') (trim part) of
           None \<Rightarrow> None
         | Some (key, raw) \<Rightarrow>
             if eq_ignore_ascii_case (trim key) name then Some (trim_matches_char DQ (trim raw)) else None)
       (tl (split_on (CHR '';'') v))"

text \<open>The delimiter lines from position \<open>at\<close> on: where they start, where the next line starts, and whether they close.\<close>

function delimiter_lines :: "bytes \<Rightarrow> bytes \<Rightarrow> nat \<Rightarrow> (nat \<times> nat \<times> bool) list" where
  "delimiter_lines delimiter body at =
     (if at + length delimiter \<le> length body \<and> delimiter \<noteq> [] then
        if (at = 0 \<or> body ! (at - 1) = LF) \<and> prefix delimiter (drop at body) then
          (let rest = drop (at + length delimiter) body;
               closing = prefix ''--'' rest;
               line_end = (case find_char LF rest of Some p \<Rightarrow> at + length delimiter + p + 1 | None \<Rightarrow> length body)
           in (at, line_end, closing) # (if closing then [] else delimiter_lines delimiter body line_end))
        else delimiter_lines delimiter body (Suc at)
      else [])"
  by pat_completeness auto
termination
  by (relation "measure (\<lambda>(delimiter, body, at). Suc (length body) - at)")
    (auto simp: Suc_diff_le neq_Nil_conv split: option.split dest!: find_char_SomeD)

declare delimiter_lines.simps [simp del]

definition part_end :: "bytes \<Rightarrow> nat \<Rightarrow> nat \<Rightarrow> nat" where
  "part_end body start stop =
     (let stop1 = (if stop > start \<and> body ! (stop - 1) = LF then
                     (if stop - 1 > start \<and> body ! (stop - 2) = CR then stop - 2 else stop - 1)
                   else stop)
      in max stop1 start)"

definition multipart_ranges :: "bytes \<Rightarrow> string \<Rightarrow> (nat \<times> nat) list" where
  "multipart_ranges body boundary =
     (let lines = delimiter_lines (''--'' @ boundary) body 0 in
      map (\<lambda>((_, start, _), (stop, _, _)). (start, part_end body start stop)) (zip lines (tl lines)))"

definition part_encoding :: "(string \<times> string) list \<Rightarrow> encoding" where
  "part_encoding headers =
     (let e = to_ascii_lowercase (trim (case part_header headers ''content-transfer-encoding'' of Some v \<Rightarrow> v | None \<Rightarrow> []))
      in if e = ''quoted-printable'' then QuotedPrintable else if e = ''base64'' then Base64 else Identity)"

definition is_attachment :: "(string \<times> string) list \<Rightarrow> bool" where
  "is_attachment headers =
     (case part_header headers ''content-disposition'' of
        None \<Rightarrow> False | Some d \<Rightarrow> prefix ''attachment'' (to_ascii_lowercase (trim d)))"

definition charset_ok :: "string \<Rightarrow> bool" where
  "charset_ok content_type =
     (case parameter content_type ''charset'' of
        None \<Rightarrow> True
      | Some c \<Rightarrow> to_ascii_lowercase c \<in> {''utf-8'', ''utf8'', ''us-ascii''})"

function find_html :: "(string \<Rightarrow> string) \<Rightarrow> bytes \<Rightarrow> nat \<Rightarrow> nat \<Rightarrow> html_part option" where
  "find_html lc raw base depth =
     (if depth > MAX_PART_DEPTH then None
      else
        (let headers = parse_headers lc raw;
             content_type = (case part_header headers ''content-type'' of Some v \<Rightarrow> v | None \<Rightarrow> ''text/plain'')
         in case body_offset raw of
              None \<Rightarrow> None
            | Some offset \<Rightarrow>
                (let body = drop offset raw;
                     media = to_ascii_lowercase (trim (hd (split_on (CHR '';'') content_type)))
                 in if prefix ''multipart/'' media then
                      (if media = ''multipart/signed'' then None
                       else case parameter content_type ''boundary'' of
                              None \<Rightarrow> None
                            | Some boundary \<Rightarrow>
                                find_map (\<lambda>(start, stop).
                                    find_html lc (take (stop - start) (drop start body)) (base + offset + start) (depth + 1))
                                  (multipart_ranges body boundary))
                    else if media \<noteq> ''text/html'' \<or> is_attachment headers \<or> \<not> charset_ok content_type then None
                    else Some \<lparr>hp_start = base + offset, hp_end = base + length raw, hp_encoding = part_encoding headers\<rparr>)))"
  by pat_completeness auto
termination
  by (relation "measure (\<lambda>(lc, raw, base, depth). Suc MAX_PART_DEPTH - depth)") auto

declare find_html.simps [simp del]

section \<open>Transfer encodings\<close>

fun decode_quoted_printable :: "bytes \<Rightarrow> bytes" where
  "decode_quoted_printable [] = []"
| "decode_quoted_printable (c # s) =
     (if c = CHR ''='' then
        (case s of
           a # b # s' \<Rightarrow>
             if a = CR \<and> b = LF then decode_quoted_printable s'
             else if a = LF then decode_quoted_printable (b # s')
             else (case parse_hex2 a b of
                     Some v \<Rightarrow> char_of v # decode_quoted_printable s'
                   | None \<Rightarrow> CHR ''='' # decode_quoted_printable s)
         | [a] \<Rightarrow> if a = LF then [] else CHR ''='' # decode_quoted_printable s
         | [] \<Rightarrow> [CHR ''=''])
      else c # decode_quoted_printable s)"

definition qp_piece :: "char \<Rightarrow> bool \<Rightarrow> bytes" where
  "qp_piece c is_last =
     (if (c = CHR '' '' \<or> c = CHR 0x09) \<and> \<not> is_last \<or> 33 \<le> byte c \<and> byte c \<le> 126 \<and> c \<noteq> CHR ''='' then [c]
      else [CHR ''='', upper_hex_digit (byte c div 16), upper_hex_digit (byte c mod 16)])"

fun qp_line :: "nat \<Rightarrow> bytes \<Rightarrow> bytes" where
  "qp_line width [] = []"
| "qp_line width (c # cs) =
     (let piece = qp_piece c (cs = []) in
      if width + length piece > 75 then ''='' @ crlf @ piece @ qp_line (length piece) cs
      else piece @ qp_line (width + length piece) cs)"

definition encode_quoted_printable :: "bytes \<Rightarrow> bytes" where
  "encode_quoted_printable txt = intercalate crlf (map (\<lambda>l. qp_line 0 (chomp [CR] l)) (split_on LF txt))"

record base64_ops =
  b64_encode :: "bytes \<Rightarrow> string"
  b64_decode :: "string \<Rightarrow> bytes option"

definition decode_part :: "base64_ops \<Rightarrow> encoding \<Rightarrow> bytes \<Rightarrow> bytes option" where
  "decode_part b e body =
     (case e of
        Identity \<Rightarrow> Some body
      | QuotedPrintable \<Rightarrow> Some (decode_quoted_printable body)
      | Base64 \<Rightarrow> b64_decode b (filter (\<lambda>c. \<not> is_ascii_ws c) body))"

function chunks :: "nat \<Rightarrow> 'a list \<Rightarrow> 'a list list" where
  "chunks n xs = (if xs = [] \<or> n = 0 then [] else take n xs # chunks n (drop n xs))"
  by pat_completeness auto
termination
  by (relation "measure (\<lambda>(n, xs). length xs)") auto

declare chunks.simps [simp del]

definition encode_part :: "base64_ops \<Rightarrow> encoding \<Rightarrow> bytes \<Rightarrow> bytes" where
  "encode_part b e txt =
     (case e of
        Identity \<Rightarrow> txt
      | QuotedPrintable \<Rightarrow> encode_quoted_printable txt
      | Base64 \<Rightarrow> intercalate crlf (chunks 76 (b64_encode b txt)))"

definition html_of :: "(string \<Rightarrow> string) \<Rightarrow> base64_ops \<Rightarrow> bytes \<Rightarrow> string option" where
  "html_of lc b raw =
     (case find_html lc raw 0 0 of
        None \<Rightarrow> None
      | Some part \<Rightarrow>
          Option.bind (decode_part b (hp_encoding part) (take (hp_end part - hp_start part) (drop (hp_start part) raw)))
            (\<lambda>bs. if utf8_valid bs then Some bs else None))"

definition with_html :: "(string \<Rightarrow> string) \<Rightarrow> base64_ops \<Rightarrow> bytes \<Rightarrow> string \<Rightarrow> bytes option" where
  "with_html lc b raw html =
     map_option (\<lambda>part. take (hp_start part) raw @ encode_part b (hp_encoding part) html @ drop (hp_end part) raw)
       (find_html lc raw 0 0)"

section \<open>Quoted-printable\<close>

lemma decode_qp_piece [simp]:
  "decode_quoted_printable (qp_piece c b @ s) = c # decode_quoted_printable s"
  using upper_hex_distinct [of "byte c div 16"] parse_upper_hex [of "byte c"] byte_less_256 [of c]
  by (auto simp: qp_piece_def)

lemma qp_piece_clean: "LF \<notin> set (qp_piece c b)" "CR \<notin> set (qp_piece c b)"
  using upper_hex_distinct [of "byte c div 16"] upper_hex_distinct [of "byte c mod 16"]
  by (auto simp: qp_piece_def)

lemma qp_piece_length: "0 < length (qp_piece c b)" "length (qp_piece c b) \<le> 3"
  by (auto simp: qp_piece_def)

lemma decode_qp_soft_break: "decode_quoted_printable (CHR ''='' # crlf @ s) = decode_quoted_printable s"
  by simp

lemma decode_qp_line: "decode_quoted_printable (qp_line width cs @ s) = cs @ decode_quoted_printable s"
  by (induction width cs rule: qp_line.induct) (auto simp: Let_def)

lemma decode_qp_crlf: "decode_quoted_printable (crlf @ s) = crlf @ decode_quoted_printable s"
  by simp

lemma decode_qp_lines:
  "decode_quoted_printable (intercalate crlf (map (\<lambda>l. qp_line 0 (f l)) ls)) = intercalate crlf (map f ls)"
proof (induction ls rule: induct_list012)
  case (2 l)
  then show ?case using decode_qp_line [of 0 "f l" "[]"] by simp
next
  case (3 l m ls)
  then show ?case by (simp only: list.map intercalate.simps decode_qp_line decode_qp_crlf)
qed simp

text \<open>A line of encoded text, without its line break.\<close>

definition short_lines :: "bytes \<Rightarrow> bool" where
  "short_lines s = list_all (\<lambda>l. length (chomp [CR] l) \<le> 76) (split_on LF s)"

lemma split_on_join: "split_on c (a @ c # b) = split_on c a @ split_on c b"
  by (induction a) (auto split: list.splits)

lemma short_lines_join: "short_lines (a @ LF # b) \<longleftrightarrow> short_lines a \<and> short_lines b"
  by (simp add: short_lines_def split_on_join)

lemma short_lines_one: "LF \<notin> set w \<Longrightarrow> short_lines w \<longleftrightarrow> length (chomp [CR] w) \<le> 76"
  by (simp add: short_lines_def split_on_notin)

lemma short_lines_qp_line:
  assumes "width = length w" "length w \<le> 75" "LF \<notin> set w" "e = [] \<or> e = [CR]"
    and "CR \<notin> set w"
  shows "short_lines (w @ qp_line width cs @ e)"
  using assms
proof (induction width cs arbitrary: w rule: qp_line.induct)
  case (1 width)
  then have "length (chomp [CR] (w @ e)) \<le> 76"
    by (auto simp: chomp_def strip_suffix_def)
  with 1 show ?case by (auto simp: short_lines_one)
next
  case (2 width c cs)
  let ?p = "qp_piece c (cs = [])"
  note p = qp_piece_clean [of c "cs = []"] qp_piece_length [of c "cs = []"]
  show ?case
  proof (cases "width + length ?p > 75")
    case True
    then have "short_lines (?p @ qp_line (length ?p) cs @ e)"
      using 2 p by simp
    moreover have "short_lines ((w @ ''='') @ [CR])"
      using "2.prems" by (simp add: short_lines_one del: append_assoc)
    ultimately have "short_lines (((w @ ''='') @ [CR]) @ LF # (?p @ qp_line (length ?p) cs @ e))"
      unfolding short_lines_join by simp
    with True show ?thesis by (simp add: Let_def)
  next
    case False
    then have "short_lines ((w @ ?p) @ qp_line (width + length ?p) cs @ e)"
      using "2.IH" (2) [OF refl, of "w @ ?p"] "2.prems" p by simp
    with False show ?thesis by (simp add: Let_def)
  qed
qed

lemma short_lines_intercalate:
  "(\<And>l. l \<in> set ls \<Longrightarrow> short_lines l \<and> short_lines (l @ [CR])) \<Longrightarrow> short_lines (intercalate crlf ls)"
proof (induction ls rule: induct_list012)
  case 1
  then show ?case by (simp add: short_lines_def)
next
  case (3 l m ls)
  then have "short_lines ((l @ [CR]) @ LF # intercalate crlf (m # ls))"
    unfolding short_lines_join by simp
  then show ?case by simp
qed simp

text \<open>
  Quoted-printable is reversible: decoding the encoded text gives the text with its line
  breaks written as CRLF, and no line of the encoded text is longer than the 76 characters
  that RFC 2045 allows.
\<close>

theorem quoted_printable_roundtrip:
  "decode_quoted_printable (encode_quoted_printable txt) = intercalate crlf (map (chomp [CR]) (split_on LF txt))
   \<and> short_lines (encode_quoted_printable txt)"
proof
  show "decode_quoted_printable (encode_quoted_printable txt) = intercalate crlf (map (chomp [CR]) (split_on LF txt))"
    unfolding encode_quoted_printable_def by (rule decode_qp_lines)
  have "short_lines (qp_line 0 cs) \<and> short_lines (qp_line 0 cs @ [CR])" for cs
    using short_lines_qp_line [of 0 "[]" "[]" cs] short_lines_qp_line [of 0 "[]" "[CR]" cs] by simp
  then show "short_lines (encode_quoted_printable txt)"
    unfolding encode_quoted_printable_def by (auto intro!: short_lines_intercalate)
qed

section \<open>What link rewriting changes\<close>

text \<open>
  Links, independently of how the code finds them. An attribute opens with \<open>href\<close> in
  any case, an equals sign that may have white space around it, and a quote; its value
  runs to the next quote of that kind.
\<close>

definition blank :: "string \<Rightarrow> bool" where
  "blank w \<longleftrightarrow> (\<exists>es. set es \<subseteq> set ws_encodings \<and> w = concat es)"

definition opens_href :: "string \<Rightarrow> char \<Rightarrow> bool" where
  "opens_href attr quote \<longleftrightarrow>
     (\<exists>h w1 w2. attr = h @ w1 @ ''='' @ w2 @ [quote] \<and> to_ascii_lowercase h = ''href'' \<and> blank w1 \<and> blank w2
        \<and> (quote = DQ \<or> quote = CHR 0x27))"

definition is_link :: "string \<Rightarrow> string \<Rightarrow> string \<Rightarrow> bool" where
  "is_link attr v rest \<longleftrightarrow> (\<exists>quote. opens_href attr quote \<and> quote \<notin> set v \<and> prefix [quote] rest)"

text \<open>
  What a page is made of: single characters at which no link starts, links that are
  left alone, and links whose value is an http or https URL.
\<close>

datatype html_segment = Character string | Untracked string string | Tracked string string

primrec seg_source :: "html_segment \<Rightarrow> string" where
  "seg_source (Character c) = c"
| "seg_source (Untracked attr v) = attr @ v"
| "seg_source (Tracked attr v) = attr @ v"

definition page_source :: "html_segment list \<Rightarrow> string" where
  "page_source segs = concat (map seg_source segs)"

fun page_ok :: "html_segment list \<Rightarrow> bool" where
  "page_ok [] = True"
| "page_ok (Character c # segs) \<longleftrightarrow>
     c \<noteq> [] \<and> length c = char_len (c @ page_source segs)
     \<and> \<not> (\<exists>attr v rest. c @ page_source segs = attr @ v @ rest \<and> is_link attr v rest) \<and> page_ok segs"
| "page_ok (Untracked attr v # segs) \<longleftrightarrow>
     is_link attr v (page_source segs) \<and> \<not> is_tracked_url (decode_html_entities v) \<and> page_ok segs"
| "page_ok (Tracked attr v # segs) \<longleftrightarrow>
     is_link attr v (page_source segs) \<and> is_tracked_url (decode_html_entities v) \<and> page_ok segs"

fun seg_render :: "(nat \<Rightarrow> string \<Rightarrow> string) \<Rightarrow> nat \<Rightarrow> html_segment list \<Rightarrow> string" where
  "seg_render mk n [] = []"
| "seg_render mk n (Character c # segs) = c @ seg_render mk n segs"
| "seg_render mk n (Untracked attr v # segs) = attr @ v @ seg_render mk n segs"
| "seg_render mk n (Tracked attr v # segs) = attr @ mk n (decode_html_entities v) @ seg_render mk (Suc n) segs"

fun seg_urls :: "html_segment list \<Rightarrow> string list" where
  "seg_urls [] = []"
| "seg_urls (Character c # segs) = seg_urls segs"
| "seg_urls (Untracked attr v # segs) = seg_urls segs"
| "seg_urls (Tracked attr v # segs) = decode_html_entities v # seg_urls segs"

lemma page_source_simps [simp]:
  "page_source [] = []" "page_source (seg # segs) = seg_source seg @ page_source segs"
  by (simp_all add: page_source_def)

text \<open>Trimming takes a blank off, and nothing else.\<close>

lemma ws_prefix_code: "list_all (\<lambda>a. list_all (\<lambda>b. prefix a b \<longrightarrow> a = b) ws_encodings) ws_encodings"
  by code_simp

lemma first_ws_encoding:
  assumes "e \<in> set ws_encodings"
  shows "first_ws ws_encodings (e @ x) = Some e"
proof -
  have same: "e' = e" if "e' \<in> set ws_encodings" "prefix e' (e @ x)" for e'
    using that assms ws_prefix_code prefix_same_cases [of e' "e @ x" e] by (auto simp: list_all_iff)
  obtain e' where e': "first_ws ws_encodings (e @ x) = Some e'"
    using assms by (cases "first_ws ws_encodings (e @ x)") (auto simp: first_ws_def find_None_iff)
  then have "e' \<in> set ws_encodings" "prefix e' (e @ x)" by (auto simp: first_ws_def find_Some_iff)
  with same e' show ?thesis by simp
qed

lemma ws_encoding_nonempty: "e \<in> set ws_encodings \<Longrightarrow> e \<noteq> []"
  by (auto simp: ws_encodings_def)

lemma trim_start_encodings:
  assumes "set es \<subseteq> set ws_encodings" "\<not> starts_with_ws x"
  shows "trim_start (concat es @ x) = x"
  using assms(1)
proof (induction es)
  case (Cons e es)
  then have e: "e \<in> set ws_encodings" by simp
  from ws_encoding_nonempty [OF e] obtain c cs where c: "e = c # cs" by (meson neq_Nil_conv)
  from first_ws_encoding [OF e, of "concat es @ x"] Cons show ?case
    by (simp add: c trim_start_def)
qed (simp add: assms(2) trim_start_no_ws)

lemma trim_start_blank: "blank w \<Longrightarrow> \<not> starts_with_ws x \<Longrightarrow> trim_start (w @ x) = x"
  by (auto simp: blank_def trim_start_encodings)

lemma trim_front_takes_blank: "\<exists>es. set es \<subseteq> set ws_encodings \<and> s = concat es @ trim_front ws_encodings s"
proof (induction ws_encodings s rule: trim_front.induct)
  case (2 x xs)
  show ?case
  proof (cases "first_ws ws_encodings (x # xs)")
    case None
    then show ?thesis by (intro exI [of _ "[]"]) simp
  next
    case (Some e)
    then have e: "e \<in> set ws_encodings" "prefix e (x # xs)" by (auto simp: first_ws_def find_Some_iff)
    from ws_encoding_nonempty [OF e(1)] e(2) obtain cs where cs: "e = x # cs" "prefix cs xs"
      by (auto simp: neq_Nil_conv)
    from 2 [OF Some] obtain es where "set es \<subseteq> set ws_encodings"
      "drop (length e - 1) xs = concat es @ trim_front ws_encodings (drop (length e - 1) xs)" by auto
    with e cs Some show ?thesis
      by (intro exI [of _ "e # es"]) (auto simp: prefix_def)
  qed
qed (auto intro: exI [of _ "[]"])

lemma trim_start_takes_blank: obtains w where "blank w" "s = w @ trim_start s"
  using trim_front_takes_blank [of s] by (auto simp: blank_def trim_start_def)

lemma not_starts_with_ws: "c \<in> {CHR ''='', DQ, CHR 0x27} \<Longrightarrow> \<not> starts_with_ws (c # s)"
proof -
  assume c: "c \<in> {CHR ''='', DQ, CHR 0x27}"
  have "list_all (\<lambda>e. hd e \<noteq> CHR ''='' \<and> hd e \<noteq> DQ \<and> hd e \<noteq> CHR 0x27) ws_encodings" by code_simp
  then have "\<not> prefix e (c # s)" if "e \<in> set ws_encodings" for e
    using that c ws_encoding_nonempty [OF that] by (auto simp: list_all_iff neq_Nil_conv)
  then show ?thesis by (auto simp: starts_with_ws_def first_ws_def find_None_iff)
qed

text \<open>
  The lower-casing of the language: only ASCII letters lower-case to \<open>h\<close>, \<open>r\<close>, \<open>e\<close> and \<open>f\<close>.
\<close>

definition lowers_href :: "(string \<Rightarrow> string) \<Rightarrow> bool" where
  "lowers_href lc \<longleftrightarrow>
     (\<forall>s. utf8_valid s \<longrightarrow> (prefix ''href'' (lc s) \<longleftrightarrow> to_ascii_lowercase (take 4 s) = ''href''))"

lemma href_letters:
  assumes "to_ascii_lowercase h = ''href''"
  shows "length h = 4 \<and> list_all (\<lambda>c. byte c < 128) h"
proof -
  from assms obtain a b c d where "h = [a, b, c, d]" "map lower_c [a, b, c, d] = ''href''"
    by (auto simp: to_ascii_lowercase_def map_eq_Cons_conv)
  then show ?thesis by (auto simp: lower_c_def is_ascii_upper_def split: if_splits)
qed

lemma match_href_Some:
  assumes "lowers_href lc" "utf8_valid s"
  shows "match_href lc s = Inr (Some (n, q)) \<longleftrightarrow> (\<exists>attr r. s = attr @ r \<and> n = length attr \<and> opens_href attr q)"
proof
  assume m: "match_href lc s = Inr (Some (n, q))"
  then have "prefix ''href'' (lc s)" by (auto simp: match_href_def split: if_splits)
  with assms have h: "to_ascii_lowercase (take 4 s) = ''href''" by (simp add: lowers_href_def)
  obtain w1 where w1: "blank w1" "drop 4 s = w1 @ trim_start (drop 4 s)" by (rule trim_start_takes_blank)
  from m obtain r2 where r2: "trim_start (drop 4 s) = CHR ''='' # r2"
    by (auto simp: match_href_def Let_def bind_rust_Inr_iff strip_prefix_Some_iff split: if_splits option.splits)
  obtain w2 where w2: "blank w2" "r2 = w2 @ trim_start r2" by (rule trim_start_takes_blank)
  from m r2 obtain r3 where r3: "trim_start r2 = q # r3" "q = DQ \<or> q = CHR 0x27"
    "n = 4 + (length (drop 4 s) - length (trim_start (drop 4 s))) + 1 + (length r2 - length (trim_start r2)) + 1"
    by (auto simp: match_href_def Let_def bind_rust_Inr_iff strip_prefix_def split: if_splits option.splits list.splits)
  let ?attr = "take 4 s @ w1 @ ''='' @ w2 @ [q]"
  have s: "s = ?attr @ r3"
    using w1(2) r2 w2(2) r3(1) append_take_drop_id [of 4 s] by (metis append.assoc append_Cons append_Nil)
  have "length (drop 4 s) = length w1 + length (trim_start (drop 4 s))" "length r2 = length w2 + length (trim_start r2)"
    using arg_cong [OF w1(2), of length] arg_cong [OF w2(2), of length] by simp_all
  with r3(3) href_letters [OF h] have "n = length ?attr" by simp
  with s h w1(1) w2(1) r3(2) show "\<exists>attr r. s = attr @ r \<and> n = length attr \<and> opens_href attr q"
    unfolding opens_href_def by blast
next
  assume "\<exists>attr r. s = attr @ r \<and> n = length attr \<and> opens_href attr q"
  then obtain h w1 w2 r where s: "s = h @ w1 @ ''='' @ w2 @ [q] @ r" and h: "to_ascii_lowercase h = ''href''"
    and w: "blank w1" "blank w2" and q: "q = DQ \<or> q = CHR 0x27" and n: "n = length h + length w1 + length w2 + 2"
    by (auto simp: opens_href_def)
  from href_letters [OF h] have l: "length h = 4" "list_all (\<lambda>c. byte c < 128) h" by simp_all
  with s h have "take 4 s = h" "drop 4 s = w1 @ CHR ''='' # w2 @ q # r" by simp_all
  moreover from calculation have "prefix ''href'' (lc s)" using assms h by (simp add: lowers_href_def)
  moreover from calculation have "slice_to s 4 = Inr h"
    using slice_to_after_ascii [OF assms(2), of 4 s] l s by simp
  moreover have "trim_start (w1 @ CHR ''='' # w2 @ q # r) = CHR ''='' # w2 @ q # r" "trim_start (w2 @ q # r) = q # r"
    using q by (auto intro!: trim_start_blank w not_starts_with_ws)
  ultimately show "match_href lc s = Inr (Some (n, q))"
    using q n l(1) by (auto simp: match_href_def Let_def strip_prefix_def)
qed

lemma match_href_returns:
  assumes "lowers_href lc" "utf8_valid s"
  shows "returns (match_href lc s)"
proof (cases "prefix ''href'' (lc s)")
  case True
  with assms have "to_ascii_lowercase (take 4 s) = ''href''" by (simp add: lowers_href_def)
  from href_letters [OF this] have "4 \<le> length s" "list_all (\<lambda>c. byte c < 128) (take 4 s)" by (auto simp: min_def split: if_splits)
  then have "slice_to s 4 = Inr (take 4 s)" using slice_to_after_ascii [OF assms(2), of 4 s] by simp
  with True show ?thesis by (simp add: match_href_def Let_def split: option.split list.split)
qed (simp add: match_href_def)

text \<open>The code finds exactly the links.\<close>

lemma link_at_Some:
  assumes "lowers_href lc" "utf8_valid s"
  shows "link_at lc s = Inr (Some (attr, v, rest)) \<longleftrightarrow> s = attr @ v @ rest \<and> is_link attr v rest"
proof
  assume "link_at lc s = Inr (Some (attr, v, rest))"
  then obtain n q i where m: "match_href lc s = Inr (Some (n, q))" and f: "find_char q (drop n s) = Some i"
    and parts: "attr = take n s" "v = take i (drop n s)" "rest = drop (n + i) s"
    by (auto simp: link_at_def bind_rust_Inr_iff split: option.splits)
  from m obtain a r where "s = a @ r" "n = length a" "opens_href a q"
    unfolding match_href_Some [OF assms] by blast
  moreover from calculation f have "i < length r" "r ! i = q" "q \<notin> set (take i r)"
    using find_char_SomeD [of q r i] by simp_all
  moreover from calculation have "prefix [q] (drop i r)" using Cons_nth_drop_Suc [of i r, symmetric] by simp
  ultimately show "s = attr @ v @ rest \<and> is_link attr v rest"
    using parts by (auto simp: is_link_def)
next
  assume s: "s = attr @ v @ rest \<and> is_link attr v rest"
  then obtain q r where q: "opens_href attr q" "q \<notin> set v" "rest = q # r"
    by (auto simp: is_link_def prefix_def)
  with s have "match_href lc s = Inr (Some (length attr, q))" unfolding match_href_Some [OF assms] by blast
  with s q find_char_first [of q v r] show "link_at lc s = Inr (Some (attr, v, rest))" by (simp add: link_at_def)
qed

lemma link_at_None:
  assumes "lowers_href lc" "utf8_valid s"
  shows "link_at lc s = Inr None \<longleftrightarrow> \<not> (\<exists>attr v rest. s = attr @ v @ rest \<and> is_link attr v rest)"
proof -
  have "returns (link_at lc s)" using match_href_returns [OF assms] by (auto simp: link_at_def split: option.split)
  then have "link_at lc s = Inr None \<longleftrightarrow> \<not> (\<exists>attr v rest. link_at lc s = Inr (Some (attr, v, rest)))"
    by (cases "link_at lc s") (auto, metis option.exhaust prod_cases3)
  then show ?thesis by (simp add: link_at_Some [OF assms])
qed

lemma utf8_valid_drop_char: "utf8_valid s \<Longrightarrow> utf8_valid (drop (char_len s) s)"
  by (cases s) (auto simp: char_len_def drop_Cons' split: prod.splits)

lemma utf8_valid_after_link:
  assumes "is_link attr v rest" "utf8_valid (attr @ v @ rest)"
  shows "utf8_valid rest"
proof -
  from assms(1) obtain q r where q: "q = DQ \<or> q = CHR 0x27" "rest = q # r"
    by (auto simp: is_link_def opens_href_def prefix_def)
  then have "\<not> is_cont_byte ((attr @ v @ rest) ! (length attr + length v))" by (auto simp: nth_append is_cont_byte_def)
  with utf8_valid_drop [OF assms(2), of "length attr + length v"] show ?thesis by simp
qed

lemma page_ok_rewrites:
  assumes "lowers_href lc"
  shows "page_ok segs \<Longrightarrow> utf8_valid (page_source segs) \<Longrightarrow>
    rewrite_from lc mk n (page_source segs) = Inr (seg_render mk n segs, seg_urls segs)"
proof (induction segs arbitrary: n)
  case (Cons seg segs)
  note valid = Cons.prems(2)
  show ?case
  proof (cases seg)
    case (Character c)
    with Cons.prems have c: "c \<noteq> []" "length c = char_len (c @ page_source segs)"
      "link_at lc (c @ page_source segs) = Inr None" and ok: "page_ok segs"
      by (simp_all add: link_at_None [OF assms])
    have "utf8_valid (page_source segs)"
      using utf8_valid_drop_char [OF valid] c(2) [symmetric] Character by simp
    from Cons.IH [OF ok this] c show ?thesis
      by (simp add: Character rewrite_from.simps [of lc mk n "c @ page_source segs"] c(2) [symmetric])
  next
    case (Untracked attr v)
    with Cons.prems have l: "is_link attr v (page_source segs)" "\<not> is_tracked_url (decode_html_entities v)" and ok: "page_ok segs"
      by simp_all
    have f: "link_at lc (attr @ v @ page_source segs) = Inr (Some (attr, v, page_source segs))"
      using valid l(1) Untracked by (simp add: link_at_Some [OF assms])
    have "attr \<noteq> []" using l(1) by (auto simp: is_link_def opens_href_def)
    moreover have "utf8_valid (page_source segs)" using utf8_valid_after_link [OF l(1)] valid Untracked by simp
    ultimately show ?thesis
      using f l(2) Cons.IH [OF ok] by (simp add: Untracked Let_def rewrite_from.simps [of lc mk n "attr @ v @ page_source segs"])
  next
    case (Tracked attr v)
    with Cons.prems have l: "is_link attr v (page_source segs)" "is_tracked_url (decode_html_entities v)" and ok: "page_ok segs"
      by simp_all
    have f: "link_at lc (attr @ v @ page_source segs) = Inr (Some (attr, v, page_source segs))"
      using valid l(1) Tracked by (simp add: link_at_Some [OF assms])
    have "attr \<noteq> []" using l(1) by (auto simp: is_link_def opens_href_def)
    moreover have "utf8_valid (page_source segs)" using utf8_valid_after_link [OF l(1)] valid Tracked by simp
    ultimately show ?thesis
      using f l(2) Cons.IH [OF ok] by (simp add: Tracked Let_def rewrite_from.simps [of lc mk n "attr @ v @ page_source segs"])
  qed
qed (simp add: rewrite_from.simps)

lemma char_len_le: "char_len s \<le> length s"
  by (auto simp: char_len_def utf8_chunk_def Let_def split: list.splits if_splits)

lemma page_exists: "\<exists>segs. page_source segs = s \<and> page_ok segs"
proof (induction "length s" arbitrary: s rule: less_induct)
  case less
  show ?case
  proof (cases "\<exists>attr v rest. s = attr @ v @ rest \<and> is_link attr v rest")
    case True
    then obtain attr v rest where s: "s = attr @ v @ rest" and l: "is_link attr v rest" by blast
    then have "length rest < length s" by (auto simp: is_link_def opens_href_def)
    from less [OF this] obtain segs where "page_source segs = rest" "page_ok segs" by blast
    with s l show ?thesis
      by (intro exI [of _ "(if is_tracked_url (decode_html_entities v) then Tracked attr v else Untracked attr v) # segs"]) simp
  next
    case False
    show ?thesis
    proof (cases "s = []")
      case True
      then show ?thesis by (intro exI [of _ "[]"]) simp
    next
      case ne: False
      from less [of "drop (char_len s) s"] char_len_pos [OF ne] ne
      obtain segs where "page_source segs = drop (char_len s) s" "page_ok segs" by auto
      with False ne char_len_pos [OF ne] char_len_le [of s] show ?thesis
        by (intro exI [of _ "Character (take (char_len s) s) # segs"]) simp
    qed
  qed
qed

text \<open>
  C37. Link rewriting is exact on every UTF-8 page. A page is, read from the left, made of
  characters at which no link starts, links that are left alone and links whose value
  decodes to an http or https URL, where a link is an \<open>href\<close> attribute with a quoted
  value; and for this reading of it, rewriting returns and its result is the page with
  the value of the n-th tracked link replaced by the tracking URL made for the n-th
  decoded URL, everything else copied as it was, and the decoded URLs in their order.
\<close>

theorem rewrite_links_exact:
  assumes "lowers_href lc" "utf8_valid html"
  shows "(\<exists>segs. page_source segs = html \<and> page_ok segs)
    \<and> (\<forall>segs. page_source segs = html \<and> page_ok segs \<longrightarrow>
         rewrite_links lc html mk = Inr (seg_render mk 0 segs, seg_urls segs))"
proof (intro conjI allI impI)
  fix segs assume "page_source segs = html \<and> page_ok segs"
  with page_ok_rewrites [OF assms(1), of segs mk 0] assms(2)
  show "rewrite_links lc html mk = Inr (seg_render mk 0 segs, seg_urls segs)" by (simp add: rewrite_links_def)
qed (rule page_exists)

section \<open>Only the HTML part changes\<close>

lemma delimiter_lines_bounds:
  "(a, e, c) \<in> set (delimiter_lines delimiter body at) \<Longrightarrow> a \<le> length body \<and> e \<le> length body"
proof (induction delimiter body at rule: delimiter_lines.induct)
  case (1 delimiter body at)
  show ?case
  proof (cases "at + length delimiter \<le> length body \<and> delimiter \<noteq> []")
    case True
    show ?thesis
    proof (cases "(at = 0 \<or> body ! (at - 1) = LF) \<and> prefix delimiter (drop at body)")
      case hit: True
      define e1 where "e1 = (case find_char LF (drop (at + length delimiter) body) of
        Some p \<Rightarrow> at + length delimiter + p + 1 | None \<Rightarrow> length body)"
      have "e1 \<le> length body" by (auto simp: e1_def split: option.split dest!: find_char_SomeD)
      with True hit "1.prems" "1.IH"(1) [OF True hit refl refl e1_def] show ?thesis
        by (auto simp: delimiter_lines.simps [of delimiter body at] Let_def e1_def [symmetric] split: if_splits)
    next
      case False
      show ?thesis
        using "1.prems" "1.IH"(2) [OF True False]
        unfolding delimiter_lines.simps [of delimiter body at] if_P [OF True] if_not_P [OF False] by blast
    qed
  next
    case False
    with "1.prems" show ?thesis by (auto simp: delimiter_lines.simps [of delimiter body at])
  qed
qed

lemma part_end_bounds: "start \<le> part_end body start stop" "start \<le> n \<Longrightarrow> stop \<le> n \<Longrightarrow> part_end body start stop \<le> n"
  by (auto simp: part_end_def Let_def)

lemma multipart_ranges_bounds:
  assumes "(start, stop) \<in> set (multipart_ranges body boundary)"
  shows "start \<le> stop \<and> stop \<le> length body"
proof -
  define lines where "lines = delimiter_lines (''--'' @ boundary) body 0"
  from assms obtain a1 c1 a2 e2 c2 where "((a1, start, c1), (a2, e2, c2)) \<in> set (zip lines (tl lines))"
    and stop: "stop = part_end body start a2"
    by (auto simp: multipart_ranges_def lines_def Let_def)
  then have "(a1, start, c1) \<in> set lines" "(a2, e2, c2) \<in> set (tl lines)"
    by (auto dest: set_zip_leftD set_zip_rightD)
  moreover from this(2) have "(a2, e2, c2) \<in> set lines" by (cases lines) auto
  ultimately have "start \<le> length body" "a2 \<le> length body"
    unfolding lines_def by (auto dest: delimiter_lines_bounds)
  with stop show ?thesis by (simp add: part_end_bounds)
qed

lemma find_map_SomeD: "find_map f xs = Some y \<Longrightarrow> \<exists>x \<in> set xs. f x = Some y"
  by (induction xs) (auto split: option.splits)

lemma find_sub_fits: "find_sub p s = Some i \<Longrightarrow> i + length p \<le> length s"
  using find_sub_SomeD [of p s i] by (auto dest: prefix_length_le)

lemma body_offset_bound: "body_offset raw = Some n \<Longrightarrow> n \<le> length raw"
  by (auto simp: body_offset_def split: option.splits dest: find_sub_fits)

lemma find_html_bounds:
  "find_html lc raw base depth = Some p \<Longrightarrow> base \<le> hp_start p \<and> hp_start p \<le> hp_end p \<and> hp_end p \<le> base + length raw"
proof (induction lc raw base depth rule: find_html.induct)
  case (1 lc raw base depth)
  note eq = "1.prems" [unfolded find_html.simps [of lc raw base depth]]
  define hs where "hs = parse_headers lc raw"
  define ct where "ct = (case part_header hs ''content-type'' of Some v \<Rightarrow> v | None \<Rightarrow> ''text/plain'')"
  define media where "media = to_ascii_lowercase (trim (hd (split_on (CHR '';'') ct)))"
  from eq have d: "\<not> depth > MAX_PART_DEPTH" by (auto split: if_splits)
  from eq d obtain n where n: "body_offset raw = Some n" by (auto simp: Let_def split: option.splits)
  note le = body_offset_bound [OF n]
  show ?case
  proof (cases "prefix ''multipart/'' media")
    case True
    with eq d n have s: "media \<noteq> ''multipart/signed''"
      by (auto simp: Let_def hs_def ct_def media_def split: if_splits)
    with eq d n True obtain b where b: "parameter ct ''boundary'' = Some b"
      by (auto simp: Let_def hs_def ct_def media_def split: option.splits)
    with eq d n True s have "find_map (\<lambda>(start, stop).
        find_html lc (take (stop - start) (drop start (drop n raw))) (base + n + start) (depth + 1))
        (multipart_ranges (drop n raw) b) = Some p"
      by (simp add: Let_def hs_def ct_def media_def)
    then obtain start stop where r: "(start, stop) \<in> set (multipart_ranges (drop n raw) b)"
      and h: "find_html lc (take (stop - start) (drop start (drop n raw))) (base + n + start) (depth + 1) = Some p"
      by (auto dest!: find_map_SomeD)
    from "1.IH" [OF d hs_def ct_def n refl media_def True s b r refl h] multipart_ranges_bounds [OF r] le
    show ?thesis by auto
  next
    case False
    with eq d n le show ?thesis
      by (auto simp: Let_def hs_def ct_def media_def split: if_splits)
  qed
qed

text \<open>The base64 codec of the library: decoding inverts encoding, and the encoding has no white space.\<close>

definition base64_ok :: "base64_ops \<Rightarrow> bool" where
  "base64_ok b \<longleftrightarrow> (\<forall>t. b64_decode b (b64_encode b t) = Some t \<and> list_all (\<lambda>c. \<not> is_ascii_ws c) (b64_encode b t))"

lemma chunks_filter:
  "n \<noteq> 0 \<Longrightarrow> list_all (\<lambda>c. \<not> is_ascii_ws c) xs \<Longrightarrow>
   filter (\<lambda>c. \<not> is_ascii_ws c) (intercalate crlf (chunks n xs)) = xs"
proof (induction n xs rule: chunks.induct)
  case (1 n xs)
  show ?case
  proof (cases "xs = []")
    case False
    have split: "list_all (\<lambda>c. \<not> is_ascii_ws c) (take n xs)" "list_all (\<lambda>c. \<not> is_ascii_ws c) (drop n xs)"
      using "1.prems"(2) append_take_drop_id [of n xs] by (metis list_all_append)+
    have keep: "filter (\<lambda>c. \<not> is_ascii_ws c) (take n xs) = take n xs"
      using split(1) by (simp add: filter_id_conv list_all_iff)
    have ih: "filter (\<lambda>c. \<not> is_ascii_ws c) (intercalate crlf (chunks n (drop n xs))) = drop n xs"
      using "1.IH" False "1.prems"(1) split(2) by blast
    have eq: "chunks n xs = take n xs # chunks n (drop n xs)"
      using False "1.prems"(1) by (subst chunks.simps) simp
    show ?thesis
    proof (cases "chunks n (drop n xs)")
      case Nil
      with ih have "drop n xs = []" by simp
      with eq Nil keep show ?thesis by simp
    next
      case (Cons y ys)
      with eq ih keep show ?thesis by (simp add: is_ascii_ws_def)
    qed
  qed (simp add: chunks.simps)
qed

text \<open>A text as it arrives behind a transfer encoding: quoted-printable writes every line break as CRLF.\<close>

definition arrives :: "encoding \<Rightarrow> bytes \<Rightarrow> bytes" where
  "arrives e t = (if e = QuotedPrintable then intercalate crlf (map (chomp [CR]) (split_on LF t)) else t)"

lemma decode_encode_part:
  assumes "base64_ok b"
  shows "decode_part b e (encode_part b e t) = Some (arrives e t)"
  using assms
  by (cases e) (auto simp: decode_part_def encode_part_def arrives_def base64_ok_def chunks_filter
      encode_quoted_printable_def decode_qp_lines)

text \<open>
  C38. Rewriting touches the HTML part only: for a message whose HTML the tracker read, the
  message splits into what is before the part, the encoded part, and what is after it; the
  new message has the same bytes before and after, and its part decodes to the new HTML
  (with CRLF line breaks when the part is quoted-printable), whatever its transfer encoding.
\<close>

theorem with_html_exact:
  assumes "base64_ok b" "html_of lc b raw = Some html"
  shows "\<exists>pre body post e. raw = pre @ body @ post \<and> decode_part b e body = Some html
     \<and> with_html lc b raw new = Some (pre @ encode_part b e new @ post)
     \<and> decode_part b e (encode_part b e new) = Some (arrives e new)"
proof -
  from assms(2) obtain p where p: "find_html lc raw 0 0 = Some p"
    and d: "decode_part b (hp_encoding p) (take (hp_end p - hp_start p) (drop (hp_start p) raw)) = Some html"
    by (auto simp: html_of_def bind_eq_Some_conv split: option.splits if_splits)
  have "raw = take (hp_start p) raw @ take (hp_end p - hp_start p) (drop (hp_start p) raw) @ drop (hp_end p) raw"
    using find_html_bounds [OF p] by (metis append_take_drop_id drop_drop le_add_diff_inverse2)
  moreover have "with_html lc b raw new =
      Some (take (hp_start p) raw @ encode_part b (hp_encoding p) new @ drop (hp_end p) raw)"
    using p by (simp add: with_html_def)
  ultimately show ?thesis using d decode_encode_part [OF assms(1)] by blast
qed

section \<open>Witnesses\<close>

text \<open>A page in one part, and a codec with two letters a byte in the place of base64.\<close>

fun demo_unpair :: "string \<Rightarrow> bytes option" where
  "demo_unpair [] = Some []"
| "demo_unpair (a # b # s) = (case parse_hex2 a b of None \<Rightarrow> None | Some n \<Rightarrow> map_option ((#) (char_of n)) (demo_unpair s))"
| "demo_unpair s = None"

definition demo_base64 :: base64_ops where
  "demo_base64 = \<lparr>b64_encode = \<lambda>t. concat (map (\<lambda>c. [hex_digit (byte c div 16), hex_digit (byte c mod 16)]) t),
     b64_decode = demo_unpair\<rparr>"

lemma hex_digit_no_ws: "d < 16 \<Longrightarrow> \<not> is_ascii_ws (hex_digit d)"
  using hex_value_digit [of d] by (auto simp: is_ascii_ws_def hex_value_def is_ascii_digit_def)

lemma demo_base64_ok: "base64_ok demo_base64"
proof -
  have "demo_unpair (concat (map (\<lambda>c. [hex_digit (byte c div 16), hex_digit (byte c mod 16)]) t)) = Some t" for t
    by (induction t) (auto simp: parse_hex2_byte)
  then show ?thesis by (auto simp: base64_ok_def demo_base64_def list_all_iff hex_digit_no_ws)
qed

definition demo_page :: bytes where
  "demo_page = ''Content-Type: text/html'' @ crlf @ crlf @ ''<p>Hi</p>''"

lemma demo_page_html: "html_of to_ascii_lowercase demo_base64 demo_page = Some ''<p>Hi</p>''"
  by code_simp

theorem with_html_exact_witness:
  "\<exists>pre body post e. demo_page = pre @ body @ post \<and> decode_part demo_base64 e body = Some ''<p>Hi</p>''
     \<and> with_html to_ascii_lowercase demo_base64 demo_page ''<p>Ho</p>''
       = Some (pre @ encode_part demo_base64 e ''<p>Ho</p>'' @ post)
     \<and> decode_part demo_base64 e (encode_part demo_base64 e ''<p>Ho</p>'') = Some (arrives e ''<p>Ho</p>'')"
  by (rule with_html_exact [OF demo_base64_ok demo_page_html])

lemma ascii_lowers_href: "lowers_href to_ascii_lowercase"
proof -
  have "prefix ''href'' t \<longleftrightarrow> take 4 t = ''href''" for t
    by (auto simp: prefix_def intro: exI [of _ "drop 4 t"]) (metis append_Cons append_Nil append_take_drop_id)
  then show ?thesis by (simp add: lowers_href_def to_ascii_lowercase_def take_map)
qed

definition demo_link :: string where
  "demo_link = ''<a href='' @ [DQ] @ ''http://a/?x=1&amp;y=2'' @ [DQ] @ ''>a</a>''"

theorem rewrite_links_exact_witness:
  "(\<exists>segs. page_source segs = demo_link \<and> page_ok segs
     \<and> rewrite_links to_ascii_lowercase demo_link (\<lambda>n u. ''T'') = Inr (seg_render (\<lambda>n u. ''T'') 0 segs, seg_urls segs))
   \<and> rewrite_links to_ascii_lowercase demo_link (\<lambda>n u. ''T'')
     = Inr (''<a href='' @ [DQ] @ ''T'' @ [DQ] @ ''>a</a>'', [''http://a/?x=1&y=2''])"
proof
  have "utf8_valid demo_link" by code_simp
  from rewrite_links_exact [OF ascii_lowers_href this, of "\<lambda>n u. ''T''"]
  show "\<exists>segs. page_source segs = demo_link \<and> page_ok segs
     \<and> rewrite_links to_ascii_lowercase demo_link (\<lambda>n u. ''T'') = Inr (seg_render (\<lambda>n u. ''T'') 0 segs, seg_urls segs)"
    by blast
  show "rewrite_links to_ascii_lowercase demo_link (\<lambda>n u. ''T'')
     = Inr (''<a href='' @ [DQ] @ ''T'' @ [DQ] @ ''>a</a>'', [''http://a/?x=1&y=2''])"
    by code_simp
qed

text \<open>
  The open pixel goes to a position found in the lower-cased copy. A letter whose lower case
  is longer (the dotted capital I: two bytes, three in lower case) shifts that position: with
  eight of them before the end of the body it is past the end of the HTML and the slice panics.
\<close>

theorem open_pixel_panics:
  assumes "lc (concat (replicate 8 [CHR 0xC4, CHR 0xB0]) @ ''</body>'')
    = concat (replicate 8 [CHR ''i'', CHR 0xCC, CHR 0x87]) @ ''</body>''"
  shows "inject_open_pixel lc (concat (replicate 8 [CHR 0xC4, CHR 0xB0]) @ ''</body>'') url = Inl CharBoundary"
proof -
  have "rfind_sub ''</body>'' (concat (replicate 8 [CHR ''i'', CHR 0xCC, CHR 0x87]) @ ''</body>'') = Some 24"
    by code_simp
  moreover have "\<not> is_char_boundary (concat (replicate 8 [CHR 0xC4, CHR 0xB0]) @ ''</body>'') 24"
    by code_simp
  ultimately show ?thesis unfolding inject_open_pixel_def assms by (simp add: slice_to_def)
qed

end
