(* ===== verification/Accounts.thy ===== *)
theory Accounts
  imports Mail_Model
begin

unbundle bit_operations_syntax

text \<open>
  Account primitives (\<open>core/auth.rs\<close>): base32, time-based one-time passwords, roles and the
  account records. Argon2, SHA-256 and HMAC-SHA1 are the fields of \<open>auth_crypto\<close>. The
  base32 buffers are 64-bit words whose high bits are shifted out.
\<close>

record auth_crypto =
  ax_hash_password :: "nat \<Rightarrow> string \<Rightarrow> string + string"
  ax_verify_password :: "string \<Rightarrow> string \<Rightarrow> bool"
  ax_sha256_hex :: "string \<Rightarrow> string"
  ax_hmac_sha1 :: "bytes \<Rightarrow> bytes \<Rightarrow> bytes"

definition hash_token :: "auth_crypto \<Rightarrow> string \<Rightarrow> string" where
  "hash_token cr token = ax_sha256_hex cr token"

section \<open>Base32\<close>

definition BASE32_ALPHABET :: string where
  "BASE32_ALPHABET = ''ABCDEFGHIJKLMNOPQRSTUVWXYZ234567''"

text \<open>The inner loop: five bits are emitted while there are five.\<close>

fun base32_emit :: "64 word \<Rightarrow> nat \<Rightarrow> string \<times> nat" where
  "base32_emit buffer bits =
     (if 5 \<le> bits then
        (case base32_emit buffer (bits - 5) of
           (out, rest) \<Rightarrow> (BASE32_ALPHABET ! unat (drop_bit (bits - 5) buffer AND 0x1f) # out, rest))
      else ([], bits))"

declare base32_emit.simps [simp del]

fun base32_encode_from :: "64 word \<Rightarrow> nat \<Rightarrow> bytes \<Rightarrow> string" where
  "base32_encode_from buffer bits [] =
     (if 0 < bits then [BASE32_ALPHABET ! unat (push_bit (5 - bits) buffer AND 0x1f)] else [])"
| "base32_encode_from buffer bits (c # data) =
     (let buffer' = push_bit 8 buffer OR word_of_nat (byte c);
          (out, bits') = base32_emit buffer' (bits + 8)
      in out @ base32_encode_from buffer' bits' data)"

definition base32_encode :: "bytes \<Rightarrow> string" where
  "base32_encode data = base32_encode_from 0 0 data"

definition base32_value :: "char \<Rightarrow> nat option" where
  "base32_value c = find_char (upper_c c) BASE32_ALPHABET"

fun base32_decode_from :: "64 word \<Rightarrow> nat \<Rightarrow> string \<Rightarrow> bytes option" where
  "base32_decode_from buffer bits [] = Some []"
| "base32_decode_from buffer bits (c # s) =
     (if c = CHR ''='' \<or> c = CHR '' '' then base32_decode_from buffer bits s
      else
        (case base32_value c of
           None \<Rightarrow> None
         | Some v \<Rightarrow>
             (let buffer' = push_bit 5 buffer OR word_of_nat v;
                  bits' = bits + 5
              in if 8 \<le> bits' then
                   map_option ((#) (char_of (unat (drop_bit (bits' - 8) buffer' AND 0xff))))
                     (base32_decode_from buffer' (bits' - 8) s)
                 else base32_decode_from buffer' bits' s)))"

definition base32_decode :: "string \<Rightarrow> bytes option" where
  "base32_decode encoded = base32_decode_from 0 0 encoded"

section \<open>One-time passwords\<close>

definition TOTP_STEP_SECONDS :: nat where "TOTP_STEP_SECONDS = 30"
definition TOTP_DIGITS :: nat where "TOTP_DIGITS = 6"

definition to_be_bytes :: "nat \<Rightarrow> bytes" where
  "to_be_bytes n = map (\<lambda>i. char_of (n div 256 ^ i mod 256)) (rev [0..<8])"

text \<open>The dynamic truncation; an index past the digest is the panic of the slice.\<close>

definition truncate_digest :: "bytes \<Rightarrow> nat option" where
  "truncate_digest digest =
     (if length digest \<le> 19 then None
      else
        (let offset = byte (digest ! 19) mod 16 in
         if length digest \<le> offset + 3 then None
         else Some (byte (digest ! offset) mod 128 * 2 ^ 24 + byte (digest ! (offset + 1)) * 2 ^ 16
                    + byte (digest ! (offset + 2)) * 2 ^ 8 + byte (digest ! (offset + 3)))))"

definition zero_pad :: "nat \<Rightarrow> string \<Rightarrow> string" where
  "zero_pad n s = replicate (n - length s) (CHR ''0'') @ s"

definition totp_code :: "auth_crypto \<Rightarrow> string \<Rightarrow> nat \<Rightarrow> string option" where
  "totp_code cr secret_base32 unix_time =
     (case base32_decode secret_base32 of
        None \<Rightarrow> None
      | Some secret \<Rightarrow>
          (let counter = unix_time div TOTP_STEP_SECONDS;
               digest = ax_hmac_sha1 cr secret (to_be_bytes counter)
           in map_option (\<lambda>binary. zero_pad TOTP_DIGITS (show_nat (binary mod 10 ^ TOTP_DIGITS))) (truncate_digest digest)))"

text \<open>\<open>u64::saturating_add_signed\<close>.\<close>

definition saturating_add_signed :: "nat \<Rightarrow> int \<Rightarrow> nat" where
  "saturating_add_signed n d = nat (max 0 (min (2 ^ 64 - 1) (int n + d)))"

definition verify_totp :: "auth_crypto \<Rightarrow> string \<Rightarrow> string \<Rightarrow> nat \<Rightarrow> bool" where
  "verify_totp cr secret_base32 code unix_time =
     (if length code \<noteq> TOTP_DIGITS then False
      else list_ex (\<lambda>drift. totp_code cr secret_base32 (saturating_add_signed unix_time (drift * int TOTP_STEP_SECONDS)) = Some code)
             [- 1, 0, 1])"

definition otpauth_char :: "char \<Rightarrow> string" where
  "otpauth_char c =
     (if is_ascii_alnum c \<or> c \<in> set ''-._~'' then [c]
      else [CHR ''%'', upper_hex_digit (byte c div 16), upper_hex_digit (byte c mod 16)])"

definition otpauth_url :: "string \<Rightarrow> string \<Rightarrow> string \<Rightarrow> string" where
  "otpauth_url secret_base32 account issuer =
     (let encode = (\<lambda>v. concat (map otpauth_char v)) in
      ''otpauth://totp/'' @ encode issuer @ '':'' @ encode account @ ''?secret='' @ secret_base32
      @ ''&issuer='' @ encode issuer @ ''&algorithm=SHA1&digits=6&period=30'')"

section \<open>Roles\<close>

datatype role = Viewer | Member | Admin | Owner

primrec role_rank :: "role \<Rightarrow> nat" where
  "role_rank Viewer = 0" | "role_rank Member = 1" | "role_rank Admin = 2" | "role_rank Owner = 3"

instantiation role :: linorder
begin

definition less_eq_role :: "role \<Rightarrow> role \<Rightarrow> bool" where
  "less_eq_role a b \<longleftrightarrow> role_rank a \<le> role_rank b"

definition less_role :: "role \<Rightarrow> role \<Rightarrow> bool" where
  "less_role a b \<longleftrightarrow> role_rank a < role_rank b"

instance
proof
  fix x y z :: role
  show "x < y \<longleftrightarrow> x \<le> y \<and> \<not> y \<le> x" by (auto simp: less_role_def less_eq_role_def)
  show "x \<le> x" by (simp add: less_eq_role_def)
  show "x \<le> y \<Longrightarrow> y \<le> z \<Longrightarrow> x \<le> z" by (simp add: less_eq_role_def)
  show "x \<le> y \<Longrightarrow> y \<le> x \<Longrightarrow> x = y" by (cases x; cases y) (simp_all add: less_eq_role_def)
  show "x \<le> y \<or> y \<le> x" by (auto simp: less_eq_role_def)
qed

end

primrec role_as_str :: "role \<Rightarrow> string" where
  "role_as_str Viewer = ''viewer''"
| "role_as_str Member = ''member''"
| "role_as_str Admin = ''admin''"
| "role_as_str Owner = ''owner''"

definition role_parse :: "string \<Rightarrow> role option" where
  "role_parse v =
     (if v = ''viewer'' then Some Viewer else if v = ''member'' then Some Member
      else if v = ''admin'' then Some Admin else if v = ''owner'' then Some Owner else None)"

lemma role_parse_as_str [simp]: "role_parse (role_as_str r) = Some r"
  by (cases r) (simp_all add: role_parse_def)

section \<open>Records\<close>

record user =
  us_id :: Id
  us_uuid :: string
  us_email_address :: string
  us_first_name :: string
  us_last_name :: string
  us_admin :: bool

record user_auth =
  ua_user_id :: Id
  ua_password_digest :: "string option"
  ua_totp_secret :: "string option"
  ua_totp_enabled :: bool
  ua_failed_login_attempts :: nat
  ua_locked_until :: "instant option"
  ua_last_login_at :: "instant option"
  ua_oidc_sub :: "string option"
  ua_disabled :: bool

definition user_auth_default :: "Id \<Rightarrow> user_auth" where
  "user_auth_default u =
     \<lparr>ua_user_id = u, ua_password_digest = None, ua_totp_secret = None, ua_totp_enabled = False,
      ua_failed_login_attempts = 0, ua_locked_until = None, ua_last_login_at = None,
      ua_oidc_sub = None, ua_disabled = False\<rparr>"

record oidc_logout =
  ol_id_token :: string
  ol_end_session_endpoint :: string

record auth_session =
  as_id :: Id
  as_user_id :: Id
  as_token_hash :: string
  as_created_at :: instant
  as_expires_at :: instant
  as_last_used_at :: instant
  as_ip_address :: "string option"
  as_user_agent :: "string option"
  as_oidc_logout :: "oidc_logout option"

record new_auth_session =
  ns_user_id :: Id
  ns_token_hash :: string
  ns_expires_at :: instant
  ns_ip_address :: "string option"
  ns_user_agent :: "string option"
  ns_oidc_logout :: "oidc_logout option"

record organization_membership =
  om_id :: Id
  om_organization_id :: Id
  om_user_id :: Id
  om_role :: role
  om_created_at :: instant

record invitation =
  iv_id :: Id
  iv_uuid :: string
  iv_organization_id :: Id
  iv_email_address :: string
  iv_role :: role
  iv_token_hash :: string
  iv_invited_by_user_id :: Id
  iv_expires_at :: instant
  iv_accepted_at :: "instant option"

record new_invitation =
  ni_organization_id :: Id
  ni_email_address :: string
  ni_role :: role
  ni_token_hash :: string
  ni_invited_by_user_id :: Id
  ni_expires_at :: instant

record webauthn_credential =
  wc_id :: Id
  wc_user_id :: Id
  wc_name :: string
  wc_credential_id :: string
  wc_credential_json :: string
  wc_created_at :: instant
  wc_last_used_at :: "instant option"

record new_webauthn_credential =
  nw_user_id :: Id
  nw_name :: string
  nw_credential_id :: string
  nw_credential_json :: string

record auth_event =
  av_id :: Id
  av_user_id :: "Id option"
  av_email_address :: "string option"
  av_event :: string
  av_ip_address :: "string option"
  av_user_agent :: "string option"
  av_created_at :: instant

record new_auth_event =
  ne_user_id :: "Id option"
  ne_email_address :: "string option"
  ne_event :: string
  ne_ip_address :: "string option"
  ne_user_agent :: "string option"

section \<open>Base32 is reversible\<close>

text \<open>The codecs depend on the low bits of their buffers only: the pending bits as a number.\<close>

definition pend :: "64 word \<Rightarrow> nat \<Rightarrow> nat" where
  "pend buffer bits = unat buffer mod 2 ^ bits"

lemma pend_push:
  assumes "bits + n \<le> 64" "v < 2 ^ n" "n < 64"
  shows "pend (push_bit n buffer OR word_of_nat v) (bits + n) = pend buffer bits * 2 ^ n + v"
proof -
  let ?u = "unat buffer"
  have tv: "take_bit m v = v" if "n \<le> m" for m
    using assms(2) that by (simp add: take_bit_nat_eq_self_iff order_less_le_trans power_increasing)
  have "take_bit (bits + n) (unat (push_bit n buffer OR word_of_nat v))
      = take_bit (bits + n) (take_bit 64 (push_bit n ?u) OR take_bit 64 v)"
    by (simp add: unsigned_or_eq unsigned_push_bit_eq unsigned_of_nat)
  also have "\<dots> = push_bit n (take_bit bits ?u) OR v"
    using assms(1,3) by (auto simp: tv take_bit_push_bit min_def)
  also have "\<dots> = push_bit n (take_bit bits ?u) + v"
  proof (rule disjunctive_add_eq_or [symmetric])
    show "push_bit n (take_bit bits ?u) AND v = 0"
      by (subst tv [of n, symmetric]) (auto intro!: bit_eqI simp: bit_simps)
  qed
  finally show ?thesis by (simp add: pend_def take_bit_eq_mod push_bit_eq_mult)
qed

lemma word_slice:
  assumes "bits + n \<le> 64"
  shows "unat (drop_bit bits buffer AND mask n) = pend buffer (bits + n) div 2 ^ bits"
proof -
  have "unat (drop_bit bits buffer AND mask n) = take_bit n (drop_bit bits (unat buffer))"
    using unsigned_less [of buffer, where ?'a = nat]
    by (simp add: take_bit_eq_mask [symmetric] unsigned_take_bit_eq unsigned_drop_bit_eq take_bit_nat_eq_self)
  also have "\<dots> = drop_bit bits (take_bit (bits + n) (unat buffer))"
    by (simp add: take_bit_drop_bit add.commute)
  finally show ?thesis by (simp add: pend_def take_bit_eq_mod drop_bit_eq_div)
qed

lemma pend_less: "pend buffer bits < 2 ^ bits"
  by (simp add: pend_def)

lemma pend_mod: "m \<le> n \<Longrightarrow> pend buffer m = pend buffer n mod 2 ^ m"
  by (simp add: pend_def mod_mod_cancel le_imp_power_dvd)

lemma slice5: "bits \<le> 59 \<Longrightarrow> unat (drop_bit bits buffer AND 0x1f) = pend buffer (bits + 5) div 2 ^ bits"
  using word_slice [of bits 5 buffer] by (simp add: mask_eq_exp_minus_1)

lemma slice8: "bits \<le> 56 \<Longrightarrow> unat (drop_bit bits buffer AND 0xff) = pend buffer (bits + 8) div 2 ^ bits"
  using word_slice [of bits 8 buffer] by (simp add: mask_eq_exp_minus_1)

text \<open>The codecs on numbers: \<open>v\<close> is the value of the pending bits, of which an encoder has fewer than five.\<close>

abbreviation digit32 :: "nat \<Rightarrow> char" where
  "digit32 n \<equiv> BASE32_ALPHABET ! n"

fun enc_nat :: "nat \<Rightarrow> nat \<Rightarrow> bytes \<Rightarrow> string" where
  "enc_nat v e [] = (if 0 < e then [digit32 (v * 2 ^ (5 - e))] else [])"
| "enc_nat v e (c # data) =
     (let w = v * 256 + byte c in
      if e < 2 then digit32 (w div 2 ^ (e + 3)) # enc_nat (w mod 2 ^ (e + 3)) (e + 3) data
      else digit32 (w div 2 ^ (e + 3)) # digit32 (w div 2 ^ (e - 2) mod 32) # enc_nat (w mod 2 ^ (e - 2)) (e - 2) data)"

fun dec_nat :: "nat \<Rightarrow> nat \<Rightarrow> string \<Rightarrow> bytes option" where
  "dec_nat w b [] = Some []"
| "dec_nat w b (c # s) =
     (case base32_value c of
        None \<Rightarrow> None
      | Some v \<Rightarrow>
          (let x = w * 32 + v in
           if 3 \<le> b then map_option ((#) (char_of (x div 2 ^ (b - 3)))) (dec_nat (x mod 2 ^ (b - 3)) (b - 3) s)
           else dec_nat x (b + 5) s))"

lemma encode_from_nat: "e < 5 \<Longrightarrow> base32_encode_from buffer e data = enc_nat (pend buffer e) e data"
proof (induction data arbitrary: buffer e)
  case Nil
  have "unat (push_bit (5 - e) buffer AND 0x1f) = pend buffer e * 2 ^ (5 - e)" if "0 < e"
    using pend_push [of e "5 - e" 0 buffer] slice5 [of 0 "push_bit (5 - e) buffer"] that Nil by simp
  then show ?case by simp
next
  case (Cons c data)
  define b where "b = push_bit 8 buffer OR word_of_nat (byte c)"
  let ?w = "pend buffer e * 256 + byte c"
  have w: "pend b (e + 8) = ?w"
    using pend_push [of e 8 "byte c" buffer] Cons.prems by (simp add: b_def)
  have d1: "unat (drop_bit (e + 3) b AND 0x1f) = ?w div 2 ^ (e + 3)"
    using slice5 [of "e + 3" b] w Cons.prems by (simp add: add.commute)
  have m1: "pend b (e + 3) = ?w mod 2 ^ (e + 3)"
    using pend_mod [of "e + 3" "e + 8" b] w by simp
  show ?case
  proof (cases "e < 2")
    case True
    have "base32_emit b (e + 8) = ([digit32 (?w div 2 ^ (e + 3))], e + 3)"
      using True d1 by (simp add: base32_emit.simps add.commute [of 3])
    with True Cons.IH [of "e + 3" b] m1 show ?thesis by (simp add: Let_def b_def)
  next
    case False
    then have five: "(e - 2) + 5 = e + 3" by simp
    have d2: "unat (drop_bit (e - 2) b AND 0x1f) = ?w mod 2 ^ (e + 3) div 2 ^ (e - 2)"
      using slice5 [of "e - 2" b, unfolded five] m1 Cons.prems by simp
    have "?w mod 2 ^ (e + 3) div 2 ^ (e - 2) = ?w div 2 ^ (e - 2) mod 32"
    proof -
      have "e + 3 = (e - 2) + 5" using False by simp
      then show ?thesis by (simp only: power_add mod_mult2_eq) simp
    qed
    moreover have "base32_emit b (e + 8)
        = ([digit32 (?w div 2 ^ (e + 3)), digit32 (?w mod 2 ^ (e + 3) div 2 ^ (e - 2))], e - 2)"
      using False d1 d2 Cons.prems by (simp add: base32_emit.simps add.commute [of 3])
    moreover have "pend b (e - 2) = ?w mod 2 ^ (e - 2)"
      using pend_mod [of "e - 2" "e + 8" b] w by simp
    ultimately show ?thesis using False Cons.IH [of "e - 2" b] Cons.prems by (simp add: Let_def b_def)
  qed
qed

lemma base32_value_less: "base32_value c = Some v \<Longrightarrow> v < 32"
proof -
  assume "base32_value c = Some v"
  then have "v < length BASE32_ALPHABET" unfolding base32_value_def by (rule find_char_SomeD [THEN conjunct1])
  then show "v < 32" by (simp add: BASE32_ALPHABET_def)
qed

lemma decode_from_nat:
  "b < 8 \<Longrightarrow> CHR ''='' \<notin> set s \<Longrightarrow> CHR '' '' \<notin> set s \<Longrightarrow> base32_decode_from buffer b s = dec_nat (pend buffer b) b s"
proof (induction s arbitrary: buffer b)
  case (Cons c s)
  then have c: "c \<noteq> CHR ''=''" "c \<noteq> CHR '' ''" by auto
  show ?case
  proof (cases "base32_value c")
    case (Some v)
    define d where "d = push_bit 5 buffer OR word_of_nat v"
    have w: "pend d (b + 5) = pend buffer b * 32 + v"
      using pend_push [of b 5 v buffer] base32_value_less [OF Some] Cons.prems(1) by (simp add: d_def)
    have step: "base32_decode_from buffer b (c # s) = (if 8 \<le> b + 5 then
        map_option ((#) (char_of (unat (drop_bit (b + 5 - 8) d AND 0xff)))) (base32_decode_from d (b + 5 - 8) s)
        else base32_decode_from d (b + 5) s)"
      using c Some by (simp add: Let_def d_def)
    show ?thesis
    proof (cases "3 \<le> b")
      case True
      then have e: "b + 5 - 8 = b - 3" "b - 3 + 8 = b + 5" by simp_all
      have p: "pend d (b - 3) = pend d (b + 5) mod 2 ^ (b - 3)" by (rule pend_mod) simp
      show ?thesis
        unfolding step e using True Some w p slice8 [of "b - 3" d] e Cons.IH [of "b - 3" d] Cons.prems
        by (simp add: Let_def)
    next
      case False
      show ?thesis
        unfolding step using False Some w Cons.IH [of "b + 5" d] Cons.prems by (simp add: Let_def)
    qed
  qed (use c in simp)
qed simp

lemma digit32_value:
  assumes "n < 32"
  shows "base32_value (digit32 n) = Some n" "digit32 n \<noteq> CHR ''=''" "digit32 n \<noteq> CHR '' ''"
proof -
  have "list_all (\<lambda>n. base32_value (digit32 n) = Some n \<and> digit32 n \<noteq> CHR ''='' \<and> digit32 n \<noteq> CHR '' '') [0..<32]"
    by code_simp
  with assms show "base32_value (digit32 n) = Some n" "digit32 n \<noteq> CHR ''=''" "digit32 n \<noteq> CHR '' ''"
    by (auto simp: list_all_iff)
qed

text \<open>
  An encoder with \<open>e\<close> pending bits and its decoder: the decoder has the other bits of the
  last byte \<open>d\<close>.
\<close>

lemma dec_step_out:
  assumes "3 \<le> b" "v < 32" "w * 32 + v = d * 2 ^ (b - 3) + r" "r < 2 ^ (b - 3)"
  shows "dec_nat w b (digit32 v # s) = map_option ((#) (char_of d)) (dec_nat r (b - 3) s)"
proof -
  have "(d * 2 ^ (b - 3) + r) div 2 ^ (b - 3) = d" "(d * 2 ^ (b - 3) + r) mod 2 ^ (b - 3) = r"
    using assms(4) by simp_all
  with assms(1-3) show ?thesis by (simp add: digit32_value Let_def)
qed

lemma dec_step_keep:
  "b < 3 \<Longrightarrow> v < 32 \<Longrightarrow> dec_nat w b (digit32 v # s) = dec_nat (w * 32 + v) (b + 5) s"
  by (simp add: digit32_value Let_def)

declare dec_nat.simps(2) [simp del]

definition coded :: "nat \<Rightarrow> nat \<Rightarrow> nat \<Rightarrow> nat \<Rightarrow> nat \<Rightarrow> bool" where
  "coded d e v w b \<longleftrightarrow>
     e < 5 \<and> (if e = 0 then v = 0 \<and> w = 0 \<and> b = 0 else d < 256 \<and> v = d mod 2 ^ e \<and> w = d div 2 ^ e \<and> b = 8 - e)"

lemma carry: "0 < k \<Longrightarrow> (v * (m * k) + c) div k = v * m + c div k" "(v * (m * k) + c) mod k = c mod k" for c :: nat
  by (simp_all add: mult.assoc [symmetric])

lemma byte_div: "k * m = 256 \<Longrightarrow> byte c div k < m"
  by (rule less_mult_imp_div_less) (metis byte_less_256 mult.commute)

lemma dec_enc_nat:
  "coded d e v w b \<Longrightarrow> dec_nat w b (enc_nat v e data) = Some ((if e = 0 then [] else [char_of d]) @ data)"
proof (induction data arbitrary: d e v w b)
  case Nil
  show ?case
  proof (cases "e = 0")
    case False
    with Nil have e: "d < 256" "v = d mod 2 ^ e" "w = d div 2 ^ e" "b = 8 - e" "e < 5" by (auto simp: coded_def)
    have two: "(2::nat) ^ e * 2 ^ (5 - e) = 32" using e(5) by (simp flip: power_add)
    have "v < 2 ^ e" using e(2) by simp
    then have "v * 2 ^ (5 - e) < 2 ^ e * 2 ^ (5 - e)" by simp
    moreover have "w * 32 + v * 2 ^ (5 - e) = d * 2 ^ (b - 3) + 0"
    proof -
      have "w * 32 + v * 2 ^ (5 - e) = (w * 2 ^ e + v) * 2 ^ (5 - e)"
        by (simp add: distrib_right mult.assoc two)
      moreover have "w * 2 ^ e + v = d" unfolding e(2,3) by (rule div_mult_mod_eq)
      moreover have "b - 3 = 5 - e" using e(4,5) by simp
      ultimately show ?thesis by simp
    qed
    ultimately show ?thesis
      using False e two dec_step_out [of b "v * 2 ^ (5 - e)" w d 0 "[]"] by simp
  qed (use Nil in \<open>simp add: coded_def\<close>)
next
  case (Cons c data)
  let ?c = "byte c"
  have c: "?c < 256" by simp
  have e: "e < 5" using Cons.prems by (simp add: coded_def)
  then consider "e = 0" | "e = 1" | "e = 2" | "e = 3" | "e = 4" by linarith
  then show ?case
  proof cases
    case 1
    have "coded ?c 3 (?c mod 8) (?c div 8) 5" using c by (simp add: coded_def)
    moreover have "?c div 8 < 32" using c by presburger
    moreover have "v = 0 \<and> w = 0 \<and> b = 0" using 1 Cons.prems by (simp add: coded_def)
    ultimately show ?thesis
      using Cons.IH 1 dec_step_keep [of 0 "?c div 8" 0] by (simp add: Let_def)
  next
    case 2
    with Cons.prems have d: "d = w * 2 + v" "v < 2" "b = 7" by (auto simp: coded_def)
    have "w * 32 + (v * 256 + ?c) div 16 = d * 16 + ?c div 16" "(v * 256 + ?c) div 16 < 32"
      "(v * 256 + ?c) mod 16 = ?c mod 16"
      using d byte_div [of 16 16 c] carry [where k = 16 and v = v and m = 16 and c = ?c, simplified] by linarith+
    moreover have "coded ?c 4 (?c mod 16) (?c div 16) 4" using c by (simp add: coded_def)
    ultimately show ?thesis
      using Cons.IH 2 d byte_div [of 16 16 c] dec_step_out [of 7 _ w d "?c div 16"] by (simp add: Let_def)
  next
    case 3
    with Cons.prems have d: "d = w * 4 + v" "v < 4" "b = 6" by (auto simp: coded_def)
    have "w * 32 + (v * 256 + ?c) div 32 = d * 8 + ?c div 32" "(v * 256 + ?c) div 32 < 32"
      "(v * 256 + ?c) mod 32 = ?c mod 32"
      using d byte_div [of 32 8 c] carry [where k = 32 and v = v and m = 8 and c = ?c, simplified] by linarith+
    moreover have "coded ?c 0 0 0 0" by (simp add: coded_def)
    ultimately show ?thesis
      using Cons.IH 3 d byte_div [of 32 8 c] dec_step_out [of 6 _ w d "?c div 32"]
        dec_step_out [of 3 "?c mod 32" "?c div 32" ?c 0]
      by (simp add: Let_def)
  next
    case 4
    with Cons.prems have d: "d = w * 8 + v" "v < 8" "b = 5" by (auto simp: coded_def)
    have "?c div 2 div 32 = ?c div 64" by (simp flip: div_mult2_eq)
    then have join: "?c div 64 * 32 + ?c div 2 mod 32 = ?c div 2" using div_mult_mod_eq [of "?c div 2" 32] by simp
    have a: "(v * 256 + ?c) div 64 = v * 4 + ?c div 64"
      by (rule carry(1) [where k = 64 and v = v and m = 4 and c = ?c, simplified])
    have b: "(v * 256 + ?c) div 2 = v * 128 + ?c div 2"
      by (rule carry(1) [where k = 2 and v = v and m = 128 and c = ?c, simplified])
    have "(v * 256 + ?c) div 2 mod 32 = ?c div 2 mod 32"
      unfolding b by (rule carry(2) [where k = 32 and v = v and m = 4 and c = "?c div 2", simplified])
    moreover have "(v * 256 + ?c) mod 2 = ?c mod 2"
      by (rule carry(2) [where k = 2 and v = v and m = 128 and c = ?c, simplified])
    moreover have "w * 32 + (v * 256 + ?c) div 64 = d * 4 + ?c div 64" "(v * 256 + ?c) div 64 < 32"
      unfolding a using d byte_div [of 64 4 c] by simp_all
    moreover have "coded ?c 1 (?c mod 2) (?c div 2) 7" using c by (simp add: coded_def)
    ultimately show ?thesis
      using join Cons.IH 4 d byte_div [of 64 4 c] dec_step_out [of 5 _ w d "?c div 64"]
        dec_step_keep [of 2 "?c div 2 mod 32" "?c div 64"]
      by (simp add: Let_def)
  next
    case 5
    with Cons.prems have d: "d = w * 16 + v" "v < 16" "b = 4" by (auto simp: coded_def)
    have "?c div 4 div 32 = ?c div 128" by (simp flip: div_mult2_eq)
    then have join: "?c div 128 * 32 + ?c div 4 mod 32 = ?c div 4" using div_mult_mod_eq [of "?c div 4" 32] by simp
    have a: "(v * 256 + ?c) div 128 = v * 2 + ?c div 128"
      by (rule carry(1) [where k = 128 and v = v and m = 2 and c = ?c, simplified])
    have b: "(v * 256 + ?c) div 4 = v * 64 + ?c div 4"
      by (rule carry(1) [where k = 4 and v = v and m = 64 and c = ?c, simplified])
    have "(v * 256 + ?c) div 4 mod 32 = ?c div 4 mod 32"
      unfolding b by (rule carry(2) [where k = 32 and v = v and m = 2 and c = "?c div 4", simplified])
    moreover have "(v * 256 + ?c) mod 4 = ?c mod 4"
      by (rule carry(2) [where k = 4 and v = v and m = 64 and c = ?c, simplified])
    moreover have "w * 32 + (v * 256 + ?c) div 128 = d * 2 + ?c div 128" "(v * 256 + ?c) div 128 < 32"
      unfolding a using d byte_div [of 128 2 c] by simp_all
    moreover have "coded ?c 2 (?c mod 4) (?c div 4) 6" using c by (simp add: coded_def)
    ultimately show ?thesis
      using join Cons.IH 5 d byte_div [of 128 2 c] dec_step_out [of 4 _ w d "?c div 128"]
        dec_step_keep [of 1 "?c div 4 mod 32" "?c div 128"]
      by (simp add: Let_def)
  qed
qed

lemma digit32_in: "n < 32 \<Longrightarrow> digit32 n \<in> set BASE32_ALPHABET"
  by (rule nth_mem) (simp add: BASE32_ALPHABET_def)

lemma enc_nat_alphabet: "e < 5 \<Longrightarrow> v < 2 ^ e \<Longrightarrow> set (enc_nat v e data) \<subseteq> set BASE32_ALPHABET"
proof (induction data arbitrary: v e)
  case Nil
  have "v * 2 ^ (5 - e) < 2 ^ e * 2 ^ (5 - e)" using Nil by simp
  also have "\<dots> = 32" using Nil by (simp flip: power_add)
  finally show ?case by (auto simp: digit32_in)
next
  case (Cons c data)
  have "v * 256 + byte c < (v + 1) * 256" by simp
  also have "\<dots> \<le> 2 ^ e * 256" using Cons.prems(2) by (intro mult_le_mono1) simp
  also have "\<dots> = 32 * 2 ^ (e + 3)" by (simp add: power_add)
  finally have "(v * 256 + byte c) div 2 ^ (e + 3) < 32" by (rule less_mult_imp_div_less)
  with Cons show ?case by (auto simp: Let_def digit32_in)
qed

text \<open>
  Base32 is reversible: decoding the encoding of any bytes gives the bytes, although both
  loops keep the bits in 64-bit buffers that overflow after a few bytes.
\<close>

theorem base32_roundtrip: "base32_decode (base32_encode data) = Some data"
proof -
  have "set (enc_nat 0 0 data) \<subseteq> set BASE32_ALPHABET" by (rule enc_nat_alphabet) simp_all
  moreover have "CHR ''='' \<notin> set BASE32_ALPHABET" "CHR '' '' \<notin> set BASE32_ALPHABET" by code_simp+
  ultimately have "CHR ''='' \<notin> set (enc_nat 0 0 data)" "CHR '' '' \<notin> set (enc_nat 0 0 data)" by blast+
  moreover have "coded 0 0 0 0 0" by (simp add: coded_def)
  from dec_enc_nat [OF this] have "dec_nat 0 0 (enc_nat 0 0 data) = Some data" by simp
  ultimately show ?thesis
    by (simp add: base32_decode_def base32_encode_def encode_from_nat decode_from_nat pend_def)
qed

section \<open>One-time passwords\<close>

text \<open>The password of a counter value (RFC 4226).\<close>

definition hotp :: "auth_crypto \<Rightarrow> bytes \<Rightarrow> nat \<Rightarrow> string" where
  "hotp cr key counter =
     zero_pad 6 (show_nat (the (truncate_digest (ax_hmac_sha1 cr key (to_be_bytes counter))) mod 10 ^ 6))"

lemma truncate_returns: "length digest = 20 \<Longrightarrow> truncate_digest digest \<noteq> None"
proof -
  assume "length digest = 20"
  moreover have "byte (digest ! 19) mod 16 < 16" by simp
  then have "byte (digest ! 19) mod 16 + 3 < 20" by linarith
  ultimately show ?thesis by (simp add: truncate_digest_def Let_def)
qed

lemma totp_code_hotp:
  assumes "length (ax_hmac_sha1 cr key (to_be_bytes (t div 30))) = 20" "base32_decode secret = Some key"
  shows "totp_code cr secret t = Some (hotp cr key (t div 30))"
  using truncate_returns [OF assms(1)] assms(2)
  by (auto simp: totp_code_def hotp_def Let_def TOTP_STEP_SECONDS_def TOTP_DIGITS_def)

lemma length_show_nat: "n < 10 ^ Suc k \<Longrightarrow> length (show_nat n) \<le> Suc k"
proof (induction k arbitrary: n)
  case (Suc k)
  then have "n div 10 < 10 ^ Suc k" by (simp add: less_mult_imp_div_less)
  with Suc.IH show ?case by (subst show_nat.simps) auto
qed (simp add: show_nat.simps)

lemma hotp_digits: "length (hotp cr key n) = 6 \<and> list_all is_ascii_digit (hotp cr key n)"
proof -
  let ?v = "the (truncate_digest (ax_hmac_sha1 cr key (to_be_bytes n))) mod 10 ^ 6"
  have "length (show_nat ?v) \<le> Suc 5" by (rule length_show_nat) simp
  then show ?thesis
    using show_nat_digits [of ?v] by (auto simp: hotp_def zero_pad_def list_all_iff is_ascii_digit_def)
qed

text \<open>
  A one-time password is accepted exactly when it is the password of the current step of
  thirty seconds, the one before or the one after; every password has six decimal digits,
  and computing it never leaves the digest.
\<close>

theorem totp_accepts_adjacent_steps:
  assumes "\<forall>k m. length (ax_hmac_sha1 cr k m) = 20" "base32_decode secret = Some key" "30 \<le> t" "t + 30 < 2 ^ 64"
  shows "(verify_totp cr secret code t
          \<longleftrightarrow> code \<in> {hotp cr key (t div 30 - 1), hotp cr key (t div 30), hotp cr key (t div 30 + 1)})
    \<and> length (hotp cr key (t div 30)) = 6 \<and> list_all is_ascii_digit (hotp cr key (t div 30))"
proof -
  have steps: "saturating_add_signed t (- 30) div 30 = t div 30 - 1" "saturating_add_signed t 0 = t"
    "saturating_add_signed t 30 div 30 = t div 30 + 1"
  proof -
    have "saturating_add_signed t (- 30) = t - 30" "saturating_add_signed t 30 = t + 30"
      using assms(3,4) by (auto simp: saturating_add_signed_def min_def max_def)
    with assms(3,4) show "saturating_add_signed t (- 30) div 30 = t div 30 - 1"
      "saturating_add_signed t 30 div 30 = t div 30 + 1" by (simp_all add: le_div_geq)
    show "saturating_add_signed t 0 = t"
      using assms(4) by (auto simp: saturating_add_signed_def min_def max_def)
  qed
  have code: "totp_code cr secret x = Some (hotp cr key (x div 30))" for x
    using totp_code_hotp assms(1,2) by blast
  show ?thesis
    using hotp_digits [of cr key] by (auto simp: verify_totp_def code steps TOTP_STEP_SECONDS_def TOTP_DIGITS_def)
qed

definition demo_crypto :: auth_crypto where
  "demo_crypto =
     \<lparr>ax_hash_password = (\<lambda>salt p. Inr (CHR ''$'' # p)), ax_verify_password = (\<lambda>p d. d = CHR ''$'' # p),
      ax_sha256_hex = to_hex, ax_hmac_sha1 = (\<lambda>k m. take 20 (k @ m @ replicate 20 (CHR ''x'')))\<rparr>"

theorem totp_accepts_adjacent_steps_witness:
  "verify_totp demo_crypto (base32_encode ''key'') (hotp demo_crypto ''key'' 1) 65"
proof -
  have "\<forall>k m. length (ax_hmac_sha1 demo_crypto k m) = 20" by (auto simp: demo_crypto_def min_def)
  from totp_accepts_adjacent_steps [OF this base32_roundtrip, of 65 _ ] show ?thesis by simp
qed

end
