(* ===== verification/Account_Store.thy ===== *)
theory Account_Store
  imports Accounts Mem_Store
begin

text \<open>
  The account storage: the trait \<open>AuthStore\<close> (\<open>core/auth_store.rs\<close>) with the account operations of
  \<open>AdminStore\<close> as a record of operations, what it promises as the specification relations and
  the locale \<open>account_store\<close>. An operation takes the state and returns a result, which is \<open>Inl\<close> a
  storage error, and the new state.
\<close>

section \<open>The interface\<close>

datatype store_error = StoreConflict string | StoreOther string

type_synonym 'a sr = "store_error + 'a"

type_synonym ('st, 'a) op = "'st \<Rightarrow> 'a sr \<times> 'st"

record new_user =
  nu_email_address :: string
  nu_first_name :: string
  nu_last_name :: string
  nu_admin :: bool

record new_organization =
  no_name :: string
  no_permalink :: string

record app_mail =
  am_to :: string
  am_subject :: string
  am_text_body :: string
  am_html_body :: string

record 'st auth_ops =
  ao_user_by_email :: "string \<Rightarrow> ('st, user option) op"
  ao_user_auth :: "Id \<Rightarrow> ('st, user_auth option) op"
  ao_set_password_digest :: "Id \<Rightarrow> string \<Rightarrow> ('st, unit) op"
  ao_set_totp :: "Id \<Rightarrow> string option \<Rightarrow> bool \<Rightarrow> ('st, unit) op"
  ao_set_login_state :: "Id \<Rightarrow> nat \<Rightarrow> instant option \<Rightarrow> instant option \<Rightarrow> ('st, unit) op"
  ao_user_has_two_factor :: "Id \<Rightarrow> ('st, bool) op"
  ao_create_session :: "new_auth_session \<Rightarrow> ('st, auth_session) op"
  ao_session_with_user :: "string \<Rightarrow> ('st, (auth_session \<times> user) option) op"
  ao_touch_session :: "Id \<Rightarrow> instant \<Rightarrow> instant \<Rightarrow> ('st, unit) op"
  ao_delete_session :: "string \<Rightarrow> ('st, bool) op"
  ao_delete_sessions_for_user :: "Id \<Rightarrow> ('st, nat) op"
  ao_memberships_for_user :: "Id \<Rightarrow> ('st, (organization_membership \<times> organization) list) op"
  ao_membership :: "Id \<Rightarrow> Id \<Rightarrow> ('st, organization_membership option) op"
  ao_memberships_for_organization :: "Id \<Rightarrow> ('st, (organization_membership \<times> user) list) op"
  ao_upsert_membership :: "Id \<Rightarrow> Id \<Rightarrow> role \<Rightarrow> ('st, organization_membership) op"
  ao_delete_membership :: "Id \<Rightarrow> Id \<Rightarrow> ('st, bool) op"
  ao_create_invitation :: "new_invitation \<Rightarrow> ('st, invitation) op"
  ao_list_invitations :: "Id \<Rightarrow> ('st, invitation list) op"
  ao_invitation_by_token_hash :: "string \<Rightarrow> ('st, invitation option) op"
  ao_mark_invitation_accepted :: "Id \<Rightarrow> ('st, unit) op"
  ao_delete_invitation :: "Id \<Rightarrow> Id \<Rightarrow> ('st, bool) op"
  ao_create_password_reset :: "Id \<Rightarrow> string \<Rightarrow> instant \<Rightarrow> ('st, unit) op"
  ao_consume_password_reset :: "string \<Rightarrow> instant \<Rightarrow> ('st, Id option) op"
  ao_set_user_disabled :: "Id \<Rightarrow> bool \<Rightarrow> ('st, unit) op"
  ao_record_auth_event :: "new_auth_event \<Rightarrow> ('st, unit) op"
  ao_list_auth_events :: "nat \<Rightarrow> ('st, auth_event list) op"
  ao_create_user :: "new_user \<Rightarrow> ('st, user) op"
  ao_update_user :: "user \<Rightarrow> ('st, user) op"
  ao_organization_by_permalink :: "string \<Rightarrow> ('st, organization option) op"
  ao_create_organization :: "new_organization \<Rightarrow> ('st, organization) op"
  ao_delete_organization :: "Id \<Rightarrow> ('st, bool) op"
  ao_server_by_permalink :: "Id \<Rightarrow> string \<Rightarrow> ('st, server option) op"
  ao_admin_api_key_auth :: "string \<Rightarrow> ('st, admin_api_key option) op"
  ao_list_organizations :: "('st, organization list) op"
  ao_enqueue_lifecycle_event :: "lifecycle_event \<Rightarrow> ('st, unit) op"
  ao_deliver_mail :: "app_mail \<Rightarrow> 'st \<Rightarrow> bool \<times> 'st"

section \<open>What the storage promises\<close>

text \<open>
  The accounts as the callers see them: users and organizations by id, the authentication state
  of a user (the default one when there is no row), sessions, invitations and reset links by
  the hash of their token, the role of a user in an organization, servers by id and machine keys.
\<close>

record account_view =
  vw_user :: "Id \<Rightarrow> user option"
  vw_auth :: "Id \<Rightarrow> user_auth"
  vw_passkey :: "Id \<Rightarrow> bool"
  vw_session :: "string \<Rightarrow> auth_session option"
  vw_role :: "Id \<Rightarrow> Id \<Rightarrow> role option"
  vw_invitation :: "string \<Rightarrow> invitation option"
  vw_reset :: "string \<Rightarrow> (Id \<times> instant) option"
  vw_org :: "Id \<Rightarrow> organization option"
  vw_server :: "Id \<Rightarrow> server option"
  vw_key :: "string \<Rightarrow> admin_api_key option"

type_synonym 'a contract = "account_view \<Rightarrow> 'a \<Rightarrow> account_view \<Rightarrow> bool"

text \<open>A read leaves the accounts as they are and its result is a function of them.\<close>

definition reads :: "(account_view \<Rightarrow> 'a) \<Rightarrow> 'a contract" where
  "reads f v a v' \<longleftrightarrow> v' = v \<and> a = f v"

definition reads_some :: "(account_view \<Rightarrow> 'a \<Rightarrow> bool) \<Rightarrow> 'a contract" where
  "reads_some P v a v' \<longleftrightarrow> v' = v \<and> P v a"

definition writes :: "(account_view \<Rightarrow> account_view) \<Rightarrow> 'a contract" where
  "writes f v a v' \<longleftrightarrow> v' = f v"

lemmas contract_defs = reads_def reads_some_def writes_def

definition update_auth :: "Id \<Rightarrow> (user_auth \<Rightarrow> user_auth) \<Rightarrow> account_view \<Rightarrow> account_view" where
  "update_auth u f v = v\<lparr>vw_auth := (vw_auth v)(u := f (vw_auth v u))\<rparr>"

definition login_state :: "nat \<Rightarrow> instant option \<Rightarrow> instant option \<Rightarrow> user_auth \<Rightarrow> user_auth" where
  "login_state attempts locked last_login a =
     a\<lparr>ua_failed_login_attempts := attempts, ua_locked_until := locked,
       ua_last_login_at := (case last_login of None \<Rightarrow> ua_last_login_at a | Some t \<Rightarrow> Some t)\<rparr>"

definition session_user :: "string \<Rightarrow> account_view \<Rightarrow> (auth_session \<times> user) option" where
  "session_user h v =
     (case vw_session v h of
        None \<Rightarrow> None
      | Some s \<Rightarrow> map_option (\<lambda>u. (s, u)) (vw_user v (as_user_id s)))"

definition session_of :: "new_auth_session \<Rightarrow> auth_session \<Rightarrow> bool" where
  "session_of n s \<longleftrightarrow>
     as_user_id s = ns_user_id n \<and> as_token_hash s = ns_token_hash n \<and> as_expires_at s = ns_expires_at n
     \<and> as_ip_address s = ns_ip_address n \<and> as_user_agent s = ns_user_agent n \<and> as_oidc_logout s = ns_oidc_logout n"

definition creates_session :: "new_auth_session \<Rightarrow> auth_session contract" where
  "creates_session n v s v' \<longleftrightarrow>
     session_of n s \<and> v' = v\<lparr>vw_session := (vw_session v)(ns_token_hash n \<mapsto> s)\<rparr>"

definition touch :: "Id \<Rightarrow> instant \<Rightarrow> instant \<Rightarrow> auth_session \<Rightarrow> auth_session" where
  "touch i last_used expires s =
     (if as_id s = i then s\<lparr>as_last_used_at := last_used, as_expires_at := expires\<rparr> else s)"

definition drop_sessions :: "(auth_session \<Rightarrow> bool) \<Rightarrow> account_view \<Rightarrow> account_view" where
  "drop_sessions P v =
     v\<lparr>vw_session := (\<lambda>h. case vw_session v h of None \<Rightarrow> None | Some s \<Rightarrow> if P s then None else Some s)\<rparr>"

definition set_role :: "Id \<Rightarrow> Id \<Rightarrow> role option \<Rightarrow> account_view \<Rightarrow> account_view" where
  "set_role o' u r v = v\<lparr>vw_role := (vw_role v)(o' := (vw_role v o')(u := r))\<rparr>"

definition upserts_membership :: "Id \<Rightarrow> Id \<Rightarrow> role \<Rightarrow> organization_membership contract" where
  "upserts_membership o' u r v m v' \<longleftrightarrow>
     om_organization_id m = o' \<and> om_user_id m = u \<and> om_role m = r \<and> v' = set_role o' u (Some r) v"

text \<open>The members of an organization: one entry for each member whose account exists.\<close>

definition lists_members :: "Id \<Rightarrow> account_view \<Rightarrow> (organization_membership \<times> user) list \<Rightarrow> bool" where
  "lists_members o' v ms \<longleftrightarrow>
     distinct (map (om_user_id \<circ> fst) ms)
     \<and> (\<forall>u r. (\<exists>m x. (m, x) \<in> set ms \<and> om_user_id m = u \<and> om_role m = r)
               \<longleftrightarrow> vw_role v o' u = Some r \<and> vw_user v u \<noteq> None)"

definition finds_membership :: "Id \<Rightarrow> Id \<Rightarrow> account_view \<Rightarrow> organization_membership option \<Rightarrow> bool" where
  "finds_membership o' u v m \<longleftrightarrow>
     map_option om_role m = vw_role v o' u \<and> (\<forall>x. m = Some x \<longrightarrow> om_organization_id x = o' \<and> om_user_id x = u)"

definition creates_invitation :: "new_invitation \<Rightarrow> invitation contract" where
  "creates_invitation n v i v' \<longleftrightarrow>
     iv_organization_id i = ni_organization_id n \<and> iv_email_address i = ni_email_address n \<and> iv_role i = ni_role n
     \<and> iv_token_hash i = ni_token_hash n \<and> iv_expires_at i = ni_expires_at n \<and> iv_accepted_at i = None
     \<and> v' = v\<lparr>vw_invitation := (vw_invitation v)(ni_token_hash n \<mapsto> i)\<rparr>"

definition map_invitations :: "(invitation \<Rightarrow> invitation option) \<Rightarrow> account_view \<Rightarrow> account_view" where
  "map_invitations f v = v\<lparr>vw_invitation := (\<lambda>h. Option.bind (vw_invitation v h) f)\<rparr>"

definition accept_invitation :: "Id \<Rightarrow> instant \<Rightarrow> invitation \<Rightarrow> invitation option" where
  "accept_invitation i now x = Some (if iv_id x = i then x\<lparr>iv_accepted_at := Some now\<rparr> else x)"

definition consumes_reset :: "string \<Rightarrow> instant \<Rightarrow> Id option contract" where
  "consumes_reset h now v r v' \<longleftrightarrow>
     v' = v\<lparr>vw_reset := (vw_reset v)(h := None)\<rparr>
     \<and> r = (case vw_reset v h of None \<Rightarrow> None | Some (u, expires) \<Rightarrow> if expires < now then None else Some u)"

definition creates_user :: "new_user \<Rightarrow> user contract" where
  "creates_user n v u v' \<longleftrightarrow>
     us_email_address u = nu_email_address n \<and> us_first_name u = nu_first_name n \<and> us_last_name u = nu_last_name n
     \<and> us_admin u = nu_admin n \<and> vw_user v (us_id u) = None
     \<and> v' = v\<lparr>vw_user := (vw_user v)(us_id u \<mapsto> u)\<rparr>"

definition creates_organization :: "new_organization \<Rightarrow> organization contract" where
  "creates_organization n v x v' \<longleftrightarrow>
     org_name x = no_name n \<and> org_permalink x = no_permalink n \<and> \<not> org_require_two_factor x \<and> vw_org v (org_id x) = None
     \<and> (\<forall>i y. vw_org v i = Some y \<longrightarrow> org_permalink y \<noteq> no_permalink n)
     \<and> v' = v\<lparr>vw_org := (vw_org v)(org_id x \<mapsto> x)\<rparr>"

definition finds_organization :: "string \<Rightarrow> account_view \<Rightarrow> organization option \<Rightarrow> bool" where
  "finds_organization p v r \<longleftrightarrow>
     (case r of
        Some x \<Rightarrow> vw_org v (org_id x) = Some x \<and> org_permalink x = p
      | None \<Rightarrow> \<forall>i x. vw_org v i = Some x \<longrightarrow> org_permalink x \<noteq> p)"

definition finds_server :: "Id \<Rightarrow> string \<Rightarrow> account_view \<Rightarrow> server option \<Rightarrow> bool" where
  "finds_server o' p v r \<longleftrightarrow>
     (\<forall>x. r = Some x \<longrightarrow> vw_server v (srv_id x) = Some x \<and> srv_organization_id x = o' \<and> srv_permalink x = p)"

text \<open>
  An operation meets a contract: it keeps the invariant, and an error leaves the accounts as they
  are. The invariant counts how many more records can be created before the id counter of the
  storage overflows; an operation creates at most one.
\<close>

definition meets :: "(nat \<Rightarrow> 'st \<Rightarrow> bool) \<Rightarrow> ('st \<Rightarrow> account_view) \<Rightarrow> (account_view \<Rightarrow> bool)
    \<Rightarrow> ('st, 'a) op \<Rightarrow> 'a contract \<Rightarrow> bool" where
  "meets ok V P f R \<longleftrightarrow>
     (\<forall>n st r st'. ok (Suc n) st \<and> P (V st) \<and> f st = (r, st') \<longrightarrow>
        ok n st' \<and> (\<forall>e. r = Inl e \<longrightarrow> V st' = V st) \<and> (\<forall>a. r = Inr a \<longrightarrow> R (V st) a (V st')))"

lemma meetsD:
  assumes "meets ok V P f R" "ok (Suc n) st" "P (V st)" "f st = (r, st')"
  shows "ok n st'" "r = Inl e \<Longrightarrow> V st' = V st" "r = Inr a \<Longrightarrow> R (V st) a (V st')"
  using assms unfolding meets_def by blast+

text \<open>An operation of the in-memory store, which cannot fail with a storage error.\<close>

lemma meets_totalI:
  assumes "\<And>n st. ok (Suc n) st \<Longrightarrow> P (V st) \<Longrightarrow> \<exists>a st'. f st = (Inr a, st') \<and> ok n st' \<and> R (V st) a (V st')"
  shows "meets ok V P f R"
  using assms unfolding meets_def by fastforce

abbreviation always :: "account_view \<Rightarrow> bool" where
  "always \<equiv> (\<lambda>_. True)"

locale account_store =
  fixes A :: "'st auth_ops" and ok :: "nat \<Rightarrow> 'st \<Rightarrow> bool" and V :: "'st \<Rightarrow> account_view"
    and same_mail :: "string \<Rightarrow> string \<Rightarrow> bool" and now :: instant
  assumes ok_weaken: "ok (Suc b) st \<Longrightarrow> ok b st"
    and user_by_email: "meets ok V always (ao_user_by_email A e)
      (reads_some (\<lambda>v r. case r of
         Some u \<Rightarrow> vw_user v (us_id u) = Some u \<and> same_mail (us_email_address u) e
       | None \<Rightarrow> \<forall>i u. vw_user v i = Some u \<longrightarrow> \<not> same_mail (us_email_address u) e))"
    and user_auth: "meets ok V always (ao_user_auth A u)
      (reads (\<lambda>v. if vw_user v u = None then None else Some (vw_auth v u)))"
    and set_password_digest: "meets ok V always (ao_set_password_digest A u d)
      (writes (update_auth u (\<lambda>a. a\<lparr>ua_password_digest := Some d\<rparr>)))"
    and set_totp: "meets ok V always (ao_set_totp A u secret enabled)
      (writes (update_auth u (\<lambda>a. a\<lparr>ua_totp_secret := secret, ua_totp_enabled := enabled\<rparr>)))"
    and set_login_state: "meets ok V always (ao_set_login_state A u k lu ll) (writes (update_auth u (login_state k lu ll)))"
    and set_user_disabled: "meets ok V always (ao_set_user_disabled A u dis)
      (writes (update_auth u (\<lambda>a. a\<lparr>ua_disabled := dis\<rparr>)))"
    and user_has_two_factor: "meets ok V always (ao_user_has_two_factor A u)
      (reads (\<lambda>v. ua_totp_enabled (vw_auth v u) \<or> vw_passkey v u))"
    and create_session: "meets ok V (\<lambda>v. vw_session v (ns_token_hash n) = None) (ao_create_session A n) (creates_session n)"
    and session_with_user: "meets ok V always (ao_session_with_user A h) (reads (session_user h))"
    and touch_session: "meets ok V always (ao_touch_session A i t ex)
      (writes (\<lambda>v. v\<lparr>vw_session := map_option (touch i t ex) \<circ> vw_session v\<rparr>))"
    and delete_session: "meets ok V always (ao_delete_session A h) (writes (drop_sessions (\<lambda>s. as_token_hash s = h)))"
    and delete_sessions_for_user: "meets ok V always (ao_delete_sessions_for_user A u)
      (writes (drop_sessions (\<lambda>s. as_user_id s = u)))"
    and session_key: "ok b st \<Longrightarrow> vw_session (V st) h = Some se \<Longrightarrow> as_token_hash se = h"
    and membership: "meets ok V always (ao_membership A o' u) (reads_some (finds_membership o' u))"
    and memberships_for_user: "meets ok V always (ao_memberships_for_user A u) (reads_some (\<lambda>v ms. True))"
    and memberships_for_organization: "meets ok V always (ao_memberships_for_organization A o')
      (reads_some (lists_members o'))"
    and upsert_membership: "meets ok V always (ao_upsert_membership A o' u ro) (upserts_membership o' u ro)"
    and delete_membership: "meets ok V always (ao_delete_membership A o' u) (writes (set_role o' u None))"
    and create_invitation: "meets ok V (\<lambda>v. vw_invitation v (ni_token_hash ni) = None) (ao_create_invitation A ni) (creates_invitation ni)"
    and invitation_by_token_hash: "meets ok V always (ao_invitation_by_token_hash A h) (reads (\<lambda>v. vw_invitation v h))"
    and invitation_id: "ok b st \<Longrightarrow> vw_invitation (V st) h = Some iv \<Longrightarrow> vw_invitation (V st) h' = Some iv' \<Longrightarrow> iv_id iv = iv_id iv' \<Longrightarrow> h = h'"
    and list_invitations: "meets ok V always (ao_list_invitations A o') (reads_some (\<lambda>v is. True))"
    and mark_invitation_accepted: "meets ok V always (ao_mark_invitation_accepted A i)
      (writes (map_invitations (accept_invitation i now)))"
    and delete_invitation: "meets ok V always (ao_delete_invitation A o' i)
      (writes (map_invitations (\<lambda>x. if iv_id x = i \<and> iv_organization_id x = o' then None else Some x)))"
    and create_password_reset: "meets ok V (\<lambda>v. vw_reset v h = None) (ao_create_password_reset A u h ex)
      (writes (\<lambda>v. v\<lparr>vw_reset := (vw_reset v)(h \<mapsto> (u, ex))\<rparr>))"
    and consume_password_reset: "meets ok V always (ao_consume_password_reset A h t) (consumes_reset h t)"
    and record_auth_event: "meets ok V always (ao_record_auth_event A ev) (writes id)"
    and list_auth_events: "meets ok V always (ao_list_auth_events A lim) (reads_some (\<lambda>v es. True))"
    and create_user: "meets ok V always (ao_create_user A nu) (creates_user nu)"
    and update_user: "meets ok V (\<lambda>v. vw_user v (us_id usr) \<noteq> None) (ao_update_user A usr)
      (\<lambda>v y v'. y = usr \<and> v' = v\<lparr>vw_user := (vw_user v)(us_id usr \<mapsto> usr)\<rparr>)"
    and organization_by_permalink: "meets ok V always (ao_organization_by_permalink A p) (reads_some (finds_organization p))"
    and permalink_unique: "ok b st \<Longrightarrow> vw_org (V st) x = Some org \<Longrightarrow> vw_org (V st) x' = Some org'
      \<Longrightarrow> org_permalink org = org_permalink org' \<Longrightarrow> org = org'"
    and create_organization: "meets ok V always (ao_create_organization A no) (creates_organization no)"
    and server_by_permalink: "meets ok V always (ao_server_by_permalink A o' p) (reads_some (finds_server o' p))"
    and admin_api_key_auth: "meets ok V always (ao_admin_api_key_auth A key) (reads (\<lambda>v. vw_key v key))"
    and list_organizations: "meets ok V always (ao_list_organizations A)
      (reads_some (\<lambda>v os. \<forall>x \<in> set os. vw_org v (org_id x) = Some x))"
    and enqueue_lifecycle_event: "meets ok V always (ao_enqueue_lifecycle_event A le) (writes id)"
    and deliver_mail: "ok (Suc b) st \<Longrightarrow> ao_deliver_mail A am st = (sent, st') \<Longrightarrow> ok b st' \<and> V st' = V st"

end
