(* ===== verification/Api_Core.thy ===== *)
theory Api_Core
  imports Account_Store
begin

text \<open>
  The frame of the HTTP handlers (\<open>api/app.rs\<close>): responses, the calls on the account storage, what
  a request carries, and the rules that follow a handler call by call. The \<open>time\<close> field of the
  response envelope is left out.
\<close>

section \<open>Responses\<close>

datatype api_body = Data json | Error string string

record api_response =
  rs_status :: nat
  rs_body :: api_body

definition render_success :: "nat \<Rightarrow> json \<Rightarrow> api_response" where
  "render_success status data = \<lparr>rs_status = status, rs_body = Data data\<rparr>"

definition render_api_error :: "nat \<Rightarrow> string \<Rightarrow> string \<Rightarrow> api_response" where
  "render_api_error status code message = \<lparr>rs_status = status, rs_body = Error code message\<rparr>"

definition render_deleted :: api_response where
  "render_deleted = render_success 200 (JObject [(''deleted'', JBool True)])"

definition render_not_found :: api_response where
  "render_not_found = render_api_error 404 ''NotFound'' ''Resource not found''"

definition render_validation_error :: "string \<Rightarrow> api_response" where
  "render_validation_error message = render_api_error 422 ''ValidationError'' message"

definition render_parameter_missing :: "string \<Rightarrow> api_response" where
  "render_parameter_missing message = render_api_error 400 ''ParameterMissing'' message"

primrec render_store_error :: "store_error \<Rightarrow> api_response" where
  "render_store_error (StoreConflict message) = render_validation_error message"
| "render_store_error (StoreOther message) =
     render_api_error 500 ''InternalServerError'' ''An internal error occurred''"

definition succeeded :: "api_response \<Rightarrow> bool" where
  "succeeded r \<longleftrightarrow> (case rs_body r of Data _ \<Rightarrow> True | Error _ _ \<Rightarrow> False)"

section \<open>Handlers\<close>

type_synonym 'st handler = "'st \<Rightarrow> api_response \<times> 'st"

definition answer :: "api_response \<Rightarrow> 'st handler" where
  "answer r st = (r, st)"

text \<open>
  The three ways the handlers use a storage call: an error is the response, the result is
  examined either way (\<open>matches!\<close>, \<open>if let Ok\<close>), the result is dropped (\<open>let _ =\<close>).
\<close>

definition call :: "('st, 'a) op \<Rightarrow> ('a \<Rightarrow> 'st handler) \<Rightarrow> 'st handler" where
  "call f k st = (case f st of (Inr a, st') \<Rightarrow> k a st' | (Inl e, st') \<Rightarrow> (render_store_error e, st'))"

definition attempt_call :: "('st, 'a) op \<Rightarrow> (store_error + 'a \<Rightarrow> 'st handler) \<Rightarrow> 'st handler" where
  "attempt_call f k st = (case f st of (r, st') \<Rightarrow> k r st')"

definition ignore :: "('st, 'a) op \<Rightarrow> 'st handler \<Rightarrow> 'st handler" where
  "ignore f k st = k (snd (f st))"

text \<open>\<open>let Some(x) = field.filter(|v| !v.is_empty()) else { return render_parameter_missing(...) }\<close>.\<close>

definition required :: "string \<Rightarrow> string option \<Rightarrow> (string \<Rightarrow> 'st handler) \<Rightarrow> 'st handler" where
  "required name field k =
     (case field of
        Some v \<Rightarrow> if v = [] then answer (render_parameter_missing (''param is missing or the value is empty: '' @ name)) else k v
      | None \<Rightarrow> answer (render_parameter_missing (''param is missing or the value is empty: '' @ name)))"

text \<open>
  What a request brings along: its headers, the readings of the clock in their order and the
  random values drawn while it is handled.
\<close>

record api_request =
  rq_headers :: "(string \<times> bytes) list"
  rq_clock :: "nat \<Rightarrow> instant"
  rq_token :: string
  rq_salt :: nat
  rq_secret :: string
  rq_uuid :: string

text \<open>The settings the account handlers read (\<open>config/lib.rs\<close>).\<close>

record auth_config =
  cf_session_timeout_days :: nat
  cf_max_login_attempts :: nat
  cf_lockout_minutes :: nat
  cf_minimum_password_length :: nat
  cf_allow_organization_creation :: bool
  cf_invitation_expiry_days :: nat
  cf_password_reset_expiry_hours :: nat
  cf_frontend_url :: "string option"
  cf_app_mail_enabled :: bool
  cf_lifecycle_urls :: "string list"
  cf_web_protocol :: string
  cf_web_hostname :: string

text \<open>
  The shared state of the handlers: the storage, whether its account half is present, the
  cryptography, the rendering of instants, the configured machine key and \<open>str::to_lowercase\<close>.
\<close>

record 'st api_state =
  ap_store :: "'st auth_ops"
  ap_auth_store :: bool
  ap_crypto :: auth_crypto
  ap_config :: auth_config
  ap_rfc3339 :: "instant \<Rightarrow> string"
  ap_global_admin_api_key :: "string option"
  ap_lowercase :: "string \<Rightarrow> string"

definition minutes_span :: "nat \<Rightarrow> int" where "minutes_span n = int n * 60 * 10 ^ 9"
definition hours_span :: "nat \<Rightarrow> int" where "hours_span n = int n * 3600 * 10 ^ 9"
definition days_span :: "nat \<Rightarrow> int" where "days_span n = int n * 86400 * 10 ^ 9"

text \<open>\<open>timestamp() as u64\<close>.\<close>

definition timestamp :: "instant \<Rightarrow> nat" where
  "timestamp t = nat (t div 10 ^ 9 mod 2 ^ 64)"

definition unavailable :: api_response where
  "unavailable = render_api_error 503 ''AccountsUnavailable''
     ''User accounts require persistent storage and are not enabled on this instance''"

definition with_accounts :: "'st api_state \<Rightarrow> 'st handler \<Rightarrow> 'st handler" where
  "with_accounts S k = (if ap_auth_store S then k else answer unavailable)"

text \<open>\<open>HeaderMap::get\<close> with \<open>to_str\<close>: the first value, if it is visible ASCII.\<close>

definition header_str :: "api_request \<Rightarrow> string \<Rightarrow> string option" where
  "header_str R name =
     (case map_of (rq_headers R) name of
        Some v \<Rightarrow> if list_all (\<lambda>c. (32 \<le> byte c \<and> byte c < 127) \<or> byte c = 9) v then Some v else None
      | None \<Rightarrow> None)"

definition bearer_token :: "api_request \<Rightarrow> string" where
  "bearer_token R =
     (case header_str R ''authorization'' of
        Some v \<Rightarrow> (case strip_prefix ''Bearer '' v of Some t \<Rightarrow> trim t | None \<Rightarrow> [])
      | None \<Rightarrow> [])"

fun first_of :: "('a \<Rightarrow> 'b option) \<Rightarrow> 'a list \<Rightarrow> 'b option" where
  "first_of f [] = None"
| "first_of f (x # xs) = (case f x of Some y \<Rightarrow> Some y | None \<Rightarrow> first_of f xs)"

definition client_ip :: "api_request \<Rightarrow> string option" where
  "client_ip R =
     first_of (\<lambda>header.
       (case header_str R header of
          Some v \<Rightarrow> (let f = trim (takeWhile (\<lambda>c. c \<noteq> CHR '','') v) in if f \<noteq> [] then Some f else None)
        | None \<Rightarrow> None)) [''x-forwarded-for'', ''x-real-ip'']"

definition user_agent :: "api_request \<Rightarrow> string option" where
  "user_agent R = map_option (take 255) (header_str R ''user-agent'')"

definition user_json :: "user \<Rightarrow> json" where
  "user_json u = JObject
     [(''admin'', JBool (us_admin u)), (''email_address'', JString (us_email_address u)),
      (''first_name'', JString (us_first_name u)), (''id'', JNumber (show_nat (us_id u))),
      (''last_name'', JString (us_last_name u)), (''uuid'', JString (us_uuid u))]"

definition audit :: "'st api_state \<Rightarrow> api_request \<Rightarrow> Id option \<Rightarrow> string option \<Rightarrow> string \<Rightarrow> ('st, unit) op" where
  "audit S R u email event = ao_record_auth_event (ap_store S)
     \<lparr>ne_user_id = u, ne_email_address = email, ne_event = event, ne_ip_address = client_ip R, ne_user_agent = user_agent R\<rparr>"

section \<open>Lifecycle events\<close>

datatype registration_source = SourceRegistration | SourceInvitation | SourceSso | SourceScim | SourceAdmin

primrec source_as_str :: "registration_source \<Rightarrow> string" where
  "source_as_str SourceRegistration = ''registration''"
| "source_as_str SourceInvitation = ''invitation''"
| "source_as_str SourceSso = ''sso''"
| "source_as_str SourceScim = ''scim''"
| "source_as_str SourceAdmin = ''admin''"

definition user_data :: "user \<Rightarrow> json" where
  "user_data u = JObject
     [(''email_address'', JString (us_email_address u)), (''first_name'', JString (us_first_name u)),
      (''id'', JNumber (show_nat (us_id u))), (''last_name'', JString (us_last_name u)), (''uuid'', JString (us_uuid u))]"

definition emit :: "'st api_state \<Rightarrow> lifecycle_event \<Rightarrow> 'st handler \<Rightarrow> 'st handler" where
  "emit S event k = (if cf_lifecycle_urls (ap_config S) = [] then k else ignore (ao_enqueue_lifecycle_event (ap_store S) event) k)"

definition user_registered :: "'st api_state \<Rightarrow> api_request \<Rightarrow> nat \<Rightarrow> user \<Rightarrow> registration_source \<Rightarrow> 'st handler \<Rightarrow> 'st handler" where
  "user_registered S R tick u source =
     emit S \<lparr>le_id = rq_uuid R, le_event = ''user.registered'', le_created_at = rq_clock R tick,
              le_data = JObject [(''source'', JString (source_as_str source)), (''user'', user_data u)]\<rparr>"

section \<open>Following a handler\<close>

text \<open>
  Started in a state with view \<open>v\<close> and ids left for \<open>k\<close> records, the handler keeps the invariant
  and its response and final view satisfy \<open>Q\<close>.
\<close>

definition runs :: "(nat \<Rightarrow> 'st \<Rightarrow> bool) \<Rightarrow> ('st \<Rightarrow> account_view) \<Rightarrow> nat \<Rightarrow> account_view \<Rightarrow> 'st handler
    \<Rightarrow> (api_response \<Rightarrow> account_view \<Rightarrow> bool) \<Rightarrow> bool" where
  "runs ok V k v h Q \<longleftrightarrow>
     (\<forall>n st r st'. ok (n + k) st \<and> V st = v \<and> h st = (r, st') \<longrightarrow> ok n st' \<and> Q r (V st'))"

definition budget :: "(nat \<Rightarrow> 'st \<Rightarrow> bool) \<Rightarrow> bool" where
  "budget ok \<longleftrightarrow> (\<forall>n st. ok (Suc n) st \<longrightarrow> ok n st)"

lemma budget_down: "budget ok \<Longrightarrow> ok (n + k) st \<Longrightarrow> ok n st"
  by (induction k) (auto simp: budget_def)

lemma runsD: "runs ok V k (V st) h Q \<Longrightarrow> ok (n + k) st \<Longrightarrow> h st = (r, st') \<Longrightarrow> ok n st' \<and> Q r (V st')"
  by (auto simp: runs_def)

definition never_fails :: "('st, 'a) op \<Rightarrow> bool" where
  "never_fails f \<longleftrightarrow> (\<forall>st. \<exists>a. fst (f st) = Inr a)"

lemma never_failsD: "f st = (Inl e, st') \<Longrightarrow> \<not> never_fails f"
  unfolding never_fails_def by (metis Inl_Inr_False fst_conv)

lemma runs_call:
  assumes f: "meets ok V P f R" and ok: "budget ok" and "0 < k" "P v"
    "\<And>e. \<not> never_fails f \<Longrightarrow> Q (render_store_error e) v" "\<And>a v'. R v a v' \<Longrightarrow> runs ok V (k - 1) v' (c a) Q"
  shows "runs ok V k v (call f c) Q"
  unfolding runs_def
proof (intro allI impI, elim conjE)
  fix n st r st'
  assume st: "ok (n + k) st" "V st = v" and run: "call f c st = (r, st')"
  obtain x st1 where x: "f st = (x, st1)" by (cases "f st")
  have "ok (Suc (n + (k - 1))) st" using st(1) \<open>0 < k\<close> by simp
  note m = meetsD [OF f this, of x st1]
  note down = budget_down [OF ok]
  show "ok n st' \<and> Q r (V st')"
  proof (cases x)
    case (Inl e)
    then have "\<not> never_fails f" using x by (simp add: never_failsD)
    with Inl m st assms(4,5) x run down show ?thesis by (auto simp: call_def)
  next
    case (Inr a)
    with m st assms(4) x have "R v a (V st1)" "ok (n + (k - 1)) st1" by auto
    with assms(6) run x Inr show ?thesis by (auto simp: call_def runs_def)
  qed
qed

lemma runs_attempt:
  assumes f: "meets ok V P f R" and "0 < k" "P v" "\<And>e. \<not> never_fails f \<Longrightarrow> runs ok V (k - 1) v (c (Inl e)) Q"
    "\<And>a v'. R v a v' \<Longrightarrow> runs ok V (k - 1) v' (c (Inr a)) Q"
  shows "runs ok V k v (attempt_call f c) Q"
  unfolding runs_def
proof (intro allI impI, elim conjE)
  fix n st r st'
  assume st: "ok (n + k) st" "V st = v" and run: "attempt_call f c st = (r, st')"
  obtain x st1 where x: "f st = (x, st1)" by (cases "f st")
  have "ok (Suc (n + (k - 1))) st" using st(1) \<open>0 < k\<close> by simp
  note m = meetsD [OF f this, of x st1]
  show "ok n st' \<and> Q r (V st')"
  proof (cases x)
    case (Inl e)
    then have "\<not> never_fails f" using x by (simp add: never_failsD)
    moreover have "V st1 = v" "ok (n + (k - 1)) st1" using m st assms(3) x Inl by auto
    ultimately show ?thesis using assms(4) run x Inl by (auto simp: attempt_call_def runs_def)
  next
    case (Inr a)
    with m st assms(3) x have "R v a (V st1)" "ok (n + (k - 1)) st1" by auto
    with assms(5) run x Inr show ?thesis by (auto simp: attempt_call_def runs_def)
  qed
qed

lemma ignore_attempt: "ignore f k = attempt_call f (\<lambda>_. k)"
  by (auto simp: ignore_def attempt_call_def fun_eq_iff split: prod.split)

text \<open>An ignored write happened or failed; an ignored audit event leaves the view alone.\<close>

lemma runs_ignore:
  assumes "meets ok V P f R" "0 < k" "P v" "\<not> never_fails f \<Longrightarrow> runs ok V (k - 1) v c Q"
    "\<And>a v'. R v a v' \<Longrightarrow> runs ok V (k - 1) v' c Q"
  shows "runs ok V k v (ignore f c) Q"
  unfolding ignore_attempt by (rule runs_attempt) (use assms in blast)+

lemma runs_ignore_id:
  assumes "meets ok V always f (writes id)" "0 < k" "runs ok V (k - 1) v c Q"
  shows "runs ok V k v (ignore f c) Q"
  by (rule runs_ignore [OF assms(1)]) (use assms in \<open>auto simp: writes_def\<close>)

lemma runs_answer:
  assumes "budget ok" "Q r v"
  shows "runs ok V k v (answer r) Q"
  using assms(2) budget_down [OF assms(1)] by (auto simp: runs_def answer_def)

lemma runs_if:
  assumes "b \<Longrightarrow> runs ok V k v h Q" "\<not> b \<Longrightarrow> runs ok V k v h' Q"
  shows "runs ok V k v (if b then h else h') Q"
  using assms by simp

lemma runs_option:
  assumes "x = None \<Longrightarrow> runs ok V k v h Q" "\<And>y. x = Some y \<Longrightarrow> runs ok V k v (g y) Q"
  shows "runs ok V k v (case x of None \<Rightarrow> h | Some y \<Rightarrow> g y) Q"
  using assms by (cases x) auto

lemma runs_sum:
  assumes "\<And>e. x = Inl e \<Longrightarrow> runs ok V k v (h e) Q" "\<And>y. x = Inr y \<Longrightarrow> runs ok V k v (g y) Q"
  shows "runs ok V k v (case x of Inl e \<Rightarrow> h e | Inr y \<Rightarrow> g y) Q"
  using assms by (cases x) auto

lemma runs_list:
  assumes "x = [] \<Longrightarrow> runs ok V k v h Q" "\<And>y ys. x = y # ys \<Longrightarrow> runs ok V k v (g y ys) Q"
  shows "runs ok V k v (case x of [] \<Rightarrow> h | y # ys \<Rightarrow> g y ys) Q"
  using assms by (cases x) auto

lemma runs_prod:
  assumes "\<And>a b. x = (a, b) \<Longrightarrow> runs ok V k v (g a b) Q"
  shows "runs ok V k v (case x of (a, b) \<Rightarrow> g a b) Q"
  using assms by (cases x) auto

lemma runs_required:
  assumes "budget ok" "field = None \<or> field = Some [] \<Longrightarrow> Q (render_parameter_missing (''param is missing or the value is empty: '' @ name)) v"
    "\<And>x. field = Some x \<Longrightarrow> x \<noteq> [] \<Longrightarrow> runs ok V k v (c x) Q"
  shows "runs ok V k v (required name field c) Q"
proof (cases "field = None \<or> field = Some []")
  case True
  then have "runs ok V k v (answer (render_parameter_missing (''param is missing or the value is empty: '' @ name))) Q"
    by (intro runs_answer assms(1,2))
  with True show ?thesis by (auto simp: required_def)
next
  case False
  then obtain x where "field = Some x" "x \<noteq> []" by auto
  with assms(3) show ?thesis by (simp add: required_def)
qed

lemma runs_with_accounts:
  assumes "budget ok" "\<not> ap_auth_store S \<Longrightarrow> Q unavailable v" "ap_auth_store S \<Longrightarrow> runs ok V k v c Q"
  shows "runs ok V k v (with_accounts S c) Q"
  unfolding with_accounts_def by (intro runs_if runs_answer assms)

lemma runs_more:
  assumes "runs ok V k v h Q" "k \<le> k'" "budget ok"
  shows "runs ok V k' v h Q"
proof -
  have "ok (n + k) s" if "ok (n + k') s" for n s
    using budget_down [OF assms(3), of "n + k" "k' - k"] that assms(2) by (simp add: add.assoc)
  with assms(1) show ?thesis unfolding runs_def by blast
qed

lemma runs_post: "runs ok V k v h Q \<Longrightarrow> (\<And>r v'. Q r v' \<Longrightarrow> Q' r v') \<Longrightarrow> runs ok V k v h Q'"
  by (auto simp: runs_def)

lemma not_succeeded_error [simp]:
  "\<not> succeeded (render_api_error s c m)" "\<not> succeeded (render_validation_error m)" "\<not> succeeded (render_parameter_missing m)"
  "\<not> succeeded render_not_found" "\<not> succeeded (render_store_error e)" "\<not> succeeded unavailable"
  by (cases e; simp add: succeeded_def render_api_error_def render_validation_error_def render_parameter_missing_def
      render_not_found_def unavailable_def)+

lemma succeeded_success [simp]: "succeeded (render_success s d)"
  by (simp add: succeeded_def render_success_def)

text \<open>The rules for the calls of a storage that keeps its contract.\<close>

named_theorems runs_rules

context account_store
begin

lemma budget_ok: "budget ok"
  by (simp add: budget_def ok_weaken)

lemmas runs_structure [runs_rules] =
  runs_answer [OF budget_ok] runs_if runs_option runs_sum runs_list runs_prod runs_required [OF budget_ok] runs_with_accounts [OF budget_ok]

lemmas runs_calls [runs_rules] =
  runs_call [OF user_by_email budget_ok] runs_call [OF user_auth budget_ok] runs_call [OF set_password_digest budget_ok]
  runs_call [OF set_totp budget_ok] runs_call [OF set_login_state budget_ok] runs_call [OF user_has_two_factor budget_ok]
  runs_call [OF create_session budget_ok] runs_call [OF session_with_user budget_ok] runs_call [OF delete_session budget_ok]
  runs_call [OF membership budget_ok] runs_call [OF memberships_for_user budget_ok]
  runs_call [OF memberships_for_organization budget_ok] runs_call [OF upsert_membership budget_ok]
  runs_call [OF delete_membership budget_ok] runs_call [OF create_invitation budget_ok]
  runs_call [OF invitation_by_token_hash budget_ok] runs_call [OF list_invitations budget_ok]
  runs_call [OF mark_invitation_accepted budget_ok] runs_call [OF delete_invitation budget_ok]
  runs_call [OF consume_password_reset budget_ok] runs_call [OF create_user budget_ok] runs_call [OF update_user budget_ok]
  runs_call [OF create_organization budget_ok] runs_call [OF server_by_permalink budget_ok]
  runs_call [OF admin_api_key_auth budget_ok] runs_call [OF organization_by_permalink budget_ok] runs_call [OF list_organizations budget_ok]

lemmas runs_attempts [runs_rules] =
  runs_attempt [OF membership] runs_attempt [OF memberships_for_organization] runs_attempt [OF user_by_email] runs_attempt [OF user_auth] runs_attempt [OF session_with_user]

lemmas runs_ignores [runs_rules] =
  runs_ignore_id [OF record_auth_event] runs_ignore_id [OF enqueue_lifecycle_event]
  runs_ignore [OF set_login_state] runs_ignore [OF touch_session] runs_ignore [OF delete_sessions_for_user]
  runs_ignore [OF create_password_reset]

end

end
