(* ===== verification/Access_Control.thy ===== *)
theory Access_Control
  imports Api_Core
begin

text \<open>
  Who may reach a handler of the administration API (\<open>api/app.rs\<close>): machine keys and their
  scopes, sessions, roles per resource and the second factor an organization asks for. The
  middleware reads the path of the request as it came in; what a handler gets as the parameter of
  a route is decided by the web framework.
\<close>

section \<open>Principals\<close>

record key_scope =
  ks_organization_id :: "Id option"
  ks_server_id :: "Id option"

definition scope_is_global :: "key_scope \<Rightarrow> bool" where
  "scope_is_global s \<longleftrightarrow> ks_organization_id s = None \<and> ks_server_id s = None"

datatype principal = AdminKey key_scope | SessionUser user

primrec is_root :: "principal \<Rightarrow> bool" where
  "is_root (AdminKey s) = scope_is_global s"
| "is_root (SessionUser u) = us_admin u"

primrec principal_user :: "principal \<Rightarrow> user option" where
  "principal_user (AdminKey s) = None"
| "principal_user (SessionUser u) = Some u"

text \<open>The role of the caller in the organization of the path, none for callers above the roles.\<close>

type_synonym acting_role = "role option"

definition acts_as_owner :: "acting_role \<Rightarrow> bool" where
  "acts_as_owner a \<longleftrightarrow> a = None \<or> a = Some Owner"

text \<open>\<open>http::Method\<close>: the methods the routes use, and every other one by its name.\<close>

datatype http_method = GET | HEAD | POST | PUT | PATCH | DELETE | OtherMethod string

definition required_role :: "string list \<Rightarrow> http_method \<Rightarrow> role" where
  "required_role rest m =
     (let read = (m = GET \<or> m = HEAD) in
      case rest of
        [] \<Rightarrow> if read then Viewer else Owner
      | s # tail \<Rightarrow>
          if s \<in> {''members'', ''invitations''} then if read then Viewer else Admin
          else if s = ''billing'' then Admin
          else if s = ''usage'' then Viewer
          else if s \<in> {''limits'', ''suspend'', ''unsuspend''} then if read then Viewer else Owner
          else if s = ''sso'' then Admin
          else if s = ''servers'' then
            (case tail of
               x # y # _ \<Rightarrow>
                 if y \<in> {''suspend'', ''unsuspend'', ''ip_pool''} then if read then Viewer else Admin
                 else if read then Viewer else Member
             | _ \<Rightarrow> if read then Viewer else Admin)
          else if read then Viewer else Admin)"

definition path_segments :: "string \<Rightarrow> string list" where
  "path_segments path =
     filter (\<lambda>s. s \<noteq> [])
       (split_on (CHR ''/'') (case strip_prefix ''/api/v2/admin'' path of Some rest \<Rightarrow> rest | None \<Rightarrow> path))"

section \<open>The middleware\<close>

definition with_key_scope :: "'st api_state \<Rightarrow> string \<Rightarrow> (key_scope option \<Rightarrow> 'st handler) \<Rightarrow> 'st handler" where
  "with_key_scope S key k =
     call (ao_admin_api_key_auth (ap_store S) key) (\<lambda>found.
     case found of
       Some record \<Rightarrow> k (Some \<lparr>ks_organization_id = aak_organization_id record, ks_server_id = aak_server_id record\<rparr>)
     | None \<Rightarrow>
         (case ap_global_admin_api_key S of
            Some configured \<Rightarrow>
              if configured \<noteq> [] \<and> configured = key then k (Some \<lparr>ks_organization_id = None, ks_server_id = None\<rparr>) else k None
          | None \<Rightarrow> k None))"

definition key_scope_allows :: "'st api_state \<Rightarrow> key_scope \<Rightarrow> string \<Rightarrow> (bool \<Rightarrow> 'st handler) \<Rightarrow> 'st handler" where
  "key_scope_allows S scope path k =
     (case path_segments path of
        first # permalink # rest \<Rightarrow>
          if first \<noteq> ''organizations'' then k False
          else
          call (ao_organization_by_permalink (ap_store S) permalink) (\<lambda>found.
          case found of
            None \<Rightarrow> k False
          | Some organization \<Rightarrow>
          if Some (org_id organization) \<noteq> ks_organization_id scope then k False
          else
          (case ks_server_id scope of
             None \<Rightarrow> k True
           | Some scoped_server_id \<Rightarrow>
               (case rest of
                  s # server_permalink # _ \<Rightarrow>
                    if s \<noteq> ''servers'' then k False
                    else
                    call (ao_server_by_permalink (ap_store S) (org_id organization) server_permalink) (\<lambda>found.
                    case found of
                      None \<Rightarrow> k False
                    | Some server \<Rightarrow> k (srv_id server = scoped_server_id))
                | _ \<Rightarrow> k False)))
      | _ \<Rightarrow> k False)"

definition forbidden :: "string \<Rightarrow> api_response" where
  "forbidden message = render_api_error 403 ''Forbidden'' message"

text \<open>The organization of a path, resolved once for the role check and the second factor.\<close>

definition path_organization :: "'st api_state \<Rightarrow> string list \<Rightarrow> (organization option \<Rightarrow> 'st handler) \<Rightarrow> 'st handler" where
  "path_organization S segments k =
     (case segments of
        first # permalink # _ \<Rightarrow>
          if first = ''organizations'' then call (ao_organization_by_permalink (ap_store S) permalink) k else k None
      | _ \<Rightarrow> k None)"

definition role_check :: "'st api_state \<Rightarrow> user \<Rightarrow> string list \<Rightarrow> http_method \<Rightarrow> organization option
    \<Rightarrow> (acting_role \<Rightarrow> 'st handler) \<Rightarrow> 'st handler" where
  "role_check S u segments m organization k =
     (if us_admin u then k None
      else
        case segments of
          first # tail \<Rightarrow>
            if first \<noteq> ''organizations'' then answer (forbidden ''This action requires a global administrator account'')
            else
            (case tail of
               [] \<Rightarrow>
                 if m = POST \<and> \<not> cf_allow_organization_creation (ap_config S)
                 then answer (forbidden ''Organization creation is restricted to administrators'')
                 else k None
             | permalink # rest \<Rightarrow>
                 let check = (\<lambda>membership.
                   case membership of
                     None \<Rightarrow> answer render_not_found
                   | Some x \<Rightarrow>
                       if om_role x < required_role rest m then
                         answer (forbidden (''This action requires the '' @ role_as_str (required_role rest m)
                           @ '' role in this organization''))
                       else k (Some (om_role x)))
                 in
                 (case organization of
                    Some o' \<Rightarrow> call (ao_membership (ap_store S) (org_id o') (us_id u)) check
                  | None \<Rightarrow> check None))
        | [] \<Rightarrow> answer (forbidden ''This action requires a global administrator account''))"

definition two_factor_check :: "'st api_state \<Rightarrow> user \<Rightarrow> organization option \<Rightarrow> 'st handler \<Rightarrow> 'st handler" where
  "two_factor_check S u organization k =
     (case organization of
        Some o' \<Rightarrow>
          if org_require_two_factor o' then
            call (ao_user_has_two_factor (ap_store S) (us_id u)) (\<lambda>has.
            if has then k
            else answer (render_api_error 403 ''TwoFactorEnforced''
              (''This organization requires two-factor authentication. ''
               @ ''Enable two-factor authentication on your account to continue.'')))
          else k
      | None \<Rightarrow> k)"

definition auth_middleware :: "'st api_state \<Rightarrow> api_request \<Rightarrow> http_method \<Rightarrow> string
    \<Rightarrow> (principal \<Rightarrow> acting_role \<Rightarrow> 'st handler) \<Rightarrow> 'st handler" where
  "auth_middleware S R m path next =
     (let key = (case header_str R ''x-admin-api-key'' of Some v \<Rightarrow> v | None \<Rightarrow> []);
          token = bearer_token R; now = rq_clock R 0; segments = path_segments path
      in
      if key \<noteq> [] then
        with_key_scope S key (\<lambda>scope.
        case scope of
          None \<Rightarrow> answer (render_api_error 401 ''Unauthorized'' ''Invalid API key'')
        | Some scope \<Rightarrow>
            if scope_is_global scope then next (AdminKey scope) None
            else key_scope_allows S scope path (\<lambda>allowed.
              if allowed then next (AdminKey scope) None else answer render_not_found))
      else if token = [] \<or> \<not> ap_auth_store S then
        answer (render_api_error 401 ''Unauthorized'' ''Missing X-Admin-API-Key header or Authorization: Bearer session token'')
      else
        call (ao_session_with_user (ap_store S) (hash_token (ap_crypto S) token)) (\<lambda>found.
        case found of
          None \<Rightarrow> answer (render_api_error 401 ''Unauthorized'' ''The session token is invalid or has expired'')
        | Some (session, user) \<Rightarrow>
        if \<not> now < as_expires_at session then
          answer (render_api_error 401 ''Unauthorized'' ''The session token is invalid or has expired'')
        else
        ignore (ao_touch_session (ap_store S) (as_id session) now (now + days_span (cf_session_timeout_days (ap_config S))))
        (path_organization S segments (\<lambda>organization.
         role_check S user segments m organization (\<lambda>acting.
         two_factor_check S user organization (next (SessionUser user) acting))))))"


section \<open>What the middleware grants\<close>

definition path_names :: "string list \<Rightarrow> string list \<Rightarrow> organization \<Rightarrow> account_view \<Rightarrow> bool" where
  "path_names segments rest o' v \<longleftrightarrow>
     segments = ''organizations'' # org_permalink o' # rest \<and> vw_org v (org_id o') = Some o'"

definition in_scope :: "key_scope \<Rightarrow> string list \<Rightarrow> account_view \<Rightarrow> bool" where
  "in_scope scope segments v \<longleftrightarrow>
     (\<exists>rest o'. path_names segments rest o' v \<and> ks_organization_id scope = Some (org_id o')
        \<and> (case ks_server_id scope of
             None \<Rightarrow> True
           | Some i \<Rightarrow> \<exists>s tail. rest = ''servers'' # srv_permalink s # tail \<and> vw_server v i = Some s
                        \<and> srv_id s = i \<and> srv_organization_id s = org_id o'))"

definition key_known :: "'st api_state \<Rightarrow> account_view \<Rightarrow> string \<Rightarrow> key_scope \<Rightarrow> bool" where
  "key_known S v key scope \<longleftrightarrow>
     key \<noteq> []
     \<and> ((\<exists>x. vw_key v key = Some x \<and> scope = \<lparr>ks_organization_id = aak_organization_id x, ks_server_id = aak_server_id x\<rparr>)
        \<or> ap_global_admin_api_key S = Some key \<and> scope_is_global scope)"

definition role_granted :: "'st api_state \<Rightarrow> user \<Rightarrow> string list \<Rightarrow> http_method \<Rightarrow> account_view \<Rightarrow> acting_role \<Rightarrow> bool" where
  "role_granted S u segments m v a \<longleftrightarrow>
     (case a of
        None \<Rightarrow> us_admin u \<or> segments = [''organizations''] \<and> (m = POST \<longrightarrow> cf_allow_organization_creation (ap_config S))
      | Some r \<Rightarrow> \<exists>rest o'. path_names segments rest o' v \<and> vw_role v (org_id o') (us_id u) = Some r \<and> required_role rest m \<le> r)"

definition second_factor_met :: "user \<Rightarrow> string list \<Rightarrow> account_view \<Rightarrow> bool" where
  "second_factor_met u segments v \<longleftrightarrow>
     (\<forall>rest o'. path_names segments rest o' v \<and> org_require_two_factor o' \<longrightarrow> ua_totp_enabled (vw_auth v (us_id u)) \<or> vw_passkey v (us_id u))"

definition granted :: "'st api_state \<Rightarrow> api_request \<Rightarrow> http_method \<Rightarrow> string \<Rightarrow> account_view \<Rightarrow> principal \<Rightarrow> acting_role \<Rightarrow> bool" where
  "granted S R m path v p a \<longleftrightarrow>
     (case p of
        AdminKey scope \<Rightarrow>
          a = None \<and> (\<exists>key. header_str R ''x-admin-api-key'' = Some key \<and> key_known S v key scope)
          \<and> (scope_is_global scope \<or> in_scope scope (path_segments path) v)
      | SessionUser u \<Rightarrow>
          (\<exists>s. session_user (hash_token (ap_crypto S) (bearer_token R)) v = Some (s, u) \<and> rq_clock R 0 < as_expires_at s)
          \<and> role_granted S u (path_segments path) m v a \<and> second_factor_met u (path_segments path) v)"

text \<open>Only the expiry of sessions may differ.\<close>

definition same_but_sessions :: "account_view \<Rightarrow> account_view \<Rightarrow> bool" where
  "same_but_sessions v v1 \<longleftrightarrow> (\<exists>f. v1 = v\<lparr>vw_session := f\<rparr>)"

definition unique_permalinks :: "account_view \<Rightarrow> bool" where
  "unique_permalinks v \<longleftrightarrow>
     (\<forall>i j x y. vw_org v i = Some x \<and> vw_org v j = Some y \<and> org_permalink x = org_permalink y \<longrightarrow> x = y)"

lemma same_but_sessions_refl [simp]: "same_but_sessions v v"
  unfolding same_but_sessions_def by (rule exI [of _ "vw_session v"]) simp

lemma same_but_sessions_update [simp]: "same_but_sessions v (v\<lparr>vw_session := f\<rparr>)"
  by (auto simp: same_but_sessions_def)

context account_store
begin

lemma with_key_scope_runs:
  assumes S: "ap_store S = A" and "key \<noteq> []" "0 < k" "\<And>e. Q (render_store_error e) v" "runs ok V (k - 1) v (c None) Q"
    "\<And>scope. key_known S v key scope \<Longrightarrow> runs ok V (k - 1) v (c (Some scope)) Q"
  shows "runs ok V k v (with_key_scope S key c) Q"
proof -
  have stored: "runs ok V (k - 1) v (c (Some \<lparr>ks_organization_id = aak_organization_id x, ks_server_id = aak_server_id x\<rparr>)) Q"
    if "Some x = vw_key v key" for x
    using that [symmetric] assms(2) by (intro assms(6)) (auto simp: key_known_def)
  have configured: "runs ok V (k - 1) v (c (Some \<lparr>ks_organization_id = None, ks_server_id = None\<rparr>)) Q"
    if "ap_global_admin_api_key S = Some key"
    using that assms(2) by (intro assms(6)) (auto simp: key_known_def scope_is_global_def)
  show ?thesis
    unfolding with_key_scope_def S
    by (intro runs_rules) (use assms(2-5) in \<open>auto simp: reads_def simp del: One_nat_def intro!: stored configured\<close>)
qed

lemma key_scope_allows_runs:
  assumes S: "ap_store S = A" and "1 < k" "\<And>e. Q (render_store_error e) v"
    "\<And>j b. k - 2 \<le> j \<Longrightarrow> (b \<Longrightarrow> in_scope scope (path_segments path) v) \<Longrightarrow> runs ok V j v (c b) Q"
  shows "runs ok V k v (key_scope_allows S scope path c) Q"
proof (cases "\<exists>permalink rest. path_segments path = ''organizations'' # permalink # rest")
  case False
  then have "key_scope_allows S scope path c = c False"
    by (auto simp: key_scope_allows_def split: list.split)
  with assms(4) [of k False] show ?thesis by simp
next
  case True
  then obtain permalink rest where p: "path_segments path = ''organizations'' # permalink # rest" by blast
  note refuse = assms(4) [of _ False, simplified]
  have grant: "runs ok V j v (c b) Q"
    if "k - 2 \<le> j" "vw_org v (org_id o') = Some o'" "org_permalink o' = permalink" "ks_organization_id scope = Some (org_id o')"
      "b \<Longrightarrow> case ks_server_id scope of None \<Rightarrow> True
         | Some i \<Rightarrow> \<exists>s tail. rest = ''servers'' # srv_permalink s # tail \<and> vw_server v i = Some s \<and> srv_id s = i \<and> srv_organization_id s = org_id o'"
    for j b o'
    by (rule assms(4)) (use that in \<open>auto simp: in_scope_def path_names_def p\<close>)
  show ?thesis
    unfolding key_scope_allows_def p list.case S
    by (intro runs_rules; clarsimp simp: contract_defs finds_organization_def finds_server_def)
       (use assms(2,3) in \<open>auto intro!: refuse grant\<close>)
qed

lemma role_check_runs:
  assumes S: "ap_store S = A" and k: "0 < k" and refuse: "\<And>r. \<not> succeeded r \<Longrightarrow> Q r v"
    and org: "\<And>permalink rest. segments = ''organizations'' # permalink # rest \<Longrightarrow> finds_organization permalink v org"
    and grant: "\<And>j a. k - 1 \<le> j \<Longrightarrow> role_granted S u segments m v a \<Longrightarrow> runs ok V j v (c a) Q"
  shows "runs ok V k v (role_check S u segments m org c) Q"
proof -
  have refused: "runs ok V j v (answer r) Q" if "\<not> succeeded r" for r j
    by (rule runs_answer [OF budget_ok]) (rule refuse [OF that])
  have none: "runs ok V k v (c None) Q"
    if "us_admin u \<or> segments = [''organizations''] \<and> (m = POST \<longrightarrow> cf_allow_organization_creation (ap_config S))"
    using that by (intro grant) (simp_all add: role_granted_def)
  show ?thesis
  proof (cases "us_admin u \<or> \<not> (\<exists>permalink rest. segments = ''organizations'' # permalink # rest)")
    case True
    then show ?thesis
      using none by (auto simp: role_check_def forbidden_def refused split: list.split)
  next
    case False
    then obtain permalink rest where p: "segments = ''organizations'' # permalink # rest" and na: "\<not> us_admin u" by blast
    show ?thesis
    proof (cases org)
      case None
      then show ?thesis using p na by (simp add: role_check_def refused)
    next
      case (Some o')
      with org [OF p] have o': "vw_org v (org_id o') = Some o'" "org_permalink o' = permalink" by (simp_all add: finds_organization_def)
      have member: "runs ok V (k - 1) v (c (vw_role v (org_id o') (us_id u))) Q"
        if "Some r = vw_role v (org_id o') (us_id u)" "\<not> r < required_role rest m" for r
        by (rule grant) (use that(1) [symmetric] that(2) o' p in \<open>auto simp: role_granted_def path_names_def\<close>)
      show ?thesis
        unfolding role_check_def p Some Let_def S using na k
        by (simp only: if_False list.case option.case not_True_eq_False, intro runs_rules)
           (auto simp: reads_some_def finds_membership_def forbidden_def simp del: One_nat_def intro!: refuse member)
    qed
  qed
qed

lemma two_factor_check_runs:
  assumes S: "ap_store S = A" and k: "0 < k" and refuse: "\<And>r. \<not> succeeded r \<Longrightarrow> Q r v"
    and grant: "\<And>j. k - 1 \<le> j \<Longrightarrow> (\<forall>o'. org = Some o' \<and> org_require_two_factor o' \<longrightarrow> ua_totp_enabled (vw_auth v (us_id u)) \<or> vw_passkey v (us_id u))
        \<Longrightarrow> runs ok V j v c Q"
  shows "runs ok V k v (two_factor_check S u org c) Q"
proof (cases "\<exists>o'. org = Some o' \<and> org_require_two_factor o'")
  case True
  then obtain o' where "org = Some o'" "org_require_two_factor o'" by blast
  then show ?thesis
    unfolding two_factor_check_def S using k
    by (simp only: option.case if_True, intro runs_rules)
       (auto simp: reads_def simp del: One_nat_def intro!: refuse grant)
next
  case False
  then have "two_factor_check S u org c = c" by (auto simp: two_factor_check_def split: option.split)
  with grant [of k] False show ?thesis by simp
qed

lemma path_organization_runs:
  assumes S: "ap_store S = A" and k: "0 < k" and refuse: "\<And>e. Q (render_store_error e) v"
    and grant: "\<And>j org. k - 1 \<le> j \<Longrightarrow> (\<And>permalink rest. segments = ''organizations'' # permalink # rest \<Longrightarrow> finds_organization permalink v org)
        \<Longrightarrow> (org \<noteq> None \<longrightarrow> (\<exists>permalink rest. segments = ''organizations'' # permalink # rest)) \<Longrightarrow> runs ok V j v (c org) Q"
  shows "runs ok V k v (path_organization S segments c) Q"
proof (cases "\<exists>permalink rest. segments = ''organizations'' # permalink # rest")
  case True
  then obtain permalink rest where p: "segments = ''organizations'' # permalink # rest" by blast
  have found: "runs ok V (k - 1) v (c org) Q" if "finds_organization permalink v org" for org
    by (rule grant) (use that p in auto)
  show ?thesis
    unfolding path_organization_def p S list.case using k
    by (simp only: simp_thms if_True, intro runs_rules) (auto simp: reads_some_def simp del: One_nat_def intro!: refuse found)
next
  case False
  then have "path_organization S segments c = c None" by (auto simp: path_organization_def split: list.split)
  with grant [of k None] False show ?thesis by auto
qed

lemma auth_middleware_runs:
  assumes S: "ap_store S = A" and uniq: "unique_permalinks v"
    and refuse: "\<And>r v1. \<not> succeeded r \<Longrightarrow> same_but_sessions v v1 \<Longrightarrow> Q r v1"
    and cont: "\<And>p a v1. granted S R m path v p a \<Longrightarrow> same_but_sessions v v1 \<Longrightarrow> runs ok V k v1 (next p a) Q"
  shows "runs ok V (k + 5) v (auth_middleware S R m path next) Q"
proof -
  let ?segs = "path_segments path"
  have refused: "runs ok V j v1 (answer r) Q" if "\<not> succeeded r" "same_but_sessions v v1" for r j v1
    by (rule runs_answer [OF budget_ok]) (rule refuse [OF that])
  have cont': "runs ok V j v1 (next p a) Q" if "granted S R m path v p a" "same_but_sessions v v1" "k \<le> j" for p a v1 j
    by (rule runs_more [OF cont [OF that(1,2)] that(3) budget_ok])
  have session: "runs ok V (k + 3) v1 (path_organization S ?segs (\<lambda>org. role_check S u ?segs m org (\<lambda>a. two_factor_check S u org (next (SessionUser u) a)))) Q"
    if su: "session_user (hash_token (ap_crypto S) (bearer_token R)) v = Some (s, u)" "rq_clock R 0 < as_expires_at s"
      and v1: "same_but_sessions v v1" for s u v1
  proof (rule path_organization_runs [OF S])
    have same: "vw_role v1 = vw_role v" "vw_org v1 = vw_org v" "vw_auth v1 = vw_auth v" "vw_passkey v1 = vw_passkey v"
      using v1 by (auto simp: same_but_sessions_def)
    fix j org assume j: "k + 3 - 1 \<le> j"
      and org: "\<And>permalink rest. ?segs = ''organizations'' # permalink # rest \<Longrightarrow> finds_organization permalink v1 org"
    show "runs ok V j v1 (role_check S u ?segs m org (\<lambda>a. two_factor_check S u org (next (SessionUser u) a))) Q"
    proof (rule role_check_runs [OF S])
      fix j' a assume j': "j - 1 \<le> j'" and a: "role_granted S u ?segs m v1 a"
      show "runs ok V j' v1 (two_factor_check S u org (next (SessionUser u) a)) Q"
      proof (rule two_factor_check_runs [OF S])
        fix j'' assume j'': "j' - 1 \<le> j''"
          and tf: "\<forall>o'. org = Some o' \<and> org_require_two_factor o' \<longrightarrow> ua_totp_enabled (vw_auth v1 (us_id u)) \<or> vw_passkey v1 (us_id u)"
        have "second_factor_met u ?segs v"
          unfolding second_factor_met_def
        proof (intro allI impI, elim conjE)
          fix rest o' assume n: "path_names ?segs rest o' v" "org_require_two_factor o'"
          then have "finds_organization (org_permalink o') v1 org" using org by (simp add: path_names_def)
          then have "org = Some o'"
            using n uniq by (cases org) (auto simp: finds_organization_def path_names_def same unique_permalinks_def)
          with tf n(2) show "ua_totp_enabled (vw_auth v (us_id u)) \<or> vw_passkey v (us_id u)" by (simp add: same)
        qed
        moreover have "role_granted S u ?segs m v a" using a by (auto simp: role_granted_def path_names_def same split: option.splits)
        ultimately have "granted S R m path v (SessionUser u) a" using su by (auto simp: granted_def)
        then show "runs ok V j'' v1 (next (SessionUser u) a) Q" by (rule cont' [OF _ v1]) (use j j' j'' in simp)
      qed (use j j' refuse v1 in auto)
    qed (use j refuse v1 org in auto)
  qed (use refuse v1 in auto)
  show ?thesis
  proof (cases "header_str R ''x-admin-api-key'' = None \<or> header_str R ''x-admin-api-key'' = Some []")
    case True
    then have "(case header_str R ''x-admin-api-key'' of Some v \<Rightarrow> v | None \<Rightarrow> []) = []" by auto
    then show ?thesis
      unfolding auth_middleware_def Let_def S
      by (simp only: simp_thms if_False, intro runs_rules)
         (auto simp: contract_defs forbidden_def add.commute intro!: refuse session dest: sym)
  next
    case False
    then obtain key where key: "header_str R ''x-admin-api-key'' = Some key" "key \<noteq> []" by auto
    show ?thesis
      unfolding auth_middleware_def Let_def key(1) option.case if_P [OF key(2)]
    proof (rule with_key_scope_runs [OF S key(2)], goal_cases)
      case (4 scope)
      show ?case
      proof (simp only: option.case, rule runs_if)
        assume "scope_is_global scope"
        then show "runs ok V (k + 5 - 1) v (next (AdminKey scope) None) Q"
          using 4 key(1) by (intro cont') (auto simp: granted_def)
      next
        assume "\<not> scope_is_global scope"
        show "runs ok V (k + 5 - 1) v (key_scope_allows S scope path (\<lambda>allowed. if allowed then next (AdminKey scope) None else answer render_not_found)) Q"
          by (rule key_scope_allows_runs [OF S])
             (use 4 key(1) refuse in \<open>auto intro!: cont' runs_if refused simp: granted_def\<close>)
      qed
    qed (auto simp: refuse refused)
  qed
qed

end

end
