(* ===== verification/App_Mail.thy ===== *)
theory App_Mail
  imports Account_Store
begin

text \<open>
  The mails of the platform (\<open>api/app_mailer.rs\<close>) and the escaping of the values placed in their
  HTML bodies.
\<close>

definition replace_char :: "char \<Rightarrow> string \<Rightarrow> string \<Rightarrow> string" where
  "replace_char c r s = concat (map (\<lambda>x. if x = c then r else [x]) s)"

definition escape_html :: "string \<Rightarrow> string" where
  "escape_html s =
     replace_char CHR 0x22 ''&quot;'' (replace_char CHR ''>'' ''&gt;'' (replace_char CHR ''<'' ''&lt;''
       (replace_char CHR ''&'' ''&amp;'' s)))"

abbreviation nl :: string where "nl \<equiv> [CHR 0x0A]"
abbreviation dq :: string where "dq \<equiv> [CHR 0x22]"

definition html_link :: "string \<Rightarrow> string" where
  "html_link url = ''<a href='' @ dq @ url @ dq @ ''>'' @ url @ ''</a>''"

definition password_reset_mail :: "string \<Rightarrow> string \<Rightarrow> nat \<Rightarrow> app_mail" where
  "password_reset_mail to link expiry_hours =
     \<lparr>am_to = to, am_subject = ''Reset your Camelmailer password'',
      am_text_body = ''Hello,'' @ nl @ nl @ ''A password reset was requested for your Camelmailer account.'' @ nl
        @ ''Choose a new password using this link:'' @ nl @ nl @ link @ nl @ nl
        @ ''The link expires in '' @ show_nat expiry_hours
        @ '' hours. If you did not request a reset, you can ignore this email.'' @ nl,
      am_html_body = ''<p>Hello,</p><p>A password reset was requested for your Camelmailer account. ''
        @ ''Choose a new password using this link:</p><p>'' @ html_link (escape_html link) @ ''</p>''
        @ ''<p>The link expires in '' @ show_nat expiry_hours
        @ '' hours. If you did not request a reset, you can ignore this email.</p>''\<rparr>"

definition invitation_mail :: "string \<Rightarrow> string \<Rightarrow> string \<Rightarrow> nat \<Rightarrow> app_mail" where
  "invitation_mail to organization_name link expiry_days =
     \<lparr>am_to = to, am_subject = ''You have been invited to '' @ organization_name @ '' on Camelmailer'',
      am_text_body = ''Hello,'' @ nl @ nl @ ''You have been invited to join '' @ organization_name @ '' on Camelmailer.'' @ nl
        @ ''Accept the invitation using this link:'' @ nl @ nl @ link @ nl @ nl
        @ ''The invitation expires in '' @ show_nat expiry_days @ '' days.'' @ nl,
      am_html_body = ''<p>Hello,</p><p>You have been invited to join <strong>'' @ escape_html organization_name
        @ ''</strong> on Camelmailer. Accept the invitation using this link:</p><p>''
        @ html_link (escape_html link) @ ''</p><p>The invitation expires in '' @ show_nat expiry_days @ '' days.</p>''\<rparr>"

definition welcome_mail :: "string \<Rightarrow> string \<Rightarrow> string option \<Rightarrow> app_mail" where
  "welcome_mail to first_name frontend_url =
     (let greeting = (if first_name = [] then ''Hello'' else ''Hello '' @ first_name);
          sign_in_text = (case frontend_url of Some url \<Rightarrow> nl @ ''Sign in at '' @ url @ nl | None \<Rightarrow> []);
          sign_in_html = (case frontend_url of Some url \<Rightarrow> ''<p>Sign in at '' @ html_link (escape_html url) @ ''</p>'' | None \<Rightarrow> [])
      in \<lparr>am_to = to, am_subject = ''Welcome to Camelmailer'',
          am_text_body = greeting @ '','' @ nl @ nl @ ''Your Camelmailer account has been created.'' @ nl
            @ sign_in_text @ nl @ ''Happy sending!'' @ nl,
          am_html_body = ''<p>'' @ escape_html greeting @ '',</p><p>Your Camelmailer account has been created.</p>''
            @ sign_in_html @ ''<p>Happy sending!</p>''\<rparr>)"

section \<open>Escaping\<close>

lemma replace_char_append [simp]: "replace_char c r (s @ t) = replace_char c r s @ replace_char c r t"
  by (simp add: replace_char_def)

lemma escape_html_Cons: "escape_html (c # s) = escape_html [c] @ escape_html s"
  by (metis append_Cons append_Nil escape_html_def replace_char_append)

lemma set_replace_char: "set (replace_char c r s) \<subseteq> (set s - {c}) \<union> set r"
  by (auto simp: replace_char_def split: if_splits)

lemma escape_html_safe: "set (escape_html s) \<inter> {CHR ''<'', CHR ''>'', CHR 0x22} = {}"
proof -
  have *: "x \<notin> set (replace_char c r t)" if "x \<notin> set r" "x = c \<or> x \<notin> set t" for x c r t
    using that set_replace_char by fastforce
  show ?thesis unfolding escape_html_def by (auto simp: * dest!: subsetD [OF set_replace_char])
qed

end
