(* ===== verification/Account_Api.thy ===== *)
theory Account_Api
  imports Api_Core App_Mail
begin

text \<open>
  The account handlers (\<open>api/auth_api.rs\<close>) over any account storage: login, the session
  middleware, logout, profile, password change and reset, two-factor enrolment and invitations,
  and what they guarantee when the storage keeps its contract. A settled period that leaves
  the calendar of the time library (260,000 years) panics there and is not considered.
\<close>

section \<open>Login\<close>

record login_body =
  lb_email_address :: "string option"
  lb_password :: "string option"
  lb_totp_code :: "string option"

definition issue_session_with_oidc_logout ::
    "'st api_state \<Rightarrow> api_request \<Rightarrow> instant \<Rightarrow> user \<Rightarrow> oidc_logout option \<Rightarrow> (string \<Rightarrow> auth_session \<Rightarrow> 'st handler) \<Rightarrow> 'st handler" where
  "issue_session_with_oidc_logout S R now u logout k =
     call (ao_create_session (ap_store S)
       \<lparr>ns_user_id = us_id u, ns_token_hash = hash_token (ap_crypto S) (rq_token R),
        ns_expires_at = now + days_span (cf_session_timeout_days (ap_config S)), ns_ip_address = client_ip R,
        ns_user_agent = user_agent R, ns_oidc_logout = logout\<rparr>)
       (k (rq_token R))"

definition issue_session :: "'st api_state \<Rightarrow> api_request \<Rightarrow> instant \<Rightarrow> user \<Rightarrow> (string \<Rightarrow> auth_session \<Rightarrow> 'st handler) \<Rightarrow> 'st handler" where
  "issue_session S R now u = issue_session_with_oidc_logout S R now u None"

definition invalid_credentials :: api_response where
  "invalid_credentials = render_api_error 401 ''InvalidCredentials'' ''The email address or password is incorrect''"

definition account_disabled :: api_response where
  "account_disabled = render_api_error 403 ''AccountDisabled'' ''This account has been deactivated''"

definition locked_at :: "instant \<Rightarrow> user_auth \<Rightarrow> bool" where
  "locked_at now ua = (case ua_locked_until ua of Some until \<Rightarrow> now < until | None \<Rightarrow> False)"

definition failed_attempt :: "'st api_state \<Rightarrow> instant \<Rightarrow> Id \<Rightarrow> user_auth \<Rightarrow> ('st, unit) op" where
  "failed_attempt S now u ua =
     (let attempts = (ua_failed_login_attempts ua + 1) mod 2 ^ 32;
          locked_until = (if cf_max_login_attempts (ap_config S) \<le> attempts
                          then Some (now + minutes_span (cf_lockout_minutes (ap_config S))) else None)
      in ao_set_login_state (ap_store S) u attempts locked_until None)"

definition password_matches :: "auth_crypto \<Rightarrow> string \<Rightarrow> user_auth \<Rightarrow> bool" where
  "password_matches cr password ua =
     (case ua_password_digest ua of Some digest \<Rightarrow> ax_verify_password cr password digest | None \<Rightarrow> False)"

definition session_data :: "'st api_state \<Rightarrow> string \<Rightarrow> auth_session \<Rightarrow> (string \<times> json) list" where
  "session_data S token session =
     [(''expires_at'', JString (ap_rfc3339 S (as_expires_at session))), (''session_token'', JString token)]"

text \<open>The checks and the end of \<open>login\<close> once the account and its authentication state are found.\<close>

definition login_checked :: "'st api_state \<Rightarrow> api_request \<Rightarrow> login_body \<Rightarrow> string \<Rightarrow> string \<Rightarrow> user \<Rightarrow> user_auth \<Rightarrow> 'st handler" where
  "login_checked S R body email password user ua =
     (let now = rq_clock R 0;
          finish =
            call (ao_set_login_state (ap_store S) (us_id user) 0 None (Some now)) (\<lambda>_.
            issue_session S R (rq_clock R 1) user (\<lambda>token session.
            ignore (audit S R (Some (us_id user)) (Some email) ''login.success'')
            (answer (render_success 201 (JObject (session_data S token session @ [(''user'', user_json user)]))))))
      in
      if ua_disabled ua then
        ignore (audit S R (Some (us_id user)) (Some email) ''login.disabled'') (answer account_disabled)
      else if locked_at now ua then
        ignore (audit S R (Some (us_id user)) (Some email) ''login.locked'')
          (answer (render_api_error 403 ''AccountLocked'' ''This account is temporarily locked after repeated failed logins''))
      else if \<not> password_matches (ap_crypto S) password ua then
        ignore (failed_attempt S now (us_id user) ua)
        (ignore (audit S R (Some (us_id user)) (Some email) ''login.failure'') (answer invalid_credentials))
      else if \<not> ua_totp_enabled ua then finish
      else
        let secret = (case ua_totp_secret ua of Some s \<Rightarrow> s | None \<Rightarrow> []);
            code = (case lb_totp_code body of Some c \<Rightarrow> c | None \<Rightarrow> [])
        in
        if code = [] then answer (render_api_error 401 ''TOTPRequired'' ''A two-factor authentication code is required'')
        else if \<not> verify_totp (ap_crypto S) secret code (timestamp now) then
          ignore (failed_attempt S now (us_id user) ua)
          (ignore (audit S R (Some (us_id user)) (Some email) ''login.totp_failure'')
          (answer (render_api_error 401 ''InvalidTOTPCode'' ''The two-factor authentication code is incorrect'')))
        else finish)"

definition login :: "'st api_state \<Rightarrow> api_request \<Rightarrow> login_body \<Rightarrow> 'st handler" where
  "login S R body =
     with_accounts S
     (required ''email_address'' (lb_email_address body) (\<lambda>email.
      required ''password'' (lb_password body) (\<lambda>password.
      call (ao_user_by_email (ap_store S) email) (\<lambda>found.
      case found of
        None \<Rightarrow> ignore (audit S R None (Some email) ''login.failure'') (answer invalid_credentials)
      | Some user \<Rightarrow>
      call (ao_user_auth (ap_store S) (us_id user)) (\<lambda>found_auth.
      case found_auth of
        None \<Rightarrow> answer invalid_credentials
      | Some ua \<Rightarrow> login_checked S R body email password user ua)))))"

section \<open>Sessions\<close>

record current_user =
  cu_user :: user
  cu_token_hash :: string

definition session_middleware :: "'st api_state \<Rightarrow> api_request \<Rightarrow> (current_user \<Rightarrow> 'st handler) \<Rightarrow> 'st handler" where
  "session_middleware S R next =
     (let A = ap_store S; now = rq_clock R 0; token = bearer_token R in
      with_accounts S
      (if token = [] then answer (render_api_error 401 ''Unauthorized'' ''Missing Authorization: Bearer session token'')
       else
         let token_hash = hash_token (ap_crypto S) token in
         call (ao_session_with_user A token_hash) (\<lambda>found.
         case found of
           Some (session, user) \<Rightarrow>
             if now < as_expires_at session then
               ignore (ao_touch_session A (as_id session) now (now + days_span (cf_session_timeout_days (ap_config S))))
                 (next \<lparr>cu_user = user, cu_token_hash = token_hash\<rparr>)
             else answer (render_api_error 401 ''Unauthorized'' ''The session token is invalid or has expired'')
         | None \<Rightarrow> answer (render_api_error 401 ''Unauthorized'' ''The session token is invalid or has expired''))))"

definition post_logout_redirect_uri :: "'st api_state \<Rightarrow> string" where
  "post_logout_redirect_uri S = cf_web_protocol (ap_config S) @ ''://'' @ cf_web_hostname (ap_config S) @ ''/login''"

definition urlencode :: "string \<Rightarrow> string" where
  "urlencode v = concat (map (\<lambda>c.
     if is_ascii_alnum c \<or> c \<in> set ''-._~'' then [c]
     else [CHR ''%'', upper_hex_digit (byte c div 16), upper_hex_digit (byte c mod 16)]) v)"

definition oidc_end_session_url :: "'st api_state \<Rightarrow> auth_session \<Rightarrow> string option" where
  "oidc_end_session_url S session =
     map_option (\<lambda>logout.
       ol_end_session_endpoint logout
       @ (if CHR ''?'' \<in> set (ol_end_session_endpoint logout) then ''&'' else ''?'')
       @ ''id_token_hint='' @ urlencode (ol_id_token logout)
       @ ''&post_logout_redirect_uri='' @ urlencode (post_logout_redirect_uri S)) (as_oidc_logout session)"

definition json_option :: "string option \<Rightarrow> json" where
  "json_option x = (case x of Some s \<Rightarrow> JString s | None \<Rightarrow> JNull)"

definition logout :: "'st api_state \<Rightarrow> api_request \<Rightarrow> current_user \<Rightarrow> 'st handler" where
  "logout S R current =
     (let A = ap_store S in
      with_accounts S
      (attempt_call (ao_session_with_user A (cu_token_hash current)) (\<lambda>found.
       let end_session_url = (case found of Inr (Some (session, _)) \<Rightarrow> oidc_end_session_url S session | _ \<Rightarrow> None) in
       call (ao_delete_session A (cu_token_hash current)) (\<lambda>_.
       ignore (audit S R (Some (us_id (cu_user current))) (Some (us_email_address (cu_user current))) ''logout'')
       (answer (render_success 200 (JObject
          [(''end_session_url'', json_option end_session_url), (''logged_out'', JBool True)])))))))"

definition membership_json :: "organization_membership \<times> organization \<Rightarrow> json" where
  "membership_json p =
     JObject [(''organization'', JObject
                 [(''id'', JNumber (show_nat (org_id (snd p)))), (''name'', JString (org_name (snd p))),
                  (''permalink'', JString (org_permalink (snd p))), (''uuid'', JString (org_uuid (snd p)))]),
              (''role'', JString (role_as_str (om_role (fst p))))]"

text \<open>\<open>user["totp_enabled"] = ...\<close>: the object keeps its keys in order.\<close>

definition user_json_with_totp :: "user \<Rightarrow> bool \<Rightarrow> json" where
  "user_json_with_totp u totp = JObject
     [(''admin'', JBool (us_admin u)), (''email_address'', JString (us_email_address u)),
      (''first_name'', JString (us_first_name u)), (''id'', JNumber (show_nat (us_id u))),
      (''last_name'', JString (us_last_name u)), (''totp_enabled'', JBool totp), (''uuid'', JString (us_uuid u))]"

definition me :: "'st api_state \<Rightarrow> current_user \<Rightarrow> 'st handler" where
  "me S current =
     (let A = ap_store S; u = us_id (cu_user current) in
      with_accounts S
      (call (ao_user_auth A u) (\<lambda>ua.
       call (ao_memberships_for_user A u) (\<lambda>memberships.
       answer (render_success 200 (JObject
         [(''memberships'', JArray (map membership_json memberships)),
          (''user'', user_json_with_totp (cu_user current) (case ua of Some a \<Rightarrow> ua_totp_enabled a | None \<Rightarrow> False))]))))))"

definition non_empty_or :: "string option \<Rightarrow> string \<Rightarrow> string" where
  "non_empty_or field current = (case field of Some v \<Rightarrow> if v = [] then current else v | None \<Rightarrow> current)"

definition update_me :: "'st api_state \<Rightarrow> current_user \<Rightarrow> string option \<Rightarrow> string option \<Rightarrow> 'st handler" where
  "update_me S current first_name last_name =
     (let u = cu_user current;
          user = u\<lparr>us_first_name := non_empty_or first_name (us_first_name u), us_last_name := non_empty_or last_name (us_last_name u)\<rparr>
      in call (ao_update_user (ap_store S) user) (\<lambda>user.
         answer (render_success 200 (JObject [(''user'', user_json user)]))))"

section \<open>Passwords\<close>

definition too_short :: "'st api_state \<Rightarrow> string \<Rightarrow> bool" where
  "too_short S password = (length password mod 2 ^ 32 < cf_minimum_password_length (ap_config S))"

definition password_length_error :: "'st api_state \<Rightarrow> api_response" where
  "password_length_error S = render_validation_error
     (''Password must be at least '' @ show_nat (cf_minimum_password_length (ap_config S)) @ '' characters'')"

definition with_digest :: "'st api_state \<Rightarrow> api_request \<Rightarrow> string \<Rightarrow> (string \<Rightarrow> 'st handler) \<Rightarrow> 'st handler" where
  "with_digest S R password k =
     (case ax_hash_password (ap_crypto S) (rq_salt R) password of
        Inr digest \<Rightarrow> k digest
      | Inl error \<Rightarrow> answer (render_store_error (StoreOther error)))"

text \<open>The password asked for when one is set.\<close>

definition password_confirmed :: "auth_crypto \<Rightarrow> user_auth \<Rightarrow> string option \<Rightarrow> bool" where
  "password_confirmed cr ua given =
     (case ua_password_digest ua of
        None \<Rightarrow> True
      | Some digest \<Rightarrow> (case given of Some p \<Rightarrow> ax_verify_password cr p digest | None \<Rightarrow> False))"

definition change_password :: "'st api_state \<Rightarrow> api_request \<Rightarrow> current_user \<Rightarrow> string option \<Rightarrow> string option \<Rightarrow> 'st handler" where
  "change_password S R current current_password new_password =
     (let A = ap_store S; u = us_id (cu_user current) in
      with_accounts S
      (required ''new_password'' new_password (\<lambda>password.
       if too_short S password then answer (password_length_error S)
       else
       call (ao_user_auth A u) (\<lambda>found.
       case found of
         None \<Rightarrow> answer (render_api_error 401 ''Unauthorized'' ''Unknown user'')
       | Some ua \<Rightarrow>
       if \<not> password_confirmed (ap_crypto S) ua current_password then
         answer (render_api_error 401 ''InvalidCredentials'' ''The current password is incorrect'')
       else
       with_digest S R password (\<lambda>digest.
       call (ao_set_password_digest A u digest) (\<lambda>_.
       ignore (ao_delete_sessions_for_user A u)
       (ignore (audit S R (Some u) (Some (us_email_address (cu_user current))) ''password.change'')
       (issue_session S R (rq_clock R 0) (cu_user current) (\<lambda>token session.
        answer (render_success 200 (JObject
          [(''expires_at'', JString (ap_rfc3339 S (as_expires_at session))), (''password_changed'', JBool True),
           (''session_token'', JString token)])))))))))))"

definition reset_requested :: api_response where
  "reset_requested = render_success 200 (JObject [(''reset_requested'', JBool True)])"

definition reset_link :: "'st api_state \<Rightarrow> string \<Rightarrow> string option" where
  "reset_link S token = map_option (\<lambda>base. trim_end_matches (\<lambda>c. c = CHR ''/'') base @ ''/reset-password?token='' @ token)
     (cf_frontend_url (ap_config S))"

text \<open>The result of the delivery only selects a log line.\<close>

definition deliver_app_mail :: "'st api_state \<Rightarrow> app_mail \<Rightarrow> 'st handler \<Rightarrow> 'st handler" where
  "deliver_app_mail S mail k st = k (snd (ao_deliver_mail (ap_store S) mail st))"

definition is_disabled :: "store_error + user_auth option \<Rightarrow> bool" where
  "is_disabled r = (case r of Inr (Some ua) \<Rightarrow> ua_disabled ua | _ \<Rightarrow> False)"

definition password_reset_request :: "'st api_state \<Rightarrow> api_request \<Rightarrow> string option \<Rightarrow> 'st handler" where
  "password_reset_request S R email_address =
     (let A = ap_store S; cf = ap_config S in
      with_accounts S
      (required ''email_address'' email_address (\<lambda>email.
       attempt_call (ao_user_by_email A email) (\<lambda>found.
       case found of
         Inr (Some user) \<Rightarrow>
           attempt_call (ao_user_auth A (us_id user)) (\<lambda>ua.
           if is_disabled ua then answer reset_requested
           else
           ignore (ao_create_password_reset A (us_id user) (hash_token (ap_crypto S) (rq_token R))
                     (rq_clock R 0 + hours_span (cf_password_reset_expiry_hours cf)))
           (ignore (audit S R (Some (us_id user)) (Some email) ''password.reset_request'')
           (case reset_link S (rq_token R) of
              Some link \<Rightarrow>
                if cf_app_mail_enabled cf then
                  deliver_app_mail S (password_reset_mail email link (cf_password_reset_expiry_hours cf)) (answer reset_requested)
                else answer reset_requested
            | None \<Rightarrow> answer reset_requested)))
       | _ \<Rightarrow> answer reset_requested))))"

definition password_reset_complete :: "'st api_state \<Rightarrow> api_request \<Rightarrow> string option \<Rightarrow> string option \<Rightarrow> 'st handler" where
  "password_reset_complete S R token new_password =
     (let A = ap_store S in
      with_accounts S
      (required ''token'' token (\<lambda>token.
       required ''new_password'' new_password (\<lambda>password.
       if too_short S password then answer (password_length_error S)
       else
       call (ao_consume_password_reset A (hash_token (ap_crypto S) token) (rq_clock R 0)) (\<lambda>found.
       case found of
         None \<Rightarrow> answer (render_api_error 422 ''InvalidToken'' ''The reset token is invalid or has expired'')
       | Some u \<Rightarrow>
       attempt_call (ao_user_auth A u) (\<lambda>ua.
       if is_disabled ua then answer account_disabled
       else
       with_digest S R password (\<lambda>digest.
       call (ao_set_password_digest A u digest) (\<lambda>_.
       ignore (ao_delete_sessions_for_user A u)
       (ignore (ao_set_login_state A u 0 None None)
       (ignore (audit S R (Some u) None ''password.reset_complete'')
       (answer (render_success 200 (JObject [(''password_reset'', JBool True)])))))))))))))"

section \<open>Second factor\<close>

definition totp_enroll :: "'st api_state \<Rightarrow> api_request \<Rightarrow> current_user \<Rightarrow> 'st handler" where
  "totp_enroll S R current =
     (let secret = rq_secret R; issuer = ''Camelmailer ('' @ cf_web_hostname (ap_config S) @ '')'' in
      with_accounts S
      (call (ao_set_totp (ap_store S) (us_id (cu_user current)) (Some secret) False) (\<lambda>_.
       answer (render_success 200 (JObject
         [(''otpauth_url'', JString (otpauth_url secret (us_email_address (cu_user current)) issuer)),
          (''secret'', JString secret)])))))"

definition not_started :: api_response where
  "not_started = render_validation_error ''TOTP enrollment has not been started''"

definition totp_activate :: "'st api_state \<Rightarrow> api_request \<Rightarrow> current_user \<Rightarrow> string option \<Rightarrow> 'st handler" where
  "totp_activate S R current code =
     (let A = ap_store S; u = us_id (cu_user current) in
      with_accounts S
      (required ''code'' code (\<lambda>code.
       attempt_call (ao_user_auth A u) (\<lambda>found.
       case found of
         Inr (Some ua) \<Rightarrow>
           (case ua_totp_secret ua of
              None \<Rightarrow> answer not_started
            | Some secret \<Rightarrow>
                if \<not> verify_totp (ap_crypto S) secret code (timestamp (rq_clock R 0)) then
                  answer (render_api_error 422 ''InvalidTOTPCode'' ''The two-factor authentication code is incorrect'')
                else
                call (ao_set_totp A u (Some secret) True) (\<lambda>_.
                ignore (audit S R (Some u) (Some (us_email_address (cu_user current))) ''totp.activate'')
                (answer (render_success 200 (JObject [(''totp_enabled'', JBool True)])))))
       | _ \<Rightarrow> answer not_started))))"

definition totp_disable :: "'st api_state \<Rightarrow> api_request \<Rightarrow> current_user \<Rightarrow> string option \<Rightarrow> 'st handler" where
  "totp_disable S R current password =
     (let A = ap_store S; u = us_id (cu_user current) in
      with_accounts S
      (call (ao_user_auth A u) (\<lambda>found.
       case found of
         None \<Rightarrow> answer (render_validation_error ''TOTP is not enabled'')
       | Some ua \<Rightarrow>
       if \<not> password_confirmed (ap_crypto S) ua password then
         answer (render_api_error 401 ''InvalidCredentials'' ''The password is incorrect'')
       else
       call (ao_set_totp A u None False) (\<lambda>_.
       ignore (audit S R (Some u) (Some (us_email_address (cu_user current))) ''totp.disable'')
       (answer (render_success 200 (JObject [(''totp_enabled'', JBool False)])))))))"

section \<open>Invitations\<close>

definition invalid_invitation :: api_response where
  "invalid_invitation = render_api_error 422 ''InvalidToken'' ''The invitation is invalid, expired, or already used''"

definition invitation_usable :: "instant \<Rightarrow> invitation \<Rightarrow> bool" where
  "invitation_usable now i \<longleftrightarrow> \<not> (iv_accepted_at i \<noteq> None \<or> iv_expires_at i < now)"

definition invitation_preview :: "'st api_state \<Rightarrow> api_request \<Rightarrow> string \<Rightarrow> 'st handler" where
  "invitation_preview S R token =
     (let A = ap_store S in
      with_accounts S
      (call (ao_invitation_by_token_hash A (hash_token (ap_crypto S) token)) (\<lambda>found.
       case found of
         None \<Rightarrow> answer invalid_invitation
       | Some invitation \<Rightarrow>
       if \<not> invitation_usable (rq_clock R 0) invitation then answer invalid_invitation
       else
       call (ao_list_organizations A) (\<lambda>organizations.
       let organization = List.find (\<lambda>x. org_id x = iv_organization_id invitation) organizations in
       attempt_call (ao_user_by_email A (iv_email_address invitation)) (\<lambda>existing.
       let user_exists = (case existing of Inr (Some _) \<Rightarrow> True | _ \<Rightarrow> False) in
       answer (render_success 200 (JObject [(''invitation'', JObject
         [(''email_address'', JString (iv_email_address invitation)),
          (''expires_at'', JString (ap_rfc3339 S (iv_expires_at invitation))),
          (''organization'', case organization of
             Some x \<Rightarrow> JObject [(''name'', JString (org_name x)), (''permalink'', JString (org_permalink x))]
           | None \<Rightarrow> JNull),
          (''role'', JString (role_as_str (iv_role invitation))), (''user_exists'', JBool user_exists)])])))))))"

record accept_body =
  ab_token :: "string option"
  ab_first_name :: "string option"
  ab_last_name :: "string option"
  ab_password :: "string option"

definition or_default :: "string option \<Rightarrow> string" where
  "or_default x = (case x of Some s \<Rightarrow> s | None \<Rightarrow> [])"

text \<open>The account an invitation is accepted for: the existing one, or a new one.\<close>

definition invited_account :: "'st api_state \<Rightarrow> api_request \<Rightarrow> accept_body \<Rightarrow> invitation \<Rightarrow> user option
    \<Rightarrow> (user \<Rightarrow> bool \<Rightarrow> 'st handler) \<Rightarrow> 'st handler" where
  "invited_account S R body invitation existing k =
     (let A = ap_store S in
      case existing of
        Some user \<Rightarrow> k user False
      | None \<Rightarrow>
          required ''password'' (ab_password body) (\<lambda>password.
          if too_short S password then answer (password_length_error S)
          else
          call (ao_create_user A \<lparr>nu_email_address = iv_email_address invitation, nu_first_name = or_default (ab_first_name body),
                                   nu_last_name = or_default (ab_last_name body), nu_admin = False\<rparr>) (\<lambda>user.
          with_digest S R password (\<lambda>digest.
          call (ao_set_password_digest A (us_id user) digest) (\<lambda>_.
          user_registered S R 1 user SourceInvitation (k user True))))))"

definition invitation_accept :: "'st api_state \<Rightarrow> api_request \<Rightarrow> accept_body \<Rightarrow> 'st handler" where
  "invitation_accept S R body =
     (let A = ap_store S in
      with_accounts S
      (required ''token'' (ab_token body) (\<lambda>token.
       call (ao_invitation_by_token_hash A (hash_token (ap_crypto S) token)) (\<lambda>found.
       case found of
         None \<Rightarrow> answer invalid_invitation
       | Some invitation \<Rightarrow>
       if \<not> invitation_usable (rq_clock R 0) invitation then answer invalid_invitation
       else
       call (ao_user_by_email A (iv_email_address invitation)) (\<lambda>existing.
       invited_account S R body invitation existing (\<lambda>user created.
       call (ao_upsert_membership A (iv_organization_id invitation) (us_id user) (iv_role invitation)) (\<lambda>_.
       call (ao_mark_invitation_accepted A (iv_id invitation)) (\<lambda>_.
       ignore (audit S R (Some (us_id user)) (Some (us_email_address user)) ''invitation.accepted'')
       (let data = [(''accepted'', JBool True), (''account_created'', JBool created)] in
        if created then
          issue_session S R (rq_clock R 2) user (\<lambda>token session.
          answer (render_success 200 (JObject (data @ session_data S token session @ [(''user'', user_json user)]))))
        else answer (render_success 200 (JObject (data @ [(''user'', user_json user)]))))))))))))"


section \<open>What login guarantees\<close>

text \<open>The account has the given address, is enabled and unlocked, and the password and, if required, the code are right.\<close>

definition code_accepted :: "auth_crypto \<Rightarrow> user_auth \<Rightarrow> string option \<Rightarrow> instant \<Rightarrow> bool" where
  "code_accepted cr ua code now \<longleftrightarrow>
     ua_totp_enabled ua \<longrightarrow> (\<exists>c. code = Some c \<and> verify_totp cr (or_default (ua_totp_secret ua)) c (timestamp now))"

definition may_login :: "'st api_state \<Rightarrow> api_request \<Rightarrow> login_body \<Rightarrow> (string \<Rightarrow> string \<Rightarrow> bool) \<Rightarrow> account_view \<Rightarrow> user \<Rightarrow> bool" where
  "may_login S R body same_mail v u \<longleftrightarrow>
     (\<exists>email password ua.
        lb_email_address body = Some email \<and> lb_password body = Some password
        \<and> vw_user v (us_id u) = Some u \<and> same_mail (us_email_address u) email \<and> vw_auth v (us_id u) = ua
        \<and> \<not> ua_disabled ua \<and> \<not> locked_at (rq_clock R 0) ua \<and> password_matches (ap_crypto S) password ua
        \<and> code_accepted (ap_crypto S) ua (lb_totp_code body) (rq_clock R 0))"

definition login_post :: "'st api_state \<Rightarrow> api_request \<Rightarrow> login_body \<Rightarrow> (string \<Rightarrow> string \<Rightarrow> bool) \<Rightarrow> account_view
    \<Rightarrow> api_response \<Rightarrow> account_view \<Rightarrow> bool" where
  "login_post S R body same_mail v r v' \<longleftrightarrow>
     (if succeeded r then
        (\<exists>u s. may_login S R body same_mail v u \<and> as_user_id s = us_id u
           \<and> as_expires_at s = rq_clock R 1 + days_span (cf_session_timeout_days (ap_config S))
           \<and> v' = (update_auth (us_id u) (login_state 0 None (Some (rq_clock R 0))) v)
                    \<lparr>vw_session := (vw_session v)(hash_token (ap_crypto S) (rq_token R) \<mapsto> s)\<rparr>)
      else v' = v \<or> (\<exists>u k l t. v' = update_auth u (login_state k l t) v))"

lemma login_post_refused: "\<not> succeeded r \<Longrightarrow> login_post S R body same_mail v r v"
  by (simp add: login_post_def)

lemma login_post_counted: "\<not> succeeded r \<Longrightarrow> login_post S R body same_mail v r (update_auth u (login_state k l t) v)"
  by (auto simp: login_post_def)

lemma refusals [simp]:
  "\<not> succeeded invalid_credentials" "\<not> succeeded account_disabled" "\<not> succeeded invalid_invitation"
  "\<not> succeeded not_started" "\<not> succeeded (password_length_error S)"
  by (simp_all add: invalid_credentials_def account_disabled_def invalid_invitation_def not_started_def password_length_error_def)

lemma or_default_cases: "(case x of None \<Rightarrow> [] | Some s \<Rightarrow> s) = or_default x"
  by (simp add: or_default_def)

lemma update_auth_fields [simp]:
  "vw_session (update_auth u f v) = vw_session v" "vw_user (update_auth u f v) = vw_user v" "vw_role (update_auth u f v) = vw_role v"
  "vw_auth (update_auth u f v) = (vw_auth v)(u := f (vw_auth v u))" "vw_invitation (update_auth u f v) = vw_invitation v"
  "vw_reset (update_auth u f v) = vw_reset v" "vw_passkey (update_auth u f v) = vw_passkey v"
  by (simp_all add: update_auth_def)

context account_store
begin

lemma login_finish:
  assumes "may_login S R body same_mail v u" "creates_session n (update_auth (us_id u) (login_state 0 None (Some (rq_clock R 0))) v) s v'"
    "ns_user_id n = us_id u" "ns_token_hash n = hash_token (ap_crypto S) (rq_token R)"
    "ns_expires_at n = rq_clock R 1 + days_span (cf_session_timeout_days (ap_config S))"
  shows "login_post S R body same_mail v (render_success c d) v'"
  using assms by (auto simp: login_post_def creates_session_def session_of_def)

lemma login_runs:
  assumes S: "ap_store S = A" and fresh: "vw_session v (hash_token (ap_crypto S) (rq_token R)) = None"
  shows "runs ok V 6 v (login S R body) (login_post S R body same_mail v)"
  unfolding login_def login_checked_def Let_def S audit_def issue_session_def issue_session_with_oidc_logout_def failed_attempt_def or_default_cases
  by (intro runs_rules)
     (auto simp: contract_defs fresh may_login_def code_accepted_def or_default_def split: option.splits if_splits
        intro!: login_post_refused login_post_counted elim!: login_finish [rotated 1])

end


section \<open>Sessions and passwords\<close>

definition session_post :: "'st api_state \<Rightarrow> api_request \<Rightarrow> account_view \<Rightarrow> (current_user \<Rightarrow> account_view \<Rightarrow> api_response \<Rightarrow> account_view \<Rightarrow> bool)
    \<Rightarrow> api_response \<Rightarrow> account_view \<Rightarrow> bool" where
  "session_post S R v post r v' \<longleftrightarrow>
     (\<not> succeeded r \<and> v' = v)
     \<or> (\<exists>s u v1. bearer_token R \<noteq> [] \<and> session_user (hash_token (ap_crypto S) (bearer_token R)) v = Some (s, u)
          \<and> rq_clock R 0 < as_expires_at s
          \<and> (v1 = v \<or> v1 = v\<lparr>vw_session := map_option (touch (as_id s) (rq_clock R 0)
                 (rq_clock R 0 + days_span (cf_session_timeout_days (ap_config S)))) \<circ> vw_session v\<rparr>)
          \<and> post \<lparr>cu_user = u, cu_token_hash = hash_token (ap_crypto S) (bearer_token R)\<rparr> v1 r v')"

lemma session_post_refused: "\<not> succeeded r \<Longrightarrow> session_post S R v post r v"
  by (simp add: session_post_def)

text \<open>The sessions of the user are gone, unless the storage failed to delete them.\<close>

definition revoked :: "'st api_state \<Rightarrow> Id \<Rightarrow> account_view \<Rightarrow> (string \<Rightarrow> auth_session option) \<Rightarrow> bool" where
  "revoked S u v sessions \<longleftrightarrow>
     sessions = vw_session (drop_sessions (\<lambda>s. as_user_id s = u) v)
     \<or> sessions = vw_session v \<and> \<not> never_fails (ao_delete_sessions_for_user (ap_store S) u)"

definition change_post :: "'st api_state \<Rightarrow> api_request \<Rightarrow> current_user \<Rightarrow> string option \<Rightarrow> string option \<Rightarrow> account_view
    \<Rightarrow> api_response \<Rightarrow> account_view \<Rightarrow> bool" where
  "change_post S R current current_password new_password v r v' \<longleftrightarrow>
     succeeded r \<longrightarrow>
       (\<exists>password digest s sessions u. u = us_id (cu_user current) \<and> vw_user v u \<noteq> None
          \<and> new_password = Some password \<and> cf_minimum_password_length (ap_config S) \<le> length password
          \<and> password_confirmed (ap_crypto S) (vw_auth v u) current_password
          \<and> ax_hash_password (ap_crypto S) (rq_salt R) password = Inr digest
          \<and> as_user_id s = u \<and> revoked S u v sessions
          \<and> v' = (update_auth u (\<lambda>a. a\<lparr>ua_password_digest := Some digest\<rparr>) v)
                   \<lparr>vw_session := sessions(hash_token (ap_crypto S) (rq_token R) \<mapsto> s)\<rparr>)"

lemma not_too_short: "\<not> too_short S p \<Longrightarrow> cf_minimum_password_length (ap_config S) \<le> length p"
  unfolding too_short_def by (metis linorder_not_le mod_less_eq_dividend order_trans)

lemma drop_sessions_fields [simp]:
  "vw_user (drop_sessions P v) = vw_user v" "vw_auth (drop_sessions P v) = vw_auth v" "vw_role (drop_sessions P v) = vw_role v"
  "vw_invitation (drop_sessions P v) = vw_invitation v" "vw_reset (drop_sessions P v) = vw_reset v"
  "vw_passkey (drop_sessions P v) = vw_passkey v"
  "vw_session (drop_sessions P v) h = (case vw_session v h of None \<Rightarrow> None | Some s \<Rightarrow> if P s then None else Some s)"
  by (simp_all add: drop_sessions_def)

lemma drop_sessions_update_auth: "drop_sessions P (update_auth u f v) = update_auth u f (drop_sessions P v)"
  by (simp add: drop_sessions_def update_auth_def)

definition reset_post :: "'st api_state \<Rightarrow> api_request \<Rightarrow> string option \<Rightarrow> string option \<Rightarrow> account_view
    \<Rightarrow> api_response \<Rightarrow> account_view \<Rightarrow> bool" where
  "reset_post S R token new_password v r v' \<longleftrightarrow>
     (if succeeded r then
        (\<exists>t password digest u expires sessions f. token = Some t \<and> new_password = Some password
          \<and> cf_minimum_password_length (ap_config S) \<le> length password
          \<and> vw_reset v (hash_token (ap_crypto S) t) = Some (u, expires) \<and> rq_clock R 0 \<le> expires
          \<and> (never_fails (ao_user_auth (ap_store S) u) \<and> vw_user v u \<noteq> None \<longrightarrow> \<not> ua_disabled (vw_auth v u))
          \<and> ax_hash_password (ap_crypto S) (rq_salt R) password = Inr digest \<and> revoked S u v sessions
          \<and> (f = login_state 0 None None \<or> f = id \<and> \<not> never_fails (ao_set_login_state (ap_store S) u 0 None None))
          \<and> v' = (update_auth u (f \<circ> ua_password_digest_update (\<lambda>_. Some digest)) v)
                   \<lparr>vw_session := sessions, vw_reset := (vw_reset v)(hash_token (ap_crypto S) t := None)\<rparr>)
      else v' = v \<or> (\<exists>t. token = Some t \<and> v' = v\<lparr>vw_reset := (vw_reset v)(hash_token (ap_crypto S) t := None)\<rparr>))"

lemma change_post_refused: "\<not> succeeded r \<Longrightarrow> change_post S R current cp np v r v'"
  by (simp add: change_post_def)

lemma change_finish:
  assumes s: "creates_session n w s v'" and "ax_hash_password (ap_crypto S) (rq_salt R) p = Inr digest" "\<not> too_short S p"
    "password_confirmed (ap_crypto S) (vw_auth v u) cp" "vw_user v u = Some y" "u = us_id (cu_user current)"
    "ns_user_id n = u" "ns_token_hash n = hash_token (ap_crypto S) (rq_token R)"
    and w: "w = update_auth u (ua_password_digest_update (\<lambda>_. Some digest)) v
              \<and> \<not> never_fails (ao_delete_sessions_for_user (ap_store S) u)
            \<or> w = drop_sessions (\<lambda>s. as_user_id s = u) (update_auth u (ua_password_digest_update (\<lambda>_. Some digest)) v)"
  shows "change_post S R current cp (Some p) v (render_success c d) v'"
proof -
  have "revoked S u v (vw_session w)" using w by (auto simp: revoked_def fun_eq_iff)
  moreover have "v' = (update_auth u (ua_password_digest_update (\<lambda>_. Some digest)) v)
      \<lparr>vw_session := (vw_session w)(hash_token (ap_crypto S) (rq_token R) \<mapsto> s)\<rparr>"
    using w s assms(8) by (auto simp: creates_session_def drop_sessions_def update_auth_def)
  ultimately show ?thesis
    unfolding change_post_def using assms(2-8) s not_too_short [OF assms(3)]
    by (intro impI exI [of _ p] exI [of _ digest] exI [of _ s] exI [of _ "vw_session w"] exI [of _ u])
       (simp add: creates_session_def session_of_def)
qed

lemma reset_post_refused: "\<not> succeeded r \<Longrightarrow> reset_post S R token np v r v"
  by (simp add: reset_post_def)

lemma reset_post_consumed:
  "\<not> succeeded r \<Longrightarrow> reset_post S R (Some t) np v r (v\<lparr>vw_reset := (vw_reset v)(hash_token (ap_crypto S) t := None)\<rparr>)"
  by (simp add: reset_post_def)

lemma reset_finish:
  assumes u: "Some u = (case vw_reset v (hash_token (ap_crypto S) t) of None \<Rightarrow> None
      | Some (u, expires) \<Rightarrow> if expires < rq_clock R 0 then None else Some u)"
    and h: "ax_hash_password (ap_crypto S) (rq_salt R) p = Inr digest" "\<not> too_short S p"
    and a: "never_fails (ao_user_auth (ap_store S) u) \<and> vw_user v u \<noteq> None \<longrightarrow> \<not> ua_disabled (vw_auth v u)"
    and w: "\<exists>b w. b = update_auth u (ua_password_digest_update (\<lambda>_. Some digest))
          (v\<lparr>vw_reset := (vw_reset v)(hash_token (ap_crypto S) t := None)\<rparr>)
        \<and> (w = b \<and> \<not> never_fails (ao_delete_sessions_for_user (ap_store S) u) \<or> w = drop_sessions (\<lambda>s. as_user_id s = u) b)
        \<and> (v' = w \<and> \<not> never_fails (ao_set_login_state (ap_store S) u 0 None None) \<or> v' = update_auth u (login_state 0 None None) w)"
  shows "reset_post S R (Some t) (Some p) v (render_success c d) v'"
proof -
  obtain expires where e: "vw_reset v (hash_token (ap_crypto S) t) = Some (u, expires)" "rq_clock R 0 \<le> expires"
    using u by (auto split: option.splits if_splits)
  obtain f where f: "f = login_state 0 None None \<or> f = id \<and> \<not> never_fails (ao_set_login_state (ap_store S) u 0 None None)"
    "v' = (update_auth u (f \<circ> ua_password_digest_update (\<lambda>_. Some digest)) v)
       \<lparr>vw_session := vw_session v', vw_reset := (vw_reset v)(hash_token (ap_crypto S) t := None)\<rparr>"
    using w that [of "login_state 0 None None"] that [of id]
    by (elim exE conjE disjE) (simp_all add: update_auth_def drop_sessions_def comp_def)
  have "revoked S u v (vw_session v')" using w by (auto simp: revoked_def drop_sessions_def)
  with e f h a not_too_short [OF h(2)] show ?thesis
    unfolding reset_post_def
    by (simp only: succeeded_success if_True, intro exI [of _ t] exI [of _ p] exI [of _ digest] exI [of _ u] exI [of _ expires]
        exI [of _ "vw_session v'"] exI [of _ f]) simp
qed

context account_store
begin

lemma session_middleware_runs:
  assumes S: "ap_store S = A"
    and cont: "\<And>current v1. runs ok V k v1 (next current) (post current v1)"
  shows "runs ok V (k + 2) v (session_middleware S R next) (session_post S R v post)"
proof -
  have "runs ok V k v1 (next current) (session_post S R v post)"
    if "session_user (hash_token (ap_crypto S) (bearer_token R)) v = Some (s, u)" "bearer_token R \<noteq> []"
      "rq_clock R 0 < as_expires_at s" "current = \<lparr>cu_user = u, cu_token_hash = hash_token (ap_crypto S) (bearer_token R)\<rparr>"
      "v1 = v \<or> v1 = v\<lparr>vw_session := map_option (touch (as_id s) (rq_clock R 0)
                 (rq_clock R 0 + days_span (cf_session_timeout_days (ap_config S)))) \<circ> vw_session v\<rparr>" for v1 s u current
    by (rule runs_post [OF cont]) (use that in \<open>auto simp: session_post_def\<close>)
  then show ?thesis
    unfolding session_middleware_def Let_def S
    by (intro runs_rules) (auto simp: contract_defs intro!: session_post_refused runs_rules dest: sym)
qed

lemma change_password_runs:
  assumes S: "ap_store S = A" and fresh: "vw_session v (hash_token (ap_crypto S) (rq_token R)) = None"
  shows "runs ok V 6 v (change_password S R current cp np) (change_post S R current cp np v)"
  unfolding change_password_def Let_def S audit_def issue_session_def issue_session_with_oidc_logout_def with_digest_def
  by (intro runs_rules; clarsimp simp: contract_defs fresh change_post_refused split: if_split_asm;
      (erule change_finish [OF _ _ _ _ _ refl], assumption); simp add: S)

lemma password_reset_complete_runs:
  assumes S: "ap_store S = A"
  shows "runs ok V 6 v (password_reset_complete S R token np) (reset_post S R token np v)"
  unfolding password_reset_complete_def Let_def S audit_def with_digest_def
  by (intro runs_rules; clarsimp simp: contract_defs reset_post_refused consumes_reset_def reset_post_consumed is_disabled_def split: if_split_asm;
      (erule reset_finish, assumption); auto simp: S)

end


definition logout_post :: "current_user \<Rightarrow> account_view \<Rightarrow> api_response \<Rightarrow> account_view \<Rightarrow> bool" where
  "logout_post current v r v' \<longleftrightarrow>
     v' = (if succeeded r then drop_sessions (\<lambda>s. as_token_hash s = cu_token_hash current) v else v)"

text \<open>The answer to a reset request does not depend on the accounts.\<close>

definition reset_request_post :: "'st api_state \<Rightarrow> api_request \<Rightarrow> (string \<Rightarrow> string \<Rightarrow> bool) \<Rightarrow> string option \<Rightarrow> account_view
    \<Rightarrow> api_response \<Rightarrow> account_view \<Rightarrow> bool" where
  "reset_request_post S R same_mail email v r v' \<longleftrightarrow>
     r = (if \<not> ap_auth_store S then unavailable
          else if email = None \<or> email = Some [] then render_parameter_missing ''param is missing or the value is empty: email_address''
          else reset_requested)
     \<and> (v' = v
        \<or> (\<exists>e u. email = Some e \<and> vw_user v (us_id u) = Some u \<and> same_mail (us_email_address u) e
             \<and> (never_fails (ao_user_auth (ap_store S) (us_id u)) \<longrightarrow> \<not> ua_disabled (vw_auth v (us_id u)))
             \<and> v' = v\<lparr>vw_reset := (vw_reset v)(hash_token (ap_crypto S) (rq_token R)
                        \<mapsto> (us_id u, rq_clock R 0 + hours_span (cf_password_reset_expiry_hours (ap_config S))))\<rparr>))"

definition totp_change_post :: "(user_auth \<Rightarrow> bool) \<Rightarrow> (user_auth \<Rightarrow> user_auth) \<Rightarrow> Id \<Rightarrow> account_view \<Rightarrow> api_response \<Rightarrow> account_view \<Rightarrow> bool" where
  "totp_change_post guard change u v r v' \<longleftrightarrow>
     (if succeeded r then guard (vw_auth v u) \<and> v' = update_auth u change v else v' = v)"

lemma keep_totp_secret: "ua_totp_secret a = Some s \<Longrightarrow> a\<lparr>ua_totp_secret := Some s, ua_totp_enabled := e\<rparr> = a\<lparr>ua_totp_enabled := e\<rparr>"
  by (cases a) simp

context account_store
begin

lemma runs_deliver:
  assumes S: "ap_store S = A" and "0 < k" "runs ok V (k - 1) v c Q"
  shows "runs ok V k v (deliver_app_mail S mail c) Q"
  unfolding runs_def
proof (intro allI impI, elim conjE)
  fix n st r st' assume st: "ok (n + k) st" "V st = v" and run: "deliver_app_mail S mail c st = (r, st')"
  obtain b st1 where d: "ao_deliver_mail A mail st = (b, st1)" by (cases "ao_deliver_mail A mail st")
  have "ok (Suc (n + (k - 1))) st" using st(1) \<open>0 < k\<close> by simp
  from deliver_mail [OF this d] st(2) have "ok (n + (k - 1)) st1" "V st1 = v" by auto
  with assms(3) run d S show "ok n st' \<and> Q r (V st')" by (auto simp: deliver_app_mail_def runs_def)
qed

lemma logout_runs:
  assumes S: "ap_store S = A"
  shows "runs ok V 3 v (logout S R current) (logout_post current v)"
  unfolding logout_def Let_def S audit_def
  by (intro runs_rules) (simp_all add: contract_defs logout_post_def)

lemma password_reset_request_runs:
  assumes S: "ap_store S = A" and fresh: "vw_reset v (hash_token (ap_crypto S) (rq_token R)) = None"
  shows "runs ok V 5 v (password_reset_request S R email) (reset_request_post S R same_mail email v)"
  unfolding password_reset_request_def Let_def audit_def S
  by (intro runs_rules runs_deliver [OF S])
     (auto simp: contract_defs reset_request_post_def fresh is_disabled_def S split: if_split_asm)

lemma totp_enroll_runs:
  assumes S: "ap_store S = A"
  shows "runs ok V 1 v (totp_enroll S R current)
    (totp_change_post (\<lambda>_. True) (\<lambda>a. a\<lparr>ua_totp_secret := Some (rq_secret R), ua_totp_enabled := False\<rparr>) (us_id (cu_user current)) v)"
  unfolding totp_enroll_def Let_def S
  by (intro runs_rules) (simp_all add: contract_defs totp_change_post_def)

lemma totp_activate_runs:
  assumes S: "ap_store S = A"
  shows "runs ok V 3 v (totp_activate S R current code)
    (totp_change_post (\<lambda>a. \<exists>secret c. ua_totp_secret a = Some secret \<and> code = Some c \<and> verify_totp (ap_crypto S) secret c (timestamp (rq_clock R 0)))
       (\<lambda>a. a\<lparr>ua_totp_enabled := True\<rparr>) (us_id (cu_user current)) v)"
  unfolding totp_activate_def Let_def S audit_def
  by (intro runs_rules; clarsimp simp: contract_defs totp_change_post_def split: if_split_asm)
     (simp add: update_auth_def keep_totp_secret)

lemma totp_disable_runs:
  assumes S: "ap_store S = A"
  shows "runs ok V 3 v (totp_disable S R current password)
    (totp_change_post (\<lambda>a. password_confirmed (ap_crypto S) a password)
       (\<lambda>a. a\<lparr>ua_totp_secret := None, ua_totp_enabled := False\<rparr>) (us_id (cu_user current)) v)"
  unfolding totp_disable_def Let_def S audit_def
  by (intro runs_rules) (auto simp: contract_defs totp_change_post_def split: if_split_asm)

end


section \<open>What accepting an invitation guarantees\<close>

definition accept_post :: "'st api_state \<Rightarrow> api_request \<Rightarrow> accept_body \<Rightarrow> (string \<Rightarrow> string \<Rightarrow> bool) \<Rightarrow> instant \<Rightarrow> account_view
    \<Rightarrow> api_response \<Rightarrow> account_view \<Rightarrow> bool" where
  "accept_post S R body same_mail now v r v' \<longleftrightarrow>
     (if succeeded r then
        (\<exists>t i u. ab_token body = Some t \<and> vw_invitation v (hash_token (ap_crypto S) t) = Some i
          \<and> invitation_usable (rq_clock R 0) i
          \<and> (if \<exists>j w. vw_user v j = Some w \<and> same_mail (us_email_address w) (iv_email_address i)
             then vw_user v (us_id u) = Some u \<and> same_mail (us_email_address u) (iv_email_address i)
               \<and> vw_user v' = vw_user v \<and> vw_auth v' = vw_auth v \<and> vw_session v' = vw_session v
             else (\<exists>p digest s. vw_user v (us_id u) = None \<and> us_email_address u = iv_email_address i \<and> \<not> us_admin u
               \<and> ab_password body = Some p \<and> cf_minimum_password_length (ap_config S) \<le> length p
               \<and> ax_hash_password (ap_crypto S) (rq_salt R) p = Inr digest
               \<and> vw_user v' = (vw_user v)(us_id u \<mapsto> u)
               \<and> vw_auth v' = (vw_auth v)(us_id u := (vw_auth v (us_id u))\<lparr>ua_password_digest := Some digest\<rparr>)
               \<and> as_user_id s = us_id u \<and> vw_session v' = (vw_session v)(hash_token (ap_crypto S) (rq_token R) \<mapsto> s)))
          \<and> vw_role v' = (vw_role v)(iv_organization_id i := (vw_role v (iv_organization_id i))(us_id u \<mapsto> iv_role i))
          \<and> vw_invitation v' = vw_invitation (map_invitations (accept_invitation (iv_id i) now) v))
      else vw_session v' = vw_session v)"

lemma set_role_fields [simp]:
  "vw_session (set_role o' u r v) = vw_session v" "vw_user (set_role o' u r v) = vw_user v" "vw_auth (set_role o' u r v) = vw_auth v"
  "vw_invitation (set_role o' u r v) = vw_invitation v" "vw_reset (set_role o' u r v) = vw_reset v"
  "vw_role (set_role o' u r v) = (vw_role v)(o' := (vw_role v o')(u := r))"
  by (simp_all add: set_role_def)

lemma map_invitations_fields [simp]:
  "vw_session (map_invitations f v) = vw_session v" "vw_user (map_invitations f v) = vw_user v" "vw_auth (map_invitations f v) = vw_auth v"
  "vw_role (map_invitations f v) = vw_role v" "vw_reset (map_invitations f v) = vw_reset v"
  "vw_invitation (map_invitations f v) h = Option.bind (vw_invitation v h) f"
  by (simp_all add: map_invitations_def)

lemma accept_post_refused: "\<not> succeeded r \<Longrightarrow> vw_session v' = vw_session v \<Longrightarrow> accept_post S R body same_mail now v r v'"
  by (simp add: accept_post_def)

lemma accept_existing:
  assumes "ab_token body = Some t" "Some i = vw_invitation v (hash_token (ap_crypto S) t)" "invitation_usable (rq_clock R 0) i"
    "vw_user v (us_id u) = Some u" "same_mail (us_email_address u) (iv_email_address i)"
  shows "accept_post S R body same_mail now v (render_success c d)
    (map_invitations (accept_invitation (iv_id i) now) (set_role (iv_organization_id i) (us_id u) (Some (iv_role i)) v))"
proof -
  have "\<exists>j w. vw_user v j = Some w \<and> same_mail (us_email_address w) (iv_email_address i)" using assms(4,5) by blast
  with assms show ?thesis
    unfolding accept_post_def
    by (simp only: succeeded_success if_True, intro exI [of _ t] exI [of _ i] exI [of _ u]) (auto simp: fun_eq_iff)
qed

lemma accept_created:
  assumes s: "creates_session n (map_invitations (accept_invitation (iv_id i) now) (set_role (iv_organization_id i) (us_id u) (Some (iv_role i))
        (update_auth (us_id u) (ua_password_digest_update (\<lambda>_. Some digest)) (v\<lparr>vw_user := (vw_user v)(us_id u \<mapsto> u)\<rparr>)))) s v'"
    and t: "ab_token body = Some t" "Some i = vw_invitation v (hash_token (ap_crypto S) t)" "invitation_usable (rq_clock R 0) i"
    and p: "ab_password body = Some p" "ax_hash_password (ap_crypto S) (rq_salt R) p = Inr digest" "\<not> too_short S p"
    and new: "\<forall>j w. vw_user v j = Some w \<longrightarrow> \<not> same_mail (us_email_address w) (iv_email_address i)"
    and u: "us_email_address u = iv_email_address i" "\<not> us_admin u" "vw_user v (us_id u) = None"
    and n: "ns_user_id n = us_id u" "ns_token_hash n = hash_token (ap_crypto S) (rq_token R)"
  shows "accept_post S R body same_mail now v (render_success c d) v'"
proof -
  have none: "\<not> (\<exists>j w. vw_user v j = Some w \<and> same_mail (us_email_address w) (iv_email_address i))" using new by blast
  have "as_user_id s = us_id u" "vw_session v' = (vw_session v)(hash_token (ap_crypto S) (rq_token R) \<mapsto> s)"
    "vw_user v' = (vw_user v)(us_id u \<mapsto> u)" "vw_auth v' = (vw_auth v)(us_id u := (vw_auth v (us_id u))\<lparr>ua_password_digest := Some digest\<rparr>)"
    "vw_role v' = (vw_role v)(iv_organization_id i := (vw_role v (iv_organization_id i))(us_id u \<mapsto> iv_role i))"
    "vw_invitation v' = vw_invitation (map_invitations (accept_invitation (iv_id i) now) v)"
    using s n by (auto simp: creates_session_def session_of_def fun_eq_iff)
  with t p u not_too_short [OF p(3)] show ?thesis
    unfolding accept_post_def
    by (simp only: succeeded_success if_True, intro exI [of _ t] exI [of _ i] exI [of _ u]) (auto simp: none)
qed

context account_store
begin

lemma invitation_accept_runs:
  assumes S: "ap_store S = A" and fresh: "vw_session v (hash_token (ap_crypto S) (rq_token R)) = None"
  shows "runs ok V 10 v (invitation_accept S R body) (accept_post S R body same_mail now v)"
  unfolding invitation_accept_def invited_account_def user_registered_def emit_def Let_def S audit_def with_digest_def
    issue_session_def issue_session_with_oidc_logout_def
  by (intro runs_rules; clarsimp simp: contract_defs upserts_membership_def creates_user_def fresh accept_post_refused split: if_split_asm;
      (((erule accept_created, assumption+); simp) | ((erule accept_existing, assumption+); simp)))

end


section \<open>Lockout\<close>

text \<open>One account has the address.\<close>

definition only_account :: "(string \<Rightarrow> string \<Rightarrow> bool) \<Rightarrow> account_view \<Rightarrow> string \<Rightarrow> user \<Rightarrow> bool" where
  "only_account same_mail v email u \<longleftrightarrow>
     vw_user v (us_id u) = Some u \<and> same_mail (us_email_address u) email
     \<and> (\<forall>i w. vw_user v i = Some w \<and> same_mail (us_email_address w) email \<longrightarrow> w = u)"

definition reliable_login :: "'st auth_ops \<Rightarrow> bool" where
  "reliable_login A \<longleftrightarrow>
     (\<forall>e. never_fails (ao_user_by_email A e)) \<and> (\<forall>u. never_fails (ao_user_auth A u))
     \<and> (\<forall>u k l t. never_fails (ao_set_login_state A u k l t))"

definition after_failure :: "'st api_state \<Rightarrow> instant \<Rightarrow> user_auth \<Rightarrow> user_auth" where
  "after_failure S now a =
     (let attempts = (ua_failed_login_attempts a + 1) mod 2 ^ 32 in
      login_state attempts (if cf_max_login_attempts (ap_config S) \<le> attempts
                            then Some (now + minutes_span (cf_lockout_minutes (ap_config S))) else None) None a)"

context account_store
begin

lemma reliable_loginD:
  assumes "reliable_login A"
  shows "never_fails (ao_user_by_email A e)" "never_fails (ao_user_auth A i)" "never_fails (ao_set_login_state A i k l t)"
  using assms by (simp_all add: reliable_login_def)

lemma login_found:
  assumes S: "ap_store S = A" "ap_auth_store S" and total: "reliable_login A" and u: "only_account same_mail v email u"
    and body: "lb_email_address body = Some email" "lb_password body = Some password" "email \<noteq> []" "password \<noteq> []"
    and rest: "runs ok V 4 v (login_checked S R body email password u (vw_auth v (us_id u))) Q"
  shows "runs ok V 6 v (login S R body) Q"
proof -
  have vu: "vw_user v (us_id u) = Some u" and uniq: "\<And>i w. vw_user v i = Some w \<Longrightarrow> same_mail (us_email_address w) email \<Longrightarrow> w = u"
    and mail: "same_mail (us_email_address u) email" using u by (auto simp: only_account_def)
  show ?thesis
    unfolding login_def S(1) body with_accounts_def required_def using S(2) body(3,4)
    by (simp, intro runs_rules)
       (use reliable_loginD [OF total] rest vu mail in \<open>auto simp: contract_defs dest: uniq\<close>)
qed

lemma login_wrong_password_runs:
  assumes S: "ap_store S = A" "ap_auth_store S" and total: "reliable_login A" and u: "only_account same_mail v email u"
    and body: "lb_email_address body = Some email" "lb_password body = Some password" "email \<noteq> []" "password \<noteq> []"
    and a: "\<not> ua_disabled (vw_auth v (us_id u))" "\<not> locked_at (rq_clock R 0) (vw_auth v (us_id u))"
    and wrong: "\<not> password_matches (ap_crypto S) password (vw_auth v (us_id u))"
  shows "runs ok V 6 v (login S R body)
    (\<lambda>r v'. r = invalid_credentials \<and> v' = update_auth (us_id u) (after_failure S (rq_clock R 0)) v)"
proof (rule login_found [OF S total u body])
  show "runs ok V 4 v (login_checked S R body email password u (vw_auth v (us_id u)))
    (\<lambda>r v'. r = invalid_credentials \<and> v' = update_auth (us_id u) (after_failure S (rq_clock R 0)) v)"
    unfolding login_checked_def Let_def if_not_P [OF a(1)] if_not_P [OF a(2)] if_P [OF wrong] failed_attempt_def audit_def S
    by (intro runs_rules) (simp_all add: reliable_loginD [OF total] contract_defs update_auth_def after_failure_def Let_def)
qed

lemma login_locked_runs:
  assumes S: "ap_store S = A" "ap_auth_store S" and total: "reliable_login A" and u: "only_account same_mail v email u"
    and body: "lb_email_address body = Some email" "lb_password body = Some password" "email \<noteq> []" "password \<noteq> []"
    and a: "\<not> ua_disabled (vw_auth v (us_id u))" "locked_at (rq_clock R 0) (vw_auth v (us_id u))"
  shows "runs ok V 6 v (login S R body) (\<lambda>r v'. rs_status r = 403 \<and> \<not> succeeded r \<and> v' = v)"
proof (rule login_found [OF S total u body])
  show "runs ok V 4 v (login_checked S R body email password u (vw_auth v (us_id u))) (\<lambda>r v'. rs_status r = 403 \<and> \<not> succeeded r \<and> v' = v)"
    using a by (simp add: login_checked_def Let_def audit_def S, intro runs_rules) (simp_all add: render_api_error_def succeeded_def)
qed

end


text \<open>Requests one after the other.\<close>

fun logins :: "'st api_state \<Rightarrow> (api_request \<times> login_body) list \<Rightarrow> 'st \<Rightarrow> api_response list \<times> 'st" where
  "logins S [] st = ([], st)"
| "logins S ((R, body) # rest) st =
     (case login S R body st of (r, st1) \<Rightarrow> case logins S rest st1 of (rs, st2) \<Rightarrow> (r # rs, st2))"

definition guess :: "'st api_state \<Rightarrow> string \<Rightarrow> user_auth \<Rightarrow> api_request \<times> login_body \<Rightarrow> bool" where
  "guess S email a x \<longleftrightarrow>
     lb_email_address (snd x) = Some email
     \<and> (\<exists>p. lb_password (snd x) = Some p \<and> p \<noteq> [] \<and> \<not> password_matches (ap_crypto S) p a)"

lemma guess_login_state [simp]: "guess S email (login_state k l t a) = guess S email a"
  by (simp add: guess_def fun_eq_iff login_state_def password_matches_def)

lemma only_account_update_auth [simp]: "only_account same_mail (update_auth i f v) = only_account same_mail v"
  by (simp add: only_account_def fun_eq_iff)

lemma after_failure_less:
  assumes "ua_failed_login_attempts a + 1 < cf_max_login_attempts (ap_config S)" "cf_max_login_attempts (ap_config S) < 2 ^ 32"
  shows "after_failure S t a = login_state (ua_failed_login_attempts a + 1) None None a"
  using assms by (simp add: after_failure_def)

context account_store
begin

lemma logins_wrong:
  assumes S: "ap_store S = A" "ap_auth_store S" and total: "reliable_login A" and max: "cf_max_login_attempts (ap_config S) < 2 ^ 32"
  shows "ok (n + 6 * length xs) st \<Longrightarrow> only_account same_mail (V st) email u \<Longrightarrow> email \<noteq> [] \<Longrightarrow> xs \<noteq> []
     \<Longrightarrow> vw_auth (V st) (us_id u) = a \<Longrightarrow> \<not> ua_disabled a \<Longrightarrow> ua_locked_until a = None
     \<Longrightarrow> ua_failed_login_attempts a + length xs = cf_max_login_attempts (ap_config S) \<Longrightarrow> \<forall>x \<in> set xs. guess S email a x
     \<Longrightarrow> logins S xs st = (rs, st')
     \<Longrightarrow> ok n st' \<and> (\<forall>r \<in> set rs. r = invalid_credentials)
       \<and> (\<exists>k. V st' = update_auth (us_id u) (login_state k (Some (rq_clock (fst (last xs)) 0 + minutes_span (cf_lockout_minutes (ap_config S)))) None) (V st))"
proof (induction xs arbitrary: st a rs)
  case (Cons x xs)
  obtain R body where x: "x = (R, body)" by (cases x)
  obtain p where p: "lb_email_address body = Some email" "lb_password body = Some p" "p \<noteq> []" "\<not> password_matches (ap_crypto S) p a"
    using Cons.prems(9) by (auto simp: x guess_def)
  obtain r st1 rs' where run: "login S R body st = (r, st1)" "logins S xs st1 = (rs', st')" "rs = r # rs'"
    using Cons.prems(10) by (auto simp: x split: prod.splits)
  have okst: "ok (n + 6 * length xs + 6) st" using Cons.prems(1) by (simp add: ac_simps)
  have "\<not> locked_at (rq_clock R 0) a" using Cons.prems(7) by (simp add: locked_at_def)
  then have step: "ok (n + 6 * length xs) st1" "r = invalid_credentials"
      "V st1 = update_auth (us_id u) (after_failure S (rq_clock R 0)) (V st)"
    using runsD [OF login_wrong_password_runs [OF S total Cons.prems(2) p(1,2) Cons.prems(3) p(3)] okst run(1)]
      Cons.prems(5,6) p(4) by auto
  show ?case
  proof (cases "xs = []")
    case True
    with run(2) have "st' = st1" "rs' = []" by auto
    moreover have "after_failure S (rq_clock R 0) a
        = login_state (cf_max_login_attempts (ap_config S)) (Some (rq_clock R 0 + minutes_span (cf_lockout_minutes (ap_config S)))) None a"
      using Cons.prems(8) True max by (simp add: after_failure_def Let_def)
    ultimately show ?thesis
      using step True run(3) Cons.prems(5) by (auto simp: x update_auth_def intro!: exI [of _ "cf_max_login_attempts (ap_config S)"])
  next
    case False
    then have "ua_failed_login_attempts a + 1 < cf_max_login_attempts (ap_config S)"
      using Cons.prems(8) by (cases xs) auto
    note af = after_failure_less [OF this max]
    have va: "vw_auth (V st1) (us_id u) = login_state (ua_failed_login_attempts a + 1) None None a"
      using step(3) af Cons.prems(5) by simp
    have "ok n st' \<and> (\<forall>r \<in> set rs'. r = invalid_credentials)
       \<and> (\<exists>k. V st' = update_auth (us_id u) (login_state k (Some (rq_clock (fst (last xs)) 0 + minutes_span (cf_lockout_minutes (ap_config S)))) None) (V st1))"
      using Cons.prems(2-9) step(1,3) False
      by (intro Cons.IH [OF step(1) _ _ False va _ _ _ _ run(2)]) (simp_all, simp_all add: login_state_def)
    then show ?thesis
      using step(2,3) run(3) False Cons.prems(5) af by (auto simp: x update_auth_def login_state_def)
  qed
qed simp

end

end
