(* ===== verification/Membership_Api.thy ===== *)
theory Membership_Api
  imports Access_Control Account_Api
begin

text \<open>
  Members and invitations of an organization (\<open>api/memberships.rs\<close>) and the creation of
  organizations (\<open>api/app.rs\<close>): only owners handle owners, an owner stays, and what a request
  through the middleware can change.
\<close>

section \<open>Members\<close>

definition member_json :: "'st api_state \<Rightarrow> organization_membership \<Rightarrow> json \<Rightarrow> json" where
  "member_json S x u = JObject [(''created_at'', JString (ap_rfc3339 S (om_created_at x))),
     (''role'', JString (role_as_str (om_role x))), (''user'', u)]"

definition invitation_fields :: "'st api_state \<Rightarrow> invitation \<Rightarrow> (string \<times> json) list" where
  "invitation_fields S i =
     [(''accepted_at'', case iv_accepted_at i of Some t \<Rightarrow> JString (ap_rfc3339 S t) | None \<Rightarrow> JNull),
      (''email_address'', JString (iv_email_address i)), (''expires_at'', JString (ap_rfc3339 S (iv_expires_at i))),
      (''id'', JNumber (show_nat (iv_id i))), (''role'', JString (role_as_str (iv_role i))), (''uuid'', JString (iv_uuid i))]"

definition with_organization :: "'st api_state \<Rightarrow> string \<Rightarrow> (organization \<Rightarrow> 'st handler) \<Rightarrow> 'st handler" where
  "with_organization S permalink k =
     with_accounts S (call (ao_organization_by_permalink (ap_store S) permalink) (\<lambda>found.
     case found of Some o' \<Rightarrow> k o' | None \<Rightarrow> answer render_not_found))"

text \<open>The number of owners, 0 when the storage fails.\<close>

definition with_owner_count :: "'st api_state \<Rightarrow> Id \<Rightarrow> (nat \<Rightarrow> 'st handler) \<Rightarrow> 'st handler" where
  "with_owner_count S organization_id k =
     attempt_call (ao_memberships_for_organization (ap_store S) organization_id) (\<lambda>members.
     k (case members of Inr ms \<Rightarrow> length (filter (\<lambda>(x, _). om_role x = Owner) ms) | Inl _ \<Rightarrow> 0))"

definition members_index :: "'st api_state \<Rightarrow> string \<Rightarrow> 'st handler" where
  "members_index S permalink =
     with_organization S permalink (\<lambda>organization.
     call (ao_memberships_for_organization (ap_store S) (org_id organization)) (\<lambda>members.
     answer (render_success 200 (JObject [(''members'', JArray (map (\<lambda>(x, u). member_json S x (user_json u)) members))]))))"

definition role_error :: api_response where
  "role_error = render_validation_error ''role must be one of viewer, member, admin, owner''"

definition keep_owner_error :: api_response where
  "keep_owner_error = render_validation_error ''The organization must keep at least one owner''"

definition already_member :: api_response where
  "already_member = render_validation_error ''User is already a member of this organization''"

definition is_member :: "store_error + organization_membership option \<Rightarrow> bool" where
  "is_member r = (case r of Inr (Some _) \<Rightarrow> True | _ \<Rightarrow> False)"

definition members_create :: "'st api_state \<Rightarrow> acting_role \<Rightarrow> string \<Rightarrow> string option \<Rightarrow> string option \<Rightarrow> 'st handler" where
  "members_create S acting permalink email_address role_name =
     (let A = ap_store S in
      with_organization S permalink (\<lambda>organization.
      required ''email_address'' email_address (\<lambda>email.
      case Option.bind role_name role_parse of
        None \<Rightarrow> answer role_error
      | Some r \<Rightarrow>
      if r = Owner \<and> \<not> acts_as_owner acting then answer (forbidden ''Only owners can grant the owner role'')
      else
      call (ao_user_by_email A email) (\<lambda>found.
      case found of
        None \<Rightarrow> answer (render_validation_error (''No account exists for this email address ''
                  @ [CHR 0xE2, CHR 0x80, CHR 0x94] @ '' send an invitation instead''))
      | Some user \<Rightarrow>
      attempt_call (ao_membership A (org_id organization) (us_id user)) (\<lambda>existing.
      if is_member existing then answer already_member
      else
      call (ao_upsert_membership A (org_id organization) (us_id user) r) (\<lambda>membership.
      answer (render_success 201 (JObject [(''member'', member_json S membership (user_json user))]))))))))"

definition role_event :: "Id \<Rightarrow> string \<Rightarrow> new_auth_event" where
  "role_event u event = \<lparr>ne_user_id = Some u, ne_email_address = None, ne_event = event, ne_ip_address = None, ne_user_agent = None\<rparr>"

definition members_update :: "'st api_state \<Rightarrow> acting_role \<Rightarrow> string \<Rightarrow> Id \<Rightarrow> string option \<Rightarrow> 'st handler" where
  "members_update S acting permalink u role_name =
     (let A = ap_store S in
      with_organization S permalink (\<lambda>organization.
      case Option.bind role_name role_parse of
        None \<Rightarrow> answer role_error
      | Some r \<Rightarrow>
      call (ao_membership A (org_id organization) u) (\<lambda>found.
      case found of
        None \<Rightarrow> answer render_not_found
      | Some existing \<Rightarrow>
      if (r = Owner \<or> om_role existing = Owner) \<and> \<not> acts_as_owner acting then answer (forbidden ''Only owners can change owner roles'')
      else
      let change =
        ignore (ao_record_auth_event A (role_event u (''membership.role_change.'' @ role_as_str r)))
        (call (ao_upsert_membership A (org_id organization) u r) (\<lambda>membership.
         answer (render_success 200 (JObject [(''member'', JObject
           [(''created_at'', JString (ap_rfc3339 S (om_created_at membership))), (''role'', JString (role_as_str (om_role membership))),
            (''user_id'', JNumber (show_nat (om_user_id membership)))])]))))
      in
      if om_role existing = Owner \<and> r \<noteq> Owner then
        with_owner_count S (org_id organization) (\<lambda>n. if n \<le> 1 then answer keep_owner_error else change)
      else change)))"

definition members_destroy :: "'st api_state \<Rightarrow> acting_role \<Rightarrow> string \<Rightarrow> Id \<Rightarrow> 'st handler" where
  "members_destroy S acting permalink u =
     (let A = ap_store S in
      with_organization S permalink (\<lambda>organization.
      call (ao_membership A (org_id organization) u) (\<lambda>found.
      case found of
        None \<Rightarrow> answer render_not_found
      | Some existing \<Rightarrow>
      let remove =
        call (ao_delete_membership A (org_id organization) u) (\<lambda>deleted.
        if deleted then
          ignore (ao_record_auth_event A (role_event u ''membership.removed''))
          (answer (render_success 200 (JObject [(''deleted'', JBool True)])))
        else answer render_not_found)
      in
      if om_role existing = Owner then
        if \<not> acts_as_owner acting then answer (forbidden ''Only owners can remove an owner'')
        else with_owner_count S (org_id organization) (\<lambda>n. if n \<le> 1 then answer keep_owner_error else remove)
      else remove)))"

section \<open>Invitations\<close>

definition invitations_index :: "'st api_state \<Rightarrow> string \<Rightarrow> 'st handler" where
  "invitations_index S permalink =
     with_organization S permalink (\<lambda>organization.
     call (ao_list_invitations (ap_store S) (org_id organization)) (\<lambda>invitations.
     answer (render_success 200 (JObject [(''invitations'', JArray (map (\<lambda>i. JObject (invitation_fields S i)) invitations))]))))"

definition invite_url :: "'st api_state \<Rightarrow> string \<Rightarrow> string option" where
  "invite_url S token = map_option (\<lambda>base. trim_end_matches (\<lambda>c. c = CHR ''/'') base @ ''/invitations/accept?token='' @ token)
     (cf_frontend_url (ap_config S))"

text \<open>
  \<open>data\<close> is the invitation with the two fields added, its keys in order. The address is looked up
  twice, and a failure of either lookup lets the invitation through.
\<close>

definition invitations_create :: "'st api_state \<Rightarrow> api_request \<Rightarrow> acting_role \<Rightarrow> principal \<Rightarrow> string \<Rightarrow> string option \<Rightarrow> string option
    \<Rightarrow> 'st handler" where
  "invitations_create S R acting p permalink email_address role_name =
     (let A = ap_store S; cf = ap_config S in
      with_organization S permalink (\<lambda>organization.
      required ''email_address'' (case email_address of Some e \<Rightarrow> if CHR ''@'' \<in> set e then Some e else None | None \<Rightarrow> None) (\<lambda>email.
      case (case role_name of None \<Rightarrow> Some Member | Some value \<Rightarrow> role_parse value) of
        None \<Rightarrow> answer role_error
      | Some r \<Rightarrow>
      if r = Owner \<and> \<not> acts_as_owner acting then answer (forbidden ''Only owners can grant the owner role'')
      else
      let create =
        call (ao_create_invitation A
          \<lparr>ni_organization_id = org_id organization, ni_email_address = email, ni_role = r,
           ni_token_hash = hash_token (ap_crypto S) (rq_token R),
           ni_invited_by_user_id = (case principal_user p of Some u \<Rightarrow> us_id u | None \<Rightarrow> 0),
           ni_expires_at = rq_clock R 0 + days_span (cf_invitation_expiry_days cf)\<rparr>) (\<lambda>invitation.
        ignore (ao_record_auth_event A
          \<lparr>ne_user_id = map_option us_id (principal_user p), ne_email_address = Some email, ne_event = ''invitation.created'',
           ne_ip_address = None, ne_user_agent = None\<rparr>)
        (let url = invite_url S (rq_token R);
             fields = invitation_fields S invitation;
             data = take 4 fields @ [(''invite_token'', JString (rq_token R))]
                    @ (case url of Some link \<Rightarrow> [(''invite_url'', JString link)] | None \<Rightarrow> []) @ drop 4 fields;
             created = answer (render_success 201 (JObject [(''invitation'', JObject data)]))
         in
         case url of
           Some link \<Rightarrow>
             if cf_app_mail_enabled cf then
               deliver_app_mail S (invitation_mail (iv_email_address invitation) (org_name organization) link (cf_invitation_expiry_days cf)) created
             else created
         | None \<Rightarrow> created))
      in
      attempt_call (ao_user_by_email A email) (\<lambda>found.
      case found of
        Inr (Some user) \<Rightarrow>
          attempt_call (ao_membership A (org_id organization) (us_id user)) (\<lambda>existing.
          if is_member existing then answer already_member else create)
      | _ \<Rightarrow> create))))"

definition invitations_destroy :: "'st api_state \<Rightarrow> string \<Rightarrow> Id \<Rightarrow> 'st handler" where
  "invitations_destroy S permalink i =
     with_organization S permalink (\<lambda>organization.
     call (ao_delete_invitation (ap_store S) (org_id organization) i) (\<lambda>deleted.
     if deleted then answer (render_success 200 (JObject [(''deleted'', JBool True)])) else answer render_not_found))"

definition optional_text :: "string option \<Rightarrow> json" where
  "optional_text x = (case x of Some s \<Rightarrow> JString s | None \<Rightarrow> JNull)"

definition auth_event_json :: "'st api_state \<Rightarrow> auth_event \<Rightarrow> json" where
  "auth_event_json S e = JObject
     [(''created_at'', JString (ap_rfc3339 S (av_created_at e))), (''email_address'', optional_text (av_email_address e)),
      (''event'', JString (av_event e)), (''id'', JNumber (show_nat (av_id e))), (''ip_address'', optional_text (av_ip_address e)),
      (''user_agent'', optional_text (av_user_agent e)),
      (''user_id'', case av_user_id e of Some i \<Rightarrow> JNumber (show_nat i) | None \<Rightarrow> JNull)]"

definition auth_events_index :: "'st api_state \<Rightarrow> nat option \<Rightarrow> 'st handler" where
  "auth_events_index S limit =
     with_accounts S (call (ao_list_auth_events (ap_store S) (max 1 (min 1000 (case limit of Some n \<Rightarrow> n | None \<Rightarrow> 100)))) (\<lambda>events.
     answer (render_success 200 (JObject [(''auth_events'', JArray (map (auth_event_json S) events))]))))"

section \<open>Creating an organization\<close>

text \<open>A character outside ASCII is one dash in the code and several here, which the split drops.\<close>

definition permalink_from :: "(string \<Rightarrow> string) \<Rightarrow> string \<Rightarrow> string" where
  "permalink_from lc name =
     (let slug = map (\<lambda>c. if is_ascii_alnum c then c else CHR ''-'') (lc name) in
      intercalate ''-'' (filter (\<lambda>p. p \<noteq> []) (split_on (CHR ''-'') slug)))"

definition organization_json :: "organization \<Rightarrow> json" where
  "organization_json x = JObject
     [(''id'', JNumber (show_nat (org_id x))), (''name'', JString (org_name x)), (''permalink'', JString (org_permalink x)),
      (''require_two_factor'', JBool (org_require_two_factor x)), (''uuid'', JString (org_uuid x))]"

definition organization_created :: "'st api_state \<Rightarrow> api_request \<Rightarrow> organization \<Rightarrow> user option \<Rightarrow> 'st handler \<Rightarrow> 'st handler" where
  "organization_created S R x by =
     emit S \<lparr>le_id = rq_uuid R, le_event = ''organization.created'', le_created_at = rq_clock R 1,
              le_data = JObject [(''organization'', organization_data x), (''user'', case by of Some u \<Rightarrow> user_data u | None \<Rightarrow> JNull)]\<rparr>"

definition organizations_create :: "'st api_state \<Rightarrow> api_request \<Rightarrow> principal \<Rightarrow> string option \<Rightarrow> string option \<Rightarrow> 'st handler" where
  "organizations_create S R p name permalink =
     required ''name'' name (\<lambda>name.
     let permalink = (case permalink of Some x \<Rightarrow> if x = [] then permalink_from (ap_lowercase S) name else x | None \<Rightarrow> permalink_from (ap_lowercase S) name) in
     call (ao_create_organization (ap_store S) \<lparr>no_name = name, no_permalink = permalink\<rparr>) (\<lambda>organization.
     let created = organization_created S R organization (principal_user p)
           (answer (render_success 201 (JObject [(''organization'', organization_json organization)])))
     in
     case principal_user p of
       Some u \<Rightarrow>
         if ap_auth_store S then call (ao_upsert_membership (ap_store S) (org_id organization) (us_id u) Owner) (\<lambda>_. created) else created
     | None \<Rightarrow> created))"

section \<open>What the handlers change\<close>

text \<open>
  A change of one role in the organization with this permalink: only owners make, change or remove
  owners, and an owner loses the role only while another member has it.
\<close>

definition other_owner :: "account_view \<Rightarrow> Id \<Rightarrow> Id \<Rightarrow> bool" where
  "other_owner v x u \<longleftrightarrow> (\<exists>w. w \<noteq> u \<and> vw_role v x w = Some Owner \<and> vw_user v w \<noteq> None)"

definition role_change_post :: "acting_role \<Rightarrow> string \<Rightarrow> account_view \<Rightarrow> account_view \<Rightarrow> bool" where
  "role_change_post acting permalink v v' \<longleftrightarrow>
     v' = v
     \<or> (\<exists>o' u r. vw_org v (org_id o') = Some o' \<and> org_permalink o' = permalink \<and> v' = set_role (org_id o') u r v
          \<and> (vw_role v (org_id o') u = Some Owner \<or> r = Some Owner \<longrightarrow> acts_as_owner acting)
          \<and> (vw_role v (org_id o') u = Some Owner \<and> r \<noteq> Some Owner \<longrightarrow>
               other_owner v (org_id o') u))"

definition updated_role :: "string \<Rightarrow> Id \<Rightarrow> role option \<Rightarrow> account_view \<Rightarrow> account_view \<Rightarrow> bool" where
  "updated_role permalink u r v v' \<longleftrightarrow>
     (\<exists>o'. vw_org v (org_id o') = Some o' \<and> org_permalink o' = permalink \<and> vw_role v (org_id o') u \<noteq> None
        \<and> v' = set_role (org_id o') u r v)"

definition has_owner :: "account_view \<Rightarrow> Id \<Rightarrow> bool" where
  "has_owner v o' \<longleftrightarrow> (\<exists>u. vw_role v o' u = Some Owner \<and> vw_user v u \<noteq> None)"

lemma role_change_keeps_owner:
  assumes "role_change_post acting permalink v v'" "has_owner v x"
  shows "has_owner v' x"
proof -
  from assms(2) obtain u where u: "vw_role v x u = Some Owner" "vw_user v u \<noteq> None" unfolding has_owner_def by blast
  show ?thesis
  proof (cases "vw_role v' x u = Some Owner \<and> vw_user v' u \<noteq> None")
    case False
    with assms(1) u show ?thesis unfolding role_change_post_def has_owner_def other_owner_def by (auto split: if_splits)
  qed (auto simp: has_owner_def)
qed

lemma owner_of_list:
  assumes "lists_members x v ms" "\<not> length (filter (\<lambda>(m, _). om_role m = Owner) ms) \<le> Suc 0"
  shows "other_owner v x u"
proof (rule ccontr)
  assume none: "\<not> ?thesis"
  let ?os = "filter (\<lambda>(m, _). om_role m = Owner) ms"
  have "om_user_id (fst p) = u" if "p \<in> set ?os" for p
  proof -
    obtain m y where p: "p = (m, y)" by (cases p)
    with that have "(m, y) \<in> set ms" "om_role m = Owner" by auto
    then have "vw_role v x (om_user_id m) = Some Owner \<and> vw_user v (om_user_id m) \<noteq> None"
      using assms(1) unfolding lists_members_def by blast
    with none p show ?thesis by (auto simp: other_owner_def)
  qed
  then have "set (map (om_user_id \<circ> fst) ?os) \<subseteq> {u}" by auto
  moreover have "distinct (map (om_user_id \<circ> fst) ?os)"
    using assms(1) by (simp add: lists_members_def distinct_map_filter)
  ultimately have "length ?os \<le> 1"
    using card_mono [of "{u}" "set (map (om_user_id \<circ> fst) ?os)"] distinct_card [of "map (om_user_id \<circ> fst) ?os"] by simp
  with assms(2) show False by simp
qed

lemma membership_errors [simp]:
  "\<not> succeeded role_error" "\<not> succeeded keep_owner_error" "\<not> succeeded already_member" "\<not> succeeded (forbidden m)"
  by (simp_all add: role_error_def keep_owner_error_def already_member_def forbidden_def)

context account_store
begin

lemma with_organization_runs:
  assumes S: "ap_store S = A" and k: "0 < k" and refuse: "\<And>r. \<not> succeeded r \<Longrightarrow> Q r v"
    and found: "\<And>o'. vw_org v (org_id o') = Some o' \<Longrightarrow> org_permalink o' = p \<Longrightarrow> runs ok V (k - 1) v (c o') Q"
  shows "runs ok V k v (with_organization S p c) Q"
  unfolding with_organization_def S
  by (intro runs_rules) (use k in \<open>auto simp: reads_some_def finds_organization_def simp del: One_nat_def intro!: refuse found\<close>)

text \<open>
  \<open>members_create\<close> takes a failed lookup for \<open>not a member\<close> and overwrites the role, so the statement
  needs a lookup that does not fail.
\<close>

lemma role_changeI:
  assumes "vw_org v (org_id o') = Some o'" "org_permalink o' = p"
    "vw_role v (org_id o') u = Some Owner \<or> r = Some Owner \<Longrightarrow> acts_as_owner acting"
    "vw_role v (org_id o') u = Some Owner \<Longrightarrow> r \<noteq> Some Owner \<Longrightarrow> other_owner v (org_id o') u"
  shows "role_change_post acting p v (set_role (org_id o') u r v)"
  using assms unfolding role_change_post_def by blast

lemma updated_roleI:
  "vw_org v (org_id o') = Some o' \<Longrightarrow> org_permalink o' = p \<Longrightarrow> Some r' = vw_role v (org_id o') u
    \<Longrightarrow> updated_role p u r v (set_role (org_id o') u r v)"
  unfolding updated_role_def by (metis option.discI)

lemma role_change_refl: "role_change_post acting p v v"
  by (simp add: role_change_post_def)

lemma members_create_runs:
  assumes S: "ap_store S = A" and "\<And>x u. never_fails (ao_membership A x u)"
  shows "runs ok V 4 v (members_create S acting p email role_name) (\<lambda>r v'. role_change_post acting p v v')"
  unfolding members_create_def Let_def S
  by (rule with_organization_runs [OF S]; (intro runs_rules)?)
     (use assms(2) in \<open>auto simp: contract_defs finds_membership_def is_member_def upserts_membership_def
        split: sum.splits option.splits intro!: role_change_refl role_changeI\<close>)

lemma members_update_runs:
  assumes S: "ap_store S = A"
  shows "runs ok V 5 v (members_update S acting p u role_name)
    (\<lambda>r v'. role_change_post acting p v v'
       \<and> (succeeded r \<longrightarrow> (\<exists>ro. Option.bind role_name role_parse = Some ro \<and> updated_role p u (Some ro) v v')))"
  unfolding members_update_def Let_def S with_owner_count_def
  by (rule with_organization_runs [OF S]; (intro runs_rules)?)
     (auto simp: contract_defs finds_membership_def upserts_membership_def
        split: sum.splits intro!: role_change_refl role_changeI updated_roleI intro: owner_of_list)

lemma members_destroy_runs:
  assumes S: "ap_store S = A"
  shows "runs ok V 5 v (members_destroy S acting p u)
    (\<lambda>r v'. role_change_post acting p v v'
       \<and> (succeeded r \<longrightarrow> updated_role p u None v v'))"
  unfolding members_destroy_def Let_def S with_owner_count_def
  by (rule with_organization_runs [OF S]; (intro runs_rules)?)
     (auto simp: contract_defs finds_membership_def upserts_membership_def
        split: sum.splits intro!: role_change_refl role_changeI updated_roleI intro: owner_of_list)

end


section \<open>A request for the people of an organization\<close>

text \<open>
  The routes under \<open>/api/v2/admin/organizations/{permalink}/members\<close>. The middleware sees the path of
  the request; the web framework hands the handler the segment after percent-decoding, which is the
  parameter \<open>decode\<close>.
\<close>

datatype people_request =
    CreateMember "string option" "string option"
  | UpdateMember Id "string option"
  | DestroyMember Id

primrec people_method :: "people_request \<Rightarrow> http_method" where
  "people_method (CreateMember email r) = POST"
| "people_method (UpdateMember u r) = PATCH"
| "people_method (DestroyMember u) = DELETE"

definition people_path :: "string \<Rightarrow> people_request \<Rightarrow> string" where
  "people_path raw q = ''/api/v2/admin/organizations/'' @ raw @ ''/members''
     @ (case q of CreateMember _ _ \<Rightarrow> [] | UpdateMember u _ \<Rightarrow> CHR ''/'' # show_nat u | DestroyMember u \<Rightarrow> CHR ''/'' # show_nat u)"

primrec people_handler :: "'st api_state \<Rightarrow> string \<Rightarrow> people_request \<Rightarrow> acting_role \<Rightarrow> 'st handler" where
  "people_handler S permalink (CreateMember email r) a = members_create S a permalink email r"
| "people_handler S permalink (UpdateMember u r) a = members_update S a permalink u r"
| "people_handler S permalink (DestroyMember u) a = members_destroy S a permalink u"

definition people :: "'st api_state \<Rightarrow> api_request \<Rightarrow> (string \<Rightarrow> string) \<Rightarrow> string \<Rightarrow> people_request \<Rightarrow> 'st handler" where
  "people S R decode raw q =
     auth_middleware S R (people_method q) (people_path raw q) (\<lambda>p a. people_handler S (decode raw) q a)"

definition path_segment :: "string \<Rightarrow> bool" where
  "path_segment s \<longleftrightarrow> s \<noteq> [] \<and> CHR ''/'' \<notin> set s"

text \<open>Who the caller is, for organization \<open>x\<close>: an administrator, or an owner where owners are concerned.\<close>

definition may_manage :: "'st api_state \<Rightarrow> api_request \<Rightarrow> account_view \<Rightarrow> Id \<Rightarrow> bool \<Rightarrow> bool" where
  "may_manage S R v x owner \<longleftrightarrow>
     (\<exists>s u. session_user (hash_token (ap_crypto S) (bearer_token R)) v = Some (s, u) \<and> rq_clock R 0 < as_expires_at s
        \<and> (us_admin u \<or> (\<exists>r. vw_role v x (us_id u) = Some r \<and> Admin \<le> r \<and> (owner \<longrightarrow> r = Owner))))
     \<or> (\<exists>key scope. header_str R ''x-admin-api-key'' = Some key \<and> key_known S v key scope
        \<and> (scope_is_global scope \<or> scope = \<lparr>ks_organization_id = Some x, ks_server_id = None\<rparr>))"

definition people_post :: "'st api_state \<Rightarrow> api_request \<Rightarrow> string \<Rightarrow> account_view \<Rightarrow> account_view \<Rightarrow> bool" where
  "people_post S R permalink v v' \<longleftrightarrow>
     (\<forall>x u. vw_role v' x u \<noteq> vw_role v x u \<longrightarrow>
        (\<exists>o'. vw_org v x = Some o' \<and> org_permalink o' = permalink)
        \<and> may_manage S R v x (vw_role v x u = Some Owner \<or> vw_role v' x u = Some Owner))
     \<and> (\<forall>x. has_owner v x \<longrightarrow> has_owner v' x)"

lemma people_segments:
  assumes "path_segment raw"
  shows "\<exists>tail. path_segments (people_path raw q) = ''organizations'' # raw # ''members'' # tail \<and> tail \<noteq> [''servers'']"
proof -
  have one: "split_on (CHR ''/'') s = [s]" if "CHR ''/'' \<notin> set s" for s using that by (induction s) auto
  have digits: "CHR ''/'' \<notin> set (show_nat u)" "show_nat u \<noteq> []" "show_nat u \<noteq> ''servers''" for u
    using show_nat_digits [of u] by (auto simp: list_all_iff is_ascii_digit_def)
  define t where "t = (case q of CreateMember _ _ \<Rightarrow> [] | UpdateMember u _ \<Rightarrow> CHR ''/'' # show_nat u | DestroyMember u \<Rightarrow> CHR ''/'' # show_nat u)"
  have "path_segments (people_path raw q) = filter (\<lambda>s. s \<noteq> []) (split_on (CHR ''/'') (''/organizations/'' @ raw @ ''/members'' @ t))"
    by (simp add: path_segments_def people_path_def strip_prefix_def t_def)
  moreover have "split_on (CHR ''/'') (''members'' @ t) = ''members'' # (case q of CreateMember _ _ \<Rightarrow> [] | UpdateMember u _ \<Rightarrow> [show_nat u] | DestroyMember u \<Rightarrow> [show_nat u])"
    using digits by (cases q) (simp_all add: t_def one)
  ultimately have "path_segments (people_path raw q) = ''organizations'' # raw # ''members''
      # (case q of CreateMember _ _ \<Rightarrow> [] | UpdateMember u _ \<Rightarrow> [show_nat u] | DestroyMember u \<Rightarrow> [show_nat u])"
    using assms digits split_on_append [of "CHR ''/''" raw "''members'' @ t"]
    by (cases q) (simp_all add: path_segment_def)
  then show ?thesis using digits by (cases q) auto
qed

lemma granted_may_manage:
  assumes g: "granted S R (people_method q) (people_path raw q) v p a" and raw: "path_segment raw" and uniq: "unique_permalinks v"
    and o': "vw_org v (org_id o') = Some o'" "org_permalink o' = raw" and owner: "owner \<Longrightarrow> acts_as_owner a"
  shows "may_manage S R v (org_id o') owner"
proof -
  obtain tail where segs: "path_segments (people_path raw q) = ''organizations'' # raw # ''members'' # tail"
    using people_segments [OF raw] by blast
  have same: "x = o'" if "path_names (path_segments (people_path raw q)) rest x v" for rest x
    using that o' uniq by (auto simp: path_names_def segs unique_permalinks_def)
  have req: "required_role (''members'' # tail) (people_method q) = Admin" by (cases q) (simp_all add: required_role_def Let_def)
  show ?thesis
  proof (cases p)
    case (AdminKey scope)
    with g have key: "\<exists>key. header_str R ''x-admin-api-key'' = Some key \<and> key_known S v key scope"
      and "scope_is_global scope \<or> in_scope scope (path_segments (people_path raw q)) v" by (auto simp: granted_def)
    then have "scope_is_global scope \<or> scope = \<lparr>ks_organization_id = Some (org_id o'), ks_server_id = None\<rparr>"
      using same by (cases scope) (auto simp: in_scope_def path_names_def segs split: option.splits)
    with key show ?thesis by (auto simp: may_manage_def)
  next
    case (SessionUser u)
    with g obtain s where s: "session_user (hash_token (ap_crypto S) (bearer_token R)) v = Some (s, u)" "rq_clock R 0 < as_expires_at s"
      and r: "role_granted S u (path_segments (people_path raw q)) (people_method q) v a" by (auto simp: granted_def)
    have "us_admin u \<or> (\<exists>r. vw_role v (org_id o') (us_id u) = Some r \<and> Admin \<le> r \<and> (owner \<longrightarrow> r = Owner))"
    proof (cases a)
      case None
      with r show ?thesis by (simp add: role_granted_def segs)
    next
      case (Some ro)
      with r obtain rest x where x: "path_names (path_segments (people_path raw q)) rest x v" "vw_role v (org_id x) (us_id u) = Some ro"
        "required_role rest (people_method q) \<le> ro" by (auto simp: role_granted_def)
      then have "rest = ''members'' # tail" by (auto simp: path_names_def segs)
      with x same [OF x(1)] req owner Some show ?thesis by (auto simp: acts_as_owner_def)
    qed
    with s show ?thesis by (auto simp: may_manage_def)
  qed
qed

lemma people_postI:
  assumes g: "granted S R (people_method q) (people_path raw q) v p a" and "path_segment raw" "unique_permalinks v"
    and v1: "same_but_sessions v v1" and c: "role_change_post a raw v1 v'"
  shows "people_post S R raw v v'"
proof -
  have same: "vw_role v1 = vw_role v" "vw_org v1 = vw_org v" "vw_user v1 = vw_user v"
    using v1 by (auto simp: same_but_sessions_def)
  have "has_owner v' x" if "has_owner v x" for x
    using role_change_keeps_owner [OF c, of x] that by (simp add: has_owner_def same)
  moreover have "(\<exists>o'. vw_org v x = Some o' \<and> org_permalink o' = raw) \<and> may_manage S R v x (vw_role v x u = Some Owner \<or> vw_role v' x u = Some Owner)"
    if "vw_role v' x u \<noteq> vw_role v x u" for x u
  proof -
    from that have "v' \<noteq> v1" by (auto simp: same)
    with c obtain o' w r where o': "vw_org v (org_id o') = Some o'" "org_permalink o' = raw" and v': "v' = set_role (org_id o') w r v1"
      and owner: "vw_role v (org_id o') w = Some Owner \<or> r = Some Owner \<longrightarrow> acts_as_owner a"
      unfolding role_change_post_def same by blast
    from v' that have "x = org_id o'" "u = w" by (auto simp: same split: if_splits)
    moreover have "may_manage S R v (org_id o') (vw_role v (org_id o') w = Some Owner \<or> r = Some Owner)"
      by (rule granted_may_manage [OF assms(1-3) o']) (use owner in blast)
    ultimately show ?thesis using o' v' by (simp add: same)
  qed
  ultimately show ?thesis by (simp add: people_post_def)
qed

context account_store
begin

lemma people_handler_runs:
  assumes "ap_store S = A" "\<And>x u. never_fails (ao_membership A x u)"
  shows "runs ok V 5 v (people_handler S permalink q a) (\<lambda>r v'. role_change_post a permalink v v')"
proof (cases q)
  case (CreateMember email r)
  then show ?thesis using runs_more [OF members_create_runs [OF assms] _ budget_ok, of 5] by simp
next
  case (UpdateMember u r)
  then show ?thesis using runs_post [OF members_update_runs [OF assms(1)]] by simp
next
  case (DestroyMember u)
  then show ?thesis using runs_post [OF members_destroy_runs [OF assms(1)]] by simp
qed

lemma people_runs:
  assumes "ap_store S = A" "\<And>x u. never_fails (ao_membership A x u)" "path_segment raw" "unique_permalinks v" "decode raw = raw"
  shows "runs ok V 10 v (people S R decode raw q) (\<lambda>r v'. people_post S R raw v v')"
proof -
  have refl: "people_post S R raw v v1" if "same_but_sessions v v1" for v1
    using that by (auto simp: people_post_def same_but_sessions_def has_owner_def)
  have "runs ok V (5 + 5) v (people S R decode raw q) (\<lambda>r v'. people_post S R raw v v')"
    unfolding people_def assms(5)
  proof (rule auth_middleware_runs [OF assms(1,4)])
    fix p a v1 assume "granted S R (people_method q) (people_path raw q) v p a" "same_but_sessions v v1"
    then show "runs ok V 5 v1 (people_handler S raw q a) (\<lambda>r v'. people_post S R raw v v')"
      by (intro runs_post [OF people_handler_runs [OF assms(1,2)]] people_postI [OF _ assms(3,4)])
  qed (rule refl)
  then show ?thesis by simp
qed

end

end
