(* ===== verification/Id_Table.thy ===== *)
theory Id_Table
  imports Mail_Model
begin

text \<open>
  Tables of rows by id, as the stores of accounts keep them: lookup by a second key, update in
  place, deletion, and the invariant that ids and keys are unique.
\<close>

definition find_value :: "('v \<Rightarrow> bool) \<Rightarrow> ('k \<times> 'v) list \<Rightarrow> 'v option" where
  "find_value P t = List.find P (map snd t)"

definition al_modify :: "'k \<Rightarrow> ('v \<Rightarrow> 'v) \<Rightarrow> ('k \<times> 'v) list \<Rightarrow> ('k \<times> 'v) list" where
  "al_modify k f t = (case map_of t k of None \<Rightarrow> t | Some v \<Rightarrow> al_insert k (f v) t)"

text \<open>\<open>Vec::remove\<close> of the first element that matches.\<close>

fun remove_first :: "('a \<Rightarrow> bool) \<Rightarrow> 'a list \<Rightarrow> 'a list" where
  "remove_first P [] = []"
| "remove_first P (x # xs) = (if P x then xs else x # remove_first P xs)"

section \<open>Tables\<close>

lemma find_map_list: "List.find P (map g xs) = map_option g (List.find (\<lambda>x. P (g x)) xs)"
  by (induction xs) auto

lemma find_filter_key:
  "distinct (map f xs) \<Longrightarrow>
   List.find (\<lambda>x. f x = k) (filter Q xs)
   = (case List.find (\<lambda>x. f x = k) xs of None \<Rightarrow> None | Some x \<Rightarrow> if Q x then Some x else None)"
proof (induction xs)
  case (Cons x xs)
  have "List.find (\<lambda>x. f x = k) (filter Q xs) = None" if "f x = k"
    using Cons.prems that by (auto simp: find_None_iff image_iff)
  with Cons show ?case by auto
qed simp

lemma al_insert_fresh: "k \<notin> fst ` set t \<Longrightarrow> al_insert k v t = t @ [(k, v)]"
  by (induction t) auto

lemma al_insert_present:
  "distinct (map fst t) \<Longrightarrow> map_of t k = Some w \<Longrightarrow> al_insert k v t = map (\<lambda>(k', x). (k', if k' = k then v else x)) t"
proof (induction t)
  case (Cons p t)
  have "map (\<lambda>(k', x). (k', if k' = k then v else x)) t = t" if "k \<notin> fst ` set t"
    using that by (intro map_idI) (auto simp: image_iff)
  with Cons show ?case by (cases p) (auto split: if_splits)
qed simp

definition map_key :: "'k \<Rightarrow> ('v \<Rightarrow> 'v) \<Rightarrow> ('k \<times> 'v) list \<Rightarrow> ('k \<times> 'v) list" where
  "map_key k f t = map (\<lambda>(k', x). (k', if k' = k then f x else x)) t"

lemma al_modify_map_key: "distinct (map fst t) \<Longrightarrow> al_modify k f t = map_key k f t"
proof (cases "map_of t k")
  case None
  then have "map_key k f t = t" unfolding map_key_def map_of_eq_None_iff by (intro map_idI) (auto simp: image_iff)
  with None show ?thesis by (simp add: al_modify_def)
next
  case (Some v)
  assume "distinct (map fst t)"
  then have "\<forall>(k', x) \<in> set t. k' = k \<longrightarrow> x = v" using Some by (auto dest!: map_of_SomeD dest: map_of_is_SomeI eq_key_imp_eq_value)
  then show ?thesis
    using \<open>distinct (map fst t)\<close> Some al_insert_present [of t k v "f v"] by (auto simp: al_modify_def map_key_def)
qed

text \<open>A table whose ids are below the counter and whose rows have distinct keys.\<close>

definition id_table_ok :: "nat \<Rightarrow> ('v \<Rightarrow> Id) \<Rightarrow> ('v \<Rightarrow> 'k) \<Rightarrow> (Id \<times> 'v) list \<Rightarrow> bool" where
  "id_table_ok bound ident key t \<longleftrightarrow>
     distinct (map fst t) \<and> (\<forall>(k, v) \<in> set t. k = ident v \<and> k < bound) \<and> distinct (map (key \<circ> snd) t)"

definition by_key :: "('v \<Rightarrow> 'k) \<Rightarrow> 'k \<Rightarrow> (Id \<times> 'v) list \<Rightarrow> 'v option" where
  "by_key key k t = find_value (\<lambda>v. key v = k) t"

lemma id_table_mono: "id_table_ok b ident key t \<Longrightarrow> b \<le> b' \<Longrightarrow> id_table_ok b' ident key t"
  by (auto simp: id_table_ok_def)

lemma by_key_SomeD: "by_key key k t = Some v \<Longrightarrow> key v = k \<and> v \<in> snd ` set t"
  by (force simp: by_key_def find_value_def dest!: find_SomeD)

lemma by_key_None: "by_key key k t = None \<longleftrightarrow> k \<notin> key ` snd ` set t"
  by (auto simp: by_key_def find_value_def find_None_iff)

lemma id_table_append:
  assumes "id_table_ok b ident key t" "ident v = b" "by_key key (key v) t = None"
  shows "al_insert b v t = t @ [(b, v)]" "id_table_ok (Suc b) ident key (t @ [(b, v)])"
    "by_key key k (t @ [(b, v)]) = (if k = key v then Some v else by_key key k t)"
proof -
  have fresh: "b \<notin> fst ` set t" using assms(1) by (fastforce simp: id_table_ok_def)
  then show "al_insert b v t = t @ [(b, v)]" by (rule al_insert_fresh)
  have "key v \<notin> key ` snd ` set t" using assms(3) by (simp add: by_key_None)
  then show "id_table_ok (Suc b) ident key (t @ [(b, v)])"
    using assms(1,2) fresh by (fastforce simp: id_table_ok_def image_image)
  show "by_key key k (t @ [(b, v)]) = (if k = key v then Some v else by_key key k t)"
    using assms(3) by (auto simp: by_key_def find_value_def find_append split: option.split)
qed

lemma id_table_map_key:
  assumes "id_table_ok b ident key t" "\<And>v. ident (f v) = ident v" "\<And>v. key (f v) = key v"
  shows "id_table_ok b ident key (map_key i f t)"
    "by_key key k (map_key i f t) = map_option (\<lambda>v. if ident v = i then f v else v) (by_key key k t)"
proof -
  have keys: "map fst (map_key i f t) = map fst t" "map (key \<circ> snd) (map_key i f t) = map (key \<circ> snd) t"
    by (auto simp: map_key_def assms(3))
  have "\<forall>(k, v) \<in> set (map_key i f t). k = ident v \<and> k < b"
    using assms(1,2) by (auto simp: map_key_def id_table_ok_def)
  then show "id_table_ok b ident key (map_key i f t)"
    using assms(1) unfolding id_table_ok_def keys by blast
  have "map snd (map_key i f t) = map (\<lambda>v. if ident v = i then f v else v) (map snd t)"
    using assms(1) by (auto simp: map_key_def id_table_ok_def)
  then show "by_key key k (map_key i f t) = map_option (\<lambda>v. if ident v = i then f v else v) (by_key key k t)"
    by (simp add: by_key_def find_value_def find_map_list if_distrib [of key] assms(3) option.map_comp comp_def cong: if_cong)
qed

lemma id_table_filter:
  assumes "id_table_ok b ident key t"
  shows "id_table_ok b ident key (filter (\<lambda>(_, v). Q v) t)"
    "by_key key k (filter (\<lambda>(_, v). Q v) t) = (case by_key key k t of None \<Rightarrow> None | Some v \<Rightarrow> if Q v then Some v else None)"
proof -
  show "id_table_ok b ident key (filter (\<lambda>(_, v). Q v) t)"
    using assms by (auto simp: id_table_ok_def distinct_map_filter)
  have "map snd (filter (\<lambda>(_, v). Q v) t) = filter Q (map snd t)" by (induction t) auto
  then show "by_key key k (filter (\<lambda>(_, v). Q v) t) = (case by_key key k t of None \<Rightarrow> None | Some v \<Rightarrow> if Q v then Some v else None)"
    using assms by (simp add: by_key_def find_value_def find_filter_key id_table_ok_def)
qed

lemma table_value: "id_table_ok b ident key t \<Longrightarrow> v \<in> snd ` set t \<Longrightarrow> map_of t (ident v) = Some v"
  by (force simp: id_table_ok_def)

lemma table_map_of: "id_table_ok b ident key t \<Longrightarrow> map_of t i = Some v \<Longrightarrow> ident v = i \<and> v \<in> snd ` set t"
  by (force simp: id_table_ok_def dest!: map_of_SomeD)

lemma find_value_SomeD: "find_value P t = Some v \<Longrightarrow> P v \<and> v \<in> snd ` set t"
  by (auto simp: find_value_def find_Some_iff)

lemma find_value_None: "find_value P t = None \<longleftrightarrow> (\<forall>v \<in> snd ` set t. \<not> P v)"
  by (auto simp: find_value_def find_None_iff)

lemma al_remove_key:
  assumes "id_table_ok b ident key t" "List.find (\<lambda>(_, v). key v = k) t = Some (i, w)"
  shows "al_remove i t = filter (\<lambda>(_, v). key v \<noteq> k) t"
proof -
  have w: "(i, w) \<in> set t" "key w = k" using assms(2) by (force dest!: find_SomeD)+
  have "fst p = i \<longleftrightarrow> key (snd p) = k" if "p \<in> set t" for p
  proof
    assume "fst p = i"
    with w(1) that assms(1) have "p = (i, w)" by (cases p) (auto simp: id_table_ok_def dest: eq_key_imp_eq_value)
    with w(2) show "key (snd p) = k" by simp
  next
    assume "key (snd p) = k"
    moreover have "inj_on (key \<circ> snd) (set t)" using assms(1) by (simp add: id_table_ok_def distinct_map)
    ultimately show "fst p = i" using w that by (force dest: inj_onD [of _ _ p "(i, w)"])
  qed
  then show ?thesis unfolding al_remove_def by (intro filter_cong) auto
qed

lemma map_filter_Some: "List.map_filter (\<lambda>m. map_option (\<lambda>x. (m, x)) (f m)) ms = map (\<lambda>m. (m, the (f m))) (filter (\<lambda>m. f m \<noteq> None) ms)"
  by (induction ms) (auto simp: map_filter_simps split: option.split)

lemma by_key_Some_iff:
  assumes "id_table_ok b ident key t"
  shows "by_key key k t = Some v \<longleftrightarrow> v \<in> snd ` set t \<and> key v = k"
proof
  assume v: "v \<in> snd ` set t \<and> key v = k"
  then have "by_key key k t \<noteq> None" unfolding by_key_None by blast
  then obtain w where w: "by_key key k t = Some w" by blast
  moreover have "inj_on key (set (map snd t))" using assms by (fastforce simp: id_table_ok_def distinct_map inj_on_def)
  ultimately have "w = v" using v by_key_SomeD [OF w] by (auto dest: inj_onD)
  with w show "by_key key k t = Some v" by simp
qed (auto dest: by_key_SomeD)

lemma find_key:
  assumes "List.find (\<lambda>(_, v). key v = k) t = Some (i, w)"
  shows "by_key key k t = Some w" "(i, w) \<in> set t" "key w = k"
  using assms by (induction t) (auto simp: by_key_def find_value_def split: if_splits)

lemma find_key_None: "List.find (\<lambda>(_, v). key v = k) t = None \<Longrightarrow> by_key key k t = None"
  by (force simp: by_key_None find_None_iff)

lemma al_insert_modify: "map_of t i = Some w \<Longrightarrow> al_insert i (f w) t = al_modify i f t"
  by (simp add: al_modify_def)

lemma remove_first_key: "distinct (map f xs) \<Longrightarrow> remove_first (\<lambda>x. f x = k) xs = filter (\<lambda>x. f x \<noteq> k) xs"
proof (induction xs)
  case (Cons x xs)
  have "filter (\<lambda>y. f y \<noteq> k) xs = xs" if "f x = k"
    using Cons.prems that by (intro filter_True) (auto simp: image_iff)
  with Cons show ?case by auto
qed simp

end
