(* ===== verification/Mem_Accounts.thy ===== *)
theory Mem_Accounts
  imports Membership_Api Id_Table "HOL-Library.List_Lexorder" "HOL-Library.Char_ord"
begin

text \<open>
  The account operations of the in-memory store (\<open>core/auth_store.rs\<close> and the account part of
  \<open>core/admin_store.rs\<close>), and the interpretation of \<open>account_store\<close> on them.
\<close>

section \<open>The in-memory store\<close>

record account_env =
  ae_now :: instant
  ae_uuid :: "Id \<Rightarrow> string"
  ae_hash :: "string \<Rightarrow> string"

record mem_accounts =
  ma_store :: memory_store
  ma_users :: "(Id \<times> user) list"
  ma_user_auth :: "(Id \<times> user_auth) list"
  ma_sessions :: "(Id \<times> auth_session) list"
  ma_memberships :: "(Id \<times> organization_membership) list"
  ma_invitations :: "(Id \<times> invitation) list"
  ma_password_resets :: "(Id \<times> string \<times> instant) list"
  ma_oidc_states :: "(string \<times> string \<times> string \<times> instant) list"
  ma_sso_identities :: "((string \<times> string) \<times> Id) list"
  ma_webauthn :: "(Id \<times> webauthn_credential) list"
  ma_webauthn_states :: "(string \<times> Id option \<times> string \<times> instant) list"
  ma_saml_requests :: "(string \<times> instant) list"
  ma_saml_assertions :: "(string \<times> instant) list"
  ma_auth_events :: "auth_event list"
  ma_admin_api_keys :: "(string \<times> admin_api_key) list"

definition mem_next_id :: "mem_accounts \<Rightarrow> Id \<times> mem_accounts" where
  "mem_next_id st = (case next_id (ma_store st) of (ms, i) \<Rightarrow> (i, st\<lparr>ma_store := ms\<rparr>))"

definition mem_user_by_email :: "string \<Rightarrow> (mem_accounts, user option) op" where
  "mem_user_by_email email st =
     (Inr (find_value (\<lambda>u. eq_ignore_ascii_case (us_email_address u) email) (ma_users st)), st)"

definition auth_or_default :: "Id \<Rightarrow> mem_accounts \<Rightarrow> user_auth" where
  "auth_or_default u st = (case map_of (ma_user_auth st) u of Some a \<Rightarrow> a | None \<Rightarrow> user_auth_default u)"

definition mem_user_auth :: "Id \<Rightarrow> (mem_accounts, user_auth option) op" where
  "mem_user_auth u st =
     (Inr (if map_of (ma_users st) u = None then None else Some (auth_or_default u st)), st)"

text \<open>\<open>entry(user_id).or_insert_with(...)\<close> and the assignment to the entry.\<close>

definition modify_auth :: "Id \<Rightarrow> (user_auth \<Rightarrow> user_auth) \<Rightarrow> mem_accounts \<Rightarrow> mem_accounts" where
  "modify_auth u f st = st\<lparr>ma_user_auth := al_insert u (f (auth_or_default u st)) (ma_user_auth st)\<rparr>"

definition mem_set_password_digest :: "Id \<Rightarrow> string \<Rightarrow> (mem_accounts, unit) op" where
  "mem_set_password_digest u digest st =
     (Inr (), modify_auth u (\<lambda>a. a\<lparr>ua_password_digest := Some digest\<rparr>) st)"

definition mem_set_totp :: "Id \<Rightarrow> string option \<Rightarrow> bool \<Rightarrow> (mem_accounts, unit) op" where
  "mem_set_totp u secret enabled st =
     (Inr (), modify_auth u (\<lambda>a. a\<lparr>ua_totp_secret := secret, ua_totp_enabled := enabled\<rparr>) st)"

definition mem_set_login_state :: "Id \<Rightarrow> nat \<Rightarrow> instant option \<Rightarrow> instant option \<Rightarrow> (mem_accounts, unit) op" where
  "mem_set_login_state u failed_attempts locked_until last_login_at st =
     (Inr (), modify_auth u (\<lambda>a.
        (let a1 = a\<lparr>ua_failed_login_attempts := failed_attempts, ua_locked_until := locked_until\<rparr> in
         if last_login_at \<noteq> None then a1\<lparr>ua_last_login_at := last_login_at\<rparr> else a1)) st)"

definition mem_set_user_disabled :: "Id \<Rightarrow> bool \<Rightarrow> (mem_accounts, unit) op" where
  "mem_set_user_disabled u disabled st = (Inr (), modify_auth u (\<lambda>a. a\<lparr>ua_disabled := disabled\<rparr>) st)"

definition mem_set_oidc_sub :: "Id \<Rightarrow> string \<Rightarrow> (mem_accounts, unit) op" where
  "mem_set_oidc_sub u sub st = (Inr (), modify_auth u (\<lambda>a. a\<lparr>ua_oidc_sub := Some sub\<rparr>) st)"

definition mem_user_has_two_factor :: "Id \<Rightarrow> (mem_accounts, bool) op" where
  "mem_user_has_two_factor u st =
     (let totp = (case map_of (ma_user_auth st) u of Some a \<Rightarrow> ua_totp_enabled a | None \<Rightarrow> False) in
      (Inr (totp \<or> list_ex (\<lambda>c. wc_user_id c = u) (map snd (ma_webauthn st))), st))"

definition mem_create_session :: "account_env \<Rightarrow> new_auth_session \<Rightarrow> (mem_accounts, auth_session) op" where
  "mem_create_session E new st =
     (let (i, st1) = mem_next_id st;
          s = \<lparr>as_id = i, as_user_id = ns_user_id new, as_token_hash = ns_token_hash new, as_created_at = ae_now E,
               as_expires_at = ns_expires_at new, as_last_used_at = ae_now E, as_ip_address = ns_ip_address new,
               as_user_agent = ns_user_agent new, as_oidc_logout = ns_oidc_logout new\<rparr>
      in (Inr s, st1\<lparr>ma_sessions := al_insert i s (ma_sessions st1)\<rparr>))"

definition mem_session_with_user :: "string \<Rightarrow> (mem_accounts, (auth_session \<times> user) option) op" where
  "mem_session_with_user token_hash st =
     (Inr (case find_value (\<lambda>s. as_token_hash s = token_hash) (ma_sessions st) of
             None \<Rightarrow> None
           | Some s \<Rightarrow> map_option (\<lambda>u. (s, u)) (map_of (ma_users st) (as_user_id s))), st)"

definition mem_touch_session :: "Id \<Rightarrow> instant \<Rightarrow> instant \<Rightarrow> (mem_accounts, unit) op" where
  "mem_touch_session session_id last_used_at expires_at st =
     (Inr (), st\<lparr>ma_sessions := al_modify session_id
        (\<lambda>s. s\<lparr>as_last_used_at := last_used_at, as_expires_at := expires_at\<rparr>) (ma_sessions st)\<rparr>)"

definition mem_delete_session :: "string \<Rightarrow> (mem_accounts, bool) op" where
  "mem_delete_session token_hash st =
     (case List.find (\<lambda>(_, s). as_token_hash s = token_hash) (ma_sessions st) of
        Some (i, _) \<Rightarrow> (Inr (map_of (ma_sessions st) i \<noteq> None), st\<lparr>ma_sessions := al_remove i (ma_sessions st)\<rparr>)
      | None \<Rightarrow> (Inr False, st))"

definition mem_delete_sessions_for_user :: "Id \<Rightarrow> (mem_accounts, nat) op" where
  "mem_delete_sessions_for_user u st =
     (let kept = filter (\<lambda>(_, s). as_user_id s \<noteq> u) (ma_sessions st) in
      (Inr (length (ma_sessions st) - length kept), st\<lparr>ma_sessions := kept\<rparr>))"

definition mem_memberships_for_user :: "Id \<Rightarrow> (mem_accounts, (organization_membership \<times> organization) list) op" where
  "mem_memberships_for_user u st =
     (Inr (sort_key (\<lambda>(_, x). org_name x)
       (List.map_filter (\<lambda>m. map_option (\<lambda>x. (m, x)) (map_of (st_organizations (ma_store st)) (om_organization_id m)))
         (filter (\<lambda>m. om_user_id m = u) (map snd (ma_memberships st))))), st)"

definition mem_membership :: "Id \<Rightarrow> Id \<Rightarrow> (mem_accounts, organization_membership option) op" where
  "mem_membership organization_id u st =
     (Inr (find_value (\<lambda>m. om_organization_id m = organization_id \<and> om_user_id m = u) (ma_memberships st)), st)"

definition mem_memberships_for_organization :: "Id \<Rightarrow> (mem_accounts, (organization_membership \<times> user) list) op" where
  "mem_memberships_for_organization organization_id st =
     (Inr (sort_key (\<lambda>(_, x). us_email_address x)
       (List.map_filter (\<lambda>m. map_option (\<lambda>x. (m, x)) (map_of (ma_users st) (om_user_id m)))
         (filter (\<lambda>m. om_organization_id m = organization_id) (map snd (ma_memberships st))))), st)"

definition mem_upsert_membership :: "account_env \<Rightarrow> Id \<Rightarrow> Id \<Rightarrow> role \<Rightarrow> (mem_accounts, organization_membership) op" where
  "mem_upsert_membership E organization_id u r st =
     (case List.find (\<lambda>(_, m). om_organization_id m = organization_id \<and> om_user_id m = u) (ma_memberships st) of
        Some (i, m) \<Rightarrow>
          (Inr (m\<lparr>om_role := r\<rparr>), st\<lparr>ma_memberships := al_insert i (m\<lparr>om_role := r\<rparr>) (ma_memberships st)\<rparr>)
      | None \<Rightarrow>
          (let (i, st1) = mem_next_id st;
               m = \<lparr>om_id = i, om_organization_id = organization_id, om_user_id = u, om_role = r, om_created_at = ae_now E\<rparr>
           in (Inr m, st1\<lparr>ma_memberships := al_insert i m (ma_memberships st1)\<rparr>)))"

definition mem_delete_membership :: "Id \<Rightarrow> Id \<Rightarrow> (mem_accounts, bool) op" where
  "mem_delete_membership organization_id u st =
     (let kept = filter (\<lambda>(_, m). \<not> (om_organization_id m = organization_id \<and> om_user_id m = u)) (ma_memberships st) in
      (Inr (length kept < length (ma_memberships st)), st\<lparr>ma_memberships := kept\<rparr>))"

definition mem_create_invitation :: "account_env \<Rightarrow> new_invitation \<Rightarrow> (mem_accounts, invitation) op" where
  "mem_create_invitation E new st =
     (if list_ex (\<lambda>i. iv_organization_id i = ni_organization_id new
             \<and> eq_ignore_ascii_case (iv_email_address i) (ni_email_address new) \<and> iv_accepted_at i = None)
           (map snd (ma_invitations st))
      then (Inl (StoreConflict ''An invitation for this email address is already pending''), st)
      else
        (let (i, st1) = mem_next_id st;
             x = \<lparr>iv_id = i, iv_uuid = ae_uuid E i, iv_organization_id = ni_organization_id new,
                  iv_email_address = ni_email_address new, iv_role = ni_role new, iv_token_hash = ni_token_hash new,
                  iv_invited_by_user_id = ni_invited_by_user_id new, iv_expires_at = ni_expires_at new,
                  iv_accepted_at = None\<rparr>
         in (Inr x, st1\<lparr>ma_invitations := al_insert i x (ma_invitations st1)\<rparr>)))"

definition mem_list_invitations :: "Id \<Rightarrow> (mem_accounts, invitation list) op" where
  "mem_list_invitations organization_id st =
     (Inr (sort_key iv_id (filter (\<lambda>i. iv_organization_id i = organization_id) (map snd (ma_invitations st)))), st)"

definition mem_invitation_by_token_hash :: "string \<Rightarrow> (mem_accounts, invitation option) op" where
  "mem_invitation_by_token_hash token_hash st =
     (Inr (find_value (\<lambda>i. iv_token_hash i = token_hash) (ma_invitations st)), st)"

definition mem_mark_invitation_accepted :: "account_env \<Rightarrow> Id \<Rightarrow> (mem_accounts, unit) op" where
  "mem_mark_invitation_accepted E invitation_id st =
     (Inr (), st\<lparr>ma_invitations := al_modify invitation_id (\<lambda>i. i\<lparr>iv_accepted_at := Some (ae_now E)\<rparr>) (ma_invitations st)\<rparr>)"

definition mem_delete_invitation :: "Id \<Rightarrow> Id \<Rightarrow> (mem_accounts, bool) op" where
  "mem_delete_invitation organization_id invitation_id st =
     (case map_of (ma_invitations st) invitation_id of
        Some i \<Rightarrow>
          if iv_organization_id i = organization_id
          then (Inr True, st\<lparr>ma_invitations := al_remove invitation_id (ma_invitations st)\<rparr>)
          else (Inr False, st)
      | None \<Rightarrow> (Inr False, st))"

definition mem_create_password_reset :: "Id \<Rightarrow> string \<Rightarrow> instant \<Rightarrow> (mem_accounts, unit) op" where
  "mem_create_password_reset u token_hash expires_at st =
     (Inr (), st\<lparr>ma_password_resets := ma_password_resets st @ [(u, token_hash, expires_at)]\<rparr>)"

definition mem_consume_password_reset :: "string \<Rightarrow> instant \<Rightarrow> (mem_accounts, Id option) op" where
  "mem_consume_password_reset token_hash now st =
     (case List.find (\<lambda>(_, h, _). h = token_hash) (ma_password_resets st) of
        None \<Rightarrow> (Inr None, st)
      | Some (u, _, expires_at) \<Rightarrow>
          (Inr (if expires_at < now then None else Some u),
           st\<lparr>ma_password_resets := remove_first (\<lambda>(_, h, _). h = token_hash) (ma_password_resets st)\<rparr>))"

text \<open>Single-use state: removed whether or not it is still valid.\<close>

definition mem_user_by_oidc_sub :: "string \<Rightarrow> (mem_accounts, user option) op" where
  "mem_user_by_oidc_sub sub st =
     (Inr (Option.bind (map_option ua_user_id (find_value (\<lambda>a. ua_oidc_sub a = Some sub) (ma_user_auth st)))
        (map_of (ma_users st))), st)"

definition mem_user_by_sso_identity :: "string \<Rightarrow> string \<Rightarrow> (mem_accounts, user option) op" where
  "mem_user_by_sso_identity provider subject st =
     (Inr (Option.bind (map_of (ma_sso_identities st) (provider, subject)) (map_of (ma_users st))), st)"

definition mem_link_sso_identity :: "Id \<Rightarrow> string \<Rightarrow> string \<Rightarrow> (mem_accounts, unit) op" where
  "mem_link_sso_identity u provider subject st =
     (if case map_of (ma_sso_identities st) (provider, subject) of Some other \<Rightarrow> other \<noteq> u | None \<Rightarrow> False
      then (Inl (StoreConflict ''This SSO identity is already linked to another user''), st)
      else (Inr (), st\<lparr>ma_sso_identities := al_insert (provider, subject) u
              (filter (\<lambda>((p, _), x). \<not> (x = u \<and> p = provider)) (ma_sso_identities st))\<rparr>))"

definition mem_create_oidc_state :: "string \<Rightarrow> string \<Rightarrow> string \<Rightarrow> instant \<Rightarrow> (mem_accounts, unit) op" where
  "mem_create_oidc_state state pkce_verifier nonce expires_at st =
     (Inr (), st\<lparr>ma_oidc_states := al_insert state (pkce_verifier, nonce, expires_at) (ma_oidc_states st)\<rparr>)"

definition mem_consume_oidc_state :: "string \<Rightarrow> instant \<Rightarrow> (mem_accounts, (string \<times> string) option) op" where
  "mem_consume_oidc_state state now st =
     (case map_of (ma_oidc_states st) state of
        None \<Rightarrow> (Inr None, st)
      | Some (verifier, nonce, expires_at) \<Rightarrow>
          (Inr (if expires_at < now then None else Some (verifier, nonce)),
           st\<lparr>ma_oidc_states := al_remove state (ma_oidc_states st)\<rparr>))"

definition mem_add_webauthn_credential :: "account_env \<Rightarrow> new_webauthn_credential \<Rightarrow> (mem_accounts, webauthn_credential) op" where
  "mem_add_webauthn_credential E new st =
     (if list_ex (\<lambda>c. wc_credential_id c = nw_credential_id new) (map snd (ma_webauthn st))
      then (Inl (StoreConflict ''This passkey is already registered''), st)
      else
        (let (i, st1) = mem_next_id st;
             c = \<lparr>wc_id = i, wc_user_id = nw_user_id new, wc_name = nw_name new, wc_credential_id = nw_credential_id new,
                  wc_credential_json = nw_credential_json new, wc_created_at = ae_now E, wc_last_used_at = None\<rparr>
         in (Inr c, st1\<lparr>ma_webauthn := al_insert i c (ma_webauthn st1)\<rparr>)))"

definition mem_list_webauthn_credentials :: "Id \<Rightarrow> (mem_accounts, webauthn_credential list) op" where
  "mem_list_webauthn_credentials u st =
     (Inr (sort_key wc_id (filter (\<lambda>c. wc_user_id c = u) (map snd (ma_webauthn st)))), st)"

definition mem_webauthn_credential_by_credential_id :: "string \<Rightarrow> (mem_accounts, webauthn_credential option) op" where
  "mem_webauthn_credential_by_credential_id credential_id st =
     (Inr (find_value (\<lambda>c. wc_credential_id c = credential_id) (ma_webauthn st)), st)"

definition mem_update_webauthn_credential :: "Id \<Rightarrow> string \<Rightarrow> instant \<Rightarrow> (mem_accounts, unit) op" where
  "mem_update_webauthn_credential credential_id credential_json last_used_at st =
     (Inr (), st\<lparr>ma_webauthn := al_modify credential_id
        (\<lambda>c. c\<lparr>wc_credential_json := credential_json, wc_last_used_at := Some last_used_at\<rparr>) (ma_webauthn st)\<rparr>)"

definition mem_delete_webauthn_credential :: "Id \<Rightarrow> Id \<Rightarrow> (mem_accounts, bool) op" where
  "mem_delete_webauthn_credential u credential_id st =
     (case map_of (ma_webauthn st) credential_id of
        Some c \<Rightarrow>
          if wc_user_id c = u then (Inr True, st\<lparr>ma_webauthn := al_remove credential_id (ma_webauthn st)\<rparr>)
          else (Inr False, st)
      | None \<Rightarrow> (Inr False, st))"

definition mem_create_webauthn_state :: "string \<Rightarrow> Id option \<Rightarrow> string \<Rightarrow> instant \<Rightarrow> (mem_accounts, unit) op" where
  "mem_create_webauthn_state key u state_json expires_at st =
     (Inr (), st\<lparr>ma_webauthn_states := al_insert key (u, state_json, expires_at) (ma_webauthn_states st)\<rparr>)"

definition mem_consume_webauthn_state :: "string \<Rightarrow> instant \<Rightarrow> (mem_accounts, (Id option \<times> string) option) op" where
  "mem_consume_webauthn_state key now st =
     (case map_of (ma_webauthn_states st) key of
        None \<Rightarrow> (Inr None, st)
      | Some (u, state_json, expires_at) \<Rightarrow>
          (Inr (if expires_at < now then None else Some (u, state_json)),
           st\<lparr>ma_webauthn_states := al_remove key (ma_webauthn_states st)\<rparr>))"

definition mem_create_saml_request :: "string \<Rightarrow> instant \<Rightarrow> (mem_accounts, unit) op" where
  "mem_create_saml_request request_id expires_at st =
     (Inr (), st\<lparr>ma_saml_requests := al_insert request_id expires_at (ma_saml_requests st)\<rparr>)"

definition mem_consume_saml_request :: "string \<Rightarrow> instant \<Rightarrow> (mem_accounts, bool) op" where
  "mem_consume_saml_request request_id now st =
     (case map_of (ma_saml_requests st) request_id of
        Some expires_at \<Rightarrow> (Inr (now \<le> expires_at), st\<lparr>ma_saml_requests := al_remove request_id (ma_saml_requests st)\<rparr>)
      | None \<Rightarrow> (Inr False, st))"

definition mem_register_saml_assertion :: "string \<Rightarrow> instant \<Rightarrow> instant \<Rightarrow> (mem_accounts, bool) op" where
  "mem_register_saml_assertion assertion_id expires_at now st =
     (let kept = filter (\<lambda>(_, expiry). now \<le> expiry) (ma_saml_assertions st) in
      if map_of kept assertion_id \<noteq> None then (Inr False, st\<lparr>ma_saml_assertions := kept\<rparr>)
      else (Inr True, st\<lparr>ma_saml_assertions := al_insert assertion_id expires_at kept\<rparr>))"

definition mem_record_auth_event :: "account_env \<Rightarrow> new_auth_event \<Rightarrow> (mem_accounts, unit) op" where
  "mem_record_auth_event E event st =
     (let (i, st1) = mem_next_id st in
      (Inr (), st1\<lparr>ma_auth_events := ma_auth_events st1 @
        [\<lparr>av_id = i, av_user_id = ne_user_id event, av_email_address = ne_email_address event, av_event = ne_event event,
          av_ip_address = ne_ip_address event, av_user_agent = ne_user_agent event, av_created_at = ae_now E\<rparr>]\<rparr>))"

definition mem_list_auth_events :: "nat \<Rightarrow> (mem_accounts, auth_event list) op" where
  "mem_list_auth_events limit st = (Inr (take limit (rev (ma_auth_events st))), st)"

definition mem_create_user :: "account_env \<Rightarrow> new_user \<Rightarrow> (mem_accounts, user) op" where
  "mem_create_user E new st =
     (if list_ex (\<lambda>u. us_email_address u = nu_email_address new) (map snd (ma_users st))
      then (Inl (StoreConflict ''Email address has already been taken''), st)
      else
        (let (i, st1) = mem_next_id st;
             u = \<lparr>us_id = i, us_uuid = ae_uuid E i, us_email_address = nu_email_address new,
                  us_first_name = nu_first_name new, us_last_name = nu_last_name new, us_admin = nu_admin new\<rparr>
         in (Inr u, st1\<lparr>ma_users := al_insert i u (ma_users st1)\<rparr>)))"

definition mem_update_user :: "user \<Rightarrow> (mem_accounts, user) op" where
  "mem_update_user u st = (Inr u, st\<lparr>ma_users := al_insert (us_id u) u (ma_users st)\<rparr>)"

definition forget_event :: "Id \<Rightarrow> auth_event \<Rightarrow> auth_event" where
  "forget_event i e = (if av_user_id e = Some i then e\<lparr>av_email_address := None, av_user_id := None\<rparr> else e)"

definition mem_delete_user :: "Id \<Rightarrow> (mem_accounts, bool) op" where
  "mem_delete_user i st =
     (Inr (map_of (ma_users st) i \<noteq> None),
      st\<lparr>ma_auth_events := map (forget_event i) (ma_auth_events st), ma_users := al_remove i (ma_users st)\<rparr>)"

definition mem_organization_by_permalink :: "string \<Rightarrow> (mem_accounts, organization option) op" where
  "mem_organization_by_permalink permalink st =
     (Inr (find_value (\<lambda>x. org_permalink x = permalink) (st_organizations (ma_store st))), st)"

definition mem_create_organization :: "account_env \<Rightarrow> new_organization \<Rightarrow> (mem_accounts, organization) op" where
  "mem_create_organization E new st =
     (if list_ex (\<lambda>x. org_permalink x = no_permalink new) (map snd (st_organizations (ma_store st)))
      then (Inl (StoreConflict ''Permalink has already been taken''), st)
      else
        (let (i, st1) = mem_next_id st;
             x = \<lparr>org_id = i, org_uuid = ae_uuid E i, org_name = no_name new, org_permalink = no_permalink new,
                  org_require_two_factor = False\<rparr>
         in (Inr x, st1\<lparr>ma_store := insert_organization (ma_store st1) x\<rparr>)))"

definition mem_delete_organization :: "Id \<Rightarrow> (mem_accounts, bool) op" where
  "mem_delete_organization i st =
     (case delete_organization (ma_store st) i of (ms, found) \<Rightarrow> (Inr found, st\<lparr>ma_store := ms\<rparr>))"

definition mem_server_by_permalink :: "Id \<Rightarrow> string \<Rightarrow> (mem_accounts, server option) op" where
  "mem_server_by_permalink organization_id permalink st =
     (Inr (find_value (\<lambda>x. srv_organization_id x = organization_id \<and> srv_permalink x = permalink) (st_servers (ma_store st))), st)"

definition mem_admin_api_key_auth :: "account_env \<Rightarrow> string \<Rightarrow> (mem_accounts, admin_api_key option) op" where
  "mem_admin_api_key_auth E key st = (Inr (map_of (ma_admin_api_keys st) (ae_hash E key)), st)"

definition mem_list_organizations :: "(mem_accounts, organization list) op" where
  "mem_list_organizations st = (Inr (map snd (st_organizations (ma_store st))), st)"

definition mem_enqueue_lifecycle_event :: "lifecycle_event \<Rightarrow> (mem_accounts, unit) op" where
  "mem_enqueue_lifecycle_event event st =
     (Inr (), st\<lparr>ma_store := (ma_store st)\<lparr>st_lifecycle_events := st_lifecycle_events (ma_store st) @ [event]\<rparr>\<rparr>)"

text \<open>
  The operations as the record of the trait. \<open>mailer\<close> is the send path of platform mail, a
  function on the mail tables.
\<close>

definition mem_auth_ops :: "account_env \<Rightarrow> (app_mail \<Rightarrow> message_record list \<Rightarrow> bool \<times> message_record list) \<Rightarrow> mem_accounts auth_ops" where
  "mem_auth_ops E mailer =
     \<lparr>ao_user_by_email = mem_user_by_email, ao_user_auth = mem_user_auth,
      ao_set_password_digest = mem_set_password_digest, ao_set_totp = mem_set_totp,
      ao_set_login_state = mem_set_login_state, ao_user_has_two_factor = mem_user_has_two_factor,
      ao_create_session = mem_create_session E, ao_session_with_user = mem_session_with_user,
      ao_touch_session = mem_touch_session, ao_delete_session = mem_delete_session,
      ao_delete_sessions_for_user = mem_delete_sessions_for_user,
      ao_memberships_for_user = mem_memberships_for_user, ao_membership = mem_membership,
      ao_memberships_for_organization = mem_memberships_for_organization,
      ao_upsert_membership = mem_upsert_membership E, ao_delete_membership = mem_delete_membership,
      ao_create_invitation = mem_create_invitation E, ao_list_invitations = mem_list_invitations,
      ao_invitation_by_token_hash = mem_invitation_by_token_hash,
      ao_mark_invitation_accepted = mem_mark_invitation_accepted E, ao_delete_invitation = mem_delete_invitation,
      ao_create_password_reset = mem_create_password_reset, ao_consume_password_reset = mem_consume_password_reset,
      ao_set_user_disabled = mem_set_user_disabled, ao_record_auth_event = mem_record_auth_event E,
      ao_list_auth_events = mem_list_auth_events, ao_create_user = mem_create_user E, ao_update_user = mem_update_user,
      ao_organization_by_permalink = mem_organization_by_permalink, ao_create_organization = mem_create_organization E,
      ao_delete_organization = mem_delete_organization, ao_server_by_permalink = mem_server_by_permalink,
      ao_admin_api_key_auth = mem_admin_api_key_auth E, ao_list_organizations = mem_list_organizations,
      ao_enqueue_lifecycle_event = mem_enqueue_lifecycle_event,
      ao_deliver_mail = (\<lambda>mail st. case mailer mail (st_messages (ma_store st)) of
         (sent, ms) \<Rightarrow> (sent, st\<lparr>ma_store := (ma_store st)\<lparr>st_messages := ms\<rparr>\<rparr>))\<rparr>"

section \<open>The invariant and the view\<close>

definition mem_ok :: "nat \<Rightarrow> mem_accounts \<Rightarrow> bool" where
  "mem_ok n st \<longleftrightarrow>
     (let b = st_next_id (ma_store st) in
      b + n < 2 ^ 64
      \<and> id_table_ok b us_id us_id (ma_users st) \<and> id_table_ok b as_id as_token_hash (ma_sessions st)
      \<and> id_table_ok b om_id (\<lambda>m. (om_organization_id m, om_user_id m)) (ma_memberships st)
      \<and> id_table_ok b iv_id iv_token_hash (ma_invitations st)
      \<and> distinct (map (fst \<circ> snd) (ma_password_resets st))
      \<and> id_table_ok b org_id org_permalink (st_organizations (ma_store st))
      \<and> wf_table srv_id (st_servers (ma_store st)))"

definition mem_view :: "account_env \<Rightarrow> mem_accounts \<Rightarrow> account_view" where
  "mem_view E st =
     \<lparr>vw_user = map_of (ma_users st), vw_auth = (\<lambda>u. auth_or_default u st),
      vw_passkey = (\<lambda>u. list_ex (\<lambda>c. wc_user_id c = u) (map snd (ma_webauthn st))),
      vw_session = (\<lambda>h. by_key as_token_hash h (ma_sessions st)),
      vw_role = (\<lambda>o' u. map_option om_role (by_key (\<lambda>m. (om_organization_id m, om_user_id m)) (o', u) (ma_memberships st))),
      vw_invitation = (\<lambda>h. by_key iv_token_hash h (ma_invitations st)),
      vw_reset = (\<lambda>h. map_option (\<lambda>(u, _, x). (u, x)) (List.find (\<lambda>(_, h', _). h' = h) (ma_password_resets st))),
      vw_org = map_of (st_organizations (ma_store st)), vw_server = map_of (st_servers (ma_store st)),
      vw_key = (\<lambda>k. map_of (ma_admin_api_keys st) (ae_hash E k))\<rparr>"

lemma mem_next_id_simps:
  "mem_next_id st = (st_next_id (ma_store st), st\<lparr>ma_store := (ma_store st)\<lparr>st_next_id := (st_next_id (ma_store st) + 1) mod 2 ^ 64\<rparr>\<rparr>)"
  by (simp add: mem_next_id_def next_id_def)

lemma mem_ok_next:
  assumes "mem_ok (Suc n) st"
  shows "mem_next_id st = (st_next_id (ma_store st), st\<lparr>ma_store := (ma_store st)\<lparr>st_next_id := Suc (st_next_id (ma_store st))\<rparr>\<rparr>)"
proof -
  have "st_next_id (ma_store st) + 1 < 2 ^ 64" using assms by (simp add: mem_ok_def Let_def)
  then show ?thesis by (simp add: mem_next_id_simps)
qed

lemma mem_ok_weaken: "mem_ok (Suc n) st \<Longrightarrow> mem_ok n st"
  by (simp add: mem_ok_def Let_def)

lemma modify_auth_meets:
  "meets mem_ok (mem_view E) always (\<lambda>st. (Inr (), modify_auth u f st)) (writes (update_auth u f))"
proof (rule meets_totalI)
  fix n st assume "mem_ok (Suc n) st"
  then have "mem_ok n (modify_auth u f st)" by (simp add: modify_auth_def mem_ok_def Let_def)
  moreover have "mem_view E (modify_auth u f st) = update_auth u f (mem_view E st)"
    by (auto simp: modify_auth_def mem_view_def update_auth_def auth_or_default_def fun_eq_iff)
  ultimately show "\<exists>a st'. (Inr (), modify_auth u f st) = (Inr a, st') \<and> mem_ok n st' \<and> writes (update_auth u f) (mem_view E st) a (mem_view E st')"
    by (simp add: writes_def)
qed

lemma read_meets:
  assumes "\<And>st. f st = (Inr (g st), st)" "\<And>n st. mem_ok n st \<Longrightarrow> R (mem_view E st) (g st) (mem_view E st)"
  shows "meets mem_ok (mem_view E) P f R"
  by (rule meets_totalI) (use assms mem_ok_weaken in force)

lemma mem_create_session_meets:
  "meets mem_ok (mem_view E) (\<lambda>v. vw_session v (ns_token_hash new) = None) (mem_create_session E new) (creates_session new)"
proof (rule meets_totalI)
  fix n st assume ok: "mem_ok (Suc n) st" and fresh: "vw_session (mem_view E st) (ns_token_hash new) = None"
  let ?b = "st_next_id (ma_store st)"
  let ?s = "\<lparr>as_id = ?b, as_user_id = ns_user_id new, as_token_hash = ns_token_hash new, as_created_at = ae_now E,
     as_expires_at = ns_expires_at new, as_last_used_at = ae_now E, as_ip_address = ns_ip_address new,
     as_user_agent = ns_user_agent new, as_oidc_logout = ns_oidc_logout new\<rparr>"
  have t: "id_table_ok ?b as_id as_token_hash (ma_sessions st)" using ok by (simp add: mem_ok_def Let_def)
  have f: "by_key as_token_hash (as_token_hash ?s) (ma_sessions st) = None" using fresh by (simp add: mem_view_def)
  note app = id_table_append [OF t _ f, simplified]
  have "mem_create_session E new st = (Inr ?s, st\<lparr>ma_store := (ma_store st)\<lparr>st_next_id := Suc ?b\<rparr>,
      ma_sessions := ma_sessions st @ [(?b, ?s)]\<rparr>)" (is "_ = (_, ?st')")
    by (simp add: mem_create_session_def mem_ok_next [OF ok] app Let_def)
  moreover have "mem_ok n ?st'"
    using ok app by (auto simp: mem_ok_def Let_def intro: id_table_mono)
  moreover have "creates_session new (mem_view E st) ?s (mem_view E ?st')"
    by (auto simp: creates_session_def session_of_def mem_view_def auth_or_default_def app fun_eq_iff)
  ultimately show "\<exists>a st'. mem_create_session E new st = (Inr a, st') \<and> mem_ok n st' \<and> creates_session new (mem_view E st) a (mem_view E st')"
    by blast
qed


lemma write_meets:
  assumes "\<And>st. f st = (Inr (g st), upd st)" "\<And>n st. mem_ok n st \<Longrightarrow> mem_ok n (upd st)"
    "\<And>n st. mem_ok n st \<Longrightarrow> P (mem_view E st) \<Longrightarrow> R (mem_view E st) (g st) (mem_view E (upd st))"
  shows "meets mem_ok (mem_view E) P f R"
  by (rule meets_totalI) (use assms mem_ok_weaken in force)

lemma mem_okD:
  assumes "mem_ok n st"
  shows "id_table_ok (st_next_id (ma_store st)) us_id us_id (ma_users st)"
    "id_table_ok (st_next_id (ma_store st)) as_id as_token_hash (ma_sessions st)"
    "id_table_ok (st_next_id (ma_store st)) om_id (\<lambda>m. (om_organization_id m, om_user_id m)) (ma_memberships st)"
    "id_table_ok (st_next_id (ma_store st)) iv_id iv_token_hash (ma_invitations st)"
    "distinct (map (fst \<circ> snd) (ma_password_resets st))" "id_table_ok (st_next_id (ma_store st)) org_id org_permalink (st_organizations (ma_store st))"
    "wf_table srv_id (st_servers (ma_store st))"
  using assms by (simp_all add: mem_ok_def Let_def)

lemma mem_user_by_email_meets:
  "meets mem_ok (mem_view E) always (mem_user_by_email e)
     (reads_some (\<lambda>v r. case r of
         Some u \<Rightarrow> vw_user v (us_id u) = Some u \<and> eq_ignore_ascii_case (us_email_address u) e
       | None \<Rightarrow> \<forall>i u. vw_user v i = Some u \<longrightarrow> \<not> eq_ignore_ascii_case (us_email_address u) e))"
proof (rule read_meets [OF mem_user_by_email_def], unfold reads_some_def, rule conjI [OF refl])
  fix n st assume "mem_ok n st"
  note t = mem_okD(1) [OF this]
  show "case find_value (\<lambda>u. eq_ignore_ascii_case (us_email_address u) e) (ma_users st) of
         Some u \<Rightarrow> vw_user (mem_view E st) (us_id u) = Some u \<and> eq_ignore_ascii_case (us_email_address u) e
       | None \<Rightarrow> \<forall>i u. vw_user (mem_view E st) i = Some u \<longrightarrow> \<not> eq_ignore_ascii_case (us_email_address u) e"
    using table_value [OF t] by (auto simp: mem_view_def find_value_None dest!: find_value_SomeD table_map_of [OF t] split: option.split)
qed

lemma mem_user_auth_meets:
  "meets mem_ok (mem_view E) always (mem_user_auth u) (reads (\<lambda>v. if vw_user v u = None then None else Some (vw_auth v u)))"
  by (rule read_meets [OF mem_user_auth_def]) (simp add: reads_def mem_view_def)

lemma mem_user_has_two_factor_meets:
  "meets mem_ok (mem_view E) always (mem_user_has_two_factor u) (reads (\<lambda>v. ua_totp_enabled (vw_auth v u) \<or> vw_passkey v u))"
  by (rule read_meets [OF mem_user_has_two_factor_def [unfolded Let_def]])
     (simp add: reads_def mem_view_def auth_or_default_def user_auth_default_def split: option.split)

lemma mem_session_with_user_meets:
  "meets mem_ok (mem_view E) always (mem_session_with_user h) (reads (session_user h))"
  by (rule read_meets [OF mem_session_with_user_def]) (simp add: reads_def session_user_def mem_view_def by_key_def split: option.split)

lemma mem_touch_session_meets:
  "meets mem_ok (mem_view E) always (mem_touch_session i t ex)
     (writes (\<lambda>v. v\<lparr>vw_session := map_option (touch i t ex) \<circ> vw_session v\<rparr>))"
proof (rule write_meets [OF mem_touch_session_def])
  let ?f = "\<lambda>s. s\<lparr>as_last_used_at := t, as_expires_at := ex\<rparr>"
  fix n st assume ok: "mem_ok n st"
  note t = mem_okD(2) [OF ok]
  have mk: "al_modify i ?f (ma_sessions st) = map_key i ?f (ma_sessions st)"
    using t by (simp add: id_table_ok_def al_modify_map_key)
  note app = id_table_map_key [OF t, of ?f, simplified]
  show "mem_ok n (st\<lparr>ma_sessions := al_modify i ?f (ma_sessions st)\<rparr>)"
    using ok app(1) by (simp add: mem_ok_def Let_def mk)
  show "writes (\<lambda>v. v\<lparr>vw_session := map_option (touch i t ex) \<circ> vw_session v\<rparr>) (mem_view E st) ()
      (mem_view E (st\<lparr>ma_sessions := al_modify i ?f (ma_sessions st)\<rparr>))"
    by (simp add: writes_def mk mem_view_def app(2) touch_def [abs_def] auth_or_default_def comp_def)
qed

lemma mem_delete_session_meets:
  "meets mem_ok (mem_view E) always (mem_delete_session h) (writes (drop_sessions (\<lambda>s. as_token_hash s = h)))"
proof (rule meets_totalI)
  fix n st assume "mem_ok (Suc n) st"
  then have ok: "mem_ok n st" by (rule mem_ok_weaken)
  note t = mem_okD(2) [OF ok]
  note fl = id_table_filter [OF t, where Q="\<lambda>s. as_token_hash s \<noteq> h"]
  let ?st = "st\<lparr>ma_sessions := filter (\<lambda>(_, s). as_token_hash s \<noteq> h) (ma_sessions st)\<rparr>"
  have "snd (mem_delete_session h st) = ?st"
  proof (cases "List.find (\<lambda>(_, s). as_token_hash s = h) (ma_sessions st)")
    case None
    then have "filter (\<lambda>(_, s). as_token_hash s \<noteq> h) (ma_sessions st) = ma_sessions st"
      by (auto simp: find_None_iff intro!: filter_True)
    then show ?thesis using None by (simp add: mem_delete_session_def)
  next
    case (Some p)
    then show ?thesis using al_remove_key [OF t, of h "fst p" "snd p"] by (cases p) (simp add: mem_delete_session_def)
  qed
  moreover have "\<exists>a. fst (mem_delete_session h st) = Inr a"
    by (cases "List.find (\<lambda>(_, s). as_token_hash s = h) (ma_sessions st)") (auto simp: mem_delete_session_def)
  moreover have "mem_ok n ?st" using ok fl(1) by (simp add: mem_ok_def Let_def)
  moreover have "mem_view E ?st = drop_sessions (\<lambda>s. as_token_hash s = h) (mem_view E st)"
    by (simp add: mem_view_def drop_sessions_def fl(2) auth_or_default_def if_distrib cong: option.case_cong if_cong)
       (auto simp: fun_eq_iff split: option.split)
  ultimately show "\<exists>a st'. mem_delete_session h st = (Inr a, st') \<and> mem_ok n st'
      \<and> writes (drop_sessions (\<lambda>s. as_token_hash s = h)) (mem_view E st) a (mem_view E st')"
    unfolding writes_def by (metis prod.collapse)
qed

lemma mem_delete_sessions_for_user_meets:
  "meets mem_ok (mem_view E) always (mem_delete_sessions_for_user u) (writes (drop_sessions (\<lambda>s. as_user_id s = u)))"
proof (rule write_meets [OF mem_delete_sessions_for_user_def [unfolded Let_def]])
  fix n st assume ok: "mem_ok n st"
  note fl = id_table_filter [OF mem_okD(2) [OF ok], where Q="\<lambda>s. as_user_id s \<noteq> u"]
  let ?st = "st\<lparr>ma_sessions := filter (\<lambda>(_, s). as_user_id s \<noteq> u) (ma_sessions st)\<rparr>"
  show "mem_ok n ?st" using ok fl(1) by (simp add: mem_ok_def Let_def)
  show "writes (drop_sessions (\<lambda>s. as_user_id s = u)) (mem_view E st)
      (length (ma_sessions st) - length (filter (\<lambda>(_, s). as_user_id s \<noteq> u) (ma_sessions st))) (mem_view E ?st)"
    by (auto simp: writes_def mem_view_def drop_sessions_def fl(2) auth_or_default_def fun_eq_iff split: option.split)
qed


lemma mem_membership_meets: "meets mem_ok (mem_view E) always (mem_membership o' u) (reads_some (finds_membership o' u))"
proof (rule read_meets [OF mem_membership_def], unfold reads_some_def, rule conjI [OF refl])
  fix n st
  show "finds_membership o' u (mem_view E st)
     (find_value (\<lambda>m. om_organization_id m = o' \<and> om_user_id m = u) (ma_memberships st))"
    by (auto simp: finds_membership_def mem_view_def by_key_def dest: find_value_SomeD)
qed

lemma mem_memberships_for_organization_meets:
  "meets mem_ok (mem_view E) always (mem_memberships_for_organization o') (reads_some (lists_members o'))"
proof (rule read_meets [OF mem_memberships_for_organization_def], unfold reads_some_def, rule conjI [OF refl])
  fix n st assume "mem_ok n st"
  let ?key = "\<lambda>m. (om_organization_id m, om_user_id m)"
  note t = mem_okD(3) [OF \<open>mem_ok n st\<close>]
  let ?own = "filter (\<lambda>m. om_organization_id m = o') (map snd (ma_memberships st))"
  let ?l = "List.map_filter (\<lambda>m. map_option (\<lambda>x. (m, x)) (map_of (ma_users st) (om_user_id m))) ?own"
  have d: "distinct (map ?key (map snd (ma_memberships st)))" using t by (simp add: id_table_ok_def)
  then have "distinct (map ?key ?own)" by (rule distinct_map_filter)
  then have "distinct (map om_user_id ?own)" by (auto simp: distinct_map inj_on_def)
  then have "distinct (map (om_user_id \<circ> fst) ?l)"
    by (simp add: map_filter_Some comp_def distinct_map_filter del: filter_filter)
  then have "distinct (map (om_user_id \<circ> fst) (sort_key (\<lambda>(_, x). us_email_address x) ?l))"
    by (simp add: distinct_map)
  moreover have "(\<exists>m x. (m, x) \<in> set ?l \<and> om_user_id m = u \<and> om_role m = r)
      \<longleftrightarrow> vw_role (mem_view E st) o' u = Some r \<and> vw_user (mem_view E st) u \<noteq> None" for u r
    by (auto simp: map_filter_Some mem_view_def by_key_Some_iff [OF t])
  ultimately show "lists_members o' (mem_view E st) (sort_key (\<lambda>(_, x). us_email_address x) ?l)"
    by (simp add: lists_members_def)
qed

lemma mem_upsert_membership_meets:
  "meets mem_ok (mem_view E) always (mem_upsert_membership E o' u r) (upserts_membership o' u r)"
proof (rule meets_totalI)
  let ?key = "\<lambda>m. (om_organization_id m, om_user_id m)"
  fix n st assume ok: "mem_ok (Suc n) st"
  let ?b = "st_next_id (ma_store st)"
  note t = mem_okD(3) [OF ok]
  let ?P = "\<lambda>(_ :: nat, m). om_organization_id m = o' \<and> om_user_id m = u"
  show "\<exists>a st'. mem_upsert_membership E o' u r st = (Inr a, st') \<and> mem_ok n st' \<and> upserts_membership o' u r (mem_view E st) a (mem_view E st')"
  proof (cases "List.find ?P (ma_memberships st)")
    case None
    then have none: "by_key ?key (o', u) (ma_memberships st) = None" using find_key_None [of ?key "(o', u)"] by simp
    let ?m = "\<lparr>om_id = ?b, om_organization_id = o', om_user_id = u, om_role = r, om_created_at = ae_now E\<rparr>"
    note app = id_table_append [OF t, of ?m, simplified, OF none]
    let ?st = "st\<lparr>ma_store := (ma_store st)\<lparr>st_next_id := Suc ?b\<rparr>, ma_memberships := ma_memberships st @ [(?b, ?m)]\<rparr>"
    have "mem_upsert_membership E o' u r st = (Inr ?m, ?st)"
      using None by (simp add: mem_upsert_membership_def mem_ok_next [OF ok] app(1) Let_def)
    moreover have "mem_ok n ?st" using ok app(2) by (auto simp: mem_ok_def Let_def intro: id_table_mono)
    moreover have "upserts_membership o' u r (mem_view E st) ?m (mem_view E ?st)"
      by (auto simp: upserts_membership_def set_role_def mem_view_def auth_or_default_def app(3) fun_eq_iff)
    ultimately show ?thesis by blast
  next
    case (Some p)
    then obtain i m where p: "List.find ?P (ma_memberships st) = Some (i, m)" by (cases p) auto
    note m = find_key [of ?key "(o', u)", simplified, OF p]
    let ?f = "om_role_update (\<lambda>_. r)"
    note mk = id_table_map_key [OF t, of ?f, simplified]
    have im: "om_id m = i" "map_of (ma_memberships st) i = Some m" using m(2) t by (auto simp: id_table_ok_def)
    have ins: "al_insert i (m\<lparr>om_role := r\<rparr>) (ma_memberships st) = map_key i ?f (ma_memberships st)"
      using al_insert_modify [OF im(2), of ?f] t by (simp add: id_table_ok_def al_modify_map_key)
    let ?st = "st\<lparr>ma_memberships := map_key i ?f (ma_memberships st)\<rparr>"
    have "mem_upsert_membership E o' u r st = (Inr (m\<lparr>om_role := r\<rparr>), ?st)"
      by (simp only: mem_upsert_membership_def p ins option.case prod.case)
    moreover have "mem_ok n ?st" using mem_ok_weaken [OF ok] mk(1) by (simp add: mem_ok_def Let_def)
    moreover have "om_id m' \<noteq> i" if "by_key ?key k (ma_memberships st) = Some m'" "k \<noteq> (o', u)" for k m'
    proof
      assume "om_id m' = i"
      moreover have m': "m' \<in> snd ` set (ma_memberships st)" "?key m' = k" using by_key_SomeD [OF that(1)] by blast+
      ultimately have "m' = m" using im(2) table_value [OF t m'(1)] by simp
      with m'(2) m(3) that(2) show False by simp
    qed
    then have "upserts_membership o' u r (mem_view E st) (m\<lparr>om_role := r\<rparr>) (mem_view E ?st)"
      using m(1,3) im
      by (auto simp: upserts_membership_def set_role_def mem_view_def auth_or_default_def mk(2) fun_eq_iff option.map_comp
          intro!: option.map_cong0)
    ultimately show ?thesis by blast
  qed
qed

lemma mem_delete_membership_meets:
  "meets mem_ok (mem_view E) always (mem_delete_membership o' u) (writes (set_role o' u None))"
proof (rule write_meets [OF mem_delete_membership_def [unfolded Let_def]])
  let ?Q = "\<lambda>m. \<not> (om_organization_id m = o' \<and> om_user_id m = u)"
  fix n st assume ok: "mem_ok n st"
  note fl = id_table_filter [OF mem_okD(3) [OF ok], where Q="?Q"]
  let ?st = "st\<lparr>ma_memberships := filter (\<lambda>(_, m). ?Q m) (ma_memberships st)\<rparr>"
  show "mem_ok n ?st" using ok fl(1) by (simp add: mem_ok_def Let_def)
  show "writes (set_role o' u None) (mem_view E st)
      (length (filter (\<lambda>(_, m). ?Q m) (ma_memberships st)) < length (ma_memberships st)) (mem_view E ?st)"
    by (auto simp: writes_def mem_view_def set_role_def fl(2) [simplified] auth_or_default_def fun_eq_iff split: option.split dest!: by_key_SomeD)
qed


lemma mem_create_invitation_meets:
  "meets mem_ok (mem_view E) (\<lambda>v. vw_invitation v (ni_token_hash new) = None) (mem_create_invitation E new) (creates_invitation new)"
  unfolding meets_def
proof (intro allI impI, elim conjE)
  fix n st r st'
  assume ok: "mem_ok (Suc n) st" and fresh: "vw_invitation (mem_view E st) (ni_token_hash new) = None"
    and run: "mem_create_invitation E new st = (r, st')"
  let ?b = "st_next_id (ma_store st)"
  let ?x = "\<lparr>iv_id = ?b, iv_uuid = ae_uuid E ?b, iv_organization_id = ni_organization_id new,
     iv_email_address = ni_email_address new, iv_role = ni_role new, iv_token_hash = ni_token_hash new,
     iv_invited_by_user_id = ni_invited_by_user_id new, iv_expires_at = ni_expires_at new, iv_accepted_at = None\<rparr>"
  have f: "by_key iv_token_hash (iv_token_hash ?x) (ma_invitations st) = None" using fresh by (simp add: mem_view_def)
  note app = id_table_append [OF mem_okD(4) [OF ok] _ f, simplified]
  let ?st = "st\<lparr>ma_store := (ma_store st)\<lparr>st_next_id := Suc ?b\<rparr>, ma_invitations := ma_invitations st @ [(?b, ?x)]\<rparr>"
  have "(\<exists>e. (r, st') = (Inl e, st)) \<or> (r, st') = (Inr ?x, ?st)"
    unfolding run [symmetric] by (simp add: mem_create_invitation_def mem_ok_next [OF ok] app(1) Let_def)
  moreover have "mem_ok n ?st" using ok app(2) by (auto simp: mem_ok_def Let_def intro: id_table_mono)
  moreover have "creates_invitation new (mem_view E st) ?x (mem_view E ?st)"
    by (auto simp: creates_invitation_def mem_view_def auth_or_default_def app(3) fun_eq_iff)
  ultimately show "mem_ok n st' \<and> (\<forall>e. r = Inl e \<longrightarrow> mem_view E st' = mem_view E st)
      \<and> (\<forall>a. r = Inr a \<longrightarrow> creates_invitation new (mem_view E st) a (mem_view E st'))"
    using mem_ok_weaken [OF ok] by auto
qed

lemma mem_create_user_meets: "meets mem_ok (mem_view E) always (mem_create_user E new) (creates_user new)"
  unfolding meets_def
proof (intro allI impI, elim conjE)
  fix n st r st'
  assume ok: "mem_ok (Suc n) st" and run: "mem_create_user E new st = (r, st')"
  let ?b = "st_next_id (ma_store st)"
  let ?x = "\<lparr>us_id = ?b, us_uuid = ae_uuid E ?b, us_email_address = nu_email_address new,
     us_first_name = nu_first_name new, us_last_name = nu_last_name new, us_admin = nu_admin new\<rparr>"
  have f: "by_key us_id (us_id ?x) (ma_users st) = None"
    using mem_okD(1) [OF ok] by (fastforce simp: by_key_None id_table_ok_def)
  note app = id_table_append [OF mem_okD(1) [OF ok] _ f, simplified]
  have none: "map_of (ma_users st) ?b = None"
    using mem_okD(1) [OF ok] by (fastforce simp: id_table_ok_def map_of_eq_None_iff)
  let ?st = "st\<lparr>ma_store := (ma_store st)\<lparr>st_next_id := Suc ?b\<rparr>, ma_users := ma_users st @ [(?b, ?x)]\<rparr>"
  have "(\<exists>e. (r, st') = (Inl e, st)) \<or> (r, st') = (Inr ?x, ?st)"
    unfolding run [symmetric] by (simp add: mem_create_user_def mem_ok_next [OF ok] app(1) Let_def)
  moreover have "mem_ok n ?st" using ok app(2) by (auto simp: mem_ok_def Let_def intro: id_table_mono)
  moreover have "map_of (ma_users st @ [(?b, ?x)]) = (map_of (ma_users st))(?b \<mapsto> ?x)"
    using none by (auto simp: fun_eq_iff map_add_def split: option.split)
  then have "creates_user new (mem_view E st) ?x (mem_view E ?st)"
    using none by (simp add: creates_user_def mem_view_def auth_or_default_def)
  ultimately show "mem_ok n st' \<and> (\<forall>e. r = Inl e \<longrightarrow> mem_view E st' = mem_view E st)
      \<and> (\<forall>a. r = Inr a \<longrightarrow> creates_user new (mem_view E st) a (mem_view E st'))"
    using mem_ok_weaken [OF ok] by auto
qed

lemma mem_update_user_meets:
  "meets mem_ok (mem_view E) (\<lambda>v. vw_user v (us_id x) \<noteq> None) (mem_update_user x)
     (\<lambda>v y v'. y = x \<and> v' = v\<lparr>vw_user := (vw_user v)(us_id x \<mapsto> x)\<rparr>)"
proof (rule meets_totalI)
  fix n st assume ok: "mem_ok (Suc n) st" and ex: "vw_user (mem_view E st) (us_id x) \<noteq> None"
  note t = mem_okD(1) [OF ok]
  obtain w where w: "map_of (ma_users st) (us_id x) = Some w" using ex by (auto simp: mem_view_def)
  have ins: "al_insert (us_id x) x (ma_users st) = map (\<lambda>(k, v). (k, if k = us_id x then x else v)) (ma_users st)"
    using al_insert_present [OF _ w] t by (simp add: id_table_ok_def)
  have "id_table_ok (st_next_id (ma_store st)) us_id us_id (al_insert (us_id x) x (ma_users st))"
    using t unfolding ins id_table_ok_def by (auto simp: comp_def case_prod_beta if_distrib cong: if_cong map_cong)
  then have "mem_ok n (st\<lparr>ma_users := al_insert (us_id x) x (ma_users st)\<rparr>)"
    using mem_ok_weaken [OF ok] by (simp add: mem_ok_def Let_def)
  then show "\<exists>y st'. mem_update_user x st = (Inr y, st') \<and> mem_ok n st'
      \<and> y = x \<and> mem_view E st' = (mem_view E st)\<lparr>vw_user := (vw_user (mem_view E st))(us_id x \<mapsto> x)\<rparr>"
    by (simp add: mem_update_user_def mem_view_def auth_or_default_def)
qed

lemma mem_mark_invitation_accepted_meets:
  "meets mem_ok (mem_view E) always (mem_mark_invitation_accepted E i) (writes (map_invitations (accept_invitation i (ae_now E))))"
proof (rule write_meets [OF mem_mark_invitation_accepted_def])
  let ?f = "\<lambda>x. x\<lparr>iv_accepted_at := Some (ae_now E)\<rparr>"
  fix n st assume ok: "mem_ok n st"
  note t = mem_okD(4) [OF ok]
  have mk: "al_modify i ?f (ma_invitations st) = map_key i ?f (ma_invitations st)"
    using t by (simp add: id_table_ok_def al_modify_map_key)
  note app = id_table_map_key [OF t, of ?f, simplified]
  show "mem_ok n (st\<lparr>ma_invitations := al_modify i ?f (ma_invitations st)\<rparr>)"
    using ok app(1) by (simp add: mem_ok_def Let_def mk)
  show "writes (map_invitations (accept_invitation i (ae_now E))) (mem_view E st) ()
      (mem_view E (st\<lparr>ma_invitations := al_modify i ?f (ma_invitations st)\<rparr>))"
    by (simp add: writes_def mk mem_view_def app(2) map_invitations_def auth_or_default_def accept_invitation_def [abs_def] map_conv_bind_option comp_def)
qed

lemma mem_delete_invitation_meets:
  "meets mem_ok (mem_view E) always (mem_delete_invitation o' i)
     (writes (map_invitations (\<lambda>x. if iv_id x = i \<and> iv_organization_id x = o' then None else Some x)))"
proof (rule meets_totalI)
  fix n st assume "mem_ok (Suc n) st"
  then have ok: "mem_ok n st" by (rule mem_ok_weaken)
  note t = mem_okD(4) [OF ok]
  let ?Q = "\<lambda>x. \<not> (iv_id x = i \<and> iv_organization_id x = o')"
  note fl = id_table_filter [OF t, where Q="?Q"]
  let ?st = "st\<lparr>ma_invitations := filter (\<lambda>(_, x). ?Q x) (ma_invitations st)\<rparr>"
  have ids: "\<forall>p \<in> set (ma_invitations st). iv_id (snd p) = fst p" using t by (force simp: id_table_ok_def)
  have "snd (mem_delete_invitation o' i st) = ?st"
  proof (cases "\<exists>w. map_of (ma_invitations st) i = Some w \<and> iv_organization_id w = o'")
    case True
    then obtain w where w: "map_of (ma_invitations st) i = Some w" "iv_organization_id w = o'" by blast
    have "al_remove i (ma_invitations st) = filter (\<lambda>(_, x). ?Q x) (ma_invitations st)"
      unfolding al_remove_def
    proof (rule filter_cong [OF refl])
      fix p assume p: "p \<in> set (ma_invitations st)"
      then have "map_of (ma_invitations st) (fst p) = Some (snd p)" using t by (simp add: id_table_ok_def)
      with w ids p show "fst p \<noteq> i \<longleftrightarrow> (case p of (_, x) \<Rightarrow> ?Q x)" by (cases p) auto
    qed
    then show ?thesis using w by (simp add: mem_delete_invitation_def)
  next
    case False
    have "filter (\<lambda>(_, x). ?Q x) (ma_invitations st) = ma_invitations st"
      using False t ids by (intro filter_True) (force simp: id_table_ok_def)
    then show ?thesis using False by (cases "map_of (ma_invitations st) i") (auto simp: mem_delete_invitation_def)
  qed
  moreover have "\<exists>a. fst (mem_delete_invitation o' i st) = Inr a"
    by (cases "map_of (ma_invitations st) i") (auto simp: mem_delete_invitation_def)
  moreover have "mem_ok n ?st" using ok fl(1) by (simp add: mem_ok_def Let_def)
  moreover have "mem_view E ?st = map_invitations (\<lambda>x. if iv_id x = i \<and> iv_organization_id x = o' then None else Some x) (mem_view E st)"
    by (simp add: mem_view_def map_invitations_def fl(2) [simplified] auth_or_default_def fun_eq_iff split: option.split)
  ultimately show "\<exists>a st'. mem_delete_invitation o' i st = (Inr a, st') \<and> mem_ok n st'
      \<and> writes (map_invitations (\<lambda>x. if iv_id x = i \<and> iv_organization_id x = o' then None else Some x)) (mem_view E st) a (mem_view E st')"
    unfolding writes_def by (metis prod.collapse)
qed


lemma mem_create_password_reset_meets:
  "meets mem_ok (mem_view E) (\<lambda>v. vw_reset v h = None) (mem_create_password_reset u h ex)
     (writes (\<lambda>v. v\<lparr>vw_reset := (vw_reset v)(h \<mapsto> (u, ex))\<rparr>))"
proof (rule meets_totalI)
  fix n st assume ok: "mem_ok (Suc n) st" and "vw_reset (mem_view E st) h = None"
  then have none: "List.find (\<lambda>(_, h', _). h' = h) (ma_password_resets st) = None" by (simp add: mem_view_def)
  then have "h \<notin> set (map (fst \<circ> snd) (ma_password_resets st))" by (force simp: find_None_iff)
  then have "mem_ok n (st\<lparr>ma_password_resets := ma_password_resets st @ [(u, h, ex)]\<rparr>)"
    using mem_ok_weaken [OF ok] by (simp add: mem_ok_def Let_def)
  moreover have "writes (\<lambda>v. v\<lparr>vw_reset := (vw_reset v)(h \<mapsto> (u, ex))\<rparr>) (mem_view E st) ()
      (mem_view E (st\<lparr>ma_password_resets := ma_password_resets st @ [(u, h, ex)]\<rparr>))"
    using none by (simp add: writes_def mem_view_def auth_or_default_def find_append fun_eq_iff split: option.split)
  ultimately show "\<exists>a st'. mem_create_password_reset u h ex st = (Inr a, st') \<and> mem_ok n st'
      \<and> writes (\<lambda>v. v\<lparr>vw_reset := (vw_reset v)(h \<mapsto> (u, ex))\<rparr>) (mem_view E st) a (mem_view E st')"
    by (simp add: mem_create_password_reset_def)
qed

lemma mem_consume_password_reset_meets:
  "meets mem_ok (mem_view E) always (mem_consume_password_reset h t) (consumes_reset h t)"
proof (rule meets_totalI)
  fix n st assume "mem_ok (Suc n) st"
  then have ok: "mem_ok n st" by (rule mem_ok_weaken)
  let ?hash = "\<lambda>(_ :: Id, x, _ :: instant). x :: string"
  let ?kept = "filter (\<lambda>x. ?hash x \<noteq> h) (ma_password_resets st)"
  let ?st = "st\<lparr>ma_password_resets := ?kept\<rparr>"
  have d: "distinct (map ?hash (ma_password_resets st))"
    using mem_okD(5) [OF ok] by (simp add: comp_def case_prod_beta')
  have hash: "(\<lambda>(_ :: Id, x, _ :: instant). x = h) = (\<lambda>x. ?hash x = h)" for h :: string by auto
  have "mem_consume_password_reset h t st =
      (Inr (case vw_reset (mem_view E st) h of None \<Rightarrow> None | Some (u, ex) \<Rightarrow> if ex < t then None else Some u), ?st)"
  proof (cases "List.find (\<lambda>x. ?hash x = h) (ma_password_resets st)")
    case None
    then have "?kept = ma_password_resets st" by (auto simp: find_None_iff intro!: filter_True)
    then show ?thesis using None by (simp add: mem_consume_password_reset_def mem_view_def hash)
  next
    case (Some p)
    then show ?thesis
      using remove_first_key [OF d, of h]
      by (simp add: mem_consume_password_reset_def mem_view_def hash split: prod.split)
  qed
  moreover have "mem_ok n ?st" using ok by (simp add: mem_ok_def Let_def distinct_map_filter)
  moreover have "vw_reset (mem_view E ?st) = (vw_reset (mem_view E st))(h := None)"
    using find_filter_key [OF d, where Q="\<lambda>x. ?hash x \<noteq> h"]
    by (auto simp: mem_view_def hash fun_eq_iff split: option.split dest: find_SomeD)
  then have "mem_view E ?st = (mem_view E st)\<lparr>vw_reset := (vw_reset (mem_view E st))(h := None)\<rparr>"
    by (simp add: mem_view_def auth_or_default_def)
  ultimately show "\<exists>a st'. mem_consume_password_reset h t st = (Inr a, st') \<and> mem_ok n st' \<and> consumes_reset h t (mem_view E st) a (mem_view E st')"
    by (simp add: consumes_reset_def)
qed

lemma mem_record_auth_event_meets: "meets mem_ok (mem_view E) always (mem_record_auth_event E ev) (writes id)"
proof (rule meets_totalI)
  fix n st assume ok: "mem_ok (Suc n) st"
  show "\<exists>a st'. mem_record_auth_event E ev st = (Inr a, st') \<and> mem_ok n st' \<and> writes id (mem_view E st) a (mem_view E st')"
    using ok by (auto simp: mem_record_auth_event_def mem_ok_next [OF ok] mem_ok_def Let_def writes_def mem_view_def
        auth_or_default_def intro: id_table_mono)
qed

lemma mem_organization_by_permalink_meets:
  "meets mem_ok (mem_view E) always (mem_organization_by_permalink p) (reads_some (finds_organization p))"
proof (rule read_meets [OF mem_organization_by_permalink_def], unfold reads_some_def, rule conjI [OF refl])
  fix n st assume "mem_ok n st"
  note t = mem_okD(6) [OF this]
  show "finds_organization p (mem_view E st) (find_value (\<lambda>x. org_permalink x = p) (st_organizations (ma_store st)))"
    using table_value [OF t]
    by (auto simp: finds_organization_def mem_view_def find_value_None dest!: find_value_SomeD table_map_of [OF t] split: option.split)
qed

lemma mem_permalink_unique:
  assumes "mem_ok n st" "vw_org (mem_view E st) i = Some x" "vw_org (mem_view E st) j = Some y" "org_permalink x = org_permalink y"
  shows "x = y"
proof -
  note t = mem_okD(6) [OF assms(1)]
  have "x \<in> snd ` set (st_organizations (ma_store st))" "y \<in> snd ` set (st_organizations (ma_store st))"
    using assms(2,3) table_map_of [OF t] by (auto simp: mem_view_def)
  then have "by_key org_permalink (org_permalink x) (st_organizations (ma_store st)) = Some x"
    "by_key org_permalink (org_permalink x) (st_organizations (ma_store st)) = Some y"
    unfolding by_key_Some_iff [OF t] using assms(4) by simp_all
  then show ?thesis by simp
qed

lemma mem_create_organization_meets: "meets mem_ok (mem_view E) always (mem_create_organization E new) (creates_organization new)"
  unfolding meets_def
proof (intro allI impI, elim conjE)
  fix n st r st'
  assume ok: "mem_ok (Suc n) st" and run: "mem_create_organization E new st = (r, st')"
  let ?b = "st_next_id (ma_store st)" and ?t = "st_organizations (ma_store st)"
  note t = mem_okD(6) [OF ok]
  let ?x = "\<lparr>org_id = ?b, org_uuid = ae_uuid E ?b, org_name = no_name new, org_permalink = no_permalink new, org_require_two_factor = False\<rparr>"
  let ?st = "st\<lparr>ma_store := (ma_store st)\<lparr>st_next_id := Suc ?b, st_organizations := ?t @ [(?b, ?x)]\<rparr>\<rparr>"
  show "mem_ok n st' \<and> (\<forall>e. r = Inl e \<longrightarrow> mem_view E st' = mem_view E st)
      \<and> (\<forall>a. r = Inr a \<longrightarrow> creates_organization new (mem_view E st) a (mem_view E st'))"
  proof (cases "list_ex (\<lambda>x. org_permalink x = no_permalink new) (map snd ?t)")
    case True
    with run have "(r, st') = (Inl (StoreConflict ''Permalink has already been taken''), st)"
      by (simp add: mem_create_organization_def)
    with mem_ok_weaken [OF ok] show ?thesis by simp
  next
    case False
    then have f: "by_key org_permalink (org_permalink ?x) ?t = None"
      by (auto simp: by_key_None list_ex_iff)
    note app = id_table_append [OF t _ f, simplified]
    have none: "map_of ?t ?b = None" using t by (fastforce simp: id_table_ok_def map_of_eq_None_iff)
    have "(r, st') = (Inr ?x, ?st)"
      using False run [symmetric] by (simp add: mem_create_organization_def mem_ok_next [OF ok] insert_organization_def app(1) Let_def)
    moreover have "mem_ok n ?st" using ok app(2) by (auto simp: mem_ok_def Let_def intro: id_table_mono)
    moreover have "map_of (?t @ [(?b, ?x)]) = (map_of ?t)(?b \<mapsto> ?x)"
      using none by (auto simp: fun_eq_iff map_add_def split: option.split)
    moreover have "\<forall>i y. map_of ?t i = Some y \<longrightarrow> org_permalink y \<noteq> no_permalink new"
      using False table_map_of [OF t] by (fastforce simp: list_ex_iff)
    ultimately show ?thesis
      using none by (simp add: creates_organization_def mem_view_def auth_or_default_def)
  qed
qed

lemma mem_server_by_permalink_meets:
  "meets mem_ok (mem_view E) always (mem_server_by_permalink o' p) (reads_some (finds_server o' p))"
proof (rule read_meets [OF mem_server_by_permalink_def], unfold reads_some_def, rule conjI [OF refl])
  fix n st assume "mem_ok n st"
  then show "finds_server o' p (mem_view E st) (find_value (\<lambda>x. srv_organization_id x = o' \<and> srv_permalink x = p) (st_servers (ma_store st)))"
    using wf_table_values [OF mem_okD(7), of n st] by (fastforce simp: finds_server_def mem_view_def al_values_def dest!: find_value_SomeD)
qed

lemma mem_admin_api_key_auth_meets:
  "meets mem_ok (mem_view E) always (mem_admin_api_key_auth E key) (reads (\<lambda>v. vw_key v key))"
  by (rule read_meets [OF mem_admin_api_key_auth_def]) (simp add: reads_def mem_view_def)

lemma mem_list_organizations_meets:
  "meets mem_ok (mem_view E) always mem_list_organizations (reads_some (\<lambda>v os. \<forall>x \<in> set os. vw_org v (org_id x) = Some x))"
proof (rule read_meets [OF mem_list_organizations_def], unfold reads_some_def, rule conjI [OF refl], rule ballI)
  fix n st x assume "mem_ok n st" "x \<in> set (map snd (st_organizations (ma_store st)))"
  then show "vw_org (mem_view E st) (org_id x) = Some x"
    using table_value [OF mem_okD(6), of n st x] by (simp add: mem_view_def)
qed

lemma mem_set_login_state_update:
  "mem_set_login_state u k lu ll st = (Inr (), modify_auth u (login_state k lu ll) st)"
  by (simp add: mem_set_login_state_def login_state_def [abs_def] Let_def modify_auth_def split: option.split)

lemma mem_deliver_keeps: "mem_ok (Suc n) st \<Longrightarrow> ao_deliver_mail (mem_auth_ops E mailer) am st = (sent, st') \<Longrightarrow> mem_ok n st' \<and> mem_view E st' = mem_view E st"
  by (auto simp: mem_auth_ops_def mem_ok_def mem_view_def auth_or_default_def Let_def split: prod.splits)

lemmas mem_meets =
  mem_user_by_email_meets mem_user_auth_meets mem_user_has_two_factor_meets mem_create_session_meets
  mem_session_with_user_meets mem_touch_session_meets mem_delete_session_meets mem_delete_sessions_for_user_meets
  mem_membership_meets mem_memberships_for_organization_meets mem_upsert_membership_meets mem_delete_membership_meets
  mem_create_invitation_meets mem_mark_invitation_accepted_meets mem_delete_invitation_meets
  mem_create_password_reset_meets mem_consume_password_reset_meets mem_record_auth_event_meets mem_create_user_meets
  mem_update_user_meets mem_organization_by_permalink_meets mem_list_organizations_meets mem_create_organization_meets
  mem_server_by_permalink_meets mem_admin_api_key_auth_meets

text \<open>The in-memory store keeps the contract of the account storage.\<close>

interpretation mem_accounts: account_store "mem_auth_ops E mailer" mem_ok "mem_view E" eq_ignore_ascii_case "ae_now E"
proof (unfold_locales, goal_cases)
  case (1 b st)
  then show ?case by (rule mem_ok_weaken)
next
  case (4 u d)
  show ?case using modify_auth_meets by (simp add: mem_auth_ops_def mem_set_password_digest_def [abs_def])
next
  case (5 u secret enabled)
  show ?case using modify_auth_meets by (simp add: mem_auth_ops_def mem_set_totp_def [abs_def])
next
  case (6 u k lu ll)
  show ?case using modify_auth_meets by (simp add: mem_auth_ops_def mem_set_login_state_update [abs_def])
next
  case (7 u dis)
  show ?case using modify_auth_meets by (simp add: mem_auth_ops_def mem_set_user_disabled_def [abs_def])
next
  case (14 b st h se)
  then show ?case by (auto simp: mem_view_def dest: by_key_SomeD)
next
  case (16 u)
  show ?case by (simp add: mem_auth_ops_def) (rule read_meets [OF mem_memberships_for_user_def], simp add: reads_some_def)
next
  case (21 h)
  show ?case by (simp add: mem_auth_ops_def)
      (rule read_meets [OF mem_invitation_by_token_hash_def], simp add: reads_def mem_view_def by_key_def)
next
  case (22 b st h iv h' iv')
  then have k: "by_key iv_token_hash h (ma_invitations st) = Some iv" "by_key iv_token_hash h' (ma_invitations st) = Some iv'"
    by (simp_all add: mem_view_def)
  note m = k [THEN by_key_SomeD]
  have "map_of (ma_invitations st) (iv_id iv) = Some iv" by (rule table_value [OF mem_okD(4) [OF 22(1)] conjunct2 [OF m(1)]])
  moreover have "map_of (ma_invitations st) (iv_id iv') = Some iv'" by (rule table_value [OF mem_okD(4) [OF 22(1)] conjunct2 [OF m(2)]])
  ultimately have "iv = iv'" using 22(4) by (metis option.inject)
  with m show ?case by blast
next
  case (23 o')
  show ?case by (simp add: mem_auth_ops_def) (rule read_meets [OF mem_list_invitations_def], simp add: reads_some_def)
next
  case (29 lim)
  show ?case by (simp add: mem_auth_ops_def) (rule read_meets [OF mem_list_auth_events_def], simp add: reads_some_def)
next
  case (33 b st x org x' org')
  then show ?case by (rule mem_permalink_unique)
next
  case (38 le)
  show ?case
    by (simp add: mem_auth_ops_def)
      (rule write_meets [OF mem_enqueue_lifecycle_event_def], simp_all add: mem_ok_def mem_view_def writes_def auth_or_default_def Let_def)
next
  case (39 b st am sent st')
  then show ?case by (rule mem_deliver_keeps)
qed (simp_all add: mem_auth_ops_def mem_meets del: not_None_eq)

end
