(* ===== verification/Account_Safety.thy ===== *)
theory Account_Safety
  imports Mem_Accounts
begin

text \<open>
  The guarantees of the account handlers on the in-memory store, which never fails: who gets a
  session, lockout, the session middleware, revocation, single use of reset links and
  invitations.
\<close>

lemma mem_reliable: "reliable_login (mem_auth_ops E mailer)"
  by (simp add: reliable_login_def never_fails_def mem_auth_ops_def mem_user_by_email_def mem_user_auth_def mem_set_login_state_def)

lemma mem_never_fails [simp]:
  "never_fails (ao_user_auth (mem_auth_ops E mailer) u)" "never_fails (ao_delete_sessions_for_user (mem_auth_ops E mailer) u)"
  "never_fails (ao_set_login_state (mem_auth_ops E mailer) u k l t)"
  by (simp_all add: never_fails_def mem_auth_ops_def mem_user_auth_def mem_set_login_state_def mem_delete_sessions_for_user_def Let_def)

lemmas mem_run = runsD [where ok = mem_ok and V = "mem_view E" for E]

text \<open>
  C10. A successful login opens one new session, for an account whose address and password match, that is not
  disabled or locked and whose second factor is met, and clears its failure counter; a refused login opens no session.
\<close>

theorem login_sound:
  assumes "ap_store S = mem_auth_ops E mailer" "mem_ok 6 st"
    and "vw_session (mem_view E st) (hash_token (ap_crypto S) (rq_token R)) = None"
    and "login S R body st = (r, st')"
  shows "if succeeded r
    then \<exists>u s. may_login S R body eq_ignore_ascii_case (mem_view E st) u \<and> as_user_id s = us_id u
           \<and> vw_session (mem_view E st') = (vw_session (mem_view E st))(hash_token (ap_crypto S) (rq_token R) \<mapsto> s)
           \<and> ua_failed_login_attempts (vw_auth (mem_view E st') (us_id u)) = 0
    else vw_session (mem_view E st') = vw_session (mem_view E st)"
proof -
  have "login_post S R body eq_ignore_ascii_case (mem_view E st) r (mem_view E st')"
    using mem_run [OF mem_accounts.login_runs [OF assms(1,3)], of 0] assms(2,4) by simp
  then show ?thesis
  proof (cases "succeeded r")
    case True
    with \<open>login_post S R body eq_ignore_ascii_case (mem_view E st) r (mem_view E st')\<close> obtain u s
      where "may_login S R body eq_ignore_ascii_case (mem_view E st) u" "as_user_id s = us_id u"
        "mem_view E st' = (update_auth (us_id u) (login_state 0 None (Some (rq_clock R 0))) (mem_view E st))
           \<lparr>vw_session := (vw_session (mem_view E st))(hash_token (ap_crypto S) (rq_token R) \<mapsto> s)\<rparr>"
      unfolding login_post_def by auto
    with True show ?thesis by (simp, intro exI [of _ u] exI [of _ s]) (auto simp: login_state_def)
  qed (auto simp: login_post_def)
qed

text \<open>
  C27. After as many wrong passwords as the configuration allows, each answered alike, the account is locked:
  until the lockout ends even the right password is answered 403 and opens no session.
\<close>

theorem lockout_after_max_attempts:
  assumes "ap_store S = mem_auth_ops E mailer" "ap_auth_store S" "mem_ok (6 + 6 * length xs) st"
    and u: "only_account eq_ignore_ascii_case (mem_view E st) email u" and a: "vw_auth (mem_view E st) (us_id u) = a"
    and "email \<noteq> []" "\<not> ua_disabled a" "ua_locked_until a = None" "ua_failed_login_attempts a = 0"
    and "length xs = cf_max_login_attempts (ap_config S)" "xs \<noteq> []" "cf_max_login_attempts (ap_config S) < 2 ^ 32"
    and "\<forall>x \<in> set xs. guess S email a x" and run: "logins S xs st = (rs, st1)"
    and body: "lb_email_address body = Some email" "lb_password body = Some p" "p \<noteq> []"
    and "rq_clock R 0 < rq_clock (fst (last xs)) 0 + minutes_span (cf_lockout_minutes (ap_config S))"
    and "login S R body st1 = (r, st2)"
  shows "(\<forall>x \<in> set rs. x = invalid_credentials) \<and> rs_status r = 403 \<and> vw_session (mem_view E st2) = vw_session (mem_view E st)"
proof -
  obtain k where k: "mem_ok 6 st1" "\<forall>x \<in> set rs. x = invalid_credentials"
    "mem_view E st1 = update_auth (us_id u)
       (login_state k (Some (rq_clock (fst (last xs)) 0 + minutes_span (cf_lockout_minutes (ap_config S)))) None) (mem_view E st)"
    using mem_accounts.logins_wrong [OF assms(1,2) mem_reliable assms(12,3) u assms(6,11) a assms(7,8) _ assms(13) run] assms(9,10)
    by auto
  have "only_account eq_ignore_ascii_case (mem_view E st1) email u" "\<not> ua_disabled (vw_auth (mem_view E st1) (us_id u))"
    "locked_at (rq_clock R 0) (vw_auth (mem_view E st1) (us_id u))"
    using u a assms(7,18) by (simp_all add: k(3) login_state_def locked_at_def)
  note locked = mem_accounts.login_locked_runs [OF assms(1,2) mem_reliable this(1) body(1,2) assms(6) body(3) this(2,3)]
  have "rs_status r = 403 \<and> mem_view E st2 = mem_view E st1"
    using mem_run [OF locked, of 0] k(1) assms(19) by simp
  with k(2,3) show ?thesis by simp
qed

text \<open>
  Behind the session middleware a handler runs only as the account of a session that exists and has not
  expired; every other request is refused without effect.
\<close>

theorem session_required:
  assumes "ap_store S = mem_auth_ops E mailer" "mem_ok 2 st" "session_middleware S R next st = (r, st')"
  shows "(\<not> succeeded r \<and> mem_view E st' = mem_view E st)
    \<or> (\<exists>s u st1. vw_session (mem_view E st) (hash_token (ap_crypto S) (bearer_token R)) = Some s \<and> rq_clock R 0 < as_expires_at s
         \<and> vw_user (mem_view E st) (as_user_id s) = Some u
         \<and> next \<lparr>cu_user = u, cu_token_hash = hash_token (ap_crypto S) (bearer_token R)\<rparr> st1 = (r, st')
         \<and> vw_user (mem_view E st1) = vw_user (mem_view E st) \<and> vw_auth (mem_view E st1) = vw_auth (mem_view E st)
         \<and> vw_role (mem_view E st1) = vw_role (mem_view E st))"
proof -
  let ?h = "hash_token (ap_crypto S) (bearer_token R)"
  have look: "ao_session_with_user (ap_store S) ?h st = (Inr (session_user ?h (mem_view E st)), st)"
    by (simp add: assms(1) mem_auth_ops_def mem_session_with_user_def session_user_def mem_view_def by_key_def split: option.split)
  show ?thesis
  proof (cases "\<exists>s u. session_user ?h (mem_view E st) = Some (s, u) \<and> rq_clock R 0 < as_expires_at s \<and> bearer_token R \<noteq> [] \<and> ap_auth_store S")
    case True
    then obtain s u where su: "session_user ?h (mem_view E st) = Some (s, u)" "rq_clock R 0 < as_expires_at s" "bearer_token R \<noteq> []" "ap_auth_store S"
      by blast
    obtain x st1 where t: "ao_touch_session (ap_store S) (as_id s) (rq_clock R 0)
        (rq_clock R 0 + days_span (cf_session_timeout_days (ap_config S))) st = (x, st1)" by (metis surj_pair)
    have "next \<lparr>cu_user = u, cu_token_hash = ?h\<rparr> st1 = (r, st')"
      using assms(3) su look t by (simp add: session_middleware_def with_accounts_def call_def ignore_def Let_def)
    moreover have "vw_user (mem_view E st1) = vw_user (mem_view E st) \<and> vw_auth (mem_view E st1) = vw_auth (mem_view E st)
        \<and> vw_role (mem_view E st1) = vw_role (mem_view E st)"
      using t by (auto simp: assms(1) mem_auth_ops_def mem_touch_session_def mem_view_def auth_or_default_def)
    moreover have "vw_session (mem_view E st) ?h = Some s \<and> vw_user (mem_view E st) (as_user_id s) = Some u"
      using su(1) by (auto simp: session_user_def split: option.splits)
    ultimately show ?thesis using su(2) by blast
  next
    case False
    then have "\<not> succeeded r \<and> st' = st"
      using assms(3) look
      by (auto simp: session_middleware_def with_accounts_def call_def answer_def Let_def split: if_splits option.splits)
    then show ?thesis by simp
  qed
qed

text \<open>
  C31. A password change needs the current password where one is set, and ends every session of the account
  but the one it opens; the sessions of other accounts stay.
\<close>

theorem password_change_revokes:
  assumes "ap_store S = mem_auth_ops E mailer" "mem_ok 6 st"
    and "vw_session (mem_view E st) (hash_token (ap_crypto S) (rq_token R)) = None"
    and "change_password S R current cp np st = (r, st')" "succeeded r"
  shows "password_confirmed (ap_crypto S) (vw_auth (mem_view E st) (us_id (cu_user current))) cp
    \<and> (\<forall>h s. vw_session (mem_view E st') h = Some s \<and> as_user_id s = us_id (cu_user current) \<longrightarrow> h = hash_token (ap_crypto S) (rq_token R))
    \<and> (\<forall>h s. vw_session (mem_view E st) h = Some s \<and> as_user_id s \<noteq> us_id (cu_user current) \<longrightarrow> vw_session (mem_view E st') h = Some s)
    \<and> (\<exists>password digest. np = Some password \<and> ax_hash_password (ap_crypto S) (rq_salt R) password = Inr digest
         \<and> ua_password_digest (vw_auth (mem_view E st') (us_id (cu_user current))) = Some digest)"
proof -
  have "change_post S R current cp np (mem_view E st) r (mem_view E st')"
    using mem_run [OF mem_accounts.change_password_runs [OF assms(1,3)], of 0] assms(2,4) by simp
  then obtain password digest s sessions where c: "np = Some password"
    "password_confirmed (ap_crypto S) (vw_auth (mem_view E st) (us_id (cu_user current))) cp"
    "ax_hash_password (ap_crypto S) (rq_salt R) password = Inr digest" "as_user_id s = us_id (cu_user current)"
    "revoked S (us_id (cu_user current)) (mem_view E st) sessions"
    "mem_view E st' = (update_auth (us_id (cu_user current)) (\<lambda>a. a\<lparr>ua_password_digest := Some digest\<rparr>) (mem_view E st))
       \<lparr>vw_session := sessions(hash_token (ap_crypto S) (rq_token R) \<mapsto> s)\<rparr>"
    using assms(5) unfolding change_post_def by blast
  have "sessions = vw_session (drop_sessions (\<lambda>s. as_user_id s = us_id (cu_user current)) (mem_view E st))"
    using c(5) by (simp add: revoked_def assms(1))
  with c assms(3) show ?thesis by (auto split: option.splits if_splits)
qed

text \<open>
  The answer to a request for a reset link does not depend on the accounts.
\<close>

theorem reset_request_reveals_nothing:
  assumes "ap_store S = mem_auth_ops E mailer" "mem_ok 5 st1" "mem_ok 5 st2"
    and "vw_reset (mem_view E st1) (hash_token (ap_crypto S) (rq_token R)) = None"
    and "vw_reset (mem_view E st2) (hash_token (ap_crypto S) (rq_token R)) = None"
  shows "fst (password_reset_request S R email st1) = fst (password_reset_request S R email st2)"
proof -
  have "reset_request_post S R eq_ignore_ascii_case email (mem_view E st) (fst (password_reset_request S R email st))
      (mem_view E (snd (password_reset_request S R email st)))"
    if "mem_ok 5 st" "vw_reset (mem_view E st) (hash_token (ap_crypto S) (rq_token R)) = None" for st
    using mem_run [OF mem_accounts.password_reset_request_runs [OF assms(1) that(2)], of 0] that(1)
    by (simp add: prod_eq_iff)
  from this [OF assms(2,4)] this [OF assms(3,5)] show ?thesis by (simp add: reset_request_post_def)
qed

text \<open>
  C29. A reset link works once, before it expires and not for a disabled account: it sets the password and ends
  all sessions of the account; using it again changes no password and no session.
\<close>

theorem reset_link_single_use:
  assumes "ap_store S = mem_auth_ops E mailer" "mem_ok 12 st"
    and "password_reset_complete S R (Some token) np st = (r, st1)" "succeeded r"
    and "password_reset_complete S R' (Some token) np' st1 = (r', st2)"
  shows "(\<exists>u expires. vw_reset (mem_view E st) (hash_token (ap_crypto S) token) = Some (u, expires) \<and> rq_clock R 0 \<le> expires
        \<and> (vw_user (mem_view E st) u \<noteq> None \<longrightarrow> \<not> ua_disabled (vw_auth (mem_view E st) u))
        \<and> (\<forall>h s. vw_session (mem_view E st1) h = Some s \<longrightarrow> as_user_id s \<noteq> u)
        \<and> (\<exists>password digest. np = Some password \<and> ax_hash_password (ap_crypto S) (rq_salt R) password = Inr digest
            \<and> ua_password_digest (vw_auth (mem_view E st1) u) = Some digest))
    \<and> \<not> succeeded r' \<and> vw_session (mem_view E st2) = vw_session (mem_view E st1) \<and> vw_auth (mem_view E st2) = vw_auth (mem_view E st1)"
proof -
  have one: "mem_ok 6 st1" "reset_post S R (Some token) np (mem_view E st) r (mem_view E st1)"
    using mem_run [OF mem_accounts.password_reset_complete_runs [OF assms(1)], of 6] assms(2,3) by auto
  have two: "reset_post S R' (Some token) np' (mem_view E st1) r' (mem_view E st2)"
    using mem_run [OF mem_accounts.password_reset_complete_runs [OF assms(1)], of 0] one(1) assms(5) by auto
  from one(2) assms(4) obtain password digest u expires sessions f where c: "np = Some password"
    "vw_reset (mem_view E st) (hash_token (ap_crypto S) token) = Some (u, expires)" "rq_clock R 0 \<le> expires"
    "vw_user (mem_view E st) u \<noteq> None \<longrightarrow> \<not> ua_disabled (vw_auth (mem_view E st) u)"
    "ax_hash_password (ap_crypto S) (rq_salt R) password = Inr digest" "revoked S u (mem_view E st) sessions"
    "f = login_state 0 None None"
    "mem_view E st1 = (update_auth u (f \<circ> ua_password_digest_update (\<lambda>_. Some digest)) (mem_view E st))
       \<lparr>vw_session := sessions, vw_reset := (vw_reset (mem_view E st))(hash_token (ap_crypto S) token := None)\<rparr>"
    unfolding reset_post_def by (auto simp: assms(1))
  have "sessions = vw_session (drop_sessions (\<lambda>s. as_user_id s = u) (mem_view E st))"
    using c(6) by (simp add: revoked_def assms(1))
  then have "\<forall>h s. vw_session (mem_view E st1) h = Some s \<longrightarrow> as_user_id s \<noteq> u"
    using c(8) by (auto split: option.splits if_splits)
  moreover have "ua_password_digest (vw_auth (mem_view E st1) u) = Some digest"
    using c(7,8) by (simp add: login_state_def)
  moreover have "vw_reset (mem_view E st1) (hash_token (ap_crypto S) token) = None" using c(8) by simp
  then have "\<not> succeeded r' \<and> vw_session (mem_view E st2) = vw_session (mem_view E st1) \<and> vw_auth (mem_view E st2) = vw_auth (mem_view E st1)"
    using two by (auto simp: reset_post_def split: if_splits)
  ultimately show ?thesis using c(1-5) by blast
qed

text \<open>
  C30. An invitation is accepted once, by the account of the invited address: it gives that account, and
  nobody else, the role the invitation names in its organization. Where an account with the address exists,
  that account gets the role and no session is opened, no account made and no password set. Otherwise a
  new account without administrator rights is made for the invited address, with the password of the request,
  and the one session that is opened belongs to it. A second acceptance fails and opens no session.
\<close>

theorem invitation_single_use:
  assumes "ap_store S = mem_auth_ops E mailer" "mem_ok 20 st"
    and "vw_session (mem_view E st) (hash_token (ap_crypto S) (rq_token R)) = None"
    and "vw_session (mem_view E st1) (hash_token (ap_crypto S) (rq_token R')) = None"
    and "ab_token body = Some token" "ab_token body' = Some token"
    and "invitation_accept S R body st = (r, st1)" "succeeded r" "invitation_accept S R' body' st1 = (r', st2)"
  shows "(\<exists>i u. vw_invitation (mem_view E st) (hash_token (ap_crypto S) token) = Some i \<and> invitation_usable (rq_clock R 0) i
        \<and> eq_ignore_ascii_case (us_email_address u) (iv_email_address i)
        \<and> vw_role (mem_view E st1) = (vw_role (mem_view E st))
            (iv_organization_id i := (vw_role (mem_view E st) (iv_organization_id i))(us_id u \<mapsto> iv_role i))
        \<and> (if \<exists>j w. vw_user (mem_view E st) j = Some w \<and> eq_ignore_ascii_case (us_email_address w) (iv_email_address i)
           then vw_user (mem_view E st) (us_id u) = Some u \<and> vw_user (mem_view E st1) = vw_user (mem_view E st)
             \<and> vw_auth (mem_view E st1) = vw_auth (mem_view E st) \<and> vw_session (mem_view E st1) = vw_session (mem_view E st)
           else (\<exists>p digest s. vw_user (mem_view E st) (us_id u) = None \<and> \<not> us_admin u
             \<and> vw_user (mem_view E st1) = (vw_user (mem_view E st))(us_id u \<mapsto> u)
             \<and> ab_password body = Some p \<and> ax_hash_password (ap_crypto S) (rq_salt R) p = Inr digest
             \<and> ua_password_digest (vw_auth (mem_view E st1) (us_id u)) = Some digest
             \<and> as_user_id s = us_id u
             \<and> vw_session (mem_view E st1) = (vw_session (mem_view E st))(hash_token (ap_crypto S) (rq_token R) \<mapsto> s))))
    \<and> \<not> succeeded r' \<and> vw_session (mem_view E st2) = vw_session (mem_view E st1)"
proof -
  let ?v = "mem_view E st" and ?v1 = "mem_view E st1"
  have one: "mem_ok 10 st1" "accept_post S R body eq_ignore_ascii_case (ae_now E) ?v r ?v1"
    using mem_run [OF mem_accounts.invitation_accept_runs [OF assms(1,3)], of 10] assms(2,7) by auto
  have two: "accept_post S R' body' eq_ignore_ascii_case (ae_now E) ?v1 r' (mem_view E st2)"
    using mem_run [OF mem_accounts.invitation_accept_runs [OF assms(1,4)], of 0] one(1) assms(9) by auto
  obtain i and u :: user where i: "vw_invitation ?v (hash_token (ap_crypto S) token) = Some i" "invitation_usable (rq_clock R 0) i"
    and roles: "vw_role ?v1 = (vw_role ?v)(iv_organization_id i := (vw_role ?v (iv_organization_id i))(us_id u \<mapsto> iv_role i))"
      "vw_invitation ?v1 = vw_invitation (map_invitations (accept_invitation (iv_id i) (ae_now E)) ?v)"
    and acc: "if \<exists>j w. vw_user ?v j = Some w \<and> eq_ignore_ascii_case (us_email_address w) (iv_email_address i)
      then vw_user ?v (us_id u) = Some u \<and> eq_ignore_ascii_case (us_email_address u) (iv_email_address i)
        \<and> vw_user ?v1 = vw_user ?v \<and> vw_auth ?v1 = vw_auth ?v \<and> vw_session ?v1 = vw_session ?v
      else (\<exists>p digest s. vw_user ?v (us_id u) = None \<and> us_email_address u = iv_email_address i \<and> \<not> us_admin u
        \<and> ab_password body = Some p \<and> cf_minimum_password_length (ap_config S) \<le> length p
        \<and> ax_hash_password (ap_crypto S) (rq_salt R) p = Inr digest
        \<and> vw_user ?v1 = (vw_user ?v)(us_id u \<mapsto> u)
        \<and> vw_auth ?v1 = (vw_auth ?v)(us_id u := (vw_auth ?v (us_id u))\<lparr>ua_password_digest := Some digest\<rparr>)
        \<and> as_user_id s = us_id u \<and> vw_session ?v1 = (vw_session ?v)(hash_token (ap_crypto S) (rq_token R) \<mapsto> s))"
    using one(2) [unfolded accept_post_def if_P [OF assms(8)]] assms(5) by (metis option.inject)
  have "vw_invitation ?v1 (hash_token (ap_crypto S) token) = accept_invitation (iv_id i) (ae_now E) i"
    using i(1) roles(2) by simp
  then have "\<not> succeeded r' \<and> vw_session (mem_view E st2) = vw_session ?v1"
    using two assms(6) by (auto simp: accept_post_def accept_invitation_def invitation_usable_def split: if_splits)
  moreover have "eq_ignore_ascii_case (us_email_address u) (iv_email_address i)"
    using acc by (auto simp: eq_ignore_ascii_case_def split: if_splits)
  ultimately show ?thesis
    using i roles(1) acc by (intro conjI exI [of _ i] exI [of _ u]) (auto split: if_splits)
qed

text \<open>Starting an enrolment turns the second factor off; no password is asked for.\<close>

theorem totp_enroll_drops_second_factor:
  assumes "ap_store S = mem_auth_ops E mailer" "mem_ok 1 st" "totp_enroll S R current st = (r, st')" "succeeded r"
  shows "\<not> ua_totp_enabled (vw_auth (mem_view E st') (us_id (cu_user current)))
    \<and> code_accepted (ap_crypto S) (vw_auth (mem_view E st') (us_id (cu_user current))) None now"
proof -
  have "totp_change_post (\<lambda>_. True) (\<lambda>a. a\<lparr>ua_totp_secret := Some (rq_secret R), ua_totp_enabled := False\<rparr>)
      (us_id (cu_user current)) (mem_view E st) r (mem_view E st')"
    using mem_run [OF mem_accounts.totp_enroll_runs [OF assms(1)], of 0] assms(2,3) by auto
  with assms(4) show ?thesis by (simp add: totp_change_post_def code_accepted_def)
qed

section \<open>An instance\<close>

text \<open>One account with a session, a reset link and an invitation to a second organization.\<close>

definition demo_user :: user where
  "demo_user = \<lparr>us_id = 1, us_uuid = ''u1'', us_email_address = ''a@x'', us_first_name = ''A'', us_last_name = ''B'', us_admin = False\<rparr>"

definition demo_account_session :: auth_session where
  "demo_account_session = \<lparr>as_id = 2, as_user_id = 1, as_token_hash = to_hex ''old'', as_created_at = 0, as_expires_at = 100,
     as_last_used_at = 0, as_ip_address = None, as_user_agent = None, as_oidc_logout = None\<rparr>"

definition demo_invitation :: invitation where
  "demo_invitation = \<lparr>iv_id = 3, iv_uuid = ''i3'', iv_organization_id = 7, iv_email_address = ''A@x'', iv_role = Member,
     iv_token_hash = to_hex ''inv'', iv_invited_by_user_id = 1, iv_expires_at = 100, iv_accepted_at = None\<rparr>"

definition demo_accounts :: mem_accounts where
  "demo_accounts =
     \<lparr>ma_store = memory_store_new\<lparr>st_next_id := 10\<rparr>, ma_users = [(1, demo_user)],
      ma_user_auth = [(1, (user_auth_default 1)\<lparr>ua_password_digest := Some ''$pw'', ua_totp_enabled := False\<rparr>)],
      ma_sessions = [(2, demo_account_session)], ma_memberships = [], ma_invitations = [(3, demo_invitation)],
      ma_password_resets = [(1, to_hex ''reset'', 100)], ma_oidc_states = [], ma_sso_identities = [], ma_webauthn = [],
      ma_webauthn_states = [], ma_saml_requests = [], ma_saml_assertions = [], ma_auth_events = [], ma_admin_api_keys = []\<rparr>"

definition demo_account_env :: account_env where
  "demo_account_env = \<lparr>ae_now = 5, ae_uuid = (\<lambda>i. show_nat i), ae_hash = to_hex\<rparr>"

definition demo_api :: "mem_accounts api_state" where
  "demo_api =
     \<lparr>ap_store = mem_auth_ops demo_account_env (\<lambda>m ms. (False, ms)), ap_auth_store = True, ap_crypto = demo_crypto,
      ap_config = \<lparr>cf_session_timeout_days = 14, cf_max_login_attempts = 2, cf_lockout_minutes = 15, cf_minimum_password_length = 3,
        cf_allow_organization_creation = True,
        cf_invitation_expiry_days = 7, cf_password_reset_expiry_hours = 2, cf_frontend_url = None, cf_app_mail_enabled = False,
        cf_lifecycle_urls = [], cf_web_protocol = ''https'', cf_web_hostname = ''h''\<rparr>,
      ap_rfc3339 = (\<lambda>t. []), ap_global_admin_api_key = None, ap_lowercase = to_ascii_lowercase\<rparr>"

definition demo_api_request :: api_request where
  "demo_api_request = \<lparr>rq_headers = [(''authorization'', ''Bearer old'')], rq_clock = (\<lambda>_. 10), rq_token = ''new'', rq_salt = 0,
     rq_secret = ''S'', rq_uuid = ''r''\<rparr>"

definition demo_login :: "string \<Rightarrow> login_body" where
  "demo_login p = \<lparr>lb_email_address = Some ''A@X'', lb_password = Some p, lb_totp_code = None\<rparr>"

lemma demo_ok: "n \<le> 100 \<Longrightarrow> mem_ok n demo_accounts"
  by (simp add: mem_ok_def demo_accounts_def id_table_ok_def demo_user_def demo_account_session_def demo_invitation_def memory_store_new_def wf_table_def)

lemma demo_ap [simp]:
  "ap_store demo_api = mem_auth_ops demo_account_env (\<lambda>m ms. (False, ms))" "ap_auth_store demo_api" "ap_crypto demo_api = demo_crypto"
  by (simp_all add: demo_api_def)

lemma demo_fresh: "vw_session (mem_view demo_account_env demo_accounts) (hash_token (ap_crypto demo_api) (rq_token demo_api_request)) = None"
  by code_simp

lemmas demo_account_run =
  demo_api_def demo_api_request_def demo_accounts_def demo_user_def demo_account_session_def demo_invitation_def demo_login_def
  demo_account_env_def demo_crypto_def mem_auth_ops_def with_accounts_def required_def call_def attempt_call_def ignore_def answer_def audit_def
  issue_session_def issue_session_with_oidc_logout_def find_value_def eq_ignore_ascii_case_def
  auth_or_default_def user_auth_default_def locked_at_def password_matches_def hash_token_def modify_auth_def mem_next_id_def next_id_def
  Let_def

lemma demo_lower: "to_ascii_lowercase ''a@x'' = ''a@x''" "to_ascii_lowercase ''A@X'' = ''a@x''" "to_ascii_lowercase ''A@x'' = ''a@x''"
  by code_simp+

lemma demo_login_succeeds: "succeeded (fst (login demo_api demo_api_request (demo_login ''pw'') demo_accounts))"
  by (simp add: demo_account_run login_def login_checked_def mem_user_by_email_def mem_user_auth_def mem_set_login_state_def
      mem_create_session_def mem_record_auth_event_def demo_lower)

theorem login_sound_witness:
  "\<exists>u s. may_login demo_api demo_api_request (demo_login ''pw'') eq_ignore_ascii_case (mem_view demo_account_env demo_accounts) u \<and> as_user_id s = us_id u
     \<and> vw_session (mem_view demo_account_env (snd (login demo_api demo_api_request (demo_login ''pw'') demo_accounts)))
       = (vw_session (mem_view demo_account_env demo_accounts))(hash_token (ap_crypto demo_api) (rq_token demo_api_request) \<mapsto> s)"
  using login_sound [OF demo_ap(1) demo_ok [of 6, simplified] demo_fresh prod.collapse [symmetric], of "demo_login ''pw''"]
  unfolding if_P [OF demo_login_succeeds] by blast

lemma demo_only: "only_account eq_ignore_ascii_case (mem_view demo_account_env demo_accounts) ''A@X'' demo_user"
  by (simp add: only_account_def mem_view_def demo_accounts_def demo_user_def eq_ignore_ascii_case_def demo_lower)

lemma demo_account_auth: "vw_auth (mem_view demo_account_env demo_accounts) (us_id demo_user) = (user_auth_default 1)\<lparr>ua_password_digest := Some ''$pw''\<rparr>"
  by (simp add: mem_view_def demo_account_run)

text \<open>Two wrong passwords lock the account of the instance for the right one.\<close>

theorem lockout_after_max_attempts_witness:
  "\<exists>rs st1. logins demo_api [(demo_api_request, demo_login ''p1''), (demo_api_request, demo_login ''p2'')] demo_accounts = (rs, st1)
     \<and> rs_status (fst (login demo_api demo_api_request (demo_login ''pw'') st1)) = 403"
proof -
  let ?xs = "[(demo_api_request, demo_login ''p1''), (demo_api_request, demo_login ''p2'')]"
  obtain rs st1 where run: "logins demo_api ?xs demo_accounts = (rs, st1)" by (cases "logins demo_api ?xs demo_accounts")
  have "rs_status (fst (login demo_api demo_api_request (demo_login ''pw'') st1)) = 403"
    using lockout_after_max_attempts [OF demo_ap(1,2) demo_ok demo_only demo_account_auth _ _ _ _ _ _ _ _ run _ _ _ _ prod.collapse [symmetric],
        of "demo_login ''pw''" "''pw''" demo_api_request]
    by (simp add: user_auth_default_def demo_api_def guess_def demo_login_def password_matches_def demo_crypto_def demo_api_request_def minutes_span_def)
  with run show ?thesis by blast
qed

lemmas demo_ops =
  mem_user_by_email_def mem_user_auth_def mem_set_login_state_def mem_create_session_def mem_record_auth_event_def
  mem_session_with_user_def mem_touch_session_def mem_set_password_digest_def mem_delete_sessions_for_user_def
  mem_consume_password_reset_def mem_invitation_by_token_hash_def mem_upsert_membership_def mem_mark_invitation_accepted_def

text \<open>The session of the instance reaches the handler, as its account.\<close>

theorem session_required_witness:
  "\<exists>s u. vw_session (mem_view demo_account_env demo_accounts) (hash_token demo_crypto (bearer_token demo_api_request)) = Some s
     \<and> vw_user (mem_view demo_account_env demo_accounts) (as_user_id s) = Some u"
proof -
  let ?next = "\<lambda>c. answer (render_success 200 JNull) :: mem_accounts handler"
  have "succeeded (fst (session_middleware demo_api demo_api_request ?next demo_accounts))"
    by (simp add: demo_account_run demo_ops session_middleware_def bearer_token_def header_str_def strip_prefix_def, code_simp)
  then show ?thesis
    using session_required [OF demo_ap(1) demo_ok [of 2, simplified] prod.collapse [symmetric], of demo_api_request ?next] by auto
qed

definition demo_current :: current_user where
  "demo_current = \<lparr>cu_user = demo_user, cu_token_hash = to_hex ''old''\<rparr>"

lemma demo_change_succeeds: "succeeded (fst (change_password demo_api demo_api_request demo_current (Some ''pw'') (Some ''pw2'') demo_accounts))"
  by (simp add: demo_account_run demo_ops demo_current_def change_password_def too_short_def password_confirmed_def with_digest_def)

theorem password_change_revokes_witness:
  "\<not> (\<exists>h s. vw_session (mem_view demo_account_env (snd (change_password demo_api demo_api_request demo_current (Some ''pw'') (Some ''pw2'') demo_accounts))) h = Some s
     \<and> as_user_id s = us_id (cu_user demo_current) \<and> h \<noteq> hash_token (ap_crypto demo_api) (rq_token demo_api_request))"
  using password_change_revokes [OF demo_ap(1) demo_ok [of 6, simplified] demo_fresh prod.collapse [symmetric] demo_change_succeeds] by blast

theorem reset_request_reveals_nothing_witness:
  "fst (password_reset_request demo_api demo_api_request (Some ''a@x'') demo_accounts)
   = fst (password_reset_request demo_api demo_api_request (Some ''a@x'') (demo_accounts\<lparr>ma_users := []\<rparr>))"
proof (rule reset_request_reveals_nothing [OF demo_ap(1) demo_ok [of 5, simplified]])
  show "mem_ok 5 (demo_accounts\<lparr>ma_users := []\<rparr>)"
    using demo_ok [of 5] by (simp add: mem_ok_def Let_def id_table_ok_def)
qed code_simp+

lemma demo_reset_succeeds: "succeeded (fst (password_reset_complete demo_api demo_api_request (Some ''reset'') (Some ''pw2'') demo_accounts))"
  by (simp add: demo_account_run demo_ops password_reset_complete_def too_short_def is_disabled_def with_digest_def)

theorem reset_link_single_use_witness:
  "\<not> succeeded (fst (password_reset_complete demo_api demo_api_request (Some ''reset'') (Some ''pw3'')
     (snd (password_reset_complete demo_api demo_api_request (Some ''reset'') (Some ''pw2'') demo_accounts))))"
  using reset_link_single_use [OF demo_ap(1) demo_ok [of 12, simplified] prod.collapse [symmetric] demo_reset_succeeds prod.collapse [symmetric]]
  by blast

definition demo_accept :: accept_body where
  "demo_accept = \<lparr>ab_token = Some ''inv'', ab_first_name = None, ab_last_name = None, ab_password = None\<rparr>"

lemma demo_accept_succeeds: "succeeded (fst (invitation_accept demo_api demo_api_request demo_accept demo_accounts))"
  by (simp add: demo_account_run demo_ops demo_lower demo_accept_def invitation_accept_def invited_account_def invitation_usable_def)

theorem invitation_single_use_witness:
  "\<not> succeeded (fst (invitation_accept demo_api demo_api_request demo_accept (snd (invitation_accept demo_api demo_api_request demo_accept demo_accounts))))"
proof -
  have tok: "ab_token demo_accept = Some ''inv''" by (simp add: demo_accept_def)
  have "vw_session (mem_view demo_account_env (snd (invitation_accept demo_api demo_api_request demo_accept demo_accounts)))
      (hash_token (ap_crypto demo_api) (rq_token demo_api_request)) = None"
    by (simp add: demo_account_run demo_ops demo_lower demo_accept_def invitation_accept_def invited_account_def invitation_usable_def mem_view_def by_key_def, code_simp)
  from invitation_single_use [OF demo_ap(1) demo_ok [of 20, simplified] demo_fresh this tok tok prod.collapse [symmetric] demo_accept_succeeds prod.collapse [symmetric]]
  show ?thesis by blast
qed

text \<open>The second factor of the instance is off once an enrolment is started.\<close>

theorem totp_enroll_drops_second_factor_witness:
  "\<not> ua_totp_enabled (vw_auth (mem_view demo_account_env (snd (totp_enroll demo_api demo_api_request demo_current demo_accounts))) (us_id (cu_user demo_current)))"
  using totp_enroll_drops_second_factor [OF demo_ap(1) _ prod.collapse [symmetric], of demo_accounts demo_api_request demo_current] demo_ok [of 1]
  by (auto simp: totp_enroll_def demo_account_run mem_set_totp_def demo_current_def)

end
