(* ===== verification/Account_Router.thy ===== *)
theory Account_Router
  imports Account_Safety
begin

text \<open>
  The routes of \<open>/api/v2/auth\<close> (\<open>build_account_route\<close> of \<open>api/auth_api.rs\<close>) for login, password reset,
  invitations, sessions, profiles, passwords and TOTP, and what no sequence of requests to them can do:
  leave the accounts malformed, make an administrator, or give a role that no pending invitation offers.
  Not among them are the registration (\<open>/register\<close>, which with \<open>auth.bootstrap_workspace\<close> makes the new
  account the owner of a new organization), \<open>/features\<close>, \<open>/sender-addresses/confirm\<close> and the WebAuthn routes.
\<close>

text \<open>The routes without a session.\<close>

datatype public_request =
    Login login_body
  | PasswordResetRequest "string option"
  | PasswordResetComplete "string option" "string option"
  | InvitationAccept accept_body
  | InvitationPreview string

definition public_route :: "'st api_state \<Rightarrow> api_request \<Rightarrow> public_request \<Rightarrow> 'st handler" where
  "public_route S R q =
     (case q of
        Login body \<Rightarrow> login S R body
      | PasswordResetRequest email \<Rightarrow> password_reset_request S R email
      | PasswordResetComplete token password \<Rightarrow> password_reset_complete S R token password
      | InvitationAccept body \<Rightarrow> invitation_accept S R body
      | InvitationPreview token \<Rightarrow> invitation_preview S R token)"

text \<open>The routes behind the session middleware.\<close>

datatype session_request =
    Logout
  | Me
  | UpdateMe "string option" "string option"
  | ChangePassword "string option" "string option"
  | TotpEnroll
  | TotpActivate "string option"
  | TotpDisable "string option"

definition session_route :: "'st api_state \<Rightarrow> api_request \<Rightarrow> session_request \<Rightarrow> 'st handler" where
  "session_route S R q =
     session_middleware S R (\<lambda>current.
       case q of
         Logout \<Rightarrow> logout S R current
       | Me \<Rightarrow> me S current
       | UpdateMe first_name last_name \<Rightarrow> update_me S current first_name last_name
       | ChangePassword old new \<Rightarrow> change_password S R current old new
       | TotpEnroll \<Rightarrow> totp_enroll S R current
       | TotpActivate code \<Rightarrow> totp_activate S R current code
       | TotpDisable password \<Rightarrow> totp_disable S R current password)"

definition account_route :: "'st api_state \<Rightarrow> api_request \<Rightarrow> public_request + session_request \<Rightarrow> 'st handler" where
  "account_route S R q = (case q of Inl p \<Rightarrow> public_route S R p | Inr p \<Rightarrow> session_route S R p)"

section \<open>Privileges\<close>

definition offers :: "invitation \<Rightarrow> Id \<Rightarrow> role \<Rightarrow> bool" where
  "offers i x r \<longleftrightarrow> iv_accepted_at i = None \<and> iv_organization_id i = x \<and> iv_role i = r"

definition keeps_privileges :: "account_view \<Rightarrow> account_view \<Rightarrow> bool" where
  "keeps_privileges v v' \<longleftrightarrow>
     (\<forall>j x. vw_user v' j = Some x \<and> us_admin x \<longrightarrow> (\<exists>y. vw_user v j = Some y \<and> us_admin y))
     \<and> (\<forall>x u. vw_role v' x u \<noteq> vw_role v x u \<longrightarrow> (\<exists>h i r. vw_invitation v h = Some i \<and> offers i x r \<and> vw_role v' x u = Some r))
     \<and> (\<forall>h i x r. vw_invitation v' h = Some i \<and> offers i x r \<longrightarrow> (\<exists>j. vw_invitation v h = Some j \<and> offers j x r))"

lemma keeps_privileges_refl [simp]: "keeps_privileges v v"
  by (auto simp: keeps_privileges_def)

lemma keeps_privileges_trans:
  assumes a: "keeps_privileges v v1" and b: "keeps_privileges v1 v2"
  shows "keeps_privileges v v2"
  unfolding keeps_privileges_def
proof (intro conjI allI impI)
  fix x u assume "vw_role v2 x u \<noteq> vw_role v x u"
  then consider "vw_role v2 x u \<noteq> vw_role v1 x u" | "vw_role v2 x u = vw_role v1 x u" "vw_role v1 x u \<noteq> vw_role v x u" by metis
  then show "\<exists>h i r. vw_invitation v h = Some i \<and> offers i x r \<and> vw_role v2 x u = Some r"
  proof cases
    case 1
    with b obtain h i r where "vw_invitation v1 h = Some i" "offers i x r" "vw_role v2 x u = Some r" unfolding keeps_privileges_def by blast
    moreover from this(1,2) a obtain j where "vw_invitation v h = Some j" "offers j x r" unfolding keeps_privileges_def by blast
    ultimately show ?thesis by blast
  next
    case 2
    with a show ?thesis unfolding keeps_privileges_def by metis
  qed
qed (use a b in \<open>unfold keeps_privileges_def, blast+\<close>)

text \<open>Most handlers leave users, roles and invitations alone.\<close>

definition same_people :: "account_view \<Rightarrow> account_view \<Rightarrow> bool" where
  "same_people v v' \<longleftrightarrow> vw_user v' = vw_user v \<and> vw_role v' = vw_role v \<and> vw_invitation v' = vw_invitation v"

lemma same_people_keeps: "same_people v v' \<Longrightarrow> keeps_privileges v v'"
  by (auto simp: same_people_def keeps_privileges_def)

definition users_keyed :: "account_view \<Rightarrow> bool" where
  "users_keyed v \<longleftrightarrow> (\<forall>i u. vw_user v i = Some u \<longrightarrow> us_id u = i)"

definition touched :: "account_view \<Rightarrow> account_view \<Rightarrow> bool" where
  "touched v v1 \<longleftrightarrow> (\<exists>f. v1 = v\<lparr>vw_session := map_option f \<circ> vw_session v\<rparr>)"

lemma touchedI [simp]: "touched v v" "touched v (v\<lparr>vw_session := map_option f \<circ> vw_session v\<rparr>)"
  unfolding touched_def by (rule exI [of _ id], simp add: option.map_id0) blast

lemma touched_same:
  assumes "touched v v1"
  shows "same_people v v1" "vw_session v h = None \<Longrightarrow> vw_session v1 h = None"
  using assms by (auto simp: touched_def same_people_def)

definition fresh_request :: "'st api_state \<Rightarrow> api_request \<Rightarrow> account_view \<Rightarrow> bool" where
  "fresh_request S R v \<longleftrightarrow> vw_session v (hash_token (ap_crypto S) (rq_token R)) = None \<and> vw_reset v (hash_token (ap_crypto S) (rq_token R)) = None"

lemma new_user_keeps:
  assumes "vw_role v' = vw_role v" "vw_invitation v' = vw_invitation v" "\<And>j x. vw_user v' j = Some x \<Longrightarrow> us_admin x \<Longrightarrow> vw_user v j = Some x"
  shows "keeps_privileges v v'"
  using assms by (auto simp: keeps_privileges_def)

lemma accept_keeps:
  assumes "Some i = vw_invitation v h" "invitation_usable t i" "\<And>j x. vw_user v' j = Some x \<Longrightarrow> us_admin x \<Longrightarrow> vw_user v j = Some x"
    and role: "vw_role v' = (vw_role v)(iv_organization_id i := (vw_role v (iv_organization_id i))(u := Some (iv_role i)))"
    and inv: "\<And>k. vw_invitation v' k = vw_invitation v k \<or> (\<exists>n m. vw_invitation v' k = Option.bind (vw_invitation v k) (accept_invitation n m))"
  shows "keeps_privileges v v'"
proof -
  have "offers i (iv_organization_id i) (iv_role i)" using assms(2) by (simp add: offers_def invitation_usable_def)
  then have "\<exists>h j r. vw_invitation v h = Some j \<and> offers j x r \<and> vw_role v' x w = Some r" if "vw_role v' x w \<noteq> vw_role v x w" for x w
    using that assms(1) [symmetric] role by (auto split: if_splits)
  moreover have "\<exists>j'. vw_invitation v k = Some j' \<and> offers j' x r" if "vw_invitation v' k = Some j" "offers j x r" for k j x r
    using inv [of k] that by (cases "vw_invitation v k") (auto simp: accept_invitation_def offers_def split: if_splits)
  ultimately show ?thesis using assms(3) unfolding keeps_privileges_def by blast
qed

context account_store
begin

lemma session_middleware_keeps:
  assumes S: "ap_store S = A" and refuse: "\<And>r. \<not> succeeded r \<Longrightarrow> Q r v" and keyed: "users_keyed v"
    and cont: "\<And>current v1. vw_user v (us_id (cu_user current)) = Some (cu_user current) \<Longrightarrow> touched v v1 \<Longrightarrow> runs ok V k v1 (next current) Q"
  shows "runs ok V (k + 2) v (session_middleware S R next) Q"
proof -
  have user: "vw_user v (us_id u) = Some u" if "Some (s, u) = session_user h v" for s u h
    using that [symmetric] keyed by (auto simp: session_user_def users_keyed_def split: option.splits)
  show ?thesis
    unfolding session_middleware_def Let_def S
    by (intro runs_rules) (auto simp: contract_defs intro!: refuse cont dest: user)
qed

lemmas handler_defs = login_def login_checked_def failed_attempt_def password_reset_request_def password_reset_complete_def
  invitation_preview_def logout_def me_def change_password_def totp_enroll_def totp_activate_def totp_disable_def
  audit_def issue_session_def issue_session_with_oidc_logout_def with_digest_def

lemma public_keeps:
  assumes S: "ap_store S = A" and "fresh_request S R v"
  shows "runs ok V 6 v (login S R body) (\<lambda>r v'. same_people v v')"
    "runs ok V 6 v (password_reset_request S R email) (\<lambda>r v'. same_people v v')"
    "runs ok V 6 v (password_reset_complete S R token np) (\<lambda>r v'. same_people v v')"
    "runs ok V 6 v (invitation_preview S R t) (\<lambda>r v'. same_people v v')"
  unfolding handler_defs Let_def S
  by ((intro runs_rules runs_deliver [OF S]);
      use assms(2) in \<open>auto simp: contract_defs same_people_def fresh_request_def creates_session_def consumes_reset_def S\<close>)+

lemma protected_keeps:
  assumes S: "ap_store S = A" and "vw_session v (hash_token (ap_crypto S) (rq_token R)) = None"
  shows "runs ok V 6 v (logout S R current) (\<lambda>r v'. same_people v v')"
    "runs ok V 6 v (me S current) (\<lambda>r v'. same_people v v')"
    "runs ok V 6 v (change_password S R current cp np) (\<lambda>r v'. same_people v v')"
    "runs ok V 6 v (totp_enroll S R current) (\<lambda>r v'. same_people v v')"
    "runs ok V 6 v (totp_activate S R current code) (\<lambda>r v'. same_people v v')"
    "runs ok V 6 v (totp_disable S R current pw) (\<lambda>r v'. same_people v v')"
  unfolding handler_defs Let_def S
  by ((intro runs_rules);
      use assms(2) in \<open>auto simp: contract_defs same_people_def creates_session_def S\<close>)+

lemma update_me_keeps:
  assumes S: "ap_store S = A" and "vw_user v (us_id (cu_user current)) = Some (cu_user current)"
  shows "runs ok V 6 v (update_me S current a b) (\<lambda>r v'. keeps_privileges v v')"
  unfolding update_me_def Let_def S
  by (intro runs_rules) (use assms(2) in \<open>auto simp: keeps_privileges_def split: if_splits\<close>)

lemma invitation_accept_keeps:
  assumes S: "ap_store S = A" and "fresh_request S R v"
  shows "runs ok V 10 v (invitation_accept S R body) (\<lambda>r v'. keeps_privileges v v')"
  unfolding invitation_accept_def invited_account_def user_registered_def emit_def Let_def S audit_def with_digest_def
    issue_session_def issue_session_with_oidc_logout_def
  by (intro runs_rules; clarsimp simp: contract_defs upserts_membership_def creates_user_def creates_session_def assms(2) [unfolded fresh_request_def];
      ((rule new_user_keeps; auto split: if_splits; fail)
       | ((rule accept_keeps, assumption+); auto simp: fun_eq_iff split: if_splits)))

lemma public_route_keeps:
  assumes S: "ap_store S = A" and "fresh_request S R v"
  shows "runs ok V 10 v (public_route S R q) (\<lambda>r v'. keeps_privileges v v')"
proof -
  have mono: "runs ok V 10 v h (\<lambda>r v'. keeps_privileges v v')" if "runs ok V 6 v h (\<lambda>r v'. same_people v v')" for h
    by (rule runs_more [OF runs_post [OF that same_people_keeps] _ budget_ok]) simp_all
  show ?thesis
    by (cases q) (auto simp: public_route_def intro!: mono public_keeps [OF S assms(2)] invitation_accept_keeps [OF S assms(2)])
qed

lemma session_route_keeps:
  assumes S: "ap_store S = A" and "fresh_request S R v" "users_keyed v"
  shows "runs ok V 10 v (session_route S R q) (\<lambda>r v'. keeps_privileges v v')"
  unfolding session_route_def
proof (rule runs_more [OF session_middleware_keeps [OF S _ assms(3), where k = 6] _ budget_ok])
  fix current :: current_user and v1 assume u: "vw_user v (us_id (cu_user current)) = Some (cu_user current)" and t: "touched v v1"
  from touched_same(1) [OF t] u have u1: "vw_user v1 (us_id (cu_user current)) = Some (cu_user current)" by (simp add: same_people_def)
  have n1: "vw_session v1 (hash_token (ap_crypto S) (rq_token R)) = None"
    using assms(2) by (intro touched_same(2) [OF t]) (simp add: fresh_request_def)
  have "runs ok V 6 v1 (case q of
         Logout \<Rightarrow> logout S R current
       | Me \<Rightarrow> me S current
       | UpdateMe first_name last_name \<Rightarrow> update_me S current first_name last_name
       | ChangePassword old new \<Rightarrow> change_password S R current old new
       | TotpEnroll \<Rightarrow> totp_enroll S R current
       | TotpActivate code \<Rightarrow> totp_activate S R current code
       | TotpDisable password \<Rightarrow> totp_disable S R current password) (\<lambda>r v'. keeps_privileges v1 v')"
    by (cases q)
       (auto intro!: update_me_keeps [OF S u1] same_people_keeps
          runs_post [OF protected_keeps(1) [OF S n1]] runs_post [OF protected_keeps(2) [OF S n1]]
          runs_post [OF protected_keeps(3) [OF S n1]] runs_post [OF protected_keeps(4) [OF S n1]]
          runs_post [OF protected_keeps(5) [OF S n1]] runs_post [OF protected_keeps(6) [OF S n1]])
  then show "runs ok V 6 v1 (case q of
         Logout \<Rightarrow> logout S R current
       | Me \<Rightarrow> me S current
       | UpdateMe first_name last_name \<Rightarrow> update_me S current first_name last_name
       | ChangePassword old new \<Rightarrow> change_password S R current old new
       | TotpEnroll \<Rightarrow> totp_enroll S R current
       | TotpActivate code \<Rightarrow> totp_activate S R current code
       | TotpDisable password \<Rightarrow> totp_disable S R current password) (\<lambda>r v'. keeps_privileges v v')"
    by (rule runs_post) (rule keeps_privileges_trans [OF same_people_keeps [OF touched_same(1) [OF t]]])
qed simp_all

lemma account_route_keeps:
  assumes "ap_store S = A" "fresh_request S R v" "users_keyed v"
  shows "runs ok V 10 v (account_route S R q) (\<lambda>r v'. keeps_privileges v v')"
  by (cases q) (simp_all add: account_route_def public_route_keeps session_route_keeps assms)

end

section \<open>Sequences of requests\<close>

text \<open>States after \<open>k\<close> requests, each with a token that is not in use.\<close>

inductive requests_served :: "mem_accounts api_state \<Rightarrow> account_env \<Rightarrow> nat \<Rightarrow> mem_accounts \<Rightarrow> mem_accounts \<Rightarrow> bool" for S E where
  requests_none: "requests_served S E 0 st st"
| requests_more: "requests_served S E k st st1 \<Longrightarrow> fresh_request S R (mem_view E st1) \<Longrightarrow> account_route S R q st1 = (r, st2) \<Longrightarrow> requests_served S E (Suc k) st st2"

lemma mem_users_keyed: "mem_ok n st \<Longrightarrow> users_keyed (mem_view E st)"
  using mem_okD(1) [of n st] by (auto simp: users_keyed_def mem_view_def id_table_ok_def list_all_iff dest: map_of_SomeD)

lemma account_route_step:
  assumes S: "ap_store S = mem_auth_ops E mailer" and ok: "mem_ok (n + 10) st" and "fresh_request S R (mem_view E st)" "account_route S R q st = (r, st')"
  shows "mem_ok n st' \<and> keeps_privileges (mem_view E st) (mem_view E st')"
  using mem_run [OF mem_accounts.account_route_keeps [OF S assms(3) mem_users_keyed [OF ok]] ok assms(4)] .

lemma served_keeps:
  assumes "requests_served S E k st st'" "ap_store S = mem_auth_ops E mailer" "mem_ok (n + 10 * k) st"
  shows "mem_ok n st' \<and> keeps_privileges (mem_view E st) (mem_view E st')"
  using assms
proof (induction arbitrary: n rule: requests_served.induct)
  case (requests_more k st st1 R q r st2)
  then have one: "mem_ok (n + 10) st1" "keeps_privileges (mem_view E st) (mem_view E st1)"
    using requests_more.IH [of "n + 10"] by (simp_all add: add.assoc)
  from account_route_step [OF requests_more.prems(1) one(1) requests_more.hyps(2,3)] one(2)
  show ?case by (blast intro: keeps_privileges_trans)
qed simp

text \<open>
  C32. The accounts stay well formed under every sequence of requests to the routes for login, password
  reset, invitations, sessions, profiles, passwords and TOTP: ids below the counter, one user per id, one
  session and one invitation per token, one membership per organization and user, one organization per
  permalink. Every request has a random token that is not in use.
\<close>

theorem account_requests_well_formed:
  assumes "ap_store S = mem_auth_ops E mailer" "mem_ok (n + 10 * k) st" "requests_served S E k st st'"
  shows "mem_ok n st'"
  using served_keeps [OF assms(3,1,2)] by blast

text \<open>
  C9. No sequence of requests to the routes for login, password reset, invitations, sessions, profiles,
  passwords and TOTP makes an administrator, and through them a role appears or changes only as an
  invitation that was pending before offers it, for the organization and with the role of the invitation.
  Registration is not among these routes.
\<close>

theorem no_privilege_escalation:
  assumes "ap_store S = mem_auth_ops E mailer" "mem_ok (10 * k) st" "requests_served S E k st st'"
  shows "(\<forall>j x. vw_user (mem_view E st') j = Some x \<and> us_admin x \<longrightarrow> (\<exists>y. vw_user (mem_view E st) j = Some y \<and> us_admin y))
    \<and> (\<forall>x u. vw_role (mem_view E st') x u \<noteq> vw_role (mem_view E st) x u \<longrightarrow>
         (\<exists>h i r. vw_invitation (mem_view E st) h = Some i \<and> offers i x r \<and> vw_role (mem_view E st') x u = Some r))"
  using served_keeps [OF assms(3,1), of 0] assms(2) by (simp add: keeps_privileges_def)

text \<open>The instance serves the acceptance of its invitation.\<close>

definition demo_accepted :: mem_accounts where
  "demo_accepted = snd (account_route demo_api demo_api_request (Inl (InvitationAccept demo_accept)) demo_accounts)"

lemma demo_served: "requests_served demo_api demo_account_env 1 demo_accounts demo_accepted"
proof -
  have "fresh_request demo_api demo_api_request (mem_view demo_account_env demo_accounts)" by code_simp
  from requests_more [OF requests_none this prod.collapse [symmetric]] show ?thesis unfolding demo_accepted_def One_nat_def .
qed

theorem account_requests_well_formed_witness: "mem_ok 0 demo_accepted"
  using account_requests_well_formed [OF demo_ap(1) _ demo_served, of 0] demo_ok [of 10] by simp

theorem no_privilege_escalation_witness:
  "\<exists>h i. vw_invitation (mem_view demo_account_env demo_accounts) h = Some i \<and> offers i 7 Member"
proof -
  have "vw_role (mem_view demo_account_env demo_accepted) 7 1 = Some Member" "vw_role (mem_view demo_account_env demo_accounts) 7 1 = None"
    unfolding demo_accepted_def account_route_def public_route_def
    by (simp_all add: demo_account_run demo_ops demo_lower demo_accept_def invitation_accept_def invited_account_def invitation_usable_def
        mem_view_def by_key_def find_value_def)
  with no_privilege_escalation [OF demo_ap(1) _ demo_served, THEN conjunct2, rule_format, of 7 1] demo_ok [of 10]
  show ?thesis by auto
qed

end
