(* ===== verification/Membership_Safety.thy ===== *)
theory Membership_Safety
  imports Account_Router
begin

text \<open>
  The administration API on the in-memory store: what the middleware lets through, who changes
  roles, and three ways around what the handlers mean to keep.
\<close>

section \<open>Access\<close>

lemma mem_unique_permalinks: "mem_ok n st \<Longrightarrow> unique_permalinks (mem_view E st)"
  unfolding unique_permalinks_def by (blast intro: mem_accounts.permalink_unique)

lemma mem_membership_never_fails: "never_fails (ao_membership (mem_auth_ops E mailer) x u)"
  by (simp add: never_fails_def mem_auth_ops_def mem_membership_def)

text \<open>
  C28. A request that no key, no session, no role or no second factor entitles is refused by the middleware
  whatever the handler behind it does, and changes nothing but the expiry of sessions.
\<close>

theorem middleware_refuses:
  assumes "ap_store S = mem_auth_ops E mailer" "mem_ok 5 st"
    and "\<forall>p a. \<not> granted S R m path (mem_view E st) p a" and "auth_middleware S R m path next st = (r, st')"
  shows "\<not> succeeded r \<and> same_but_sessions (mem_view E st) (mem_view E st')"
proof -
  have "runs mem_ok (mem_view E) (0 + 5) (mem_view E st) (auth_middleware S R m path next)
      (\<lambda>r v'. \<not> succeeded r \<and> same_but_sessions (mem_view E st) v')"
    by (rule mem_accounts.auth_middleware_runs [OF assms(1) mem_unique_permalinks [OF assms(2)]]) (use assms(3) in auto)
  from mem_run [OF this, of 0] assms(2,4) show ?thesis by simp
qed

text \<open>
  C8. A request to the members of an organization, whose path names it by a segment that is its own
  percent-decoding, changes roles only in the organization it names, and only for a caller who may manage
  it: the session of an administrator account or of a member who is an admin or an owner there (an owner,
  where the owner role is given or taken), or an admin API key that is global or scoped to this very
  organization, which acts above the roles and may give and take the owner role too. An organization that
  has an owner keeps one.
\<close>

theorem role_changes_authorized:
  assumes "ap_store S = mem_auth_ops E mailer" "mem_ok 10 st" "path_segment raw" "decode raw = raw"
    and "people S R decode raw q st = (r, st')"
  shows "(\<forall>x u. vw_role (mem_view E st') x u \<noteq> vw_role (mem_view E st) x u \<longrightarrow>
        (\<exists>o'. vw_org (mem_view E st) x = Some o' \<and> org_permalink o' = raw)
        \<and> may_manage S R (mem_view E st) x (vw_role (mem_view E st) x u = Some Owner \<or> vw_role (mem_view E st') x u = Some Owner))
    \<and> (\<forall>x. has_owner (mem_view E st) x \<longrightarrow> has_owner (mem_view E st') x)"
proof -
  have "runs mem_ok (mem_view E) 10 (mem_view E st) (people S R decode raw q) (\<lambda>r v'. people_post S R raw (mem_view E st) v')"
    by (rule mem_accounts.people_runs [OF assms(1)]) (use assms mem_membership_never_fails mem_unique_permalinks in auto)
  from mem_run [OF this, of 0] assms(2,5) show ?thesis by (simp add: people_post_def)
qed

text \<open>An invitation sets the role of a member who is an owner by now, and nothing keeps the last owner.\<close>

theorem stale_invitation_demotes_last_owner:
  assumes "ap_store S = mem_auth_ops E mailer" "mem_ok 10 st"
    and "vw_session (mem_view E st) (hash_token (ap_crypto S) (rq_token R)) = None"
    and "ab_token body = Some token" "vw_invitation (mem_view E st) (hash_token (ap_crypto S) token) = Some i" "iv_role i \<noteq> Owner"
    and only: "only_account eq_ignore_ascii_case (mem_view E st) (iv_email_address i) u"
    and sole: "\<forall>w. vw_role (mem_view E st) (iv_organization_id i) w = Some Owner \<longrightarrow> w = us_id u"
    and "invitation_accept S R body st = (r, st')" "succeeded r"
  shows "\<not> has_owner (mem_view E st') (iv_organization_id i)"
proof -
  have post: "accept_post S R body eq_ignore_ascii_case (ae_now E) (mem_view E st) r (mem_view E st')"
    using mem_run [OF mem_accounts.invitation_accept_runs [OF assms(1,3)], of 0] assms(2,9) by auto
  have "\<exists>j w. vw_user (mem_view E st) j = Some w \<and> eq_ignore_ascii_case (us_email_address w) (iv_email_address i)"
    using only unfolding only_account_def by blast
  then obtain w where "vw_user (mem_view E st) (us_id w) = Some w" "eq_ignore_ascii_case (us_email_address w) (iv_email_address i)"
    "vw_role (mem_view E st') = (vw_role (mem_view E st))(iv_organization_id i := (vw_role (mem_view E st) (iv_organization_id i))(us_id w \<mapsto> iv_role i))"
    using post [unfolded accept_post_def if_P [OF assms(10)]] assms(4,5) by auto
  moreover from this only have "us_id w = us_id u" unfolding only_account_def by blast
  ultimately show ?thesis using sole assms(6) by (auto simp: has_owner_def)
qed


section \<open>An instance\<close>

text \<open>
  The organization \<open>acme\<close> of the account of the instance, who is its only owner, and a second account
  without any role.
\<close>

definition demo_tenant :: "Id \<Rightarrow> string \<Rightarrow> organization" where
  "demo_tenant i p = \<lparr>org_id = i, org_uuid = ''o'', org_name = ''Acme'', org_permalink = p, org_require_two_factor = False\<rparr>"

definition demo_member :: "Id \<Rightarrow> Id \<Rightarrow> Id \<Rightarrow> organization_membership" where
  "demo_member i x u = \<lparr>om_id = i, om_organization_id = x, om_user_id = u, om_role = Owner, om_created_at = 0\<rparr>"

definition demo_outsider :: user where
  "demo_outsider = \<lparr>us_id = 4, us_uuid = ''u4'', us_email_address = ''m@y'', us_first_name = ''M'', us_last_name = ''N'', us_admin = False\<rparr>"

definition demo_outsider_session :: auth_session where
  "demo_outsider_session = \<lparr>as_id = 5, as_user_id = 4, as_token_hash = to_hex ''mal'', as_created_at = 0, as_expires_at = 100,
     as_last_used_at = 0, as_ip_address = None, as_user_agent = None, as_oidc_logout = None\<rparr>"

definition demo_orgs :: mem_accounts where
  "demo_orgs = demo_accounts
     \<lparr>ma_store := memory_store_new\<lparr>st_next_id := 10, st_organizations := [(7, demo_tenant 7 ''acme'')]\<rparr>,
      ma_users := [(1, demo_user), (4, demo_outsider)],
      ma_sessions := [(2, demo_account_session), (5, demo_outsider_session)],
      ma_memberships := [(6, demo_member 6 7 1)]\<rparr>"

definition demo_outsider_request :: api_request where
  "demo_outsider_request = demo_api_request\<lparr>rq_headers := [(''authorization'', ''Bearer mal'')]\<rparr>"

lemma demo_hashes: "to_hex ''old'' \<noteq> to_hex ''mal''" "to_hex ''mal'' \<noteq> to_hex ''old''"
  by code_simp+

lemma demo_orgs_ok: "n \<le> 100 \<Longrightarrow> mem_ok n demo_orgs"
  by (simp add: mem_ok_def demo_orgs_def demo_accounts_def id_table_ok_def demo_user_def demo_outsider_def demo_account_session_def
      demo_outsider_session_def demo_member_def demo_tenant_def demo_invitation_def memory_store_new_def wf_table_def demo_hashes)

lemmas demo_people_run =
  demo_account_run demo_ops demo_orgs_def demo_outsider_def demo_outsider_session_def demo_outsider_request_def demo_tenant_def demo_member_def
  people_def auth_middleware_def header_str_def bearer_token_def strip_prefix_def path_organization_def role_check_def two_factor_check_def
  members_create_def with_organization_def is_member_def mem_organization_by_permalink_def mem_membership_def

lemma demo_outsider_view: "vw_role (mem_view demo_account_env demo_orgs) 7 4 = None" "vw_role (mem_view demo_account_env demo_orgs) 7 1 = Some Owner"
  by (simp_all add: mem_view_def demo_orgs_def by_key_def find_value_def demo_member_def)

definition create_organization_request :: "'st api_state \<Rightarrow> api_request \<Rightarrow> string option \<Rightarrow> string option \<Rightarrow> 'st handler" where
  "create_organization_request S R name permalink =
     auth_middleware S R POST ''/api/v2/admin/organizations'' (\<lambda>p a. organizations_create S R p name permalink)"

text \<open>
  The account without a role creates an organization whose permalink reads \<open>acme\<close> once it is
  percent-decoded, and becomes an owner of the organization \<open>acme\<close>.
\<close>

lemma demo_takeover_facts:
  "path_segments (people_path ''%61cme'' (CreateMember (Some ''m@y'') (Some ''owner''))) = [''organizations'', ''%61cme'', ''members'']"
  "path_segments ''/api/v2/admin/organizations'' = [''organizations'']"
  "role_parse ''owner'' = Some Owner" "trim ''mal'' = ''mal''" "eq_ignore_ascii_case ''a@x'' ''m@y'' = False"
  "required_role [''members''] POST = Admin" "\<not> Owner < Admin"
  by code_simp+

theorem encoded_permalink_takes_over:
  assumes "decode ''%61cme'' = ''acme''"
    and "st1 = snd (create_organization_request demo_api demo_outsider_request (Some ''x'') (Some ''%61cme'') demo_orgs)"
    and "st2 = snd (people demo_api demo_outsider_request decode ''%61cme'' (CreateMember (Some ''m@y'') (Some ''owner'')) st1)"
  shows "vw_role (mem_view demo_account_env demo_orgs) 7 4 = None \<and> vw_role (mem_view demo_account_env st2) 7 4 = Some Owner"
proof -
  have "vw_role (mem_view demo_account_env st2) 7 4 = Some Owner"
    unfolding assms(2,3) using assms(1) demo_takeover_facts
    by (simp add: demo_hashes demo_people_run acts_as_owner_def create_organization_request_def organizations_create_def
        organization_created_def emit_def mem_create_organization_def insert_organization_def memory_store_new_def days_span_def al_modify_def mem_view_def by_key_def)
  with demo_outsider_view show ?thesis by simp
qed

theorem encoded_permalink_takes_over_witness:
  "vw_role (mem_view demo_account_env
     (snd (people demo_api demo_outsider_request (\<lambda>s. if s = ''%61cme'' then ''acme'' else s) ''%61cme'' (CreateMember (Some ''m@y'') (Some ''owner''))
       (snd (create_organization_request demo_api demo_outsider_request (Some ''x'') (Some ''%61cme'') demo_orgs))))) 7 4 = Some Owner"
  using encoded_permalink_takes_over [OF _ refl refl, of "\<lambda>s. if s = ''%61cme'' then ''acme'' else s"] by simp

theorem middleware_refuses_witness:
  "\<not> succeeded (fst (auth_middleware demo_api demo_outsider_request GET ''/api/v2/admin/organizations/acme'' (\<lambda>p a. answer (render_success 200 JNull)) demo_orgs))"
proof -
  have segs: "path_segments ''/api/v2/admin/organizations/acme'' = [''organizations'', ''acme'']" "trim ''mal'' = ''mal''" by code_simp+
  have "\<forall>p a. \<not> granted demo_api demo_outsider_request GET ''/api/v2/admin/organizations/acme'' (mem_view demo_account_env demo_orgs) p a"
    using segs
    by (auto simp: granted_def role_granted_def path_names_def segs mem_view_def demo_hashes by_key_def session_user_def demo_people_run
        split: principal.split option.split option.split_asm)
  from middleware_refuses [OF demo_ap(1) demo_orgs_ok [of 5, simplified] this prod.collapse [symmetric]] show ?thesis by blast
qed

text \<open>The owner makes the second account a viewer.\<close>

theorem role_changes_authorized_witness:
  "may_manage demo_api demo_api_request (mem_view demo_account_env demo_orgs) 7 False"
proof -
  let ?st' = "snd (people demo_api demo_api_request id ''acme'' (CreateMember (Some ''m@y'') (Some ''viewer'')) demo_orgs)"
  have "path_segments (people_path ''acme'' (CreateMember (Some ''m@y'') (Some ''viewer''))) = [''organizations'', ''acme'', ''members'']"
    "role_parse ''viewer'' = Some Viewer" "trim ''old'' = ''old''" by code_simp+
  then have role: "vw_role (mem_view demo_account_env ?st') 7 4 = Some Viewer"
    using demo_takeover_facts by (simp add: demo_hashes demo_people_run mem_view_def by_key_def)
  show ?thesis
    using role_changes_authorized [OF demo_ap(1) demo_orgs_ok [of 10, simplified] _ _ prod.collapse [symmetric],
        of "''acme''" id demo_api_request "CreateMember (Some ''m@y'') (Some ''viewer'')", THEN conjunct1, rule_format, of 7 4]
      role demo_outsider_view(1) by (simp add: path_segment_def)
qed

lemma demo_stale_accept: "succeeded (fst (invitation_accept demo_api demo_api_request demo_accept demo_orgs))"
  by (simp add: demo_people_run demo_lower demo_accept_def invitation_accept_def invited_account_def invitation_usable_def)

theorem stale_invitation_demotes_last_owner_witness:
  "has_owner (mem_view demo_account_env demo_orgs) 7
   \<and> \<not> has_owner (mem_view demo_account_env (snd (invitation_accept demo_api demo_api_request demo_accept demo_orgs))) 7"
proof -
  have "vw_session (mem_view demo_account_env demo_orgs) (hash_token (ap_crypto demo_api) (rq_token demo_api_request)) = None"
    "vw_invitation (mem_view demo_account_env demo_orgs) (hash_token (ap_crypto demo_api) ''inv'') = Some demo_invitation"
    by code_simp+
  moreover have "ab_token demo_accept = Some ''inv''" "iv_role demo_invitation \<noteq> Owner" "iv_organization_id demo_invitation = 7"
    by (simp_all add: demo_accept_def demo_invitation_def)
  moreover have eq: "eq_ignore_ascii_case ''a@x'' ''A@x''" "\<not> eq_ignore_ascii_case ''m@y'' ''A@x''" by code_simp+
  moreover have "only_account eq_ignore_ascii_case (mem_view demo_account_env demo_orgs) (iv_email_address demo_invitation) demo_user"
    "\<forall>w. vw_role (mem_view demo_account_env demo_orgs) 7 w = Some Owner \<longrightarrow> w = us_id demo_user" "has_owner (mem_view demo_account_env demo_orgs) 7"
    using demo_takeover_facts(5) demo_lower eq
    by (auto simp: only_account_def has_owner_def mem_view_def demo_orgs_def demo_user_def demo_outsider_def demo_invitation_def demo_member_def
        by_key_def find_value_def split: if_splits)
  ultimately show ?thesis
    using stale_invitation_demotes_last_owner [OF demo_ap(1) demo_orgs_ok [of 10, simplified] _ _ _ _ _ _ prod.collapse [symmetric] demo_stale_accept] by metis
qed

end
