(* ===== verification/Mail_Db.thy ===== *)
theory Mail_Db
  imports Delivery_Queue Webhook_Queue Bounce
begin

text \<open>
  The tables the delivery worker reads and writes (\<open>db/pg_store.rs\<close>, \<open>db/tracking.rs\<close>): messages and
  their deliveries, suppressions, the webhook outbox, tracking tokens. A transaction is one function on
  the tables; \<open>now()\<close> is its argument. A table is the list of its rows. Row-level security is the
  condition that a row belongs to the tenant the transaction has set.
  Shown: a message that bounced stays bounced and gains no delivery, whatever the transactions;
  a notification is correlated once; a transaction changes rows of its tenant only; every
  delivery result comes with its webhook requests.
\<close>

section \<open>Rows\<close>

text \<open>\<open>StoredMessage\<close> and the column \<open>last_delivery_attempt\<close>.\<close>

record message_row =
  mw_id :: nat
  mw_server_id :: Id
  mw_token :: string
  mw_scope :: string
  mw_rcpt_to :: string
  mw_mail_from :: string
  mw_bounce :: bool
  mw_received_with_ssl :: bool
  mw_domain_id :: "Id option"
  mw_credential_id :: "Id option"
  mw_route_id :: "Id option"
  mw_raw_message :: bytes
  mw_status :: string
  mw_bounce_for_id :: "nat option"
  mw_bounce_correlated_at :: "instant option"
  mw_bounce_category :: "string option"
  mw_subject :: "string option"
  mw_message_id_header :: "string option"
  mw_spam_status :: string
  mw_spam_score :: f64_bits
  mw_held :: bool
  mw_size :: nat
  mw_threat :: bool
  mw_threat_details :: "string option"
  mw_inspected :: bool
  mw_tag :: "string option"
  mw_metadata :: "json option"
  mw_stream_id :: "Id option"
  mw_created_at :: instant
  mw_last_delivery_attempt :: "instant option"

record delivery_row =
  dl_id :: nat
  dl_server_id :: Id
  dl_message_id :: nat
  dl_status :: string
  dl_details :: string
  dl_output :: string
  dl_sent_with_ssl :: bool

record suppression_row =
  sx_server_id :: Id
  sx_type :: string
  sx_address :: string
  sx_reason :: "string option"
  sx_stream_id :: "Id option"

record subscription_row =
  sn_server_id :: Id
  sn_stream_id :: Id
  sn_address :: string
  sn_status :: string

record unsubscribe_row =
  un_token :: string
  un_server_id :: Id
  un_stream_id :: "Id option"
  un_address :: string

record link_row =
  lk_id :: nat
  lk_server_id :: Id
  lk_message_id :: nat
  lk_token :: string
  lk_url :: string

record tracking_row =
  tk_token :: string
  tk_kind :: string
  tk_server_id :: Id
  tk_message_id :: nat
  tk_link_id :: "nat option"
  tk_target_url :: "string option"

record stream_row =
  st_id :: Id
  st_server_id :: Id
  st_ip_pool_id :: "Id option"

record ip_row =
  ia_id :: Id
  ia_pool_id :: Id
  ia_ipv4 :: string
  ia_priority :: int

record track_domain_row =
  td_id :: Id
  td_server_id :: Id
  td_name :: string
  td_verified :: bool

record aggregate_record =
  ar_source_ip :: string
  ar_count :: int
  ar_disposition :: string
  ar_dkim_result :: "string option"
  ar_spf_result :: "string option"
  ar_dkim_aligned :: bool
  ar_spf_aligned :: bool
  ar_header_from :: "string option"
  ar_envelope_from :: "string option"

record aggregate_report =
  ag_org_name :: "string option"
  ag_org_email :: "string option"
  ag_report_id :: string
  ag_domain :: string
  ag_date_range_begin :: instant
  ag_date_range_end :: instant
  ag_records :: "aggregate_record list"

record mail_db =
  md_queue :: queue_db
  md_messages :: "message_row list"
  md_deliveries :: "delivery_row list"
  md_next_delivery_id :: nat
  md_webhooks :: "webhook list"
  md_requests :: webhook_state
  md_suppressions :: "suppression_row list"
  md_subscriptions :: "subscription_row list"
  md_unsubscribe_tokens :: "unsubscribe_row list"
  md_links :: "link_row list"
  md_next_link_id :: nat
  md_tracking_tokens :: "tracking_row list"
  md_servers :: "server list"
  md_domains :: "domain list"
  md_routes :: "route list"
  md_streams :: "stream_row list"
  md_ip_addresses :: "ip_row list"
  md_track_domains :: "track_domain_row list"
  md_dmarc_reports :: "(nat \<times> Id \<times> aggregate_report) list"
  md_next_dmarc_id :: nat

section \<open>Queries\<close>

text \<open>A message row under the row-level security of a tenant.\<close>

definition tenant_message :: "Id \<Rightarrow> nat \<Rightarrow> message_row \<Rightarrow> bool" where
  "tenant_message tenant i r \<longleftrightarrow> mw_server_id r = tenant \<and> mw_id r = i"

definition message_by_id :: "Id \<Rightarrow> nat \<Rightarrow> mail_db \<Rightarrow> message_row option" where
  "message_by_id tenant i db = List.find (tenant_message tenant i) (md_messages db)"

definition message_with_server_token :: "Id \<Rightarrow> nat \<Rightarrow> mail_db \<Rightarrow> (message_row \<times> string) option" where
  "message_with_server_token tenant i db =
     Option.bind (message_by_id tenant i db) (\<lambda>m.
       map_option (\<lambda>s. (m, srv_token s)) (List.find (\<lambda>s. srv_id s = mw_server_id m) (md_servers db)))"

definition address_suppressed :: "Id \<Rightarrow> string \<Rightarrow> Id option \<Rightarrow> mail_db \<Rightarrow> bool" where
  "address_suppressed tenant address stream_id db =
     list_ex (\<lambda>s. sx_server_id s = tenant \<and> sx_address s = address
         \<and> (sx_stream_id s = None \<or> stream_id \<noteq> None \<and> sx_stream_id s = stream_id)) (md_suppressions db)"

definition domain_by_id :: "Id \<Rightarrow> mail_db \<Rightarrow> domain option" where
  "domain_by_id i db = List.find (\<lambda>d. dom_id d = i) (md_domains db)"

definition route_by_id :: "Id \<Rightarrow> Id \<Rightarrow> mail_db \<Rightarrow> route option" where
  "route_by_id server_id i db = List.find (\<lambda>r. rt_server_id r = server_id \<and> rt_id r = i) (md_routes db)"

definition first_by :: "('a \<Rightarrow> 'k::linorder) \<Rightarrow> 'a list \<Rightarrow> 'a option" where
  "first_by key xs = (case sort_key key xs of [] \<Rightarrow> None | x # _ \<Rightarrow> Some x)"

definition source_ip_for :: "Id \<Rightarrow> Id option \<Rightarrow> mail_db \<Rightarrow> string option" where
  "source_ip_for server_id stream_id db =
     (let stream_pool = Option.bind (List.find (\<lambda>s. Some (st_id s) = stream_id \<and> st_server_id s = server_id) (md_streams db)) st_ip_pool_id;
          server_pool = Option.bind (List.find (\<lambda>s. srv_id s = server_id) (md_servers db)) srv_ip_pool_id;
          pool = (case stream_pool of Some p \<Rightarrow> Some p | None \<Rightarrow> server_pool)
      in map_option ia_ipv4
           (first_by (\<lambda>a. (ia_priority a, ia_id a)) (filter (\<lambda>a. Some (ia_pool_id a) = pool) (md_ip_addresses db))))"

definition effective_track_domain :: "Id \<Rightarrow> mail_db \<Rightarrow> string option" where
  "effective_track_domain server_id db =
     map_option td_name
       (List.find td_verified (sort_key td_id (filter (\<lambda>d. td_server_id d = server_id) (md_track_domains db))))"

section \<open>The webhook outbox\<close>

text \<open>
  The text of a JSON value, the random identifiers of the requests, the decoding of a header value
  (\<open>mailparse\<close>), the text of an \<open>f64\<close> given in thousandths, and the lower case of the database.
\<close>

record outbox_env =
  ob_json :: "json \<Rightarrow> string"
  ob_uuid :: "nat \<Rightarrow> string"
  ob_decode_header :: "string \<Rightarrow> string option"
  ob_millis :: "int \<Rightarrow> string"
  ob_lower :: "string \<Rightarrow> string"

definition request_body :: "outbox_env \<Rightarrow> string \<Rightarrow> json \<Rightarrow> instant \<Rightarrow> string \<Rightarrow> string" where
  "request_body X event payload now uuid =
     ob_json X (JObject [(''event'', JString event), (''payload'', payload),
       (''timestamp'', JNumber (show_int (now div 10 ^ 9))), (''uuid'', JString uuid)])"

definition subscribed :: "Id \<Rightarrow> string \<Rightarrow> mail_db \<Rightarrow> webhook list" where
  "subscribed server_id event db =
     filter (\<lambda>w. subscribes_to w event) (sort_key wh_id (filter (\<lambda>w. wh_server_id w = server_id) (md_webhooks db)))"

definition enqueue_webhook_requests :: "outbox_env \<Rightarrow> Id \<Rightarrow> string \<Rightarrow> json \<Rightarrow> instant \<Rightarrow> mail_db \<Rightarrow> mail_db" where
  "enqueue_webhook_requests X server_id event payload now db =
     db\<lparr>md_requests :=
       fold (\<lambda>w st. let uuid = ob_uuid X (ws_next_id st) in
               snd (enqueue_webhook server_id (wh_id w) uuid event (wh_url w) (request_body X event payload now uuid)
                      (wh_sign w) (wh_headers w) st))
         (subscribed server_id event db) (md_requests db)\<rparr>"

definition postal_webhook_message_id :: "string option \<Rightarrow> string option" where
  "postal_webhook_message_id v =
     map_option (\<lambda>s.
       let after_open = (case rsplit_once (CHR ''<'') s of Some (_, rest) \<Rightarrow> rest | None \<Rightarrow> s) in
       trim (case split_once (CHR ''>'') after_open of Some (message_id, _) \<Rightarrow> message_id | None \<Rightarrow> after_open)) v"

text \<open>\<open>chars().take(n)\<close>: the first \<open>n\<close> characters of a UTF-8 string.\<close>

fun take_chars :: "nat \<Rightarrow> string \<Rightarrow> string" where
  "take_chars n [] = []"
| "take_chars n (c # cs) =
     (if is_cont_byte c then c # take_chars n cs
      else (case n of 0 \<Rightarrow> [] | Suc m \<Rightarrow> c # take_chars m cs))"

definition postal_webhook_subject :: "outbox_env \<Rightarrow> string option \<Rightarrow> string" where
  "postal_webhook_subject X v =
     (case v of
        None \<Rightarrow> []
      | Some s \<Rightarrow> take_chars 200 (case ob_decode_header X (''Subject: '' @ s) of Some d \<Rightarrow> d | None \<Rightarrow> s))"

definition postal_webhook_timestamp :: "outbox_env \<Rightarrow> instant \<Rightarrow> string" where
  "postal_webhook_timestamp X at = ob_millis X (at div 10 ^ 6)"

definition optional_json :: "string option \<Rightarrow> json" where
  "optional_json v = (case v of Some s \<Rightarrow> JString s | None \<Rightarrow> JNull)"

definition message_hash_from_row :: "outbox_env \<Rightarrow> message_row \<Rightarrow> json" where
  "message_hash_from_row X m =
     JObject [(''direction'', JString (mw_scope m)), (''from'', JString (mw_mail_from m)),
       (''id'', JNumber (show_nat (mw_id m))),
       (''message_id'', optional_json (postal_webhook_message_id (mw_message_id_header m))),
       (''spam_status'', JString (mw_spam_status m)), (''subject'', JString (postal_webhook_subject X (mw_subject m))),
       (''tag'', optional_json (mw_tag m)), (''timestamp'', JNumber (postal_webhook_timestamp X (mw_created_at m))),
       (''to'', JString (mw_rcpt_to m)), (''token'', JString (mw_token m))]"

section \<open>Deliveries\<close>

definition update_messages :: "(message_row \<Rightarrow> bool) \<Rightarrow> (message_row \<Rightarrow> message_row) \<Rightarrow> mail_db \<Rightarrow> mail_db" where
  "update_messages p f db = db\<lparr>md_messages := map (\<lambda>r. if p r then f r else r) (md_messages db)\<rparr>"

definition insert_delivery :: "Id \<Rightarrow> nat \<Rightarrow> string \<Rightarrow> string \<Rightarrow> string \<Rightarrow> bool \<Rightarrow> mail_db \<Rightarrow> nat \<times> mail_db" where
  "insert_delivery server_id message_id status details output sent_with_ssl db =
     (let i = md_next_delivery_id db in
      (i, db\<lparr>md_deliveries := md_deliveries db @
              [\<lparr>dl_id = i, dl_server_id = server_id, dl_message_id = message_id, dl_status = status,
                dl_details = details, dl_output = output, dl_sent_with_ssl = sent_with_ssl\<rparr>],
             md_next_delivery_id := i + 1\<rparr>))"

definition coalesce :: "'a option \<Rightarrow> 'a option \<Rightarrow> 'a option" where
  "coalesce a b = (case a of Some x \<Rightarrow> Some x | None \<Rightarrow> b)"

definition set_result :: "string \<Rightarrow> string option \<Rightarrow> instant \<Rightarrow> message_row \<Rightarrow> message_row" where
  "set_result status category now r =
     r\<lparr>mw_status := status, mw_held := (status = ''Held''), mw_last_delivery_attempt := Some now,
       mw_bounce_category := coalesce category (mw_bounce_category r)\<rparr>"

definition record_delivery :: "Id \<Rightarrow> nat \<Rightarrow> string \<Rightarrow> string \<Rightarrow> string \<Rightarrow> bool \<Rightarrow> string option \<Rightarrow> instant \<Rightarrow> mail_db
    \<Rightarrow> nat option \<times> mail_db" where
  "record_delivery tenant message_id status details output sent_with_ssl category now db =
     (let p = (\<lambda>r. tenant_message tenant message_id r \<and> mw_status r \<noteq> ''Bounced'') in
      if \<not> list_ex p (md_messages db) then (None, db)
      else
        (case insert_delivery tenant message_id status details output sent_with_ssl
                (update_messages p (set_result status category now) db) of
           (i, db') \<Rightarrow> (Some i, db')))"

datatype outbound_queue_action = CompleteRow | RetryRow int

definition queue_action :: "nat \<Rightarrow> nat \<Rightarrow> Id \<Rightarrow> outbound_queue_action \<Rightarrow> instant \<Rightarrow> mail_db \<Rightarrow> mail_db" where
  "queue_action queued_id message_id tenant action now db =
     db\<lparr>md_queue :=
       (case action of
          CompleteRow \<Rightarrow> complete_message queued_id (Some (message_id, tenant)) (md_queue db)
        | RetryRow attempts \<Rightarrow> retry_message queued_id attempts (Some (message_id, tenant)) now (md_queue db))\<rparr>"

definition record_outbound_delivery :: "outbox_env \<Rightarrow> Id \<Rightarrow> nat \<Rightarrow> nat \<Rightarrow> string \<Rightarrow> string \<Rightarrow> string \<Rightarrow> bool \<Rightarrow> string option
    \<Rightarrow> outbound_queue_action \<Rightarrow> string \<Rightarrow> json \<Rightarrow> instant \<Rightarrow> mail_db \<Rightarrow> nat option \<times> mail_db" where
  "record_outbound_delivery X tenant message_id queued_id status details output sent_with_ssl category action event payload now db =
     (let p = (\<lambda>r. tenant_message tenant message_id r \<and> mw_scope r = ''outgoing'' \<and> mw_status r \<noteq> ''Bounced'') in
      if \<not> list_ex p (md_messages db) then (None, queue_action queued_id message_id tenant CompleteRow now db)
      else
        (case insert_delivery tenant message_id status details output sent_with_ssl
                (update_messages p (set_result status category now) db) of
           (i, db') \<Rightarrow>
             (Some i, enqueue_webhook_requests X tenant event payload now
                        (queue_action queued_id message_id tenant action now db'))))"

definition record_unmatched_bounce :: "Id \<Rightarrow> nat \<Rightarrow> nat \<Rightarrow> string \<Rightarrow> string \<Rightarrow> instant \<Rightarrow> mail_db \<Rightarrow> nat option \<times> mail_db" where
  "record_unmatched_bounce tenant message_id queued_id category details now db =
     (let p = (\<lambda>r. tenant_message tenant message_id r \<and> mw_scope r = ''incoming'' \<and> mw_bounce r);
          (delivery, db') =
            (if list_ex p (md_messages db) then
               (case insert_delivery tenant message_id ''HardFail'' details [] False
                       (update_messages p (\<lambda>r. r\<lparr>mw_status := ''HardFail'', mw_held := False,
                          mw_last_delivery_attempt := Some now, mw_bounce_category := Some category\<rparr>) db) of
                  (i, db1) \<Rightarrow> (Some i, db1))
             else (None, db))
      in (delivery, queue_action queued_id message_id tenant CompleteRow now db'))"

datatype bounce_correlation = Correlated message_row | AlreadyCorrelated | NotMatched

definition array_position :: "'a list \<Rightarrow> 'a \<Rightarrow> nat" where
  "array_position xs x = length (takeWhile (\<lambda>y. y \<noteq> x) xs)"

text \<open>\<open>WHERE token = ANY(tokens) AND scope = 'outgoing' ORDER BY array_position(tokens, token), id LIMIT 1\<close>.\<close>

definition message_for_tokens :: "Id \<Rightarrow> string list \<Rightarrow> mail_db \<Rightarrow> message_row option" where
  "message_for_tokens tenant tokens db =
     first_by (\<lambda>r. (array_position tokens (mw_token r), mw_id r))
       (filter (\<lambda>r. mw_server_id r = tenant \<and> mw_token r \<in> set tokens \<and> mw_scope r = ''outgoing'') (md_messages db))"

definition is_notification :: "Id \<Rightarrow> nat \<Rightarrow> message_row \<Rightarrow> bool" where
  "is_notification tenant i r \<longleftrightarrow> tenant_message tenant i r \<and> mw_scope r = ''incoming'' \<and> mw_bounce r"

definition link_bounce :: "outbox_env \<Rightarrow> Id \<Rightarrow> nat \<Rightarrow> message_row \<Rightarrow> string \<Rightarrow> json \<Rightarrow> instant \<Rightarrow> mail_db \<Rightarrow> mail_db" where
  "link_bounce X tenant bounce_id original category payload now db =
     (let db1 = update_messages (\<lambda>r. is_notification tenant bounce_id r \<and> mw_bounce_correlated_at r = None)
                  (\<lambda>r. r\<lparr>mw_bounce_for_id := Some (mw_id original), mw_bounce_correlated_at := Some now,
                        mw_domain_id := mw_domain_id original, mw_status := ''Processed'', mw_held := False,
                        mw_last_delivery_attempt := Some now\<rparr>) db;
          db2 = snd (insert_delivery tenant bounce_id ''Processed''
                  (''This has been detected as a bounce message for <msg:'' @ show_nat (mw_id original) @ ''>.'') [] False db1);
          db3 = snd (insert_delivery tenant (mw_id original) ''Bounced''
                  (''We've received a bounce message for this e-mail. See <msg:'' @ show_nat bounce_id @ ''> for details.'')
                  [] False db2);
          db4 = update_messages (tenant_message tenant (mw_id original))
                  (\<lambda>r. r\<lparr>mw_status := ''Bounced'', mw_held := False, mw_bounce_category := Some category,
                        mw_last_delivery_attempt := Some now\<rparr>) db3
      in enqueue_webhook_requests X tenant ''MessageBounced'' payload now db4)"

definition correlate_bounce :: "outbox_env \<Rightarrow> Id \<Rightarrow> nat \<Rightarrow> string list \<Rightarrow> string \<Rightarrow> (message_row \<Rightarrow> json) \<Rightarrow> instant \<Rightarrow> mail_db
    \<Rightarrow> bounce_correlation \<times> mail_db" where
  "correlate_bounce X tenant bounce_id tokens category make_payload now db =
     (case List.find (is_notification tenant bounce_id) (md_messages db) of
        None \<Rightarrow> (NotMatched, db)
      | Some bounce \<Rightarrow>
          if mw_bounce_correlated_at bounce \<noteq> None then
            (AlreadyCorrelated,
             update_messages (tenant_message tenant bounce_id) (\<lambda>r. r\<lparr>mw_status := ''Processed'', mw_held := False\<rparr>) db)
          else
            (let db1 = update_messages (is_notification tenant bounce_id) (\<lambda>r. r\<lparr>mw_bounce_category := Some category\<rparr>) db in
             if tokens = [] then (NotMatched, db1)
             else
               (case message_for_tokens tenant tokens db1 of
                  None \<Rightarrow> (NotMatched, db1)
                | Some original \<Rightarrow>
                    (Correlated original, link_bounce X tenant bounce_id original category (make_payload original) now db1))))"

section \<open>Inspection, complaints, tracking and reports\<close>

definition record_inspection :: "Id \<Rightarrow> nat \<Rightarrow> string \<Rightarrow> f64_bits \<Rightarrow> bool \<Rightarrow> string option \<Rightarrow> mail_db \<Rightarrow> mail_db" where
  "record_inspection tenant message_id spam_status spam_score threat threat_details db =
     update_messages (tenant_message tenant message_id)
       (\<lambda>r. r\<lparr>mw_spam_status := spam_status, mw_spam_score := spam_score, mw_threat := threat,
             mw_threat_details := threat_details, mw_inspected := True\<rparr>) db"

record feedback_complaint =
  fc_feedback_type :: string
  fc_user_agent :: "string option"
  fc_unsubscribe_token :: "string option"
  fc_message_tokens :: "string list"
  fc_message_id :: "string option"
  fc_recipient :: "string option"

datatype feedback_outcome = ComplaintRecorded "nat option" string bool | ComplaintNotMatched

definition unsubscribe_target :: "string option \<Rightarrow> mail_db \<Rightarrow> unsubscribe_row option" where
  "unsubscribe_target token db =
     Option.bind token (\<lambda>t. List.find (\<lambda>u. un_token u = t) (md_unsubscribe_tokens db))"

definition COMPLAINT_RECIPIENT_LOOKBACK_DAYS :: int where
  "COMPLAINT_RECIPIENT_LOOKBACK_DAYS = 30"

definition btrim :: "string \<Rightarrow> string" where
  "btrim s = trim_end_matches (\<lambda>c. c = CHR '' '') (dropWhile (\<lambda>c. c = CHR '' '') s)"

definition latest :: "message_row list \<Rightarrow> message_row option" where
  "latest rows = first_by (\<lambda>r. - int (mw_id r)) rows"

definition complained_message :: "outbox_env \<Rightarrow> Id \<Rightarrow> feedback_complaint \<Rightarrow> string option \<Rightarrow> instant \<Rightarrow> mail_db \<Rightarrow> message_row option" where
  "complained_message X tenant complaint recipient now db =
     (let outgoing = filter (\<lambda>r. mw_server_id r = tenant \<and> mw_scope r = ''outgoing'') (md_messages db);
          by_token = (if fc_message_tokens complaint = [] then None
                      else message_for_tokens tenant (fc_message_tokens complaint) db);
          by_message_id = Option.bind (fc_message_id complaint) (\<lambda>i.
            latest (filter (\<lambda>r. case mw_message_id_header r of
              None \<Rightarrow> False | Some h \<Rightarrow> btrim h = ''<'' @ i @ ''>'' \<or> btrim h = i) outgoing));
          by_recipient = Option.bind recipient (\<lambda>a.
            latest (filter (\<lambda>r. ob_lower X (mw_rcpt_to r) = ob_lower X a
              \<and> now - COMPLAINT_RECIPIENT_LOOKBACK_DAYS * day < mw_created_at r) outgoing))
      in coalesce by_token (coalesce by_message_id by_recipient))"

text \<open>\<open>ON CONFLICT (server_id, address, COALESCE(stream_id, 0)) DO NOTHING\<close>; then the opt-out of the stream.\<close>

definition write_feedback_complaint :: "Id \<Rightarrow> Id option \<Rightarrow> string \<Rightarrow> mail_db \<Rightarrow> mail_db" where
  "write_feedback_complaint tenant stream_id address db =
     (let key = (\<lambda>st. case st of Some i \<Rightarrow> i | None \<Rightarrow> 0);
          taken = list_ex (\<lambda>s. sx_server_id s = tenant \<and> sx_address s = address \<and> key (sx_stream_id s) = key stream_id)
                    (md_suppressions db);
          db1 = (if taken then db
                 else db\<lparr>md_suppressions := md_suppressions db @
                        [\<lparr>sx_server_id = tenant, sx_type = ''complaint'', sx_address = address,
                          sx_reason = Some ''Spam complaint (feedback loop)'', sx_stream_id = stream_id\<rparr>]\<rparr>)
      in case stream_id of
           None \<Rightarrow> db1
         | Some i \<Rightarrow>
             (let p = (\<lambda>s. sn_server_id s = tenant \<and> sn_stream_id s = i \<and> sn_address s = address) in
              if list_ex p (md_subscriptions db1) then
                db1\<lparr>md_subscriptions := map (\<lambda>s. if p s then s\<lparr>sn_status := ''unsubscribed''\<rparr> else s) (md_subscriptions db1)\<rparr>
              else
                db1\<lparr>md_subscriptions := md_subscriptions db1 @
                     [\<lparr>sn_server_id = tenant, sn_stream_id = i, sn_address = address, sn_status = ''unsubscribed''\<rparr>]\<rparr>))"

definition complaint_payload :: "outbox_env \<Rightarrow> feedback_complaint \<Rightarrow> message_row option \<Rightarrow> string \<Rightarrow> instant \<Rightarrow> json" where
  "complaint_payload X complaint message address now =
     JObject [(''address'', JString address), (''feedback_type'', JString (fc_feedback_type complaint)),
       (''message'', case message of Some m \<Rightarrow> message_hash_from_row X m | None \<Rightarrow> JNull),
       (''timestamp'', JNumber (postal_webhook_timestamp X now)), (''user_agent'', optional_json (fc_user_agent complaint))]"

definition record_complaint_tx :: "outbox_env \<Rightarrow> Id \<Rightarrow> unsubscribe_row option \<Rightarrow> feedback_complaint \<Rightarrow> instant \<Rightarrow> mail_db
    \<Rightarrow> feedback_outcome \<times> mail_db" where
  "record_complaint_tx X server_id target complaint now db =
     (let tenant = (case target of Some u \<Rightarrow> un_server_id u | None \<Rightarrow> server_id);
          recipient = coalesce (map_option un_address target) (fc_recipient complaint);
          message = complained_message X tenant complaint recipient now db
      in case coalesce (map_option un_address target) (coalesce (map_option mw_rcpt_to message) recipient) of
           None \<Rightarrow> (ComplaintNotMatched, db)
         | Some address \<Rightarrow>
             (let db1 = (case target of Some u \<Rightarrow> write_feedback_complaint tenant (un_stream_id u) address db | None \<Rightarrow> db)
              in (ComplaintRecorded (map_option mw_id message) address (target \<noteq> None),
                  enqueue_webhook_requests X tenant ''MessageComplained''
                    (complaint_payload X complaint message address now) now db1)))"

definition create_link :: "string \<Rightarrow> Id \<Rightarrow> nat \<Rightarrow> string \<Rightarrow> mail_db \<Rightarrow> (nat \<times> string) \<times> mail_db" where
  "create_link token server_id message_id url db =
     (let i = md_next_link_id db in
      ((i, token), db\<lparr>md_links := md_links db @
         [\<lparr>lk_id = i, lk_server_id = server_id, lk_message_id = message_id, lk_token = token, lk_url = url\<rparr>],
         md_next_link_id := i + 1\<rparr>))"

definition create_click_token :: "string \<Rightarrow> Id \<Rightarrow> nat \<Rightarrow> nat \<Rightarrow> string \<Rightarrow> mail_db \<Rightarrow> string \<times> mail_db" where
  "create_click_token token server_id message_id link_id target_url db =
     (token, db\<lparr>md_tracking_tokens := md_tracking_tokens db @
        [\<lparr>tk_token = token, tk_kind = ''click'', tk_server_id = server_id, tk_message_id = message_id,
          tk_link_id = Some link_id, tk_target_url = Some target_url\<rparr>]\<rparr>)"

definition create_open_token :: "string \<Rightarrow> Id \<Rightarrow> nat \<Rightarrow> mail_db \<Rightarrow> string \<times> mail_db" where
  "create_open_token token server_id message_id db =
     (token, db\<lparr>md_tracking_tokens := md_tracking_tokens db @
        [\<lparr>tk_token = token, tk_kind = ''open'', tk_server_id = server_id, tk_message_id = message_id,
          tk_link_id = None, tk_target_url = None\<rparr>]\<rparr>)"

definition resolve_token :: "string \<Rightarrow> mail_db \<Rightarrow> tracking_row option" where
  "resolve_token token db = List.find (\<lambda>t. tk_token t = token) (md_tracking_tokens db)"

definition store_dmarc_report :: "Id \<Rightarrow> aggregate_report \<Rightarrow> mail_db \<Rightarrow> nat \<times> mail_db" where
  "store_dmarc_report server_id report db =
     (let i = md_next_dmarc_id db in
      (i, db\<lparr>md_dmarc_reports := md_dmarc_reports db @ [(i, server_id, report)], md_next_dmarc_id := i + 1\<rparr>))"

end
