(* ===== verification/Reports.thy ===== *)
theory Reports
  imports Tracking Lifecycle Mail_Db
begin

text \<open>
  Reports that arrive as mail: feedback loop complaints (\<open>worker/arf.rs\<close>) and DMARC aggregate reports
  (\<open>worker/dmarc.rs\<close>). The events of the XML reader and the decompressors are parameters.
\<close>

section \<open>MIME parts\<close>

text \<open>Both files have their own copies of the functions of this section, and of \<open>decode_quoted_printable\<close>.\<close>

definition MAX_MIME_DEPTH :: nat where
  "MAX_MIME_DEPTH = 5"

function body_of_entity :: "bytes \<Rightarrow> bytes" where
  "body_of_entity raw =
     (if raw = [] then []
      else
        (let line_end = (case find_char LF raw of Some p \<Rightarrow> p | None \<Rightarrow> length raw) in
         if chomp [CR] (take line_end raw) = [] then drop (line_end + 1) raw
         else body_of_entity (drop (line_end + 1) raw)))"
  by pat_completeness auto
termination by (relation "measure length") auto

declare body_of_entity.simps [simp del]

definition multipart_boundary :: "(string \<Rightarrow> string) \<Rightarrow> string \<Rightarrow> string option" where
  "multipart_boundary lc content_type =
     (if \<not> prefix ''multipart/'' (lc (trim content_type)) then None
      else
        find_map (\<lambda>parameter.
            map_option (trim_matches_char DQ)
              (find_map (\<lambda>p. strip_prefix p (trim parameter)) [''boundary='', ''BOUNDARY='', ''Boundary='']))
          (tl (split_on (CHR '';'') content_type)))"

definition decode_leaf :: "(string \<Rightarrow> string) \<Rightarrow> base64_ops \<Rightarrow> (string \<times> string) list \<Rightarrow> bytes \<Rightarrow> bytes" where
  "decode_leaf lc b headers body =
     (let encoding = lc (trim (case part_header headers ''content-transfer-encoding'' of Some v \<Rightarrow> v | None \<Rightarrow> [])) in
      if encoding = ''base64'' then
        (case b64_decode b (filter (\<lambda>c. \<not> is_ascii_ws c) body) of Some d \<Rightarrow> d | None \<Rightarrow> body)
      else if encoding = ''quoted-printable'' then decode_quoted_printable body
      else body)"

text \<open>\<open>str::split\<close> at a non-empty substring.\<close>

function split_at :: "string \<Rightarrow> string \<Rightarrow> string list" where
  "split_at d s =
     (case find_sub d s of
        None \<Rightarrow> [s]
      | Some i \<Rightarrow> if d = [] then [s] else take i s # split_at d (drop (i + length d) s))"
  by pat_completeness auto
termination
proof (relation "measure (\<lambda>(d, s). length s)", goal_cases)
  case (2 d s i)
  then have "prefix d (drop i s)" by (auto dest: find_sub_SomeD)
  from prefix_length_le [OF this] 2(2) show ?case by (cases d) auto
qed simp

declare split_at.simps [simp del]

text \<open>The pieces of a multipart body that are examined.\<close>

definition multipart_pieces :: "string \<Rightarrow> bytes \<Rightarrow> string list" where
  "multipart_pieces boundary body =
     (let pieces = split_at (''--'' @ boundary) (utf8_lossy body);
          inner = (if length pieces > 1 then tl pieces else pieces)
      in filter (\<lambda>p. trim p \<noteq> [])
           (map (\<lambda>p. dropWhile (\<lambda>c. c = CR \<or> c = LF) (case strip_prefix ''--'' p of Some q \<Rightarrow> q | None \<Rightarrow> p)) inner))"

record mime_part =
  mp_content_type :: string
  mp_body :: bytes

function collect_parts :: "(string \<Rightarrow> string) \<Rightarrow> base64_ops \<Rightarrow> bytes \<Rightarrow> nat \<Rightarrow> mime_part list" where
  "collect_parts lc b raw depth =
     (if depth > MAX_MIME_DEPTH then []
      else
        (let headers = parse_headers lc raw;
             body = body_of_entity raw;
             content_type = (case part_header headers ''content-type'' of Some v \<Rightarrow> v | None \<Rightarrow> [])
         in case multipart_boundary lc content_type of
              Some boundary \<Rightarrow> concat (map (\<lambda>piece. collect_parts lc b piece (depth + 1)) (multipart_pieces boundary body))
            | None \<Rightarrow> [\<lparr>mp_content_type = content_type, mp_body = decode_leaf lc b headers body\<rparr>]))"
  by pat_completeness auto
termination
  by (relation "measure (\<lambda>(lc, b, raw, depth). Suc MAX_MIME_DEPTH - depth)") auto

declare collect_parts.simps [simp del]

section \<open>Feedback loop reports\<close>

datatype arf_error = NotFeedbackReport string | MissingPart string

record feedback_report =
  fr_feedback_type :: string
  fr_unsubscribe_token :: "string option"
  fr_original_rcpt :: "string option"
  fr_user_agent :: "string option"
  fr_message_tokens :: "string list"
  fr_original_message_id :: "string option"
  fr_original_to :: "string option"

text \<open>The text between the first \<open><\<close> and the last \<open>>\<close>, where they are in that order.\<close>

definition inside_brackets :: "string \<Rightarrow> string" where
  "inside_brackets s =
     (case (find_char (CHR ''<'') s, rfind_char (CHR ''>'') s) of
        (Some open', Some close) \<Rightarrow> if open' < close then take (close - (open' + 1)) (drop (open' + 1) s) else s
      | _ \<Rightarrow> s)"

definition bare_address :: "string \<Rightarrow> string option" where
  "bare_address v =
     (let inner = trim (inside_brackets (hd (split_on (CHR '','') v)));
          inner = trim (case strip_prefix ''rfc822;'' inner of
                          Some r \<Rightarrow> r
                        | None \<Rightarrow> (case strip_prefix ''RFC822;'' inner of Some r \<Rightarrow> r | None \<Rightarrow> inner))
      in if CHR ''@'' \<in> set inner \<and> split_whitespace inner = [inner] then Some inner else None)"

definition report_recipient :: "feedback_report \<Rightarrow> string option" where
  "report_recipient r = Option.bind (coalesce (fr_original_rcpt r) (fr_original_to r)) bare_address"

definition content_type_is_feedback_report :: "(string \<Rightarrow> string) \<Rightarrow> string \<Rightarrow> bool" where
  "content_type_is_feedback_report lc content_type =
     (let lower = lc content_type in
      contains_sub ''multipart/report'' lower
      \<and> list_ex (\<lambda>parameter.
           case strip_prefix ''report-type='' (trim parameter) of
             None \<Rightarrow> False
           | Some v \<Rightarrow> eq_ignore_ascii_case (trim_matches_char DQ v) ''feedback-report'')
         (tl (split_on (CHR '';'') lower)))"

definition is_feedback_report :: "(string \<Rightarrow> string) \<Rightarrow> bytes \<Rightarrow> bool" where
  "is_feedback_report lc raw =
     (case header_value lc raw ''content-type'' of None \<Rightarrow> False | Some v \<Rightarrow> content_type_is_feedback_report lc v)"

definition token_from_list_unsubscribe :: "string \<Rightarrow> string option" where
  "token_from_list_unsubscribe v =
     (case find_sub ''/track/u/'' v of
        None \<Rightarrow> None
      | Some i \<Rightarrow>
          (let token = takeWhile (\<lambda>c. is_ascii_alnum c \<or> c = CHR ''-'' \<or> c = CHR ''_'') (drop (i + 9) v) in
           if token = [] then None else Some token))"

definition original_headers :: "bytes \<Rightarrow> bytes" where
  "original_headers raw = (let body = body_of_entity raw in if body = [] then raw else take (length raw - length body) raw)"

definition nonempty :: "string \<Rightarrow> string option" where
  "nonempty s = (if s = [] then None else Some s)"

definition extract_feedback :: "(string \<Rightarrow> string) \<Rightarrow> base64_ops \<Rightarrow> bytes \<Rightarrow> arf_error + feedback_report" where
  "extract_feedback lc b raw =
     (let content_type = (case header_value lc raw ''content-type'' of Some v \<Rightarrow> v | None \<Rightarrow> []) in
      if \<not> content_type_is_feedback_report lc content_type then Inl (NotFeedbackReport content_type)
      else
        (let parts = collect_parts lc b raw 0 in
         case List.find (\<lambda>p. prefix ''message/feedback-report'' (trim_start (lc (mp_content_type p)))) parts of
           None \<Rightarrow> Inl (MissingPart ''message/feedback-report'')
         | Some feedback \<Rightarrow>
             (let hs = parse_headers lc (mp_body feedback);
                  original = List.find (\<lambda>p. prefix ''message/rfc822'' (trim_start (lc (mp_content_type p)))
                               \<or> prefix ''message/rfc822-headers'' (trim_start (lc (mp_content_type p)))) parts;
                  original_value = (\<lambda>name. Option.bind original (\<lambda>p. header_value lc (mp_body p) name))
              in Inr \<lparr>fr_feedback_type = lc (trim (case part_header hs ''feedback-type'' of Some v \<Rightarrow> v | None \<Rightarrow> [])),
                   fr_unsubscribe_token = Option.bind (original_value ''list-unsubscribe'') token_from_list_unsubscribe,
                   fr_original_rcpt = Option.bind (part_header hs ''original-rcpt-to'') (\<lambda>v. nonempty (trim v)),
                   fr_user_agent = Option.bind (part_header hs ''user-agent'') (\<lambda>v. nonempty (take_chars 255 (trim v))),
                   fr_message_tokens = (case original of
                      Some p \<Rightarrow> original_message_tokens (original_headers (mp_body p)) | None \<Rightarrow> []),
                   fr_original_message_id = Option.bind (original_value ''message-id'') (\<lambda>v. nonempty (trim (inside_brackets (trim v)))),
                   fr_original_to = Option.bind (original_value ''to'') bare_address\<rparr>)))"

section \<open>DMARC aggregate reports\<close>

datatype dmarc_error = NoReport string | Xml string | MissingField string | Decompress string

text \<open>
  The events of the XML reader. A reference has the result of \<open>resolve_char_ref\<close> and the
  predefined entity of its name. The end of the list is the end of the file.
\<close>

datatype xml_event =
    XStart string
  | XEnd
  | XText string
  | XRef "string + string option" "string option" string
  | XOther
  | XError string

record zip_file =
  zf_name :: "string option"
  zf_read :: "nat \<Rightarrow> string + bytes"

record zip_archive =
  za_length :: nat
  za_by_index :: "nat \<Rightarrow> string + zip_file"

record dmarc_env =
  dv_events :: "bytes \<Rightarrow> xml_event list"
  dv_gunzip :: "nat \<Rightarrow> bytes \<Rightarrow> string + bytes"
  dv_zip :: "bytes \<Rightarrow> string + zip_archive"
  dv_timestamp :: "int \<Rightarrow> instant option"

definition MAX_REPORT_BYTES :: nat where
  "MAX_REPORT_BYTES = 20 * 1024 * 1024"

definition epoch_to_datetime :: "dmarc_env \<Rightarrow> string \<Rightarrow> string \<Rightarrow> dmarc_error + instant" where
  "epoch_to_datetime D v field =
     (case Option.bind (parse_i64 (trim v)) (dv_timestamp D) of Some t \<Rightarrow> Inr t | None \<Rightarrow> Inl (MissingField field))"

record xml_state =
  xs_path :: "string list"
  xs_text :: string
  xs_org_name :: "string option"
  xs_org_email :: "string option"
  xs_report_id :: "string option"
  xs_domain :: "string option"
  xs_begin :: "instant option"
  xs_end :: "instant option"
  xs_records :: "aggregate_record list"
  xs_current :: "aggregate_record option"

definition blank_record :: aggregate_record where
  "blank_record = \<lparr>ar_source_ip = [], ar_count = 0, ar_disposition = ''none'', ar_dkim_result = None,
     ar_spf_result = None, ar_dkim_aligned = False, ar_spf_aligned = False, ar_header_from = None, ar_envelope_from = None\<rparr>"

definition set_record :: "(aggregate_record \<Rightarrow> aggregate_record) \<Rightarrow> xml_state \<Rightarrow> xml_state" where
  "set_record f st = st\<lparr>xs_current := map_option f (xs_current st)\<rparr>"

definition store_value :: "dmarc_env \<Rightarrow> (string \<Rightarrow> string) \<Rightarrow> string \<Rightarrow> string \<Rightarrow> xml_state \<Rightarrow> dmarc_error + xml_state" where
  "store_value D lc path v st =
     (if path = ''feedback/report_metadata/org_name'' then Inr (st\<lparr>xs_org_name := Some v\<rparr>)
      else if path = ''feedback/report_metadata/email'' then Inr (st\<lparr>xs_org_email := Some v\<rparr>)
      else if path = ''feedback/report_metadata/report_id'' then Inr (st\<lparr>xs_report_id := Some v\<rparr>)
      else if path = ''feedback/report_metadata/date_range/begin'' then
        (case epoch_to_datetime D v ''date_range/begin'' of Inl e \<Rightarrow> Inl e | Inr t \<Rightarrow> Inr (st\<lparr>xs_begin := Some t\<rparr>))
      else if path = ''feedback/report_metadata/date_range/end'' then
        (case epoch_to_datetime D v ''date_range/end'' of Inl e \<Rightarrow> Inl e | Inr t \<Rightarrow> Inr (st\<lparr>xs_end := Some t\<rparr>))
      else if path = ''feedback/policy_published/domain'' then Inr (st\<lparr>xs_domain := Some v\<rparr>)
      else if path = ''feedback/record/row/source_ip'' then Inr (set_record (\<lambda>r. r\<lparr>ar_source_ip := v\<rparr>) st)
      else if path = ''feedback/record/row/count'' then
        Inr (set_record (\<lambda>r. r\<lparr>ar_count := (case parse_i64 v of Some n \<Rightarrow> n | None \<Rightarrow> 0)\<rparr>) st)
      else if path = ''feedback/record/row/policy_evaluated/disposition'' then
        Inr (set_record (\<lambda>r. r\<lparr>ar_disposition := lc v\<rparr>) st)
      else if path = ''feedback/record/row/policy_evaluated/dkim'' then
        Inr (set_record (\<lambda>r. r\<lparr>ar_dkim_aligned := eq_ignore_ascii_case v ''pass''\<rparr>) st)
      else if path = ''feedback/record/row/policy_evaluated/spf'' then
        Inr (set_record (\<lambda>r. r\<lparr>ar_spf_aligned := eq_ignore_ascii_case v ''pass''\<rparr>) st)
      else if path = ''feedback/record/identifiers/header_from'' then
        Inr (set_record (\<lambda>r. r\<lparr>ar_header_from := Some v\<rparr>) st)
      else if path = ''feedback/record/identifiers/envelope_from'' then
        Inr (set_record (\<lambda>r. r\<lparr>ar_envelope_from := Some v\<rparr>) st)
      else if path = ''feedback/record/auth_results/dkim/result'' then
        Inr (set_record (\<lambda>r. r\<lparr>ar_dkim_result := coalesce (ar_dkim_result r) (Some (lc v))\<rparr>) st)
      else if path = ''feedback/record/auth_results/spf/result'' then
        Inr (set_record (\<lambda>r. r\<lparr>ar_spf_result := coalesce (ar_spf_result r) (Some (lc v))\<rparr>) st)
      else Inr st)"

definition xml_start :: "(string \<Rightarrow> string) \<Rightarrow> string \<Rightarrow> xml_state \<Rightarrow> dmarc_error + xml_state" where
  "xml_start lc raw_name st =
     (let name = lc raw_name in
      if xs_path st = [] \<and> name \<noteq> ''feedback'' then
        Inl (Xml (''unexpected root element <'' @ name @ ''> (expected <feedback>)''))
      else
        Inr (st\<lparr>xs_text := [],
                xs_current := (if length (xs_path st) = 1 \<and> name = ''record'' then Some blank_record else xs_current st),
                xs_path := xs_path st @ [name]\<rparr>))"

definition xml_end :: "dmarc_env \<Rightarrow> (string \<Rightarrow> string) \<Rightarrow> xml_state \<Rightarrow> dmarc_error + xml_state" where
  "xml_end D lc st =
     (let v = trim (xs_text st);
          st1 = st\<lparr>xs_text := []\<rparr>
      in case (if v = [] then Inr st1 else store_value D lc (intercalate ''/'' (xs_path st)) v st1) of
           Inl e \<Rightarrow> Inl e
         | Inr st2 \<Rightarrow>
             (let st3 = (if length (xs_path st2) = 2 \<and> xs_path st2 ! 1 = ''record'' then
                           (case xs_current st2 of
                              Some r \<Rightarrow> st2\<lparr>xs_records := xs_records st2 @ [r], xs_current := None\<rparr>
                            | None \<Rightarrow> st2)
                         else st2)
              in Inr (st3\<lparr>xs_path := butlast (xs_path st3)\<rparr>)))"

definition xml_reference :: "string + string option \<Rightarrow> string option \<Rightarrow> string \<Rightarrow> xml_state \<Rightarrow> dmarc_error + xml_state" where
  "xml_reference char_ref entity name st =
     (case char_ref of
        Inl e \<Rightarrow> Inl (Xml e)
      | Inr (Some ch) \<Rightarrow> Inr (st\<lparr>xs_text := xs_text st @ ch\<rparr>)
      | Inr None \<Rightarrow>
          (case entity of
             Some s \<Rightarrow> Inr (st\<lparr>xs_text := xs_text st @ s\<rparr>)
           | None \<Rightarrow> Inl (Xml (''unknown entity &'' @ name @ '';''))))"

definition xml_step :: "dmarc_env \<Rightarrow> (string \<Rightarrow> string) \<Rightarrow> xml_event \<Rightarrow> xml_state \<Rightarrow> dmarc_error + xml_state" where
  "xml_step D lc e st =
     (case e of
        XStart name \<Rightarrow> xml_start lc name st
      | XEnd \<Rightarrow> xml_end D lc st
      | XText chunk \<Rightarrow> Inr (st\<lparr>xs_text := xs_text st @ chunk\<rparr>)
      | XRef char_ref entity name \<Rightarrow> xml_reference char_ref entity name st
      | XOther \<Rightarrow> Inr st
      | XError error \<Rightarrow> Inl (Xml error))"

fun xml_events :: "dmarc_env \<Rightarrow> (string \<Rightarrow> string) \<Rightarrow> xml_event list \<Rightarrow> xml_state \<Rightarrow> dmarc_error + xml_state" where
  "xml_events D lc [] st =
     (if xs_path st \<noteq> [] then Inl (Xml (''unexpected end of file inside <'' @ intercalate ''/'' (xs_path st) @ ''>''))
      else Inr st)"
| "xml_events D lc (e # es) st = (case xml_step D lc e st of Inl err \<Rightarrow> Inl err | Inr st' \<Rightarrow> xml_events D lc es st')"

definition required_field :: "string \<Rightarrow> 'a option \<Rightarrow> ('a \<Rightarrow> dmarc_error + 'b) \<Rightarrow> dmarc_error + 'b" where
  "required_field name v k = (case v of Some x \<Rightarrow> k x | None \<Rightarrow> Inl (MissingField name))"

definition parse_report_xml :: "dmarc_env \<Rightarrow> (string \<Rightarrow> string) \<Rightarrow> bytes \<Rightarrow> dmarc_error + aggregate_report" where
  "parse_report_xml D lc xml =
     (case xml_events D lc (dv_events D xml)
             \<lparr>xs_path = [], xs_text = [], xs_org_name = None, xs_org_email = None, xs_report_id = None, xs_domain = None,
              xs_begin = None, xs_end = None, xs_records = [], xs_current = None\<rparr> of
        Inl e \<Rightarrow> Inl e
      | Inr st \<Rightarrow>
          required_field ''report_id'' (xs_report_id st) (\<lambda>report_id.
          required_field ''policy_published/domain'' (xs_domain st) (\<lambda>domain.
          required_field ''date_range/begin'' (xs_begin st) (\<lambda>b.
          required_field ''date_range/end'' (xs_end st) (\<lambda>e.
            Inr \<lparr>ag_org_name = xs_org_name st, ag_org_email = xs_org_email st, ag_report_id = report_id,
                 ag_domain = domain, ag_date_range_begin = b, ag_date_range_end = e, ag_records = xs_records st\<rparr>)))))"

definition zip_index :: "(string \<Rightarrow> string) \<Rightarrow> zip_archive \<Rightarrow> nat" where
  "zip_index lc z =
     (case List.find (\<lambda>i. case za_by_index z i of
                Inr f \<Rightarrow> (case zf_name f of Some name \<Rightarrow> suffix ''.xml'' (lc name) | None \<Rightarrow> False)
              | Inl _ \<Rightarrow> False) [0..<za_length z] of
        Some i \<Rightarrow> i
      | None \<Rightarrow> 0)"

definition decompressed :: "string + bytes \<Rightarrow> dmarc_error + bytes" where
  "decompressed r = (case r of Inl e \<Rightarrow> Inl (Decompress e) | Inr xml \<Rightarrow> Inr xml)"

definition payload_to_xml :: "dmarc_env \<Rightarrow> (string \<Rightarrow> string) \<Rightarrow> bytes \<Rightarrow> dmarc_error + bytes" where
  "payload_to_xml D lc bs =
     (if prefix [CHR 0x1F, CHR 0x8B] bs then decompressed (dv_gunzip D MAX_REPORT_BYTES bs)
      else if prefix ''PK'' bs then
        (case dv_zip D bs of
           Inl e \<Rightarrow> Inl (Decompress e)
         | Inr z \<Rightarrow>
             (case za_by_index z (zip_index lc z) of
                Inl e \<Rightarrow> Inl (Decompress e)
              | Inr f \<Rightarrow> decompressed (zf_read f MAX_REPORT_BYTES)))
      else Inr bs)"

definition collect_leaf_payloads :: "(string \<Rightarrow> string) \<Rightarrow> base64_ops \<Rightarrow> bytes \<Rightarrow> bytes list" where
  "collect_leaf_payloads lc b raw = filter (\<lambda>p. p \<noteq> []) (map mp_body (collect_parts lc b raw 0))"

definition dmarc_error_text :: "dmarc_error \<Rightarrow> string" where
  "dmarc_error_text e =
     (case e of
        NoReport m \<Rightarrow> ''the message carries no parseable DMARC aggregate report: '' @ m
      | Xml m \<Rightarrow> ''invalid report XML: '' @ m
      | MissingField f \<Rightarrow> ''the report is missing required field '' @ f
      | Decompress m \<Rightarrow> ''could not decompress the report: '' @ m)"

fun try_payloads :: "dmarc_env \<Rightarrow> (string \<Rightarrow> string) \<Rightarrow> dmarc_error option \<Rightarrow> bytes list \<Rightarrow> dmarc_error + aggregate_report" where
  "try_payloads D lc last_error [] =
     Inl (NoReport (case last_error of Some e \<Rightarrow> dmarc_error_text e | None \<Rightarrow> ''no XML, gzip or zip payload found''))"
| "try_payloads D lc last_error (payload # ps) =
     (case payload_to_xml D lc payload of
        Inl e \<Rightarrow> try_payloads D lc (Some e) ps
      | Inr xml \<Rightarrow>
          if \<not> prefix ''<'' (dropWhile is_ascii_ws xml) then try_payloads D lc last_error ps
          else
            (case parse_report_xml D lc xml of
               Inr report \<Rightarrow> Inr report
             | Inl e \<Rightarrow> try_payloads D lc (Some e) ps))"

definition extract_report :: "dmarc_env \<Rightarrow> (string \<Rightarrow> string) \<Rightarrow> base64_ops \<Rightarrow> bytes \<Rightarrow> dmarc_error + aggregate_report" where
  "extract_report D lc b raw =
     (let payloads = collect_leaf_payloads lc b raw in
      try_payloads D lc None (if payloads = [] then [raw] else payloads))"

end
