(* ===== verification/Inspection.thy ===== *)
theory Inspection
  imports Tracking Mail_Db
begin

text \<open>
  Inspection of incoming mail (\<open>worker/inspection.rs\<close>): the spam score of rspamd and the verdict of
  ClamAV. The HTTP client, the JSON reader and the socket are parameters.
  Shown: the daemon reads back exactly the message from the stream it is sent.
\<close>

section \<open>Scores\<close>

text \<open>The order of \<open>f64\<close>: false on NaN; the two zeros are equal.\<close>

definition f64_nan :: "f64_bits \<Rightarrow> bool" where
  "f64_nan x \<longleftrightarrow> take_bit 52 x \<noteq> 0 \<and> take_bit 11 (drop_bit 52 x) = 2047"

definition f64_key :: "f64_bits \<Rightarrow> int" where
  "f64_key x = (let m = uint (take_bit 63 x) in if bit x 63 then - m else m)"

definition f64_ge :: "f64_bits \<Rightarrow> f64_bits \<Rightarrow> bool" where
  "f64_ge x y \<longleftrightarrow> \<not> f64_nan x \<and> \<not> f64_nan y \<and> f64_key y \<le> f64_key x"

section \<open>rspamd\<close>

record spam_result =
  sr_score :: f64_bits
  sr_threshold :: f64_bits
  sr_action :: string

datatype json_reply = RequestFailed string | ReplyStatus nat string | NotJson string | ReplyJson json

record rspamd =
  rp_base_url :: string
  rp_password :: "string option"
  rp_flags :: "string option"

definition rspamd_new :: "bool \<Rightarrow> string \<Rightarrow> nat \<Rightarrow> string option \<Rightarrow> string option \<Rightarrow> rspamd" where
  "rspamd_new ssl host port password flags =
     \<lparr>rp_base_url = (if ssl then ''https'' else ''http'') @ ''://'' @ host @ '':'' @ show_nat port,
      rp_password = password, rp_flags = flags\<rparr>"

definition rspamd_request :: "rspamd \<Rightarrow> bytes \<Rightarrow> http_request" where
  "rspamd_request r raw =
     \<lparr>hr_url = rp_base_url r @ ''/checkv2'',
      hr_headers = [(''content-type'', ''application/octet-stream'')]
        @ (case rp_password r of Some p \<Rightarrow> [(''Password'', p)] | None \<Rightarrow> [])
        @ (case rp_flags r of Some f \<Rightarrow> [(''Flags'', f)] | None \<Rightarrow> []),
      hr_body = raw\<rparr>"

definition json_get :: "json \<Rightarrow> string \<Rightarrow> json option" where
  "json_get j name = (case j of JObject fs \<Rightarrow> map_of fs name | _ \<Rightarrow> None)"

text \<open>\<open>as_f64\<close> is the number's value; \<open>status_text\<close> of a reply is what \<open>StatusCode\<close> prints.\<close>

definition rspamd_check :: "(http_request \<Rightarrow> json_reply) \<Rightarrow> (json \<Rightarrow> f64_bits option) \<Rightarrow> rspamd \<Rightarrow> bytes \<Rightarrow> f64_bits
    \<Rightarrow> string + spam_result" where
  "rspamd_check http as_f64 r raw threshold =
     (case http (rspamd_request r raw) of
        RequestFailed e \<Rightarrow> Inl (''rspamd request failed: '' @ e)
      | ReplyStatus code status_text \<Rightarrow> Inl (''rspamd returned '' @ status_text)
      | NotJson e \<Rightarrow> Inl (''rspamd response was not JSON: '' @ e)
      | ReplyJson body \<Rightarrow>
          Inr \<lparr>sr_score = (case Option.bind (json_get body ''score'') as_f64 of Some x \<Rightarrow> x | None \<Rightarrow> 0),
               sr_threshold = threshold,
               sr_action = (case json_get body ''action'' of Some (JString a) \<Rightarrow> a | _ \<Rightarrow> ''no action'')\<rparr>)"

section \<open>ClamAV\<close>

record virus_result =
  vr_found :: bool
  vr_details :: "string option"

definition be_bytes :: "nat \<Rightarrow> bytes" where
  "be_bytes n = [char_of (n div 2 ^ 24 mod 256), char_of (n div 2 ^ 16 mod 256), char_of (n div 2 ^ 8 mod 256), char_of (n mod 256)]"

definition instream :: "bytes \<Rightarrow> bytes" where
  "instream raw =
     ''zINSTREAM'' @ [CHR 0x00]
     @ concat (map (\<lambda>chunk. be_bytes (length chunk) @ chunk) (chunks 8192 raw)) @ be_bytes 0"

text \<open>\<open>clamd\<close> answers a request with bytes, or the socket fails.\<close>

definition clamav_verdict :: "bytes \<Rightarrow> string + virus_result" where
  "clamav_verdict response =
     (let reply = trim_end_matches (\<lambda>c. c = CHR 0x00 \<or> c = LF \<or> c = CHR '' '') (utf8_lossy response) in
      if suffix ''OK'' reply then Inr \<lparr>vr_found = False, vr_details = None\<rparr>
      else
        (case strip_suffix '' FOUND'' reply of
           Some rest \<Rightarrow>
             Inr \<lparr>vr_found = True,
                  vr_details = Some (trim (case rsplit_once (CHR '':'') rest of Some (_, s) \<Rightarrow> s | None \<Rightarrow> rest))\<rparr>
         | None \<Rightarrow> Inl (''unexpected clamav response: '' @ reply)))"

definition clamav_scan :: "(bytes \<Rightarrow> string + bytes) \<Rightarrow> bytes \<Rightarrow> string + virus_result" where
  "clamav_scan clamd raw =
     (case (case clamd (instream raw) of Inl e \<Rightarrow> Inl e | Inr response \<Rightarrow> clamav_verdict response) of
        Inl e \<Rightarrow> Inl (''clamav scan failed: '' @ e)
      | Inr v \<Rightarrow> Inr v)"

section \<open>What the daemon reads\<close>

text \<open>The stream as the protocol of \<open>clamd\<close> defines it: chunks with their length, ended by an empty chunk.\<close>

definition be_value :: "bytes \<Rightarrow> nat" where
  "be_value b = foldl (\<lambda>n c. n * 256 + byte c) 0 b"

function read_stream :: "bytes \<Rightarrow> bytes option" where
  "read_stream s =
     (if length s < 4 then None
      else
        (let n = be_value (take 4 s); rest = drop 4 s in
         if n = 0 then (if rest = [] then Some [] else None)
         else if length rest < n then None
         else map_option (\<lambda>r. take n rest @ r) (read_stream (drop n rest))))"
  by pat_completeness auto
termination by (relation "measure length") auto

declare read_stream.simps [simp del]

lemma be_value_bytes:
  assumes "n < 2 ^ 32"
  shows "be_value (be_bytes n) = n"
proof -
  have d: "n div 2 ^ 8 = n div 256" "n div 2 ^ 16 = n div 256 div 256" "n div 2 ^ 24 = n div 256 div 256 div 256"
    by (simp_all add: div_mult2_eq [symmetric])
  have b: "byte (char_of (m mod 256)) = m mod 256" for m :: nat by (rule byte_char_of) simp
  have "n div 256 div 256 div 256 < 256" using assms by (simp add: div_mult2_eq [symmetric] less_mult_imp_div_less)
  then have top: "n div 256 div 256 div 256 mod 256 = n div 256 div 256 div 256" by simp
  have "be_value (be_bytes n)
      = (((n div 256 div 256 div 256) * 256 + n div 256 div 256 mod 256) * 256 + n div 256 mod 256) * 256 + n mod 256"
    unfolding be_value_def be_bytes_def d by (simp only: foldl.simps b mult_0 add_0) (simp only: top)
  then show ?thesis by (simp only: div_mult_mod_eq)
qed

lemma length_be_bytes [simp]: "length (be_bytes n) = 4"
  by (simp add: be_bytes_def)

lemma read_chunk: "chunk \<noteq> [] \<Longrightarrow> length chunk < 2 ^ 32 \<Longrightarrow>
    read_stream (be_bytes (length chunk) @ chunk @ s) = map_option (\<lambda>r. chunk @ r) (read_stream s)"
  by (subst read_stream.simps) (simp add: be_value_bytes)

lemma read_instream_chunks:
  "0 < n \<Longrightarrow> n < 2 ^ 32 \<Longrightarrow>
   read_stream (concat (map (\<lambda>chunk. be_bytes (length chunk) @ chunk) (chunks n raw)) @ be_bytes 0) = Some raw"
proof (induction n raw rule: chunks.induct)
  case (1 n raw)
  show ?case
  proof (cases "raw = []")
    case True
    then show ?thesis by (subst read_stream.simps) (simp add: chunks.simps be_value_bytes)
  next
    case False
    with 1 have "take n raw \<noteq> []" "length (take n raw) < 2 ^ 32" by auto
    from read_chunk [OF this] 1 False show ?thesis
      by (subst chunks.simps) simp
  qed
qed

theorem instream_exact: "\<exists>s. instream raw = ''zINSTREAM'' @ [CHR 0x00] @ s \<and> read_stream s = Some raw"
  unfolding instream_def using read_instream_chunks [of 8192 raw] by (intro exI conjI) (rule refl, simp)

end
