(* ===== verification/Dkim.thy ===== *)
theory Dkim
  imports Tracking Lifecycle
begin

text \<open>
  DKIM signatures of outgoing mail (\<open>worker/dkim.rs\<close>), RSA with SHA-256 and relaxed canonical forms, and
  their verification as RFC 6376 describes it. SHA-256, RSA, base64 and Unicode lower case are
  parameters. Shown: a message of 7 bit lines in which no signed header is repeated verifies.
\<close>

section \<open>Canonical forms\<close>

definition is_wsp :: "char \<Rightarrow> bool" where
  "is_wsp c \<longleftrightarrow> c = CHR '' '' \<or> c = CHR 0x09"

definition SIGNED_HEADERS :: "string list" where
  "SIGNED_HEADERS = [''from'', ''sender'', ''reply-to'', ''to'', ''cc'', ''subject'', ''date'', ''message-id'']"

fun split_from :: "nat \<Rightarrow> string option \<Rightarrow> bytes list \<Rightarrow> string list \<times> nat" where
  "split_from offset current [] = (case current of Some h \<Rightarrow> [h] | None \<Rightarrow> [], offset)"
| "split_from offset current (line # ls) =
     (let trimmed = trim_end_matches (\<lambda>c. c = CR \<or> c = LF) (utf8_lossy line) in
      if trimmed = [] then (case current of Some h \<Rightarrow> [h] | None \<Rightarrow> [], offset + length line)
      else if is_wsp (hd trimmed) then
        split_from (offset + length line) (map_option (\<lambda>h. h @ crlf @ trimmed) current) ls
      else
        (case split_from (offset + length line) (Some trimmed) ls of
           (hs, n) \<Rightarrow> (case current of Some h \<Rightarrow> h # hs | None \<Rightarrow> hs, n)))"

definition split_message :: "bytes \<Rightarrow> string list \<times> bytes" where
  "split_message raw = (case split_from 0 None (split_inclusive LF raw) of (hs, n) \<Rightarrow> (hs, drop n raw))"

fun collapse :: "bool \<Rightarrow> string \<Rightarrow> string" where
  "collapse last_was_space [] = []"
| "collapse last_was_space (c # cs) =
     (if is_wsp c then (if last_was_space then [] else '' '') @ collapse True cs else c # collapse False cs)"

text \<open>\<open>replace("\r\n", " ").replace('\n', " ")\<close>.\<close>

fun unfold_lines :: "string \<Rightarrow> string" where
  "unfold_lines [] = []"
| "unfold_lines [c] = (if c = LF then '' '' else [c])"
| "unfold_lines (c # d # cs) =
     (if c = CR \<and> d = LF then CHR '' '' # unfold_lines cs
      else (if c = LF then CHR '' '' else c) # unfold_lines (d # cs))"

definition canonicalize_header :: "(string \<Rightarrow> string) \<Rightarrow> string \<Rightarrow> (string \<times> string) option" where
  "canonicalize_header lc raw_header =
     (case split_once (CHR '':'') raw_header of
        None \<Rightarrow> None
      | Some (name, v) \<Rightarrow> Some (lc (trim name), trim (collapse False (unfold_lines v))))"

definition canonicalize_body :: "bytes \<Rightarrow> bytes" where
  "canonicalize_body body =
     (let ls = map (\<lambda>l. trim_end (collapse False (trim_end_matches (\<lambda>c. c = CR) l))) (split_on LF (utf8_lossy body));
          kept = rev (dropWhile (\<lambda>l. l = []) (rev ls))
      in if kept = [] then [] else intercalate crlf kept @ crlf)"

section \<open>Signing\<close>

type_synonym signer = "bytes \<Rightarrow> bytes"

record dkim_env =
  dk_lc :: "string \<Rightarrow> string"
  dk_sha256 :: "bytes \<Rightarrow> bytes"
  dk_base64 :: base64_ops
  dk_from_pem :: "string \<Rightarrow> signer option"

definition selected_headers :: "(string \<times> string) list \<Rightarrow> (string \<times> string) list" where
  "selected_headers canonicalized =
     List.map_filter (\<lambda>name. List.find (\<lambda>h. fst h = name) canonicalized) SIGNED_HEADERS"

definition unsigned_dkim :: "string \<Rightarrow> string \<Rightarrow> int \<Rightarrow> string list \<Rightarrow> string \<Rightarrow> string" where
  "unsigned_dkim domain selector timestamp names body_hash =
     ''v=1; a=rsa-sha256; c=relaxed/relaxed; d='' @ domain @ ''; s='' @ selector @ ''; t='' @ show_int timestamp
     @ ''; h='' @ intercalate '':'' names @ ''; bh='' @ body_hash @ ''; b=''"

definition header_text :: "string \<times> string \<Rightarrow> string" where
  "header_text h = fst h @ '':'' @ snd h"

definition dkim_sign :: "dkim_env \<Rightarrow> bytes \<Rightarrow> string \<Rightarrow> string \<Rightarrow> signer \<Rightarrow> int \<Rightarrow> string" where
  "dkim_sign E raw domain selector signer timestamp =
     (let (raw_headers, body) = split_message raw;
          selected = selected_headers (List.map_filter (canonicalize_header (dk_lc E)) raw_headers);
          body_hash = b64_encode (dk_base64 E) (dk_sha256 E (canonicalize_body body));
          unsigned = unsigned_dkim domain selector timestamp (map fst selected) body_hash;
          dkim = (case canonicalize_header (dk_lc E) (''DKIM-Signature: '' @ unsigned) of Some h \<Rightarrow> h | None \<Rightarrow> ([], []));
          input = concat (map (\<lambda>h. header_text h @ crlf) selected) @ header_text dkim
      in ''DKIM-Signature: '' @ unsigned @ b64_encode (dk_base64 E) (signer input))"

definition signer_for_domain :: "dkim_env \<Rightarrow> string option \<Rightarrow> signer option \<Rightarrow> signer option" where
  "signer_for_domain E domain_key_pem installation =
     (case domain_key_pem of
        Some pem \<Rightarrow> (case dk_from_pem E pem of Some s \<Rightarrow> Some s | None \<Rightarrow> installation)
      | None \<Rightarrow> installation)"

definition sign_and_prepend :: "dkim_env \<Rightarrow> bytes \<Rightarrow> string \<Rightarrow> string \<Rightarrow> signer \<Rightarrow> int \<Rightarrow> bytes" where
  "sign_and_prepend E raw domain selector signer timestamp =
     dkim_sign E raw domain selector signer timestamp @ crlf @ raw"

section \<open>Verification\<close>

text \<open>
  A message as RFC 5322 has it: header fields, each a name and the lines of its folded value, and
  the lines of the body.
\<close>

type_synonym rfc_field = "string \<times> string list"

definition render_field :: "rfc_field \<Rightarrow> string" where
  "render_field f = fst f @ '':'' @ intercalate crlf (snd f)"

definition render_mail :: "rfc_field list \<Rightarrow> string list \<Rightarrow> bytes" where
  "render_mail fs ls = concat (map (\<lambda>f. render_field f @ crlf) fs) @ crlf @ intercalate crlf ls"

text \<open>The relaxed forms of RFC 6376, sections 3.4.2 and 3.4.4.\<close>

definition strip_wsp :: "string \<Rightarrow> string" where
  "strip_wsp s = trim_end_matches is_wsp (dropWhile is_wsp s)"

function reduce_wsp :: "string \<Rightarrow> string" where
  "reduce_wsp [] = []"
| "reduce_wsp (c # cs) = (if is_wsp c then CHR '' '' # reduce_wsp (dropWhile is_wsp cs) else c # reduce_wsp cs)"
  by pat_completeness auto
termination by (relation "measure length") (auto simp: le_imp_less_Suc length_dropWhile_le)

definition relaxed_field :: "rfc_field \<Rightarrow> string \<times> string" where
  "relaxed_field f = (to_ascii_lowercase (fst f), strip_wsp (reduce_wsp (concat (snd f))))"

definition relaxed_body :: "string list \<Rightarrow> bytes" where
  "relaxed_body ls =
     concat (map (\<lambda>l. l @ crlf)
       (rev (dropWhile (\<lambda>l. l = []) (rev (map (\<lambda>l. trim_end_matches is_wsp (reduce_wsp l)) ls)))))"

text \<open>The tags of a signature, and its value with the signature itself taken out.\<close>

definition tag_of :: "string \<Rightarrow> string" where
  "tag_of piece = strip_wsp (takeWhile (\<lambda>c. c \<noteq> CHR ''='') piece)"

definition tag_value :: "string \<Rightarrow> string \<Rightarrow> string option" where
  "tag_value v name =
     map_option (\<lambda>p. strip_wsp (drop 1 (dropWhile (\<lambda>c. c \<noteq> CHR ''='') p)))
       (List.find (\<lambda>p. tag_of p = name) (split_on (CHR '';'') v))"

definition without_b :: "string \<Rightarrow> string" where
  "without_b v =
     intercalate '';''
       (map (\<lambda>p. if tag_of p = ''b'' then takeWhile (\<lambda>c. c \<noteq> CHR ''='') p @ ''='' else p) (split_on (CHR '';'') v))"

text \<open>For every name of \<open>h=\<close> the last field with that name (section 5.4.2).\<close>

definition named_fields :: "string list \<Rightarrow> (string \<times> string) list \<Rightarrow> (string \<times> string) list" where
  "named_fields names fs = List.map_filter (\<lambda>n. List.find (\<lambda>h. fst h = n) (rev fs)) names"

text \<open>
  \<open>keys d s\<close> stands for the public key that the DNS has for selector \<open>s\<close> of domain \<open>d\<close>: the relation between
  a message and its signatures. \<open>From\<close> must be among the signed fields.
\<close>

definition dkim_verifies ::
    "dkim_env \<Rightarrow> (string \<Rightarrow> string \<Rightarrow> bytes \<Rightarrow> bytes \<Rightarrow> bool) \<Rightarrow> rfc_field list \<Rightarrow> string list \<Rightarrow> bool" where
  "dkim_verifies E keys fs ls =
     (case fs of
        [] \<Rightarrow> False
      | signature # rest \<Rightarrow>
          let v = concat (snd signature) in
          to_ascii_lowercase (fst signature) = ''dkim-signature''
          \<and> tag_value v ''v'' = Some ''1'' \<and> tag_value v ''a'' = Some ''rsa-sha256'' \<and> tag_value v ''c'' = Some ''relaxed/relaxed''
          \<and> tag_value v ''bh'' = Some (b64_encode (dk_base64 E) (dk_sha256 E (relaxed_body ls)))
          \<and> (case (tag_value v ''d'', tag_value v ''s'', tag_value v ''h'', Option.bind (tag_value v ''b'') (b64_decode (dk_base64 E))) of
               (Some d, Some s, Some h, Some sig) \<Rightarrow>
                 ''from'' \<in> set (split_on (CHR '':'') h)
                 \<and> keys d s
                     (concat (map (\<lambda>f. header_text f @ crlf) (named_fields (split_on (CHR '':'') h) (map relaxed_field rest)))
                      @ header_text (relaxed_field (fst signature, [without_b v]))) sig
             | _ \<Rightarrow> False))"

section \<open>What the theorem relies on\<close>

text \<open>
  Messages of 7 bit lines: a field has a name of graphic characters and a value whose folded lines
  start with white space; no signed field is repeated and there is a \<open>From\<close>.
\<close>

definition graphic :: "char \<Rightarrow> bool" where "graphic c \<longleftrightarrow> 0x21 \<le> byte c \<and> byte c \<le> 0x7E"

definition text_line :: "string \<Rightarrow> bool" where
  "text_line l \<longleftrightarrow> list_all (\<lambda>c. is_wsp c \<or> graphic c) l"

definition field_ok :: "rfc_field \<Rightarrow> bool" where
  "field_ok f \<longleftrightarrow> fst f \<noteq> [] \<and> list_all graphic (fst f) \<and> CHR '':'' \<notin> set (fst f)
     \<and> snd f \<noteq> [] \<and> list_all text_line (snd f) \<and> list_all (\<lambda>l. l \<noteq> [] \<and> is_wsp (hd l)) (tl (snd f))"

definition signed_once :: "rfc_field list \<Rightarrow> bool" where
  "signed_once fs \<longleftrightarrow>
     list_all (\<lambda>n. length (filter (\<lambda>f. to_ascii_lowercase (fst f) = n) fs) \<le> 1) SIGNED_HEADERS
     \<and> list_ex (\<lambda>f. to_ascii_lowercase (fst f) = ''from'') fs"

text \<open>
  Unicode lower case agrees with ASCII on ASCII; base64 is invertible and uses its alphabet; domain
  and selector are tokens of a tag list.
\<close>

definition lowers_ascii :: "(string \<Rightarrow> string) \<Rightarrow> bool" where
  "lowers_ascii lc \<longleftrightarrow> (\<forall>s. list_all graphic s \<longrightarrow> lc s = to_ascii_lowercase s)"

definition base64_text :: "base64_ops \<Rightarrow> bool" where
  "base64_text b \<longleftrightarrow> (\<forall>t. b64_decode b (b64_encode b t) = Some t
     \<and> list_all (\<lambda>c. is_ascii_alnum c \<or> c = CHR ''+'' \<or> c = CHR ''/'' \<or> c = CHR ''='') (b64_encode b t))"

definition tag_token :: "string \<Rightarrow> bool" where
  "tag_token s \<longleftrightarrow> list_all (\<lambda>c. graphic c \<and> c \<noteq> CHR '';'') s"

text \<open>The lines of a rendered field, and the tags of a rendered signature.\<close>

definition field_lines :: "rfc_field \<Rightarrow> string list" where
  "field_lines f = (fst f @ '':'' @ hd (snd f)) # tl (snd f)"

definition render_tag :: "string \<times> string \<Rightarrow> string" where
  "render_tag t = '' '' @ fst t @ ''='' @ snd t"

definition tag_ok :: "string \<times> string \<Rightarrow> bool" where
  "tag_ok t \<longleftrightarrow> list_all (\<lambda>c. graphic c \<and> c \<noteq> CHR '';'' \<and> c \<noteq> CHR ''='') (fst t)
     \<and> list_all (\<lambda>c. graphic c \<and> c \<noteq> CHR '';'') (snd t)"

definition signature_tags :: "string \<Rightarrow> string \<Rightarrow> int \<Rightarrow> string list \<Rightarrow> string \<Rightarrow> string \<Rightarrow> (string \<times> string) list" where
  "signature_tags domain selector timestamp names body_hash signature =
     [(''v'', ''1''), (''a'', ''rsa-sha256''), (''c'', ''relaxed/relaxed''), (''d'', domain), (''s'', selector),
      (''t'', show_int timestamp), (''h'', intercalate '':'' names), (''bh'', body_hash), (''b'', signature)]"

section \<open>Text lines\<close>

lemma text_line_append [simp]: "text_line (s @ t) \<longleftrightarrow> text_line s \<and> text_line t"
  by (simp add: text_line_def)

lemma text_line_simps [simp]: "text_line []" "text_line (c # s) \<longleftrightarrow> (is_wsp c \<or> graphic c) \<and> text_line s"
  by (simp_all add: text_line_def)

lemma wsp_graphic: "is_wsp c \<Longrightarrow> \<not> graphic c"
  by (auto simp: is_wsp_def graphic_def)

lemma graphic_text_line: "list_all graphic s \<Longrightarrow> text_line s"
  by (auto simp: text_line_def list_all_iff)

lemma text_line_no_breaks: "text_line l \<Longrightarrow> CR \<notin> set l \<and> LF \<notin> set l"
proof -
  have "\<not> (is_wsp CR \<or> graphic CR)" "\<not> (is_wsp LF \<or> graphic LF)" by (simp_all add: is_wsp_def graphic_def)
  then show "text_line l \<Longrightarrow> CR \<notin> set l \<and> LF \<notin> set l" unfolding text_line_def list_all_iff by blast
qed

lemma text_line_ascii: "text_line l \<Longrightarrow> \<forall>c \<in> set l. byte c < 128"
proof -
  have "byte c < 128" if "is_wsp c" for c using that unfolding is_wsp_def by (elim disjE) simp_all
  moreover have "byte c < 128" if "graphic c" for c using that unfolding graphic_def by linarith
  ultimately show "text_line l \<Longrightarrow> \<forall>c \<in> set l. byte c < 128" unfolding text_line_def list_all_iff by blast
qed

lemma trim_end_matches_none: "\<forall>c \<in> set s. \<not> p c \<Longrightarrow> trim_end_matches p s = s"
  by (cases s rule: rev_cases) (auto simp: trim_end_matches_def)

lemma trim_end_matches_append: "\<forall>c \<in> set t. p c \<Longrightarrow> trim_end_matches p (s @ t) = trim_end_matches p s"
  using dropWhile_append2 [of "rev t" p "rev s"] by (simp add: trim_end_matches_def)

section \<open>Splitting\<close>

lemma trimmed_line:
  assumes "text_line l"
  shows "trim_end_matches (\<lambda>c. c = CR \<or> c = LF) (utf8_lossy (l @ crlf)) = l"
proof -
  have "utf8_lossy (l @ crlf) = l @ crlf"
    using text_line_ascii [OF assms] by (intro utf8_lossy_ascii) auto
  then show ?thesis
    using text_line_no_breaks [OF assms]
    by (subst trim_end_matches_append [symmetric, where t = crlf])
       (auto simp: trim_end_matches_append trim_end_matches_none intro!: trim_end_matches_none)
qed

lemma intercalate_Cons: "intercalate sep (l # ls) = l @ concat (map (\<lambda>m. sep @ m) ls)"
  by (induction ls arbitrary: l) auto

lemma intercalate_terminated: "ls \<noteq> [] \<Longrightarrow> intercalate sep ls @ sep = concat (map (\<lambda>l. l @ sep) ls)"
  by (induction sep ls rule: intercalate.induct) auto

lemma split_inclusive_text:
  "list_all text_line ls \<Longrightarrow>
   split_inclusive LF (concat (map (\<lambda>l. l @ crlf) ls) @ s) = map (\<lambda>l. l @ crlf) ls @ split_inclusive LF s"
proof (induction ls)
  case (Cons l ls)
  then show ?case
    using split_inclusive_line [of LF "l @ [CR]" "concat (map (\<lambda>l. l @ crlf) ls) @ s"] text_line_no_breaks [of l] by simp
qed simp

lemma split_from_folded:
  "list_all text_line ls \<Longrightarrow> list_all (\<lambda>l. l \<noteq> [] \<and> is_wsp (hd l)) ls \<Longrightarrow>
   split_from n (Some h) (map (\<lambda>l. l @ crlf) ls @ rest)
   = split_from (n + length (concat (map (\<lambda>l. l @ crlf) ls))) (Some (intercalate crlf (h # ls))) rest"
proof (induction ls arbitrary: n h)
  case (Cons l ls)
  then show ?case by (simp add: trimmed_line intercalate_Cons add.assoc)
qed simp

lemma field_lines_ok: "field_ok f \<Longrightarrow> list_all text_line (field_lines f)"
  by (cases "snd f") (auto simp: field_lines_def field_ok_def graphic_text_line graphic_def)

lemma render_field_lines: "field_ok f \<Longrightarrow> render_field f = intercalate crlf (field_lines f)"
  by (cases "snd f") (auto simp: field_ok_def render_field_def field_lines_def intercalate_Cons)

lemma render_field_terminated: "field_ok f \<Longrightarrow> render_field f @ crlf = concat (map (\<lambda>l. l @ crlf) (field_lines f))"
  by (simp only: render_field_lines intercalate_terminated field_lines_def list.distinct not_False_eq_True)

lemma split_from_start:
  "text_line l \<Longrightarrow> l \<noteq> [] \<Longrightarrow> \<not> is_wsp (hd l) \<Longrightarrow>
   split_from n cur ((l @ crlf) # rest)
   = (case split_from (n + length (l @ crlf)) (Some l) rest of
        (hs, m) \<Rightarrow> (case cur of Some h \<Rightarrow> h # hs | None \<Rightarrow> hs, m))"
  by (simp only: split_from.simps Let_def trimmed_line if_False)

lemma split_from_field:
  assumes "field_ok f"
  shows "split_from n cur (map (\<lambda>l. l @ crlf) (field_lines f) @ rest)
    = (case split_from (n + length (render_field f @ crlf)) (Some (render_field f)) rest of
         (hs, m) \<Rightarrow> (case cur of Some h \<Rightarrow> h # hs | None \<Rightarrow> hs, m))"
proof -
  obtain l ls where f: "field_lines f = l # ls" "ls = tl (snd f)" "hd (fst f) = hd l" "l \<noteq> []"
    using assms by (auto simp: field_lines_def field_ok_def hd_append)
  have l: "text_line l" "\<not> is_wsp (hd l)" "list_all text_line ls" "list_all (\<lambda>l. l \<noteq> [] \<and> is_wsp (hd l)) ls"
    using field_lines_ok [OF assms] assms wsp_graphic f by (cases "fst f"; auto simp: field_ok_def)+
  have len: "n + length (l @ crlf) + length (concat (map (\<lambda>l. l @ crlf) ls)) = n + length (render_field f @ crlf)"
    using render_field_terminated [OF assms] f(1) by simp
  have "split_from (n + length (l @ crlf)) (Some l) (map (\<lambda>l. l @ crlf) ls @ rest)
      = split_from (n + length (render_field f @ crlf)) (Some (render_field f)) rest"
    unfolding split_from_folded [OF l(3,4)] len by (simp only: render_field_lines [OF assms] f)
  with split_from_start [OF l(1) f(4) l(2)] show ?thesis
    by (simp only: f(1) list.map append_Cons)
qed

lemma split_from_fields:
  "list_all field_ok fs \<Longrightarrow>
   split_from n cur (concat (map (\<lambda>f. map (\<lambda>l. l @ crlf) (field_lines f)) fs) @ crlf # rest)
   = ((case cur of Some h \<Rightarrow> [h] | None \<Rightarrow> []) @ map render_field fs,
      n + length (concat (map (\<lambda>f. render_field f @ crlf) fs)) + 2)"
proof (induction fs arbitrary: n cur)
  case Nil
  then show ?case using trimmed_line [of "[]"] by simp
next
  case (Cons f fs)
  then show ?case by (simp add: split_from_field split: option.splits)
qed

lemma split_rendered:
  assumes "list_all field_ok fs"
  shows "split_message (render_mail fs ls) = (map render_field fs, intercalate crlf ls)"
proof -
  let ?L = "concat (map field_lines fs)"
  have "concat (map (\<lambda>f. render_field f @ crlf) fs) = concat (map (\<lambda>l. l @ crlf) ?L)"
    using assms by (induction fs) (simp_all add: render_field_terminated del: append_assoc)
  moreover have "list_all text_line ?L"
    using assms field_lines_ok by (induction fs) auto
  ultimately have "split_inclusive LF (render_mail fs ls)
      = map (\<lambda>l. l @ crlf) ?L @ crlf # split_inclusive LF (intercalate crlf ls)"
    by (simp add: render_mail_def split_inclusive_text)
  then show ?thesis
    using split_from_fields [OF assms, of 0 None "split_inclusive LF (intercalate crlf ls)"]
    by (simp add: split_message_def render_mail_def map_concat comp_def)
qed

section \<open>Canonical forms agree\<close>

lemma collapse_reduce:
  "collapse True s = reduce_wsp (dropWhile is_wsp s) \<and> collapse False s = reduce_wsp s"
  by (induction s) auto

lemma collapse_absorbs: "s \<noteq> [] \<Longrightarrow> is_wsp (hd s) \<Longrightarrow> collapse b (CHR '' '' # s) = collapse b s"
  by (cases s) (auto simp: is_wsp_def)

lemma collapse_append_cong: "(\<And>b. collapse b s = collapse b t) \<Longrightarrow> collapse b (l @ s) = collapse b (l @ t)"
  by (induction l arbitrary: b) auto

lemma collapse_folded:
  "list_all (\<lambda>l. l \<noteq> [] \<and> is_wsp (hd l)) (tl vs) \<Longrightarrow> collapse b (intercalate '' '' vs) = collapse b (concat vs)"
proof (induction "'' ''" vs arbitrary: b rule: intercalate.induct)
  case (3 l m ls)
  then have m: "m \<noteq> []" "is_wsp (hd m)" and ih: "collapse b' (intercalate '' '' (m # ls)) = collapse b' (concat (m # ls))" for b'
    by simp_all
  from m have "intercalate '' '' (m # ls) \<noteq> []" "is_wsp (hd (intercalate '' '' (m # ls)))"
    by (simp_all only: intercalate_Cons append_is_Nil_conv hd_append2) simp_all
  from collapse_absorbs [OF this] have "collapse b' ('' '' @ intercalate '' '' (m # ls)) = collapse b' (concat (m # ls))" for b'
    by (simp only: ih append.simps)
  from collapse_append_cong [OF this, of b l] show ?case by simp
qed simp_all

lemma unfold_lines_plain: "CR \<notin> set l \<Longrightarrow> LF \<notin> set l \<Longrightarrow> unfold_lines (l @ s) = l @ unfold_lines s"
proof (induction l)
  case (Cons c l)
  then show ?case by (cases "l @ s") auto
qed simp

lemma unfold_folded: "list_all text_line vs \<Longrightarrow> unfold_lines (intercalate crlf vs) = intercalate '' '' vs"
proof (induction crlf vs rule: intercalate.induct)
  case (2 l)
  then show ?case using unfold_lines_plain [of l "[]"] text_line_no_breaks [of l] by simp
next
  case (3 l m ls)
  then show ?case using unfold_lines_plain [of l] text_line_no_breaks [of l] by simp
qed simp

lemma text_line_dropWhile: "text_line s \<Longrightarrow> text_line (dropWhile p s)"
  by (auto simp: text_line_def list_all_iff dest: set_dropWhileD)

lemma reduce_wsp_text: "text_line s \<Longrightarrow> text_line (reduce_wsp s)"
  by (induction s rule: reduce_wsp.induct) (auto simp: text_line_dropWhile is_wsp_def)

lemma trim_front_wsp:
  "text_line s \<Longrightarrow> es = ws_encodings \<or> es = map rev ws_encodings \<Longrightarrow> trim_front es s = dropWhile is_wsp s"
proof (induction s)
  case (Cons c s)
  show ?case
  proof (cases "is_wsp c")
    case True
    then have "first_ws es (c # s) = Some [c]"
      using Cons.prems(2) by (auto simp: first_ws_def ws_encodings_def is_wsp_def)
    with True Cons show ?thesis by simp
  next
    case False
    with Cons.prems have "first_ws es (c # s) = None"
      using first_ws_graphic [of "c # s"] by (auto simp: graphic_def)
    with False show ?thesis by simp
  qed
qed simp

lemma trim_end_wsp: "text_line s \<Longrightarrow> trim_end s = trim_end_matches is_wsp s"
  using trim_front_wsp [of "rev s" "map rev ws_encodings"]
  by (simp add: trim_end_def trim_end_matches_def text_line_def)

lemma trim_wsp: "text_line s \<Longrightarrow> trim s = strip_wsp s"
  by (simp add: trim_def trim_start_def strip_wsp_def trim_front_wsp trim_end_wsp text_line_dropWhile)

lemma canonicalize_header_relaxed:
  assumes "lowers_ascii lc" "field_ok f"
  shows "canonicalize_header lc (render_field f) = Some (relaxed_field f)"
proof -
  have f: "list_all graphic (fst f)" "CHR '':'' \<notin> set (fst f)" "list_all text_line (snd f)"
    "list_all (\<lambda>l. l \<noteq> [] \<and> is_wsp (hd l)) (tl (snd f))"
    using assms(2) by (simp_all add: field_ok_def)
  have "text_line (concat (snd f))" using f(3) by (induction "snd f" arbitrary: f) auto
  then have "trim (collapse False (unfold_lines (intercalate crlf (snd f)))) = strip_wsp (reduce_wsp (concat (snd f)))"
    by (simp add: unfold_folded [OF f(3)] collapse_folded [OF f(4)] collapse_reduce trim_wsp reduce_wsp_text)
  moreover have "split_once (CHR '':'') (render_field f) = Some (fst f, intercalate crlf (snd f))"
    using f(2) by (simp add: render_field_def split_once_first)
  moreover have "trim (fst f) = fst f" using f(1) trim_graphic by (simp add: graphic_def [abs_def])
  ultimately show ?thesis
    using assms(1) f(1) by (simp add: canonicalize_header_def relaxed_field_def lowers_ascii_def)
qed

lemma split_body_lines:
  "ls \<noteq> [] \<Longrightarrow> list_all text_line ls \<Longrightarrow>
   map (trim_end_matches (\<lambda>c. c = CR)) (split_on LF (intercalate crlf ls)) = ls"
proof (induction crlf ls rule: intercalate.induct)
  case (2 l)
  then show ?case using text_line_no_breaks [of l]
    by (auto simp: split_on_notin intro!: trim_end_matches_none)
next
  case (3 l m ls)
  then have "CR \<notin> set l" "LF \<notin> set (l @ [CR])" using text_line_no_breaks [of l] by auto
  then show ?case
    using 3 split_on_append [of LF "l @ [CR]" "intercalate crlf (m # ls)"]
    by (auto simp: trim_end_matches_append intro!: trim_end_matches_none)
qed simp

lemma text_intercalate: "list_all text_line ls \<Longrightarrow> \<forall>c \<in> set (intercalate crlf ls). byte c < 128"
  by (induction crlf ls rule: intercalate.induct) (auto dest: text_line_ascii)

lemma canonicalize_body_relaxed:
  assumes "list_all text_line ls"
  shows "canonicalize_body (intercalate crlf ls) = relaxed_body ls"
proof (cases "ls = []")
  case True
  then show ?thesis
    by (simp add: canonicalize_body_def relaxed_body_def trim_end_matches_def trim_end_def)
next
  case False
  let ?kept = "rev (dropWhile (\<lambda>l. l = []) (rev (map (\<lambda>l. trim_end_matches is_wsp (reduce_wsp l)) ls)))"
  have "map (\<lambda>l. trim_end (collapse False (trim_end_matches (\<lambda>c. c = CR) l))) (split_on LF (intercalate crlf ls))
      = map (\<lambda>l. trim_end (collapse False l)) ls"
    using split_body_lines [OF False assms] by (metis (no_types, lifting) list.map_comp comp_def map_eq_conv)
  also have "\<dots> = map (\<lambda>l. trim_end_matches is_wsp (reduce_wsp l)) ls"
    using assms by (auto simp: list_all_iff collapse_reduce trim_end_wsp reduce_wsp_text)
  finally have "canonicalize_body (intercalate crlf ls) = (if ?kept = [] then [] else intercalate crlf ?kept @ crlf)"
    using utf8_lossy_ascii [OF text_intercalate [OF assms]] by (simp only: canonicalize_body_def Let_def)
  then show ?thesis
    using intercalate_terminated [of ?kept crlf] unfolding relaxed_body_def by (cases "?kept = []") simp_all
qed

section \<open>The signed fields\<close>

lemma find_rev_unique:
  "length (filter P xs) \<le> 1 \<Longrightarrow> List.find P (rev xs) = List.find P xs"
proof (induction xs)
  case (Cons x xs)
  show ?case
  proof (cases "P x")
    case True
    with Cons.prems have "filter P xs = []" by simp
    then have "List.find P (rev xs) = None" by (auto simp: find_None_iff filter_empty_conv)
    with True show ?thesis by (auto simp: find_append)
  next
    case False
    with Cons show ?thesis by (auto simp: find_append split: option.splits)
  qed
qed simp

lemma named_again:
  assumes "\<And>n h. n \<in> set ns \<Longrightarrow> g n = Some h \<Longrightarrow> fst h = n \<and> g' n = Some h"
  shows "List.map_filter g' (map fst (List.map_filter g ns)) = List.map_filter g ns"
  using assms
proof (induction ns)
  case (Cons n ns)
  then have ih: "List.map_filter g' (map fst (List.map_filter g ns)) = List.map_filter g ns" by simp
  show ?case
  proof (cases "g n")
    case (Some h)
    with Cons.prems [of n h] have "fst h = n" "g' n = Some h" by simp_all
    with Some ih show ?thesis by (simp add: List.map_filter_simps)
  qed (simp add: List.map_filter_simps ih)
qed (simp add: List.map_filter_simps)

lemma selected_named:
  assumes "signed_once fs"
  shows "named_fields (map fst (selected_headers (map relaxed_field fs))) (map relaxed_field fs)
    = selected_headers (map relaxed_field fs)"
  unfolding named_fields_def selected_headers_def
proof (rule named_again)
  fix n h
  assume n: "n \<in> set SIGNED_HEADERS" and h: "List.find (\<lambda>h. fst h = n) (map relaxed_field fs) = Some h"
  then have "length (filter (\<lambda>h. fst h = n) (map relaxed_field fs)) \<le> 1"
    using assms by (auto simp: signed_once_def list_all_iff filter_map comp_def relaxed_field_def)
  from find_rev_unique [OF this] h show "fst h = n \<and> List.find (\<lambda>h. fst h = n) (rev (map relaxed_field fs)) = Some h"
    by (auto simp: find_Some_iff)
qed

lemma selected_names: "map fst (selected_headers cs) = filter (\<lambda>n. n \<in> set (map fst cs)) SIGNED_HEADERS"
proof -
  have "map fst (List.map_filter (\<lambda>n. List.find (\<lambda>h. fst h = n) cs) ns) = filter (\<lambda>n. n \<in> set (map fst cs)) ns" for ns
  proof (induction ns)
    case (Cons n ns)
    show ?case
    proof (cases "List.find (\<lambda>h. fst h = n) cs")
      case None
      then have "n \<notin> set (map fst cs)" by (auto simp: find_None_iff)
      with None Cons show ?thesis by (simp add: List.map_filter_simps)
    next
      case (Some h)
      then have "fst h = n" "n \<in> set (map fst cs)" by (auto simp: find_Some_iff)
      with Some Cons show ?thesis by (simp add: List.map_filter_simps)
    qed
  qed (simp add: List.map_filter_simps)
  then show ?thesis by (simp add: selected_headers_def)
qed

section \<open>Tags\<close>

lemma split_on_intercalate:
  "ls \<noteq> [] \<Longrightarrow> list_all (\<lambda>l. c \<notin> set l) ls \<Longrightarrow> split_on c (intercalate [c] ls) = ls"
  by (induction "[c]" ls rule: intercalate.induct) (auto simp: split_on_notin split_on_append)

lemma strip_wsp_graphic: "list_all graphic s \<Longrightarrow> strip_wsp s = s" "list_all graphic s \<Longrightarrow> strip_wsp (CHR '' '' # s) = s"
proof -
  show s: "strip_wsp s = s" if "list_all graphic s"
    using that wsp_graphic unfolding strip_wsp_def
    by (subst dropWhile_id) (auto simp: list_all_iff intro!: trim_end_matches_none)
  show "strip_wsp (CHR '' '' # s) = s" if "list_all graphic s"
    using s [OF that] by (simp add: strip_wsp_def is_wsp_def)
qed

lemma tag_of_rendered:
  assumes "tag_ok t"
  shows "takeWhile (\<lambda>c. c \<noteq> CHR ''='') (render_tag t) = '' '' @ fst t"
    "dropWhile (\<lambda>c. c \<noteq> CHR ''='') (render_tag t) = ''='' @ snd t" "tag_of (render_tag t) = fst t"
proof -
  from assms have eq: "\<forall>c \<in> set (fst t). c \<noteq> CHR ''=''" and g: "list_all graphic (fst t)"
    by (auto simp: tag_ok_def list_all_iff)
  from eq show tw: "takeWhile (\<lambda>c. c \<noteq> CHR ''='') (render_tag t) = '' '' @ fst t"
    "dropWhile (\<lambda>c. c \<noteq> CHR ''='') (render_tag t) = ''='' @ snd t"
    by (simp_all add: render_tag_def takeWhile_append2 dropWhile_append2)
  from g tw(1) strip_wsp_graphic(2) show "tag_of (render_tag t) = fst t" by (simp add: tag_of_def)
qed

lemma split_tags:
  assumes "ts \<noteq> []" "list_all tag_ok ts"
  shows "split_on (CHR '';'') (intercalate '';'' (map render_tag ts)) = map render_tag ts"
  using assms by (intro split_on_intercalate) (auto simp: list_all_iff tag_ok_def render_tag_def)

lemma tag_value_rendered:
  assumes "ts \<noteq> []" "list_all tag_ok ts"
  shows "tag_value (intercalate '';'' (map render_tag ts)) n = map_of ts n"
proof -
  have "map_option (\<lambda>p. strip_wsp (drop 1 (dropWhile (\<lambda>c. c \<noteq> CHR ''='') p))) (List.find (\<lambda>p. tag_of p = n) (map render_tag us))
      = map_of us n" if "list_all tag_ok us" for us
    using that
  proof (induction us)
    case (Cons u us)
    then have u: "tag_ok u" and ih: "map_option (\<lambda>p. strip_wsp (drop 1 (dropWhile (\<lambda>c. c \<noteq> CHR ''='') p)))
        (List.find (\<lambda>p. tag_of p = n) (map render_tag us)) = map_of us n" by simp_all
    from u have "list_all graphic (snd u)" by (simp add: tag_ok_def list_all_iff)
    then have "strip_wsp (drop 1 (dropWhile (\<lambda>c. c \<noteq> CHR ''='') (render_tag u))) = snd u"
      by (simp only: tag_of_rendered [OF u]) (simp add: strip_wsp_graphic(1))
    with ih show ?case by (cases "fst u = n") (simp_all add: tag_of_rendered(3) [OF u])
  qed simp
  from this [OF assms(2)] show ?thesis unfolding tag_value_def split_tags [OF assms] .
qed

lemma without_b_rendered:
  assumes "ts \<noteq> []" "list_all tag_ok ts"
  shows "without_b (intercalate '';'' (map render_tag ts))
    = intercalate '';'' (map render_tag (map (\<lambda>t. if fst t = ''b'' then (''b'', []) else t) ts))"
proof -
  have "(if tag_of (render_tag t) = ''b'' then takeWhile (\<lambda>c. c \<noteq> CHR ''='') (render_tag t) @ ''='' else render_tag t)
      = render_tag (if fst t = ''b'' then (''b'', []) else t)" if "t \<in> set ts" for t
    using that assms tag_of_rendered [of t] by (simp add: list_all_iff) (simp add: render_tag_def)
  then show ?thesis unfolding without_b_def split_tags [OF assms] by (simp add: comp_def cong: map_cong)
qed

lemma unsigned_dkim_tags:
  "'' '' @ unsigned_dkim domain selector timestamp names body_hash @ signature
   = intercalate '';'' (map render_tag (signature_tags domain selector timestamp names body_hash signature))"
  by (simp add: unsigned_dkim_def signature_tags_def render_tag_def)

lemma alnum_token: "is_ascii_alnum c \<or> c = CHR ''+'' \<or> c = CHR ''/'' \<or> c = CHR ''='' \<or> c = CHR ''-'' \<or> c = CHR '':'' \<Longrightarrow>
    graphic c \<and> c \<noteq> CHR '';''"
  by (elim disjE) (auto simp: is_ascii_alnum_def is_ascii_lower_def is_ascii_upper_def is_ascii_digit_def graphic_def)

lemma base64_token: "base64_text b \<Longrightarrow> tag_token (b64_encode b t)"
  unfolding tag_token_def base64_text_def list_all_iff using alnum_token by blast

lemma show_int_token: "tag_token (show_int n)"
  unfolding tag_token_def list_all_iff using show_int_chars alnum_token by (auto simp: is_ascii_alnum_def)

lemma intercalate_token: "list_all tag_token ns \<Longrightarrow> tag_token (intercalate '':'' ns)"
  by (induction "'':''" ns rule: intercalate.induct) (auto simp: tag_token_def graphic_def)

lemma signed_tokens: "list_all (\<lambda>n. tag_token n \<and> n \<noteq> [] \<and> CHR '':'' \<notin> set n) SIGNED_HEADERS"
  by (simp add: SIGNED_HEADERS_def tag_token_def graphic_def)

lemma signature_tags_ok:
  assumes "tag_token domain" "tag_token selector" "tag_token body_hash" "tag_token signature" "set names \<subseteq> set SIGNED_HEADERS"
  shows "list_all tag_ok (signature_tags domain selector timestamp names body_hash signature)"
proof -
  have "list_all tag_token names" using assms(5) signed_tokens by (auto simp: list_all_iff)
  from intercalate_token [OF this] have "tag_token (intercalate '':'' names)" .
  with assms(1-4) show_int_token show ?thesis
    by (simp add: signature_tags_def tag_ok_def tag_token_def) (simp add: graphic_def)
qed

lemma rendered_tags_text: "list_all tag_ok ts \<Longrightarrow> text_line (intercalate '';'' (map render_tag ts))"
proof (induction ts)
  case (Cons t ts)
  have tag: "text_line (render_tag t)" "text_line '';''"
    using Cons.prems by (auto simp: tag_ok_def render_tag_def is_wsp_def text_line_def list_all_iff graphic_def)
  with Cons show ?case by (cases ts) simp_all
qed simp

lemma signed_names_read:
  assumes "set names \<subseteq> set SIGNED_HEADERS" "list_all (\<lambda>h. fst h \<noteq> []) cs"
  shows "named_fields (split_on (CHR '':'') (intercalate '':'' names)) cs = named_fields names cs"
proof (cases "names = []")
  case True
  have "List.find (\<lambda>h. fst h = []) (rev cs) = None" using assms(2) by (auto simp: find_None_iff list_all_iff)
  with True show ?thesis by (simp add: named_fields_def List.map_filter_simps)
next
  case False
  have "list_all (\<lambda>n. CHR '':'' \<notin> set n) names" using assms(1) signed_tokens by (auto simp: list_all_iff)
  from split_on_intercalate [OF False this] show ?thesis by simp
qed

lemma from_is_read:
  assumes "set names \<subseteq> set SIGNED_HEADERS" "''from'' \<in> set names"
  shows "''from'' \<in> set (split_on (CHR '':'') (intercalate '':'' names))"
proof -
  have "list_all (\<lambda>n. CHR '':'' \<notin> set n) names" using assms(1) signed_tokens by (auto simp: list_all_iff)
  from split_on_intercalate [OF _ this] assms(2) show ?thesis by (cases "names = []") simp_all
qed

lemma signature_field_ok: "text_line v \<Longrightarrow> field_ok (''DKIM-Signature'', [v])"
  by (simp add: field_ok_def graphic_def)

lemma canonicalized_fields:
  assumes "lowers_ascii lc" "list_all field_ok fs"
  shows "List.map_filter (canonicalize_header lc) (map render_field fs) = map relaxed_field fs"
  using assms(2) by (induction fs) (simp_all add: List.map_filter_simps canonicalize_header_relaxed [OF assms(1)])

text \<open>C20. A signature verifies: for a message of 7 bit lines without repeated signed fields the signed
  message is the message with one more field in front, and a verifier that follows RFC 6376 accepts it,
  with the key the DNS publishes for the domain and the selector of the signature, whatever folding and white space
  the fields and the body have.\<close>

theorem dkim_signature_verifies:
  assumes "lowers_ascii (dk_lc E)" "base64_text (dk_base64 E)" "\<And>m. keys domain selector m (key m)"
    "list_all field_ok fs" "signed_once fs" "list_all text_line ls" "tag_token domain" "tag_token selector"
  shows "\<exists>v. sign_and_prepend E (render_mail fs ls) domain selector key timestamp = render_mail ((''DKIM-Signature'', [v]) # fs) ls
     \<and> field_ok (''DKIM-Signature'', [v]) \<and> dkim_verifies E keys ((''DKIM-Signature'', [v]) # fs) ls"
proof -
  let ?cs = "map relaxed_field fs" let ?sel = "selected_headers (map relaxed_field fs)"
  let ?names = "map fst ?sel"
  let ?bh = "b64_encode (dk_base64 E) (dk_sha256 E (relaxed_body ls))"
  let ?u = "unsigned_dkim domain selector timestamp ?names ?bh"
  let ?tags = "signature_tags domain selector timestamp ?names ?bh"
  let ?input = "concat (map (\<lambda>h. header_text h @ crlf) ?sel) @ header_text (relaxed_field (''DKIM-Signature'', ['' '' @ ?u]))"
  define sig where "sig = b64_encode (dk_base64 E) (key ?input)"
  define v where "v = '' '' @ ?u @ sig"
  have names: "set ?names \<subseteq> set SIGNED_HEADERS" "''from'' \<in> set ?names"
    using assms(5) by (auto simp: selected_names signed_once_def list_ex_iff SIGNED_HEADERS_def relaxed_field_def image_iff intro: sym)
  have ok: "list_all tag_ok (?tags s)" if "tag_token s" for s
    using signature_tags_ok [OF assms(7,8) base64_token [OF assms(2)] that names(1)] .
  have line: "text_line ('' '' @ ?u @ s)" if "tag_token s" for s
    unfolding unsigned_dkim_tags using rendered_tags_text [OF ok [OF that]] .
  have sig_ok: "tag_token sig" "tag_token []"
    unfolding sig_def using base64_token [OF assms(2)] by (simp_all add: tag_token_def)
  have canon: "canonicalize_header (dk_lc E) (''DKIM-Signature: '' @ ?u) = Some (relaxed_field (''DKIM-Signature'', ['' '' @ ?u]))"
    using canonicalize_header_relaxed [OF assms(1) signature_field_ok [of "'' '' @ ?u"]] line [OF sig_ok(2)]
    by (simp add: render_field_def)
  have "dkim_sign E (render_mail fs ls) domain selector key timestamp = ''DKIM-Signature: '' @ ?u @ sig"
    by (simp only: dkim_sign_def split_rendered [OF assms(4)] canonicalized_fields [OF assms(1,4)]
        canonicalize_body_relaxed [OF assms(6)] canon Let_def split_conv option.case sig_def)
  then have prepended: "sign_and_prepend E (render_mail fs ls) domain selector key timestamp
      = render_mail ((''DKIM-Signature'', [v]) # fs) ls"
    by (simp add: sign_and_prepend_def render_mail_def render_field_def v_def)
  have v: "v = intercalate '';'' (map render_tag (?tags sig))" by (simp only: v_def unsigned_dkim_tags)
  have tags: "tag_value v n = map_of (?tags sig) n" for n
    unfolding v by (rule tag_value_rendered [OF _ ok [OF sig_ok(1)]]) (simp add: signature_tags_def)
  have "without_b v = intercalate '';'' (map render_tag (?tags []))"
    unfolding v by (subst without_b_rendered [OF _ ok [OF sig_ok(1)]]) (simp_all add: signature_tags_def)
  then have wb: "without_b v = '' '' @ ?u" using unsigned_dkim_tags [of domain selector timestamp ?names ?bh "[]"] by simp
  have "list_all (\<lambda>h. fst h \<noteq> []) ?cs"
    using assms(4) by (auto simp: list_all_iff field_ok_def relaxed_field_def to_ascii_lowercase_def)
  from signed_names_read [OF names(1) this] selected_named [OF assms(5)]
  have read: "named_fields (split_on (CHR '':'') (intercalate '':'' ?names)) ?cs = ?sel" by simp
  have decoded: "b64_decode (dk_base64 E) sig = Some (key ?input)" using assms(2) by (simp add: base64_text_def sig_def)
  have lower: "to_ascii_lowercase ''DKIM-Signature'' = ''dkim-signature''" by (simp add: ascii_eval)
  have "dkim_verifies E keys ((''DKIM-Signature'', [v]) # fs) ls"
    using assms(3) [of ?input] from_is_read [OF names] lower
    by (simp add: dkim_verifies_def tags wb read decoded signature_tags_def del: append.simps)
  with prepended signature_field_ok line [OF sig_ok(1)] show ?thesis unfolding v_def by blast
qed

section \<open>An example, and a message that does not verify\<close>

definition demo_dkim :: dkim_env where
  "demo_dkim = \<lparr>dk_lc = to_ascii_lowercase, dk_sha256 = (\<lambda>b. take 4 b), dk_base64 = demo_base64, dk_from_pem = (\<lambda>_. None)\<rparr>"

definition demo_keys :: "string \<Rightarrow> string \<Rightarrow> bytes \<Rightarrow> bytes \<Rightarrow> bool" where
  "demo_keys d s m sig \<longleftrightarrow> d = ''x.io'' \<and> s = ''k1'' \<and> sig = rev m"

lemma demo_base64_text: "base64_text demo_base64"
proof -
  have "is_ascii_alnum (hex_digit d)" if "d < 16" for d
    using that unfolding hex_digit_def is_ascii_alnum_def is_ascii_lower_def is_ascii_digit_def by auto
  with demo_base64_ok show ?thesis by (auto simp: base64_text_def base64_ok_def demo_base64_def list_all_iff)
qed

definition demo_fields :: "rfc_field list" where
  "demo_fields = [(''From'', ['' a@x.io  '']), (''To'', ['' b,'', ''   c'']), (''X-A'', [''q''])]"

theorem dkim_signature_verifies_witness:
  "\<exists>v. sign_and_prepend demo_dkim (render_mail demo_fields [''hi  there '', [], ''x'', []]) ''x.io'' ''k1'' rev 5
       = render_mail ((''DKIM-Signature'', [v]) # demo_fields) [''hi  there '', [], ''x'', []]
     \<and> field_ok (''DKIM-Signature'', [v])
     \<and> dkim_verifies demo_dkim demo_keys ((''DKIM-Signature'', [v]) # demo_fields) [''hi  there '', [], ''x'', []]"
  by (rule dkim_signature_verifies)
     (simp_all add: demo_dkim_def demo_fields_def lowers_ascii_def demo_base64_text demo_keys_def field_ok_def signed_once_def
       SIGNED_HEADERS_def text_line_def tag_token_def graphic_def is_wsp_def ascii_eval)

text \<open>
  The code signs the first occurrence of a repeated field and a verifier reads the last: the texts
  that are signed and verified differ.
\<close>

lemma repeated_field_differs:
  "let cs = List.map_filter (canonicalize_header to_ascii_lowercase) [''From: a'', ''To: b'', ''To: c''] in
   selected_headers cs = [(''from'', ''a''), (''to'', ''b'')]
   \<and> named_fields (map fst (selected_headers cs)) cs = [(''from'', ''a''), (''to'', ''c'')]"
  by code_simp

end
