(* ===== verification/Worker.thy ===== *)
theory Worker
  imports Reports Inspection Dkim Sender
begin

text \<open>
  The delivery worker (\<open>worker/worker.rs\<close>): taking a row from the queue, delivering an outgoing message,
  inspecting, correlating and routing an incoming one.

  The worker runs one database statement or transaction after the other. Before its \<open>k\<close>-th statement
  other workers and the API may have changed the tables in any way (\<open>wv_between\<close>); the statement may fail,
  with or without effect (\<open>wv_error\<close>). SMTP deliveries and HTTP requests are recorded in the order they are made.
\<close>

section \<open>Running statements\<close>

record worker_env =
  wv_between :: "nat \<Rightarrow> mail_db \<Rightarrow> mail_db"
  wv_now :: "nat \<Rightarrow> instant"
  wv_error :: "nat \<Rightarrow> (bool \<times> string) option"
  wv_token :: "nat \<Rightarrow> string"
  wv_dequeue :: dequeue_env
  wv_net :: "endpoint \<Rightarrow> attempt_env \<times> attempt_env"
  wv_mx :: mx_env
  wv_outbox :: outbox_env
  wv_dkim :: dkim_env
  wv_ip_parse :: "string \<Rightarrow> ip_addr option"
  wv_guard_env :: guard_env
  wv_show_ip :: "ip_addr \<Rightarrow> string"
  wv_http :: "http_request \<Rightarrow> http_result"
  wv_status_text :: "nat \<Rightarrow> string"
  wv_rspamd_http :: "http_request \<Rightarrow> json_reply"
  wv_as_f64 :: "json \<Rightarrow> f64_bits option"
  wv_clamd :: "bytes \<Rightarrow> string + bytes"
  wv_dmarc :: dmarc_env
  wv_debug :: "string \<Rightarrow> string"

abbreviation wv_lc :: "worker_env \<Rightarrow> string \<Rightarrow> string" where
  "wv_lc E \<equiv> dk_lc (wv_dkim E)"

abbreviation wv_base64 :: "worker_env \<Rightarrow> base64_ops" where
  "wv_base64 E \<equiv> dk_base64 (wv_dkim E)"

record worker =
  wk_queue :: pg_queue
  wk_sender :: smtp_sender
  wk_signer :: "signer option"
  wk_dkim_selector :: string
  wk_rspamd :: "rspamd option"
  wk_clamav :: bool
  wk_spam_threshold :: f64_bits
  wk_spam_failure_threshold :: f64_bits
  wk_tracking_base_url :: string
  wk_web_protocol :: string
  wk_ssrf_guard :: ssrf_guard
  wk_max_attempts :: int
  wk_return_path_domain :: "string option"
  wk_worker_id :: string

text \<open>One call of \<open>SmtpSender::send\<close>.\<close>

record smtp_call =
  sl_domain :: string
  sl_return_path :: string
  sl_rcpt_to :: string
  sl_raw :: bytes
  sl_source_ip :: "ip_addr option"
  sl_outcome :: send_outcome

record worker_run =
  wn_count :: nat
  wn_db :: mail_db
  wn_turns :: turns
  wn_smtp :: "smtp_call list"
  wn_posts :: "http_request list"

type_synonym 'a task = "worker_run \<Rightarrow> (failure + 'a) \<times> worker_run"

definition finish :: "'a \<Rightarrow> 'a task" where
  "finish a s = (Inr a, s)"

definition andthen :: "'a task \<Rightarrow> ('a \<Rightarrow> 'b task) \<Rightarrow> 'b task" where
  "andthen m k s = (case m s of (Inl e, s') \<Rightarrow> (Inl e, s') | (Inr a, s') \<Rightarrow> k a s')"

definition statement :: "worker_env \<Rightarrow> (instant \<Rightarrow> mail_db \<Rightarrow> 'a \<times> mail_db) \<Rightarrow> 'a task" where
  "statement E f s =
     (let k = wn_count s;
          db = wv_between E k (wn_db s);
          s1 = s\<lparr>wn_count := k + 1, wn_db := db\<rparr>
      in case f (wv_now E k) db of
           (a, db') \<Rightarrow>
             (case wv_error E k of
                None \<Rightarrow> (Inr a, s1\<lparr>wn_db := db'\<rparr>)
              | Some (applied, e) \<Rightarrow> (Inl (DbError e), if applied then s1\<lparr>wn_db := db'\<rparr> else s1)))"

definition query :: "worker_env \<Rightarrow> (mail_db \<Rightarrow> 'a) \<Rightarrow> 'a task" where
  "query E f = statement E (\<lambda>_ db. (f db, db))"

definition change :: "worker_env \<Rightarrow> (instant \<Rightarrow> mail_db \<Rightarrow> mail_db) \<Rightarrow> unit task" where
  "change E f = statement E (\<lambda>now db. ((), f now db))"

text \<open>\<open>.ok()\<close> and \<open>match .. { Ok(..) => .., _ => .. }\<close>: an error of the statement is a value.\<close>

definition caught :: "'a task \<Rightarrow> 'a option task" where
  "caught m s = (case m s of (Inr a, s') \<Rightarrow> (Inr (Some a), s') | (Inl (DbError e), s') \<Rightarrow> (Inr None, s') | (Inl (Panicked p), s') \<Rightarrow> (Inl (Panicked p), s'))"

definition caught_error :: "'a task \<Rightarrow> (string + 'a) task" where
  "caught_error m s = (case m s of (Inr a, s') \<Rightarrow> (Inr (Inr a), s') | (Inl (DbError e), s') \<Rightarrow> (Inr (Inl e), s') | (Inl (Panicked p), s') \<Rightarrow> (Inl (Panicked p), s'))"

definition computed :: "'a rust \<Rightarrow> 'a task" where
  "computed r s = (case r of Inl p \<Rightarrow> (Inl (Panicked p), s) | Inr a \<Rightarrow> (Inr a, s))"

definition fresh_token :: "worker_env \<Rightarrow> string task" where
  "fresh_token E s = (Inr (wv_token E (wn_count s)), s)"

definition queue_complete :: "worker_env \<Rightarrow> nat \<Rightarrow> unit task" where
  "queue_complete E i = change E (\<lambda>_ db. db\<lparr>md_queue := complete i (md_queue db)\<rparr>)"

definition queue_retry :: "worker_env \<Rightarrow> nat \<Rightarrow> int \<Rightarrow> unit task" where
  "queue_retry E i attempts = change E (\<lambda>now db. db\<lparr>md_queue := retry i attempts now (md_queue db)\<rparr>)"

definition record_delivery_stmt :: "worker_env \<Rightarrow> message_row \<Rightarrow> string \<Rightarrow> string \<Rightarrow> string \<Rightarrow> nat option task" where
  "record_delivery_stmt E m status details output =
     statement E (record_delivery (mw_server_id m) (mw_id m) status details output False None)"

section \<open>Outgoing messages\<close>

datatype process_outcome =
    Delivered string
  | Delayed string
  | Failed string
  | Held
  | Routed
  | DmarcReportIngested
  | FeedbackReportIngested
  | BounceCorrelated
  | AlreadyBounced
  | NothingToDo
  | MessageMissing

definition message_payload :: "message_row \<Rightarrow> string \<Rightarrow> json" where
  "message_payload m details =
     JObject [(''details'', JString details),
       (''message'', JObject [(''bounce'', JBool (mw_bounce m)), (''id'', JNumber (show_nat (mw_id m))),
          (''mail_from'', JString (mw_mail_from m)), (''rcpt_to'', JString (mw_rcpt_to m)),
          (''scope'', JString (mw_scope m)), (''token'', JString (mw_token m))])]"

definition click_placeholder :: "nat \<Rightarrow> string" where
  "click_placeholder i = ''__CM_CLICK_'' @ show_nat i @ ''__''"

text \<open>\<open>str::replace\<close>.\<close>

definition replace_all :: "string \<Rightarrow> string \<Rightarrow> string \<Rightarrow> string" where
  "replace_all p r s = intercalate r (split_at p s)"

fun click_tokens :: "worker_env \<Rightarrow> message_row \<Rightarrow> string list \<Rightarrow> string list task" where
  "click_tokens E m [] = finish []"
| "click_tokens E m (url # urls) =
     andthen (fresh_token E) (\<lambda>link_token.
     andthen (statement E (\<lambda>_. create_link link_token (mw_server_id m) (mw_id m) url)) (\<lambda>(link_id, _).
     andthen (fresh_token E) (\<lambda>token.
     andthen (statement E (\<lambda>_. create_click_token token (mw_server_id m) (mw_id m) link_id url)) (\<lambda>token.
     andthen (click_tokens E m urls) (\<lambda>tokens. finish (token # tokens))))))"

definition insert_clicks :: "string \<Rightarrow> string list \<Rightarrow> string \<Rightarrow> string" where
  "insert_clicks base tokens html =
     fold (\<lambda>(i, token) h. replace_all (click_placeholder i) (base @ ''/track/c/'' @ token) h)
       (zip [0..<length tokens] tokens) html"

definition apply_tracking :: "worker_env \<Rightarrow> worker \<Rightarrow> message_row \<Rightarrow> bytes task" where
  "apply_tracking E W m =
     (let raw = mw_raw_message m in
      if is_signed (wv_lc E) raw then finish raw
      else
        (case html_of (wv_lc E) (wv_base64 E) raw of
           None \<Rightarrow> finish raw
         | Some body \<Rightarrow>
             andthen (caught (query E (effective_track_domain (mw_server_id m)))) (\<lambda>host.
             (let base = (case host of Some (Some h) \<Rightarrow> wk_web_protocol W @ ''://'' @ h | _ \<Rightarrow> wk_tracking_base_url W) in
              andthen (computed (rewrite_links (wv_lc E) body (\<lambda>i _. click_placeholder i))) (\<lambda>(rewritten, pending_links).
              andthen (click_tokens E m pending_links) (\<lambda>tokens.
              andthen (fresh_token E) (\<lambda>token.
              andthen (statement E (\<lambda>_. create_open_token token (mw_server_id m) (mw_id m))) (\<lambda>open_token.
              andthen (computed (inject_open_pixel (wv_lc E) (insert_clicks base tokens rewritten)
                        (base @ ''/track/o/'' @ open_token @ ''.gif''))) (\<lambda>html.
              finish (case with_html (wv_lc E) (wv_base64 E) raw html of Some r \<Rightarrow> r | None \<Rightarrow> raw)))))))))) "

definition signed_message :: "worker_env \<Rightarrow> worker \<Rightarrow> message_row \<Rightarrow> bytes \<Rightarrow> bytes task" where
  "signed_message E W m identified =
     (case mw_domain_id m of
        None \<Rightarrow> finish identified
      | Some domain_id \<Rightarrow>
          andthen (caught (query E (domain_by_id domain_id))) (\<lambda>found.
          \<lambda>s. (case found of
             Some (Some d) \<Rightarrow>
               (case signer_for_domain (wv_dkim E) (dom_dkim_private_key d) (wk_signer W) of
                  Some signer \<Rightarrow>
                    finish (sign_and_prepend (wv_dkim E) identified (dom_name d) (wk_dkim_selector W) signer
                              (wv_now E (wn_count s) div 10 ^ 9)) s
                | None \<Rightarrow> finish identified s)
           | _ \<Rightarrow> finish identified s)))"

definition send_smtp :: "worker_env \<Rightarrow> worker \<Rightarrow> string \<Rightarrow> string \<Rightarrow> string \<Rightarrow> bytes \<Rightarrow> ip_addr option \<Rightarrow> send_outcome task" where
  "send_smtp E W domain return_path rcpt raw source_ip s =
     (case sender_send (wv_net E) (wv_mx E) (wk_sender W) domain return_path rcpt raw source_ip of
        Inl p \<Rightarrow> (Inl (Panicked p), s)
      | Inr (out, _) \<Rightarrow>
          (Inr out, s\<lparr>wn_smtp := wn_smtp s @
             [\<lparr>sl_domain = domain, sl_return_path = return_path, sl_rcpt_to = rcpt, sl_raw = raw,
               sl_source_ip = source_ip, sl_outcome = out\<rparr>]\<rparr>))"

definition record_outbound :: "worker_env \<Rightarrow> queued_row \<Rightarrow> message_row \<Rightarrow> string \<Rightarrow> string \<Rightarrow> string \<Rightarrow> bool \<Rightarrow> string option
    \<Rightarrow> outbound_queue_action \<Rightarrow> string \<Rightarrow> json \<Rightarrow> process_outcome \<Rightarrow> process_outcome task" where
  "record_outbound E q m status details output tls category action event payload result =
     andthen (statement E (record_outbound_delivery (wv_outbox E) (mw_server_id m) (mw_id m) (lr_id q) status details output
                tls category action event payload)) (\<lambda>recorded.
     finish (if recorded \<noteq> None then result else AlreadyBounced))"

definition record_outcome :: "worker_env \<Rightarrow> worker \<Rightarrow> queued_row \<Rightarrow> message_row \<Rightarrow> send_outcome \<Rightarrow> process_outcome task" where
  "record_outcome E W q m out =
     (let payload = message_payload m (so_response out) in
      case out of
        Sent response tls \<Rightarrow>
          record_outbound E q m ''Sent'' ''message accepted by the remote server'' response tls None CompleteRow
            ''MessageSent'' payload (Delivered response)
      | SoftFail response \<Rightarrow>
          if lr_attempts q + 1 \<ge> wk_max_attempts W then
            record_outbound E q m ''HardFail'' ''delivery attempts exhausted'' response False
              (Some (category_as_str (classify_response response))) CompleteRow ''MessageDeliveryFailed'' payload (Failed response)
          else
            record_outbound E q m ''SoftFail'' ''temporary delivery failure'' response False None
              (RetryRow (lr_attempts q)) ''MessageDelayed'' payload (Delayed response)
      | HardFail response \<Rightarrow>
          record_outbound E q m ''HardFail'' ''message rejected by the remote server'' response False
            (Some (category_as_str (classify_response response))) CompleteRow ''MessageDeliveryFailed'' payload (Failed response))"

definition return_path_for :: "worker \<Rightarrow> message_row \<Rightarrow> string option \<Rightarrow> string task" where
  "return_path_for W m server_token =
     (case wk_return_path_domain W of
        None \<Rightarrow> finish (mw_mail_from m)
      | Some domain \<Rightarrow>
          (case server_token of
             Some token \<Rightarrow> finish (token @ ''@'' @ domain)
           | None \<Rightarrow> (\<lambda>s. (Inl (DbError ''no rows returned by a query that expected to return at least one row''), s))))"

text \<open>From tracking to the end of the SMTP delivery.\<close>

definition send_outgoing :: "worker_env \<Rightarrow> worker \<Rightarrow> queued_row \<Rightarrow> message_row \<Rightarrow> string option \<Rightarrow> send_outcome task" where
  "send_outgoing E W q m server_token =
     andthen (apply_tracking E W m) (\<lambda>tracked.
     andthen (signed_message E W m (add_message_token_header tracked (mw_token m))) (\<lambda>raw_message.
     andthen (return_path_for W m server_token) (\<lambda>return_path.
     andthen (caught (query E (source_ip_for (mw_server_id m) (mw_stream_id m)))) (\<lambda>ip.
     send_smtp E W (qr_domain q) return_path (mw_rcpt_to m) raw_message
       (Option.bind (case ip of Some i \<Rightarrow> i | None \<Rightarrow> None) (wv_ip_parse E))))))"

definition process_outgoing :: "worker_env \<Rightarrow> worker \<Rightarrow> queued_row \<Rightarrow> message_row \<Rightarrow> string option \<Rightarrow> process_outcome task" where
  "process_outgoing E W q m server_token =
     (if mw_status m = ''Bounced'' then andthen (queue_complete E (lr_id q)) (\<lambda>_. finish AlreadyBounced)
      else
        andthen (query E (address_suppressed (mw_server_id m) (mw_rcpt_to m) (mw_stream_id m))) (\<lambda>suppressed.
        if suppressed then
          record_outbound E q m ''Held'' ''recipient is on the suppression list'' [] False None CompleteRow ''MessageHeld''
            (message_payload m ''recipient is on the suppression list'') Held
        else andthen (send_outgoing E W q m server_token) (record_outcome E W q m)))"

section \<open>Incoming messages\<close>

definition inspect :: "worker_env \<Rightarrow> worker \<Rightarrow> message_row \<Rightarrow> (bool \<times> message_row) task" where
  "inspect E W m =
     (if wk_rspamd W = None \<and> \<not> wk_clamav W then finish (False, m)
      else if mw_inspected m then finish (mw_threat m \<or> mw_spam_status m = ''SpamFailure'', m)
      else
        (let (spam_status, spam_score) =
               (case wk_rspamd W of
                  None \<Rightarrow> (''NotChecked'', 0)
                | Some r \<Rightarrow>
                    (case rspamd_check (wv_rspamd_http E) (wv_as_f64 E) r (mw_raw_message m) (wk_spam_threshold W) of
                       Inl _ \<Rightarrow> (''NotChecked'', 0)
                     | Inr result \<Rightarrow>
                         (if f64_ge (sr_score result) (wk_spam_failure_threshold W) then ''SpamFailure''
                          else if f64_ge (sr_score result) (wk_spam_threshold W) then ''Spam''
                          else ''NotSpam'', sr_score result)));
             (threat, threat_details) =
               (if \<not> wk_clamav W then (False, None)
                else (case clamav_scan (wv_clamd E) (mw_raw_message m) of
                        Inl _ \<Rightarrow> (False, None)
                      | Inr result \<Rightarrow> (vr_found result, vr_details result)))
         in andthen (change E (\<lambda>_. record_inspection (mw_server_id m) (mw_id m) spam_status spam_score threat threat_details)) (\<lambda>_.
            finish (threat \<or> spam_status = ''SpamFailure'',
                    m\<lparr>mw_spam_status := spam_status, mw_spam_score := spam_score, mw_threat := threat,
                      mw_threat_details := threat_details, mw_inspected := True\<rparr>))))"

text \<open>\<open>if queued.attempts + 1 >= max { complete; Failed } else { retry; Delayed }\<close>.\<close>

definition retry_or_fail :: "worker_env \<Rightarrow> worker \<Rightarrow> queued_row \<Rightarrow> string \<Rightarrow> process_outcome task" where
  "retry_or_fail E W q response =
     (if lr_attempts q + 1 \<ge> wk_max_attempts W then
        andthen (queue_complete E (lr_id q)) (\<lambda>_. finish (Failed response))
      else andthen (queue_retry E (lr_id q) (lr_attempts q)) (\<lambda>_. finish (Delayed response)))"

definition UNMATCHED_BOUNCE_DETAILS :: string where
  "UNMATCHED_BOUNCE_DETAILS = ''This message was a bounce but we couldn't link it with any outgoing message and there was no route for it.''"

definition bounce_webhook_payload :: "outbox_env \<Rightarrow> message_row \<Rightarrow> json" where
  "bounce_webhook_payload X m = message_hash_from_row X m"

definition correlate_incoming :: "worker_env \<Rightarrow> queued_row \<Rightarrow> message_row \<Rightarrow> process_outcome option task" where
  "correlate_incoming E q m =
     (if \<not> mw_bounce m \<or> \<not> is_failed_delivery_status_notification (wv_lc E) (mw_raw_message m) then finish None
      else
        andthen (computed (classify_dsn (mw_raw_message m))) (\<lambda>category.
        andthen (statement E (correlate_bounce (wv_outbox E) (mw_server_id m) (mw_id m)
                   (original_message_tokens (mw_raw_message m)) (category_as_str category)
                   (\<lambda>original. JObject [(''bounce'', bounce_webhook_payload (wv_outbox E) m),
                      (''original_message'', bounce_webhook_payload (wv_outbox E) original)]))) (\<lambda>correlation.
        case correlation of
          NotMatched \<Rightarrow>
            if mw_route_id m = None then
              andthen (statement E (record_unmatched_bounce (mw_server_id m) (mw_id m) (lr_id q) (category_as_str category)
                         UNMATCHED_BOUNCE_DETAILS)) (\<lambda>_.
              finish (Some (Failed UNMATCHED_BOUNCE_DETAILS)))
            else finish None
        | _ \<Rightarrow> andthen (queue_complete E (lr_id q)) (\<lambda>_. finish (Some BounceCorrelated)))))"

definition ingest_dmarc_report :: "worker_env \<Rightarrow> worker \<Rightarrow> queued_row \<Rightarrow> message_row \<Rightarrow> process_outcome task" where
  "ingest_dmarc_report E W q m =
     (case extract_report (wv_dmarc E) (wv_lc E) (wv_base64 E) (mw_raw_message m) of
        Inl error \<Rightarrow>
          andthen (queue_complete E (lr_id q)) (\<lambda>_.
          andthen (record_delivery_stmt E m ''Held'' ''message could not be parsed as a DMARC aggregate report''
                     (dmarc_error_text error)) (\<lambda>_.
          finish Held))
      | Inr report \<Rightarrow>
          andthen (caught_error (statement E (\<lambda>_. store_dmarc_report (mw_server_id m) report))) (\<lambda>stored.
          case stored of
            Inr i \<Rightarrow>
              andthen (queue_complete E (lr_id q)) (\<lambda>_.
              andthen (record_delivery_stmt E m ''Processed''
                         (''DMARC aggregate report for '' @ ag_domain report @ '' stored (#'' @ show_nat i @ '', ''
                          @ show_nat (length (ag_records report)) @ '' records)'') []) (\<lambda>_.
              finish DmarcReportIngested))
          | Inl error \<Rightarrow> retry_or_fail E W q (''could not store the DMARC report: '' @ error)))"

text \<open>\<open>content_type:?\<close> in the message of the first error is the debug form of a string.\<close>

definition arf_error_text :: "worker_env \<Rightarrow> arf_error \<Rightarrow> string" where
  "arf_error_text E e =
     (case e of
        NotFeedbackReport content_type \<Rightarrow>
          ''the message is not an ARF feedback report: top-level Content-Type is '' @ wv_debug E content_type
          @ '', expected multipart/report; report-type=feedback-report''
      | MissingPart part \<Rightarrow> ''the feedback report is missing its '' @ part @ '' part'')"

definition record_feedback_complaint :: "worker_env \<Rightarrow> Id \<Rightarrow> feedback_complaint \<Rightarrow> feedback_outcome task" where
  "record_feedback_complaint E server_id complaint =
     andthen (case fc_unsubscribe_token complaint of
                None \<Rightarrow> finish None
              | Some _ \<Rightarrow> query E (unsubscribe_target (fc_unsubscribe_token complaint))) (\<lambda>target.
     statement E (record_complaint_tx (wv_outbox E) server_id target complaint))"

definition complaint_of :: "feedback_report \<Rightarrow> feedback_complaint" where
  "complaint_of r = \<lparr>fc_feedback_type = fr_feedback_type r, fc_user_agent = fr_user_agent r,
     fc_unsubscribe_token = fr_unsubscribe_token r, fc_message_tokens = fr_message_tokens r,
     fc_message_id = fr_original_message_id r, fc_recipient = report_recipient r\<rparr>"

definition complaint_detail :: "feedback_outcome \<Rightarrow> string" where
  "complaint_detail out =
     (case out of
        ComplaintRecorded mid address suppressed \<Rightarrow>
          if suppressed then ''spam complaint recorded for the broadcast recipient''
          else (case mid of
                  Some i \<Rightarrow> ''spam complaint recorded for <msg:'' @ show_nat i @ ''>''
                | None \<Rightarrow> ''spam complaint recorded for '' @ address @ ''; no matching message'')
      | ComplaintNotMatched \<Rightarrow> ''feedback report parsed; no matching message or recipient'')"

definition ingest_feedback_report :: "worker_env \<Rightarrow> worker \<Rightarrow> queued_row \<Rightarrow> message_row \<Rightarrow> process_outcome task" where
  "ingest_feedback_report E W q m =
     (case extract_feedback (wv_lc E) (wv_base64 E) (mw_raw_message m) of
        Inl error \<Rightarrow>
          andthen (queue_complete E (lr_id q)) (\<lambda>_.
          andthen (record_delivery_stmt E m ''Held'' ''message could not be parsed as an ARF feedback report'' (arf_error_text E error)) (\<lambda>_.
          finish Held))
      | Inr report \<Rightarrow>
          if fr_feedback_type report = ''abuse'' then
            andthen (caught_error (record_feedback_complaint E (mw_server_id m) (complaint_of report))) (\<lambda>recorded.
            case recorded of
              Inr out \<Rightarrow>
                andthen (queue_complete E (lr_id q)) (\<lambda>_.
                andthen (record_delivery_stmt E m ''Processed'' (complaint_detail out) []) (\<lambda>_.
                finish FeedbackReportIngested))
            | Inl error \<Rightarrow> retry_or_fail E W q (''could not record the feedback complaint: '' @ error))
          else
            andthen (queue_complete E (lr_id q)) (\<lambda>_.
            andthen (record_delivery_stmt E m ''Processed''
                       (''feedback report ('' @ fr_feedback_type report @ '') recorded; no complaint actioned'') []) (\<lambda>_.
            finish FeedbackReportIngested)))"

definition DMARC_REPORTS_ENDPOINT :: string where
  "DMARC_REPORTS_ENDPOINT = ''internal://dmarc-reports''"

definition endpoint_request :: "worker_env \<Rightarrow> message_row \<Rightarrow> string \<Rightarrow> http_request" where
  "endpoint_request E m url =
     \<lparr>hr_url = url, hr_headers = [(''content-type'', ''application/json'')],
      hr_body = ob_json (wv_outbox E) (JObject
        [(''message'', JObject [(''bounce'', JBool (mw_bounce m)), (''id'', JNumber (show_nat (mw_id m))),
            (''mail_from'', JString (mw_mail_from m)), (''rcpt_to'', JString (mw_rcpt_to m)), (''token'', JString (mw_token m))]),
         (''raw_base64'', JString (b64_encode (wv_base64 E) (mw_raw_message m)))])\<rparr>"

text \<open>One \<open>send()\<close>: the request is handed to the HTTP client, which follows redirects by itself.\<close>

definition post_endpoint :: "worker_env \<Rightarrow> http_request \<Rightarrow> http_result task" where
  "post_endpoint E r s = (Inr (wv_http E r), s\<lparr>wn_posts := wn_posts s @ [r]\<rparr>)"

definition deliver_to_endpoint :: "worker_env \<Rightarrow> worker \<Rightarrow> queued_row \<Rightarrow> message_row \<Rightarrow> string \<Rightarrow> process_outcome task" where
  "deliver_to_endpoint E W q m url =
     (case check_url (wv_guard_env E) (wk_ssrf_guard W) url of
        Inl error \<Rightarrow>
          retry_or_fail E W q (''route endpoint blocked by address guard: '' @ ssrf_error_text (wv_show_ip E) error)
      | Inr _ \<Rightarrow>
          andthen (post_endpoint E (endpoint_request E m url)) (\<lambda>result.
          case result of
            HttpResponse status _ \<Rightarrow>
              if 200 \<le> status \<and> status \<le> 299 then andthen (queue_complete E (lr_id q)) (\<lambda>_. finish Routed)
              else retry_or_fail E W q (''endpoint returned '' @ wv_status_text E status)
          | HttpFailed error \<Rightarrow> retry_or_fail E W q (''endpoint request failed: '' @ error)))"

definition route_incoming :: "worker_env \<Rightarrow> worker \<Rightarrow> queued_row \<Rightarrow> message_row \<Rightarrow> process_outcome task" where
  "route_incoming E W q m =
     andthen (case mw_route_id m of
                None \<Rightarrow> finish None
              | Some route_id \<Rightarrow>
                  andthen (caught (query E (route_by_id (mw_server_id m) route_id))) (\<lambda>r.
                  finish (case r of Some x \<Rightarrow> x | None \<Rightarrow> None))) (\<lambda>route.
     case Option.bind route (\<lambda>r. if rt_mode r = ModeEndpoint then rt_endpoint_url r else None) of
       None \<Rightarrow> andthen (queue_complete E (lr_id q)) (\<lambda>_. finish NothingToDo)
     | Some url \<Rightarrow>
         if url = DMARC_REPORTS_ENDPOINT then ingest_dmarc_report E W q m
         else deliver_to_endpoint E W q m url)"

definition process_incoming :: "worker_env \<Rightarrow> worker \<Rightarrow> queued_row \<Rightarrow> message_row \<Rightarrow> process_outcome task" where
  "process_incoming E W q m0 =
     andthen (inspect E W m0) (\<lambda>(failed, m).
     if failed then
       andthen (record_delivery_stmt E m ''Held'' ''message failed inspection (spam or virus)'' []) (\<lambda>_.
       andthen (queue_complete E (lr_id q)) (\<lambda>_. finish Held))
     else if is_feedback_report (wv_lc E) (mw_raw_message m) then ingest_feedback_report E W q m
     else
       andthen (correlate_incoming E q m) (\<lambda>correlated.
       case correlated of Some out \<Rightarrow> finish out | None \<Rightarrow> route_incoming E W q m))"

section \<open>One message\<close>

definition dequeue_stmt :: "worker_env \<Rightarrow> worker \<Rightarrow> queued_row option task" where
  "dequeue_stmt E W s =
     (case dequeue (wv_dequeue E) (wk_queue W) (wk_worker_id W) (wn_turns s) (md_queue (wn_db s)) of
        (Inl e, turns, q) \<Rightarrow> (Inl (DbError e), s\<lparr>wn_turns := turns, wn_db := (wn_db s)\<lparr>md_queue := q\<rparr>\<rparr>)
      | (Inr row, turns, q) \<Rightarrow> (Inr row, s\<lparr>wn_turns := turns, wn_db := (wn_db s)\<lparr>md_queue := q\<rparr>\<rparr>))"

definition load_message :: "worker_env \<Rightarrow> worker \<Rightarrow> queued_row \<Rightarrow> (message_row \<times> string option) option task" where
  "load_message E W q =
     (if wk_return_path_domain W \<noteq> None then
        andthen (query E (message_with_server_token (qr_server_id q) (qr_message_id q))) (\<lambda>r.
        finish (map_option (\<lambda>(m, t). (m, Some t)) r))
      else
        andthen (query E (message_by_id (qr_server_id q) (qr_message_id q))) (\<lambda>r.
        finish (map_option (\<lambda>m. (m, None)) r)))"

definition process_next :: "worker_env \<Rightarrow> worker \<Rightarrow> process_outcome option task" where
  "process_next E W =
     andthen (dequeue_stmt E W) (\<lambda>row.
     case row of
       None \<Rightarrow> finish None
     | Some q \<Rightarrow>
         andthen (load_message E W q) (\<lambda>loaded.
         case loaded of
           None \<Rightarrow> andthen (queue_complete E (lr_id q)) (\<lambda>_. finish (Some MessageMissing))
         | Some (m, server_token) \<Rightarrow>
             andthen (if mw_scope m = ''outgoing'' then process_outgoing E W q m server_token else process_incoming E W q m) (\<lambda>out.
             finish (Some out))))"

end
