(* ===== verification/Worker_Demo.thy ===== *)
theory Worker_Demo
  imports Worker
begin

text \<open>
  A small installation for the examples of the theories about the delivery worker: one plain text message
  in the queue, a worker without scanners and signing key, nobody else at work and no failing statement.
\<close>

definition demo_outbox :: outbox_env where
  "demo_outbox = \<lparr>ob_json = (\<lambda>_. ''{}''), ob_uuid = (\<lambda>_. ''u''), ob_decode_header = Some, ob_millis = (\<lambda>_. ''0.0''),
     ob_lower = to_ascii_lowercase\<rparr>"

definition demo_worker_env :: worker_env where
  "demo_worker_env = \<lparr>wv_between = (\<lambda>_ db. db), wv_now = (\<lambda>k. int k), wv_error = (\<lambda>_. None), wv_token = (\<lambda>_. ''tok''),
     wv_dequeue = \<lparr>dq_between = (\<lambda>_ q. q), dq_now = (\<lambda>_. 0), dq_held = (\<lambda>_ _. False), dq_error = (\<lambda>_. None)\<rparr>,
     wv_net = demo_net, wv_mx = demo_mx, wv_outbox = demo_outbox, wv_dkim = demo_dkim, wv_ip_parse = (\<lambda>_. None),
     wv_guard_env = demo_guard_env, wv_show_ip = (\<lambda>_. ''ip''), wv_http = (\<lambda>_. HttpFailed ''down''),
     wv_status_text = (\<lambda>_. ''500''), wv_rspamd_http = (\<lambda>_. RequestFailed ''down''), wv_as_f64 = (\<lambda>_. None),
     wv_clamd = (\<lambda>_. Inl ''down''),
     wv_dmarc = \<lparr>dv_events = (\<lambda>_. []), dv_gunzip = (\<lambda>_ _. Inl ''gz''), dv_zip = (\<lambda>_. Inl ''zip''), dv_timestamp = (\<lambda>_. None)\<rparr>,
     wv_debug = id\<rparr>"

definition demo_worker :: worker where
  "demo_worker = \<lparr>wk_queue = queue_new, wk_sender = demo_sender, wk_signer = None, wk_dkim_selector = ''k1'', wk_rspamd = None,
     wk_clamav = False, wk_spam_threshold = 0, wk_spam_failure_threshold = 0, wk_tracking_base_url = ''https://t.io'',
     wk_web_protocol = ''https'', wk_ssrf_guard = guard_new demo_guard_env True [], wk_max_attempts = 3,
     wk_return_path_domain = None, wk_worker_id = ''w1''\<rparr>"

definition demo_message_row :: "nat \<Rightarrow> string \<Rightarrow> string \<Rightarrow> bytes \<Rightarrow> message_row" where
  "demo_message_row i scope status raw = \<lparr>mw_id = i, mw_server_id = 1, mw_token = ''abc'', mw_scope = scope, mw_rcpt_to = ''b@y.io'',
     mw_mail_from = ''a@x.io'', mw_bounce = (scope = ''incoming''), mw_received_with_ssl = False, mw_domain_id = None,
     mw_credential_id = None, mw_route_id = None, mw_raw_message = raw, mw_status = status, mw_bounce_for_id = None,
     mw_bounce_correlated_at = None, mw_bounce_category = None, mw_subject = None, mw_message_id_header = None,
     mw_spam_status = ''NotChecked'', mw_spam_score = 0, mw_held = False, mw_size = 0, mw_threat = False,
     mw_threat_details = None, mw_inspected = False, mw_tag = None, mw_metadata = None, mw_stream_id = None,
     mw_created_at = 0, mw_last_delivery_attempt = None\<rparr>"

definition demo_raw :: bytes where
  "demo_raw = ''Subject: hi'' @ crlf @ crlf @ ''hello'' @ crlf"

definition demo_mail_db :: "message_row list \<Rightarrow> queued_row list \<Rightarrow> mail_db" where
  "demo_mail_db messages rows = \<lparr>md_queue = \<lparr>qd_rows = rows, qd_next_id = 9\<rparr>, md_messages = messages, md_deliveries = [],
     md_next_delivery_id = 1, md_webhooks = [], md_requests = \<lparr>ws_requests = [], ws_next_id = 1, ws_log = [], ws_posts = []\<rparr>, md_suppressions = [],
     md_subscriptions = [], md_unsubscribe_tokens = [], md_links = [], md_next_link_id = 1, md_tracking_tokens = [],
     md_servers = [], md_domains = [], md_routes = [], md_streams = [], md_ip_addresses = [], md_track_domains = [],
     md_dmarc_reports = [], md_next_dmarc_id = 1\<rparr>"

definition demo_worker_run :: "mail_db \<Rightarrow> worker_run" where
  "demo_worker_run db = \<lparr>wn_count = 0, wn_db = db, wn_turns = demo_turns, wn_smtp = [], wn_posts = []\<rparr>"

lemma demo_raw_plain:
  "\<not> is_signed to_ascii_lowercase demo_raw" "html_of to_ascii_lowercase demo_base64 demo_raw = None"
  by code_simp+

lemma demo_worker_env_simps [simp]:
  "wv_between demo_worker_env k db = db" "wv_error demo_worker_env k = None" "wv_now demo_worker_env k = int k"
  "wv_lc demo_worker_env = to_ascii_lowercase" "wv_base64 demo_worker_env = demo_base64"
  by (simp_all add: demo_worker_env_def demo_dkim_def)

end
