(* ===== verification/Worker_Safety.thy ===== *)
theory Worker_Safety
  imports Worker_Demo
begin

text \<open>
  What the delivery worker guarantees while other workers and the API change the same tables: the tables
  change by its transactions only, a bounced message stays bounced, and mail is handed to SMTP once per
  turn and only after the checks.
\<close>

section \<open>The transactions of the worker\<close>

text \<open>Every transaction the worker commits; a statement on the queue leaves the other tables alone.\<close>

inductive mail_tx :: "mail_db \<Rightarrow> mail_db \<Rightarrow> bool" where
  queue: "mail_tx db (db\<lparr>md_queue := q\<rparr>)"
| delivery: "mail_tx db (snd (record_delivery t i status details output tls category now db))"
| outbound: "mail_tx db (snd (record_outbound_delivery X t i qi status details output tls category action event payload now db))"
| unmatched: "mail_tx db (snd (record_unmatched_bounce t i qi category details now db))"
| correlation: "mail_tx db (snd (correlate_bounce X t i tokens category mk now db))"
| inspection: "mail_tx db (record_inspection t i status score threat details db)"
| complaint: "mail_tx db (snd (record_complaint_tx X t target c now db))"
| link: "mail_tx db (snd (create_link token t i url db))"
| click: "mail_tx db (snd (create_click_token token t i l url db))"
| open_pixel: "mail_tx db (snd (create_open_token token t i db))"
| dmarc: "mail_tx db (snd (store_dmarc_report t report db))"

text \<open>What happens to the tables: a transaction of the worker, or what others did before a statement.\<close>

definition db_step :: "worker_env \<Rightarrow> mail_db \<Rightarrow> mail_db \<Rightarrow> bool" where
  "db_step E a b \<longleftrightarrow> mail_tx a b \<or> (\<exists>k. b = wv_between E k a)"

section \<open>Tasks and relations on their states\<close>

definition stays :: "(worker_run \<Rightarrow> worker_run \<Rightarrow> bool) \<Rightarrow> 'a task \<Rightarrow> bool" where
  "stays P m \<longleftrightarrow> (\<forall>s. P s (snd (m s)))"

named_theorems run_intro

text \<open>What holds of each step of a task and is reflexive and transitive holds of the task.\<close>

locale run_relation =
  fixes P :: "worker_run \<Rightarrow> worker_run \<Rightarrow> bool"
  assumes refl: "P s s"
    and trans: "P s s' \<Longrightarrow> P s' s'' \<Longrightarrow> P s s''"
begin

lemma staysI: "(\<And>s. P s (snd (m s))) \<Longrightarrow> stays P m"
  by (simp add: stays_def)

lemma stays_finish [run_intro]: "stays P (finish a)"
  by (simp add: stays_def finish_def refl)

lemma stays_andthen [run_intro]:
  assumes "stays P m" "\<And>a. stays P (k a)"
  shows "stays P (andthen m k)"
proof (rule staysI)
  fix s :: worker_run
  obtain r s' where m: "m s = (r, s')" by fastforce
  with assms(1) have "P s s'" by (auto simp: stays_def dest: spec [of _ s])
  moreover have "P s' (snd (k a s'))" for a using assms(2) [of a] by (simp add: stays_def)
  ultimately show "P s (snd (andthen m k s))" using m by (cases r) (auto simp: andthen_def intro: trans)
qed

lemma stays_caught [run_intro]: "stays P m \<Longrightarrow> stays P (caught m)" "stays P m \<Longrightarrow> stays P (caught_error m)"
proof -
  have "snd (caught m s) = snd (m s)" "snd (caught_error m s) = snd (m s)" for s
    by (auto simp: caught_def caught_error_def split: prod.splits sum.splits failure.splits)
  then show "stays P m \<Longrightarrow> stays P (caught m)" "stays P m \<Longrightarrow> stays P (caught_error m)" by (simp_all add: stays_def)
qed

lemma stays_pure [run_intro]: "stays P (computed r)" "stays P (fresh_token E)" "stays P (return_path_for W m t)"
  by (auto simp: stays_def computed_def fresh_token_def return_path_for_def finish_def refl split: sum.splits option.splits)

lemma stays_signature [run_intro]:
  "stays P (\<lambda>s. case found of
             Some (Some d) \<Rightarrow>
               (case signer_for_domain (wv_dkim E) (dom_dkim_private_key d) (wk_signer W) of
                  Some signer \<Rightarrow>
                    finish (sign_and_prepend (wv_dkim E) raw (dom_name d) (wk_dkim_selector W) signer
                              (wv_now E (wn_count s) div 10 ^ 9)) s
                | None \<Rightarrow> finish raw s)
           | _ \<Rightarrow> finish raw s)"
  by (auto simp: stays_def finish_def refl split: option.splits)

lemma stays_if [run_intro]: "stays P a \<Longrightarrow> stays P b \<Longrightarrow> stays P (if c then a else b)"
  by simp

lemma stays_option [run_intro]:
  "stays P a \<Longrightarrow> (\<And>x. stays P (b x)) \<Longrightarrow> stays P (case v of None \<Rightarrow> a | Some x \<Rightarrow> b x)"
  by (cases v) simp_all

lemma stays_prod [run_intro]: "(\<And>x y. stays P (b x y)) \<Longrightarrow> stays P (case v of (x, y) \<Rightarrow> b x y)"
  by (cases v) simp_all

lemma stays_sum [run_intro]:
  "(\<And>x. stays P (a x)) \<Longrightarrow> (\<And>x. stays P (b x)) \<Longrightarrow> stays P (case v of Inl x \<Rightarrow> a x | Inr x \<Rightarrow> b x)"
  by (cases v) simp_all

lemma stays_let [run_intro]: "stays P (f v) \<Longrightarrow> stays P (let x = v in f x)"
  by (simp add: Let_def)

end

text \<open>The tables change by transactions only.\<close>

definition tx_rel :: "worker_env \<Rightarrow> worker_run \<Rightarrow> worker_run \<Rightarrow> bool" where
  "tx_rel E s s' \<longleftrightarrow> (db_step E)\<^sup>*\<^sup>* (wn_db s) (wn_db s')"

abbreviation transacts :: "worker_env \<Rightarrow> 'a task \<Rightarrow> bool" where
  "transacts E m \<equiv> stays (tx_rel E) m"

interpretation tx: run_relation "tx_rel E" for E
  by unfold_locales (auto simp: tx_rel_def intro: rtranclp_trans)

lemma transacts_statement [run_intro]:
  assumes "\<And>now db. mail_tx db (snd (f now db))"
  shows "transacts E (statement E f)"
proof (rule tx.staysI)
  fix s :: worker_run
  let ?db = "wv_between E (wn_count s) (wn_db s)"
  have "(db_step E)\<^sup>*\<^sup>* (wn_db s) ?db" by (rule r_into_rtranclp) (auto simp: db_step_def)
  moreover have "db_step E ?db (snd (f (wv_now E (wn_count s)) ?db))" using assms by (simp add: db_step_def)
  ultimately show "tx_rel E s (snd (statement E f s))"
    by (auto simp: tx_rel_def statement_def Let_def split: prod.splits option.splits intro: rtranclp.rtrancl_into_rtrancl)
qed

lemma mail_tx_refl: "mail_tx db db"
  using mail_tx.queue [of db "md_queue db"] by simp

lemma transacts_query [run_intro]: "transacts E (query E f)"
  unfolding query_def by (rule transacts_statement) (simp add: mail_tx_refl)

lemma transacts_change [run_intro]: "(\<And>now db. mail_tx db (f now db)) \<Longrightarrow> transacts E (change E f)"
  unfolding change_def by (rule transacts_statement) simp

lemma transacts_effects [run_intro]:
  "transacts E (post_endpoint E h)" "transacts E (send_smtp E W d p rc raw ip)"
  by (auto simp: stays_def tx_rel_def post_endpoint_def send_smtp_def split: sum.splits prod.splits)

lemma transacts_queue [run_intro]: "transacts E (queue_complete E i)" "transacts E (queue_retry E i n)"
  unfolding queue_complete_def queue_retry_def by (intro run_intro mail_tx.intros)+

lemma transacts_dequeue [run_intro]: "transacts E (dequeue_stmt E W)"
proof (rule tx.staysI)
  fix s :: worker_run
  have "mail_tx (wn_db s) (wn_db (snd (dequeue_stmt E W s)))"
    by (auto simp: dequeue_stmt_def intro: mail_tx.queue split: prod.splits sum.splits)
  then show "tx_rel E s (snd (dequeue_stmt E W s))"
    unfolding tx_rel_def by (intro r_into_rtranclp) (simp add: db_step_def)
qed

lemma transacts_click_tokens [run_intro]: "transacts E (click_tokens E m urls)"
  by (induction urls) (auto intro!: run_intro mail_tx.intros)

lemma transacts_tracking [run_intro]: "transacts E (apply_tracking E W m)"
  unfolding apply_tracking_def by (intro run_intro mail_tx.intros)

lemma transacts_signed [run_intro]: "transacts E (signed_message E W m raw)"
  unfolding signed_message_def by (intro run_intro)

lemma transacts_outgoing [run_intro]: "transacts E (process_outgoing E W q m t)"
  unfolding process_outgoing_def send_outgoing_def record_outcome_def record_outbound_def
  by (auto intro!: run_intro mail_tx.intros split: send_outcome.split)

lemma transacts_retry_or_fail [run_intro]: "transacts E (retry_or_fail E W q r)"
  unfolding retry_or_fail_def by (intro run_intro)

lemma transacts_record [run_intro]: "transacts E (record_delivery_stmt E m st d out)"
  unfolding record_delivery_stmt_def by (intro run_intro mail_tx.intros)

lemma transacts_inspect [run_intro]: "transacts E (inspect E W m)"
  unfolding inspect_def by (intro run_intro mail_tx.intros)

lemma transacts_reports [run_intro]:
  "transacts E (ingest_dmarc_report E W q m)" "transacts E (ingest_feedback_report E W q m)"
  unfolding ingest_dmarc_report_def ingest_feedback_report_def record_feedback_complaint_def
  by (intro run_intro mail_tx.intros)+

lemma transacts_correlate [run_intro]: "transacts E (correlate_incoming E q m)"
  unfolding correlate_incoming_def by (auto intro!: run_intro mail_tx.intros split: bounce_correlation.split)

lemma transacts_route [run_intro]: "transacts E (route_incoming E W q m)"
  unfolding route_incoming_def deliver_to_endpoint_def
  by (auto intro!: run_intro split: http_result.split)

lemma transacts_process_next: "transacts E (process_next E W)"
  unfolding process_next_def process_incoming_def load_message_def by (intro run_intro)

section \<open>Guarantees\<close>

text \<open>
  What every transaction of the worker guarantees, the worker guarantees as a whole, as long as the
  others guarantee it too: workers can then run side by side.
\<close>

locale mail_guarantee =
  fixes R :: "mail_db \<Rightarrow> mail_db \<Rightarrow> bool"
  assumes reflexive: "R db db"
    and transitive: "R a b \<Longrightarrow> R b c \<Longrightarrow> R a c"
    and transaction: "mail_tx a b \<Longrightarrow> R a b"
begin

lemma steps_keep:
  assumes "(db_step E)\<^sup>*\<^sup>* a b" "\<And>k db. R db (wv_between E k db)"
  shows "R a b"
  using assms(1)
proof (induction rule: rtranclp_induct)
  case (step b c)
  then have "R b c" using transaction assms(2) by (auto simp: db_step_def)
  with step.IH show ?case by (rule transitive)
qed (rule reflexive)

lemma worker_keeps:
  assumes "\<And>k db. R db (wv_between E k db)"
  shows "R (wn_db s) (wn_db (snd (process_next E W s)))"
  using steps_keep [OF _ assms] transacts_process_next [of E W] by (simp add: stays_def tx_rel_def)

end

subsection \<open>Table lemmas\<close>

lemma md_messages_update [simp]:
  "md_messages (update_messages p f db) = map (\<lambda>r. if p r then f r else r) (md_messages db)"
  "md_deliveries (update_messages p f db) = md_deliveries db"
  "md_queue (update_messages p f db) = md_queue db" "md_webhooks (update_messages p f db) = md_webhooks db"
  "md_requests (update_messages p f db) = md_requests db"
  by (simp_all add: update_messages_def)

lemma insert_delivery_simps [simp]:
  "md_messages (snd (insert_delivery t i st d out tls db)) = md_messages db"
  "md_deliveries (snd (insert_delivery t i st d out tls db)) = md_deliveries db @
     [\<lparr>dl_id = md_next_delivery_id db, dl_server_id = t, dl_message_id = i, dl_status = st, dl_details = d,
       dl_output = out, dl_sent_with_ssl = tls\<rparr>]"
  "md_queue (snd (insert_delivery t i st d out tls db)) = md_queue db"
  "md_webhooks (snd (insert_delivery t i st d out tls db)) = md_webhooks db"
  "md_requests (snd (insert_delivery t i st d out tls db)) = md_requests db"
  by (simp_all add: insert_delivery_def Let_def)

lemma enqueue_requests_simps [simp]:
  "md_messages (enqueue_webhook_requests X t e p now db) = md_messages db"
  "md_deliveries (enqueue_webhook_requests X t e p now db) = md_deliveries db"
  "md_queue (enqueue_webhook_requests X t e p now db) = md_queue db"
  by (simp_all add: enqueue_webhook_requests_def)

lemma queue_action_simps [simp]:
  "md_messages (queue_action i m t a now db) = md_messages db"
  "md_deliveries (queue_action i m t a now db) = md_deliveries db"
  "md_webhooks (queue_action i m t a now db) = md_webhooks db"
  "md_requests (queue_action i m t a now db) = md_requests db"
  by (simp_all add: queue_action_def)

lemma write_complaint_simps [simp]:
  "md_messages (write_feedback_complaint t st a db) = md_messages db"
  "md_deliveries (write_feedback_complaint t st a db) = md_deliveries db"
  by (simp_all add: write_feedback_complaint_def Let_def split: option.split)

lemma record_delivery_cases:
  obtains "snd (record_delivery t i st d out tls cat now db) = db"
    "\<not> list_ex (\<lambda>r. tenant_message t i r \<and> mw_status r \<noteq> ''Bounced'') (md_messages db)"
  | "snd (record_delivery t i st d out tls cat now db)
       = snd (insert_delivery t i st d out tls (update_messages
           (\<lambda>r. tenant_message t i r \<and> mw_status r \<noteq> ''Bounced'') (set_result st cat now) db))"
    "list_ex (\<lambda>r. tenant_message t i r \<and> mw_status r \<noteq> ''Bounced'') (md_messages db)"
proof (cases "list_ex (\<lambda>r. tenant_message t i r \<and> mw_status r \<noteq> ''Bounced'') (md_messages db)")
  case True
  then have "snd (record_delivery t i st d out tls cat now db)
       = snd (insert_delivery t i st d out tls (update_messages
           (\<lambda>r. tenant_message t i r \<and> mw_status r \<noteq> ''Bounced'') (set_result st cat now) db))"
    by (simp add: record_delivery_def Let_def split: prod.split)
  with True that(2) show ?thesis by blast
next
  case False
  with that(1) show ?thesis by (simp add: record_delivery_def)
qed

subsection \<open>The content of messages\<close>

text \<open>What a message is: who sent it to whom, its bytes, its token and its scope.\<close>

definition same_content :: "message_row \<Rightarrow> message_row \<Rightarrow> bool" where
  "same_content r r' \<longleftrightarrow> mw_id r' = mw_id r \<and> mw_server_id r' = mw_server_id r \<and> mw_token r' = mw_token r
     \<and> mw_scope r' = mw_scope r \<and> mw_rcpt_to r' = mw_rcpt_to r \<and> mw_mail_from r' = mw_mail_from r
     \<and> mw_bounce r' = mw_bounce r \<and> mw_raw_message r' = mw_raw_message r \<and> mw_stream_id r' = mw_stream_id r
     \<and> mw_created_at r' = mw_created_at r"

text \<open>An outgoing message for which a notification was correlated.\<close>

definition has_bounced :: "message_row \<Rightarrow> bool" where
  "has_bounced r \<longleftrightarrow> mw_scope r = ''outgoing'' \<and> mw_status r = ''Bounced''"

definition mail_wf :: "mail_db \<Rightarrow> bool" where
  "mail_wf db \<longleftrightarrow> distinct (map mw_id (md_messages db))"

definition results_of :: "nat \<Rightarrow> mail_db \<Rightarrow> delivery_row list" where
  "results_of i db = filter (\<lambda>d. dl_message_id d = i \<and> dl_status d \<noteq> ''Bounced'') (md_deliveries db)"

definition bounced_ids :: "mail_db \<Rightarrow> nat set" where
  "bounced_ids db = mw_id ` {r \<in> set (md_messages db). has_bounced r}"

definition bounces_kept :: "mail_db \<Rightarrow> mail_db \<Rightarrow> bool" where
  "bounces_kept a b \<longleftrightarrow> (mail_wf a \<longrightarrow> mail_wf b
     \<and> (\<forall>r \<in> set (md_messages a). \<exists>r' \<in> set (md_messages b). same_content r r' \<and> (has_bounced r \<longrightarrow> has_bounced r'))
     \<and> (\<forall>i \<in> bounced_ids a. results_of i b = results_of i a))"

lemma bounces_keptD:
  assumes "bounces_kept a b" "mail_wf a"
  shows "mail_wf b" "bounced_ids a \<subseteq> bounced_ids b"
    "r \<in> set (md_messages a) \<Longrightarrow> \<exists>r' \<in> set (md_messages b). same_content r r' \<and> (has_bounced r \<longrightarrow> has_bounced r')"
    "i \<in> bounced_ids a \<Longrightarrow> results_of i b = results_of i a"
  using assms by (auto simp: bounces_kept_def bounced_ids_def same_content_def) (metis (mono_tags, lifting) imageI mem_Collect_eq)

lemma bounces_kept_trans:
  assumes "bounces_kept a b" "bounces_kept b c"
  shows "bounces_kept a c"
proof -
  have "\<exists>r'' \<in> set (md_messages c). same_content r r'' \<and> (has_bounced r \<longrightarrow> has_bounced r'')"
    if wf: "mail_wf a" and r: "r \<in> set (md_messages a)" for r
  proof -
    from bounces_keptD(3) [OF assms(1) wf r] obtain r' where r': "r' \<in> set (md_messages b)" "same_content r r'"
      "has_bounced r \<longrightarrow> has_bounced r'" by blast
    from bounces_keptD(3) [OF assms(2) bounces_keptD(1) [OF assms(1) wf] r'(1)] r'(2,3) show ?thesis
      by (auto simp: same_content_def)
  qed
  then show ?thesis
    using bounces_keptD [OF assms(1)] bounces_keptD [OF assms(2)] unfolding bounces_kept_def by (metis subsetD)
qed

lemma bounces_kept_same: "md_messages b = md_messages a \<Longrightarrow> md_deliveries b = md_deliveries a \<Longrightarrow> bounces_kept a b"
  by (auto simp: bounces_kept_def mail_wf_def results_of_def same_content_def)

lemma bounces_kept_update:
  assumes "\<And>r. mail_wf a \<Longrightarrow> r \<in> set (md_messages a) \<Longrightarrow> p r \<Longrightarrow> same_content r (f r) \<and> (has_bounced r \<longrightarrow> has_bounced (f r))"
  shows "bounces_kept a (update_messages p f a)"
proof -
  let ?g = "\<lambda>r. if p r then f r else r" and ?b = "update_messages p f a"
  have g: "same_content r (?g r) \<and> (has_bounced r \<longrightarrow> has_bounced (?g r))" if "mail_wf a" "r \<in> set (md_messages a)" for r
    using assms that by (auto simp: same_content_def)
  have "map mw_id (md_messages ?b) = map mw_id (md_messages a)" if "mail_wf a"
    using g [OF that] by (auto simp: same_content_def)
  then have "mail_wf a \<longrightarrow> mail_wf ?b" unfolding mail_wf_def by (metis (lifting))
  moreover have "\<exists>r' \<in> set (md_messages ?b). same_content r r' \<and> (has_bounced r \<longrightarrow> has_bounced r')"
    if "mail_wf a" "r \<in> set (md_messages a)" for r
  proof (rule bexI [of _ "?g r"])
    show "?g r \<in> set (md_messages ?b)" using imageI [OF that(2), of ?g] by (simp only: md_messages_update set_map)
  qed (rule g [OF that])
  moreover have "results_of i ?b = results_of i a" for i by (simp add: results_of_def)
  ultimately show ?thesis unfolding bounces_kept_def by blast
qed

lemma bounces_kept_insert:
  assumes "mail_wf a \<Longrightarrow> st = ''Bounced'' \<or> i \<notin> bounced_ids a"
  shows "bounces_kept a (snd (insert_delivery t i st d out tls a))"
  using assms by (auto simp: bounces_kept_def mail_wf_def results_of_def same_content_def)

lemma bounced_ids_update:
  assumes "mail_wf a" "i \<in> bounced_ids a" "r \<in> set (md_messages a)" "mw_id r = i"
  shows "has_bounced r"
proof -
  from assms(2) obtain r' where "r' \<in> set (md_messages a)" "mw_id r' = i" "has_bounced r'" by (auto simp: bounced_ids_def)
  with assms show ?thesis by (auto simp: mail_wf_def distinct_map dest: inj_onD)
qed

lemma bounces_kept_result:
  assumes "\<And>r. p r \<Longrightarrow> mw_id r = i \<and> \<not> has_bounced r" "list_ex p (md_messages a)"
    "\<And>r. p r \<Longrightarrow> same_content r (f r)"
  shows "bounces_kept a (snd (insert_delivery t i st d out tls (update_messages p f a)))"
proof -
  let ?b = "snd (insert_delivery t i st d out tls a)"
  have "i \<notin> bounced_ids a" if "mail_wf a"
    using assms(1,2) bounced_ids_update [OF that] by (auto simp: list_ex_iff)
  then have "bounces_kept a ?b" by (intro bounces_kept_insert) blast
  moreover have "bounces_kept ?b (update_messages p f ?b)" using assms(1,3) by (intro bounces_kept_update) blast
  moreover have "bounces_kept (update_messages p f ?b) (snd (insert_delivery t i st d out tls (update_messages p f a)))"
    by (rule bounces_kept_same) (simp_all add: insert_delivery_def Let_def update_messages_def)
  ultimately show ?thesis by (blast intro: bounces_kept_trans)
qed

lemma set_result_content: "same_content r (set_result st cat now r)"
  by (simp add: same_content_def set_result_def)

lemma bounces_kept_record_delivery: "bounces_kept a (snd (record_delivery t i st d out tls cat now a))"
proof (rule record_delivery_cases [of t i st d out tls cat now a])
  assume "snd (record_delivery t i st d out tls cat now a)
       = snd (insert_delivery t i st d out tls (update_messages
           (\<lambda>r. tenant_message t i r \<and> mw_status r \<noteq> ''Bounced'') (set_result st cat now) a))"
    "list_ex (\<lambda>r. tenant_message t i r \<and> mw_status r \<noteq> ''Bounced'') (md_messages a)"
  then show ?thesis
    by (auto simp: tenant_message_def has_bounced_def set_result_content intro!: bounces_kept_result)
qed (simp add: bounces_kept_same)

abbreviation open_outgoing :: "Id \<Rightarrow> nat \<Rightarrow> message_row \<Rightarrow> bool" where
  "open_outgoing t i \<equiv> (\<lambda>r. tenant_message t i r \<and> mw_scope r = ''outgoing'' \<and> mw_status r \<noteq> ''Bounced'')"

lemma record_outbound_cases:
  obtains "record_outbound_delivery X t i qi st d out tls cat act ev pay now db = (None, queue_action qi i t CompleteRow now db)"
    "\<not> list_ex (open_outgoing t i) (md_messages db)"
  | "record_outbound_delivery X t i qi st d out tls cat act ev pay now db
       = (Some (md_next_delivery_id db), enqueue_webhook_requests X t ev pay now (queue_action qi i t act now
           (snd (insert_delivery t i st d out tls (update_messages (open_outgoing t i) (set_result st cat now) db)))))"
    "list_ex (open_outgoing t i) (md_messages db)"
proof (cases "list_ex (open_outgoing t i) (md_messages db)")
  case True
  then have "record_outbound_delivery X t i qi st d out tls cat act ev pay now db
       = (Some (md_next_delivery_id db), enqueue_webhook_requests X t ev pay now (queue_action qi i t act now
           (snd (insert_delivery t i st d out tls (update_messages (open_outgoing t i) (set_result st cat now) db)))))"
    by (simp add: record_outbound_delivery_def insert_delivery_def Let_def update_messages_def)
  with True that(2) show ?thesis by blast
next
  case False
  with that(1) show ?thesis by (simp add: record_outbound_delivery_def)
qed

lemma bounces_kept_outbound: "bounces_kept a (snd (record_outbound_delivery X t i qi st d out tls cat act ev pay now a))"
proof (rule record_outbound_cases [where X = X and t = t and i = i and qi = qi and st = st and d = d and out = out and tls = tls
      and cat = cat and act = act and ev = ev and pay = pay and now = now and db = a])
  let ?p = "open_outgoing t i"
  let ?b = "snd (insert_delivery t i st d out tls (update_messages ?p (set_result st cat now) a))"
  assume r: "record_outbound_delivery X t i qi st d out tls cat act ev pay now a
       = (Some (md_next_delivery_id a), enqueue_webhook_requests X t ev pay now (queue_action qi i t act now ?b))"
    and "list_ex ?p (md_messages a)"
  then have "bounces_kept a ?b" by (auto simp: tenant_message_def has_bounced_def set_result_content intro!: bounces_kept_result)
  moreover have "bounces_kept ?b (enqueue_webhook_requests X t ev pay now (queue_action qi i t act now ?b))"
    by (rule bounces_kept_same) simp_all
  ultimately show ?thesis using r by (simp add: bounces_kept_trans)
qed (simp add: bounces_kept_same)

lemma bounces_kept_unmatched: "bounces_kept a (snd (record_unmatched_bounce t i qi cat d now a))"
proof (cases "list_ex (\<lambda>r. tenant_message t i r \<and> mw_scope r = ''incoming'' \<and> mw_bounce r) (md_messages a)")
  case True
  let ?p = "\<lambda>r. tenant_message t i r \<and> mw_scope r = ''incoming'' \<and> mw_bounce r"
  let ?f = "\<lambda>r. r\<lparr>mw_status := ''HardFail'', mw_held := False, mw_last_delivery_attempt := Some now, mw_bounce_category := Some cat\<rparr>"
  let ?b = "snd (insert_delivery t i ''HardFail'' d [] False (update_messages ?p ?f a))"
  have "bounces_kept a ?b"
    using True by (intro bounces_kept_result) (auto simp: tenant_message_def has_bounced_def same_content_def)
  moreover have "bounces_kept ?b (queue_action qi i t CompleteRow now ?b)" by (rule bounces_kept_same) simp_all
  moreover have "snd (record_unmatched_bounce t i qi cat d now a) = queue_action qi i t CompleteRow now ?b"
    using True by (simp add: record_unmatched_bounce_def Let_def split: prod.split)
  ultimately show ?thesis by (simp add: bounces_kept_trans)
next
  case False
  then show ?thesis by (simp add: record_unmatched_bounce_def bounces_kept_same)
qed

lemma first_by_SomeD: "first_by key xs = Some x \<Longrightarrow> x \<in> set xs"
  unfolding first_by_def by (metis list.case(1,2) list.exhaust list.set_intros(1) option.distinct(1) option.inject set_sort)

lemma message_for_tokens_SomeD:
  assumes "message_for_tokens t tokens db = Some r"
  shows "r \<in> set (md_messages db)" "mw_server_id r = t" "mw_token r \<in> set tokens" "mw_scope r = ''outgoing''"
  using first_by_SomeD [OF assms [unfolded message_for_tokens_def]] by simp_all

lemma bounces_kept_link:
  assumes "mw_scope original = ''outgoing''" "original \<in> set (md_messages a)"
    "\<exists>r \<in> set (md_messages a). is_notification t i r"
  shows "bounces_kept a (link_bounce X t i original cat pay now a)"
proof -
  let ?p = "\<lambda>r. is_notification t i r \<and> mw_bounce_correlated_at r = None"
  let ?f = "\<lambda>r. r\<lparr>mw_bounce_for_id := Some (mw_id original), mw_bounce_correlated_at := Some now,
                  mw_domain_id := mw_domain_id original, mw_status := ''Processed'', mw_held := False,
                  mw_last_delivery_attempt := Some now\<rparr>"
  let ?g = "\<lambda>r. r\<lparr>mw_status := ''Bounced'', mw_held := False, mw_bounce_category := Some cat, mw_last_delivery_attempt := Some now\<rparr>"
  let ?d2 = "''This has been detected as a bounce message for <msg:'' @ show_nat (mw_id original) @ ''>.''"
  let ?d3 = "''We've received a bounce message for this e-mail. See <msg:'' @ show_nat i @ ''> for details.''"
  let ?b2 = "snd (insert_delivery t i ''Processed'' ?d2 [] False a)"
  let ?b3 = "update_messages ?p ?f ?b2"
  let ?b4 = "snd (insert_delivery t (mw_id original) ''Bounced'' ?d3 [] False ?b3)"
  let ?b5 = "update_messages (tenant_message t (mw_id original)) ?g ?b4"
  have "i \<notin> bounced_ids a" if "mail_wf a"
    using assms(3) bounced_ids_update [OF that] by (fastforce simp: is_notification_def tenant_message_def has_bounced_def)
  then have "bounces_kept a ?b2" by (intro bounces_kept_insert) blast
  moreover have "bounces_kept ?b2 ?b3"
    by (rule bounces_kept_update) (auto simp: is_notification_def same_content_def has_bounced_def)
  moreover have "bounces_kept ?b3 ?b4" by (rule bounces_kept_insert) simp
  moreover have "bounces_kept ?b4 ?b5"
    by (rule bounces_kept_update) (auto simp: same_content_def has_bounced_def)
  moreover have "bounces_kept ?b5 (link_bounce X t i original cat pay now a)"
    by (rule bounces_kept_same) (simp_all add: link_bounce_def Let_def insert_delivery_def update_messages_def)
  ultimately show ?thesis by (blast intro: bounces_kept_trans)
qed

lemma is_notification_category [simp]: "is_notification t i (r\<lparr>mw_bounce_category := c\<rparr>) = is_notification t i r"
  by (simp add: is_notification_def tenant_message_def)

lemma bounces_kept_correlate: "bounces_kept a (snd (correlate_bounce X t i tokens cat mk now a))"
proof (cases "List.find (is_notification t i) (md_messages a)")
  case None
  then show ?thesis by (simp add: correlate_bounce_def bounces_kept_same)
next
  case (Some n)
  then have n: "n \<in> set (md_messages a)" "is_notification t i n" by (auto dest: find_SomeD)
  let ?b = "update_messages (is_notification t i) (\<lambda>r. r\<lparr>mw_bounce_category := Some cat\<rparr>) a"
  have b: "bounces_kept a ?b" by (rule bounces_kept_update) (auto simp: same_content_def has_bounced_def)
  have "\<exists>r \<in> set (md_messages ?b). is_notification t i r"
    using n by (intro bexI [of _ "n\<lparr>mw_bounce_category := Some cat\<rparr>"]) (auto simp: image_iff)
  then have link: "bounces_kept a (link_bounce X t i original cat pay now ?b)" if "message_for_tokens t tokens ?b = Some original" for original pay
    using bounces_kept_trans [OF b bounces_kept_link] message_for_tokens_SomeD [OF that] by blast
  have "bounces_kept a (update_messages (tenant_message t i) (\<lambda>r. r\<lparr>mw_status := ''Processed'', mw_held := False\<rparr>) a)"
  proof (rule bounces_kept_update)
    fix r
    assume "mail_wf a" "r \<in> set (md_messages a)" "tenant_message t i r"
    with n have "r = n" by (auto simp: mail_wf_def distinct_map is_notification_def tenant_message_def dest: inj_onD)
    with n show "same_content r (r\<lparr>mw_status := ''Processed'', mw_held := False\<rparr>)
      \<and> (has_bounced r \<longrightarrow> has_bounced (r\<lparr>mw_status := ''Processed'', mw_held := False\<rparr>))"
      by (simp add: same_content_def has_bounced_def is_notification_def)
  qed
  with Some b link show ?thesis
    by (auto simp: correlate_bounce_def Let_def split: option.split)
qed

lemma bounces_kept_tx: "mail_tx a b \<Longrightarrow> bounces_kept a b"
proof (induction rule: mail_tx.induct)
  case (inspection db t i status score threat details)
  then show ?case unfolding record_inspection_def
    by (intro bounces_kept_update) (auto simp: same_content_def has_bounced_def)
next
  case (complaint db X t target c now)
  then show ?case by (intro bounces_kept_same) (auto simp: record_complaint_tx_def Let_def split: option.splits)
qed (auto intro: bounces_kept_record_delivery bounces_kept_outbound bounces_kept_unmatched bounces_kept_correlate bounces_kept_same
  simp: create_link_def create_click_token_def create_open_token_def store_dmarc_report_def Let_def)

interpretation bounced: mail_guarantee bounces_kept
  by unfold_locales (auto intro: bounces_kept_same bounces_kept_tx bounces_kept_trans)

section \<open>Mail is sent once, and only after the checks\<close>

definition same_smtp :: "worker_run \<Rightarrow> worker_run \<Rightarrow> bool" where
  "same_smtp s s' \<longleftrightarrow> wn_smtp s' = wn_smtp s"

abbreviation quiet :: "'a task \<Rightarrow> bool" where
  "quiet m \<equiv> stays same_smtp m"

interpretation quiet: run_relation same_smtp
  by unfold_locales (auto simp: same_smtp_def)

lemma quiet_statement [run_intro]: "quiet (statement E f)" "quiet (query E g)" "quiet (change E h)"
proof -
  show *: "quiet (statement E f)" for f
    by (auto simp: stays_def same_smtp_def statement_def Let_def split: prod.splits option.splits)
  show "quiet (query E g)" "quiet (change E h)" unfolding query_def change_def by (rule *)+
qed

lemma quiet_click_tokens [run_intro]: "quiet (click_tokens E m urls)"
  by (induction urls) (auto intro!: run_intro)

lemma quiet_steps [run_intro]:
  "quiet (queue_complete E i)" "quiet (apply_tracking E W m)" "quiet (signed_message E W m raw)"
  "quiet (record_outbound E q m st d out tls cat act ev pay res)"
  unfolding queue_complete_def apply_tracking_def signed_message_def record_outbound_def by (intro run_intro)+

lemma quiet_record_outcome [run_intro]: "quiet (record_outcome E W q m out)"
  unfolding record_outcome_def by (auto intro!: run_intro split: send_outcome.split)

lemma quietD: "quiet m \<Longrightarrow> m s = (r, s') \<Longrightarrow> wn_smtp s' = wn_smtp s"
  by (auto simp: stays_def same_smtp_def dest: spec [of _ s])

lemma andthenE:
  assumes "andthen m k s = (r, s')"
  obtains (failed) e where "m s = (Inl e, s')" "r = Inl e" | (next_step) a s1 where "m s = (Inr a, s1)" "k a s1 = (r, s')"
  using assms by (auto simp: andthen_def split: prod.splits sum.splits)

lemma andthen_InrE:
  assumes "andthen m k s = (Inr b, s')"
  obtains a s1 where "m s = (Inr a, s1)" "k a s1 = (Inr b, s')"
  using assms by (auto elim!: andthenE)

lemma finishE: "finish a s = (Inr b, s') \<Longrightarrow> b = a \<and> s' = s"
  by (simp add: finish_def)

text \<open>What is handed to SMTP for a message.\<close>

definition tracked_of :: "worker_env \<Rightarrow> message_row \<Rightarrow> bytes \<Rightarrow> bool" where
  "tracked_of E m raw \<longleftrightarrow> raw = mw_raw_message m
     \<or> (\<exists>html. with_html (wv_lc E) (wv_base64 E) (mw_raw_message m) html = Some raw)"

definition signed_with :: "worker_env \<Rightarrow> worker \<Rightarrow> mail_db \<Rightarrow> bytes \<Rightarrow> bytes \<Rightarrow> bool" where
  "signed_with E W db identified raw \<longleftrightarrow>
     (\<exists>d \<in> set (md_domains db). \<exists>signer timestamp.
        raw = sign_and_prepend (wv_dkim E) identified (dom_name d) (wk_dkim_selector W) signer timestamp)"

definition sent_for :: "worker_env \<Rightarrow> worker \<Rightarrow> mail_db \<Rightarrow> message_row \<Rightarrow> bytes \<Rightarrow> bool" where
  "sent_for E W db m raw \<longleftrightarrow>
     (\<exists>tracked. tracked_of E m tracked
        \<and> (raw = add_message_token_header tracked (mw_token m)
           \<or> signed_with E W db (add_message_token_header tracked (mw_token m)) raw))"

lemma apply_tracking_result:
  assumes "apply_tracking E W m s = (Inr raw, s')"
  shows "tracked_of E m raw"
proof (cases "is_signed (wv_lc E) (mw_raw_message m) \<or> html_of (wv_lc E) (wv_base64 E) (mw_raw_message m) = None")
  case True
  then have "apply_tracking E W m = finish (mw_raw_message m)"
    by (elim disjE) (simp_all add: apply_tracking_def Let_def)
  with assms show ?thesis by (simp add: tracked_of_def finish_def)
next
  case False
  then obtain body where "\<not> is_signed (wv_lc E) (mw_raw_message m)"
    "html_of (wv_lc E) (wv_base64 E) (mw_raw_message m) = Some body" by auto
  from assms [unfolded apply_tracking_def Let_def if_not_P [OF this(1)] this(2) option.case] obtain html s1 where
    "finish (case with_html (wv_lc E) (wv_base64 E) (mw_raw_message m) html of Some r \<Rightarrow> r | None \<Rightarrow> mw_raw_message m) s1 = (Inr raw, s')"
    unfolding case_prod_beta by (elim andthen_InrE) blast
  then have "raw = (case with_html (wv_lc E) (wv_base64 E) (mw_raw_message m) html of Some r \<Rightarrow> r | None \<Rightarrow> mw_raw_message m)"
    by (simp add: finish_def)
  then show ?thesis
    by (cases "with_html (wv_lc E) (wv_base64 E) (mw_raw_message m) html") (auto simp: tracked_of_def)
qed

lemma query_InrD:
  "query E f s = (Inr a, s') \<Longrightarrow> a = f (wv_between E (wn_count s) (wn_db s)) \<and> wn_db s' = wv_between E (wn_count s) (wn_db s)
     \<and> wn_count s' = wn_count s + 1 \<and> wn_smtp s' = wn_smtp s"
  by (auto simp: query_def statement_def Let_def split: option.splits)

lemma caught_SomeD: "caught m s = (Inr (Some a), s') \<Longrightarrow> m s = (Inr a, s')"
  by (auto simp: caught_def split: prod.splits sum.splits failure.splits)

lemma signed_message_result:
  assumes "signed_message E W m identified s = (Inr raw, s')"
  shows "raw = identified \<or> signed_with E W (wv_between E (wn_count s) (wn_db s)) identified raw"
proof (cases "mw_domain_id m")
  case None
  with assms show ?thesis by (simp add: signed_message_def finish_def)
next
  case (Some i)
  with assms obtain found s1 where f: "caught (query E (domain_by_id i)) s = (Inr found, s1)"
    and r: "(case found of Some (Some d) \<Rightarrow>
               (case signer_for_domain (wv_dkim E) (dom_dkim_private_key d) (wk_signer W) of
                  Some signer \<Rightarrow>
                    finish (sign_and_prepend (wv_dkim E) identified (dom_name d) (wk_dkim_selector W) signer
                              (wv_now E (wn_count s1) div 10 ^ 9)) s1
                | None \<Rightarrow> finish identified s1)
           | _ \<Rightarrow> finish identified s1) = (Inr raw, s')"
    by (auto simp: signed_message_def elim!: andthen_InrE)
  have "d \<in> set (md_domains (wv_between E (wn_count s) (wn_db s)))" if "found = Some (Some d)" for d
  proof -
    from query_InrD [OF caught_SomeD [OF f [unfolded that]]]
    have "List.find (\<lambda>d. dom_id d = i) (md_domains (wv_between E (wn_count s) (wn_db s))) = Some d"
      by (simp add: domain_by_id_def)
    then show ?thesis by (auto dest: find_SomeD)
  qed
  with r show ?thesis by (auto simp: finish_def signed_with_def split: option.splits)
qed

text \<open>The state of a call to SMTP.\<close>

lemma send_smtp_cases:
  assumes "send_smtp E W d p rc raw ip s = (r, s')"
  shows "\<exists>out. r = Inr out \<and> s' = s\<lparr>wn_smtp := wn_smtp s @ [\<lparr>sl_domain = d, sl_return_path = p, sl_rcpt_to = rc, sl_raw = raw,
      sl_source_ip = ip, sl_outcome = out\<rparr>]\<rparr>"
proof -
  obtain out tr where "sender_send (wv_net E) (wv_mx E) (wk_sender W) d p rc raw ip = Inr (out, tr)"
    using sender_walk by blast
  with assms show ?thesis by (auto simp: send_smtp_def)
qed

definition return_path_of :: "worker \<Rightarrow> message_row \<Rightarrow> string option \<Rightarrow> string \<Rightarrow> bool" where
  "return_path_of W m server_token p =
     (case wk_return_path_domain W of
        None \<Rightarrow> p = mw_mail_from m
      | Some domain \<Rightarrow> (\<exists>token. server_token = Some token \<and> p = token @ ''@'' @ domain))"

lemma return_path_result:
  "return_path_for W m t s = (Inr p, s') \<Longrightarrow> return_path_of W m t p \<and> s' = s"
  by (auto simp: return_path_for_def return_path_of_def finish_def split: option.splits)

definition rightly_sent :: "worker_env \<Rightarrow> worker \<Rightarrow> queued_row \<Rightarrow> message_row \<Rightarrow> string option \<Rightarrow> mail_db \<Rightarrow> smtp_call \<Rightarrow> bool" where
  "rightly_sent E W q m server_token db c \<longleftrightarrow>
     mw_status m \<noteq> ''Bounced'' \<and> \<not> address_suppressed (mw_server_id m) (mw_rcpt_to m) (mw_stream_id m) db
     \<and> sl_domain c = qr_domain q \<and> sl_rcpt_to c = mw_rcpt_to m
     \<and> return_path_of W m server_token (sl_return_path c)
     \<and> (\<exists>db'. (db_step E)\<^sup>*\<^sup>* db db' \<and> sent_for E W db' m (sl_raw c))"

lemma send_outgoing_cases:
  assumes "send_outgoing E W q m t s = (r, s')"
  shows "(\<exists>e. r = Inl e) \<and> wn_smtp s' = wn_smtp s
    \<or> (\<exists>out c. r = Inr out \<and> wn_smtp s' = wn_smtp s @ [c] \<and> sl_outcome c = out \<and> sl_domain c = qr_domain q
         \<and> sl_rcpt_to c = mw_rcpt_to m \<and> return_path_of W m t (sl_return_path c)
         \<and> (\<exists>db'. (db_step E)\<^sup>*\<^sup>* (wn_db s) db' \<and> sent_for E W db' m (sl_raw c)))"
proof (cases r)
  case (Inl e)
  have "wn_smtp s' = wn_smtp s"
    using assms Inl unfolding send_outgoing_def
    by (elim andthenE) (auto dest!: send_smtp_cases quietD [rotated] intro: run_intro)
  with Inl show ?thesis by blast
next
  case (Inr out)
  from assms [unfolded Inr send_outgoing_def] obtain tracked s1 raw s2 p s3 ip s4 where
    1: "apply_tracking E W m s = (Inr tracked, s1)"
    and 2: "signed_message E W m (add_message_token_header tracked (mw_token m)) s1 = (Inr raw, s2)"
    and 3: "return_path_for W m t s2 = (Inr p, s3)"
    and 4: "caught (query E (source_ip_for (mw_server_id m) (mw_stream_id m))) s3 = (Inr ip, s4)"
    and 5: "send_smtp E W (qr_domain q) p (mw_rcpt_to m) raw
       (Option.bind (case ip of Some i \<Rightarrow> i | None \<Rightarrow> None) (wv_ip_parse E)) s4 = (Inr out, s')"
    by (elim andthen_InrE) blast
  have "quiet (apply_tracking E W m)" "quiet (signed_message E W m (add_message_token_header tracked (mw_token m)))"
    "quiet (caught (query E (source_ip_for (mw_server_id m) (mw_stream_id m))))" by (intro run_intro)+
  with 1 2 4 return_path_result [OF 3] have "wn_smtp s4 = wn_smtp s" by (metis quietD)
  moreover have "(db_step E)\<^sup>*\<^sup>* (wn_db s) (wv_between E (wn_count s1) (wn_db s1))"
  proof (rule rtranclp.rtrancl_into_rtrancl)
    show "(db_step E)\<^sup>*\<^sup>* (wn_db s) (wn_db s1)"
      using transacts_tracking [of E W m] 1 by (auto simp: stays_def tx_rel_def dest: spec [of _ s])
  qed (auto simp: db_step_def)
  moreover have "sent_for E W (wv_between E (wn_count s1) (wn_db s1)) m raw"
    using apply_tracking_result [OF 1] signed_message_result [OF 2] by (auto simp: sent_for_def)
  ultimately show ?thesis using Inr send_smtp_cases [OF 5] return_path_result [OF 3] by auto
qed

lemma outgoing_calls:
  "wn_smtp (snd (process_outgoing E W q m t s)) = wn_smtp s
   \<or> (\<exists>c. wn_smtp (snd (process_outgoing E W q m t s)) = wn_smtp s @ [c]
        \<and> rightly_sent E W q m t (wv_between E (wn_count s) (wn_db s)) c)"
proof -
  obtain r s' where run: "process_outgoing E W q m t s = (r, s')" by fastforce
  have quiet_bounced: "quiet (andthen (queue_complete E (lr_id q)) (\<lambda>_. finish AlreadyBounced))" by (intro run_intro)
  show ?thesis
  proof (cases "mw_status m = ''Bounced''")
    case True
    with quietD [OF quiet_bounced] run show ?thesis by (simp add: process_outgoing_def)
  next
    case False
    from run [unfolded process_outgoing_def if_not_P [OF False]] show ?thesis
    proof (cases rule: andthenE)
      case (failed e)
      with quietD [OF quiet_statement(2) failed(1)] run show ?thesis by simp
    next
      case (next_step suppressed s1)
      note q = query_InrD [OF next_step(1)]
      show ?thesis
      proof (cases suppressed)
        case True
        from quietD [OF quiet_steps(4) next_step(2) [unfolded if_P [OF True]]] q run show ?thesis by simp
      next
        case unsuppressed: False
        from next_step(2) [unfolded if_not_P [OF unsuppressed]] show ?thesis
        proof (cases rule: andthenE)
          case (failed e)
          with send_outgoing_cases [OF failed(1)] q run show ?thesis by auto
        next
          case (next_step out s2)
          with send_outgoing_cases [OF next_step(1)] quietD [OF quiet_record_outcome next_step(2)] q run False unsuppressed
          show ?thesis by (auto simp: rightly_sent_def)
        qed
      qed
    qed
  qed
qed

lemma quiet_effects [run_intro]: "quiet (post_endpoint E h)" "quiet (dequeue_stmt E W)"
  by (auto simp: stays_def same_smtp_def post_endpoint_def dequeue_stmt_def split: prod.splits sum.splits)

lemma quiet_reports [run_intro]:
  "quiet (queue_retry E i n)" "quiet (record_delivery_stmt E m st d out)" "quiet (retry_or_fail E W q r)" "quiet (inspect E W m)"
  "quiet (ingest_dmarc_report E W q m)" "quiet (ingest_feedback_report E W q m)" "quiet (load_message E W q)"
  unfolding queue_retry_def record_delivery_stmt_def retry_or_fail_def inspect_def ingest_dmarc_report_def
    ingest_feedback_report_def record_feedback_complaint_def load_message_def
  by (intro run_intro)+

lemma quiet_incoming [run_intro]: "quiet (process_incoming E W q m)"
  unfolding process_incoming_def correlate_incoming_def route_incoming_def deliver_to_endpoint_def
  by (auto intro!: run_intro split: bounce_correlation.split http_result.split)

text \<open>C2. One turn of the worker hands at most one message to SMTP: the message of the row it took from the queue,
  an outgoing one that has not bounced, whose recipient was not suppressed for its server and stream when the worker
  looked, to the recipient of the message and from the return path of its server, with the stored bytes but for
  tracking, its token and a signature. Whatever others do between its statements, and whatever statement fails.\<close>

theorem outgoing_mail_checked:
  "wn_smtp (snd (process_next E W s)) = wn_smtp s
   \<or> (\<exists>q s1 m token s2 c. dequeue_stmt E W s = (Inr (Some q), s1) \<and> load_message E W q s1 = (Inr (Some (m, token)), s2)
        \<and> mw_scope m = ''outgoing'' \<and> wn_smtp (snd (process_next E W s)) = wn_smtp s @ [c]
        \<and> rightly_sent E W q m token (wv_between E (wn_count s2) (wn_db s2)) c)"
proof (cases "wn_smtp (snd (process_next E W s)) = wn_smtp s")
  case changed: False
  have quiet_missing: "quiet (andthen (queue_complete E i) (\<lambda>_. finish (Some MessageMissing)))" for i by (intro run_intro)
  obtain r s' where run: "process_next E W s = (r, s')" by fastforce
  from run [unfolded process_next_def] show ?thesis
  proof (cases rule: andthenE)
    case (failed e)
    with quietD [OF quiet_effects(2)] run changed show ?thesis by simp
  next
    case (next_step row s1)
    note dequeued = next_step(1) and q1 = quietD [OF quiet_effects(2) next_step(1)]
    then obtain q where q: "row = Some q" using next_step(2) run changed by (cases row) (simp_all add: finish_def)
    from next_step(2) [unfolded q option.case] show ?thesis
    proof (cases rule: andthenE)
      case (failed e)
      with quietD [OF quiet_reports(7) failed(1)] q1 run changed show ?thesis by simp
    next
      case (next_step loaded s2)
      note loading = next_step(1) and q2 = quietD [OF quiet_reports(7) next_step(1)]
      obtain m token where m: "loaded = Some (m, token)"
        using next_step(2) quietD [OF quiet_missing] q1 q2 run changed by (cases loaded) auto
      have "snd (andthen task (\<lambda>out. finish (Some out)) s2) = snd (task s2)" for task :: "process_outcome task"
        by (auto simp: andthen_def finish_def split: prod.splits sum.splits)
      with next_step(2) [unfolded m option.case prod.case] have last_step:
        "s' = snd ((if mw_scope m = ''outgoing'' then process_outgoing E W q m token else process_incoming E W q m) s2)"
        by (metis snd_conv)
      have out: "mw_scope m = ''outgoing''"
        using last_step quiet_incoming [of E W q m] q1 q2 run changed by (auto simp: stays_def same_smtp_def split: if_splits)
      with outgoing_calls [of E W q m token s2] last_step q1 q2 run changed
      obtain c where "wn_smtp s' = wn_smtp s @ [c]" "rightly_sent E W q m token (wv_between E (wn_count s2) (wn_db s2)) c" by auto
      then show ?thesis using dequeued q loading m out run by (intro disjI2 exI conjI) auto
    qed
  qed
qed simp

lemma statement_ok:
  "wv_error E (wn_count s) = None \<Longrightarrow> query E f s
     = (Inr (f (wv_between E (wn_count s) (wn_db s))), s\<lparr>wn_count := wn_count s + 1, wn_db := wv_between E (wn_count s) (wn_db s)\<rparr>)"
  by (simp add: query_def statement_def Let_def)

lemma andthen_Inr: "m s = (Inr a, s') \<Longrightarrow> andthen m k s = k a s'"
  by (simp add: andthen_def)

lemma record_outcome_ok: "(\<And>k. wv_error E k = None) \<Longrightarrow> \<exists>res s'. record_outcome E W q m out s = (Inr res, s')"
  by (auto simp: record_outcome_def record_outbound_def statement_def andthen_def finish_def Let_def
      split: send_outcome.split prod.split)

text \<open>A plain message is handed to SMTP when no statement fails.\<close>

lemma plain_mail_sent:
  assumes "\<And>k. wv_error E k = None" "mw_status m \<noteq> ''Bounced''"
    "\<not> address_suppressed (mw_server_id m) (mw_rcpt_to m) (mw_stream_id m) (wv_between E (wn_count s) (wn_db s))"
    "is_signed (wv_lc E) (mw_raw_message m) \<or> html_of (wv_lc E) (wv_base64 E) (mw_raw_message m) = None"
    "mw_domain_id m = None" "wk_return_path_domain W = None"
  obtains c out s' where "process_outgoing E W q m t s = (Inr out, s')" "wn_smtp s' = wn_smtp s @ [c]"
    "sl_raw c = add_message_token_header (mw_raw_message m) (mw_token m)"
proof -
  let ?s1 = "s\<lparr>wn_count := wn_count s + 1, wn_db := wv_between E (wn_count s) (wn_db s)\<rparr>"
  obtain ip s2 where ip: "caught (query E (source_ip_for (mw_server_id m) (mw_stream_id m))) ?s1 = (Inr ip, s2)"
    "wn_smtp s2 = wn_smtp s" by (simp add: statement_ok [OF assms(1)] caught_def)
  let ?raw = "add_message_token_header (mw_raw_message m) (mw_token m)"
  let ?ip = "Option.bind (case ip of Some i \<Rightarrow> i | None \<Rightarrow> None) (wv_ip_parse E)"
  obtain r s3 where smtp: "send_smtp E W (qr_domain q) (mw_mail_from m) (mw_rcpt_to m) ?raw ?ip s2 = (r, s3)" by fastforce
  then obtain out c where c: "r = Inr out" "wn_smtp s3 = wn_smtp s @ [c]" "sl_raw c = ?raw"
    using send_smtp_cases [OF smtp] ip(2) by auto
  have "apply_tracking E W m = finish (mw_raw_message m)"
    using assms(4) by (elim disjE) (simp_all add: apply_tracking_def Let_def)
  then have "send_outgoing E W q m t ?s1 = (r, s3)"
    using ip(1) smtp assms(5,6) by (simp add: send_outgoing_def signed_message_def return_path_for_def andthen_Inr finish_def)
  then have "process_outgoing E W q m t s = record_outcome E W q m out s3"
    using assms(2,3) c(1) by (simp add: process_outgoing_def andthen_Inr [OF statement_ok [OF assms(1)]] andthen_Inr)
  moreover obtain res s' where "record_outcome E W q m out s3 = (Inr res, s')" using record_outcome_ok [OF assms(1)] by blast
  moreover from this have "wn_smtp s' = wn_smtp s3" by (rule quietD [OF quiet_record_outcome])
  ultimately show thesis using that c by metis
qed

lemma demo_message_sent:
  obtains c out s' where "process_outgoing demo_worker_env demo_worker q (demo_message_row i ''outgoing'' ''Pending'' demo_raw) None
      (demo_worker_run (demo_mail_db ms rows)) = (Inr out, s')"
    "wn_smtp s' = [c]" "sl_raw c = add_message_token_header demo_raw ''abc''"
proof (rule plain_mail_sent [of demo_worker_env "demo_message_row i ''outgoing'' ''Pending'' demo_raw" "demo_worker_run (demo_mail_db ms rows)"
    demo_worker q None])
  fix c out s'
  assume "process_outgoing demo_worker_env demo_worker q (demo_message_row i ''outgoing'' ''Pending'' demo_raw) None
      (demo_worker_run (demo_mail_db ms rows)) = (Inr out, s')" "wn_smtp s' = wn_smtp (demo_worker_run (demo_mail_db ms rows)) @ [c]"
    "sl_raw c = add_message_token_header (mw_raw_message (demo_message_row i ''outgoing'' ''Pending'' demo_raw)) (mw_token (demo_message_row i ''outgoing'' ''Pending'' demo_raw))"
  then show thesis by (intro that) (simp_all add: demo_worker_run_def demo_message_row_def)
qed (simp_all add: demo_message_row_def demo_raw_plain demo_worker_run_def demo_mail_db_def address_suppressed_def demo_worker_def)

text \<open>C4. A message that bounced stays bounced: while a worker takes its turn (and others do what the transactions of
  a worker may do), the message keeps its content and its state, and no further result is recorded for it.\<close>

theorem bounced_stays_bounced:
  assumes "\<And>k db. bounces_kept db (wv_between E k db)" "mail_wf (wn_db s)" "r \<in> set (md_messages (wn_db s))" "has_bounced r"
  shows "(\<exists>r' \<in> set (md_messages (wn_db (snd (process_next E W s)))). same_content r r' \<and> has_bounced r')
    \<and> results_of (mw_id r) (wn_db (snd (process_next E W s))) = results_of (mw_id r) (wn_db s)"
proof -
  note kept = bounced.worker_keeps [of E s W, OF assms(1), unfolded bounces_kept_def, rule_format, OF assms(2)]
  have "mw_id r \<in> bounced_ids (wn_db s)" using assms(3,4) by (simp add: bounced_ids_def)
  with kept assms(3,4) show ?thesis by blast
qed

lemma demo_message_row_simps [simp]:
  "mw_token (demo_message_row i sc st raw) = ''abc''" "mw_server_id (demo_message_row i sc st raw) = 1"
  "mw_id (demo_message_row i sc st raw) = i" "mw_scope (demo_message_row i sc st raw) = sc" "mw_raw_message (demo_message_row i sc st raw) = raw"
  "mw_status (demo_message_row i sc st raw) = st" "mw_bounce (demo_message_row i sc st raw) = (sc = ''incoming'')"
  "mw_bounce_correlated_at (demo_message_row i sc st raw) = None"
  "md_messages (demo_mail_db ms rows) = ms" "md_domains (demo_mail_db ms rows) = []" "md_deliveries (demo_mail_db ms rows) = []"
  "qd_rows (md_queue (demo_mail_db ms rows)) = rows" "md_webhooks (demo_mail_db ms rows) = []"
  "wn_db (demo_worker_run db) = db" "wn_smtp (demo_worker_run db) = []"
  by (simp_all add: demo_message_row_def demo_mail_db_def demo_worker_run_def)

theorem bounced_stays_bounced_witness:
  "let r = demo_message_row 11 ''outgoing'' ''Bounced'' demo_raw;
       s = demo_worker_run (demo_mail_db [r] [demo_row 1 1 False]);
       db = wn_db (snd (process_next demo_worker_env demo_worker s))
   in (\<exists>r' \<in> set (md_messages db). same_content r r' \<and> has_bounced r') \<and> results_of 11 db = []"
proof -
  let ?r = "demo_message_row 11 ''outgoing'' ''Bounced'' demo_raw"
  let ?s = "demo_worker_run (demo_mail_db [?r] [demo_row 1 1 False])"
  have "mail_wf (wn_db ?s)" "?r \<in> set (md_messages (wn_db ?s))" "has_bounced ?r" "results_of 11 (wn_db ?s) = []"
    by (simp_all add: mail_wf_def has_bounced_def results_of_def)
  with bounced_stays_bounced [of demo_worker_env ?s ?r demo_worker] show ?thesis
    by (simp add: Let_def bounced.reflexive)
qed

end
