(* ===== verification/Bounce_Correlation.thy ===== *)
theory Bounce_Correlation
  imports Worker_Safety
begin

text \<open>
  From the message that was sent to the notification that comes back: the token the worker adds to a
  message leads a notification which returns it to that message, once.
\<close>

section \<open>The correlation of bounces\<close>

lemma collect_tokens_append: "collect_tokens acc (xs @ ys) = collect_tokens (collect_tokens acc xs) ys"
  by (induction acc xs rule: collect_tokens.induct) (auto split: option.splits)

lemma token_line_first:
  assumes "good_token tok" "original_message_tokens pre = []" "list_all (\<lambda>l. line_token l = None) hs"
    "split_on LF raw = hs @ (MESSAGE_TOKEN_HEADER @ '': '' @ tok @ [CR]) # rest"
  shows "prefix [tok] (collect_tokens [] (split_on LF pre @ split_on LF raw))"
  using assms collect_tokens_none [OF assms(3), of "[]"] token_line [OF assms(1)] collect_tokens_prefix [of "[tok]" rest]
  by (simp add: original_message_tokens_def collect_tokens_append)

lemma token_header_split:
  assumes "good_token tok"
  obtains rest where "split_on LF (add_message_token_header raw tok @ post)
    = (MESSAGE_TOKEN_HEADER @ '': '' @ tok @ [CR]) # rest"
proof -
  have "LF \<notin> set (MESSAGE_TOKEN_HEADER @ '': '' @ tok @ [CR])"
    using assms by (auto simp: good_token_def MESSAGE_TOKEN_HEADER_def list_all_iff ascii_eval)
  from split_on_append [OF this, of "drop_token_headers False (split_inclusive LF raw) @ post"] that show thesis
    by (simp add: add_message_token_header_def)
qed

definition dkim_names_ok :: "dkim_env \<Rightarrow> string \<Rightarrow> string \<Rightarrow> bool" where
  "dkim_names_ok D domain selector \<longleftrightarrow> base64_text (dk_base64 D) \<and> tag_token domain \<and> tag_token selector"

lemma dkim_sign_line:
  assumes "dkim_names_ok D domain selector"
  obtains v where "dkim_sign D raw domain selector key ts = ''DKIM-Signature:'' @ v" "text_line v"
proof -
  obtain hs body where sp: "split_message raw = (hs, body)" by fastforce
  define sel where "sel = selected_headers (List.map_filter (canonicalize_header (dk_lc D)) hs)"
  define bh where "bh = b64_encode (dk_base64 D) (dk_sha256 D (canonicalize_body body))"
  obtain sig where sig: "dkim_sign D raw domain selector key ts
      = ''DKIM-Signature:'' @ ('' '' @ unsigned_dkim domain selector ts (map fst sel) bh @ b64_encode (dk_base64 D) sig)"
    by (simp add: dkim_sign_def sp Let_def sel_def bh_def)
  have "set (map fst sel) \<subseteq> set SIGNED_HEADERS" unfolding sel_def selected_names by auto
  then have "text_line ('' '' @ unsigned_dkim domain selector ts (map fst sel) bh @ b64_encode (dk_base64 D) sig)"
    using assms unfolding unsigned_dkim_tags dkim_names_ok_def bh_def
    by (intro rendered_tags_text signature_tags_ok) (simp_all add: base64_token)
  with sig that show thesis by blast
qed

lemma dkim_line_no_token: "line_token (''DKIM-Signature:'' @ v @ [CR]) = None"
proof -
  have "chomp [CR] (''DKIM-Signature:'' @ v @ [CR]) = ''DKIM-Signature'' @ CHR '':'' # v"
    using chomp_simps(1) [of CR "''DKIM-Signature:'' @ v"] by simp
  moreover have "split_once (CHR '':'') (''DKIM-Signature'' @ CHR '':'' # v) = Some (''DKIM-Signature'', v)"
    by (rule split_once_first) simp
  moreover have "\<not> is_message_token_header ''DKIM-Signature''"
    by (simp add: is_message_token_header_def MESSAGE_TOKEN_HEADER_def POSTAL_MESSAGE_TOKEN_HEADER_def ascii_eval)
  ultimately show ?thesis by (simp only: line_token_def option.case prod.case if_True not_False_eq_True)
qed

text \<open>
  The signing domains and the selector can be written in a signature. The worker does not change them,
  so they stay so as long as the others see to it.
\<close>

definition domain_names_ok :: "worker_env \<Rightarrow> worker \<Rightarrow> mail_db \<Rightarrow> bool" where
  "domain_names_ok E W db \<longleftrightarrow> (\<forall>d \<in> set (md_domains db). dkim_names_ok (wv_dkim E) (dom_name d) (wk_dkim_selector W))"

definition names_kept :: "worker_env \<Rightarrow> worker \<Rightarrow> mail_db \<Rightarrow> mail_db \<Rightarrow> bool" where
  "names_kept E W a b \<longleftrightarrow> (domain_names_ok E W a \<longrightarrow> domain_names_ok E W b)"

lemma md_domains_simps [simp]:
  "md_domains (update_messages p f db) = md_domains db"
  "md_domains (snd (insert_delivery t i st d out tls db)) = md_domains db"
  "md_domains (enqueue_webhook_requests X t e pl now db) = md_domains db"
  "md_domains (queue_action i m t a now db) = md_domains db"
  "md_domains (write_feedback_complaint t stream address db) = md_domains db"
  by (simp_all add: update_messages_def insert_delivery_def enqueue_webhook_requests_def queue_action_def
      write_feedback_complaint_def Let_def split: option.split)

lemma link_bounce_domains [simp]: "md_domains (link_bounce X t i original cat pay now db) = md_domains db"
  by (simp add: link_bounce_def Let_def)

lemma record_domains [simp]:
  "md_domains (snd (record_delivery t i st d out tls cat now db)) = md_domains db"
  "md_domains (snd (record_outbound_delivery X t i qi st d out tls cat act ev pay now db)) = md_domains db"
  "md_domains (snd (record_unmatched_bounce t i qi category details now db)) = md_domains db"
  "md_domains (snd (correlate_bounce X t i tokens category mk now db)) = md_domains db"
proof -
  show "md_domains (snd (record_delivery t i st d out tls cat now db)) = md_domains db"
    by (rule record_delivery_cases [of t i st d out tls cat now db]) simp_all
  show "md_domains (snd (record_outbound_delivery X t i qi st d out tls cat act ev pay now db)) = md_domains db"
    by (rule record_outbound_cases [of X t i qi st d out tls cat act ev pay now db]) simp_all
  show "md_domains (snd (record_unmatched_bounce t i qi category details now db)) = md_domains db"
    by (simp add: record_unmatched_bounce_def insert_delivery_def update_messages_def Let_def)
  show "md_domains (snd (correlate_bounce X t i tokens category mk now db)) = md_domains db"
    by (simp add: correlate_bounce_def Let_def split: option.split)
qed

lemma mail_tx_domains: "mail_tx a b \<Longrightarrow> md_domains b = md_domains a"
proof (induction rule: mail_tx.induct)
  case (complaint db X t target c now)
  show ?case by (simp add: record_complaint_tx_def Let_def split: option.split)
qed (simp_all add: record_inspection_def create_link_def create_click_token_def create_open_token_def store_dmarc_report_def Let_def)

interpretation names: mail_guarantee "names_kept E W" for E W
proof unfold_locales
  fix a b
  assume "mail_tx a b"
  from mail_tx_domains [OF this] show "names_kept E W a b" by (simp add: names_kept_def domain_names_ok_def)
qed (simp_all add: names_kept_def)

text \<open>The token of a message is the first that a notification which returns it yields.\<close>

lemma sent_token_first:
  assumes "sent_for E W db m raw" "good_token (mw_token m)" "original_message_tokens pre = []"
    "domain_names_ok E W db"
  shows "prefix [mw_token m] (original_message_tokens (pre @ [LF] @ raw @ post))"
proof -
  let ?tl = "MESSAGE_TOKEN_HEADER @ '': '' @ mw_token m @ [CR]"
  obtain tracked where tr: "raw = add_message_token_header tracked (mw_token m)
      \<or> signed_with E W db (add_message_token_header tracked (mw_token m)) raw"
    using assms(1) by (auto simp: sent_for_def)
  obtain rest where rest: "split_on LF (add_message_token_header tracked (mw_token m) @ post) = ?tl # rest"
    using token_header_split [OF assms(2)] by blast
  have "\<exists>hs. list_all (\<lambda>l. line_token l = None) hs \<and> split_on LF (raw @ post) = hs @ ?tl # rest"
    using tr
  proof
    assume "signed_with E W db (add_message_token_header tracked (mw_token m)) raw"
    then obtain d key ts where d: "d \<in> set (md_domains db)"
      and raw: "raw = sign_and_prepend (wv_dkim E) (add_message_token_header tracked (mw_token m)) (dom_name d) (wk_dkim_selector W) key ts"
      by (auto simp: signed_with_def)
    obtain v where v: "dkim_sign (wv_dkim E) (add_message_token_header tracked (mw_token m)) (dom_name d) (wk_dkim_selector W) key ts
        = ''DKIM-Signature:'' @ v" "text_line v"
      using dkim_sign_line [OF bspec [OF assms(4) [unfolded domain_names_ok_def] d]] by blast
    have "LF \<notin> set (''DKIM-Signature:'' @ v @ [CR])" using text_line_no_breaks [OF v(2)] by simp
    from split_on_append [OF this, of "add_message_token_header tracked (mw_token m) @ post"] v(1) raw rest
    have "split_on LF (raw @ post) = [''DKIM-Signature:'' @ v @ [CR]] @ ?tl # rest"
      by (simp add: sign_and_prepend_def)
    moreover have "list_all (\<lambda>l. line_token l = None) [''DKIM-Signature:'' @ v @ [CR]]"
      using dkim_line_no_token [of v] by simp
    ultimately show ?thesis by blast
  qed (use rest in \<open>auto intro: exI [of _ "[]"]\<close>)
  then obtain hs where "list_all (\<lambda>l. line_token l = None) hs" "split_on LF (raw @ post) = hs @ ?tl # rest" by blast
  from token_line_first [OF assms(2,3) this] show ?thesis
    by (simp add: original_message_tokens_def split_on_cat)
qed

lemma first_by_min:
  assumes "first_by key xs = Some x"
  shows "x \<in> set xs" "\<forall>y \<in> set xs. key x \<le> key y"
proof -
  from assms obtain ys where ys: "sort_key key xs = x # ys" by (auto simp: first_by_def split: list.splits)
  then show "x \<in> set xs" by (metis list.set_intros(1) set_sort)
  have "sorted (map key (x # ys))" by (simp only: ys [symmetric] sorted_sort_key)
  moreover have "set xs = set (x # ys)" by (simp only: ys [symmetric] set_sort)
  ultimately show "\<forall>y \<in> set xs. key x \<le> key y" by auto
qed

lemma first_by_None: "first_by key xs = None \<longleftrightarrow> xs = []"
proof -
  have "sort_key key xs = [] \<longleftrightarrow> xs = []" by (metis length_0_conv length_sort)
  then show ?thesis by (auto simp: first_by_def split: list.split)
qed

lemma message_for_first_token:
  assumes "prefix [tok] tokens" "r0 \<in> set (md_messages db)" "mw_server_id r0 = t" "mw_scope r0 = ''outgoing''" "mw_token r0 = tok"
    "\<And>r. r \<in> set (md_messages db) \<Longrightarrow> mw_server_id r = t \<Longrightarrow> mw_scope r = ''outgoing'' \<Longrightarrow> mw_token r = tok \<Longrightarrow> r = r0"
  shows "message_for_tokens t tokens db = Some r0"
proof -
  let ?rows = "filter (\<lambda>r. mw_server_id r = t \<and> mw_token r \<in> set tokens \<and> mw_scope r = ''outgoing'') (md_messages db)"
  let ?key = "\<lambda>r. (array_position tokens (mw_token r), mw_id r)"
  from assms(1) obtain rest where tokens: "tokens = tok # rest" by (auto simp: prefix_def)
  have r0: "r0 \<in> set ?rows" using assms(2-5) tokens by simp
  then obtain x where x: "first_by ?key ?rows = Some x" using first_by_None [of ?key ?rows] by fastforce
  have "?key x \<le> ?key r0" using first_by_min(2) [OF x] r0 by blast
  then have "array_position tokens (mw_token x) = 0"
    using assms(5) tokens by (auto simp: array_position_def less_eq_prod_def)
  then have "mw_token x = tok" using tokens by (auto simp: array_position_def split: if_splits)
  with first_by_min(1) [OF x] assms(6) have "x = r0" by auto
  with x show ?thesis by (simp add: message_for_tokens_def)
qed

lemma wf_same_row: "mail_wf db \<Longrightarrow> r \<in> set (md_messages db) \<Longrightarrow> r' \<in> set (md_messages db) \<Longrightarrow> mw_id r = mw_id r' \<Longrightarrow> r = r'"
  by (auto simp: mail_wf_def distinct_map dest: inj_onD)

lemma find_notification:
  assumes "mail_wf db" "dsn \<in> set (md_messages db)" "is_notification t i dsn"
  shows "List.find (is_notification t i) (md_messages db) = Some dsn"
proof (cases "List.find (is_notification t i) (md_messages db)")
  case None
  with assms show ?thesis by (auto dest: find_NoneD)
next
  case (Some x)
  with find_SomeD [OF Some] wf_same_row [OF assms(1)] assms(2,3) show ?thesis
    by (auto simp: is_notification_def tenant_message_def)
qed

abbreviation mark_category :: "Id \<Rightarrow> nat \<Rightarrow> string \<Rightarrow> mail_db \<Rightarrow> mail_db" where
  "mark_category t i cat db \<equiv> update_messages (is_notification t i) (\<lambda>r. r\<lparr>mw_bounce_category := Some cat\<rparr>) db"

lemma outgoing_not_notification: "mw_scope r = ''outgoing'' \<Longrightarrow> \<not> is_notification t i r"
  by (simp add: is_notification_def)

lemma mark_category_outgoing:
  "mw_scope r = ''outgoing'' \<Longrightarrow> r \<in> set (md_messages (mark_category t i cat db)) \<longleftrightarrow> r \<in> set (md_messages db)"
  by (auto simp: outgoing_not_notification)

lemma correlate_bounce_links:
  assumes "mail_wf db" "dsn \<in> set (md_messages db)" "is_notification t i dsn" "mw_bounce_correlated_at dsn = None"
    "tokens \<noteq> []" "message_for_tokens t tokens (mark_category t i cat db) = Some original"
  shows "correlate_bounce X t i tokens cat mk now db
    = (Correlated original, link_bounce X t i original cat (mk original) now (mark_category t i cat db))"
  using assms by (simp add: correlate_bounce_def find_notification)

lemma md_messages_link_bounce:
  "md_messages (link_bounce X t i original cat pay now db)
   = map (\<lambda>r. if tenant_message t (mw_id original) r
              then r\<lparr>mw_status := ''Bounced'', mw_held := False, mw_bounce_category := Some cat, mw_last_delivery_attempt := Some now\<rparr>
              else r)
       (map (\<lambda>r. if is_notification t i r \<and> mw_bounce_correlated_at r = None
              then r\<lparr>mw_bounce_for_id := Some (mw_id original), mw_bounce_correlated_at := Some now,
                        mw_domain_id := mw_domain_id original, mw_status := ''Processed'', mw_held := False,
                        mw_last_delivery_attempt := Some now\<rparr>
              else r) (md_messages db))"
  by (simp add: link_bounce_def Let_def)

lemma link_bounce_original:
  assumes "r \<in> set (md_messages db)" "mw_scope r = ''outgoing''" "tenant_message t (mw_id original) r"
  shows "\<exists>r' \<in> set (md_messages (link_bounce X t i original cat pay now db)).
    mw_id r' = mw_id r \<and> has_bounced r' \<and> mw_bounce_category r' = Some cat"
proof -
  have "r\<lparr>mw_status := ''Bounced'', mw_held := False, mw_bounce_category := Some cat, mw_last_delivery_attempt := Some now\<rparr>
      \<in> set (md_messages (link_bounce X t i original cat pay now db))"
    unfolding md_messages_link_bounce set_map image_image
    using assms by (intro image_eqI [OF _ assms(1)]) (simp add: outgoing_not_notification)
  then show ?thesis using assms(2) by (intro bexI) (auto simp: has_bounced_def)
qed

lemma link_bounce_notification:
  assumes "n \<in> set (md_messages db)" "is_notification t i n" "mw_bounce_correlated_at n = None" "mw_id original \<noteq> mw_id n"
  shows "\<exists>n' \<in> set (md_messages (link_bounce X t i original cat pay now db)).
    mw_id n' = mw_id n \<and> is_notification t i n' \<and> mw_bounce_for_id n' = Some (mw_id original) \<and> mw_bounce_correlated_at n' = Some now"
proof -
  let ?n = "n\<lparr>mw_bounce_for_id := Some (mw_id original), mw_bounce_correlated_at := Some now, mw_domain_id := mw_domain_id original,
     mw_status := ''Processed'', mw_held := False, mw_last_delivery_attempt := Some now\<rparr>"
  have "?n \<in> set (md_messages (link_bounce X t i original cat pay now db))"
    unfolding md_messages_link_bounce set_map image_image
    using assms by (intro image_eqI [OF _ assms(1)]) (simp add: tenant_message_def)
  moreover have "is_notification t i ?n" using assms(2) by (simp add: is_notification_def tenant_message_def)
  ultimately show ?thesis by (intro bexI) simp_all
qed

text \<open>C3. A bounce finds its message: when a message was handed to SMTP and a notification of the same server returns
  what was sent, then correlating the notification finds that message, marks it as bounced with the category of the
  notification, and links the notification to it, even when the message was rewritten for tracking and signed.\<close>

theorem bounce_finds_message:
  assumes sent: "wn_smtp (snd (process_outgoing E W q m token s)) = wn_smtp s @ [c]"
    and names: "domain_names_ok E W (wv_between E (wn_count s) (wn_db s))" "\<And>k db. names_kept E W db (wv_between E k db)"
    and m: "good_token (mw_token m)" "mw_scope m = ''outgoing''"
    and wf: "mail_wf db" and m': "m' \<in> set (md_messages db)" "same_content m m'"
    and unique: "\<And>r. r \<in> set (md_messages db) \<Longrightarrow> mw_server_id r = mw_server_id m \<Longrightarrow> mw_token r = mw_token m
        \<Longrightarrow> mw_scope r = ''outgoing'' \<Longrightarrow> mw_id r = mw_id m"
    and dsn: "dsn \<in> set (md_messages db)" "is_notification (mw_server_id m) i dsn" "mw_bounce_correlated_at dsn = None"
    and raw: "mw_raw_message dsn = pre @ [LF] @ sl_raw c @ post" "original_message_tokens pre = []"
    and run: "correlate_bounce X (mw_server_id m) i (original_message_tokens (mw_raw_message dsn)) cat mk now db = (out, db')"
  shows "out = Correlated m'
    \<and> (\<exists>r \<in> set (md_messages db'). mw_id r = mw_id m \<and> has_bounced r \<and> mw_bounce_category r = Some cat)
    \<and> (\<exists>n \<in> set (md_messages db'). mw_id n = i \<and> mw_bounce_for_id n = Some (mw_id m) \<and> mw_bounce_correlated_at n = Some now)"
proof -
  let ?t = "mw_server_id m" and ?tokens = "original_message_tokens (mw_raw_message dsn)"
  let ?db1 = "mark_category (mw_server_id m) i cat db"
  have "rightly_sent E W q m token (wv_between E (wn_count s) (wn_db s)) c"
    using outgoing_calls [of E W q m token s] sent by auto
  then obtain db0 where db0: "(db_step E)\<^sup>*\<^sup>* (wv_between E (wn_count s) (wn_db s)) db0" "sent_for E W db0 m (sl_raw c)"
    by (auto simp: rightly_sent_def)
  have "domain_names_ok E W db0"
    using names.steps_keep [OF db0(1) names(2)] names(1) by (simp add: names_kept_def)
  then have first: "prefix [mw_token m] ?tokens"
    unfolding raw(1) by (rule sent_token_first [OF db0(2) m(1) raw(2)])
  have m1: "mw_server_id m' = ?t" "mw_scope m' = ''outgoing''" "mw_token m' = mw_token m" "mw_id m' = mw_id m"
    using m' m(2) by (simp_all add: same_content_def)
  have m1': "m' \<in> set (md_messages ?db1)" using m'(1) by (simp only: mark_category_outgoing [OF m1(2)])
  have same: "r = m'" if "r \<in> set (md_messages ?db1)" "mw_server_id r = ?t" "mw_scope r = ''outgoing''" "mw_token r = mw_token m" for r
  proof (rule wf_same_row [OF wf])
    show "r \<in> set (md_messages db)" using that(1) by (simp only: mark_category_outgoing [OF that(3)])
    then show "mw_id r = mw_id m'" using unique that(2-4) m1(4) by simp
  qed (rule m'(1))
  have found: "message_for_tokens ?t ?tokens ?db1 = Some m'"
    by (rule message_for_first_token [OF first m1' m1(1-3)]) (rule same)
  have nonempty: "?tokens \<noteq> []" using prefix_length_le [OF first] by (metis length_0_conv length_Cons not_less_eq_eq zero_le)
  from correlate_bounce_links [OF wf dsn nonempty found] run
  have r: "out = Correlated m'" "db' = link_bounce X ?t i m' cat (mk m') now ?db1" by simp_all
  have "dsn\<lparr>mw_bounce_category := Some cat\<rparr> \<in> set (md_messages ?db1)"
    using dsn(1,2) by (auto simp: image_iff)
  moreover have "mw_id m' \<noteq> mw_id dsn"
    using wf_same_row [OF wf m'(1) dsn(1)] m1(2) dsn(2) by (auto simp: is_notification_def)
  ultimately have "\<exists>n \<in> set (md_messages db'). mw_id n = mw_id dsn \<and> is_notification ?t i n
      \<and> mw_bounce_for_id n = Some (mw_id m') \<and> mw_bounce_correlated_at n = Some now"
    unfolding r(2) using link_bounce_notification [of "dsn\<lparr>mw_bounce_category := Some cat\<rparr>" ?db1 ?t i m'] dsn(2,3) by simp
  moreover have "\<exists>r \<in> set (md_messages db'). mw_id r = mw_id m' \<and> has_bounced r \<and> mw_bounce_category r = Some cat"
    unfolding r(2) using m1 by (intro link_bounce_original m1') (simp_all add: tenant_message_def)
  ultimately show ?thesis using r(1) m1(4) dsn(2) by (auto simp: is_notification_def tenant_message_def)
qed

theorem bounce_finds_message_witness:
  "let m = demo_message_row 11 ''outgoing'' ''Pending'' demo_raw;
       dsn = demo_message_row 12 ''incoming'' ''Pending'' (''returned:'' @ [LF] @ add_message_token_header demo_raw ''abc'' @ ''end'');
       r = correlate_bounce demo_outbox 1 12 (original_message_tokens (mw_raw_message dsn)) ''hard'' (\<lambda>_. JNull) 7 (demo_mail_db [m, dsn] [])
   in fst r = Correlated m \<and> (\<exists>x \<in> set (md_messages (snd r)). mw_id x = 11 \<and> has_bounced x)"
proof -
  let ?m = "demo_message_row 11 ''outgoing'' ''Pending'' demo_raw" and ?pre = "''returned:''" and ?post = "''end''"
  let ?dsn = "demo_message_row 12 ''incoming'' ''Pending'' (?pre @ [LF] @ add_message_token_header demo_raw ''abc'' @ ?post)"
  let ?db = "demo_mail_db [?m, ?dsn] []"
  let ?r = "correlate_bounce demo_outbox 1 12 (original_message_tokens (mw_raw_message ?dsn)) ''hard'' (\<lambda>_. JNull) 7 ?db"
  let ?s = "demo_worker_run (demo_mail_db [?m] [])"
  obtain c where c: "wn_smtp (snd (process_outgoing demo_worker_env demo_worker (demo_row 1 1 False) ?m None ?s)) = wn_smtp ?s @ [c]"
    "sl_raw c = add_message_token_header demo_raw ''abc''"
    using demo_message_sent [of "demo_row 1 1 False" 11 "[?m]" "[]"] by (metis append_Nil demo_message_row_simps(15) snd_conv)
  have "fst ?r = Correlated ?m \<and> (\<exists>x \<in> set (md_messages (snd ?r)). mw_id x = mw_id ?m \<and> has_bounced x \<and> mw_bounce_category x = Some ''hard'')
    \<and> (\<exists>n \<in> set (md_messages (snd ?r)). mw_id n = 12 \<and> mw_bounce_for_id n = Some (mw_id ?m) \<and> mw_bounce_correlated_at n = Some 7)"
  proof (rule bounce_finds_message [OF c(1), where dsn = ?dsn and db = ?db and pre = ?pre and post = ?post and X = demo_outbox and mk = "\<lambda>_. JNull"])
    show "original_message_tokens ?pre = []" by code_simp
    show "good_token (mw_token ?m)" by (simp add: good_token_def ascii_eval)
    show "domain_names_ok demo_worker_env demo_worker (wv_between demo_worker_env (wn_count ?s) (wn_db ?s))"
      by (simp add: domain_names_ok_def)
    show "names_kept demo_worker_env demo_worker db (wv_between demo_worker_env k db)" for k db by (simp add: names_kept_def)
  qed (auto simp: c(2) same_content_def mail_wf_def is_notification_def tenant_message_def)
  then show ?thesis by (simp add: Let_def) blast
qed

section \<open>A notification counts once\<close>

text \<open>C13. A notification counts once: after it was correlated, correlating it again (a second worker, a re-queued copy)
  records no delivery, enqueues no webhook request and changes no message's bounced state.\<close>

theorem notification_correlated_once:
  assumes "mail_wf db" "correlate_bounce X t i tokens cat mk now db = (Correlated r, db')"
  shows "\<exists>db''. correlate_bounce X' t i tokens' cat' mk' now' db' = (AlreadyCorrelated, db'')
    \<and> md_deliveries db'' = md_deliveries db' \<and> md_requests db'' = md_requests db' \<and> bounced_ids db'' = bounced_ids db'"
proof -
  let ?db1 = "mark_category t i cat db"
  from assms(2) obtain n where n: "List.find (is_notification t i) (md_messages db) = Some n" "mw_bounce_correlated_at n = None"
    and r: "message_for_tokens t tokens ?db1 = Some r" "db' = link_bounce X t i r cat (mk r) now ?db1"
    by (auto simp: correlate_bounce_def Let_def split: option.splits if_splits)
  note nn = find_SomeD [OF n(1)]
  note wf = bounces_keptD(1) [OF bounces_kept_correlate assms(1), of X t i tokens cat mk now, unfolded assms(2) snd_conv]
  have "n\<lparr>mw_bounce_category := Some cat\<rparr> \<in> set (md_messages ?db1)" using nn by (auto simp: image_iff)
  moreover have "mw_id r \<noteq> mw_id n"
  proof -
    have "r \<in> set (md_messages db)" "mw_scope r = ''outgoing''"
      using message_for_tokens_SomeD [OF r(1)] mark_category_outgoing by blast+
    then show ?thesis using wf_same_row [OF assms(1), of r n] nn by (auto simp: is_notification_def)
  qed
  ultimately obtain n' where n': "n' \<in> set (md_messages db')" "is_notification t i n'" "mw_bounce_correlated_at n' = Some now"
    using link_bounce_notification [of "n\<lparr>mw_bounce_category := Some cat\<rparr>" ?db1 t i r] nn n(2) r(2) by fastforce
  let ?f = "\<lambda>r. r\<lparr>mw_status := ''Processed'', mw_held := False\<rparr>"
  have "r' = n'" if "r' \<in> set (md_messages db')" "tenant_message t i r'" for r'
    using that n' wf_same_row [OF wf, of r' n'] by (auto simp: is_notification_def tenant_message_def)
  then have "bounced_ids (update_messages (tenant_message t i) ?f db') = bounced_ids db'"
    using n'(2) by (auto simp: bounced_ids_def has_bounced_def is_notification_def image_iff)
  then show ?thesis
    using find_notification [OF wf n'(1,2)] n'(3) by (simp add: correlate_bounce_def)
qed

theorem notification_correlated_once_witness:
  "let db = demo_mail_db [demo_message_row 11 ''outgoing'' ''Sent'' demo_raw, demo_message_row 12 ''incoming'' ''Pending'' demo_raw] [];
       db1 = snd (correlate_bounce demo_outbox 1 12 [''abc''] ''hard'' (\<lambda>_. JNull) 7 db)
   in \<exists>db2. correlate_bounce demo_outbox 1 12 [''abc''] ''soft'' (\<lambda>_. JNull) 8 db1 = (AlreadyCorrelated, db2)
        \<and> md_deliveries db2 = md_deliveries db1 \<and> length (md_deliveries db1) = 2"
proof -
  let ?m = "demo_message_row 11 ''outgoing'' ''Sent'' demo_raw"
  let ?db = "demo_mail_db [?m, demo_message_row 12 ''incoming'' ''Pending'' demo_raw] []"
  let ?r = "correlate_bounce demo_outbox 1 12 [''abc''] ''hard'' (\<lambda>_. JNull) 7 ?db"
  have "fst ?r = Correlated ?m" "length (md_deliveries (snd ?r)) = 2" "mail_wf ?db" by code_simp+
  with notification_correlated_once [of ?db demo_outbox 1 12 "[''abc'']" "''hard''" "\<lambda>_. JNull" 7 ?m "snd ?r"
      demo_outbox "[''abc'']" "''soft''" "\<lambda>_. JNull" 8]
  show ?thesis by (auto simp: Let_def prod_eq_iff)
qed

section \<open>Results and their webhook requests\<close>

definition requests_for :: "outbox_env \<Rightarrow> Id \<Rightarrow> string \<Rightarrow> json \<Rightarrow> instant \<Rightarrow> webhook \<Rightarrow> webhook_row \<Rightarrow> bool" where
  "requests_for X t event payload now w r \<longleftrightarrow>
     wr_server_id r = t \<and> wr_webhook_id r = wh_id w \<and> wr_event r = event \<and> wr_url r = wh_url w \<and> wr_sign r = wh_sign w
     \<and> wr_headers r = wh_headers w \<and> wr_payload r = request_body X event payload now (wr_uuid r)
     \<and> lr_attempts r = 0 \<and> lr_locked_by r = None"

lemma enqueue_requests_exact:
  "\<exists>rows. ws_requests (md_requests (enqueue_webhook_requests X t event payload now db)) = ws_requests (md_requests db) @ rows
     \<and> list_all2 (requests_for X t event payload now) (subscribed t event db) rows"
proof -
  let ?step = "\<lambda>w st. let uuid = ob_uuid X (ws_next_id st) in
     snd (enqueue_webhook t (wh_id w) uuid event (wh_url w) (request_body X event payload now uuid) (wh_sign w) (wh_headers w) st)"
  have "\<exists>rows. ws_requests (fold ?step ws st) = ws_requests st @ rows \<and> list_all2 (requests_for X t event payload now) ws rows" for ws st
  proof (induction ws arbitrary: st)
    case (Cons w ws)
    obtain rows where rows: "ws_requests (fold ?step ws (?step w st)) = ws_requests (?step w st) @ rows"
      "list_all2 (requests_for X t event payload now) ws rows" using Cons by blast
    obtain row where "ws_requests (?step w st) = ws_requests st @ [row]" "requests_for X t event payload now w row"
      by (simp add: enqueue_webhook_def Let_def requests_for_def)
    with rows show ?case by (intro exI [of _ "row # rows"]) simp
  qed simp
  then show ?thesis by (simp add: enqueue_webhook_requests_def)
qed

end
