(* ===== verification/Worker_Progress.thy ===== *)
theory Worker_Progress
  imports Bounce_Correlation
begin

text \<open>
  What a turn of the worker leaves behind: the result of an outgoing message is one transaction, its queue
  row is removed or rescheduled, and the attempts to deliver it are bounded.
\<close>

section \<open>Results are recorded as a whole\<close>

text \<open>C6. The result of a delivery is recorded as a whole: the state of the message, one delivery, the queue row (removed or
  rescheduled) and one webhook request for each subscription to the event; or, when the message has bounced in
  the meantime, nothing but the removal of the row.\<close>

theorem outbound_result_atomic:
  assumes "mail_wf db" "m \<in> set (md_messages db)" "mw_id m = i" "mw_server_id m = t" "mw_scope m = ''outgoing''"
    "record_outbound_delivery X t i qi status details output tls cat action event payload now db = (out, db')"
  shows "if mw_status m = ''Bounced'' then
           out = None \<and> db' = db\<lparr>md_queue := complete_message qi (Some (i, t)) (md_queue db)\<rparr>
         else
           set_result status cat now m \<in> set (md_messages db')
           \<and> (\<exists>d. md_deliveries db' = md_deliveries db @ [d] \<and> dl_message_id d = i \<and> dl_server_id d = t \<and> dl_status d = status
                \<and> out = Some (dl_id d))
           \<and> md_queue db' = (case action of CompleteRow \<Rightarrow> complete_message qi (Some (i, t)) (md_queue db)
                              | RetryRow a \<Rightarrow> retry_message qi a (Some (i, t)) now (md_queue db))
           \<and> (\<exists>rows. ws_requests (md_requests db') = ws_requests (md_requests db) @ rows
                \<and> list_all2 (requests_for X t event payload now) (subscribed t event db) rows)"
proof -
  have only: "r = m" if "r \<in> set (md_messages db)" "tenant_message t i r" for r
  proof (rule wf_same_row [OF assms(1) that(1) assms(2)])
    show "mw_id r = mw_id m" using that(2) assms(3) unfolding tenant_message_def by simp
  qed
  have self: "tenant_message t i m" using assms(3,4) by (simp add: tenant_message_def)
  have iff: "list_ex (open_outgoing t i) (md_messages db) \<longleftrightarrow> mw_status m \<noteq> ''Bounced''"
  proof
    assume "list_ex (open_outgoing t i) (md_messages db)"
    then obtain r where "r \<in> set (md_messages db)" "open_outgoing t i r" unfolding list_ex_iff by blast
    then show "mw_status m \<noteq> ''Bounced''" using only [of r] by simp
  next
    assume "mw_status m \<noteq> ''Bounced''"
    then show "list_ex (open_outgoing t i) (md_messages db)" unfolding list_ex_iff using assms(2,5) self by blast
  qed
  show ?thesis
  proof (cases "mw_status m = ''Bounced''")
    case True
    with iff assms(6) show ?thesis by (auto simp: record_outbound_delivery_def queue_action_def)
  next
    case False
    let ?b = "snd (insert_delivery t i status details output tls (update_messages (open_outgoing t i) (set_result status cat now) db))"
    let ?q = "queue_action qi i t action now ?b"
    from False iff assms(6) have r: "out = Some (md_next_delivery_id db)" "db' = enqueue_webhook_requests X t event payload now ?q"
      by (auto simp: record_outbound_delivery_def insert_delivery_def Let_def update_messages_def)
    have "set_result status cat now m \<in> set (md_messages db')"
      using False assms(2-5) by (auto simp: r(2) tenant_message_def image_iff intro!: bexI [of _ m])
    moreover have "md_queue db' = (case action of CompleteRow \<Rightarrow> complete_message qi (Some (i, t)) (md_queue db)
        | RetryRow a \<Rightarrow> retry_message qi a (Some (i, t)) now (md_queue db))"
      unfolding r(2) by (simp add: queue_action_def cong: outbound_queue_action.case_cong)
    moreover have "subscribed t event ?q = subscribed t event db" "md_requests ?q = md_requests db" by (simp_all add: subscribed_def)
    ultimately show ?thesis
      using False enqueue_requests_exact [of X t event payload now ?q] by (auto simp: r insert_delivery_def Let_def update_messages_def)
  qed
qed

theorem outbound_result_atomic_witness:
  "let m = demo_message_row 11 ''outgoing'' ''Pending'' demo_raw;
       r = record_outbound_delivery demo_outbox 1 11 1 ''Sent'' ''ok'' ''250 ok'' True None CompleteRow ''MessageSent'' JNull 7
             (demo_mail_db [m] [demo_row 1 1 False])
   in set_result ''Sent'' None 7 m \<in> set (md_messages (snd r)) \<and> qd_rows (md_queue (snd r)) = []"
proof -
  let ?m = "demo_message_row 11 ''outgoing'' ''Pending'' demo_raw"
  let ?db = "demo_mail_db [?m] [demo_row 1 1 False]"
  have row: "qd_rows (complete_message 1 (Some (11, 1)) (md_queue ?db)) = []" by code_simp
  from outbound_result_atomic [of ?db ?m 11 1 demo_outbox 1 "''Sent''" "''ok''" "''250 ok''" True None CompleteRow "''MessageSent''" JNull 7
      "fst (record_outbound_delivery demo_outbox 1 11 1 ''Sent'' ''ok'' ''250 ok'' True None CompleteRow ''MessageSent'' JNull 7 ?db)"
      "snd (record_outbound_delivery demo_outbox 1 11 1 ''Sent'' ''ok'' ''250 ok'' True None CompleteRow ''MessageSent'' JNull 7 ?db)"]
  show ?thesis using row by (simp add: Let_def mail_wf_def)
qed

section \<open>Every row is settled\<close>

definition rows_of :: "nat \<Rightarrow> mail_db \<Rightarrow> queued_row list" where
  "rows_of i db = filter (\<lambda>r. lr_id r = i) (qd_rows (md_queue db))"

definition same_row :: "nat \<Rightarrow> worker_run \<Rightarrow> worker_run \<Rightarrow> bool" where
  "same_row i s s' \<longleftrightarrow> rows_of i (wn_db s') = rows_of i (wn_db s)"

definition leaves_row :: "worker_env \<Rightarrow> nat \<Rightarrow> bool" where
  "leaves_row E i \<longleftrightarrow> (\<forall>k db. rows_of i (wv_between E k db) = rows_of i db)"

interpretation row: run_relation "same_row i" for i
  by unfold_locales (auto simp: same_row_def)

lemma keeps_row_statement [run_intro]:
  "leaves_row E i \<Longrightarrow> (\<And>now db. md_queue (snd (f now db)) = md_queue db) \<Longrightarrow> stays (same_row i) (statement E f)"
  by (auto simp: stays_def same_row_def leaves_row_def rows_of_def statement_def Let_def split: prod.splits option.splits)
     (metis snd_conv)+

lemma keeps_row_query [run_intro]: "leaves_row E i \<Longrightarrow> stays (same_row i) (query E f)"
  unfolding query_def by (intro run_intro) simp_all

lemma keeps_row_send [run_intro]: "stays (same_row i) (send_smtp E W d p rc raw ip)"
  by (auto simp: stays_def same_row_def send_smtp_def split: sum.splits)

lemma keeps_row_clicks [run_intro]: "leaves_row E i \<Longrightarrow> stays (same_row i) (click_tokens E m urls)"
  by (induction urls) (auto intro!: run_intro simp: create_link_def create_click_token_def Let_def)

lemma keeps_row_outgoing [run_intro]:
  assumes "leaves_row E i"
  shows "stays (same_row i) (send_outgoing E W q m t)"
  unfolding send_outgoing_def apply_tracking_def signed_message_def
  by (intro run_intro assms) (simp add: create_open_token_def)

lemma statement_InrD:
  "statement E f s = (Inr a, s') \<Longrightarrow> f (wv_now E (wn_count s)) (wv_between E (wn_count s) (wn_db s)) = (a, wn_db s')"
  by (auto simp: statement_def Let_def split: prod.splits option.splits)

lemma rows_complete: "rows_of i (db\<lparr>md_queue := complete_message i o' (md_queue db)\<rparr>) = filter (\<lambda>r. \<not> is_owner o' r) (rows_of i db)"
  by (auto simp: rows_of_def complete_message_def intro: filter_cong)

lemma rows_retry: "rows_of i (db\<lparr>md_queue := retry_message i a o' now (md_queue db)\<rparr>)
    = map (\<lambda>r. if is_owner o' r then reschedule a now r else r) (rows_of i db)"
proof -
  have "filter (\<lambda>r. lr_id r = i) (map (\<lambda>r. if lr_id r = i \<and> is_owner o' r then reschedule a now r else r) rows)
      = map (\<lambda>r. if is_owner o' r then reschedule a now r else r) (filter (\<lambda>r. lr_id r = i) rows)" for rows :: "queued_row list"
    by (induction rows) (auto simp: reschedule_def)
  then show ?thesis by (simp add: rows_of_def retry_message_def)
qed

text \<open>How a processed row ends.\<close>

definition settled :: "int \<Rightarrow> queued_row \<Rightarrow> process_outcome \<Rightarrow> mail_db \<Rightarrow> bool" where
  "settled max_attempts q out db \<longleftrightarrow>
     rows_of (lr_id q) db = [] \<and> (\<forall>response. out \<noteq> Delayed response)
     \<or> (\<exists>response now. out = Delayed response \<and> lr_attempts q + 1 < max_attempts
          \<and> rows_of (lr_id q) db = [reschedule (lr_attempts q) now q])"

lemma record_outbound_settles:
  assumes "leaves_row E (lr_id q)" "rows_of (lr_id q) (wn_db s) = [q]" "qr_message_id q = mw_id m" "qr_server_id q = mw_server_id m"
    "record_outbound E q m st d output tls cat act ev pay res s = (Inr out, s')"
    "act = CompleteRow \<and> (\<forall>r. res \<noteq> Delayed r) \<or> act = RetryRow (lr_attempts q) \<and> (\<exists>r. res = Delayed r) \<and> lr_attempts q + 1 < mx"
  shows "settled mx q out (wn_db s')"
proof -
  let ?db = "wv_between E (wn_count s) (wn_db s)" and ?o = "Some (mw_id m, mw_server_id m)"
  from assms(5) obtain rec where rec: "record_outbound_delivery (wv_outbox E) (mw_server_id m) (mw_id m) (lr_id q) st d output
      tls cat act ev pay (wv_now E (wn_count s)) ?db = (rec, wn_db s')" "out = (if rec \<noteq> None then res else AlreadyBounced)"
    unfolding record_outbound_def by (elim andthen_InrE) (auto dest!: statement_InrD simp: finish_def)
  have q: "rows_of (lr_id q) ?db = [q]" "is_owner ?o q" using assms(1-4) by (simp_all add: leaves_row_def is_owner_def)
  have act: "rows_of (lr_id q) (queue_action (lr_id q) (mw_id m) (mw_server_id m) a now db')
      = (case a of CompleteRow \<Rightarrow> [] | RetryRow n \<Rightarrow> [reschedule n now q])" if "md_queue db' = md_queue ?db" for a now db'
  proof -
    have "rows_of (lr_id q) db' = [q]" using that q(1) by (simp add: rows_of_def)
    with q(2) show ?thesis by (cases a) (simp_all add: queue_action_def rows_complete rows_retry)
  qed
  have outbox: "rows_of j (enqueue_webhook_requests X t e p now b) = rows_of j b" for j X t e p now b by (simp add: rows_of_def)
  show ?thesis
  proof (cases rec)
    case None
    then have "wn_db s' = queue_action (lr_id q) (mw_id m) (mw_server_id m) CompleteRow (wv_now E (wn_count s)) ?db"
      using rec(1) by (auto simp: record_outbound_delivery_def Let_def split: if_splits prod.splits)
    with None rec(2) act [of ?db CompleteRow] show ?thesis by (simp add: settled_def)
  next
    case (Some n)
    let ?b = "snd (insert_delivery (mw_server_id m) (mw_id m) st d output tls
        (update_messages (open_outgoing (mw_server_id m) (mw_id m)) (set_result st cat (wv_now E (wn_count s))) ?db))"
    from Some rec(1) have "wn_db s' = enqueue_webhook_requests (wv_outbox E) (mw_server_id m) ev pay
        (wv_now E (wn_count s)) (queue_action (lr_id q) (mw_id m) (mw_server_id m) act (wv_now E (wn_count s)) ?b)"
      by (auto simp: record_outbound_delivery_def insert_delivery_def update_messages_def Let_def split: if_splits)
    moreover have "md_queue ?b = md_queue ?db" by (simp only: insert_delivery_simps md_messages_update)
    moreover note act [of ?b act]
    ultimately show ?thesis using Some rec(2) assms(6) by (auto simp: settled_def outbox)
  qed
qed

lemma settledI:
  "rows_of (lr_id q) db = [] \<Longrightarrow> (\<And>response. out \<noteq> Delayed response) \<Longrightarrow> settled mx q out db"
  by (simp add: settled_def)

lemma same_rowD: "stays (same_row i) m \<Longrightarrow> m s = (r, s') \<Longrightarrow> rows_of i (wn_db s') = rows_of i (wn_db s)"
  by (auto simp: stays_def same_row_def dest: spec [of _ s])

lemma bounced_settles:
  assumes "leaves_row E (lr_id q)" "rows_of (lr_id q) (wn_db s) = [q]"
    "andthen (queue_complete E (lr_id q)) (\<lambda>_. finish AlreadyBounced) s = (Inr out, s')"
  shows "settled mx q out (wn_db s')"
proof -
  let ?db = "wv_between E (wn_count s) (wn_db s)"
  from assms(3) have "out = AlreadyBounced" "wn_db s' = ?db\<lparr>md_queue := complete (lr_id q) (md_queue ?db)\<rparr>"
    by (auto elim!: andthen_InrE dest!: statement_InrD simp: queue_complete_def change_def finish_def)
  then show ?thesis
    by (intro settledI) (simp_all add: complete_def rows_complete is_owner_def)
qed

lemma record_outcome_settles:
  assumes "leaves_row E (lr_id q)" "rows_of (lr_id q) (wn_db s) = [q]" "qr_message_id q = mw_id m" "qr_server_id q = mw_server_id m"
    "record_outcome E W q m result s = (Inr out, s')"
  shows "settled (wk_max_attempts W) q out (wn_db s')"
proof (cases result)
  case (Sent response tls)
  from assms(5) [unfolded record_outcome_def Sent Let_def send_outcome.case] show ?thesis
    by (rule record_outbound_settles [OF assms(1-4)]) simp
next
  case (SoftFail response)
  show ?thesis
  proof (cases "lr_attempts q + 1 \<ge> wk_max_attempts W")
    case True
    from assms(5) [unfolded record_outcome_def SoftFail Let_def send_outcome.case if_P [OF True]] show ?thesis
      by (rule record_outbound_settles [OF assms(1-4)]) simp
  next
    case False
    from assms(5) [unfolded record_outcome_def SoftFail Let_def send_outcome.case if_not_P [OF False]] show ?thesis
      by (rule record_outbound_settles [OF assms(1-4)]) (use False in simp)
  qed
next
  case (HardFail response)
  from assms(5) [unfolded record_outcome_def HardFail Let_def send_outcome.case] show ?thesis
    by (rule record_outbound_settles [OF assms(1-4)]) simp
qed

lemma process_outgoing_settles:
  assumes "leaves_row E (lr_id q)" "rows_of (lr_id q) (wn_db s) = [q]" "qr_message_id q = mw_id m" "qr_server_id q = mw_server_id m"
    "process_outgoing E W q m t s = (Inr out, s')"
  shows "settled (wk_max_attempts W) q out (wn_db s')"
proof (cases "mw_status m = ''Bounced''")
  case True
  from assms(5) [unfolded process_outgoing_def if_P [OF True]] show ?thesis by (rule bounced_settles [OF assms(1,2)])
next
  case False
  from assms(5) [unfolded process_outgoing_def if_not_P [OF False]]
  obtain suppressed s1 where sup: "query E (address_suppressed (mw_server_id m) (mw_rcpt_to m) (mw_stream_id m)) s = (Inr suppressed, s1)"
    and rest: "(if suppressed then
          record_outbound E q m ''Held'' ''recipient is on the suppression list'' [] False None CompleteRow ''MessageHeld''
            (message_payload m ''recipient is on the suppression list'') Held
        else andthen (send_outgoing E W q m t) (record_outcome E W q m)) s1 = (Inr out, s')"
    by (elim andthen_InrE)
  have row: "rows_of (lr_id q) (wn_db s1) = [q]"
    using same_rowD [OF keeps_row_query [OF assms(1)] sup] assms(2) by simp
  show ?thesis
  proof (cases suppressed)
    case True
    from rest [unfolded if_P [OF True]] show ?thesis
      by (rule record_outbound_settles [OF assms(1) row assms(3,4)]) simp
  next
    case False
    from rest [unfolded if_not_P [OF False]] obtain result s2
      where "send_outgoing E W q m t s1 = (Inr result, s2)" and rec: "record_outcome E W q m result s2 = (Inr out, s')"
      by (elim andthen_InrE)
    then have "rows_of (lr_id q) (wn_db s2) = [q]"
      using same_rowD [OF keeps_row_outgoing [OF assms(1)]] row by simp
    from record_outcome_settles [OF assms(1) this assms(3,4) rec] show ?thesis .
  qed
qed

text \<open>
  The attempts to deliver the message of a queue row, one after the other, by any workers with the same
  limit; between them the row is locked and unlocked, its number of attempts is not changed.
\<close>

inductive delivery_attempts :: "int \<Rightarrow> nat \<Rightarrow> nat \<Rightarrow> mail_db \<Rightarrow> mail_db \<Rightarrow> bool" for mx i where
  none: "delivery_attempts mx i 0 db db"
| attempt: "delivery_attempts mx i n db (wn_db s) \<Longrightarrow> rows_of i (wn_db s) = [q] \<Longrightarrow>
    qr_message_id q = mw_id m \<Longrightarrow> qr_server_id q = mw_server_id m \<Longrightarrow> leaves_row E i \<Longrightarrow> wk_max_attempts W = mx \<Longrightarrow>
    process_outgoing E W q m t s = (Inr out, s') \<Longrightarrow>
    map lr_attempts (rows_of i db') = map lr_attempts (rows_of i (wn_db s')) \<Longrightarrow>
    delivery_attempts mx i (Suc n) db db'"

lemma rows_of_id: "rows_of i db = [q] \<Longrightarrow> lr_id q = i"
  by (auto simp: rows_of_def filter_eq_Cons_iff)

lemma attempts_counted:
  "delivery_attempts mx i n db db' \<Longrightarrow> rows_of i db = [q] \<Longrightarrow>
   (rows_of i db' = [] \<or> (\<exists>q'. rows_of i db' = [q'] \<and> lr_attempts q' = lr_attempts q + int n \<and> (n > 0 \<longrightarrow> lr_attempts q' < mx)))
   \<and> int n \<le> max 1 (mx - lr_attempts q)"
proof (induction rule: delivery_attempts.induct)
  case (attempt n db s q1 m E W t out s' db')
  from attempt.IH [OF attempt.prems] attempt.hyps(2) have
    n: "lr_attempts q1 = lr_attempts q + int n" "n > 0 \<longrightarrow> lr_attempts q1 < mx" by auto
  note i = rows_of_id [OF attempt.hyps(2)]
  have "settled mx q1 out (wn_db s')"
    using process_outgoing_settles [of E q1 s m W t out s'] attempt.hyps i by simp
  then show ?case
    unfolding settled_def i
  proof (elim disjE conjE exE)
    assume "rows_of i (wn_db s') = []"
    then show ?thesis using attempt.hyps(8) n by auto
  next
    fix response now
    assume "lr_attempts q1 + 1 < mx" "rows_of i (wn_db s') = [reschedule (lr_attempts q1) now q1]"
    then show ?thesis using attempt.hyps(8) n by (auto simp: reschedule_def)
  qed
qed simp

text \<open>C5. The delivery of a message ends: however often it is tried, each attempt that is recorded either removes the
  queue row, or reschedules it with one more attempt counted while attempts are left; there are never more
  attempts than the limit leaves, and never less than one.\<close>

theorem delivery_attempts_bounded:
  assumes "delivery_attempts mx i n db db'" "rows_of i db = [q]"
  shows "int n \<le> max 1 (mx - lr_attempts q)
    \<and> (rows_of i db' = []
       \<or> (\<exists>q'. rows_of i db' = [q'] \<and> lr_attempts q' = lr_attempts q + int n \<and> (0 < n \<longrightarrow> lr_attempts q' < mx)))"
  using attempts_counted [OF assms] by auto

theorem delivery_attempts_bounded_witness:
  "\<exists>db'. delivery_attempts 3 1 1 (demo_mail_db [] [demo_row 1 1 False]) db'
     \<and> (rows_of 1 db' = [] \<or> (\<exists>q'. rows_of 1 db' = [q'] \<and> lr_attempts q' = 1))"
proof -
  let ?m = "demo_message_row 11 ''outgoing'' ''Pending'' demo_raw" and ?q = "demo_row 1 1 False"
  let ?db = "demo_mail_db [] [?q]"
  obtain out s' where "process_outgoing demo_worker_env demo_worker ?q ?m None (demo_worker_run ?db) = (Inr out, s')"
    using demo_message_sent [of ?q 11 "[]" "[?q]"] by blast
  moreover have row: "rows_of 1 ?db = [?q]" by (simp add: rows_of_def)
  ultimately have "delivery_attempts 3 1 1 ?db (wn_db s')"
    using delivery_attempts.attempt [OF delivery_attempts.none [of 3 1 "wn_db (demo_worker_run ?db)"], of ?q ?m demo_worker_env demo_worker None out s' "wn_db s'"]
    by (simp add: demo_row_def leaves_row_def demo_worker_def)
  with delivery_attempts_bounded [OF this row] show ?thesis by (auto simp: demo_row_def)
qed

end
