(* ===== verification/Spec2Isabelle.thy ===== *)
theory Spec2Isabelle
  imports Retention Smtp_Delivery Smtp_Encoding Spf Template Smtp_Client_Safety Ssrf Sender
    Delivery_Queue Lifecycle Tracking Membership_Safety Worker_Progress
begin

text \<open>
  Camelmailer is a multi-tenant mail platform. Mail enters through SMTP (crate
  \<open>camelmailer-smtp\<close>) or the HTTP API (\<open>camelmailer-api\<close>), is attributed to a tenant
  (an organization with its servers, domains, routes and credentials), is checked
  against send limits and stored as messages; a worker (\<open>camelmailer-worker\<close>)
  delivers them. The rules that decide all this live in \<open>camelmailer-core\<close>, behind
  two traits: \<open>Store\<close> (look-ups of the tenant data) and \<open>MessageSink\<close> (the
  transactional intake). People sign in through the account API and manage their
  organizations through the administration API, over the trait \<open>AuthStore\<close>. This
  development models those rules, the complete SMTP session, the queues, the delivery
  worker with the transactions it commits, and the account and membership handlers, and
  proves what a tenant and an operator rely on.

  \<^bold>\<open>Conventions.\<close> A Rust \<open>String\<close> or byte vector is a \<open>string\<close> of bytes; UTF-8 validity
  is the predicate \<open>utf8_valid\<close>, and a slice inside a character is the panic value
  \<open>Inl CharBoundary\<close> of the result type of \<open>Prelude\<close>. \<open>expect\<close> on a missing value is
  the panic \<open>Inl ExpectFailed\<close>. \<open>i64\<close> arithmetic is \<open>int\<close> with \<open>wrap_i64\<close> where the
  code can overflow; a hash map whose order is not observed is a map or an
  association list keyed by id. Time is \<open>int\<close> nanoseconds, supplied by the caller.
  Code of other packages (SHA-256, HMAC-MD5, base64, IDNA, the calendar of the time
  library, IP address parsing, Unicode case mapping, DNS) is an argument of the
  definitions that call it, gathered in the records \<open>store_env\<close>, \<open>smtp_env\<close>,
  \<open>spf_env\<close>, \<open>auth_crypto\<close>, \<open>dkim_env\<close>, \<open>dmarc_env\<close>, \<open>outbox_env\<close> and \<open>worker_env\<close>; witnesses instantiate it with concrete functions.

  \<^bold>\<open>Theories, from the bottom up.\<close>

  \<^item> \<open>Prelude\<close>: bytes, UTF-8, the Rust string operations the sources use (\<open>trim\<close>,
    \<open>split_once\<close>, \<open>eq_ignore_ascii_case\<close>, slices), \<open>i64\<close> wrap-around, association lists,
    and the named collections the component proofs share.
  \<^item> \<open>Mail_Model\<close> (\<open>core/model.rs\<close>): the tenant records.
  \<^item> \<open>Send_Limit\<close> (\<open>core/send_limit.rs\<close>, \<open>core/quota.rs\<close>): send allowances and usage
    months. The stricter of two allowances enforces both.
  \<^item> \<open>Retention\<close> (\<open>core/retention.rs\<close>): effective retention periods.
  \<^item> \<open>Message_Sink\<close> (\<open>core/message.rs\<close>): header parsing, the locale \<open>message_sink\<close> of what
    every intake promises (a refused batch changes nothing, a batch is stored whole or not
    at all, a single message is appended or dropped) and its extension \<open>reliable_sink\<close> for
    a storage that does not fail, interpreted on the in-memory sink; idempotent batches
    are stored once.
  \<^item> \<open>Pg_Sink\<close> (\<open>PgMessageSink\<close> of \<open>db/pg_store.rs\<close>): the intake of the PostgreSQL storage, each call of
    which may fail, as an interpretation of \<open>message_sink\<close>.
  \<^item> \<open>Store_Interface\<close> (the \<open>Store\<close> trait of \<open>core/store.rs\<close>): the operations as a record,
    the locale \<open>smtp_store\<close> of the laws the session relies on, and the address and IP
    credential helpers.
  \<^item> \<open>Mem_Store\<close> (\<open>MemoryStore\<close> of \<open>core/store.rs\<close>): the tables, inserts, deletions, send
    operations with idempotency, counters and thresholds, pruning and re-queuing; the
    store invariant \<open>wf_store\<close> and the interpretation of \<open>smtp_store\<close>.
  \<^item> \<open>Dns_Name\<close> (\<open>config/lib.rs\<close>): domain name normalization.
  \<^item> \<open>Smtp_Session\<close> (\<open>smtp/session.rs\<close>, \<open>core/received_header.rs\<close>): the session record and
    one definition per command, \<open>handle\<close> being the entry point. A step takes the
    session, the store, the sink and a line, and gives all three and the reply, or a
    panic.
  \<^item> \<open>Smtp_Invariant\<close>: the session invariant \<open>session_ok\<close>, kept by every operation over any
    store that satisfies \<open>smtp_store\<close>; the reachability relation \<open>session_reach\<close>, in which
    the store may change arbitrarily between two lines (other connections and the
    API run at the same time), and that lines without leading white space never panic.
  \<^item> \<open>Smtp_Demo\<close>: a concrete store and conversation on which the witnesses run.
  \<^item> \<open>Smtp_Delivery\<close>: the theorems about what reaches the sink, for every \<open>message_sink\<close>: no open
    relay, what a transaction stores, smuggling, limits, rejections, and the defects found.
  \<^item> \<open>Smtp_Encoding\<close>: the request hash encoding, header removal, EHLO framing.
  \<^item> \<open>Spf\<close> (\<open>core/spf.rs\<close>): both evaluators over an arbitrary DNS. \<open>check_host\<close> recurses with a
    depth argument; every recursive call spends one of the ten lookups, so depth 11
    is enough and running out of depth is impossible, which is a theorem.
  \<^item> \<open>Template\<close> (\<open>core/template.rs\<close>): the parser as a total function on the remaining
    input, the renderer by recursion on the syntax tree, with caps and escaping.
  \<^item> \<open>Bounce\<close> (\<open>core/bounce.rs\<close>): classification of replies and notifications, recognition of
    failed delivery notifications, and the correlation token of outgoing mail.
  \<^item> \<open>Smtp_Client\<close> (\<open>worker/smtp_client.rs\<close>): one delivery attempt as a program over a network
    whose events the environment supplies; \<open>Smtp_Client_Safety\<close>: what was sent when the
    client reports success, in order, TLS where it is required, and the lines of the body
    as the line reader of \<open>smtp/server.rs\<close> hands them to a session.
  \<^item> \<open>Sender\<close> (\<open>worker/sender.rs\<close>): relay URLs, MX resolution and the walk over the endpoints.
  \<^item> \<open>Ssrf\<close> (\<open>worker/ssrf.rs\<close>): the address guard of webhook URLs, on 32 and 128 bit words: what
    its own lookup showed it to be internal is refused.
  \<^item> \<open>Lease_Queue\<close>: the abstract lease table (rows that are leased, given back and expire),
    its step relation and runs, and the locale \<open>lease_table\<close>: a table whose statements
    simulate lease steps hands no row out twice within the lock period.
  \<^item> \<open>Delivery_Queue\<close> (\<open>db/queue.rs\<close>), \<open>Webhook_Queue\<close> (\<open>db/webhook_queue.rs\<close> and
    \<open>process_next_webhook\<close> of \<open>worker/worker.rs\<close>) and \<open>Lifecycle\<close> (\<open>core/lifecycle.rs\<close>,
    \<open>db/lifecycle_queue.rs\<close> and \<open>process_next_lifecycle_event\<close>): the three queues as
    interpretations of \<open>lease_table\<close>. A statement of SQL is a function on the list of rows;
    \<open>SKIP LOCKED\<close> is a predicate that says which rows another transaction holds. Fair turns
    between servers, bounded attempts, and signatures that verify and cannot be moved. A
    request is what the worker hands to the HTTP client.
  \<^item> \<open>Tracking\<close> (\<open>worker/tracking.rs\<close>): the HTML part of a message, its transfer encodings, links
    and the open pixel. Only that part changes, quoted-printable is reversible, and the
    links that are rewritten are exactly those of a reading of the page that does not
    refer to the scanner.
  \<^item> \<open>Dkim\<close> (\<open>worker/dkim.rs\<close>): relaxed canonicalization and the signature, beside a verifier after
    RFC 6376 on the fields and lines of a message; what the worker signs, the verifier accepts.
  \<^item> \<open>Mail_Db\<close> (\<open>db/pg_store.rs\<close>, \<open>db/tracking.rs\<close>, \<open>db/webhook_payload.rs\<close>): the tables the worker uses as a
    record of lists and each of its transactions as one function on it: results of deliveries
    with the queue row and the webhook outbox, correlation of bounces, complaints, tokens.
  \<^item> \<open>Reports\<close> (\<open>worker/arf.rs\<close>, \<open>worker/dmarc.rs\<close>): MIME parts, feedback reports and DMARC aggregate reports; the
    XML reader, gzip and zip are arguments. \<open>Inspection\<close> (\<open>worker/inspection.rs\<close>): the spam score and the
    virus scanner, whose stream carries the message exactly.
  \<^item> \<open>Worker\<close> (\<open>worker/worker.rs\<close>): \<open>process_next\<close> and all it calls, as tasks that run one statement after the
    other. Before each statement the other workers and the API may change the tables
    (\<open>wv_between\<close>), and each statement may fail with or without effect (\<open>wv_error\<close>).
    \<open>Worker_Demo\<close>: a concrete installation for the examples.
  \<^item> \<open>Worker_Safety\<close>: the step relation \<open>mail_tx\<close> of the transactions; the locale \<open>run_relation\<close> carries a
    relation through a task, the locale \<open>mail_guarantee\<close> what each transaction guarantees to
    the whole worker when the others guarantee it too. Checks before SMTP, bounced messages.
    \<open>Bounce_Correlation\<close>: from the message sent to the notification that comes back.
    \<open>Worker_Progress\<close>: results are one transaction and the attempts are bounded.
  \<^item> \<open>Accounts\<close> (\<open>core/auth.rs\<close>): tokens, base32, TOTP codes, roles and the account records.
  \<^item> \<open>Account_Store\<close> (the trait \<open>AuthStore\<close> of \<open>core/auth_store.rs\<close>): the operations as a record, what
    callers see of the accounts as \<open>account_view\<close>, and the locale \<open>account_store\<close>: each operation
    \<open>meets\<close> a contract on the view, and a storage error leaves the view alone. The invariant
    counts the ids that are left, since the id counter of the store is 64 bits wide.
  \<^item> \<open>Api_Core\<close> (\<open>api/app.rs\<close>): responses, the ways a handler calls the storage, and \<open>runs\<close>, a Hoare
    triple on views whose rules follow a handler call by call, errors of the storage
    included; \<open>App_Mail\<close> (\<open>api/app_mailer.rs\<close>): the texts of platform mail.
  \<^item> \<open>Account_Api\<close> (\<open>api/auth_api.rs\<close>): login, sessions, passwords, reset links, the second factor and
    invitations; their postconditions, proved for every storage that keeps its contract.
  \<^item> \<open>Access_Control\<close> (\<open>api/app.rs\<close>): \<open>auth_middleware\<close> with key scopes, roles and enforced second
    factor; \<open>Membership_Api\<close> (\<open>api/memberships.rs\<close>): members, invitations, new organizations.
  \<^item> \<open>Id_Table\<close>, \<open>Mem_Accounts\<close> (\<open>MemoryStore\<close> in \<open>core/auth_store.rs\<close>, \<open>core/admin_store.rs\<close>): tables keyed by
    id with a unique column, the in-memory account storage and its interpretation of
    \<open>account_store\<close>.
  \<^item> \<open>Account_Safety\<close>, \<open>Account_Router\<close>, \<open>Membership_Safety\<close>: the theorems on the in-memory storage: who
    gets a session, lockout, single use of links, what no sequence of requests to the login,
    reset, invitation, session and profile routes can do, who changes roles, and the
    defects found.

  \<^bold>\<open>Not modelled.\<close> Sockets, TLS and the asynchronous listener of \<open>smtp/server.rs\<close>; the
  HTTP handlers other than those named above (self-registration, which may make the new account the owner of a new
  organization, and WebAuthn among them), and the delivery of platform mail, which is an operation of the storage record; the SQL of
  \<open>camelmailer-db\<close> outside the queues, the message intake and the transactions of the worker (the
  in-memory store is the reference the code base keeps beside it); what the HTTP client
  does with a request, its name resolution and the redirects it follows; the loops, housekeeping and construction
  of the worker, the parsing of keys and RSA itself (\<open>worker/signer.rs\<close>); configuration
  loading; and of the in-memory store the tables only the web API reads (campaigns,
  streams, stored templates, reports, statistics).
\<close>

end
